(* ===== verification/Prelude.thy ===== *)
theory Prelude
  imports Complex_Main "HOL-Library.AList" "HOL-Library.Word"
begin

text \<open>
  What the component theories share: machine integers and byte strings, Go's
  three ways of leaving a function (a value, an error, a panic), Go maps as
  association lists with the interface the components rely on, and the
  big-endian integer encoding of the package \<open>encoding/binary\<close>.
\<close>

unbundle bit_operations_syntax

section \<open>Machine integers and bytes\<close>

type_synonym byte = "8 word"
type_synonym bytes = "byte list"
type_synonym u16 = "16 word"
type_synonym u32 = "32 word"
type_synonym u64 = "64 word"

named_theorems word_exact \<open>machine arithmetic read as arithmetic on natural numbers\<close>

lemma unat_add_exact [word_exact]:
  fixes x y :: "'a::len word"
  assumes "unat x + unat y < 2 ^ LENGTH('a)"
  shows "unat (x + y) = unat x + unat y"
  using assms by (simp add: unat_word_ariths)

lemma unat_sub_exact [word_exact]:
  fixes x y :: "'a::len word"
  assumes "y \<le> x"
  shows "unat (x - y) = unat x - unat y"
  using assms by (rule unat_sub)

lemma unat_mult_exact [word_exact]:
  fixes x y :: "'a::len word"
  assumes "unat x * unat y < 2 ^ LENGTH('a)"
  shows "unat (x * y) = unat x * unat y"
  using assms by (simp add: unat_word_ariths)

text \<open>The overflow test \<open>x + y < x\<close> of unsigned addition is exact.\<close>

lemma add_overflow_iff:
  fixes x y :: "'a::len word"
  shows "x + y < x \<longleftrightarrow> 2 ^ LENGTH('a) \<le> unat x + unat y"
proof (cases "unat x + unat y < 2 ^ LENGTH('a)")
  case True
  then show ?thesis by (simp add: word_less_nat_alt unat_add_exact)
next
  case False
  have x: "unat x < 2 ^ LENGTH('a)" and y: "unat y < 2 ^ LENGTH('a)"
    by (rule unsigned_less)+
  have "unat x + unat y - 2 ^ LENGTH('a) < 2 ^ LENGTH('a)"
    using x y by linarith
  then have "unat (x + y) = unat x + unat y - 2 ^ LENGTH('a)"
    using False by (simp add: unat_word_ariths le_mod_geq)
  then have "unat (x + y) < unat x"
    using False y by linarith
  with False show ?thesis by (simp add: word_less_nat_alt)
qed

section \<open>Results of Go functions\<close>

text \<open>
  A Go function returns normally, returns a non-nil error, or panics (a nil
  dereference, an index out of range). A function that changes state returns
  the state it leaves behind beside its result, because an error does not undo
  the writes made before it.
\<close>

datatype ('e, 'a) res = Ok 'a | Err 'e | Panic

fun is_Ok :: "('e, 'a) res \<Rightarrow> bool" where
  "is_Ok (Ok _) = True"
| "is_Ok _ = False"

lemma is_Ok_iff: "is_Ok r \<longleftrightarrow> (\<exists>x. r = Ok x)"
  by (cases r) auto

text \<open>
  \<open>pkg/errors.Wrap\<close> and \<open>Wrapf\<close> return nil when the wrapped error is nil; the
  message does not matter to any caller, which compares or tests for nil only.
\<close>

definition errors_Wrap :: "'e option \<Rightarrow> 'e option" where
  "errors_Wrap e = e"

section \<open>Go maps\<close>

text \<open>
  A Go map is an association list with at most one entry per key. Its order
  stands for the order in which a \<open>range\<close> loop happens to visit the entries;
  the theorems about loops whose result could depend on that order are stated
  for every order.
\<close>

type_synonym ('k, 'v) gomap = "('k \<times> 'v) list"

abbreviation mget :: "('k, 'v) gomap \<Rightarrow> 'k \<Rightarrow> 'v option" where
  "mget m k \<equiv> map_of m k"

abbreviation mput :: "'k \<Rightarrow> 'v \<Rightarrow> ('k, 'v) gomap \<Rightarrow> ('k, 'v) gomap" where
  "mput \<equiv> AList.update"

abbreviation mdel :: "'k \<Rightarrow> ('k, 'v) gomap \<Rightarrow> ('k, 'v) gomap" where
  "mdel \<equiv> AList.delete"

abbreviation mkeys :: "('k, 'v) gomap \<Rightarrow> 'k list" where
  "mkeys m \<equiv> map fst m"

abbreviation minv :: "('k, 'v) gomap \<Rightarrow> bool" where
  "minv m \<equiv> distinct (map fst m)"

text \<open>
  The interface: what a lookup returns after each write, and that writes keep
  one entry per key. The client lemmas are about the two loops the code runs
  over a map: copying entries into another map, and overlaying a map of
  changes in which a nil pointer marks a deletion.
\<close>

locale go_map =
  fixes get :: "'m \<Rightarrow> 'k \<Rightarrow> 'v option"
    and put :: "'k \<Rightarrow> 'v \<Rightarrow> 'm \<Rightarrow> 'm"
    and del :: "'k \<Rightarrow> 'm \<Rightarrow> 'm"
    and inv :: "'m \<Rightarrow> bool"
  assumes get_put: "get (put k v m) k' = (if k' = k then Some v else get m k')"
    and get_del: "get (del k m) k' = (if k' = k then None else get m k')"
    and inv_put: "inv m \<Longrightarrow> inv (put k v m)"
    and inv_del: "inv m \<Longrightarrow> inv (del k m)"
begin

lemma get_fold_put:
  assumes "distinct (map fst kvs)"
  shows "get (fold (\<lambda>(k, v). put k v) kvs m) k =
    (case map_of kvs k of Some v \<Rightarrow> Some v | None \<Rightarrow> get m k)"
  using assms
proof (induction kvs arbitrary: m)
  case Nil
  then show ?case by simp
next
  case (Cons kv kvs)
  obtain k1 v1 where kv: "kv = (k1, v1)" by (cases kv)
  have fresh: "map_of kvs k1 = None"
    using Cons.prems by (simp add: kv map_of_eq_None_iff)
  have "get (fold (\<lambda>(k, v). put k v) (kv # kvs) m) k =
      (case map_of kvs k of Some v \<Rightarrow> Some v | None \<Rightarrow> get (put k1 v1 m) k)"
    using Cons by (simp add: kv)
  then show ?case by (auto simp: kv get_put fresh split: option.splits)
qed

lemma inv_fold_put: "inv m \<Longrightarrow> inv (fold (\<lambda>(k, v). put k v) kvs m)"
  by (induction kvs arbitrary: m) (auto simp: inv_put)

lemma get_fold_overlay:
  assumes "distinct (map fst kvs)"
  shows "get (fold (\<lambda>(k, ov) m. case ov of Some v \<Rightarrow> put k v m | None \<Rightarrow> del k m) kvs m) k =
    (case map_of kvs k of Some ov \<Rightarrow> ov | None \<Rightarrow> get m k)"
  using assms
proof (induction kvs arbitrary: m)
  case Nil
  then show ?case by simp
next
  case (Cons kv kvs)
  obtain k1 v1 where kv: "kv = (k1, v1)" by (cases kv)
  have fresh: "map_of kvs k1 = None"
    using Cons.prems by (simp add: kv map_of_eq_None_iff)
  show ?case
    using Cons fresh by (auto simp: kv get_put get_del split: option.splits)
qed

lemma inv_fold_overlay:
  "inv m \<Longrightarrow>
    inv (fold (\<lambda>(k, ov) m. case ov of Some v \<Rightarrow> put k v m | None \<Rightarrow> del k m) kvs m)"
  by (induction kvs arbitrary: m) (auto simp: inv_put inv_del split: option.splits)

lemma get_fold_del:
  "get (fold del ks m) k = (if k \<in> set ks then None else get m k)"
  by (induction ks arbitrary: m) (auto simp: get_del)

lemma inv_fold_del: "inv m \<Longrightarrow> inv (fold del ks m)"
  by (induction ks arbitrary: m) (auto simp: inv_del)

end

interpretation gm: go_map map_of AList.update AList.delete "\<lambda>m. distinct (map fst m)"
  by unfold_locales
    (auto simp: update_conv' delete_conv' distinct_update distinct_delete)

lemma mget_mput [simp]: "mget (mput k v m) k' = (if k' = k then Some v else mget m k')"
  by (rule gm.get_put)

lemma mget_mdel [simp]: "mget (mdel k m) k' = (if k' = k then None else mget m k')"
  by (rule gm.get_del)

lemma minv_mput [simp]: "minv m \<Longrightarrow> minv (mput k v m)"
  by (rule gm.inv_put)

lemma minv_mdel [simp]: "minv m \<Longrightarrow> minv (mdel k m)"
  by (rule gm.inv_del)

lemma set_mput: "minv m \<Longrightarrow> set (mput k v m) = insert (k, v) {kv \<in> set m. fst kv \<noteq> k}"
proof (induction m)
  case Nil
  then show ?case by simp
next
  case (Cons kv m)
  then show ?case by (cases kv) (force simp: image_iff)
qed

lemma mget_mem: "minv m \<Longrightarrow> mget m k = Some v \<longleftrightarrow> (k, v) \<in> set m"
  by simp

section \<open>Big-endian integers\<close>

text \<open>
  \<open>binary.BigEndian.PutUint32/PutUint64\<close> and \<open>Uint32/Uint64\<close>: \<open>n\<close> bytes, the
  most significant first. Reading looks at the first \<open>n\<close> bytes only.
\<close>

definition PutUint :: "nat \<Rightarrow> 'a::len word \<Rightarrow> bytes" where
  "PutUint n w = map (\<lambda>i. ucast (drop_bit (8 * (n - 1 - i)) w)) [0..<n]"

definition Uint :: "nat \<Rightarrow> bytes \<Rightarrow> 'a::len word" where
  "Uint n b = foldl (\<lambda>w x. push_bit 8 w OR ucast x) 0 (take n b)"

lemma length_PutUint [simp]: "length (PutUint n w) = n"
  by (simp add: PutUint_def)

lemma PutUint_Suc:
  "PutUint (Suc n) w = ucast (drop_bit (8 * n) w) # PutUint n w"
proof (rule nth_equalityI)
  fix i
  assume "i < length (PutUint (Suc n) w)"
  then show "PutUint (Suc n) w ! i = (ucast (drop_bit (8 * n) w) # PutUint n w) ! i"
    by (cases i) (auto simp: PutUint_def nth_append simp del: upt_Suc)
qed simp

lemma fold_PutUint:
  fixes w acc :: "'a::len word"
  shows "foldl (\<lambda>w x. push_bit 8 w OR ucast x) acc (PutUint n w) =
    push_bit (8 * n) acc OR take_bit (8 * n) w"
proof (induction n arbitrary: acc)
  case 0
  then show ?case by (simp add: PutUint_def)
next
  case (Suc n)
  have "bit (push_bit (8 * n) (push_bit 8 acc OR ucast (ucast (drop_bit (8 * n) w) :: byte)) OR take_bit (8 * n) w) i
     = bit (push_bit (8 * Suc n) acc OR take_bit (8 * Suc n) w) i" if "i < LENGTH('a)" for i
  proof (cases "i < 8 * n")
    case True
    with that show ?thesis by (simp add: bit_or_iff bit_push_bit_iff bit_take_bit_iff)
  next
    case False
    then obtain j where j: "i = 8 * n + j" by (metis le_Suc_ex not_less)
    with that show ?thesis
      by (auto simp add: bit_or_iff bit_push_bit_iff bit_take_bit_iff bit_ucast_iff bit_drop_bit_eq
         dest: bit_imp_le_length)
  qed
  then show ?case
    by (auto simp: PutUint_Suc Suc.IH intro: bit_word_eqI)
qed

lemma Uint_PutUint:
  fixes w :: "'a::len word"
  assumes "LENGTH('a) \<le> 8 * n"
  shows "Uint n (PutUint n w @ rest) = w"
  using assms by (simp add: Uint_def fold_PutUint take_bit_word_eq_self)
end
