(* ===== verification/Hash_Proto.thy ===== *)
theory Hash_Proto
  imports Prelude
begin

text \<open>
  Hashes and the identifiers made of them: \<open>crypto/hash/hash.go\<close> (the textual
  form of a hash and back), and the account addresses, database ids, node ids
  and ring keys of \<open>proto/proto.go\<close> and \<open>proto/nodeinfo.go\<close>. A \<open>[32]byte\<close> array
  is a byte list of length 32. \<open>THashH\<close> (BLAKE2b then SHA-256) and \<open>HashH\<close>
  (SHA-256) are parameters.
\<close>

section \<open>Hexadecimal text\<close>

text \<open>The parts of \<open>encoding/hex\<close> that the code calls.\<close>

definition hex_digits :: string where
  "hex_digits = ''0123456789abcdef''"

definition hex_EncodeToString :: "bytes \<Rightarrow> string" where
  "hex_EncodeToString bs =
     concat (map (\<lambda>b. [hex_digits ! (unat b div 16), hex_digits ! (unat b mod 16)]) bs)"

definition from_hex_char :: "char \<Rightarrow> nat option" where
  "from_hex_char c =
     (let n = of_char c :: nat in
      if 48 \<le> n \<and> n \<le> 57 then Some (n - 48)
      else if 97 \<le> n \<and> n \<le> 102 then Some (n - 97 + 10)
      else if 65 \<le> n \<and> n \<le> 70 then Some (n - 65 + 10)
      else None)"

fun hex_Decode :: "string \<Rightarrow> bytes option" where
  "hex_Decode [] = Some []"
| "hex_Decode [c] = None"
| "hex_Decode (c # d # cs) =
     (case (from_hex_char c, from_hex_char d, hex_Decode cs) of
        (Some a, Some b, Some bs) \<Rightarrow> Some (of_nat (a * 16 + b) # bs)
      | _ \<Rightarrow> None)"

text \<open>\<open>strconv\<close>/\<open>fmt\<close> rendering of an unsigned number in base ten.\<close>

fun itoa :: "nat \<Rightarrow> string" where
  "itoa n = (if n < 10 then [hex_digits ! n] else itoa (n div 10) @ [hex_digits ! (n mod 10)])"

declare itoa.simps [simp del]

section \<open>Hash\<close>

type_synonym hash = bytes

definition HashSize :: nat where
  "HashSize = 32"

definition MaxHashStringSize :: nat where
  "MaxHashStringSize = HashSize * 2"

definition is_hash :: "hash \<Rightarrow> bool" where
  "is_hash h \<longleftrightarrow> length h = HashSize"

definition zero_hash :: hash where
  "zero_hash = replicate HashSize 0"

datatype hash_error = ErrHashStrSize | ErrHexDecode | ErrHashLength | ErrNilPublicKey

definition swap_ends :: "nat \<Rightarrow> hash \<Rightarrow> hash" where
  "swap_ends i h = h[i := h ! (HashSize - 1 - i), HashSize - 1 - i := h ! i]"

definition hash_String :: "hash \<Rightarrow> string" where
  "hash_String h = hex_EncodeToString (fold swap_ends [0..<HashSize div 2] h)"

definition hash_Short :: "hash \<Rightarrow> nat \<Rightarrow> string" where
  "hash_Short h n =
     (let r = fold swap_ends [0..<HashSize div 2] h;
          l = (if n < HashSize then n else HashSize)
      in hex_EncodeToString (take l r))"

definition hash_SetBytes :: "hash \<Rightarrow> bytes \<Rightarrow> (hash_error, hash) res" where
  "hash_SetBytes h newHash =
     (if length newHash \<noteq> HashSize then Err ErrHashLength else Ok newHash)"

definition NewHash :: "bytes \<Rightarrow> (hash_error, hash) res" where
  "NewHash newHash = hash_SetBytes zero_hash newHash"

definition hash_Decode :: "hash \<Rightarrow> string \<Rightarrow> (hash_error, hash) res" where
  "hash_Decode dst src =
     (if length src > MaxHashStringSize then Err ErrHashStrSize
      else
        let srcBytes = (if even (length src) then src else CHR ''0'' # src) in
        case hex_Decode srcBytes of
          None \<Rightarrow> Err ErrHexDecode
        | Some bs \<Rightarrow>
            let r = replicate (HashSize - length bs) 0 @ bs
            in Ok (fold (\<lambda>i d. d[i := r ! (HashSize - 1 - i), HashSize - 1 - i := r ! i])
                 [0..<HashSize div 2] dst))"

definition NewHashFromStr :: "string \<Rightarrow> (hash_error, hash) res" where
  "NewHashFromStr s = hash_Decode zero_hash s"

text \<open>
  \<open>bits.LeadingZeros8\<close>, and the number of leading zero bits of a hash read from
  its last byte down.
\<close>

definition LeadingZeros8 :: "byte \<Rightarrow> nat" where
  "LeadingZeros8 v = length (takeWhile (\<lambda>i. \<not> bit v i) (rev [0..<8]))"

fun difficulty_loop :: "nat \<Rightarrow> bytes \<Rightarrow> int" where
  "difficulty_loop i [] = int (HashSize * 8)"
| "difficulty_loop i (v # vs) =
     (if v \<noteq> 0 then int (8 * i + LeadingZeros8 v) else difficulty_loop (Suc i) vs)"

definition hash_Difficulty :: "hash option \<Rightarrow> int" where
  "hash_Difficulty h =
     (case h of None \<Rightarrow> -1
      | Some h \<Rightarrow> difficulty_loop 0 (map (\<lambda>i. h ! (HashSize - i - 1)) [0..<HashSize]))"

section \<open>Account addresses and database ids\<close>

type_synonym AccountAddress = hash
type_synonym DatabaseID = string
type_synonym NodeID = string

definition address_DatabaseID :: "AccountAddress \<Rightarrow> DatabaseID" where
  "address_DatabaseID z = hash_String z"

definition databaseID_AccountAddress :: "DatabaseID \<Rightarrow> (hash_error, AccountAddress) res" where
  "databaseID_AccountAddress d = NewHashFromStr d"

definition string_bytes :: "string \<Rightarrow> bytes" where
  "string_bytes s = map (\<lambda>c. of_nat (of_char c)) s"

definition FromAccountAndNonce ::
    "(bytes \<Rightarrow> hash) \<Rightarrow> AccountAddress \<Rightarrow> u32 \<Rightarrow> DatabaseID" where
  "FromAccountAndNonce THashH a nonce =
     hash_String (THashH (string_bytes (hash_String a @ itoa (unat nonce))))"

text \<open>
  \<open>crypto/address.go\<close>. A public key is represented by the bytes it marshals to,
  which never fails; a nil key is \<open>None\<close>.
\<close>

type_synonym PublicKey = bytes

definition PubKeyHash ::
    "(bytes \<Rightarrow> hash) \<Rightarrow> PublicKey option \<Rightarrow> (hash_error, AccountAddress) res" where
  "PubKeyHash THashH pubKey =
     (case pubKey of None \<Rightarrow> Err ErrNilPublicKey | Some enc \<Rightarrow> Ok (THashH enc))"

section \<open>Node ids and ring keys\<close>

definition rawNodeID_ToNodeID :: "hash option \<Rightarrow> NodeID" where
  "rawNodeID_ToNodeID i = (case i of None \<Rightarrow> '''' | Some h \<Rightarrow> hash_String h)"

definition nodeID_ToRawNodeID :: "NodeID \<Rightarrow> hash option" where
  "nodeID_ToRawNodeID i = (case NewHashFromStr i of Ok h \<Rightarrow> Some h | _ \<Rightarrow> None)"

text \<open>
  \<open>IsEmpty\<close> calls \<open>IsEqual\<close> on the result of \<open>ToRawNodeID\<close>, which is nil for a
  string that is not a hash: selecting the embedded hash of nil panics.
\<close>

definition nodeID_IsEmpty :: "NodeID option \<Rightarrow> (hash_error, bool) res" where
  "nodeID_IsEmpty i =
     (case i of None \<Rightarrow> Ok True
      | Some s \<Rightarrow>
          if s = '''' then Ok True
          else (case nodeID_ToRawNodeID s of
                  None \<Rightarrow> Panic
                | Some h \<Rightarrow> Ok (h = zero_hash)))"

definition nodeID_Difficulty :: "NodeID option \<Rightarrow> int" where
  "nodeID_Difficulty i =
     (case i of None \<Rightarrow> -1
      | Some s \<Rightarrow>
          if length s \<noteq> HashSize * 2 then -1
          else (case NewHashFromStr s of Ok h \<Rightarrow> hash_Difficulty (Some h) | _ \<Rightarrow> -1))"

text \<open>
  \<open>MarshalBinary\<close> slices the decoded hash even when decoding failed: the nil
  pointer is dereferenced and the call panics.
\<close>

definition nodeID_MarshalBinary :: "NodeID option \<Rightarrow> (hash_error, bytes) res" where
  "nodeID_MarshalBinary i =
     (case i of None \<Rightarrow> Ok []
      | Some s \<Rightarrow> (case NewHashFromStr s of Ok h \<Rightarrow> Ok h | _ \<Rightarrow> Panic))"

definition nodeID_UnmarshalBinary :: "bytes \<Rightarrow> (hash_error, NodeID) res" where
  "nodeID_UnmarshalBinary keyBytes =
     (if length keyBytes = 64 then Ok (map (\<lambda>b. char_of (unat b)) keyBytes)
      else (case NewHash keyBytes of
              Ok h \<Rightarrow> Ok (hash_String h)
            | Err e \<Rightarrow> Err e
            | Panic \<Rightarrow> Panic))"

type_synonym NodeKey = hash

fun nodeKey_Less :: "NodeKey \<Rightarrow> NodeKey \<Rightarrow> bool" where
  "nodeKey_Less (x # xs) (y # ys) = (if x = y then nodeKey_Less xs ys else x < y)"
| "nodeKey_Less _ _ = False"

section \<open>Peers\<close>

text \<open>\<open>proto/servers.go\<close>: the servers of a chain or of a database and their leader.\<close>

record PeersHeader =
  ph_Version :: u64
  ph_Term :: u64
  ph_Leader :: NodeID
  ph_Servers :: "NodeID list"

text \<open>The index of the first server with the given id.\<close>

fun find_loop :: "NodeID \<Rightarrow> nat \<Rightarrow> NodeID list \<Rightarrow> nat option" where
  "find_loop key i [] = None"
| "find_loop key i (s # ss) = (if key = s then Some i else find_loop key (Suc i) ss)"

definition peers_Find :: "PeersHeader \<Rightarrow> NodeID \<Rightarrow> nat option" where
  "peers_Find p key = find_loop key 0 (ph_Servers p)"

section \<open>The textual form\<close>

lemma hex_char_digit:
  assumes "n < 16"
  shows "from_hex_char (hex_digits ! n) = Some n"
proof -
  have "\<forall>n \<in> set [0..<16]. from_hex_char (hex_digits ! n) = Some n"
    by code_simp
  then show ?thesis using assms by simp
qed

lemma unat_byte_lt: "unat (b :: byte) < 256"
  using unsigned_less [of b] by simp

lemma hex_Decode_Encode: "hex_Decode (hex_EncodeToString bs) = Some bs"
proof (induction bs)
  case Nil
  then show ?case by (simp add: hex_EncodeToString_def)
next
  case (Cons b bs)
  have "unat b div 16 < 16" "unat b mod 16 < 16"
    using unat_byte_lt [of b] by auto
  moreover have "of_nat (unat b div 16 * 16 + unat b mod 16) = b"
    by (simp add: div_mult_mod_eq)
  ultimately show ?case
    using Cons by (simp add: hex_EncodeToString_def hex_char_digit)
qed

lemma length_hex_EncodeToString [simp]: "length (hex_EncodeToString bs) = 2 * length bs"
  by (induction bs) (auto simp: hex_EncodeToString_def)

lemma length_swap_ends [simp]: "length (swap_ends i h) = length h"
  by (simp add: swap_ends_def)

text \<open>Both loops leave the reversed array: position by position, after \<open>m\<close> rounds.\<close>

lemma swap_ends_rounds:
  assumes "length h = HashSize" and "m \<le> HashSize div 2" and "j < HashSize"
  shows "length (fold swap_ends [0..<m] h) = HashSize \<and>
    fold swap_ends [0..<m] h ! j =
      (if j < m \<or> HashSize - 1 - j < m then h ! (HashSize - 1 - j) else h ! j)"
  using assms(2,3)
proof (induction m arbitrary: j)
  case 0
  then show ?case using assms(1) by simp
next
  case (Suc m)
  have m: "m \<le> HashSize div 2" "m < HashSize" "HashSize - 1 - m < HashSize"
    using Suc.prems by (auto simp: HashSize_def)
  note at = Suc.IH [OF m(1)]
  show ?case
    using Suc.prems at [OF m(2)] at [OF m(3)] at [OF Suc.prems(2)]
    by (auto simp: swap_ends_def nth_list_update HashSize_def)
qed

lemma swap_ends_rev:
  assumes "is_hash h"
  shows "fold swap_ends [0..<HashSize div 2] h = rev h"
proof (rule nth_equalityI)
  have len: "length h = HashSize" using assms by (simp add: is_hash_def)
  show "length (fold swap_ends [0..<HashSize div 2] h) = length (rev h)"
    using swap_ends_rounds [OF len order_refl, of 0] len by (simp add: HashSize_def)
  fix j
  assume "j < length (fold swap_ends [0..<HashSize div 2] h)"
  then have "j < HashSize"
    using swap_ends_rounds [OF len order_refl, of 0] by (simp add: HashSize_def)
  then show "fold swap_ends [0..<HashSize div 2] h ! j = rev h ! j"
    using swap_ends_rounds [OF len order_refl, of j] len
    by (auto simp: rev_nth HashSize_def)
qed

lemma reverse_copy_rounds:
  assumes "length d = HashSize" and "m \<le> HashSize div 2" and "j < HashSize"
  shows "length (fold (\<lambda>i d. d[i := r ! (HashSize - 1 - i), HashSize - 1 - i := r ! i]) [0..<m] d)
        = HashSize \<and>
    fold (\<lambda>i d. d[i := r ! (HashSize - 1 - i), HashSize - 1 - i := r ! i]) [0..<m] d ! j =
      (if j < m \<or> HashSize - 1 - j < m then r ! (HashSize - 1 - j) else d ! j)"
  using assms(2,3)
proof (induction m arbitrary: j)
  case 0
  then show ?case using assms(1) by simp
next
  case (Suc m)
  have m: "m \<le> HashSize div 2" "m < HashSize" "HashSize - 1 - m < HashSize"
    using Suc.prems by (auto simp: HashSize_def)
  show ?case
    using Suc.prems Suc.IH [OF m(1) m(2)] Suc.IH [OF m(1) Suc.prems(2)]
    by (auto simp: nth_list_update HashSize_def)
qed

lemma reverse_copy_rev:
  assumes "length d = HashSize" and "length r = HashSize"
  shows "fold (\<lambda>i d. d[i := r ! (HashSize - 1 - i), HashSize - 1 - i := r ! i])
    [0..<HashSize div 2] d = rev r" (is "?f = _")
proof (rule nth_equalityI)
  have len: "length ?f = HashSize"
    using reverse_copy_rounds [OF assms(1) order_refl, of 0 r] by (simp add: HashSize_def)
  then show "length ?f = length (rev r)" using assms by simp
  fix j
  assume "j < length ?f"
  then have "j < HashSize" using len by simp
  then show "?f ! j = rev r ! j"
    using reverse_copy_rounds [OF assms(1) order_refl, of j r] assms
    by (auto simp: rev_nth HashSize_def)
qed

lemma hash_String_eq: "is_hash h \<Longrightarrow> hash_String h = hex_EncodeToString (rev h)"
  by (simp add: hash_String_def swap_ends_rev)

lemma length_hash_String: "is_hash h \<Longrightarrow> length (hash_String h) = MaxHashStringSize"
  by (simp add: hash_String_eq is_hash_def MaxHashStringSize_def)

lemma hash_Decode_String:
  assumes "is_hash h" and "is_hash dst"
  shows "hash_Decode dst (hash_String h) = Ok h"
proof -
  have len: "length h = HashSize" "length dst = HashSize"
    using assms by (simp_all add: is_hash_def)
  have "hex_Decode (hash_String h) = Some (rev h)"
    using assms by (simp add: hash_String_eq hex_Decode_Encode)
  moreover have "length (hash_String h) = MaxHashStringSize"
    using assms by (simp add: length_hash_String)
  ultimately show ?thesis
    using reverse_copy_rev [OF len(2), of "rev h"] len
    by (simp add: hash_Decode_def MaxHashStringSize_def)
qed

lemma is_hash_zero [simp]: "is_hash zero_hash"
  by (simp add: is_hash_def zero_hash_def)

lemma hash_String_inj: "is_hash a \<Longrightarrow> is_hash b \<Longrightarrow> hash_String a = hash_String b \<longleftrightarrow> a = b"
  by (metis hash_Decode_String is_hash_zero res.inject(1))

section \<open>Difficulty\<close>

text \<open>The number a byte list stands for, most significant byte first.\<close>

definition be_nat :: "bytes \<Rightarrow> nat" where
  "be_nat bs = foldl (\<lambda>a b. a * 256 + unat b) 0 bs"

lemma be_nat_foldl: "foldl (\<lambda>a b. a * 256 + unat b) n bs = n * 256 ^ length bs + be_nat bs"
  unfolding be_nat_def
proof (induction bs arbitrary: n rule: rev_induct)
  case Nil
  then show ?case by simp
next
  case (snoc b bs)
  from snoc.IH [of n] show ?case by (simp add: algebra_simps)
qed

lemma be_nat_Nil [simp]: "be_nat [] = 0"
  by (simp add: be_nat_def)

lemma be_nat_Cons [simp]: "be_nat (b # bs) = unat b * 256 ^ length bs + be_nat bs"
  using be_nat_foldl [of "unat b" bs] by (simp add: be_nat_def)

lemma be_nat_less: "be_nat bs < 256 ^ length bs"
proof (induction bs)
  case Nil
  then show ?case by simp
next
  case (Cons b bs)
  have "unat b * 256 ^ length bs + be_nat bs < (unat b + 1) * 256 ^ length bs"
    using Cons by simp
  also have "\<dots> \<le> 256 * 256 ^ length bs"
    using unat_byte_lt [of b] by (intro mult_right_mono) auto
  finally show ?case by simp
qed

lemma bit_unat_ge: "bit (v :: byte) n \<Longrightarrow> 2 ^ n \<le> unat v"
proof -
  assume "bit v n"
  then have "bit (unat v) n" by (simp add: bit_unsigned_iff)
  then have "odd (unat v div 2 ^ n)" by (simp add: bit_iff_odd)
  then have "unat v div 2 ^ n \<noteq> 0" using odd_pos by blast
  then show ?thesis by (simp add: div_eq_0_iff)
qed

lemma unbit_unat_less:
  assumes "\<And>i. n \<le> i \<Longrightarrow> \<not> bit (v :: byte) i"
  shows "unat v < 2 ^ n"
proof -
  have "take_bit n v = v"
    by (rule bit_word_eqI) (use assms in \<open>auto simp: bit_take_bit_iff not_le [symmetric]\<close>)
  then have "take_bit n (unat v) = unat v" by (metis unsigned_take_bit_eq)
  then show ?thesis by (metis take_bit_nat_less_exp)
qed

lemma LeadingZeros8_bounds:
  assumes "v \<noteq> 0"
  shows "LeadingZeros8 v < 8 \<and> 2 ^ (7 - LeadingZeros8 v) \<le> unat v \<and> unat v < 2 ^ (8 - LeadingZeros8 v)"
proof -
  define xs where "xs = rev [0..<8::nat]"
  define z where "z = length (takeWhile (\<lambda>i. \<not> bit v i) xs)"
  have xs: "length xs = 8" "i < 8 \<Longrightarrow> xs ! i = 7 - i" for i
    by (auto simp: xs_def rev_nth)
  have "\<exists>i < 8. bit v i"
  proof (rule ccontr)
    assume "\<not> ?thesis"
    then have "v = 0" by (intro bit_word_eqI) auto
    with assms show False ..
  qed
  then have ex: "\<exists>i \<in> set xs. bit v i" by (auto simp: xs_def)
  then have z8: "z < 8"
    unfolding z_def xs(1) [symmetric]
    by (metis length_takeWhile_le le_neq_implies_less set_takeWhileD takeWhile_eq_all_conv
        takeWhile_eq_take take_all_iff)
  then have hit: "bit v (7 - z)"
    using nth_length_takeWhile [of "\<lambda>i. \<not> bit v i" xs] xs by (simp add: z_def)
  have miss: "\<not> bit v i" if "8 - z \<le> i" for i
  proof (cases "i < 8")
    case True
    then have "7 - i < z" using that z8 by linarith
    moreover have "xs ! (7 - i) = i" using True xs(2) [of "7 - i"] by simp
    ultimately show ?thesis
      using takeWhile_nth [of "7 - i" "\<lambda>i. \<not> bit v i" xs] set_takeWhileD
      unfolding z_def by (metis nth_mem)
  next
    case False
    then show ?thesis using bit_imp_le_length [of v i] by auto
  qed
  show ?thesis
    using z8 bit_unat_ge [OF hit] unbit_unat_less [of "8 - z" v] miss
    by (simp add: LeadingZeros8_def z_def [symmetric] xs_def [symmetric])
qed
lemma difficulty_loop_bounds:
  assumes "length vs + i = HashSize"
  shows "(be_nat vs = 0 \<longrightarrow> difficulty_loop i vs = 256) \<and>
    (be_nat vs \<noteq> 0 \<longrightarrow> (\<exists>d. difficulty_loop i vs = int d \<and> d < 256 \<and>
       2 ^ (255 - d) \<le> be_nat vs \<and> be_nat vs < 2 ^ (256 - d)))"
  using assms
proof (induction vs arbitrary: i)
  case Nil
  then show ?case by (simp add: HashSize_def)
next
  case (Cons v vs)
  show ?case
  proof (cases "v = 0")
    case True
    with Cons show ?thesis by simp
  next
    case False
    define z where "z = LeadingZeros8 v"
    have z: "z < 8" "2 ^ (7 - z) \<le> unat v" "unat v < 2 ^ (8 - z)"
      using LeadingZeros8_bounds [OF False] by (simp_all add: z_def)
    define l where "l = length vs"
    have il: "i + l = 31" using Cons.prems by (simp add: l_def HashSize_def)
    have p: "(256::nat) ^ l = 2 ^ (8 * l)" by (simp add: power_mult)
    have "2 ^ (255 - (8 * i + z)) = (2::nat) ^ (7 - z) * 2 ^ (8 * l)"
      using il z(1) by (simp flip: power_add)
    also have "\<dots> \<le> unat v * 2 ^ (8 * l)" using z(2) by simp
    finally have lo: "2 ^ (255 - (8 * i + z)) \<le> be_nat (v # vs)"
      by (simp add: p l_def [symmetric])
    have "be_nat (v # vs) < (unat v + 1) * 2 ^ (8 * l)"
      using be_nat_less [of vs] by (simp add: p l_def [symmetric])
    also have "\<dots> \<le> 2 ^ (8 - z) * 2 ^ (8 * l)"
      using z(3) by (intro mult_right_mono) auto
    also have "\<dots> = 2 ^ (256 - (8 * i + z))"
      using il z(1) by (simp flip: power_add)
    finally have hi: "be_nat (v # vs) < 2 ^ (256 - (8 * i + z))" .
    have "8 * i + z < 256" using il z(1) by linarith
    moreover have "be_nat (v # vs) \<noteq> 0" using lo by (metis le_zero_eq power_eq_0_iff zero_neq_numeral)
    moreover have "difficulty_loop i (v # vs) = int (8 * i + z)"
      using False by (simp add: z_def)
    ultimately show ?thesis
      using lo hi by blast
  qed
qed

lemma hash_rev_bytes: "is_hash h \<Longrightarrow> map (\<lambda>i. h ! (HashSize - i - 1)) [0..<HashSize] = rev h"
  by (rule nth_equalityI) (auto simp: is_hash_def rev_nth)

text \<open>
  \<open>Hash.Difficulty\<close> counts leading zero bits: for the number \<open>N\<close> that the
  reversed hash stands for, the difficulty \<open>d\<close> is 256 when \<open>N\<close> is zero and
  otherwise the unique \<open>d\<close> below 256 with \<open>N\<close> between \<open>2^(255-d)\<close> and \<open>2^(256-d)\<close>.
\<close>

theorem Difficulty_counts_zero_bits:
  assumes "is_hash h"
  shows "(be_nat (rev h) = 0 \<longrightarrow> hash_Difficulty (Some h) = 256) \<and>
    (be_nat (rev h) \<noteq> 0 \<longrightarrow> (\<exists>d. hash_Difficulty (Some h) = int d \<and> d < 256 \<and>
       2 ^ (255 - d) \<le> be_nat (rev h) \<and> be_nat (rev h) < 2 ^ (256 - d)))"
proof -
  have "hash_Difficulty (Some h) = difficulty_loop 0 (rev h)"
    by (simp only: hash_Difficulty_def option.case hash_rev_bytes [OF assms])
  then show ?thesis
    using difficulty_loop_bounds [of "rev h" 0] assms by (simp add: is_hash_def)
qed

text \<open>At the hash whose last byte is 1 and whose other bytes are 0, seven bits lead.\<close>

theorem Difficulty_counts_zero_bits_witness:
  "is_hash (replicate 31 0 @ [1]) \<and> hash_Difficulty (Some (replicate 31 0 @ [1])) = 7 \<and>
   2 ^ 248 \<le> be_nat (rev (replicate 31 0 @ [1])) \<and> be_nat (rev (replicate 31 0 @ [1])) < 2 ^ 249"
proof -
  have h: "is_hash (replicate 31 0 @ [1])" by (simp add: is_hash_def HashSize_def)
  have d: "hash_Difficulty (Some (replicate 31 0 @ [1])) = 7"
    by (simp add: hash_Difficulty_def HashSize_def upt_conv_Cons LeadingZeros8_def numeral_eq_Suc)
  have "be_nat (rev (replicate 31 0 @ [1])) \<noteq> 0" by simp
  then obtain n where n: "hash_Difficulty (Some (replicate 31 0 @ [1])) = int n"
      "2 ^ (255 - n) \<le> be_nat (rev (replicate 31 0 @ [1]))"
      "be_nat (rev (replicate 31 0 @ [1])) < 2 ^ (256 - n)"
    using Difficulty_counts_zero_bits [OF h] by blast
  from n(1) d have "n = 7" by linarith
  with n(2,3) h d show ?thesis by (simp only: simp_thms) simp
qed

text \<open>
  database ids and account addresses determine each other. The id made for a
  new database is the text of a hash, converting it back never fails, and the
  address it gives has that id again: the error branch after \<open>dbID.AccountAddress()\<close>
  in \<open>matchProvidersWithUser\<close> cannot be taken.
\<close>

theorem database_id_roundtrip:
  assumes THashH: "\<And>b. is_hash (THashH b)"
  shows "\<exists>a. databaseID_AccountAddress (FromAccountAndNonce THashH owner nonce) = Ok a \<and>
    is_hash a \<and> address_DatabaseID a = FromAccountAndNonce THashH owner nonce"
  using THashH
  by (auto simp: databaseID_AccountAddress_def NewHashFromStr_def FromAccountAndNonce_def
      hash_Decode_String address_DatabaseID_def)

theorem database_id_roundtrip_witness:
  "(\<forall>b. is_hash ((\<lambda>b. take 32 (b @ zero_hash)) b)) \<and>
   (\<exists>a. databaseID_AccountAddress
       (FromAccountAndNonce (\<lambda>b. take 32 (b @ zero_hash)) zero_hash 7) = Ok a \<and> is_hash a)"
proof -
  have h: "is_hash ((\<lambda>b. take 32 (b @ zero_hash)) b)" for b
    by (simp add: is_hash_def zero_hash_def HashSize_def)
  show ?thesis
    using h database_id_roundtrip [where THashH = "\<lambda>b. take 32 (b @ zero_hash)"
        and owner = zero_hash and nonce = 7, OF h] by blast
qed

text \<open>
  a node id survives its binary form: marshalling the id of a raw node id and
  unmarshalling the bytes gives the id back.
\<close>

theorem node_id_binary_roundtrip:
  assumes "is_hash h"
  shows "\<exists>b. nodeID_MarshalBinary (Some (rawNodeID_ToNodeID (Some h))) = Ok b \<and>
    nodeID_UnmarshalBinary b = Ok (rawNodeID_ToNodeID (Some h))"
proof -
  have "nodeID_MarshalBinary (Some (rawNodeID_ToNodeID (Some h))) = Ok h"
    using assms by (simp add: nodeID_MarshalBinary_def rawNodeID_ToNodeID_def NewHashFromStr_def
        hash_Decode_String)
  moreover have "nodeID_UnmarshalBinary h = Ok (rawNodeID_ToNodeID (Some h))"
    using assms by (simp add: nodeID_UnmarshalBinary_def rawNodeID_ToNodeID_def NewHash_def
        hash_SetBytes_def is_hash_def HashSize_def)
  ultimately show ?thesis by blast
qed

theorem node_id_binary_roundtrip_witness:
  "is_hash zero_hash \<and> (\<exists>b. nodeID_MarshalBinary (Some (rawNodeID_ToNodeID (Some zero_hash))) = Ok b \<and>
    nodeID_UnmarshalBinary b = Ok (rawNodeID_ToNodeID (Some zero_hash)))"
  using node_id_binary_roundtrip [OF is_hash_zero] is_hash_zero by blast

section \<open>Ring keys\<close>

lemma nodeKey_Less_irrefl [simp]: "\<not> nodeKey_Less k k"
  by (induction k) auto

lemma nodeKey_Less_trans: "nodeKey_Less a b \<Longrightarrow> nodeKey_Less b c \<Longrightarrow> nodeKey_Less a c"
proof (induction a b arbitrary: c rule: nodeKey_Less.induct)
  case (1 x xs y ys)
  then show ?case by (cases c) (auto split: if_splits)
qed auto

lemma nodeKey_Less_total:
  "length a = length b \<Longrightarrow> nodeKey_Less a b \<or> a = b \<or> nodeKey_Less b a"
proof (induction a b rule: nodeKey_Less.induct)
  case (1 x xs y ys)
  then show ?case by (auto split: if_splits)
qed auto

end
