(* ===== verification/Merkle.thy ===== *)
theory Merkle
  imports Hash_Proto
begin

text \<open>
  The Merkle tree of \<open>merkle/merkletrie.go\<close>: the array the code fills level by
  level, and the tree it stands for. \<open>T\<close> is \<open>hash.THashH\<close>.
\<close>

section \<open>The code\<close>

definition upperPowOfTwo :: "u64 \<Rightarrow> u64" where
  "upperPowOfTwo n =
     (let n = n - 1;
          n = n OR drop_bit 1 n;
          n = n OR drop_bit 2 n;
          n = n OR drop_bit 4 n;
          n = n OR drop_bit 8 n;
          n = n OR drop_bit 16 n;
          n = n OR drop_bit 32 n
      in n + 1)"

definition MergeTwoHash :: "(bytes \<Rightarrow> hash) \<Rightarrow> hash \<Rightarrow> hash \<Rightarrow> hash" where
  "MergeTwoHash T l r = T (l @ r)"

text \<open>One round of the loop: the parent of two neighbouring cells, nil cells included.\<close>

fun merge_cells :: "(bytes \<Rightarrow> hash) \<Rightarrow> hash option \<Rightarrow> hash option \<Rightarrow> hash option" where
  "merge_cells T (Some l) (Some r) = Some (MergeTwoHash T l r)"
| "merge_cells T (Some l) None = Some (MergeTwoHash T l l)"
| "merge_cells T None _ = None"

function merkle_loop ::
    "(bytes \<Rightarrow> hash) \<Rightarrow> nat \<Rightarrow> nat \<Rightarrow> nat \<Rightarrow> hash option list \<Rightarrow> hash option list" where
  "merkle_loop T maxMerkleSize i offset hashArray =
     (if i < maxMerkleSize - 1 then
        merkle_loop T maxMerkleSize (i + 2) (offset + 1)
          (hashArray[offset := merge_cells T (hashArray ! i) (hashArray ! (i + 1))])
      else hashArray)"
  by pat_completeness auto
termination
  by (relation "measure (\<lambda>(T, m, i, _). m - i)") auto

declare merkle_loop.simps [simp del]

definition NewMerkle :: "(bytes \<Rightarrow> hash) \<Rightarrow> hash list \<Rightarrow> hash option list" where
  "NewMerkle T items =
     (let items = (if items = [] then [zero_hash] else items);
          upperPoT = upperPowOfTwo (of_nat (length items));
          maxMerkleSize = unat (upperPoT * 2 - 1);
          copied = take maxMerkleSize (map Some items);
          hashArray = copied @ replicate (maxMerkleSize - length copied) None
      in merkle_loop T maxMerkleSize 0 (unat upperPoT) hashArray)"

text \<open>The root is the last cell: \<open>None\<close> is a nil pointer (or an empty array).\<close>

definition merkle_GetRoot :: "hash option list \<Rightarrow> hash option" where
  "merkle_GetRoot tree = (if tree = [] then None else tree ! (length tree - 1))"

section \<open>What the tree is\<close>

text \<open>
  The reference: pair neighbours, pair a last odd hash with itself, and repeat
  until one hash is left. No hash at all counts as the zero hash.
\<close>

fun merge_level :: "(bytes \<Rightarrow> hash) \<Rightarrow> hash list \<Rightarrow> hash list" where
  "merge_level T [] = []"
| "merge_level T [x] = [MergeTwoHash T x x]"
| "merge_level T (x # y # xs) = MergeTwoHash T x y # merge_level T xs"

lemma length_merge_level [simp]: "length (merge_level T xs) = (length xs + 1) div 2"
  by (induction T xs rule: merge_level.induct) auto

function merkle_root :: "(bytes \<Rightarrow> hash) \<Rightarrow> hash list \<Rightarrow> hash" where
  "merkle_root T xs =
     (case xs of [] \<Rightarrow> zero_hash | [x] \<Rightarrow> x | _ \<Rightarrow> merkle_root T (merge_level T xs))"
  by pat_completeness auto
termination
  by (relation "measure (\<lambda>(T, xs). length xs)") auto

declare merkle_root.simps [simp del]

section \<open>Rounding up to a power of two\<close>

lemma ex_less_twice:
  "(\<exists>d < k + k. P d) \<longleftrightarrow> (\<exists>d < k. P d) \<or> (\<exists>d < (k::nat). P (k + d))"
proof
  assume "\<exists>d < k + k. P d"
  then obtain d where d: "d < k + k" "P d" by blast
  show "(\<exists>d < k. P d) \<or> (\<exists>d < k. P (k + d))"
  proof (cases "d < k")
    case False
    with d have "d - k < k" "P (k + (d - k))" by auto
    then show ?thesis by blast
  qed (use d in blast)
next
  assume "(\<exists>d < k. P d) \<or> (\<exists>d < k. P (k + d))"
  then show "\<exists>d < k + k. P d"
    by (meson add_less_cancel_left trans_less_add1)
qed

lemma smear_step:
  fixes m x :: "u64"
  assumes "\<And>i. bit x i \<longleftrightarrow> (\<exists>d < k. bit m (i + d))"
  shows "bit (x OR drop_bit k x) i \<longleftrightarrow> (\<exists>d < k + k. bit m (i + d))"
  unfolding ex_less_twice bit_or_iff bit_drop_bit_eq comp_def assms
  by (simp add: add.commute add.left_commute)

lemma smear_all:
  fixes m :: "u64"
  shows "upperPowOfTwo (m + 1) = mask (LEAST L. \<forall>j \<ge> L. \<not> bit m j) + 1"
proof -
  define x1 where "x1 = m OR drop_bit 1 m"
  define x2 where "x2 = x1 OR drop_bit 2 x1"
  define x3 where "x3 = x2 OR drop_bit 4 x2"
  define x4 where "x4 = x3 OR drop_bit 8 x3"
  define x5 where "x5 = x4 OR drop_bit 16 x4"
  define x6 where "x6 = x5 OR drop_bit 32 x5"
  have "bit x1 i \<longleftrightarrow> (\<exists>d < 2. bit m (i + d))" for i
    using smear_step [of m 1 m i] by (simp add: x1_def numeral_2_eq_2)
  then have "bit x2 i \<longleftrightarrow> (\<exists>d < 4. bit m (i + d))" for i
    unfolding x2_def by (rule smear_step [of x1 2 m, simplified])
  then have "bit x3 i \<longleftrightarrow> (\<exists>d < 8. bit m (i + d))" for i
    unfolding x3_def by (rule smear_step [of x2 4 m, simplified])
  then have "bit x4 i \<longleftrightarrow> (\<exists>d < 16. bit m (i + d))" for i
    unfolding x4_def by (rule smear_step [of x3 8 m, simplified])
  then have "bit x5 i \<longleftrightarrow> (\<exists>d < 32. bit m (i + d))" for i
    unfolding x5_def by (rule smear_step [of x4 16 m, simplified])
  then have x6: "bit x6 i \<longleftrightarrow> (\<exists>d < 64. bit m (i + d))" for i
    unfolding x6_def by (rule smear_step [of x5 32 m, simplified])
  have high: "\<not> bit m j" if "64 \<le> j" for j
    using that bit_imp_le_length [of m j] by auto
  define L where "L = (LEAST L. \<forall>j \<ge> L. \<not> bit m j)"
  have L: "\<forall>j \<ge> L. \<not> bit m j"
    unfolding L_def by (rule LeastI [of _ 64]) (use high in blast)
  have least: "\<exists>j \<ge> i. bit m j" if "i < L" for i
    using not_less_Least [OF that [unfolded L_def]] by blast
  have "bit x6 i \<longleftrightarrow> i < L" for i
  proof
    assume "bit x6 i"
    then show "i < L" using L unfolding x6 by (meson le_add1 not_le_imp_less order_trans)
  next
    assume "i < L"
    then obtain j where j: "i \<le> j" "bit m j" using least by blast
    then have "j < 64" using high by (meson not_le)
    with j show "bit x6 i"
      unfolding x6 by (intro exI [of _ "j - i"]) auto
  qed
  then have "x6 = mask L"
    by (intro bit_word_eqI) (auto simp: bit_mask_iff)
  moreover have "upperPowOfTwo (m + 1) = x6 + 1"
    by (simp add: upperPowOfTwo_def Let_def x1_def x2_def x3_def x4_def x5_def x6_def)
  ultimately show ?thesis by (simp add: L_def)
qed

lemma unat_pow2:
  assumes "L < 64"
  shows "unat ((2 :: u64) ^ L) = 2 ^ L"
proof -
  have "(2 :: nat) ^ L < 2 ^ 64" using assms by (intro power_strict_increasing) auto
  then have "unat (of_nat (2 ^ L) :: u64) = 2 ^ L"
    using assms by (simp only: unsigned_of_nat) (simp add: take_bit_nat_eq_self)
  then show ?thesis by simp
qed

lemma upperPowOfTwo_pow:
  assumes "0 < n" and "n \<le> 2 ^ 63"
  shows "\<exists>k \<le> 63. unat (upperPowOfTwo (of_nat n)) = 2 ^ k \<and> n \<le> 2 ^ k \<and> 2 ^ k < 2 * n"
proof -
  obtain p where n: "n = Suc p" using assms(1) by (cases n) auto
  define m :: u64 where "m = of_nat p"
  have um: "unat m = p"
    using assms n by (simp add: m_def unsigned_of_nat take_bit_nat_eq_self)
  define L where "L = (LEAST L. \<forall>j \<ge> L. \<not> bit m j)"
  have m63: "unat m < 2 ^ 63" using um assms n by simp
  have high: "\<not> bit m j" if "63 \<le> j" for j
  proof
    assume "bit m j"
    then have "odd (unat m div 2 ^ j)" by (simp add: bit_unsigned_iff flip: bit_iff_odd)
    moreover have "unat m < 2 ^ j"
      using m63 that by (meson less_le_trans one_le_numeral power_increasing)
    ultimately show False by simp
  qed
  have L: "\<forall>j \<ge> L. \<not> bit m j"
    unfolding L_def by (rule LeastI [of _ 63]) (use high in blast)
  have L63: "L \<le> 63"
    unfolding L_def by (rule Least_le) (use high in blast)
  have "take_bit L m = m"
    by (rule bit_word_eqI) (use L in \<open>auto simp: bit_take_bit_iff not_le [symmetric]\<close>)
  then have "take_bit L (unat m) = unat m" by (metis unsigned_take_bit_eq)
  then have mL: "unat m < 2 ^ L" by (metis take_bit_nat_less_exp)
  have lo: "2 ^ (L - 1) \<le> unat m" if "0 < L"
  proof -
    from that have "\<exists>j \<ge> L - 1. bit m j"
      using not_less_Least [of "L - 1" "\<lambda>L. \<forall>j \<ge> L. \<not> bit m j"] by (auto simp: L_def)
    with L that have "bit m (L - 1)" by (metis Suc_diff_1 Suc_leI le_neq_implies_less)
    then have "odd (unat m div 2 ^ (L - 1))" by (simp add: bit_unsigned_iff flip: bit_iff_odd)
    then show ?thesis by (metis div_less even_zero not_less)
  qed
  have "upperPowOfTwo (of_nat n) = mask L + 1"
    using smear_all [of m] assms by (simp add: m_def L_def n add.commute)
  also have "\<dots> = 2 ^ L" by (simp add: mask_eq_exp_minus_1)
  finally have u: "unat (upperPowOfTwo (of_nat n)) = 2 ^ L"
    using unat_pow2 [of L] L63 by simp
  moreover have "n \<le> 2 ^ L" using mL um n by linarith
  moreover have "2 ^ L < 2 * n"
  proof (cases "L = 0")
    case False
    then have "2 ^ L = 2 * (2 ^ (L - 1) :: nat)" by (cases L) auto
    also have "\<dots> \<le> 2 * p" using lo False um by simp
    also have "\<dots> < 2 * n" using n by simp
    finally show ?thesis .
  qed (use assms in simp)
  ultimately show ?thesis using L63 by blast
qed


section \<open>The array holds the tree\<close>

text \<open>Cells \<open>P + m\<close> hold the parents of cells \<open>2 m\<close> and \<open>2 m + 1\<close> when the loop ends.\<close>

lemma merkle_loop_cells:
  assumes "length arr = 2 * P - 1" and "k \<le> P - 1" and "0 < P"
    and "\<And>m. m < k \<Longrightarrow> arr ! (P + m) = merge_cells T (arr ! (2 * m)) (arr ! (2 * m + 1))"
  shows "length (merkle_loop T (2 * P - 1) (2 * k) (P + k) arr) = 2 * P - 1 \<and>
    (\<forall>j < P. merkle_loop T (2 * P - 1) (2 * k) (P + k) arr ! j = arr ! j) \<and>
    (\<forall>m < P - 1. merkle_loop T (2 * P - 1) (2 * k) (P + k) arr ! (P + m) =
       merge_cells T (merkle_loop T (2 * P - 1) (2 * k) (P + k) arr ! (2 * m))
         (merkle_loop T (2 * P - 1) (2 * k) (P + k) arr ! (2 * m + 1)))"
  using assms
proof (induction "P - 1 - k" arbitrary: k arr)
  case 0
  then have "k = P - 1" by simp
  then have "\<not> 2 * k < 2 * P - 1 - 1" by simp
  then have "merkle_loop T (2 * P - 1) (2 * k) (P + k) arr = arr"
    by (subst merkle_loop.simps) (simp only: if_False)
  with 0 \<open>k = P - 1\<close> show ?case by simp
next
  case (Suc n)
  then have k: "k < P - 1" by simp
  define arr' where "arr' = arr[P + k := merge_cells T (arr ! (2 * k)) (arr ! (2 * k + 1))]"
  have step: "merkle_loop T (2 * P - 1) (2 * k) (P + k) arr =
      merkle_loop T (2 * P - 1) (2 * Suc k) (P + Suc k) arr'"
  proof -
    have two: "2 * Suc k = 2 * k + 2" "P + Suc k = P + k + 1" by simp_all
    have "2 * k < 2 * P - 1 - 1" using k by simp
    then show ?thesis
      by (subst merkle_loop.simps) (simp only: if_True arr'_def two)
  qed
  have at: "arr' ! j = arr ! j" if "j \<noteq> P + k" for j
    using that by (simp add: arr'_def)
  have new: "arr' ! (P + k) = merge_cells T (arr ! (2 * k)) (arr ! (2 * k + 1))"
    using k Suc.prems(1) by (simp add: arr'_def)
  have cells: "arr' ! (P + m) = merge_cells T (arr' ! (2 * m)) (arr' ! (2 * m + 1))" if "m < Suc k" for m
  proof -
    have "2 * m \<noteq> P + k" "2 * m + 1 \<noteq> P + k" using that k by auto
    then show ?thesis
      using that Suc.prems(4) [of m] new at by (cases "m = k") (auto simp: at)
  qed
  have "length arr' = 2 * P - 1" using Suc.prems(1) by (simp add: arr'_def)
  then show ?case
    using Suc.hyps(1) [of "Suc k" arr'] Suc.hyps(2) Suc.prems(3) k cells at
    unfolding step by auto
qed

text \<open>One level of cells, and the list of cells of each level of the array.\<close>

fun pair_cells :: "(bytes \<Rightarrow> hash) \<Rightarrow> hash option list \<Rightarrow> hash option list" where
  "pair_cells T (x # y # xs) = merge_cells T x y # pair_cells T xs"
| "pair_cells T _ = []"

lemma pair_cells_nth:
  "length (pair_cells T xs) = length xs div 2 \<and>
   (\<forall>m < length xs div 2. pair_cells T xs ! m = merge_cells T (xs ! (2 * m)) (xs ! (2 * m + 1)))"
proof (induction T xs rule: pair_cells.induct)
  case (1 T x y xs)
  then show ?case by (auto simp: nth_Cons split: nat.splits)
qed auto

lemma pair_cells_None: "pair_cells T (replicate (2 * n) None) = replicate n None"
  by (induction n) auto

lemma pair_cells_level:
  assumes "length xs \<le> 2 * n"
  shows "pair_cells T (map Some xs @ replicate (2 * n - length xs) None) =
    map Some (merge_level T xs) @ replicate (n - length (merge_level T xs)) None"
  using assms
proof (induction T xs arbitrary: n rule: merge_level.induct)
  case (1 T)
  then show ?case by (simp add: pair_cells_None)
next
  case (2 T x)
  then obtain n' where "n = Suc n'" by (cases n) auto
  then show ?case by (simp add: pair_cells_None)
next
  case (3 T x y xs)
  then obtain n' where "n = Suc n'" by (cases n) auto
  with 3 show ?case by simp
qed

lemma pair_cells_iterate:
  assumes "0 < length xs" and "length xs \<le> 2 ^ k" and "2 ^ k < 2 * length xs"
  shows "(pair_cells T ^^ k) (map Some xs @ replicate (2 ^ k - length xs) None) =
    [Some (merkle_root T xs)]"
  using assms
proof (induction k arbitrary: xs)
  case 0
  then obtain x where "xs = [x]" by (cases xs) auto
  then show ?case by (simp add: merkle_root.simps [of T "[x]"])
next
  case (Suc k)
  have two: "2 \<le> length xs"
  proof -
    have "1 \<le> (2::nat) ^ k" by simp
    then show ?thesis using Suc.prems(3) unfolding power_Suc by linarith
  qed
  then have root: "merkle_root T xs = merkle_root T (merge_level T xs)"
    by (subst merkle_root.simps) (auto split: list.splits)
  have "(pair_cells T ^^ Suc k) (map Some xs @ replicate (2 ^ Suc k - length xs) None) =
      (pair_cells T ^^ k) (map Some (merge_level T xs) @
        replicate (2 ^ k - length (merge_level T xs)) None)"
    using pair_cells_level [of xs "2 ^ k" T] Suc.prems(2) by (simp add: funpow_swap1)
  also have "\<dots> = [Some (merkle_root T (merge_level T xs))]"
    by (rule Suc.IH) (use Suc.prems two in auto)
  finally show ?case by (simp add: root)
qed


lemma merkle_root_simps [simp]:
  "merkle_root T [] = zero_hash"
  "merkle_root T [x] = x"
  "merkle_root T (x # y # zs) = merkle_root T (merge_level T (x # y # zs))"
  by (subst merkle_root.simps; simp)+

lemma level_cells:
  assumes cells: "\<And>m. m < 2 ^ k - 1 \<Longrightarrow>
      A ! (2 ^ k + m) = merge_cells T (A ! (2 * m)) (A ! (2 * m + 1))"
    and "length A = 2 * 2 ^ k - 1" and "j \<le> k"
  shows "(pair_cells T ^^ j) (take (2 ^ k) A) =
    map (\<lambda>t. A ! (2 * 2 ^ k - 2 * 2 ^ (k - j) + t)) [0..<2 ^ (k - j)]"
  using assms(3)
proof (induction j)
  case 0
  show ?case using assms(2) by (intro nth_equalityI) auto
next
  case (Suc j)
  define p where "p = (2::nat) ^ (k - Suc j)"
  have kj: "(2::nat) ^ (k - j) = 2 * p"
    using Suc.prems by (simp add: p_def flip: power_Suc)
  have le: "2 * p \<le> 2 ^ k"
    using Suc.prems by (simp add: p_def flip: power_Suc)
  have IH: "(pair_cells T ^^ j) (take (2 ^ k) A) =
      map (\<lambda>t. A ! (2 * 2 ^ k - 2 * (2 * p) + t)) [0..<2 * p]"
    using Suc by (simp add: kj)
  have "(pair_cells T ^^ Suc j) (take (2 ^ k) A) =
      pair_cells T (map (\<lambda>t. A ! (2 * 2 ^ k - 2 * (2 * p) + t)) [0..<2 * p])" (is "_ = pair_cells T ?l")
    by (simp add: IH)
  also have "\<dots> = map (\<lambda>t. A ! (2 * 2 ^ k - 2 * p + t)) [0..<p]"
  proof (rule nth_equalityI)
    show "length (pair_cells T ?l) = length (map (\<lambda>t. A ! (2 * 2 ^ k - 2 * p + t)) [0..<p])"
      using pair_cells_nth [of T ?l] by simp
    fix t
    assume "t < length (pair_cells T ?l)"
    then have t: "t < p" using pair_cells_nth [of T ?l] by simp
    define m where "m = 2 ^ k - 2 * p + t"
    have m: "m < 2 ^ k - 1" "2 * 2 ^ k - 2 * p + t = 2 ^ k + m"
        "2 * 2 ^ k - 2 * (2 * p) + 2 * t = 2 * m" "2 * 2 ^ k - 2 * (2 * p) + (2 * t + 1) = 2 * m + 1"
      using t le by (auto simp: m_def)
    have "pair_cells T ?l ! t = merge_cells T (?l ! (2 * t)) (?l ! (2 * t + 1))"
      using pair_cells_nth [of T ?l] t by simp
    also have "\<dots> = merge_cells T (A ! (2 * m)) (A ! (2 * m + 1))"
      using t m(3,4) by simp
    also have "\<dots> = A ! (2 * 2 ^ k - 2 * p + t)"
      using cells [OF m(1)] m(2) by simp
    finally show "pair_cells T ?l ! t = map (\<lambda>t. A ! (2 * 2 ^ k - 2 * p + t)) [0..<p] ! t"
      using t by simp
  qed
  finally show ?case by (simp add: p_def)
qed

lemma merkle_array_root:
  assumes "length items \<le> 2 ^ 62"
  shows "merkle_GetRoot (NewMerkle T items) = Some (merkle_root T items)"
proof -
  define xs where "xs = (if items = [] then [zero_hash] else items)"
  have root: "merkle_root T xs = merkle_root T items"
    by (simp add: xs_def)
  have xs: "0 < length xs" "length xs \<le> 2 ^ 62"
    using assms by (auto simp: xs_def)
  obtain k where k: "k \<le> 63" "unat (upperPowOfTwo (of_nat (length xs))) = 2 ^ k"
      "length xs \<le> 2 ^ k" "2 ^ k < 2 * length xs"
    using upperPowOfTwo_pow [of "length xs"] xs by force
  have k62: "(2::nat) ^ k < 2 ^ 63" using k(4) xs(2) by simp
  define P where "P = (2::nat) ^ k"
  have P: "0 < P" by (simp add: P_def)
  have size: "unat (upperPowOfTwo (of_nat (length xs)) * 2 - 1) = 2 * P - 1"
  proof -
    have two: "unat (upperPowOfTwo (of_nat (length xs)) * 2) = 2 * P"
      using k(2) k62 by (subst unat_mult_exact) (simp_all add: P_def)
    have "(1 :: u64) \<le> upperPowOfTwo (of_nat (length xs)) * 2"
      using two P by (simp add: word_le_nat_alt)
    then show ?thesis using two by (simp add: unat_sub_exact)
  qed
  define arr where "arr = map Some xs @ replicate (2 * P - 1 - length xs) None"
  have len: "length arr = 2 * P - 1" using k(3) P by (simp add: arr_def P_def)
  define A where "A = merkle_loop T (2 * P - 1) 0 P arr"
  have A: "NewMerkle T items = A"
    using k(2,3) P by (simp add: NewMerkle_def Let_def xs_def [symmetric] size A_def arr_def P_def)
  have loop: "length A = 2 * P - 1" "\<And>j. j < P \<Longrightarrow> A ! j = arr ! j"
      "\<And>m. m < P - 1 \<Longrightarrow> A ! (P + m) = merge_cells T (A ! (2 * m)) (A ! (2 * m + 1))"
    using merkle_loop_cells [OF len, of 0 T] P by (auto simp: A_def)
  have "take P A = take P arr"
    using loop(1,2) len by (intro nth_equalityI) auto
  also have "\<dots> = map Some xs @ replicate (P - length xs) None"
    using k(3) by (simp add: arr_def P_def)
  finally have "(pair_cells T ^^ k) (take P A) = [Some (merkle_root T xs)]"
    using pair_cells_iterate [OF xs(1) k(3,4), of T] by (simp add: P_def)
  moreover have "(pair_cells T ^^ k) (take P A) = [A ! (2 * P - 2)]"
    using level_cells [of k A T k] loop by (simp add: P_def)
  ultimately show ?thesis
    using loop(1) P by (auto simp: A merkle_GetRoot_def root numeral_2_eq_2)
qed

text \<open>
  C29: the root the array ends in is the root of the tree: for any number of
  transaction hashes up to \<open>2^62\<close> \<open>GetRoot\<close> returns a hash,
  never nil, and it is the one obtained by pairing neighbours level by level,
  pairing an odd last hash with itself, and by the zero hash for an empty block.
\<close>

theorem NewMerkle_root:
  assumes "length items \<le> 2 ^ 62"
  shows "merkle_GetRoot (NewMerkle T items) = Some (merkle_root T items)"
  using assms by (rule merkle_array_root)

theorem NewMerkle_root_witness:
  "length [[1], [2], [3::byte]] \<le> (2::nat) ^ 62 \<and>
   merkle_GetRoot (NewMerkle id [[1], [2], [3]]) = Some [1, 2, 3, 3]"
proof -
  have "merkle_root id [[1], [2], [3]] = [1, 2, 3, 3]"
    by (simp add: MergeTwoHash_def)
  then show ?thesis using NewMerkle_root [of "[[1], [2], [3]]" id] by simp
qed

text \<open>
  the root does not determine the transactions: repeating the last hash of an
  odd list gives the same root, so two blocks with different transaction lists
  can carry the same Merkle root and header.
\<close>

theorem merkle_root_duplicate_last:
  "merkle_GetRoot (NewMerkle T [a, b, c]) = merkle_GetRoot (NewMerkle T [a, b, c, c])"
  by (simp add: merkle_array_root)

end
