(* ===== verification/Accounts.thy ===== *)
theory Accounts
  imports Hash_Proto
begin

text \<open>
  The account types of \<open>types/account.go\<close> and \<open>types/token.go\<close>: token types and
  balances, user permissions and their textual form, query patterns, and the
  profiles the main chain stores (accounts, databases, providers).
\<close>

section \<open>Tokens\<close>

text \<open>\<open>TokenType\<close> is an \<open>int32\<close>; nothing does arithmetic on it, so an integer stands for it.\<close>

type_synonym TokenType = int

definition Particle :: TokenType where
  "Particle = 0"

definition Wave :: TokenType where
  "Wave = 1"

definition SupportTokenNumber :: TokenType where
  "SupportTokenNumber = 2"

definition TokenList :: "(TokenType \<times> string) list" where
  "TokenList = [(Particle, ''Particle''), (Wave, ''Wave'')]"

text \<open>Reading a Go map at a missing key gives the zero value, here the empty string.\<close>

definition token_name :: "TokenType \<Rightarrow> string" where
  "token_name t = (case map_of TokenList t of Some s \<Rightarrow> s | None \<Rightarrow> '''')"

definition tokenType_String :: "TokenType \<Rightarrow> string" where
  "tokenType_String t =
     (if t < 0 \<or> t \<ge> SupportTokenNumber then ''Unknown'' else token_name t)"

text \<open>
  \<open>strings.EqualFold\<close> against the two token names: none of their letters folds to
  a character outside ASCII, so lower-casing ASCII letters decides it.
\<close>

definition ascii_lower :: "char \<Rightarrow> char" where
  "ascii_lower c =
     (let n = of_char c :: nat in if 65 \<le> n \<and> n \<le> 90 then char_of (n + 32) else c)"

definition EqualFold :: "string \<Rightarrow> string \<Rightarrow> bool" where
  "EqualFold s t \<longleftrightarrow> map ascii_lower s = map ascii_lower t"

definition token_FromString :: "string \<Rightarrow> TokenType" where
  "token_FromString t =
     (case find (\<lambda>i. EqualFold (token_name i) t) (map int [0..<nat SupportTokenNumber]) of
        Some i \<Rightarrow> i | None \<Rightarrow> -1)"

definition tokenType_Listed :: "TokenType \<Rightarrow> bool" where
  "tokenType_Listed t \<longleftrightarrow> t \<ge> 0 \<and> t < SupportTokenNumber"

text \<open>
  \<open>TokenBalance\<close> is the array \<open>[SupportTokenNumber]uint64\<close>: \<open>TB p w\<close> holds the
  balances in Particle and in Wave. An index outside the array panics, which
  \<open>None\<close> stands for.
\<close>

datatype TokenBalance = TB u64 u64

fun tb_get :: "TokenBalance \<Rightarrow> TokenType \<Rightarrow> u64 option" where
  "tb_get (TB p w) t = (if t = Particle then Some p else if t = Wave then Some w else None)"

fun tb_set :: "TokenBalance \<Rightarrow> TokenType \<Rightarrow> u64 \<Rightarrow> TokenBalance" where
  "tb_set (TB p w) t v = (if t = Particle then TB v w else if t = Wave then TB p v else TB p w)"

section \<open>Permissions\<close>

text \<open>\<open>UserPermissionRole\<close> is an \<open>int32\<close> used as a set of flags.\<close>

type_synonym UserPermissionRole = "32 word"

definition Void :: UserPermissionRole where "Void = 0"
definition Read :: UserPermissionRole where "Read = 1"
definition Write :: UserPermissionRole where "Write = 2"
definition Super :: UserPermissionRole where "Super = 4"
definition Invalid :: UserPermissionRole where "Invalid = 8"
definition ReadWrite :: UserPermissionRole where "ReadWrite = Read OR Write"
definition Admin :: UserPermissionRole where "Admin = Read OR Write OR Super"

text \<open>\<open>strings.Join\<close>, \<open>strings.Split\<close> at a comma and \<open>strings.TrimSpace\<close>.\<close>

fun strings_Join :: "string list \<Rightarrow> string \<Rightarrow> string" where
  "strings_Join [] sep = ''''"
| "strings_Join [s] sep = s"
| "strings_Join (s # t # ss) sep = s @ sep @ strings_Join (t # ss) sep"

fun split_at :: "char \<Rightarrow> string \<Rightarrow> string list" where
  "split_at c [] = [[]]"
| "split_at c (x # xs) =
     (if x = c then [] # split_at c xs
      else case split_at c xs of s # ss \<Rightarrow> (x # s) # ss | [] \<Rightarrow> [[x]])"

text \<open>
  The UTF-8 encodings of the characters \<open>unicode.IsSpace\<close> accepts, as byte values.
\<close>

definition space_seqs :: "nat list list" where
  "space_seqs = [[9], [10], [11], [12], [13], [32], [194, 133], [194, 160], [225, 154, 128]] @
     map (\<lambda>i. [226, 128, i]) [128..<139] @
     [[226, 128, 168], [226, 128, 169], [226, 128, 175], [226, 129, 159], [227, 128, 128]]"

definition starts_with :: "nat list \<Rightarrow> string \<Rightarrow> bool" where
  "starts_with p s \<longleftrightarrow> take (length p) (map of_char s) = p"

function trim_left :: "nat list list \<Rightarrow> string \<Rightarrow> string" where
  "trim_left seqs s =
     (case find (\<lambda>p. p \<noteq> [] \<and> starts_with p s) seqs of
        Some p \<Rightarrow> if s = [] then s else trim_left seqs (drop (length p) s)
      | None \<Rightarrow> s)"
  by pat_completeness auto
termination
  by (relation "measure (\<lambda>(_, s). length s)") (auto simp: find_Some_iff)

declare trim_left.simps [simp del]

definition TrimSpace :: "string \<Rightarrow> string" where
  "TrimSpace s = rev (trim_left (map rev space_seqs) (rev (trim_left space_seqs s)))"

definition role_String :: "UserPermissionRole \<Rightarrow> string" where
  "role_String r =
     (if r = Void then ''Void''
      else if r = Admin then ''Admin''
      else strings_Join
        ((if r AND Read \<noteq> 0 then [''Read''] else []) @
         (if r AND Write \<noteq> 0 then [''Write''] else []) @
         (if r AND Super \<noteq> 0 then [''Super''] else [])) '','')"

definition add_role :: "UserPermissionRole \<Rightarrow> string \<Rightarrow> UserPermissionRole" where
  "add_role r p =
     (let p = TrimSpace p in
      if p = ''Read'' then r OR Read
      else if p = ''Write'' then r OR Write
      else if p = ''Super'' then r OR Super
      else r)"

definition role_FromString :: "string \<Rightarrow> UserPermissionRole" where
  "role_FromString perm =
     (if perm = ''Void'' then Void
      else if perm = ''Admin'' then Admin
      else foldl add_role Void (split_at (CHR '','') perm))"

text \<open>
  \<open>up_cachedPatternMap\<close> is \<open>None\<close> until \<open>cachedPatternMapOnce\<close> has run; the map sends
  exactly the listed patterns to true.
\<close>

record UserPermission =
  up_Role :: UserPermissionRole
  up_Patterns :: "string list"
  up_cachedPatternMap :: "string list option"

record Query =
  q_Pattern :: string

definition UserPermissionFromRole :: "UserPermissionRole \<Rightarrow> UserPermission" where
  "UserPermissionFromRole role =
     \<lparr> up_Role = role, up_Patterns = [], up_cachedPatternMap = None \<rparr>"

definition HasReadPermission :: "UserPermission option \<Rightarrow> bool" where
  "HasReadPermission up = (case up of None \<Rightarrow> False | Some up \<Rightarrow> up_Role up AND Read \<noteq> 0)"

definition HasWritePermission :: "UserPermission option \<Rightarrow> bool" where
  "HasWritePermission up = (case up of None \<Rightarrow> False | Some up \<Rightarrow> up_Role up AND Write \<noteq> 0)"

definition HasSuperPermission :: "UserPermission option \<Rightarrow> bool" where
  "HasSuperPermission up = (case up of None \<Rightarrow> False | Some up \<Rightarrow> up_Role up AND Super \<noteq> 0)"

definition permission_IsValid :: "UserPermission option \<Rightarrow> bool" where
  "permission_IsValid up =
     (case up of None \<Rightarrow> False
      | Some up \<Rightarrow> sint (up_Role up) \<ge> sint Void \<and> sint (up_Role up) < sint Invalid)"

text \<open>
  The permission object after the call (the cache is filled on the first one),
  the pattern that is not allowed, and whether there is one.
\<close>

definition HasDisallowedQueryPatterns ::
    "UserPermission option \<Rightarrow> Query list \<Rightarrow> UserPermission option \<times> string \<times> bool" where
  "HasDisallowedQueryPatterns up queries =
     (case up of None \<Rightarrow> (None, '''', True)
      | Some u \<Rightarrow>
          if up_Patterns u = [] then (Some u, '''', False)
          else
            let cache = (case up_cachedPatternMap u of Some c \<Rightarrow> c | None \<Rightarrow> up_Patterns u);
                u' = u \<lparr> up_cachedPatternMap := Some cache \<rparr>
            in (case find (\<lambda>q. q_Pattern q \<notin> set cache) queries of
                  Some q \<Rightarrow> (Some u', q_Pattern q, True)
                | None \<Rightarrow> (Some u', '''', False)))"

section \<open>Status and profiles\<close>

type_synonym Status = int

definition UnknownStatus :: Status where "UnknownStatus = 0"
definition Normal :: Status where "Normal = 1"
definition Reminder :: Status where "Reminder = 2"
definition Arrears :: Status where "Arrears = 3"
definition Arbitration :: Status where "Arbitration = 4"

definition EnableQuery :: "Status \<Rightarrow> bool" where
  "EnableQuery s \<longleftrightarrow> s \<ge> Normal \<and> s \<le> Reminder"

record SQLChainUser =
  su_Address :: AccountAddress
  su_Permission :: "UserPermission option"
  su_AdvancePayment :: u64
  su_Arrears :: u64
  su_Deposit :: u64
  su_Status :: Status

record UserArrears =
  ua_User :: AccountAddress
  ua_Arrears :: u64

record MinerInfo =
  mn_Address :: AccountAddress
  mn_NodeID :: NodeID
  mn_Name :: string
  mn_PendingIncome :: u64
  mn_ReceivedIncome :: u64
  mn_UserArrears :: "UserArrears list"
  mn_Deposit :: u64
  mn_Status :: Status
  mn_EncryptionKey :: string

text \<open>
  A \<open>float64\<close> that is only stored and compared: a not-a-number, an infinity or a
  finite value. Every comparison with a not-a-number is false.
\<close>

datatype float64 = F64NaN | F64NegInf | F64PosInf | F64 rat

fun f64_greater :: "float64 \<Rightarrow> float64 \<Rightarrow> bool" where
  "f64_greater F64NaN _ = False"
| "f64_greater _ F64NaN = False"
| "f64_greater F64NegInf _ = False"
| "f64_greater F64PosInf y = (y \<noteq> F64PosInf)"
| "f64_greater (F64 _) F64NegInf = True"
| "f64_greater (F64 _) F64PosInf = False"
| "f64_greater (F64 x) (F64 y) = (x > y)"

record ResourceMeta =
  rm_TargetMiners :: "AccountAddress list"
  rm_Node :: u16
  rm_Space :: u64
  rm_Memory :: u64
  rm_LoadAvgPerCPU :: float64
  rm_EncryptionKey :: string
  rm_UseEventualConsistency :: bool
  rm_ConsistencyLevel :: float64
  rm_IsolationLevel :: int

record SQLChainProfile =
  sc_ID :: DatabaseID
  sc_Address :: AccountAddress
  sc_Period :: u64
  sc_GasPrice :: u64
  sc_LastUpdatedHeight :: u32
  sc_TokenType :: TokenType
  sc_Owner :: AccountAddress
  sc_Miners :: "MinerInfo list"
  sc_Users :: "SQLChainUser list"
  sc_EncodedGenesis :: bytes
  sc_Meta :: ResourceMeta

record ProviderProfile =
  pp_Provider :: AccountAddress
  pp_Space :: u64
  pp_Memory :: u64
  pp_LoadAvgPerCPU :: float64
  pp_TargetUser :: "AccountAddress list"
  pp_Deposit :: u64
  pp_GasPrice :: u64
  pp_TokenType :: TokenType
  pp_NodeID :: NodeID

record Account =
  ac_Address :: AccountAddress
  ac_TokenBalance :: TokenBalance
  ac_Rating :: float64
  ac_NextNonce :: u32

text \<open>The composite literals \<open>&types.Account{Address: a}\<close> and \<open>ResourceMeta{}\<close>.\<close>

definition empty_account :: "AccountAddress \<Rightarrow> Account" where
  "empty_account a =
     \<lparr> ac_Address = a, ac_TokenBalance = TB 0 0, ac_Rating = F64 0, ac_NextNonce = 0 \<rparr>"

definition empty_ResourceMeta :: ResourceMeta where
  "empty_ResourceMeta =
     \<lparr> rm_TargetMiners = [], rm_Node = 0, rm_Space = 0, rm_Memory = 0,
       rm_LoadAvgPerCPU = F64 0, rm_EncryptionKey = '''', rm_UseEventualConsistency = False,
       rm_ConsistencyLevel = F64 0, rm_IsolationLevel = 0 \<rparr>"

section \<open>Balances\<close>

lemma tb_get_set [simp]:
  "tb_get (tb_set b t v) t' =
     (if t' = t \<and> tb_get b t \<noteq> None then Some v else tb_get b t')"
  by (cases b) (auto simp: Particle_def Wave_def)

lemma tb_get_listed: "tb_get b t = None \<longleftrightarrow> \<not> tokenType_Listed t"
  by (cases b) (auto simp: Particle_def Wave_def tokenType_Listed_def SupportTokenNumber_def)

lemma tb_get_Particle [simp]: "tb_get (TB p w) Particle = Some p"
  by simp

section \<open>Token names\<close>

text \<open>
  printing a token type and reading it back gives the token type for the two
  listed types, and the number -1 for every other one.
\<close>

theorem token_string_roundtrip:
  "token_FromString (tokenType_String t) = (if tokenType_Listed t then t else -1)"
proof (cases "tokenType_Listed t")
  case True
  then have "t = 0 \<or> t = 1" by (auto simp: tokenType_Listed_def SupportTokenNumber_def)
  then show ?thesis
    by (elim disjE; hypsubst) code_simp+
next
  case False
  then have "tokenType_String t = ''Unknown''"
    by (auto simp: tokenType_Listed_def tokenType_String_def)
  moreover have "token_FromString ''Unknown'' = -1"
    by code_simp
  ultimately show ?thesis using False by simp
qed

section \<open>Role names\<close>

lemma role_bit_iff:
  fixes r :: UserPermissionRole
  shows "r AND Read \<noteq> 0 \<longleftrightarrow> bit r 0" "r AND Write \<noteq> 0 \<longleftrightarrow> bit r 1" "r AND Super \<noteq> 0 \<longleftrightarrow> bit r 2"
proof -
  have one: "r AND 2 ^ n \<noteq> 0 \<longleftrightarrow> bit r n" if "n < 32" for n
    using that by (simp add: and_exp_eq_0_iff_not_bit)
  show "r AND Read \<noteq> 0 \<longleftrightarrow> bit r 0" "r AND Write \<noteq> 0 \<longleftrightarrow> bit r 1" "r AND Super \<noteq> 0 \<longleftrightarrow> bit r 2"
    using one [of 0] one [of 1] one [of 2] by (simp_all add: Read_def Write_def Super_def)
qed

lemma role_and_Admin:
  "r AND Admin =
     (if bit r 0 then Read else 0) OR (if bit r 1 then Write else 0) OR
     (if bit r 2 then Super else 0)"
proof -
  have "r AND 7 = r AND 1 OR r AND 2 OR r AND 4"
    by (simp flip: bit.conj_disj_distrib)
  moreover have "r AND 2 ^ n = (if bit r n then 2 ^ n else 0)" for n
    by (rule bit_word_eqI) (auto simp: bit_and_iff bit_exp_iff)
  from this [of 0] this [of 1] this [of 2]
  have "r AND 1 = (if bit r 0 then 1 else 0)" "r AND 2 = (if bit r 1 then 2 else 0)"
      "r AND 4 = (if bit r 2 then 4 else 0)"
    by simp_all
  ultimately show ?thesis
    by (simp add: Admin_def Read_def Write_def Super_def)
qed

lemma role_FromString_names:
  "role_FromString (strings_Join
     ((if a then [''Read''] else []) @ (if b then [''Write''] else []) @
      (if c then [''Super''] else [])) '','') =
   (if a then Read else 0) OR (if b then Write else 0) OR (if c then Super else 0)"
  by (cases a; cases b; cases c; simp only: if_True if_False) code_simp+

text \<open>
  printing a role and reading it back keeps exactly the three permission bits,
  whatever other bits the stored number has.
\<close>

theorem role_string_roundtrip: "role_FromString (role_String r) = r AND Admin"
proof -
  consider "r = Void" | "r = Admin" | "r \<noteq> Void" "r \<noteq> Admin" by blast
  then show ?thesis
  proof cases
    case 1
    then show ?thesis by (simp add: role_String_def role_FromString_def Void_def)
  next
    case 2
    then show ?thesis
      by (simp add: role_String_def role_FromString_def Admin_def Void_def Read_def Write_def Super_def)
  next
    case 3
    then show ?thesis
      by (simp only: role_String_def if_False role_bit_iff role_FromString_names role_and_Admin)
  qed
qed

section \<open>Query patterns\<close>

text \<open>
  without a cached pattern map (or with the map of the same patterns), a
  permission lets a list of queries pass exactly when it exists and either lists
  no pattern or lists the pattern of every query; otherwise the first query whose
  pattern is not listed is reported. The answer does not change when asked again.
\<close>

theorem HasDisallowedQueryPatterns_spec:
  assumes "up_cachedPatternMap u = None \<or> up_cachedPatternMap u = Some (up_Patterns u)"
  shows "snd (HasDisallowedQueryPatterns (Some u) qs) =
      (if up_Patterns u = [] \<or> (\<forall>q \<in> set qs. q_Pattern q \<in> set (up_Patterns u)) then ('''', False)
       else (q_Pattern (hd (filter (\<lambda>q. q_Pattern q \<notin> set (up_Patterns u)) qs)), True))
    \<and> snd (HasDisallowedQueryPatterns (fst (HasDisallowedQueryPatterns (Some u) qs)) qs) =
      snd (HasDisallowedQueryPatterns (Some u) qs)
    \<and> snd (HasDisallowedQueryPatterns None qs) = ('''', True)"
proof -
  have cache: "(case up_cachedPatternMap u of None \<Rightarrow> up_Patterns u | Some c \<Rightarrow> c) = up_Patterns u"
    using assms by auto
  have hd: "find P qs = (if \<exists>q \<in> set qs. P q then Some (hd (filter P qs)) else None)" for P
    by (induction qs) auto
  show ?thesis
    by (auto simp: HasDisallowedQueryPatterns_def Let_def cache hd)
qed

theorem HasDisallowedQueryPatterns_spec_witness:
  "snd (HasDisallowedQueryPatterns
      (Some \<lparr> up_Role = Read, up_Patterns = [''a''], up_cachedPatternMap = None \<rparr>)
      [\<lparr> q_Pattern = ''a'' \<rparr>, \<lparr> q_Pattern = ''b'' \<rparr>]) = (''b'', True)"
  using HasDisallowedQueryPatterns_spec
    [of "\<lparr> up_Role = Read, up_Patterns = [''a''], up_cachedPatternMap = None \<rparr>"
        "[\<lparr> q_Pattern = ''a'' \<rparr>, \<lparr> q_Pattern = ''b'' \<rparr>]"]
  by simp

end
