(* ===== verification/Verifier.thy ===== *)
theory Verifier
  imports Hash_Proto
begin

text \<open>
  Signatures and the hash-sign-verify mixin: \<open>utils/bignum.go\<close>, the signature and
  public key methods of \<open>crypto/asymmetric\<close>, and \<open>crypto/verifier/common.go\<close>. The
  elliptic curve library, the LRU cache library and the generated \<open>MarshalHash\<close>
  methods are parameters.
\<close>

section \<open>Big integers as bytes\<close>

text \<open>
  \<open>big.Int.Bits\<close> (64-bit words, the least significant first, no leading zero word),
  \<open>Bytes\<close> (big-endian, no leading zero byte) and \<open>BitLen\<close> of the absolute value.
\<close>

fun big_Bits :: "nat \<Rightarrow> u64 list" where
  "big_Bits n = (if n = 0 then [] else of_nat n # big_Bits (n div 2 ^ 64))"

fun le_bytes :: "nat \<Rightarrow> bytes" where
  "le_bytes n = (if n = 0 then [] else of_nat n # le_bytes (n div 256))"

fun BitLen :: "nat \<Rightarrow> nat" where
  "BitLen n = (if n = 0 then 0 else Suc (BitLen (n div 2)))"

declare big_Bits.simps [simp del] le_bytes.simps [simp del] BitLen.simps [simp del]

definition big_Bytes :: "nat \<Rightarrow> bytes" where
  "big_Bytes n = rev (le_bytes n)"

text \<open>
  The two loops of \<open>PaddedBigBytes\<close>: \<open>pad_word j i d ret\<close> writes the low bytes of
  the word \<open>d\<close> downwards from index \<open>i\<close>, at most \<open>j\<close> of them.
\<close>

fun pad_word :: "nat \<Rightarrow> nat \<Rightarrow> u64 \<Rightarrow> bytes \<Rightarrow> nat \<times> bytes" where
  "pad_word 0 i d ret = (i, ret)"
| "pad_word (Suc j) 0 d ret = (0, ret)"
| "pad_word (Suc j) (Suc i) d ret = pad_word j i (drop_bit 8 d) (ret[i := ucast d])"

fun pad_words :: "nat \<Rightarrow> u64 list \<Rightarrow> bytes \<Rightarrow> bytes" where
  "pad_words i [] ret = ret"
| "pad_words i (d # ds) ret = (case pad_word 8 i d ret of (i', ret') \<Rightarrow> pad_words i' ds ret')"

definition PaddedBigBytes :: "int \<Rightarrow> nat \<Rightarrow> bytes" where
  "PaddedBigBytes bigint n =
     (let x = nat \<bar>bigint\<bar> in
      if BitLen x div 8 \<ge> n then big_Bytes x
      else pad_words n (big_Bits x) (replicate n 0))"

section \<open>Signatures\<close>

record Signature =
  sg_R :: int
  sg_S :: int

text \<open>\<open>copy(dst[i:i+n], src)\<close> for a range inside \<open>dst\<close>.\<close>

definition copy_into :: "bytes \<Rightarrow> nat \<Rightarrow> nat \<Rightarrow> bytes \<Rightarrow> bytes" where
  "copy_into dst i n src =
     (let m = min n (length src) in take i dst @ take m src @ drop (i + m) dst)"

definition PubKeyBytesLenUncompressed :: nat where
  "PubKeyBytesLenUncompressed = 65"

definition signature_bytes :: "Signature \<Rightarrow> bytes" where
  "signature_bytes s =
     copy_into (copy_into (replicate 64 0) 0 64 (PaddedBigBytes (sg_R s) 32)) 32 32
       (PaddedBigBytes (sg_S s) 32)"

definition signature_cacheKey :: "Signature \<Rightarrow> bytes \<Rightarrow> bytes \<Rightarrow> bytes" where
  "signature_cacheKey s hash signeeBytes =
     (let key = replicate (64 + length hash + PubKeyBytesLenUncompressed) 0;
          key = copy_into key 0 64 (signature_bytes s);
          key = copy_into key 64 (length hash) hash
      in copy_into key (64 + length hash) PubKeyBytesLenUncompressed signeeBytes)"

text \<open>
  \<open>Signature.Verify\<close>: \<open>lru_Get\<close> and \<open>lru_Add\<close> are the cache's operations,
  \<open>SerializeUncompressed\<close> the key encoding of the curve library, and
  \<open>VerifySignature\<close> the check of the C library. Nil receivers and keys are \<open>None\<close>.
\<close>

definition signature_Verify ::
    "('c \<Rightarrow> bytes \<Rightarrow> bool \<times> 'c) \<Rightarrow> ('c \<Rightarrow> bytes \<Rightarrow> 'c) \<Rightarrow> (PublicKey \<Rightarrow> bytes) \<Rightarrow>
     (bytes \<Rightarrow> bytes \<Rightarrow> bytes \<Rightarrow> bool) \<Rightarrow> bool \<Rightarrow> 'c \<Rightarrow>
     Signature option \<Rightarrow> bytes \<Rightarrow> PublicKey option \<Rightarrow> 'c \<times> bool" where
  "signature_Verify lru_Get lru_Add SerializeUncompressed VerifySignature BypassSignature
     verifyCache s hash signee =
     (if BypassSignature then (verifyCache, True)
      else case (s, signee) of
        (Some s, Some signee) \<Rightarrow>
          let signeeBytes = SerializeUncompressed signee;
              cacheKey = signature_cacheKey s hash signeeBytes
          in (case lru_Get verifyCache cacheKey of (ok, verifyCache) \<Rightarrow>
                if ok then (verifyCache, True)
                else
                  let valid = VerifySignature signeeBytes hash (take 64 cacheKey) in
                  if valid then (lru_Add verifyCache cacheKey, True) else (verifyCache, False))
      | _ \<Rightarrow> (verifyCache, False))"

text \<open>
  \<open>PublicKey.UnmarshalBinary\<close>: the result of the parse is a variable of the inner
  scope, so the error returned is always nil. \<open>k\<close> is the key before and after the
  call, and \<open>parse\<close> the curve library's parser.
\<close>

definition publicKey_UnmarshalBinary ::
    "(bytes \<Rightarrow> PublicKey option) \<Rightarrow> (bytes, PublicKey) gomap \<Rightarrow> PublicKey \<Rightarrow> bytes \<Rightarrow>
     (bytes, PublicKey) gomap \<times> PublicKey \<times> (hash_error, unit) res" where
  "publicKey_UnmarshalBinary parse cache k keyBytes =
     (case mget cache keyBytes of
        Some pubKey \<Rightarrow> (cache, pubKey, Ok ())
      | None \<Rightarrow>
          (case parse keyBytes of
             Some pubNew \<Rightarrow> (mput keyBytes pubNew cache, pubNew, Ok ())
           | None \<Rightarrow> (cache, k, Ok ())))"

section \<open>Hash, sign, verify\<close>

record HashSignVerifier =
  hv_DataHash :: hash
  hv_Signee :: "PublicKey option"
  hv_Signature :: "Signature option"

datatype verifier_error = ErrHashValueNotMatch | ErrSignatureNotMatch | ErrMarshal | ErrSign

text \<open>
  \<open>enc\<close> is the result of \<open>MarshalHash\<close> on the signed header, \<open>None\<close> its error;
  \<open>sign\<close> and \<open>pub\<close> are the private key's \<open>Sign\<close> and \<open>PubKey\<close>, and \<open>sigVerify\<close> is
  \<open>Signature.Verify\<close>.
\<close>

definition hsv_SetHash ::
    "(bytes \<Rightarrow> hash) \<Rightarrow> bytes option \<Rightarrow> HashSignVerifier \<Rightarrow>
     HashSignVerifier \<times> (verifier_error, unit) res" where
  "hsv_SetHash THashH enc i =
     (case enc of None \<Rightarrow> (i, Err ErrMarshal)
      | Some enc \<Rightarrow> (i \<lparr> hv_DataHash := THashH enc \<rparr>, Ok ()))"

definition hsv_SignHash ::
    "('k \<Rightarrow> bytes \<Rightarrow> Signature option \<times> bool) \<Rightarrow> ('k \<Rightarrow> PublicKey) \<Rightarrow> 'k \<Rightarrow> HashSignVerifier \<Rightarrow>
     HashSignVerifier \<times> (verifier_error, unit) res" where
  "hsv_SignHash sign pub signer i =
     (case sign signer (hv_DataHash i) of (sig, failed) \<Rightarrow>
        let i = i \<lparr> hv_Signature := sig \<rparr> in
        if failed then (i, Err ErrSign)
        else (i \<lparr> hv_Signee := Some (pub signer) \<rparr>, Ok ()))"

definition hsv_Sign ::
    "(bytes \<Rightarrow> hash) \<Rightarrow> ('k \<Rightarrow> bytes \<Rightarrow> Signature option \<times> bool) \<Rightarrow> ('k \<Rightarrow> PublicKey) \<Rightarrow>
     bytes option \<Rightarrow> 'k \<Rightarrow> HashSignVerifier \<Rightarrow> HashSignVerifier \<times> (verifier_error, unit) res" where
  "hsv_Sign THashH sign pub enc signer i =
     (case hsv_SetHash THashH enc i of
        (i, Ok _) \<Rightarrow> hsv_SignHash sign pub signer i
      | r \<Rightarrow> r)"

definition hsv_VerifyHash ::
    "(bytes \<Rightarrow> hash) \<Rightarrow> bytes option \<Rightarrow> HashSignVerifier \<Rightarrow> (verifier_error, unit) res" where
  "hsv_VerifyHash THashH enc i =
     (case enc of None \<Rightarrow> Err ErrMarshal
      | Some enc \<Rightarrow> if hv_DataHash i \<noteq> THashH enc then Err ErrHashValueNotMatch else Ok ())"

definition hsv_VerifySignature ::
    "(Signature option \<Rightarrow> bytes \<Rightarrow> PublicKey option \<Rightarrow> bool) \<Rightarrow> HashSignVerifier \<Rightarrow>
     (verifier_error, unit) res" where
  "hsv_VerifySignature sigVerify i =
     (if \<not> sigVerify (hv_Signature i) (hv_DataHash i) (hv_Signee i) then Err ErrSignatureNotMatch
      else Ok ())"

definition hsv_Verify ::
    "(bytes \<Rightarrow> hash) \<Rightarrow> (Signature option \<Rightarrow> bytes \<Rightarrow> PublicKey option \<Rightarrow> bool) \<Rightarrow>
     bytes option \<Rightarrow> HashSignVerifier \<Rightarrow> (verifier_error, unit) res" where
  "hsv_Verify THashH sigVerify enc i =
     (case hsv_VerifyHash THashH enc i of Ok _ \<Rightarrow> hsv_VerifySignature sigVerify i | r \<Rightarrow> r)"

section \<open>The padded encoding\<close>

lemma be_nat_append: "be_nat (xs @ ys) = be_nat xs * 256 ^ length ys + be_nat ys"
  using be_nat_foldl [of "be_nat xs" ys] by (simp add: be_nat_def)

lemma be_nat_replicate_0: "be_nat (replicate n 0) = 0"
  by (induction n) auto

lemma be_nat_update:
  assumes "i < length ret" and "ret ! i = 0"
  shows "be_nat (ret[i := b]) = be_nat ret + unat b * 256 ^ (length ret - 1 - i)"
proof -
  have split: "ret = take i ret @ 0 # drop (Suc i) ret"
    using assms by (metis id_take_nth_drop)
  have upd: "ret[i := b] = take i ret @ b # drop (Suc i) ret"
    using assms(1) by (simp add: upd_conv_take_nth_drop)
  have "be_nat ret = be_nat (take i ret @ 0 # drop (Suc i) ret)"
    using split by simp
  then show ?thesis
    using assms(1) by (simp add: upd be_nat_append be_nat_Cons algebra_simps)
qed

lemma pad_word_spec:
  assumes "i \<le> length ret" and "take i ret = replicate i 0" and "pad_word j i d ret = (i', ret')"
  shows "i' = i - j \<and> length ret' = length ret \<and> take i' ret' = replicate i' 0 \<and>
    be_nat ret' = be_nat ret + unat d mod 256 ^ min j i * 256 ^ (length ret - i)"
  using assms
proof (induction j i d ret arbitrary: i' ret' rule: pad_word.induct)
  case (3 j i d ret)
  have zero: "ret ! i = 0"
    using 3(2,3) by (metis lessI nth_replicate nth_take)
  have upd: "be_nat (ret[i := ucast d]) = be_nat ret + unat d mod 256 * 256 ^ (length ret - Suc i)"
    using 3(2) zero by (simp add: be_nat_update unsigned_ucast_eq unsigned_take_bit_eq take_bit_eq_mod)
  have low: "take i (ret[i := ucast d]) = replicate i 0"
  proof -
    have "take i (ret[i := ucast d]) = take i (take (Suc i) ret)" by simp
    also have "\<dots> = replicate i 0" unfolding 3(3) take_replicate by simp
    finally show ?thesis .
  qed
  from 3(1) [OF _ low] 3(2,4)
  have IH: "i' = i - j" "length ret' = length ret" "take i' ret' = replicate i' 0"
      "be_nat ret' = be_nat (ret[i := ucast d]) +
         unat (drop_bit 8 d) mod 256 ^ min j i * 256 ^ (length ret - i)"
    by auto
  have shift: "unat (drop_bit 8 d) = unat d div 256"
    by (subst unat_drop_bit_eq) (simp add: drop_bit_eq_div [where 'a = nat])
  have "length ret - i = Suc (length ret - Suc i)" using 3(2) by simp
  then have "unat d mod 256 * 256 ^ (length ret - Suc i) +
      unat (drop_bit 8 d) mod 256 ^ min j i * 256 ^ (length ret - i) =
      (unat d mod 256 + 256 * (unat d div 256 mod 256 ^ min j i)) * 256 ^ (length ret - Suc i)"
    unfolding shift by (simp add: algebra_simps)
  also have "unat d mod 256 + 256 * (unat d div 256 mod 256 ^ min j i) = unat d mod 256 ^ Suc (min j i)"
    by (simp add: mod_mult2_eq)
  finally show ?case using IH upd by simp
qed auto

lemma pad_words_value:
  assumes "i \<le> length ret" and "take i ret = replicate i 0" and "x < 256 ^ i"
  shows "length (pad_words i (big_Bits x) ret) = length ret \<and>
    be_nat (pad_words i (big_Bits x) ret) = be_nat ret + x * 256 ^ (length ret - i)"
  using assms
proof (induction x arbitrary: i ret rule: big_Bits.induct)
  case (1 x)
  show ?case
  proof (cases "x = 0")
    case True
    then show ?thesis by (simp add: big_Bits.simps)
  next
    case False
    obtain i' ret' where p: "pad_word 8 i (of_nat x :: u64) ret = (i', ret')" by fastforce
    have s: "i' = i - 8" "length ret' = length ret" "take i' ret' = replicate i' 0"
        "be_nat ret' = be_nat ret + unat (of_nat x :: u64) mod 256 ^ min 8 i * 256 ^ (length ret - i)"
      using pad_word_spec [OF 1(2,3) p] by auto
    have step: "pad_words i (big_Bits x) ret = pad_words i' (big_Bits (x div 2 ^ 64)) ret'"
      using False p by (simp add: big_Bits.simps [of x])
    have word: "unat (of_nat x :: u64) = x mod 256 ^ 8"
      by (simp add: unsigned_of_nat take_bit_eq_mod)
    show ?thesis
    proof (cases "i < 8")
      case True
      then have "x < 256 ^ 8" using 1(4) power_increasing [of i 8 "256::nat"] by simp
      then have "x div 2 ^ 64 = 0" "unat (of_nat x :: u64) = x" using word by simp_all
      then show ?thesis
        using s step True 1(4) by (simp add: big_Bits.simps [of 0])
    next
      case i8: False
      then obtain m where m: "i = 8 + m" by (metis le_Suc_ex not_less)
      have small: "x div 2 ^ 64 < 256 ^ i'"
      proof -
        have "x < 256 ^ i' * 2 ^ 64"
          using 1(4) s(1) by (simp add: m power_add)
        then show ?thesis by (rule less_mult_imp_div_less)
      qed
      have i': "i' \<le> length ret'" using s 1(2) by simp
      have IH: "length (pad_words i' (big_Bits (x div 2 ^ 64)) ret') = length ret'"
          "be_nat (pad_words i' (big_Bits (x div 2 ^ 64)) ret') =
             be_nat ret' + x div 2 ^ 64 * 256 ^ (length ret' - i')"
        using 1(1) [OF False i' s(3) small] by auto
      have pow: "(256::nat) ^ (length ret - i') = 2 ^ 64 * 256 ^ (length ret - i)"
      proof -
        have "length ret - i' = 8 + (length ret - i)" using s(1) m 1(2) by simp
        then show ?thesis by (simp only: power_add) simp
      qed
      have "x mod 2 ^ 64 * 256 ^ (length ret - i) + x div 2 ^ 64 * 256 ^ (length ret - i') =
          (x mod 2 ^ 64 + x div 2 ^ 64 * 2 ^ 64) * 256 ^ (length ret - i)"
        by (simp only: pow algebra_simps)
      then show ?thesis
        using IH s i8 word step by (simp add: min_def)
    qed
  qed
qed

lemma be_nat_big_Bytes: "be_nat (big_Bytes x) = x"
proof (induction x rule: le_bytes.induct)
  case (1 x)
  then show ?case
    by (cases "x = 0")
      (simp_all add: big_Bytes_def le_bytes.simps [of x] le_bytes.simps [of 0] be_nat_append
        unsigned_of_nat take_bit_eq_mod)
qed

lemma BitLen_less: "x < 2 ^ BitLen x"
proof (induction x rule: BitLen.induct)
  case (1 x)
  then show ?case by (cases "x = 0") (auto simp: BitLen.simps [of x])
qed

text \<open>
  \<open>PaddedBigBytes\<close> keeps the number: the bytes it returns, read as a big-endian
  number, are the absolute value of the integer, and there are at least \<open>n\<close> of
  them, exactly \<open>n\<close> when the number fits in fewer than \<open>8 * n\<close> bits.
\<close>

theorem PaddedBigBytes_value:
  "be_nat (PaddedBigBytes x n) = nat \<bar>x\<bar> \<and>
   length (PaddedBigBytes x n) = (if BitLen (nat \<bar>x\<bar>) div 8 < n then n else length (big_Bytes (nat \<bar>x\<bar>)))"
proof (cases "BitLen (nat \<bar>x\<bar>) div 8 < n")
  case True
  have "nat \<bar>x\<bar> < 256 ^ n"
  proof -
    have "nat \<bar>x\<bar> < 2 ^ BitLen (nat \<bar>x\<bar>)" by (rule BitLen_less)
    also have "\<dots> \<le> 2 ^ (8 * n)" using True by (intro power_increasing) auto
    finally show ?thesis by (simp add: power_mult)
  qed
  then show ?thesis
    using pad_words_value [of n "replicate n 0" "nat \<bar>x\<bar>"] True
    by (simp add: PaddedBigBytes_def Let_def be_nat_replicate_0)
next
  case False
  then show ?thesis by (simp add: PaddedBigBytes_def Let_def be_nat_big_Bytes)
qed

section \<open>The verification cache\<close>

lemma length_copy_into [simp]:
  "i + n \<le> length dst \<Longrightarrow> length (copy_into dst i n src) = length dst"
  by (auto simp: copy_into_def Let_def)

lemma copy_into_whole: "length dst = n \<Longrightarrow> length src = n \<Longrightarrow> copy_into dst 0 n src = src"
  by (simp add: copy_into_def)

lemma length_signature_bytes [simp]: "length (signature_bytes s) = 64"
  by (simp add: signature_bytes_def)

lemma signature_cacheKey_eq:
  assumes "length pub = PubKeyBytesLenUncompressed"
  shows "signature_cacheKey s hash pub = signature_bytes s @ hash @ pub"
  using assms by (simp add: signature_cacheKey_def copy_into_def Let_def)

text \<open>Every key of a set is made of a signature, a hash and a public key that verify.\<close>

definition cache_sound :: "(bytes \<Rightarrow> bytes \<Rightarrow> bytes \<Rightarrow> bool) \<Rightarrow> bytes set \<Rightarrow> bool" where
  "cache_sound VerifySignature K \<longleftrightarrow>
     (\<forall>k \<in> K. \<exists>pub h sig. k = sig @ h @ pub \<and> length sig = 64 \<and>
        length pub = PubKeyBytesLenUncompressed \<and> VerifySignature pub h sig)"

lemma cache_sound_subset: "cache_sound V K \<Longrightarrow> K' \<subseteq> K \<Longrightarrow> cache_sound V K'"
  by (auto simp: cache_sound_def)

text \<open>
  C34: the cache in front of the signature check never changes an answer, when the check is
  not bypassed. If every
  key in the cache belongs to a triple the curve library accepts, then \<open>Verify\<close>
  returns what the library says about the 64 signature bytes, the hash and the
  key, and the property of the cache is kept. The hypotheses say that a lookup
  finds only keys that were added, that an addition adds one key (and may evict
  others), and that an uncompressed key has 65 bytes.
\<close>

theorem signature_Verify_cached:
  fixes keys :: "'c \<Rightarrow> bytes set"
  assumes get: "\<And>c k. fst (lru_Get c k) \<Longrightarrow> k \<in> keys c"
    and get_keys: "\<And>c k. keys (snd (lru_Get c k)) \<subseteq> keys c"
    and add_keys: "\<And>c k. keys (lru_Add c k) \<subseteq> insert k (keys c)"
    and ser: "\<And>k. length (Ser k) = PubKeyBytesLenUncompressed"
    and sound: "cache_sound VerifySignature (keys c)"
    and run: "signature_Verify lru_Get lru_Add Ser VerifySignature False c s hash signee = (c', b)"
  shows "cache_sound VerifySignature (keys c') \<and>
    (b \<longleftrightarrow> (\<exists>s0 k. s = Some s0 \<and> signee = Some k \<and> VerifySignature (Ser k) hash (signature_bytes s0)))"
proof (cases "\<exists>s0 k. s = Some s0 \<and> signee = Some k")
  case False
  then show ?thesis
    using run sound by (auto simp: signature_Verify_def split: option.splits)
next
  case True
  then obtain s0 k where sk: "s = Some s0" "signee = Some k" by blast
  define key where "key = signature_bytes s0 @ hash @ Ser k"
  have key: "signature_cacheKey s0 hash (Ser k) = key" "take 64 key = signature_bytes s0"
    using signature_cacheKey_eq [OF ser] by (simp_all add: key_def)
  obtain ok c1 where g: "lru_Get c key = (ok, c1)" by fastforce
  have sound1: "cache_sound VerifySignature (keys c1)"
    using cache_sound_subset [OF sound get_keys [of c key]] g by simp
  show ?thesis
  proof (cases ok)
    case True
    then have "key \<in> keys c" using get [of c key] g by simp
    then obtain pub h sig where o: "key = sig @ h @ pub" "length sig = 64"
        "length pub = PubKeyBytesLenUncompressed" "VerifySignature pub h sig"
      using sound unfolding cache_sound_def by blast
    have "sig = signature_bytes s0"
      using o(1,2) by (auto simp: key_def append_eq_append_conv)
    moreover from this have "h @ pub = hash @ Ser k"
      using o(1) by (simp add: key_def)
    then have "h = hash \<and> pub = Ser k"
      using o(3) ser [of k] by (simp add: append_eq_append_conv)
    ultimately show ?thesis
      using run sk key g True o(4) sound1 by (auto simp: signature_Verify_def Let_def)
  next
    case False
    have "cache_sound VerifySignature (keys (lru_Add c1 key))"
      if "VerifySignature (Ser k) hash (signature_bytes s0)"
    proof (rule cache_sound_subset [OF _ add_keys])
      show "cache_sound VerifySignature (insert key (keys c1))"
        using sound1 that ser [of k] unfolding cache_sound_def key_def
        by (metis insert_iff length_signature_bytes)
    qed
    then show ?thesis
      using run sk key g False sound1
      by (auto simp: signature_Verify_def Let_def split: if_splits)
  qed
qed

theorem signature_Verify_cached_witness:
  "cache_sound (\<lambda>_ _ _. True) (set []) \<and>
   snd (signature_Verify (\<lambda>c k. (k \<in> set c, c)) (\<lambda>c k. take 256 (k # c)) (\<lambda>k. replicate 65 0)
     (\<lambda>_ _ _. True) False [] (Some \<lparr> sg_R = 1, sg_S = 2 \<rparr>) [] (Some [])) = True"
proof -
  have keys: "set (take 256 (k # c)) \<subseteq> insert k (set c)" for k :: bytes and c
    using set_take_subset [of 256 "k # c"] by simp
  show ?thesis
    using signature_Verify_cached [where keys = set and lru_Get = "\<lambda>c k. (k \<in> set c, c)"
        and lru_Add = "\<lambda>c k. take 256 (k # c)" and Ser = "\<lambda>k. replicate 65 0"
        and VerifySignature = "\<lambda>_ _ _. True" and c = "[]" and s = "Some \<lparr> sg_R = 1, sg_S = 2 \<rparr>"
        and signee = "Some []" and hash = "[]", OF _ _ keys _ _ surjective_pairing]
    by (simp add: PubKeyBytesLenUncompressed_def cache_sound_def)
qed

section \<open>Signed objects\<close>

text \<open>
  an object signed with a key verifies, when the key's signatures are accepted
  with its public key; and the address of the signee is then the address of that key.
\<close>

theorem hsv_sign_verify:
  assumes "\<And>h. \<exists>sig. sign k h = (Some sig, False) \<and> sigVerify (Some sig) h (Some (pub k))"
  shows "\<exists>i'. hsv_Sign T sign pub (Some enc) k i = (i', Ok ()) \<and>
    hsv_Verify T sigVerify (Some enc) i' = Ok () \<and> hv_DataHash i' = T enc \<and>
    PubKeyHash T (hv_Signee i') = Ok (T (pub k)) \<and>
    (T enc' \<noteq> T enc \<longrightarrow> hsv_Verify T sigVerify (Some enc') i' = Err ErrHashValueNotMatch)"
proof -
  obtain sig where "sign k (T enc) = (Some sig, False)" "sigVerify (Some sig) (T enc) (Some (pub k))"
    using assms by blast
  then show ?thesis
    by (simp add: hsv_Sign_def hsv_SetHash_def hsv_SignHash_def hsv_Verify_def hsv_VerifyHash_def
        hsv_VerifySignature_def PubKeyHash_def)
qed

theorem hsv_sign_verify_witness:
  "\<exists>i'. hsv_Sign id (\<lambda>k h. (Some \<lparr> sg_R = 1, sg_S = 1 \<rparr>, False)) (\<lambda>k::nat. [2]) (Some [7]) 0
      \<lparr> hv_DataHash = [], hv_Signee = None, hv_Signature = None \<rparr> = (i', Ok ()) \<and>
    hsv_Verify id (\<lambda>s h k. s \<noteq> None \<and> k = Some [2]) (Some [7]) i' = Ok () \<and>
    hsv_Verify id (\<lambda>s h k. s \<noteq> None \<and> k = Some [2]) (Some [8]) i' = Err ErrHashValueNotMatch"
  using hsv_sign_verify [where T = id and sign = "\<lambda>k h. (Some \<lparr> sg_R = 1, sg_S = 1 \<rparr>, False)"
      and pub = "\<lambda>k::nat. [2]" and k = 0 and sigVerify = "\<lambda>s h k. s \<noteq> None \<and> k = Some [2]"
      and enc = "[7]" and enc' = "[8]"
      and i = "\<lparr> hv_DataHash = [], hv_Signee = None, hv_Signature = None \<rparr>"]
  by auto

text \<open>
  a public key that does not parse is reported as no error: \<open>UnmarshalBinary\<close>
  returns nil for every input and leaves the key as it was.
\<close>

theorem publicKey_UnmarshalBinary_hides_errors:
  "mget cache b = None \<Longrightarrow> parse b = None \<Longrightarrow>
    publicKey_UnmarshalBinary parse cache k b = (cache, k, Ok ())"
  by (simp add: publicKey_UnmarshalBinary_def)

theorem publicKey_UnmarshalBinary_hides_errors_witness:
  "mget [] [1::byte] = None \<and>
   publicKey_UnmarshalBinary (\<lambda>_. None) [] [0] [1] = ([], [0], Ok ())"
  using publicKey_UnmarshalBinary_hides_errors [of "[]" "[1]" "\<lambda>_. None" "[0]"] by simp

end
