(* ===== verification/Transactions.thy ===== *)
theory Transactions
  imports Accounts Verifier "HOL-Library.Signed_Division"
begin

text \<open>
  The main chain's transactions: \<open>blockproducer/interfaces\<close> (types, states, the
  wrapper and the registry) and the transaction types of the package \<open>types\<close>
  with the methods of the interface \<open>Transaction\<close>.
\<close>

section \<open>Transaction types and states\<close>

type_synonym AccountNonce = u32
type_synonym TransactionType = u32
type_synonym TransactionState = u32
type_synonym Time = int

text \<open>\<open>Time.Sub\<close> saturates at the range of a \<open>Duration\<close>.\<close>

definition time_Sub :: "Time \<Rightarrow> Time \<Rightarrow> int" where
  "time_Sub t u = max (- (2 ^ 63)) (min (2 ^ 63 - 1) (t - u))"

lemma sdiv_nonneg: "0 \<le> (a :: int) \<Longrightarrow> 0 < b \<Longrightarrow> a sdiv b = a div b"
  by (cases "a = 0") (simp_all add: signed_divide_int_def)

definition TransactionTypeTransfer :: TransactionType where "TransactionTypeTransfer = 1"
definition TransactionTypeBaseAccount :: TransactionType where "TransactionTypeBaseAccount = 7"
definition TransactionTypeCreateDatabase :: TransactionType where "TransactionTypeCreateDatabase = 8"
definition TransactionTypeProvideService :: TransactionType where "TransactionTypeProvideService = 9"
definition TransactionTypeUpdatePermission :: TransactionType where
  "TransactionTypeUpdatePermission = 10"
definition TransactionTypeIssueKeys :: TransactionType where "TransactionTypeIssueKeys = 11"
definition TransactionTypeUpdateBilling :: TransactionType where "TransactionTypeUpdateBilling = 12"
definition TransactionTypeNumber :: TransactionType where "TransactionTypeNumber = 13"

definition transactionType_Bytes :: "TransactionType \<Rightarrow> bytes" where
  "transactionType_Bytes t = PutUint 4 t"

text \<open>Reading from fewer than four bytes is an index out of range.\<close>

definition transactionType_FromBytes :: "bytes \<Rightarrow> (unit, TransactionType) res" where
  "transactionType_FromBytes b = (if length b < 4 then Panic else Ok (Uint 4 b))"

definition transactionType_String :: "TransactionType \<Rightarrow> string" where
  "transactionType_String t =
     (if t = 1 then ''Transfer'' else if t = 2 then ''CreateAccount''
      else if t = 3 then ''DeleteAccount'' else if t = 4 then ''AddDatabaseUser''
      else if t = 5 then ''AlterDatabaseUser'' else if t = 6 then ''DeleteDatabaseUser''
      else if t = 7 then ''BaseAccount'' else if t = 8 then ''CreateDatabase''
      else if t = 9 then ''ProvideService'' else if t = 10 then ''UpdatePermission''
      else if t = 11 then ''IssueKeys'' else if t = 12 then ''UpdateBilling''
      else ''Unknown'')"

definition TransactionStatePending :: TransactionState where "TransactionStatePending = 0"
definition TransactionStatePacked :: TransactionState where "TransactionStatePacked = 1"
definition TransactionStateConfirmed :: TransactionState where "TransactionStateConfirmed = 2"
definition TransactionStateExpired :: TransactionState where "TransactionStateExpired = 3"
definition TransactionStateNotFound :: TransactionState where "TransactionStateNotFound = 4"

definition transactionState_String :: "TransactionState \<Rightarrow> string" where
  "transactionState_String s =
     (if s = TransactionStatePending then ''Pending''
      else if s = TransactionStatePacked then ''Packed''
      else if s = TransactionStateConfirmed then ''Confirmed''
      else if s = TransactionStateExpired then ''Expired''
      else if s = TransactionStateNotFound then ''Not Found''
      else ''Unknown'')"

section \<open>Headers\<close>

record TransactionTypeMixin =
  mx_TxType :: TransactionType
  mx_Timestamp :: Time

record TransferHeader =
  tr_Sender :: AccountAddress
  tr_Receiver :: AccountAddress
  tr_Nonce :: AccountNonce
  tr_Amount :: u64
  tr_TokenType :: TokenType

record CreateDatabaseHeader =
  cd_Owner :: AccountAddress
  cd_ResourceMeta :: ResourceMeta
  cd_GasPrice :: u64
  cd_AdvancePayment :: u64
  cd_TokenType :: TokenType
  cd_Nonce :: AccountNonce

record ProvideServiceHeader =
  ps_Space :: u64
  ps_Memory :: u64
  ps_LoadAvgPerCPU :: float64
  ps_TargetUser :: "AccountAddress list"
  ps_GasPrice :: u64
  ps_TokenType :: TokenType
  ps_NodeID :: NodeID
  ps_Nonce :: AccountNonce

record UpdatePermissionHeader =
  uh_TargetSQLChain :: AccountAddress
  uh_TargetUser :: AccountAddress
  uh_Permission :: "UserPermission option"
  uh_Nonce :: AccountNonce

record MinerKey =
  mk_Miner :: AccountAddress
  mk_EncryptionKey :: string

record IssueKeysHeader =
  ik_TargetSQLChain :: AccountAddress
  ik_MinerKeys :: "MinerKey list"
  ik_Nonce :: AccountNonce

record MinerIncome =
  mi_Miner :: AccountAddress
  mi_Income :: u64

record UserCost =
  uc_User :: AccountAddress
  uc_Cost :: u64
  uc_Miners :: "MinerIncome list"

record UpdateBillingHeader =
  ub_Receiver :: AccountAddress
  ub_Nonce :: AccountNonce
  ub_Users :: "UserCost list"
  ub_From :: u32
  ub_To :: u32
  ub_Version :: int

text \<open>
  A transaction: its header, the type mixin and the hash-sign-verify mixin. The
  base account has no signature. \<open>TransactionWrapper\<close> holds another transaction.
\<close>

datatype Transaction =
    Transfer TransferHeader TransactionTypeMixin HashSignVerifier
  | BaseAccount Account TransactionTypeMixin
  | CreateDatabase CreateDatabaseHeader TransactionTypeMixin HashSignVerifier
  | ProvideService ProvideServiceHeader TransactionTypeMixin HashSignVerifier
  | UpdatePermission UpdatePermissionHeader TransactionTypeMixin HashSignVerifier
  | IssueKeys IssueKeysHeader TransactionTypeMixin HashSignVerifier
  | UpdateBilling UpdateBillingHeader TransactionTypeMixin HashSignVerifier
  | TransactionWrapper Transaction

text \<open>The header of a database's chain (\<open>types/block.go\<close>), which the genesis block has.\<close>

record Header =
  hd_Version :: int
  hd_Producer :: NodeID
  hd_GenesisHash :: hash
  hd_ParentHash :: hash
  hd_MerkleRoot :: hash
  hd_Timestamp :: Time

record SignedHeader =
  sh_Header :: Header
  sh_HSV :: HashSignVerifier

text \<open>
  What the code takes from outside: the hash function, the generated \<open>MarshalHash\<close>
  of each signed header (\<open>None\<close> an error), the signature check, the encoding of a
  block that has only a header, what the machine makes of a floating point number
  that does not fit in 64 bits, and the configuration values.
\<close>

record tx_env =
  THashH :: "bytes \<Rightarrow> hash"
  sigVerify :: "Signature option \<Rightarrow> bytes \<Rightarrow> PublicKey option \<Rightarrow> bool"
  marshal_Transfer :: "TransferHeader \<Rightarrow> bytes option"
  marshal_CreateDatabase :: "CreateDatabaseHeader \<Rightarrow> bytes option"
  marshal_ProvideService :: "ProvideServiceHeader \<Rightarrow> bytes option"
  marshal_UpdatePermission :: "UpdatePermissionHeader \<Rightarrow> bytes option"
  marshal_IssueKeys :: "IssueKeysHeader \<Rightarrow> bytes option"
  marshal_UpdateBilling :: "UpdateBillingHeader \<Rightarrow> bytes option"
  marshal_Header :: "Header \<Rightarrow> bytes option"
  encode_genesis_block :: "SignedHeader \<Rightarrow> bytes option"
  float_overflow :: u64
  conf_QPS :: u32
  conf_BillingBlockCount :: u64
  conf_MinProviderDeposit :: u64

text \<open>A concrete environment, for examples: nothing is hashed and every signature is good.\<close>

definition example_env :: tx_env where
  "example_env =
     \<lparr> THashH = id, sigVerify = (\<lambda>_ _ _. True), marshal_Transfer = (\<lambda>_. Some []),
       marshal_CreateDatabase = (\<lambda>_. Some []), marshal_ProvideService = (\<lambda>_. Some []),
       marshal_UpdatePermission = (\<lambda>_. Some []), marshal_IssueKeys = (\<lambda>_. Some []),
       marshal_UpdateBilling = (\<lambda>_. Some []), marshal_Header = (\<lambda>_. Some []),
       encode_genesis_block = (\<lambda>_. Some []), float_overflow = 0, conf_QPS = 1,
       conf_BillingBlockCount = 1, conf_MinProviderDeposit = 10 \<rparr>"

definition example_hsv :: "PublicKey \<Rightarrow> HashSignVerifier" where
  "example_hsv k = \<lparr> hv_DataHash = [], hv_Signee = Some k, hv_Signature = None \<rparr>"

section \<open>The interface \<open>Transaction\<close>\<close>

fun tx_mixin :: "Transaction \<Rightarrow> TransactionTypeMixin" where
  "tx_mixin (Transfer _ m _) = m"
| "tx_mixin (BaseAccount _ m) = m"
| "tx_mixin (CreateDatabase _ m _) = m"
| "tx_mixin (ProvideService _ m _) = m"
| "tx_mixin (UpdatePermission _ m _) = m"
| "tx_mixin (IssueKeys _ m _) = m"
| "tx_mixin (UpdateBilling _ m _) = m"
| "tx_mixin (TransactionWrapper t) = tx_mixin t"

definition GetTransactionType :: "Transaction \<Rightarrow> TransactionType" where
  "GetTransactionType t = mx_TxType (tx_mixin t)"

definition GetTimestamp :: "Transaction \<Rightarrow> Time" where
  "GetTimestamp t = mx_Timestamp (tx_mixin t)"

text \<open>\<open>addr, _ := crypto.PubKeyHash(signee)\<close>: the zero address when there is no key.\<close>

definition signee_address :: "tx_env \<Rightarrow> HashSignVerifier \<Rightarrow> AccountAddress" where
  "signee_address E i = (case PubKeyHash (THashH E) (hv_Signee i) of Ok a \<Rightarrow> a | _ \<Rightarrow> zero_hash)"

fun GetAccountAddress :: "tx_env \<Rightarrow> Transaction \<Rightarrow> AccountAddress" where
  "GetAccountAddress E (Transfer h _ _) = tr_Sender h"
| "GetAccountAddress E (BaseAccount a _) = ac_Address a"
| "GetAccountAddress E (CreateDatabase _ _ i) = signee_address E i"
| "GetAccountAddress E (ProvideService _ _ i) = signee_address E i"
| "GetAccountAddress E (UpdatePermission _ _ i) = signee_address E i"
| "GetAccountAddress E (IssueKeys _ _ i) = signee_address E i"
| "GetAccountAddress E (UpdateBilling _ _ i) = signee_address E i"
| "GetAccountAddress E (TransactionWrapper t) = GetAccountAddress E t"

fun GetAccountNonce :: "Transaction \<Rightarrow> AccountNonce" where
  "GetAccountNonce (Transfer h _ _) = tr_Nonce h"
| "GetAccountNonce (BaseAccount _ _) = 0"
| "GetAccountNonce (CreateDatabase h _ _) = cd_Nonce h"
| "GetAccountNonce (ProvideService h _ _) = ps_Nonce h"
| "GetAccountNonce (UpdatePermission h _ _) = uh_Nonce h"
| "GetAccountNonce (IssueKeys h _ _) = ik_Nonce h"
| "GetAccountNonce (UpdateBilling h _ _) = ub_Nonce h"
| "GetAccountNonce (TransactionWrapper t) = GetAccountNonce t"

fun tx_Hash :: "Transaction \<Rightarrow> hash" where
  "tx_Hash (Transfer _ _ i) = hv_DataHash i"
| "tx_Hash (BaseAccount _ _) = zero_hash"
| "tx_Hash (CreateDatabase _ _ i) = hv_DataHash i"
| "tx_Hash (ProvideService _ _ i) = hv_DataHash i"
| "tx_Hash (UpdatePermission _ _ i) = hv_DataHash i"
| "tx_Hash (IssueKeys _ _ i) = hv_DataHash i"
| "tx_Hash (UpdateBilling _ _ i) = hv_DataHash i"
| "tx_Hash (TransactionWrapper t) = tx_Hash t"

fun tx_Verify :: "tx_env \<Rightarrow> Transaction \<Rightarrow> (verifier_error, unit) res" where
  "tx_Verify E (Transfer h _ i) = hsv_Verify (THashH E) (sigVerify E) (marshal_Transfer E h) i"
| "tx_Verify E (BaseAccount _ _) = Ok ()"
| "tx_Verify E (CreateDatabase h _ i) =
     hsv_Verify (THashH E) (sigVerify E) (marshal_CreateDatabase E h) i"
| "tx_Verify E (ProvideService h _ i) =
     hsv_Verify (THashH E) (sigVerify E) (marshal_ProvideService E h) i"
| "tx_Verify E (UpdatePermission h _ i) =
     hsv_Verify (THashH E) (sigVerify E) (marshal_UpdatePermission E h) i"
| "tx_Verify E (IssueKeys h _ i) = hsv_Verify (THashH E) (sigVerify E) (marshal_IssueKeys E h) i"
| "tx_Verify E (UpdateBilling h _ i) =
     hsv_Verify (THashH E) (sigVerify E) (marshal_UpdateBilling E h) i"
| "tx_Verify E (TransactionWrapper t) = tx_Verify E t"

text \<open>\<open>Sign\<close>: \<open>sign\<close> and \<open>pub\<close> are the methods of the private key.\<close>

fun tx_Sign ::
    "tx_env \<Rightarrow> ('k \<Rightarrow> bytes \<Rightarrow> Signature option \<times> bool) \<Rightarrow> ('k \<Rightarrow> PublicKey) \<Rightarrow> 'k \<Rightarrow> Transaction \<Rightarrow>
     Transaction \<times> (verifier_error, unit) res" where
  "tx_Sign E sign pub k (Transfer h m i) =
     (case hsv_Sign (THashH E) sign pub (marshal_Transfer E h) k i of (i, r) \<Rightarrow> (Transfer h m i, r))"
| "tx_Sign E sign pub k (BaseAccount a m) = (BaseAccount a m, Ok ())"
| "tx_Sign E sign pub k (CreateDatabase h m i) =
     (case hsv_Sign (THashH E) sign pub (marshal_CreateDatabase E h) k i of
        (i, r) \<Rightarrow> (CreateDatabase h m i, r))"
| "tx_Sign E sign pub k (ProvideService h m i) =
     (case hsv_Sign (THashH E) sign pub (marshal_ProvideService E h) k i of
        (i, r) \<Rightarrow> (ProvideService h m i, r))"
| "tx_Sign E sign pub k (UpdatePermission h m i) =
     (case hsv_Sign (THashH E) sign pub (marshal_UpdatePermission E h) k i of
        (i, r) \<Rightarrow> (UpdatePermission h m i, r))"
| "tx_Sign E sign pub k (IssueKeys h m i) =
     (case hsv_Sign (THashH E) sign pub (marshal_IssueKeys E h) k i of (i, r) \<Rightarrow> (IssueKeys h m i, r))"
| "tx_Sign E sign pub k (UpdateBilling h m i) =
     (case hsv_Sign (THashH E) sign pub (marshal_UpdateBilling E h) k i of
        (i, r) \<Rightarrow> (UpdateBilling h m i, r))"
| "tx_Sign E sign pub k (TransactionWrapper t) =
     (case tx_Sign E sign pub k t of (t, r) \<Rightarrow> (TransactionWrapper t, r))"

section \<open>The registry\<close>

text \<open>
  The Go types registered for a transaction type. \<open>KWrapper\<close> is the wrapper's own
  type, which may not be registered.
\<close>

datatype tx_kind = KTransfer | KBaseAccount | KCreateDatabase | KProvideService
  | KUpdatePermission | KIssueKeys | KUpdateBilling | KWrapper

datatype registry_error = ErrInvalidTransactionType

definition RegisterTransaction ::
    "TransactionType \<Rightarrow> tx_kind option \<Rightarrow> (TransactionType, tx_kind) gomap \<Rightarrow>
     (registry_error, (TransactionType, tx_kind) gomap) res" where
  "RegisterTransaction t tx txTypeMapping =
     (case tx of None \<Rightarrow> Panic
      | Some k \<Rightarrow> if k = KWrapper then Panic else Ok (mput t k txTypeMapping))"

text \<open>The registrations of the \<open>init\<close> functions, whose order is that of the files.\<close>

definition init_registrations :: "(TransactionType \<times> tx_kind) list" where
  "init_registrations =
     [(TransactionTypeBaseAccount, KBaseAccount), (TransactionTypeCreateDatabase, KCreateDatabase),
      (TransactionTypeIssueKeys, KIssueKeys), (TransactionTypeProvideService, KProvideService),
      (TransactionTypeTransfer, KTransfer), (TransactionTypeUpdateBilling, KUpdateBilling),
      (TransactionTypeUpdatePermission, KUpdatePermission)]"

definition txTypeMapping :: "(TransactionType, tx_kind) gomap" where
  "txTypeMapping =
     fold (\<lambda>(t, k) m. case RegisterTransaction t (Some k) m of Ok m' \<Rightarrow> m' | _ \<Rightarrow> m)
       init_registrations []"

definition zero_mixin :: TransactionTypeMixin where
  "zero_mixin = \<lparr> mx_TxType = 0, mx_Timestamp = 0 \<rparr>"

definition zero_hsv :: HashSignVerifier where
  "zero_hsv = \<lparr> hv_DataHash = zero_hash, hv_Signee = None, hv_Signature = None \<rparr>"

definition empty_ProvideService :: ProvideServiceHeader where
  "empty_ProvideService =
     \<lparr> ps_Space = 0, ps_Memory = 0, ps_LoadAvgPerCPU = F64 0, ps_TargetUser = [],
       ps_GasPrice = 0, ps_TokenType = 0, ps_NodeID = '''', ps_Nonce = 0 \<rparr>"

text \<open>\<open>reflect.New\<close> of a registered type, then \<open>SetTransactionType\<close>.\<close>

fun new_zero :: "tx_kind \<Rightarrow> TransactionTypeMixin \<Rightarrow> Transaction" where
  "new_zero KTransfer m =
     Transfer \<lparr> tr_Sender = zero_hash, tr_Receiver = zero_hash, tr_Nonce = 0, tr_Amount = 0,
                tr_TokenType = 0 \<rparr> m zero_hsv"
| "new_zero KBaseAccount m = BaseAccount (empty_account zero_hash) m"
| "new_zero KCreateDatabase m =
     CreateDatabase \<lparr> cd_Owner = zero_hash, cd_ResourceMeta = empty_ResourceMeta, cd_GasPrice = 0,
                      cd_AdvancePayment = 0, cd_TokenType = 0, cd_Nonce = 0 \<rparr> m zero_hsv"
| "new_zero KProvideService m = ProvideService empty_ProvideService m zero_hsv"
| "new_zero KUpdatePermission m =
     UpdatePermission \<lparr> uh_TargetSQLChain = zero_hash, uh_TargetUser = zero_hash,
                        uh_Permission = None, uh_Nonce = 0 \<rparr> m zero_hsv"
| "new_zero KIssueKeys m =
     IssueKeys \<lparr> ik_TargetSQLChain = zero_hash, ik_MinerKeys = [], ik_Nonce = 0 \<rparr> m zero_hsv"
| "new_zero KUpdateBilling m =
     UpdateBilling \<lparr> ub_Receiver = zero_hash, ub_Nonce = 0, ub_Users = [], ub_From = 0, ub_To = 0,
                     ub_Version = 0 \<rparr> m zero_hsv"
| "new_zero KWrapper m = TransactionWrapper (BaseAccount (empty_account zero_hash) m)"

definition NewTransaction :: "TransactionType \<Rightarrow> (registry_error, Transaction) res" where
  "NewTransaction t =
     (case mget txTypeMapping t of None \<Rightarrow> Err ErrInvalidTransactionType
      | Some k \<Rightarrow>
          if k = KWrapper then Err ErrInvalidTransactionType
          else Ok (new_zero k (zero_mixin \<lparr> mx_TxType := t \<rparr>)))"

definition WrapTransaction :: "Transaction \<Rightarrow> Transaction" where
  "WrapTransaction t = TransactionWrapper t"

fun Unwrap :: "Transaction \<Rightarrow> Transaction" where
  "Unwrap (TransactionWrapper t) = t"
| "Unwrap t = t"

section \<open>Properties\<close>

text \<open>
  a transaction object can be created for exactly the seven registered types,
  and the object it creates reports the type it was created for, carries no
  signature, and is not a wrapper. Encoding the type in four bytes and decoding
  it, whatever follows, gives the type back.
\<close>

theorem NewTransaction_spec:
  "(case NewTransaction t of
      Ok tx \<Rightarrow> t \<in> {1, 7, 8, 9, 10, 11, 12} \<and> GetTransactionType tx = t \<and>
        tx_Hash tx = zero_hash \<and> Unwrap tx = tx
    | Err e \<Rightarrow> t \<notin> {1, 7, 8, 9, 10, 11, 12}
    | Panic \<Rightarrow> False) \<and>
   transactionType_FromBytes (transactionType_Bytes t @ rest) = Ok t"
proof -
  have m: "txTypeMapping =
      [(7, KBaseAccount), (8, KCreateDatabase), (11, KIssueKeys), (9, KProvideService),
       (1, KTransfer), (12, KUpdateBilling), (10, KUpdatePermission)]"
    by (simp add: txTypeMapping_def init_registrations_def RegisterTransaction_def
        TransactionTypeBaseAccount_def TransactionTypeCreateDatabase_def TransactionTypeIssueKeys_def
        TransactionTypeProvideService_def TransactionTypeTransfer_def TransactionTypeUpdateBilling_def
        TransactionTypeUpdatePermission_def)
  have "transactionType_FromBytes (transactionType_Bytes t @ rest) = Ok t"
    by (simp add: transactionType_FromBytes_def transactionType_Bytes_def Uint_PutUint)
  moreover have "case NewTransaction t of
      Ok tx \<Rightarrow> t \<in> {1, 7, 8, 9, 10, 11, 12} \<and> GetTransactionType tx = t \<and>
        tx_Hash tx = zero_hash \<and> Unwrap tx = tx
    | Err e \<Rightarrow> t \<notin> {1, 7, 8, 9, 10, 11, 12}
    | Panic \<Rightarrow> False"
    by (simp add: NewTransaction_def m GetTransactionType_def zero_mixin_def zero_hsv_def)
  ultimately show ?thesis by blast
qed

text \<open>A signed transaction of any type verifies; a wrapper signs what it holds.\<close>

lemma tx_sign_verify:
  assumes sig: "\<And>h. \<exists>sig. sign k h = (Some sig, False) \<and> sigVerify E (Some sig) h (Some (pub k))"
    and run: "tx_Sign E sign pub k t = (t', Ok ())"
  shows "tx_Verify E t' = Ok ()"
proof -
  have one: "hsv_Verify (THashH E) (sigVerify E) enc i' = Ok ()"
    if "hsv_Sign (THashH E) sign pub enc k i = (i', Ok ())" for enc i i'
    using that sig [of "THashH E (the enc)"]
    by (auto simp: hsv_Sign_def hsv_SetHash_def hsv_SignHash_def hsv_Verify_def hsv_VerifyHash_def
        hsv_VerifySignature_def split: option.splits res.splits)
  show ?thesis
    using run by (induction t arbitrary: t') (auto split: prod.splits dest: one)
qed

text \<open>The type and the timestamp are outside the signed header.\<close>

fun set_mixin :: "TransactionTypeMixin \<Rightarrow> Transaction \<Rightarrow> Transaction" where
  "set_mixin m (Transfer h _ i) = Transfer h m i"
| "set_mixin m (BaseAccount a _) = BaseAccount a m"
| "set_mixin m (CreateDatabase h _ i) = CreateDatabase h m i"
| "set_mixin m (ProvideService h _ i) = ProvideService h m i"
| "set_mixin m (UpdatePermission h _ i) = UpdatePermission h m i"
| "set_mixin m (IssueKeys h _ i) = IssueKeys h m i"
| "set_mixin m (UpdateBilling h _ i) = UpdateBilling h m i"
| "set_mixin m (TransactionWrapper t) = TransactionWrapper (set_mixin m t)"

lemma tx_Verify_set_mixin [simp]:
  "tx_Verify E (set_mixin m t) = tx_Verify E t" "tx_Hash (set_mixin m t) = tx_Hash t"
  "GetAccountAddress E (set_mixin m t) = GetAccountAddress E t"
  "GetAccountNonce (set_mixin m t) = GetAccountNonce t"
  by (induction t) auto

end
