(* ===== verification/Meta_State.thy ===== *)
theory Meta_State
  imports Transactions
begin

text \<open>
  The block producer's world state, \<open>blockproducer/metaindex.go\<close> and the part of
  \<open>blockproducer/metastate.go\<close> that reads and writes it: a read-only index shared
  with other branches and a dirty index of changes, the token operations, the
  administration of databases, and account nonces.
\<close>

section \<open>Errors\<close>

datatype bp_error =
    ErrParentNotFound | ErrExistedTx | ErrParentNotMatch | ErrTooManyTransactionsInBlock
  | ErrBalanceOverflow | ErrInsufficientBalance | ErrInsufficientTransfer
  | ErrAccountNotFound | ErrAccountExists | ErrDatabaseNotFound | ErrDatabaseExists
  | ErrDatabaseUserExists | ErrInvalidAccountNonce | ErrUnknownTransactionType
  | ErrInvalidSender | ErrInvalidRange | ErrNoSuchMiner | ErrNoEnoughMiner
  | ErrAccountPermissionDeny | ErrNoSuperUserLeft | ErrMinerUserNotMatch
  | ErrInsufficientAdvancePayment | ErrNilGenesis | ErrMultipleGenesis | ErrGenesisHashNotMatch
  | ErrInvalidGasPrice | ErrInvalidMinerCount | ErrLocalNodeNotFound | ErrNoAvailableBranch
  | ErrWrongTokenType
  | ErrPubKey | ErrMismatch string | ErrDatabaseID | ErrGenesisHash | ErrEncode
  | ErrVerify verifier_error | ErrMerkleRootVerification | ErrStorage

section \<open>Index and state\<close>

definition safeAdd :: "u64 \<Rightarrow> u64 \<Rightarrow> (bp_error, u64) res" where
  "safeAdd x y = (if x + y < x then Err ErrBalanceOverflow else Ok (x + y))"

definition safeSub :: "u64 \<Rightarrow> u64 \<Rightarrow> (bp_error, u64) res" where
  "safeSub x y = (if x < y then Err ErrInsufficientBalance else Ok (x - y))"

text \<open>
  The type \<open>metaIndex\<close> holds pointers. In the read-only index they are never nil,
  so its values are the objects; in the dirty index a nil pointer marks a
  deletion, so a value there is an object or \<open>None\<close>.
\<close>

record metaIndex =
  ix_accounts :: "(AccountAddress, Account) gomap"
  ix_databases :: "(DatabaseID, SQLChainProfile) gomap"
  ix_provider :: "(AccountAddress, ProviderProfile) gomap"

record dirtyIndex =
  dx_accounts :: "(AccountAddress, Account option) gomap"
  dx_databases :: "(DatabaseID, SQLChainProfile option) gomap"
  dx_provider :: "(AccountAddress, ProviderProfile option) gomap"

definition newMetaIndex :: metaIndex where
  "newMetaIndex = \<lparr> ix_accounts = [], ix_databases = [], ix_provider = [] \<rparr>"

definition newDirtyIndex :: dirtyIndex where
  "newDirtyIndex = \<lparr> dx_accounts = [], dx_databases = [], dx_provider = [] \<rparr>"

definition metaIndex_deepCopy :: "metaIndex \<Rightarrow> metaIndex" where
  "metaIndex_deepCopy i =
     \<lparr> ix_accounts = fold (\<lambda>(k, v). mput k v) (ix_accounts i) [],
       ix_databases = fold (\<lambda>(k, v). mput k v) (ix_databases i) [],
       ix_provider = fold (\<lambda>(k, v). mput k v) (ix_provider i) [] \<rparr>"

record metaState =
  ms_dirty :: dirtyIndex
  ms_readonly :: metaIndex

definition newMetaState :: metaState where
  "newMetaState = \<lparr> ms_dirty = newDirtyIndex, ms_readonly = newMetaIndex \<rparr>"

definition metaState_makeCopy :: "metaState \<Rightarrow> metaState" where
  "metaState_makeCopy s =
     \<lparr> ms_dirty = newDirtyIndex, ms_readonly = metaIndex_deepCopy (ms_readonly s) \<rparr>"

text \<open>
  An operation returns the state it leaves and its result. \<open>op_bind\<close> runs the rest
  only after a normal return; \<open>op_lift\<close> is a step that does not touch the state.
\<close>

type_synonym 'a meta_op = "metaState \<Rightarrow> metaState \<times> (bp_error, 'a) res"

definition op_bind :: "'a meta_op \<Rightarrow> ('a \<Rightarrow> 'b meta_op) \<Rightarrow> 'b meta_op" where
  "op_bind m f s =
     (case m s of (s, Ok x) \<Rightarrow> f x s | (s, Err e) \<Rightarrow> (s, Err e) | (s, Panic) \<Rightarrow> (s, Panic))"

definition op_lift :: "(bp_error, 'a) res \<Rightarrow> 'a meta_op" where
  "op_lift r s = (s, r)"

text \<open>The map reads \<open>s.dirty.accounts[k]\<close>, \<open>s.readonly.accounts[k]\<close>, and the writes.\<close>

definition dirty_account :: "metaState \<Rightarrow> AccountAddress \<Rightarrow> Account option option" where
  "dirty_account s k = mget (dx_accounts (ms_dirty s)) k"

definition ro_account :: "metaState \<Rightarrow> AccountAddress \<Rightarrow> Account option" where
  "ro_account s k = mget (ix_accounts (ms_readonly s)) k"

definition dirty_database :: "metaState \<Rightarrow> DatabaseID \<Rightarrow> SQLChainProfile option option" where
  "dirty_database s k = mget (dx_databases (ms_dirty s)) k"

definition ro_database :: "metaState \<Rightarrow> DatabaseID \<Rightarrow> SQLChainProfile option" where
  "ro_database s k = mget (ix_databases (ms_readonly s)) k"

definition dirty_provider :: "metaState \<Rightarrow> AccountAddress \<Rightarrow> ProviderProfile option option" where
  "dirty_provider s k = mget (dx_provider (ms_dirty s)) k"

definition ro_provider :: "metaState \<Rightarrow> AccountAddress \<Rightarrow> ProviderProfile option" where
  "ro_provider s k = mget (ix_provider (ms_readonly s)) k"

definition put_account :: "AccountAddress \<Rightarrow> Account option \<Rightarrow> metaState \<Rightarrow> metaState" where
  "put_account k v s =
     s \<lparr> ms_dirty := ms_dirty s \<lparr> dx_accounts := mput k v (dx_accounts (ms_dirty s)) \<rparr> \<rparr>"

definition put_database :: "DatabaseID \<Rightarrow> SQLChainProfile option \<Rightarrow> metaState \<Rightarrow> metaState" where
  "put_database k v s =
     s \<lparr> ms_dirty := ms_dirty s \<lparr> dx_databases := mput k v (dx_databases (ms_dirty s)) \<rparr> \<rparr>"

definition put_provider :: "AccountAddress \<Rightarrow> ProviderProfile option \<Rightarrow> metaState \<Rightarrow> metaState" where
  "put_provider k v s =
     s \<lparr> ms_dirty := ms_dirty s \<lparr> dx_provider := mput k v (dx_provider (ms_dirty s)) \<rparr> \<rparr>"

text \<open>Changing an object of the read-only index through its pointer.\<close>

definition set_ro_account :: "AccountAddress \<Rightarrow> Account \<Rightarrow> metaState \<Rightarrow> metaState" where
  "set_ro_account k v s =
     s \<lparr> ms_readonly := ms_readonly s \<lparr> ix_accounts := mput k v (ix_accounts (ms_readonly s)) \<rparr> \<rparr>"

section \<open>Loading and storing objects\<close>

definition loadAccountObject :: "metaState \<Rightarrow> AccountAddress \<Rightarrow> Account option" where
  "loadAccountObject s k =
     (case dirty_account s k of Some old \<Rightarrow> old | None \<Rightarrow> ro_account s k)"

text \<open>
  \<open>loadOrStore\<close> returns the object found in the dirty index unless it is nil, then
  the one of the read-only index (\<open>FoundDirty\<close> and \<open>FoundReadonly\<close> say which pointer
  it is), and otherwise stores the new one.
\<close>

datatype 'a found = FoundDirty 'a | FoundReadonly 'a | NotFound

definition find_object :: "'a option option \<Rightarrow> 'a option \<Rightarrow> 'a found" where
  "find_object d r =
     (case d of Some (Some o') \<Rightarrow> FoundDirty o'
      | _ \<Rightarrow> (case r of Some o' \<Rightarrow> FoundReadonly o' | None \<Rightarrow> NotFound))"

definition loadOrStoreAccountObject ::
    "AccountAddress \<Rightarrow> Account \<Rightarrow> metaState \<Rightarrow> metaState \<times> Account found" where
  "loadOrStoreAccountObject k v s =
     (case find_object (dirty_account s k) (ro_account s k) of
        NotFound \<Rightarrow> (put_account k (Some v) s, NotFound)
      | f \<Rightarrow> (s, f))"

definition loadAccountTokenBalance ::
    "metaState \<Rightarrow> AccountAddress \<Rightarrow> TokenType \<Rightarrow> (bp_error, u64 \<times> bool) res" where
  "loadAccountTokenBalance s addr tokenType =
     (if \<not> tokenType_Listed tokenType then Ok (0, False)
      else case find_object (dirty_account s addr) (ro_account s addr) of
        NotFound \<Rightarrow> Ok (0, False)
      | FoundDirty o' \<Rightarrow>
          (case tb_get (ac_TokenBalance o') tokenType of Some b \<Rightarrow> Ok (b, True) | None \<Rightarrow> Panic)
      | FoundReadonly o' \<Rightarrow>
          (case tb_get (ac_TokenBalance o') tokenType of Some b \<Rightarrow> Ok (b, True) | None \<Rightarrow> Panic))"

text \<open>
  \<open>storeBaseAccount\<close> adds the balances into the object it found, in place: in the
  read-only index too.
\<close>

fun add_balances :: "Account \<Rightarrow> Account \<Rightarrow> (bp_error, Account) res" where
  "add_balances ao v =
     (if ac_NextNonce ao \<noteq> 0 then Err ErrAccountExists
      else case (ac_TokenBalance ao, ac_TokenBalance v) of (TB sb cb, TB vp vw) \<Rightarrow>
        (case safeAdd cb vw of
           Err e \<Rightarrow> Err e
         | Panic \<Rightarrow> Panic
         | Ok cb' \<Rightarrow>
             (case safeAdd sb vp of
                Err e \<Rightarrow> Err e
              | Panic \<Rightarrow> Panic
              | Ok sb' \<Rightarrow> Ok (ao \<lparr> ac_TokenBalance := TB sb' cb' \<rparr>))))"

definition storeBaseAccount :: "AccountAddress \<Rightarrow> Account \<Rightarrow> unit meta_op" where
  "storeBaseAccount k v s =
     (case loadOrStoreAccountObject k v s of
        (s, NotFound) \<Rightarrow> (s, Ok ())
      | (s, FoundDirty ao) \<Rightarrow>
          (case add_balances ao v of
             Ok ao' \<Rightarrow> (put_account k (Some ao') s, Ok ()) | Err e \<Rightarrow> (s, Err e) | Panic \<Rightarrow> (s, Panic))
      | (s, FoundReadonly ao) \<Rightarrow>
          (case add_balances ao v of
             Ok ao' \<Rightarrow> (set_ro_account k ao' s, Ok ()) | Err e \<Rightarrow> (s, Err e) | Panic \<Rightarrow> (s, Panic)))"

definition loadSQLChainObject :: "metaState \<Rightarrow> DatabaseID \<Rightarrow> SQLChainProfile option" where
  "loadSQLChainObject s k =
     (case dirty_database s k of Some old \<Rightarrow> old | None \<Rightarrow> ro_database s k)"

definition loadOrStoreSQLChainObject ::
    "DatabaseID \<Rightarrow> SQLChainProfile \<Rightarrow> metaState \<Rightarrow> metaState \<times> SQLChainProfile found" where
  "loadOrStoreSQLChainObject k v s =
     (case find_object (dirty_database s k) (ro_database s k) of
        NotFound \<Rightarrow> (put_database k (Some v) s, NotFound)
      | f \<Rightarrow> (s, f))"

definition loadProviderObject :: "metaState \<Rightarrow> AccountAddress \<Rightarrow> ProviderProfile option" where
  "loadProviderObject s k =
     (case dirty_provider s k of Some o' \<Rightarrow> o' | None \<Rightarrow> ro_provider s k)"

definition loadOrStoreProviderObject ::
    "AccountAddress \<Rightarrow> ProviderProfile \<Rightarrow> metaState \<Rightarrow> metaState \<times> ProviderProfile found" where
  "loadOrStoreProviderObject k v s =
     (case find_object (dirty_provider s k) (ro_provider s k) of
        NotFound \<Rightarrow> (put_provider k (Some v) s, NotFound)
      | f \<Rightarrow> (s, f))"

definition deleteAccountObject :: "AccountAddress \<Rightarrow> metaState \<Rightarrow> metaState" where
  "deleteAccountObject k s = put_account k None s"

definition deleteSQLChainObject :: "DatabaseID \<Rightarrow> metaState \<Rightarrow> metaState" where
  "deleteSQLChainObject k s = put_database k None s"

definition deleteProviderObject :: "AccountAddress \<Rightarrow> metaState \<Rightarrow> metaState" where
  "deleteProviderObject k s = put_provider k None s"

text \<open>
  \<open>commit\<close> writes each dirty entry over the read-only index, one loop per map, and
  starts a new dirty index; \<open>clean\<close> drops the dirty index.
\<close>

definition commit_map :: "('k, 'v option) gomap \<Rightarrow> ('k, 'v) gomap \<Rightarrow> ('k, 'v) gomap" where
  "commit_map dirty ro =
     fold (\<lambda>(k, ov) m. case ov of Some v \<Rightarrow> mput k v m | None \<Rightarrow> mdel k m) dirty ro"

definition metaState_commit :: "metaState \<Rightarrow> metaState" where
  "metaState_commit s =
     \<lparr> ms_dirty = newDirtyIndex,
       ms_readonly =
         \<lparr> ix_accounts = commit_map (dx_accounts (ms_dirty s)) (ix_accounts (ms_readonly s)),
           ix_databases = commit_map (dx_databases (ms_dirty s)) (ix_databases (ms_readonly s)),
           ix_provider = commit_map (dx_provider (ms_dirty s)) (ix_provider (ms_readonly s)) \<rparr> \<rparr>"

definition metaState_clean :: "metaState \<Rightarrow> metaState" where
  "metaState_clean s = s \<lparr> ms_dirty := newDirtyIndex \<rparr>"

section \<open>Token operations\<close>

text \<open>
  The object of the dirty index, copied there from the read-only index when it
  is missing: the prologue of every operation that changes an account or a
  database. A nil pointer found there is dereferenced by what follows.
\<close>

definition dirty_account_copy :: "AccountAddress \<Rightarrow> Account meta_op" where
  "dirty_account_copy k s =
     (case dirty_account s k of
        Some (Some dst) \<Rightarrow> (s, Ok dst)
      | Some None \<Rightarrow> (s, Panic)
      | None \<Rightarrow>
          (case ro_account s k of
             None \<Rightarrow> (s, Err ErrAccountNotFound)
           | Some src \<Rightarrow> (put_account k (Some src) s, Ok src)))"

definition update_token :: "(u64 \<Rightarrow> (bp_error, u64) res) \<Rightarrow> AccountAddress \<Rightarrow> TokenType \<Rightarrow> unit meta_op" where
  "update_token change k tokenType =
     op_bind (dirty_account_copy k) (\<lambda>dst.
     op_bind (op_lift (case tb_get (ac_TokenBalance dst) tokenType of
                         None \<Rightarrow> Panic | Some b \<Rightarrow> change b)) (\<lambda>b' s.
       (put_account k
          (Some (dst \<lparr> ac_TokenBalance := tb_set (ac_TokenBalance dst) tokenType b' \<rparr>)) s, Ok ())))"

definition increaseAccountToken :: "AccountAddress \<Rightarrow> u64 \<Rightarrow> TokenType \<Rightarrow> unit meta_op" where
  "increaseAccountToken k amount tokenType = update_token (\<lambda>b. safeAdd b amount) k tokenType"

definition decreaseAccountToken :: "AccountAddress \<Rightarrow> u64 \<Rightarrow> TokenType \<Rightarrow> unit meta_op" where
  "decreaseAccountToken k amount tokenType = update_token (\<lambda>b. safeSub b amount) k tokenType"

definition increaseAccountStableBalance :: "AccountAddress \<Rightarrow> u64 \<Rightarrow> unit meta_op" where
  "increaseAccountStableBalance k amount = increaseAccountToken k amount Particle"

definition decreaseAccountStableBalance :: "AccountAddress \<Rightarrow> u64 \<Rightarrow> unit meta_op" where
  "decreaseAccountStableBalance k amount = decreaseAccountToken k amount Particle"

definition increaseAccountCovenantBalance :: "AccountAddress \<Rightarrow> u64 \<Rightarrow> unit meta_op" where
  "increaseAccountCovenantBalance k amount = increaseAccountToken k amount Wave"

definition decreaseAccountCovenantBalance :: "AccountAddress \<Rightarrow> u64 \<Rightarrow> unit meta_op" where
  "decreaseAccountCovenantBalance k amount = decreaseAccountToken k amount Wave"

text \<open>
  The object a transfer works on: the pointer found in the dirty index, nil
  included, or the one of the read-only index. \<open>None\<close> is "account not found".
\<close>

definition transfer_object :: "metaState \<Rightarrow> AccountAddress \<Rightarrow> Account option option" where
  "transfer_object s k =
     (case dirty_account s k of Some p \<Rightarrow> Some p | None \<Rightarrow> map_option Some (ro_account s k))"

definition object_or_panic :: "metaState \<Rightarrow> AccountAddress \<Rightarrow> (bp_error, Account) res" where
  "object_or_panic s k =
     (case transfer_object s k of
        None \<Rightarrow> Err ErrAccountNotFound | Some None \<Rightarrow> Panic | Some (Some o') \<Rightarrow> Ok o')"

definition transferAccountToken ::
    "tx_env \<Rightarrow> TransferHeader \<Rightarrow> HashSignVerifier \<Rightarrow> unit meta_op" where
  "transferAccountToken E transfer i s =
     (case PubKeyHash (THashH E) (hv_Signee i) of
        Err _ \<Rightarrow> (s, Err ErrPubKey)
      | Panic \<Rightarrow> (s, Panic)
      | Ok realSender \<Rightarrow>
          if realSender \<noteq> tr_Sender transfer then (s, Err ErrInvalidSender)
          else
            let sender = tr_Sender transfer; receiver = tr_Receiver transfer;
                amount = tr_Amount transfer; tokenType = tr_TokenType transfer
            in if sender = receiver \<or> amount = 0 then (s, Ok ())
               else
                 let s = fst (loadOrStoreAccountObject receiver (empty_account receiver) s) in
                 if transfer_object s sender = None \<or> transfer_object s receiver = None
                 then (s, Err ErrAccountNotFound)
                 else
                   op_bind (op_lift (object_or_panic s sender)) (\<lambda>so.
                   op_bind (op_lift (object_or_panic s receiver)) (\<lambda>ro.
                   op_bind (op_lift (case tb_get (ac_TokenBalance so) tokenType of
                                       None \<Rightarrow> Panic | Some sb \<Rightarrow> safeSub sb amount)) (\<lambda>sb.
                   op_bind (op_lift (case tb_get (ac_TokenBalance ro) tokenType of
                                       None \<Rightarrow> Panic | Some rb \<Rightarrow> safeAdd rb amount)) (\<lambda>rb s.
                     (put_account receiver (Some (ro \<lparr> ac_TokenBalance :=
                         tb_set (ac_TokenBalance ro) tokenType rb \<rparr>))
                       (put_account sender (Some (so \<lparr> ac_TokenBalance :=
                         tb_set (ac_TokenBalance so) tokenType sb \<rparr>)) s), Ok ()))))) s)"

section \<open>Databases and their users\<close>

definition new_user :: "AccountAddress \<Rightarrow> UserPermission option \<Rightarrow> SQLChainUser" where
  "new_user addr perm =
     \<lparr> su_Address = addr, su_Permission = perm, su_AdvancePayment = 0, su_Arrears = 0,
       su_Deposit = 0, su_Status = UnknownStatus \<rparr>"

definition createSQLChain :: "AccountAddress \<Rightarrow> DatabaseID \<Rightarrow> unit meta_op" where
  "createSQLChain addr dbid s =
     (if dirty_account s addr = None \<and> ro_account s addr = None then (s, Err ErrAccountNotFound)
      else if dirty_database s dbid \<noteq> None then (s, Err ErrDatabaseExists)
      else if ro_database s dbid \<noteq> None then (s, Err ErrDatabaseExists)
      else
        (put_database dbid (Some
           \<lparr> sc_ID = dbid, sc_Address = zero_hash, sc_Period = 0, sc_GasPrice = 0,
             sc_LastUpdatedHeight = 0, sc_TokenType = 0, sc_Owner = addr, sc_Miners = [],
             sc_Users = [new_user addr (Some (UserPermissionFromRole Admin))],
             sc_EncodedGenesis = [], sc_Meta = empty_ResourceMeta \<rparr>) s, Ok ()))"

definition dirty_database_copy :: "DatabaseID \<Rightarrow> SQLChainProfile meta_op" where
  "dirty_database_copy k s =
     (case dirty_database s k of
        Some (Some dst) \<Rightarrow> (s, Ok dst)
      | Some None \<Rightarrow> (s, Panic)
      | None \<Rightarrow>
          (case ro_database s k of
             None \<Rightarrow> (s, Err ErrDatabaseNotFound)
           | Some src \<Rightarrow> (put_database k (Some src) s, Ok src)))"

definition addSQLChainUser ::
    "DatabaseID \<Rightarrow> AccountAddress \<Rightarrow> UserPermission option \<Rightarrow> unit meta_op" where
  "addSQLChainUser k addr perm =
     op_bind (dirty_database_copy k) (\<lambda>dst s.
       if \<exists>v \<in> set (sc_Users dst). su_Address v = addr then (s, Err ErrDatabaseUserExists)
       else (put_database k (Some (dst \<lparr> sc_Users := sc_Users dst @ [new_user addr perm] \<rparr>)) s, Ok ()))"

text \<open>
  The loop of \<open>deleteSQLChainUser\<close> ranges over the slice as it was, while its body
  shortens it: \<open>arr\<close> is the shared array (with nil entries) and \<open>len\<close> the current
  length. Reading the address of a nil entry, and writing at an index not below
  the current length, panic.
\<close>

function delete_user_loop ::
    "AccountAddress \<Rightarrow> nat \<Rightarrow> nat \<Rightarrow> SQLChainUser option list \<Rightarrow> nat \<Rightarrow>
     (bp_error, SQLChainUser option list \<times> nat) res" where
  "delete_user_loop addr n i arr len =
     (if i < n then
        (case arr ! i of
           None \<Rightarrow> Panic
         | Some v \<Rightarrow>
             if su_Address v = addr then
               if i < len then
                 delete_user_loop addr n (i + 1)
                   (arr[i := arr ! (len - 1), len - 1 := None]) (len - 1)
               else Panic
             else delete_user_loop addr n (i + 1) arr len)
      else Ok (arr, len))"
  by pat_completeness auto
termination
  by (relation "measure (\<lambda>(_, n, i, _). n - i)") auto

declare delete_user_loop.simps [simp del]

definition deleteSQLChainUser :: "DatabaseID \<Rightarrow> AccountAddress \<Rightarrow> unit meta_op" where
  "deleteSQLChainUser k addr =
     op_bind (dirty_database_copy k) (\<lambda>dst.
     op_bind (op_lift (delete_user_loop addr (length (sc_Users dst)) 0 (map Some (sc_Users dst))
                         (length (sc_Users dst)))) (\<lambda>(arr, len) s.
       (put_database k (Some (dst \<lparr> sc_Users := map the (take len arr) \<rparr>)) s, Ok ())))"

definition alterSQLChainUser ::
    "DatabaseID \<Rightarrow> AccountAddress \<Rightarrow> UserPermission option \<Rightarrow> unit meta_op" where
  "alterSQLChainUser k addr perm =
     op_bind (dirty_database_copy k) (\<lambda>dst s.
       (put_database k (Some (dst \<lparr> sc_Users :=
          map (\<lambda>v. if su_Address v = addr then v \<lparr> su_Permission := perm \<rparr> else v) (sc_Users dst) \<rparr>)) s,
        Ok ()))"

section \<open>Nonces\<close>

definition nextNonce :: "metaState \<Rightarrow> AccountAddress \<Rightarrow> (bp_error, AccountNonce) res" where
  "nextNonce s addr =
     (case object_or_panic s addr of
        Ok o' \<Rightarrow> Ok (ac_NextNonce o') | Err e \<Rightarrow> Err e | Panic \<Rightarrow> Panic)"

definition increaseNonce :: "AccountAddress \<Rightarrow> unit meta_op" where
  "increaseNonce addr =
     op_bind (dirty_account_copy addr) (\<lambda>dst s.
       (put_account addr (Some (dst \<lparr> ac_NextNonce := ac_NextNonce dst + 1 \<rparr>)) s, Ok ()))"

section \<open>What a state stands for\<close>

lemma empty_account_sel [simp]:
  "ac_Address (empty_account k) = k" "ac_TokenBalance (empty_account k) = TB 0 0"
  "ac_NextNonce (empty_account k) = 0"
  by (simp_all add: empty_account_def)

text \<open>
  The contract of the two indexes: a state stands for the map that looks in the
  dirty index first. The laws are what the reads return after the writes; the
  lemmas are about the map, and hold for accounts, databases and providers.
\<close>

definition overlay_view :: "'v option option \<Rightarrow> 'v option \<Rightarrow> 'v option" where
  "overlay_view d r = (case d of Some v \<Rightarrow> v | None \<Rightarrow> r)"

locale overlay =
  fixes dirty :: "'s \<Rightarrow> 'k \<Rightarrow> 'v option option"
    and ro :: "'s \<Rightarrow> 'k \<Rightarrow> 'v option"
    and put :: "'k \<Rightarrow> 'v option \<Rightarrow> 's \<Rightarrow> 's"
    and commit :: "'s \<Rightarrow> 's"
    and clean :: "'s \<Rightarrow> 's"
    and inv :: "'s \<Rightarrow> bool"
  assumes dirty_put: "dirty (put k v s) k' = (if k' = k then Some v else dirty s k')"
    and ro_put: "ro (put k v s) = ro s"
    and dirty_commit: "dirty (commit s) k = None"
    and ro_commit: "inv s \<Longrightarrow> ro (commit s) k = overlay_view (dirty s k) (ro s k)"
    and dirty_clean: "dirty (clean s) k = None"
    and ro_clean: "ro (clean s) = ro s"
    and inv_put: "inv s \<Longrightarrow> inv (put k v s)"
begin

lemma view_put:
  "overlay_view (dirty (put k v s) k') (ro (put k v s) k') =
     (if k' = k then v else overlay_view (dirty s k') (ro s k'))"
  by (simp add: dirty_put ro_put overlay_view_def)

lemma view_commit:
  assumes "inv s"
  shows "overlay_view (dirty (commit s) k) (ro (commit s) k) = overlay_view (dirty s k) (ro s k)"
  using assms by (simp add: dirty_commit ro_commit overlay_view_def)

lemma view_clean: "overlay_view (dirty (clean s) k) (ro (clean s) k) = ro s k"
  by (simp add: dirty_clean ro_clean overlay_view_def)

lemma view_fold_put:
  "overlay_view (dirty (fold (\<lambda>k. put k None) ks s) k') (ro (fold (\<lambda>k. put k None) ks s) k') =
     (if k' \<in> set ks then None else overlay_view (dirty s k') (ro s k'))"
  by (induction ks arbitrary: s) (auto simp: view_put)

end

text \<open>One entry per key in every map, which Go's maps guarantee.\<close>

definition meta_inv :: "metaState \<Rightarrow> bool" where
  "meta_inv s \<longleftrightarrow>
     minv (dx_accounts (ms_dirty s)) \<and> minv (dx_databases (ms_dirty s)) \<and>
     minv (dx_provider (ms_dirty s)) \<and> minv (ix_accounts (ms_readonly s)) \<and>
     minv (ix_databases (ms_readonly s)) \<and> minv (ix_provider (ms_readonly s))"

lemmas dirty_defs = dirty_account_def dirty_database_def dirty_provider_def
lemmas ro_defs = ro_account_def ro_database_def ro_provider_def
lemmas put_defs = put_account_def put_database_def put_provider_def set_ro_account_def

lemma mget_commit_map:
  "minv d \<Longrightarrow> mget (commit_map d r) k = overlay_view (mget d k) (mget r k)"
  unfolding commit_map_def overlay_view_def by (rule gm.get_fold_overlay)

lemma minv_commit_map: "minv r \<Longrightarrow> minv (commit_map d r)"
  unfolding commit_map_def by (rule gm.inv_fold_overlay)

lemma meta_inv_put [simp]:
  "meta_inv s \<Longrightarrow> meta_inv (put_account k a s)"
  "meta_inv s \<Longrightarrow> meta_inv (put_database d b s)"
  "meta_inv s \<Longrightarrow> meta_inv (put_provider k p s)"
  "meta_inv s \<Longrightarrow> meta_inv (set_ro_account k v s)"
  by (simp_all add: meta_inv_def put_defs)

lemma meta_inv_commit [simp]: "meta_inv s \<Longrightarrow> meta_inv (metaState_commit s)"
  by (simp add: meta_inv_def metaState_commit_def newDirtyIndex_def minv_commit_map)

lemma meta_inv_clean [simp]: "meta_inv s \<Longrightarrow> meta_inv (metaState_clean s)"
  by (simp add: meta_inv_def metaState_clean_def newDirtyIndex_def)

interpretation accounts: overlay dirty_account ro_account put_account metaState_commit
    metaState_clean meta_inv
  by unfold_locales
    (auto simp: dirty_defs ro_defs put_defs metaState_commit_def metaState_clean_def
      newDirtyIndex_def mget_commit_map meta_inv_def)

interpretation databases: overlay dirty_database ro_database put_database metaState_commit
    metaState_clean meta_inv
  by unfold_locales
    (auto simp: dirty_defs ro_defs put_defs metaState_commit_def metaState_clean_def
      newDirtyIndex_def mget_commit_map meta_inv_def)

interpretation providers: overlay dirty_provider ro_provider put_provider metaState_commit
    metaState_clean meta_inv
  by unfold_locales
    (auto simp: dirty_defs ro_defs put_defs metaState_commit_def metaState_clean_def
      newDirtyIndex_def mget_commit_map meta_inv_def)

lemma load_overlay:
  "loadAccountObject s k = overlay_view (dirty_account s k) (ro_account s k)"
  "loadSQLChainObject s d = overlay_view (dirty_database s d) (ro_database s d)"
  "loadProviderObject s k = overlay_view (dirty_provider s k) (ro_provider s k)"
  by (simp_all add: loadAccountObject_def loadSQLChainObject_def loadProviderObject_def overlay_view_def)

named_theorems load \<open>what the loads return after the writes\<close>

lemma load_put [load, simp]:
  "loadAccountObject (put_account k v s) k' = (if k' = k then v else loadAccountObject s k')"
  "loadAccountObject (put_database d b s) k' = loadAccountObject s k'"
  "loadAccountObject (put_provider k p s) k' = loadAccountObject s k'"
  "loadSQLChainObject (put_account k v s) d' = loadSQLChainObject s d'"
  "loadSQLChainObject (put_database d b s) d' = (if d' = d then b else loadSQLChainObject s d')"
  "loadSQLChainObject (put_provider k p s) d' = loadSQLChainObject s d'"
  "loadProviderObject (put_account k v s) k' = loadProviderObject s k'"
  "loadProviderObject (put_database d b s) k' = loadProviderObject s k'"
  "loadProviderObject (put_provider k p s) k' = (if k' = k then p else loadProviderObject s k')"
proof -
  show "loadAccountObject (put_account k v s) k' = (if k' = k then v else loadAccountObject s k')"
    unfolding load_overlay by (rule accounts.view_put)
  show "loadSQLChainObject (put_database d b s) d' = (if d' = d then b else loadSQLChainObject s d')"
    unfolding load_overlay by (rule databases.view_put)
  show "loadProviderObject (put_provider k p s) k' = (if k' = k then p else loadProviderObject s k')"
    unfolding load_overlay by (rule providers.view_put)
qed (simp_all add: load_overlay dirty_defs ro_defs put_defs)

lemma load_set_ro [load, simp]:
  "loadAccountObject (set_ro_account k v s) k' =
     (if k' = k \<and> dirty_account s k = None then Some v else loadAccountObject s k')"
  "loadSQLChainObject (set_ro_account k v s) d' = loadSQLChainObject s d'"
  "loadProviderObject (set_ro_account k v s) p' = loadProviderObject s p'"
  by (auto simp: load_overlay dirty_defs ro_defs put_defs overlay_view_def split: option.splits)

lemma load_commit [load, simp]:
  assumes "meta_inv s"
  shows "loadAccountObject (metaState_commit s) = loadAccountObject s"
    and "loadSQLChainObject (metaState_commit s) = loadSQLChainObject s"
    and "loadProviderObject (metaState_commit s) = loadProviderObject s"
  using assms
  by (auto simp: load_overlay accounts.view_commit databases.view_commit providers.view_commit)

text \<open>
  Nothing of the program deletes an account, so no nil account pointer is in the
  dirty index; the operations below keep it that way.
\<close>

definition no_nil_accounts :: "metaState \<Rightarrow> bool" where
  "no_nil_accounts s \<longleftrightarrow> (\<forall>k. dirty_account s k \<noteq> Some None)"

lemma no_nil_put [simp]:
  "no_nil_accounts s \<Longrightarrow> no_nil_accounts (put_account k (Some a) s)"
  "no_nil_accounts (put_database d b s) = no_nil_accounts s"
  "no_nil_accounts (put_provider k p s) = no_nil_accounts s"
  "no_nil_accounts (set_ro_account k v s) = no_nil_accounts s"
  by (simp_all add: no_nil_accounts_def dirty_defs put_defs)

lemma transfer_object_load:
  "no_nil_accounts s \<Longrightarrow> transfer_object s k = map_option Some (loadAccountObject s k)"
  by (cases "dirty_account s k"; cases "the (dirty_account s k)")
    (auto simp: transfer_object_def load_overlay overlay_view_def no_nil_accounts_def)

lemma object_or_panic_load:
  "no_nil_accounts s \<Longrightarrow>
    object_or_panic s k =
      (case loadAccountObject s k of Some a \<Rightarrow> Ok a | None \<Rightarrow> Err ErrAccountNotFound)"
  by (simp add: object_or_panic_def transfer_object_load split: option.splits)

section \<open>Well-formed states\<close>

text \<open>
  Every object is stored under its own key: an account and a provider under its
  address, a database under its id. The storage writes an object under the key in
  the object, so it relies on this.
\<close>

definition wf_meta :: "metaState \<Rightarrow> bool" where
  "wf_meta s \<longleftrightarrow> meta_inv s \<and> no_nil_accounts s \<and>
     (\<forall>k a. dirty_account s k = Some (Some a) \<or> ro_account s k = Some a \<longrightarrow> ac_Address a = k) \<and>
     (\<forall>d b. dirty_database s d = Some (Some b) \<or> ro_database s d = Some b \<longrightarrow> sc_ID b = d) \<and>
     (\<forall>k p. dirty_provider s k = Some (Some p) \<or> ro_provider s k = Some p \<longrightarrow> pp_Provider p = k)"

lemma wf_put_account: "wf_meta s \<Longrightarrow> ac_Address a = k \<Longrightarrow> wf_meta (put_account k (Some a) s)"
  by (simp add: wf_meta_def) (auto simp: dirty_defs ro_defs put_defs split: if_splits)

lemma wf_put_database:
  "wf_meta s \<Longrightarrow> (\<And>b. ob = Some b \<Longrightarrow> sc_ID b = d) \<Longrightarrow> wf_meta (put_database d ob s)"
  by (simp add: wf_meta_def) (auto simp: dirty_defs ro_defs put_defs split: if_splits)

lemma wf_put_provider:
  "wf_meta s \<Longrightarrow> (\<And>p. op = Some p \<Longrightarrow> pp_Provider p = k) \<Longrightarrow> wf_meta (put_provider k op s)"
  by (simp add: wf_meta_def) (auto simp: dirty_defs ro_defs put_defs split: if_splits)

lemma wf_set_ro_account: "wf_meta s \<Longrightarrow> ac_Address a = k \<Longrightarrow> wf_meta (set_ro_account k a s)"
  by (simp add: wf_meta_def) (auto simp: dirty_defs ro_defs put_defs split: if_splits)

lemma wf_load:
  "wf_meta s \<Longrightarrow> loadAccountObject s k = Some a \<Longrightarrow> ac_Address a = k"
  "wf_meta s \<Longrightarrow> loadSQLChainObject s d = Some b \<Longrightarrow> sc_ID b = d"
  "wf_meta s \<Longrightarrow> loadProviderObject s k = Some p \<Longrightarrow> pp_Provider p = k"
  by (auto simp: wf_meta_def load_overlay overlay_view_def split: option.splits)

lemma wf_no_nil [simp]: "wf_meta s \<Longrightarrow> no_nil_accounts s"
  by (simp add: wf_meta_def)

lemma wf_meta_inv [simp]: "wf_meta s \<Longrightarrow> meta_inv s"
  by (simp add: wf_meta_def)

lemma wf_newMetaState [simp]: "wf_meta newMetaState"
  by (simp add: wf_meta_def newMetaState_def newDirtyIndex_def newMetaIndex_def meta_inv_def
      no_nil_accounts_def dirty_defs ro_defs)

lemma wf_commit: "wf_meta s \<Longrightarrow> wf_meta (metaState_commit s)"
  by (simp add: wf_meta_def no_nil_accounts_def accounts.dirty_commit accounts.ro_commit
      databases.dirty_commit databases.ro_commit providers.dirty_commit providers.ro_commit)
    (auto simp: overlay_view_def split: option.splits)

lemma wf_clean: "wf_meta s \<Longrightarrow> wf_meta (metaState_clean s)"
  by (simp add: wf_meta_def no_nil_accounts_def accounts.dirty_clean accounts.ro_clean
      databases.dirty_clean databases.ro_clean providers.dirty_clean providers.ro_clean)

lemma deepCopy_map: "minv m \<Longrightarrow> fold (\<lambda>(k, v). mput k v) m [] = m"
proof (induction m rule: rev_induct)
  case (snoc kv m)
  obtain k v where kv: "kv = (k, v)" by (cases kv)
  have "mput k v m = m @ [(k, v)]" if "k \<notin> fst ` set m" for m :: "('a \<times> 'b) list"
    using that by (induction m) auto
  with snoc show ?case by (auto simp: kv)
qed simp

lemma makeCopy_eq: "meta_inv s \<Longrightarrow> metaState_makeCopy s = metaState_clean s"
  by (simp add: metaState_makeCopy_def metaState_clean_def metaIndex_deepCopy_def meta_inv_def
      deepCopy_map)

section \<open>Reasoning about operations\<close>

text \<open>
  \<open>op_triple P m Q R\<close>: from a state with \<open>P\<close>, a normal return leaves \<open>Q\<close> of the
  result and the state, and an error or a panic leaves \<open>R\<close>.
\<close>

definition op_triple ::
    "(metaState \<Rightarrow> bool) \<Rightarrow> 'a meta_op \<Rightarrow> ('a \<Rightarrow> metaState \<Rightarrow> bool) \<Rightarrow> (metaState \<Rightarrow> bool) \<Rightarrow> bool" where
  "op_triple P m Q R \<longleftrightarrow>
     (\<forall>s s' r. P s \<longrightarrow> m s = (s', r) \<longrightarrow> (case r of Ok x \<Rightarrow> Q x s' | _ \<Rightarrow> R s'))"

lemma op_tripleI:
  "(\<And>s s' r. P s \<Longrightarrow> m s = (s', r) \<Longrightarrow> case r of Ok x \<Rightarrow> Q x s' | _ \<Rightarrow> R s') \<Longrightarrow> op_triple P m Q R"
  by (simp add: op_triple_def)

lemma op_tripleD: "op_triple P m Q R \<Longrightarrow> P s \<Longrightarrow> m s = (s', Ok x) \<Longrightarrow> Q x s'"
  by (fastforce simp: op_triple_def)

lemma op_triple_all:
  "op_triple P m (\<lambda>_. R) R \<Longrightarrow> P s \<Longrightarrow> R (fst (m s))"
  by (cases "m s"; cases "snd (m s)") (fastforce simp: op_triple_def)+

lemma op_bind_triple:
  assumes "op_triple P m Q R" and "\<And>x. op_triple (Q x) (f x) Q' R"
  shows "op_triple P (op_bind m f) Q' R"
proof (rule op_tripleI)
  fix s s' r
  assume "P s" and run: "op_bind m f s = (s', r)"
  obtain s1 r1 where m: "m s = (s1, r1)" by fastforce
  show "case r of Ok x \<Rightarrow> Q' x s' | _ \<Rightarrow> R s'"
  proof (cases r1)
    case (Ok x)
    then have "Q x s1" using assms(1) \<open>P s\<close> m by (fastforce simp: op_triple_def)
    moreover have "f x s1 = (s', r)" using run m Ok by (simp add: op_bind_def)
    ultimately show ?thesis using assms(2) [of x] by (auto simp: op_triple_def)
  qed (use assms(1) \<open>P s\<close> m run in \<open>fastforce simp: op_triple_def op_bind_def\<close>)+
qed

lemma op_lift_triple: "(\<And>s x. P s \<Longrightarrow> r = Ok x \<Longrightarrow> Q x s) \<Longrightarrow> (\<And>s. P s \<Longrightarrow> R s) \<Longrightarrow> op_triple P (op_lift r) Q R"
  by (auto simp: op_triple_def op_lift_def split: res.splits)

lemma op_pure_triple:
  "(\<And>s. P s \<Longrightarrow> Q x (f s)) \<Longrightarrow> op_triple P (\<lambda>s. (f s, Ok x)) Q R"
  by (auto simp: op_triple_def)

lemma op_triple_pre: "(\<And>s. P s \<Longrightarrow> P' s) \<Longrightarrow> op_triple P' m Q R \<Longrightarrow> op_triple P m Q R"
  by (auto simp: op_triple_def)

text \<open>
  What a transfer between accounts can do: nothing, create the receiver's account
  and fail, or move the amount.
\<close>

lemma no_nil_loadOrStore [simp]:
  "no_nil_accounts s \<Longrightarrow> no_nil_accounts (fst (loadOrStoreAccountObject k v s))"
  by (auto simp: loadOrStoreAccountObject_def split: found.splits)

lemma transferAccountToken_cases:
  assumes "no_nil_accounts s" and "transferAccountToken E tx i s = (s', r)"
  defines "s1 \<equiv> fst (loadOrStoreAccountObject (tr_Receiver tx) (empty_account (tr_Receiver tx)) s)"
  shows "s' = s \<and> (r = Ok () \<longrightarrow> tr_Sender tx = tr_Receiver tx \<or> tr_Amount tx = 0)
    \<or> tr_Sender tx \<noteq> tr_Receiver tx \<and> s' = s1 \<and> r \<noteq> Ok ()
    \<or> r = Ok () \<and> tr_Sender tx \<noteq> tr_Receiver tx \<and> (\<exists>so ro b c.
        loadAccountObject s1 (tr_Sender tx) = Some so \<and>
        loadAccountObject s1 (tr_Receiver tx) = Some ro \<and>
        tb_get (ac_TokenBalance so) (tr_TokenType tx) = Some b \<and>
        tb_get (ac_TokenBalance ro) (tr_TokenType tx) = Some c \<and>
        tr_Amount tx \<le> b \<and> \<not> c + tr_Amount tx < c \<and>
        s' = put_account (tr_Receiver tx) (Some (ro \<lparr> ac_TokenBalance :=
               tb_set (ac_TokenBalance ro) (tr_TokenType tx) (c + tr_Amount tx) \<rparr>))
             (put_account (tr_Sender tx) (Some (so \<lparr> ac_TokenBalance :=
               tb_set (ac_TokenBalance so) (tr_TokenType tx) (b - tr_Amount tx) \<rparr>)) s1))"
proof -
  have n1: "no_nil_accounts s1" using assms(1) by (simp add: s1_def)
  note objs = object_or_panic_load [OF n1] transfer_object_load [OF n1]
  show ?thesis
    using assms(2)
    by (simp add: transferAccountToken_def Let_def flip: s1_def split: if_splits res.splits)
      (auto simp: op_bind_def op_lift_def objs safeAdd_def safeSub_def not_less
        split: if_splits option.splits)
qed

text \<open>
  An invariant of the accounts: \<open>A k a\<close> holds of every account, changing a balance
  keeps it, and the empty accounts of the addresses in \<open>F\<close> have it.
\<close>

definition acc_inv :: "(AccountAddress \<Rightarrow> Account \<Rightarrow> bool) \<Rightarrow> metaState \<Rightarrow> bool" where
  "acc_inv A s \<longleftrightarrow> wf_meta s \<and> (\<forall>k a. loadAccountObject s k = Some a \<longrightarrow> A k a)"

locale account_pred =
  fixes A :: "AccountAddress \<Rightarrow> Account \<Rightarrow> bool"
    and F :: "AccountAddress set"
  assumes balance: "A k a \<Longrightarrow> A k (a \<lparr> ac_TokenBalance := b \<rparr>)"
    and fresh: "k \<in> F \<Longrightarrow> A k (empty_account k)"
begin

lemma put_account: "acc_inv A s \<Longrightarrow> ac_Address a = k \<Longrightarrow> A k a \<Longrightarrow> acc_inv A (put_account k (Some a) s)"
  by (auto simp: acc_inv_def wf_put_account)

lemma put_database:
  "acc_inv A s \<Longrightarrow> (\<And>b. ob = Some b \<Longrightarrow> sc_ID b = d) \<Longrightarrow> acc_inv A (put_database d ob s)"
  by (auto simp: acc_inv_def wf_put_database)

lemma put_provider:
  "acc_inv A s \<Longrightarrow> (\<And>p. op = Some p \<Longrightarrow> pp_Provider p = k) \<Longrightarrow> acc_inv A (put_provider k op s)"
  by (auto simp: acc_inv_def wf_put_provider)

lemma load_account: "acc_inv A s \<Longrightarrow> loadAccountObject s k = Some a \<Longrightarrow> ac_Address a = k \<and> A k a"
  using wf_load(1) by (auto simp: acc_inv_def)

lemma account_copy:
  "op_triple (acc_inv A) (dirty_account_copy k)
     (\<lambda>dst s. acc_inv A s \<and> ac_Address dst = k \<and> A k dst) (acc_inv A)"
proof (rule op_tripleI)
  fix s s' r
  assume I: "acc_inv A s" and run: "dirty_account_copy k s = (s', r)"
  show "case r of Ok dst \<Rightarrow> acc_inv A s' \<and> ac_Address dst = k \<and> A k dst | _ \<Rightarrow> acc_inv A s'"
  proof (cases "dirty_account s k")
    case None
    then have "loadAccountObject s k = ro_account s k" by (simp add: load_overlay overlay_view_def)
    then show ?thesis
      using run I None load_account [OF I, of k] put_account [OF I]
      by (cases "ro_account s k") (auto simp: dirty_account_copy_def)
  next
    case (Some p)
    then have "loadAccountObject s k = p" by (simp add: load_overlay overlay_view_def)
    then show ?thesis
      using run I Some load_account [OF I, of k]
      by (cases p) (auto simp: dirty_account_copy_def)
  qed
qed

lemma update_token: "op_triple (acc_inv A) (update_token f k t) (\<lambda>_. acc_inv A) (acc_inv A)"
  unfolding update_token_def
  by (intro op_bind_triple [OF account_copy] op_bind_triple op_lift_triple op_pure_triple)
    (auto intro!: put_account balance)

lemmas tokens = update_token [of "\<lambda>b. safeAdd b amount" for amount, folded increaseAccountToken_def]
  update_token [of "\<lambda>b. safeSub b amount" for amount, folded decreaseAccountToken_def]

lemma load_or_store:
  assumes "acc_inv A s" and "k \<in> F \<or> loadAccountObject s k \<noteq> None"
  shows "acc_inv A (fst (loadOrStoreAccountObject k (empty_account k) s))"
proof -
  have no: "dirty_account s k \<noteq> Some None"
    using assms(1) by (auto simp: acc_inv_def wf_meta_def no_nil_accounts_def)
  show ?thesis
    using assms no put_account [OF assms(1), of "empty_account k" k] fresh [of k]
    by (auto simp: loadOrStoreAccountObject_def find_object_def load_overlay overlay_view_def
        split: option.splits)
qed

lemma transfer_account:
  assumes "tr_Receiver tx \<in> F \<or> tr_Receiver tx = tr_Sender tx"
  shows "op_triple (acc_inv A) (transferAccountToken E tx i) (\<lambda>_. acc_inv A) (acc_inv A)"
proof (rule op_tripleI)
  fix s s' r
  assume I: "acc_inv A s" and run: "transferAccountToken E tx i s = (s', r)"
  define s1 where "s1 = fst (loadOrStoreAccountObject (tr_Receiver tx) (empty_account (tr_Receiver tx)) s)"
  have "no_nil_accounts s" using I by (simp add: acc_inv_def)
  from transferAccountToken_cases [OF this run]
  consider "s' = s" | "tr_Sender tx \<noteq> tr_Receiver tx" "s' = s1"
    | so ro b c where "tr_Sender tx \<noteq> tr_Receiver tx" "loadAccountObject s1 (tr_Sender tx) = Some so"
        "loadAccountObject s1 (tr_Receiver tx) = Some ro"
        "s' = put_account (tr_Receiver tx) (Some (ro \<lparr> ac_TokenBalance := c \<rparr>))
           (put_account (tr_Sender tx) (Some (so \<lparr> ac_TokenBalance := b \<rparr>)) s1)"
    unfolding s1_def by blast
  then have "acc_inv A s'"
  proof cases
    case 2
    then show ?thesis using load_or_store [OF I] assms by (auto simp: s1_def)
  next
    case 3
    then have "acc_inv A s1" using load_or_store [OF I] assms by (auto simp: s1_def)
    with 3 load_account [OF this] show ?thesis by (auto intro!: put_account balance)
  qed (use I in simp)
  then show "case r of Ok _ \<Rightarrow> acc_inv A s' | _ \<Rightarrow> acc_inv A s'" by (cases r) auto
qed

lemma increase_nonce_wf:
  assumes "\<And>k a. A k a"
  shows "op_triple (acc_inv A) (increaseNonce k) (\<lambda>_. acc_inv A) (acc_inv A)"
  unfolding increaseNonce_def
  by (intro op_bind_triple [OF account_copy] op_pure_triple) (auto intro!: put_account assms)

end

section \<open>Balances and supply\<close>

text \<open>
  \<open>safeAdd\<close> and \<open>safeSub\<close> compute exactly: they return the sum or the difference
  of the two numbers when it fits in 64 bits, and an error, and nothing else, when
  it does not.
\<close>

theorem safe_arithmetic_exact:
  "(case safeAdd x y of Ok z \<Rightarrow> unat z = unat x + unat y
    | Err e \<Rightarrow> e = ErrBalanceOverflow \<and> 2 ^ 64 \<le> unat x + unat y | Panic \<Rightarrow> False) \<and>
   (case safeSub x y of Ok z \<Rightarrow> unat z + unat y = unat x
    | Err e \<Rightarrow> e = ErrInsufficientBalance \<and> unat x < unat y | Panic \<Rightarrow> False)"
proof -
  have "unat (x + y) = unat x + unat y" if "\<not> x + y < x"
    using that add_overflow_iff [of x y] by (simp add: unat_add_exact)
  moreover have "2 ^ 64 \<le> unat x + unat y" if "x + y < x"
    using that add_overflow_iff [of x y] by simp
  moreover have "unat (x - y) + unat y = unat x" if "y \<le> x"
    using that by (simp add: unat_sub_exact word_le_nat_alt)
  ultimately show ?thesis
    by (auto simp: safeAdd_def safeSub_def word_less_nat_alt word_le_nat_alt)
qed

text \<open>
  The balance of an address in a token, zero without an account, and the sum of
  all balances. Only finitely many addresses have an account.
\<close>

definition balance_of :: "metaState \<Rightarrow> TokenType \<Rightarrow> AccountAddress \<Rightarrow> nat" where
  "balance_of s t k =
     (case loadAccountObject s k of None \<Rightarrow> 0
      | Some a \<Rightarrow> (case tb_get (ac_TokenBalance a) t of Some b \<Rightarrow> unat b | None \<Rightarrow> 0))"

definition account_keys :: "metaState \<Rightarrow> AccountAddress set" where
  "account_keys s = set (mkeys (dx_accounts (ms_dirty s))) \<union> set (mkeys (ix_accounts (ms_readonly s)))"

definition total_balance :: "metaState \<Rightarrow> TokenType \<Rightarrow> nat" where
  "total_balance s t = (\<Sum>k \<in> account_keys s. balance_of s t k)"

lemma finite_account_keys [simp]: "finite (account_keys s)"
  by (simp add: account_keys_def)

lemma account_keys_load: "k \<notin> account_keys s \<Longrightarrow> loadAccountObject s k = None"
  by (simp add: account_keys_def load_overlay overlay_view_def dirty_defs ro_defs
      map_of_eq_None_iff [THEN iffD2])

lemma total_balance_superset:
  assumes "finite K" and "account_keys s \<subseteq> K"
  shows "total_balance s t = (\<Sum>k \<in> K. balance_of s t k)"
  unfolding total_balance_def
  using assms by (intro sum.mono_neutral_left) (auto simp: balance_of_def account_keys_load)

text \<open>Two states that differ in the accounts of two addresses only.\<close>

lemma total_balance_two:
  assumes "x \<noteq> y" and "\<And>k. k \<noteq> x \<Longrightarrow> k \<noteq> y \<Longrightarrow> balance_of s' t k = balance_of s t k"
  shows "total_balance s' t + balance_of s t x + balance_of s t y =
    total_balance s t + balance_of s' t x + balance_of s' t y"
proof -
  define K where "K = account_keys s \<union> account_keys s' \<union> {x, y}"
  have K: "finite K" "x \<in> K" "y \<in> K - {x}" using assms(1) by (auto simp: K_def)
  have split: "(\<Sum>k \<in> K. f k) = f x + (f y + (\<Sum>k \<in> K - {x} - {y}. f k))" for f :: "_ \<Rightarrow> nat"
    using K by (simp add: sum.remove [of K x] sum.remove [of "K - {x}" y])
  have "(\<Sum>k \<in> K - {x} - {y}. balance_of s' t k) = (\<Sum>k \<in> K - {x} - {y}. balance_of s t k)"
    using assms(2) by (intro sum.cong) auto
  moreover have "account_keys s \<subseteq> K" "account_keys s' \<subseteq> K" by (auto simp: K_def)
  ultimately show ?thesis
    using total_balance_superset [of K s t] total_balance_superset [of K s' t] K(1)
    by (simp add: split)
qed

lemma balance_of_loadOrStore [simp]:
  "balance_of (fst (loadOrStoreAccountObject k (empty_account k) s)) t k' = balance_of s t k'"
  if "no_nil_accounts s"
proof -
  have "loadAccountObject s k = None"
    if "find_object (dirty_account s k) (ro_account s k) = NotFound"
    using that \<open>no_nil_accounts s\<close>
    by (auto simp: find_object_def load_overlay overlay_view_def no_nil_accounts_def split: option.splits)
  then show ?thesis
    by (auto simp: loadOrStoreAccountObject_def balance_of_def split: found.splits option.splits)
qed

text \<open>
  C10: a transfer between accounts, successful or not, conserves the sum of all
  balances of every token; when it succeeds (and moves something) the sender has
  lost and the receiver gained exactly the amount, and nobody else's balance has
  changed.
\<close>

theorem transfer_conserves:
  assumes "no_nil_accounts s" and "transferAccountToken E tx i s = (s', r)"
  shows "total_balance s' t = total_balance s t \<and>
    (r = Ok () \<and> tr_Sender tx \<noteq> tr_Receiver tx \<longrightarrow>
       balance_of s (tr_TokenType tx) (tr_Sender tx) =
         balance_of s' (tr_TokenType tx) (tr_Sender tx) + unat (tr_Amount tx) \<and>
       balance_of s' (tr_TokenType tx) (tr_Receiver tx) =
         balance_of s (tr_TokenType tx) (tr_Receiver tx) + unat (tr_Amount tx) \<and>
       (\<forall>k u. k \<notin> {tr_Sender tx, tr_Receiver tx} \<longrightarrow> balance_of s' u k = balance_of s u k))"
proof -
  define s1 where "s1 = fst (loadOrStoreAccountObject (tr_Receiver tx) (empty_account (tr_Receiver tx)) s)"
  have bal1 [simp]: "balance_of s1 u k = balance_of s u k" for u k
    using assms(1) by (simp add: s1_def)
  have total1: "total_balance s1 u = total_balance s u" for u
  proof -
    define K where "K = account_keys s \<union> account_keys s1"
    show ?thesis
      using total_balance_superset [of K s u] total_balance_superset [of K s1 u] by (simp add: K_def)
  qed
  from transferAccountToken_cases [OF assms]
  consider "s' = s" "r = Ok () \<longrightarrow> tr_Sender tx = tr_Receiver tx \<or> tr_Amount tx = 0"
    | "s' = s1" "r \<noteq> Ok ()"
    | so ro b c where "tr_Sender tx \<noteq> tr_Receiver tx"
        "loadAccountObject s1 (tr_Sender tx) = Some so" "loadAccountObject s1 (tr_Receiver tx) = Some ro"
        "tb_get (ac_TokenBalance so) (tr_TokenType tx) = Some b"
        "tb_get (ac_TokenBalance ro) (tr_TokenType tx) = Some c"
        "tr_Amount tx \<le> b" "\<not> c + tr_Amount tx < c"
        "s' = put_account (tr_Receiver tx) (Some (ro \<lparr> ac_TokenBalance :=
               tb_set (ac_TokenBalance ro) (tr_TokenType tx) (c + tr_Amount tx) \<rparr>))
             (put_account (tr_Sender tx) (Some (so \<lparr> ac_TokenBalance :=
               tb_set (ac_TokenBalance so) (tr_TokenType tx) (b - tr_Amount tx) \<rparr>)) s1)"
    unfolding s1_def by blast
  then show ?thesis
  proof cases
    case 1
    then show ?thesis by auto
  next
    case 2
    then show ?thesis by (simp add: total1)
  next
    case 3
    have sub: "unat b = unat (b - tr_Amount tx) + unat (tr_Amount tx)"
      using 3(6) by (simp add: unat_sub_exact word_le_nat_alt)
    have add: "unat (c + tr_Amount tx) = unat c + unat (tr_Amount tx)"
      using 3(7) add_overflow_iff [of c "tr_Amount tx"] by (simp add: unat_add_exact)
    have old: "balance_of s (tr_TokenType tx) (tr_Sender tx) = unat b"
        "balance_of s (tr_TokenType tx) (tr_Receiver tx) = unat c"
      using 3(2-5) unfolding bal1 [symmetric] by (simp_all add: balance_of_def)
    have other: "balance_of s' u k = balance_of s u k"
      if "k \<noteq> tr_Sender tx \<and> k \<noteq> tr_Receiver tx \<or> u \<noteq> tr_TokenType tx" for k u
      using that 3(2,3,8) unfolding bal1 [symmetric] by (auto simp: balance_of_def split: option.splits)
    have new: "balance_of s' (tr_TokenType tx) (tr_Sender tx) = unat (b - tr_Amount tx)"
        "balance_of s' (tr_TokenType tx) (tr_Receiver tx) = unat (c + tr_Amount tx)"
      using 3(1,4,5,8) by (simp_all add: balance_of_def)
    have "total_balance s' t = total_balance s t"
      using total_balance_two [OF 3(1), of s' t s] other old new sub add
      by (cases "t = tr_TokenType tx") auto
    then show ?thesis using old new sub add other by auto
  qed
qed

text \<open>A state with the given accounts in its read-only index, for examples.\<close>

definition example_state :: "Account list \<Rightarrow> metaState" where
  "example_state as =
     \<lparr> ms_dirty = newDirtyIndex,
       ms_readonly = newMetaIndex \<lparr> ix_accounts := map (\<lambda>a. (ac_Address a, a)) as \<rparr> \<rparr>"

definition example_account :: "AccountAddress \<Rightarrow> u64 \<Rightarrow> Account" where
  "example_account k b = empty_account k \<lparr> ac_TokenBalance := TB b 0 \<rparr>"

lemmas example_defs = example_state_def example_account_def example_env_def example_hsv_def
  newDirtyIndex_def newMetaIndex_def empty_account_def

lemma no_nil_example [simp]: "no_nil_accounts (example_state as)"
  by (simp add: no_nil_accounts_def example_defs dirty_defs)

theorem transfer_conserves_witness:
  "no_nil_accounts (example_state [example_account [1] 5]) \<and>
   (let r = transferAccountToken example_env
              \<lparr> tr_Sender = [1], tr_Receiver = [2], tr_Nonce = 0, tr_Amount = 3, tr_TokenType = Particle \<rparr>
              (example_hsv [1]) (example_state [example_account [1] 5])
    in snd r = Ok () \<and>
       total_balance (fst r) Particle = total_balance (example_state [example_account [1] 5]) Particle \<and>
       balance_of (fst r) Particle [2] = 3)"
proof -
  define s where "s = example_state [example_account [1] 5]"
  define tx where "tx = \<lparr> tr_Sender = [1::byte], tr_Receiver = [2], tr_Nonce = 0, tr_Amount = 3,
    tr_TokenType = Particle \<rparr>"
  define r where "r = transferAccountToken example_env tx (example_hsv [1]) s"
  have nn: "no_nil_accounts s" by (simp add: s_def)
  have ok: "snd r = Ok ()"
    by (simp add: r_def tx_def s_def transferAccountToken_def PubKeyHash_def example_defs Let_def
        loadOrStoreAccountObject_def find_object_def transfer_object_def object_or_panic_def
        op_bind_def op_lift_def dirty_defs ro_defs put_defs safeAdd_def safeSub_def)
  have bal: "balance_of s Particle [2] = 0"
    by (simp add: s_def balance_of_def load_overlay overlay_view_def dirty_defs ro_defs example_defs)
  have "total_balance (fst r) Particle = total_balance s Particle \<and> balance_of (fst r) Particle [2] = 3"
    using transfer_conserves [OF nn surjective_pairing, of example_env tx "example_hsv [1]" Particle] ok bal
    by (simp add: r_def tx_def)
  then show ?thesis using ok nn by (simp add: r_def tx_def s_def Let_def)
qed

text \<open>
  C12: committing a state does not change what it stands for: afterwards the dirty
  index is empty and the read-only index alone holds, for every account, database
  and provider, what the two indexes held together (a deleted object is gone); and
  a copy of the committed state stands for the same objects.
\<close>

theorem commit_keeps_view:
  assumes "meta_inv s"
  shows "ms_dirty (metaState_commit s) = newDirtyIndex \<and>
    ro_account (metaState_commit s) = loadAccountObject s \<and>
    ro_database (metaState_commit s) = loadSQLChainObject s \<and>
    ro_provider (metaState_commit s) = loadProviderObject s \<and>
    loadAccountObject (metaState_makeCopy (metaState_commit s)) = loadAccountObject s \<and>
    loadSQLChainObject (metaState_makeCopy (metaState_commit s)) = loadSQLChainObject s \<and>
    loadProviderObject (metaState_makeCopy (metaState_commit s)) = loadProviderObject s"
proof -
  have ro: "ro_account (metaState_commit s) = loadAccountObject s"
      "ro_database (metaState_commit s) = loadSQLChainObject s"
      "ro_provider (metaState_commit s) = loadProviderObject s"
    using assms by (auto simp: load_overlay accounts.ro_commit databases.ro_commit providers.ro_commit)
  have copy: "metaState_makeCopy (metaState_commit s) = metaState_clean (metaState_commit s)"
    using assms by (intro makeCopy_eq) simp
  have clean: "loadAccountObject (metaState_clean c) = ro_account c"
      "loadSQLChainObject (metaState_clean c) = ro_database c"
      "loadProviderObject (metaState_clean c) = ro_provider c" for c
    by (auto simp: load_overlay accounts.view_clean databases.view_clean providers.view_clean)
  have "ms_dirty (metaState_commit s) = newDirtyIndex" by (simp add: metaState_commit_def)
  then show ?thesis by (simp add: copy clean ro)
qed

theorem commit_keeps_view_witness:
  "meta_inv (put_account [1] None (example_state [example_account [1] 5])) \<and>
   ro_account (metaState_commit (put_account [1] None (example_state [example_account [1] 5]))) [1] = None"
proof -
  have "meta_inv (put_account [1] None (example_state [example_account [1] 5]))"
    by (simp add: meta_inv_def example_defs put_defs)
  then show ?thesis using commit_keeps_view by simp
qed

lemma delete_user_loop_skip:
  assumes "i \<le> m" and "m \<le> n" and "\<And>j. i \<le> j \<Longrightarrow> j < m \<Longrightarrow> \<exists>v. arr ! j = Some v \<and> su_Address v \<noteq> addr"
  shows "delete_user_loop addr n i arr len = delete_user_loop addr n m arr len"
  using assms
proof (induction "m - i" arbitrary: i)
  case (Suc d)
  then have i: "i < m" by simp
  then obtain v where v: "arr ! i = Some v" "su_Address v \<noteq> addr" using Suc.prems(3) by blast
  have "i < n" using i Suc.prems(2) by simp
  then have "delete_user_loop addr n i arr len = delete_user_loop addr n (i + 1) arr len"
    using v by (subst delete_user_loop.simps) simp
  also have "\<dots> = delete_user_loop addr n m arr len"
    by (rule Suc.hyps(1)) (use Suc.hyps(2) Suc.prems i in auto)
  finally show ?case .
qed simp

text \<open>
  deleting a database user panics whenever the user is in the list, once, and
  is not its last element: the loop goes on over the shortened slice and meets the
  nil pointer it left at the end. Deleting the last user works.
\<close>

theorem deleteSQLChainUser_panics:
  assumes "dirty_database s k = Some (Some db)" and "sc_Users db = us @ u # vs @ [w]"
    and "su_Address u = addr" and "\<forall>v \<in> set us \<union> set vs \<union> {w}. su_Address v \<noteq> addr"
  shows "deleteSQLChainUser k addr s = (s, Panic)"
proof -
  define arr where "arr = map Some (sc_Users db)"
  define n where "n = length (sc_Users db)"
  define i where "i = length us"
  define arr' where "arr' = arr[i := arr ! (n - 1), n - 1 := None]"
  have n: "n = i + 1 + length vs + 1" by (simp add: n_def i_def assms(2))
  have arr: "arr = map Some us @ Some u # map Some vs @ [Some w]" by (simp add: arr_def assms(2))
  have pre: "\<exists>v. arr ! j = Some v \<and> su_Address v \<noteq> addr" if "j < i" for j
    using that assms(4) by (auto simp: arr i_def nth_append)
  have at: "arr ! i = Some u" by (simp add: arr i_def nth_append)
  have post: "\<exists>v. arr' ! j = Some v \<and> su_Address v \<noteq> addr" if "i + 1 \<le> j" "j < n - 1" for j
  proof -
    have "j - (i + 1) < length vs" using that n by simp
    then have "arr ! j = Some (vs ! (j - (i + 1)))" "vs ! (j - (i + 1)) \<in> set vs"
      using that by (auto simp: arr i_def nth_append nth_Cons')
    moreover have "arr' ! j = arr ! j" using that by (simp add: arr'_def)
    ultimately show ?thesis using assms(4) by auto
  qed
  have "delete_user_loop addr n 0 arr n = delete_user_loop addr n i arr n"
    using pre n by (intro delete_user_loop_skip) auto
  also have "\<dots> = delete_user_loop addr n (i + 1) arr' (n - 1)"
    using n at assms(3) by (subst delete_user_loop.simps) (simp add: arr'_def)
  also have "\<dots> = delete_user_loop addr n (n - 1) arr' (n - 1)"
    using post n by (intro delete_user_loop_skip) auto
  also have "\<dots> = Panic"
    using n by (subst delete_user_loop.simps) (simp add: arr'_def arr i_def)
  finally show ?thesis
    using assms(1) by (simp add: deleteSQLChainUser_def op_bind_def op_lift_def dirty_database_copy_def
        arr_def n_def)
qed

theorem deleteSQLChainUser_panics_witness:
  "\<exists>s db. dirty_database s ''d'' = Some (Some db) \<and>
     map su_Address (sc_Users db) = [[1], [2]] \<and> deleteSQLChainUser ''d'' [1] s = (s, Panic)"
proof -
  define s0 where "s0 = fst (createSQLChain [1] ''d'' (example_state [example_account [1] 5]))"
  define s1 where "s1 = fst (addSQLChainUser ''d'' [2] None s0)"
  obtain db where db: "dirty_database s1 ''d'' = Some (Some db)"
      "sc_Users db = [] @ new_user [1] (Some (UserPermissionFromRole Admin)) # [] @ [new_user [2] None]"
    by (simp add: s1_def s0_def createSQLChain_def addSQLChainUser_def op_bind_def
        dirty_database_copy_def dirty_defs ro_defs put_defs example_defs new_user_def)
  have "deleteSQLChainUser ''d'' [1] s1 = (s1, Panic)"
    by (rule deleteSQLChainUser_panics [OF db]) (auto simp: new_user_def)
  then show ?thesis using db by (intro exI [of _ s1] exI [of _ db]) (simp add: new_user_def)
qed

end
