(* ===== verification/Float64.thy ===== *)
theory Float64
  imports Verifier
begin

text \<open>
  The \<open>float64\<close> arithmetic the billing code does, on the values it meets there:
  non-negative numbers between \<open>2^-64\<close> and \<open>2^64\<close> and zero, far from the exponent
  limits, so a value is a rational number and every operation rounds its exact
  result to 53 significant bits, ties to even.
\<close>

section \<open>Rounding\<close>

definition pow2 :: "int \<Rightarrow> rat" where
  "pow2 e = (if e \<ge> 0 then 2 ^ nat e else 1 / 2 ^ nat (- e))"

text \<open>The integer below the binary logarithm of a positive number.\<close>

definition ilog2 :: "rat \<Rightarrow> int" where
  "ilog2 x =
     (case quotient_of x of (p, q) \<Rightarrow>
        let k = int (BitLen (nat p)) - int (BitLen (nat q)) in
        if x \<ge> pow2 k then k else k - 1)"

definition round_half_even :: "rat \<Rightarrow> int" where
  "round_half_even x =
     (let f = \<lfloor>x\<rfloor>; d = x - of_int f in
      if d < 1 / 2 then f else if d > 1 / 2 then f + 1 else if even f then f else f + 1)"

definition f64_round :: "rat \<Rightarrow> rat" where
  "f64_round x =
     (if x = 0 then 0
      else let e = ilog2 x - 52 in of_int (round_half_even (x / pow2 e)) * pow2 e)"

definition f64_of_u64 :: "u64 \<Rightarrow> rat" where
  "f64_of_u64 x = f64_round (of_nat (unat x))"

definition f64_div :: "rat \<Rightarrow> rat \<Rightarrow> rat" where
  "f64_div x y = f64_round (x / y)"

definition f64_mul :: "rat \<Rightarrow> rat \<Rightarrow> rat" where
  "f64_mul x y = f64_round (x * y)"

text \<open>
  Conversion to \<open>uint64\<close> drops the fraction; a value that does not fit gives a
  number that depends on the machine, the parameter \<open>overflow\<close>.
\<close>

definition u64_of_f64 :: "u64 \<Rightarrow> rat \<Rightarrow> u64" where
  "u64_of_f64 overflow x = (if x < 2 ^ 64 then of_int \<lfloor>x\<rfloor> else overflow)"

section \<open>Bounds\<close>

lemma pow2_pos [simp]: "0 < pow2 e"
  by (simp add: pow2_def)

lemma pow2_nonneg [simp]: "0 \<le> pow2 e" "pow2 e \<noteq> 0"
  using pow2_pos [of e] by linarith+

lemma pow2_le_1: "e \<le> 0 \<Longrightarrow> pow2 e \<le> 1"
  by (cases "e = 0") (auto simp: pow2_def)

lemma pow2_nat: "pow2 (int n) = 2 ^ n"
  by (simp add: pow2_def)

text \<open>A natural number is a multiple of \<open>2^e\<close> when \<open>e\<close> is not positive.\<close>

lemma multiple_of_pow2:
  assumes "e \<le> 0"
  shows "\<exists>Y :: int. of_nat n = of_int Y * pow2 e"
proof -
  have "of_nat n = of_int (int n * 2 ^ nat (- e)) * pow2 e"
    using assms by (cases "e = 0") (auto simp: pow2_def)
  then show ?thesis by blast
qed

lemma round_half_even_le: "x \<le> of_int Y \<Longrightarrow> round_half_even x \<le> Y"
proof -
  assume le: "x \<le> of_int Y"
  show ?thesis
  proof (cases "x = of_int Y")
    case True
    then show ?thesis by (simp add: round_half_even_def)
  next
    case False
    then have "\<lfloor>x\<rfloor> < Y" using le by (simp add: floor_less_iff)
    then show ?thesis by (auto simp: round_half_even_def Let_def)
  qed
qed

lemma round_half_even_nonneg: "0 \<le> x \<Longrightarrow> 0 \<le> round_half_even x"
  by (auto simp: round_half_even_def Let_def)

lemma round_half_even_int [simp]: "round_half_even (of_int Y) = Y"
  by (simp add: round_half_even_def)

lemma BitLen_ge: "0 < x \<Longrightarrow> 2 ^ BitLen x \<le> 2 * x"
proof (induction x rule: BitLen.induct)
  case (1 x)
  show ?case
  proof (cases "x div 2 = 0")
    case True
    then have "x = 1" using 1(2) by auto
    then show ?thesis by (simp add: BitLen.simps [of "Suc 0"] BitLen.simps [of 0])
  next
    case False
    then have "2 ^ BitLen (x div 2) \<le> 2 * (x div 2)" using 1 by auto
    then have "2 * 2 ^ BitLen (x div 2) \<le> 2 * x" by presburger
    then show ?thesis using 1(2) by (simp add: BitLen.simps [of x])
  qed
qed

lemma pow2_mono: "a \<le> b \<Longrightarrow> pow2 a \<le> pow2 b"
  by (auto simp: pow2_def divide_simps simp flip: power_add intro: power_increasing)

lemma pow2_diff: "pow2 (int a - int b) = 2 ^ a / 2 ^ b"
proof (cases "b \<le> a")
  case True
  then have "(2::rat) ^ a = 2 ^ (a - b) * 2 ^ b" by (simp flip: power_add)
  with True show ?thesis by (simp add: pow2_def nat_diff_distrib)
next
  case False
  then have "(2::rat) ^ b = 2 ^ (b - a) * 2 ^ a" by (simp flip: power_add)
  with False show ?thesis by (simp add: pow2_def nat_diff_distrib)
qed

lemma pow2_Suc: "pow2 (e + 1) = 2 * pow2 e"
proof -
  obtain a b where e: "e = int a - int b" by (metis int_diff_cases)
  have "e + 1 = int (Suc a) - int b" using e by simp
  then show ?thesis by (simp only: e pow2_diff) simp
qed

lemma ilog2_le:
  assumes "0 < x"
  shows "pow2 (ilog2 x) \<le> x"
proof -
  obtain p q where pq: "quotient_of x = (p, q)" by fastforce
  have q: "0 < q" and x: "x = of_int p / of_int q"
    using quotient_of_denom_pos [OF pq] quotient_of_div [OF pq] by auto
  have p: "0 < p" using assms q by (simp add: x zero_less_divide_iff)
  obtain P Q where PQ: "p = int P" "q = int Q" "0 < P" "0 < Q"
    using p q by (metis nat_0_le order_less_imp_le of_nat_0_less_iff)
  define a b where ab: "a = BitLen (nat p)" "b = BitLen (nat q)"
  have "2 ^ a \<le> 2 * P" "Q < 2 ^ b"
    using BitLen_ge [of P] BitLen_less [of Q] PQ by (simp_all add: ab)
  then have "of_nat (2 ^ a) \<le> (of_nat (2 * P) :: rat)" "of_nat Q < (of_nat (2 ^ b) :: rat)"
    by (simp_all only: of_nat_le_iff of_nat_less_iff)
  then have "2 ^ a / 2 ^ b \<le> (2 * of_nat P) / (of_nat Q :: rat)"
    using PQ by (intro frac_le) auto
  then have "2 ^ a / 2 ^ b \<le> 2 * x"
    by (simp add: x PQ)
  moreover have "pow2 (int a - int b) = 2 * pow2 (int a - int b - 1)"
    using pow2_Suc [of "int a - int b - 1"] by simp
  ultimately have "pow2 (int a - int b - 1) \<le> x"
    by (simp add: pow2_diff)
  then show ?thesis
    by (simp add: ilog2_def pq Let_def flip: ab)
qed

lemma f64_round_nonneg: "0 \<le> x \<Longrightarrow> 0 \<le> f64_round x"
  by (simp add: f64_round_def Let_def round_half_even_nonneg)

text \<open>\<open>ilog2\<close> of a number at most \<open>2^53\<close> is at most 53, and 53 only at \<open>2^53\<close>.\<close>

lemma f64_exponent:
  assumes "0 < x" and "x \<le> of_nat n" and "n \<le> 2 ^ 53"
  shows "ilog2 x \<le> 52 \<or> x = 2 ^ 53 \<and> n = 2 ^ 53 \<and> ilog2 x = 53"
proof (cases "ilog2 x \<le> 52")
  case False
  have n: "of_nat n \<le> (2::rat) ^ 53"
    using assms(3) by (metis of_nat_le_iff of_nat_numeral of_nat_power)
  have "pow2 53 \<le> pow2 (ilog2 x)" using False by (intro pow2_mono) auto
  also have "\<dots> \<le> x" by (rule ilog2_le [OF assms(1)])
  finally have "2 ^ 53 \<le> x" by (simp add: pow2_def)
  then have eq: "x = 2 ^ 53" "of_nat n = (2::rat) ^ 53" using assms(2) n by simp_all
  have "\<not> 54 \<le> ilog2 x"
  proof
    assume "54 \<le> ilog2 x"
    then have "pow2 54 \<le> x" using pow2_mono ilog2_le [OF assms(1)] order_trans by blast
    then show False by (simp add: eq pow2_def)
  qed
  moreover have "n = 2 ^ 53" using eq(2) by (metis of_nat_eq_iff of_nat_numeral of_nat_power)
  ultimately show ?thesis using False eq(1) by simp
qed simp

lemma f64_round_exact:
  assumes "n \<le> 2 ^ 53"
  shows "f64_round (of_nat n) = of_nat n"
proof (cases "n = 0")
  case False
  then have pos: "0 < (of_nat n :: rat)" by simp
  have "\<exists>Y :: int. of_nat n = of_int Y * pow2 (ilog2 (of_nat n) - 52)"
  proof (cases "ilog2 (of_nat n) \<le> 52")
    case True
    then show ?thesis by (intro multiple_of_pow2) simp
  next
    case False
    then have "ilog2 (of_nat n) = 53" "n = 2 ^ 53"
      using f64_exponent [OF pos order_refl assms] by auto
    then have "of_nat n = of_int (2 ^ 52) * pow2 (ilog2 (of_nat n) - 52)" by (simp add: pow2_def)
    then show ?thesis by blast
  qed
  then obtain Y :: int where Y: "of_nat n = of_int Y * pow2 (ilog2 (of_nat n) - 52)" ..
  then have "of_nat n / pow2 (ilog2 (of_nat n) - 52) = of_int Y" by (simp add: field_simps)
  then show ?thesis using False Y by (simp add: f64_round_def Let_def)
qed (simp add: f64_round_def)

lemma f64_round_le:
  assumes "0 \<le> x" and "x \<le> of_nat n" and "n \<le> 2 ^ 53"
  shows "f64_round x \<le> of_nat n"
proof (cases "x = 0")
  case False
  then have pos: "0 < x" using assms(1) by simp
  show ?thesis
  proof (cases "ilog2 x \<le> 52")
    case True
    then obtain Y :: int where Y: "of_nat n = of_int Y * pow2 (ilog2 x - 52)"
      using multiple_of_pow2 [of "ilog2 x - 52" n] by auto
    then have "x / pow2 (ilog2 x - 52) \<le> of_int Y"
      using assms(2) by (simp add: divide_le_eq)
    then have "round_half_even (x / pow2 (ilog2 x - 52)) \<le> Y" by (rule round_half_even_le)
    then have "of_int (round_half_even (x / pow2 (ilog2 x - 52))) * pow2 (ilog2 x - 52) \<le>
        of_int Y * pow2 (ilog2 x - 52)"
      by (intro mult_right_mono) auto
    with False Y show ?thesis by (simp add: f64_round_def Let_def)
  next
    case f: False
    then have "x = of_nat n" using f64_exponent [OF pos assms(2,3)] by auto
    then show ?thesis using f64_round_exact [OF assms(3)] by simp
  qed
qed (simp add: f64_round_def)

text \<open>
  A product of an exact income with a rate of at most one, converted back, is at
  most the income, as long as the income is at most \<open>2^53\<close>.
\<close>

lemma f64_share_le:
  assumes "unat income \<le> 2 ^ 53" and "0 \<le> rate" and "rate \<le> 1"
  shows "u64_of_f64 ov (f64_mul (f64_of_u64 income) rate) \<le> income"
proof -
  define y where "y = f64_mul (f64_of_u64 income) rate"
  have inc: "f64_of_u64 income = of_nat (unat income)"
    using f64_round_exact [OF assms(1)] by (simp add: f64_of_u64_def del: of_nat_unat)
  have "of_nat (unat income) * rate \<le> of_nat (unat income)"
    using assms(3) by (simp add: mult_left_le del: of_nat_unat)
  then have le: "y \<le> of_nat (unat income)"
    using assms by (simp add: y_def f64_mul_def inc f64_round_le del: of_nat_unat)
  have nonneg: "0 \<le> y"
    using assms(2) by (simp add: y_def f64_mul_def inc f64_round_nonneg del: of_nat_unat)
  have small: "(of_nat (unat income) :: rat) < 2 ^ 64"
  proof -
    have "unat income < 2 ^ 64" using unsigned_less [of income] by simp
    then have "(of_nat (unat income) :: rat) < of_nat (2 ^ 64)" by (simp only: of_nat_less_iff)
    then show ?thesis by simp
  qed
  have floor: "\<lfloor>y\<rfloor> \<le> int (unat income)" "0 \<le> \<lfloor>y\<rfloor>"
  proof -
    show "\<lfloor>y\<rfloor> \<le> int (unat income)" using floor_mono [OF le] by (simp del: of_nat_unat)
    show "0 \<le> \<lfloor>y\<rfloor>" using nonneg by simp
  qed
  have "u64_of_f64 ov y = of_nat (nat \<lfloor>y\<rfloor>)"
    using le_less_trans [OF le small] floor by (simp add: u64_of_f64_def)
  moreover have "nat \<lfloor>y\<rfloor> \<le> unat income" using floor(1) by (simp only: nat_le_iff)
  ultimately show ?thesis
    unfolding y_def [symmetric] word_le_nat_alt
    using order_trans [OF take_bit_nat_less_eq_self] by (simp add: unsigned_of_nat)
qed

lemma f64_rate_le:
  assumes "a < b" and "unat b \<le> 2 ^ 53"
  shows "0 \<le> f64_div (f64_of_u64 a) (f64_of_u64 b) \<and> f64_div (f64_of_u64 a) (f64_of_u64 b) \<le> 1"
proof -
  have ab: "unat a < unat b" using assms(1) by (simp add: word_less_nat_alt)
  have ex: "f64_of_u64 a = of_nat (unat a)" "f64_of_u64 b = of_nat (unat b)"
    using f64_round_exact [of "unat a"] f64_round_exact [of "unat b"] ab assms(2)
    by (simp_all add: f64_of_u64_def del: of_nat_unat)
  have "f64_round (of_nat (unat a) / of_nat (unat b)) \<le> of_nat 1"
    using ab by (intro f64_round_le) (auto simp: divide_le_eq_1 simp del: of_nat_unat)
  then show ?thesis using f64_round_nonneg by (simp add: f64_div_def ex del: of_nat_unat)
qed

end
