(* ===== verification/Meta_Apply.thy ===== *)
theory Meta_Apply
  imports Meta_State Float64 "HOL-Library.List_Lexorder" "HOL-Library.Char_ord"
begin

text \<open>
  The transactions of the main chain on its state: the rest of
  \<open>blockproducer/metastate.go\<close>, from the provider list and the matching of miners
  to \<open>applyTransaction\<close> and \<open>apply\<close>. The environment \<open>E\<close> holds the configuration
  and the code outside the repository.
\<close>

section \<open>Deposits and providers\<close>

definition sqlchainPeriod :: u64 where
  "sqlchainPeriod = 60 * 24 * 30"

definition BPHeightCIPFixProvideService :: u32 where
  "BPHeightCIPFixProvideService = 675550"

definition minDeposit :: "tx_env \<Rightarrow> u64 \<Rightarrow> u64 \<Rightarrow> u64" where
  "minDeposit E gasPrice minerNumber =
     gasPrice * ucast (conf_QPS E) * conf_BillingBlockCount E * minerNumber"

definition op_sender :: "tx_env \<Rightarrow> HashSignVerifier \<Rightarrow> AccountAddress meta_op" where
  "op_sender E i s =
     (case PubKeyHash (THashH E) (hv_Signee i) of
        Ok a \<Rightarrow> (s, Ok a) | Err _ \<Rightarrow> (s, Err ErrPubKey) | Panic \<Rightarrow> (s, Panic))"

definition refund_provider :: "AccountAddress \<Rightarrow> unit meta_op" where
  "refund_provider sender s =
     (case loadProviderObject s sender of
        None \<Rightarrow> (s, Ok ())
      | Some po \<Rightarrow>
          op_bind (increaseAccountStableBalance sender (pp_Deposit po)) (\<lambda>_ s.
            (deleteProviderObject sender s, Ok ())) s)"

definition updateProviderList ::
    "tx_env \<Rightarrow> ProvideServiceHeader \<Rightarrow> HashSignVerifier \<Rightarrow> u32 \<Rightarrow> unit meta_op" where
  "updateProviderList E tx i height =
     op_bind (op_sender E i) (\<lambda>sender.
     op_bind (if height \<ge> BPHeightCIPFixProvideService then refund_provider sender
              else op_lift (Ok ())) (\<lambda>_.
     op_bind (decreaseAccountStableBalance sender (conf_MinProviderDeposit E)) (\<lambda>_ s.
       (put_provider sender (Some
          \<lparr> pp_Provider = sender, pp_Space = ps_Space tx, pp_Memory = ps_Memory tx,
            pp_LoadAvgPerCPU = ps_LoadAvgPerCPU tx, pp_TargetUser = ps_TargetUser tx,
            pp_Deposit = conf_MinProviderDeposit E, pp_GasPrice = ps_GasPrice tx,
            pp_TokenType = 0, pp_NodeID = ps_NodeID tx \<rparr>) s, Ok ()))))"

section \<open>Matching miners\<close>

definition isProviderUserMatch :: "AccountAddress list \<Rightarrow> AccountAddress \<Rightarrow> bool" where
  "isProviderUserMatch targetUsers user =
     (if length targetUsers > 0 then \<exists>u \<in> set targetUsers. u = user else True)"

text \<open>The verdict and the error, as the code returns them.\<close>

definition isProviderReqMatch ::
    "ProviderProfile \<Rightarrow> CreateDatabaseHeader \<Rightarrow> bool \<times> bp_error option" where
  "isProviderReqMatch po req =
     (if pp_GasPrice po > cd_GasPrice req then (False, Some (ErrMismatch ''gas price mismatch''))
      else if f64_greater (rm_LoadAvgPerCPU (cd_ResourceMeta req)) (F64 0) \<and>
              f64_greater (pp_LoadAvgPerCPU po) (rm_LoadAvgPerCPU (cd_ResourceMeta req))
      then (False, Some (ErrMismatch ''load average mismatch''))
      else if pp_Memory po < rm_Memory (cd_ResourceMeta req)
      then (False, Some (ErrMismatch ''memory mismatch''))
      else if pp_Space po < rm_Space (cd_ResourceMeta req)
      then (False, Some (ErrMismatch ''disk space mismatch''))
      else if pp_TokenType po \<noteq> cd_TokenType req
      then (False, Some (ErrMismatch ''token type mismatch''))
      else (True, None))"

definition new_miner :: "ProviderProfile \<Rightarrow> MinerInfo" where
  "new_miner po =
     \<lparr> mn_Address = pp_Provider po, mn_NodeID = pp_NodeID po, mn_Name = '''', mn_PendingIncome = 0,
       mn_ReceivedIncome = 0, mn_UserArrears = [], mn_Deposit = pp_Deposit po, mn_Status = 0,
       mn_EncryptionKey = '''' \<rparr>"

definition filterAndAppendMiner ::
    "MinerInfo list \<Rightarrow> ProviderProfile \<Rightarrow> CreateDatabaseHeader \<Rightarrow> AccountAddress \<Rightarrow>
     MinerInfo list \<times> bp_error option" where
  "filterAndAppendMiner miners po req user =
     (if \<not> isProviderUserMatch (pp_TargetUser po) user then (miners, Some ErrMinerUserNotMatch)
      else case isProviderReqMatch po req of
        (False, err) \<Rightarrow> (miners, err)
      | (True, err) \<Rightarrow> (miners @ [new_miner po], err))"

text \<open>
  The loop over the target miners of a request: it stops when enough miners
  match, and leaves the error of its last iteration.
\<close>

fun match_targets ::
    "metaState \<Rightarrow> CreateDatabaseHeader \<Rightarrow> AccountAddress \<Rightarrow> nat \<Rightarrow> AccountAddress list \<Rightarrow>
     MinerInfo list \<Rightarrow> bp_error option \<Rightarrow> MinerInfo list \<times> bp_error option" where
  "match_targets s tx sender minerCount [] miners err = (miners, err)"
| "match_targets s tx sender minerCount (m # ms) miners err =
     (case loadProviderObject s m of
        None \<Rightarrow> match_targets s tx sender minerCount ms miners (Some ErrNoSuchMiner)
      | Some po \<Rightarrow>
          (case filterAndAppendMiner miners po tx sender of (miners, err) \<Rightarrow>
             if length miners = minerCount then (miners, err)
             else match_targets s tx sender minerCount ms miners err))"

definition allProviderMap ::
    "metaState \<Rightarrow> AccountAddress list \<Rightarrow> (AccountAddress, ProviderProfile) gomap" where
  "allProviderMap s targets =
     fold mdel targets
       (commit_map (dx_provider (ms_dirty s))
         (fold (\<lambda>(k, v). mput k v) (ix_provider (ms_readonly s)) []))"

text \<open>\<open>sort.Slice\<close> with \<open>MinerInfos.Less\<close>: by node id, as byte strings.\<close>

definition filterNMiners ::
    "metaState \<Rightarrow> CreateDatabaseHeader \<Rightarrow> AccountAddress \<Rightarrow> nat \<Rightarrow> (bp_error, MinerInfo list) res" where
  "filterNMiners s tx user minerCount =
     (let newMiners = fold (\<lambda>(_, po) ms. fst (filterAndAppendMiner ms po tx user))
            (allProviderMap s (rm_TargetMiners (cd_ResourceMeta tx))) []
      in if length newMiners < minerCount then Err ErrNoEnoughMiner
         else Ok (take minerCount (sort_key mn_NodeID newMiners)))"

definition select_miners ::
    "metaState \<Rightarrow> CreateDatabaseHeader \<Rightarrow> AccountAddress \<Rightarrow> nat \<Rightarrow>
     (bp_error option, MinerInfo list) res" where
  "select_miners s tx sender minerCount =
     (let targets = rm_TargetMiners (cd_ResourceMeta tx) in
      case match_targets s tx sender minerCount targets [] None of (miners, err) \<Rightarrow>
        if length miners < minerCount then
          if length targets \<ge> minerCount then Err (errors_Wrap err)
          else (case filterNMiners s tx sender (minerCount - length miners) of
                  Ok newMiners \<Rightarrow> Ok (miners @ newMiners)
                | Err e \<Rightarrow> Err (Some e)
                | Panic \<Rightarrow> Panic)
        else Ok miners)"

section \<open>Creating a database\<close>

text \<open>\<open>generateGenesisBlock\<close>, with \<open>PackAsGenesis\<close> and \<open>ComputeHash\<close>.\<close>

definition generateGenesisBlock :: "tx_env \<Rightarrow> Time \<Rightarrow> (bp_error, SignedHeader) res" where
  "generateGenesisBlock E timestamp =
     (let h = \<lparr> hd_Version = 0x01000000, hd_Producer = rawNodeID_ToNodeID (Some zero_hash),
                hd_GenesisHash = zero_hash, hd_ParentHash = zero_hash, hd_MerkleRoot = zero_hash,
                hd_Timestamp = timestamp \<rparr>
      in case hsv_SetHash (THashH E) (marshal_Header E h) zero_hsv of
           (hsv, Ok _) \<Rightarrow> Ok \<lparr> sh_Header = h, sh_HSV = hsv \<rparr>
         | (_, Err _) \<Rightarrow> Err ErrGenesisHash
         | (_, Panic) \<Rightarrow> Panic)"

text \<open>
  After the miners are chosen: charge the sender, build the genesis block, and
  store the database and its account. A nil error of the selection ends the
  function with success and nothing done.
\<close>

definition new_sqlchain ::
    "CreateDatabaseHeader \<Rightarrow> AccountAddress \<Rightarrow> u64 \<Rightarrow> MinerInfo list \<Rightarrow> DatabaseID \<Rightarrow> AccountAddress \<Rightarrow>
     bytes \<Rightarrow> SQLChainProfile" where
  "new_sqlchain tx sender minAdvancePayment miners dbID dbAddr enc =
     \<lparr> sc_ID = dbID, sc_Address = dbAddr, sc_Period = sqlchainPeriod, sc_GasPrice = cd_GasPrice tx,
       sc_LastUpdatedHeight = 0, sc_TokenType = Particle, sc_Owner = sender, sc_Miners = miners,
       sc_Users =
         [\<lparr> su_Address = sender, su_Permission = Some (UserPermissionFromRole Admin),
            su_AdvancePayment = cd_AdvancePayment tx, su_Arrears = 0,
            su_Deposit = minAdvancePayment, su_Status = Normal \<rparr>],
       sc_EncodedGenesis = enc, sc_Meta = cd_ResourceMeta tx \<rparr>"

definition store_database :: "AccountAddress \<Rightarrow> SQLChainProfile \<Rightarrow> unit meta_op" where
  "store_database dbAddr sp s =
     (if loadSQLChainObject s (sc_ID sp) \<noteq> None then (s, Err ErrDatabaseExists)
      else
        (fold (\<lambda>m. deleteProviderObject (mn_Address m)) (sc_Miners sp)
           (put_database (sc_ID sp) (Some sp)
             (put_account dbAddr (Some (empty_account dbAddr)) s)), Ok ()))"

definition create_database ::
    "tx_env \<Rightarrow> CreateDatabaseHeader \<Rightarrow> Time \<Rightarrow> AccountAddress \<Rightarrow> u64 \<Rightarrow> MinerInfo list \<Rightarrow> unit meta_op" where
  "create_database E tx timestamp sender minAdvancePayment miners =
     (let dbID = FromAccountAndNonce (THashH E) (cd_Owner tx) (cd_Nonce tx) in
      op_bind (op_lift (case databaseID_AccountAddress dbID of
                          Ok a \<Rightarrow> Ok a | Err _ \<Rightarrow> Err ErrDatabaseID | Panic \<Rightarrow> Panic)) (\<lambda>dbAddr.
      op_bind (op_lift (safeAdd minAdvancePayment (cd_AdvancePayment tx))) (\<lambda>all.
      op_bind (decreaseAccountToken sender all (cd_TokenType tx)) (\<lambda>_.
      op_bind (op_lift (generateGenesisBlock E timestamp)) (\<lambda>gb.
      op_bind (op_lift (case encode_genesis_block E gb of None \<Rightarrow> Err ErrEncode | Some enc \<Rightarrow> Ok enc))
        (\<lambda>enc. store_database dbAddr
                 (new_sqlchain tx sender minAdvancePayment miners dbID dbAddr enc)))))))"

definition matchProvidersWithUser ::
    "tx_env \<Rightarrow> CreateDatabaseHeader \<Rightarrow> Time \<Rightarrow> HashSignVerifier \<Rightarrow> unit meta_op" where
  "matchProvidersWithUser E tx timestamp i =
     op_bind (op_sender E i) (\<lambda>sender s.
       if sender \<noteq> cd_Owner tx then (s, Err ErrInvalidSender)
       else if cd_GasPrice tx = 0 then (s, Err ErrInvalidGasPrice)
       else if rm_Node (cd_ResourceMeta tx) = 0 then (s, Err ErrInvalidMinerCount)
       else
         let minerCount = ucast (rm_Node (cd_ResourceMeta tx)) :: u64;
             minAdvancePayment = minDeposit E (cd_GasPrice tx) minerCount
         in if cd_AdvancePayment tx < minAdvancePayment then (s, Err ErrInsufficientAdvancePayment)
            else (case select_miners s tx sender (unat minerCount) of
                    Err None \<Rightarrow> (s, Ok ())
                  | Err (Some e) \<Rightarrow> (s, Err e)
                  | Panic \<Rightarrow> (s, Panic)
                  | Ok miners \<Rightarrow> create_database E tx timestamp sender minAdvancePayment miners s))"

section \<open>Permissions and keys\<close>

text \<open>
  The scan of the users: the number of super users and the last index of the
  target user, or \<open>None\<close> when the sender is met without super permission.
\<close>

fun scan_users ::
    "AccountAddress \<Rightarrow> AccountAddress \<Rightarrow> nat \<Rightarrow> SQLChainUser list \<Rightarrow> nat \<Rightarrow> nat option \<Rightarrow>
     (nat \<times> nat option) option" where
  "scan_users sender target i [] numOfSuperUsers targetUserIndex =
     Some (numOfSuperUsers, targetUserIndex)"
| "scan_users sender target i (u # us) numOfSuperUsers targetUserIndex =
     (if sender = su_Address u \<and> \<not> HasSuperPermission (su_Permission u) then None
      else scan_users sender target (i + 1) us
        (if HasSuperPermission (su_Permission u) then numOfSuperUsers + 1 else numOfSuperUsers)
        (if target = su_Address u then Some i else targetUserIndex))"

definition set_permission ::
    "UpdatePermissionHeader \<Rightarrow> nat option \<Rightarrow> SQLChainUser list \<Rightarrow> SQLChainUser list" where
  "set_permission tx targetUserIndex users =
     (case targetUserIndex of
        None \<Rightarrow> users @ [new_user (uh_TargetUser tx) (uh_Permission tx)]
      | Some i \<Rightarrow> users[i := (users ! i) \<lparr> su_Permission := uh_Permission tx \<rparr>])"

definition updatePermission ::
    "tx_env \<Rightarrow> UpdatePermissionHeader \<Rightarrow> HashSignVerifier \<Rightarrow> unit meta_op" where
  "updatePermission E tx i =
     op_bind (op_sender E i) (\<lambda>sender s.
       let dbID = address_DatabaseID (uh_TargetSQLChain tx) in
       case loadSQLChainObject s dbID of
         None \<Rightarrow> (s, Err ErrDatabaseNotFound)
       | Some so \<Rightarrow>
           (case scan_users sender (uh_TargetUser tx) 0 (sc_Users so) 0 None of
              None \<Rightarrow> (s, Err ErrAccountPermissionDeny)
            | Some (numOfSuperUsers, targetUserIndex) \<Rightarrow>
                if numOfSuperUsers \<le> 1 \<and> uh_TargetUser tx = sender \<and>
                   \<not> HasSuperPermission (uh_Permission tx)
                then (s, Err ErrNoSuperUserLeft)
                else
                  (put_database dbID (Some (so \<lparr> sc_Users :=
                     set_permission tx targetUserIndex (sc_Users so) \<rparr>)) s, Ok ())))"

definition keyMap :: "MinerKey list \<Rightarrow> (AccountAddress, string) gomap" where
  "keyMap keys = fold (\<lambda>k. mput (mk_Miner k) (mk_EncryptionKey k)) keys []"

definition with_keys :: "MinerKey list \<Rightarrow> SQLChainProfile \<Rightarrow> SQLChainProfile" where
  "with_keys keys so =
     so \<lparr> sc_Miners := map (\<lambda>miner. case mget (keyMap keys) (mn_Address miner) of
            Some key \<Rightarrow> miner \<lparr> mn_EncryptionKey := key \<rparr> | None \<Rightarrow> miner) (sc_Miners so) \<rparr>"

text \<open>The copy with the new keys is built and then dropped: nothing stores it.\<close>

definition updateKeys :: "tx_env \<Rightarrow> IssueKeysHeader \<Rightarrow> HashSignVerifier \<Rightarrow> unit meta_op" where
  "updateKeys E tx i s =
     (let sender = signee_address E i in
      case loadSQLChainObject s (address_DatabaseID (ik_TargetSQLChain tx)) of
        None \<Rightarrow> (s, Err ErrDatabaseNotFound)
      | Some so \<Rightarrow>
          (case find (\<lambda>user. sender = su_Address user) (sc_Users so) of
             Some user \<Rightarrow>
               if \<not> HasSuperPermission (su_Permission user) then (s, Err ErrAccountPermissionDeny)
               else let so = with_keys (ik_MinerKeys tx) so in (s, Ok ())
           | None \<Rightarrow> let so = with_keys (ik_MinerKeys tx) so in (s, Ok ())))"

section \<open>Billing\<close>

definition get0 :: "('k, u64) gomap \<Rightarrow> 'k \<Rightarrow> u64" where
  "get0 m k = (case mget m k of Some v \<Rightarrow> v | None \<Rightarrow> 0)"

definition cost_map :: "UserCost list \<Rightarrow> (AccountAddress, u64) gomap" where
  "cost_map users = fold (\<lambda>u. mput (uc_User u) (uc_Cost u)) users []"

definition add_incomes ::
    "MinerIncome list \<Rightarrow> (AccountAddress, u64) gomap \<Rightarrow> (AccountAddress, u64) gomap" where
  "add_incomes incomes m =
     fold (\<lambda>mi m. mput (mi_Miner mi) (get0 m (mi_Miner mi) + mi_Income mi) m) incomes m"

definition user_map :: "UserCost list \<Rightarrow> (AccountAddress, (AccountAddress, u64) gomap) gomap" where
  "user_map users =
     fold (\<lambda>u m. mput (uc_User u)
              (add_incomes (uc_Miners u) (case mget m (uc_User u) of Some im \<Rightarrow> im | None \<Rightarrow> [])) m)
       users []"

text \<open>\<open>userMap[user][miner]\<close>; reading a nil map gives zero.\<close>

definition user_income ::
    "(AccountAddress, (AccountAddress, u64) gomap) gomap \<Rightarrow> AccountAddress \<Rightarrow> AccountAddress \<Rightarrow> u64" where
  "user_income um user miner =
     (case mget um user of Some im \<Rightarrow> get0 im miner | None \<Rightarrow> 0)"

definition settle_pending :: "MinerInfo \<Rightarrow> MinerInfo" where
  "settle_pending miner =
     miner \<lparr> mn_ReceivedIncome := mn_ReceivedIncome miner + mn_PendingIncome miner,
             mn_PendingIncome := 0 \<rparr>"

text \<open>
  A user who cannot pay in full: the arrears entries of one miner for that user,
  and what is added to the user's own arrears.
\<close>

fun add_arrears :: "AccountAddress \<Rightarrow> u64 \<Rightarrow> UserArrears list \<Rightarrow> UserArrears list \<times> u64 \<times> bool" where
  "add_arrears user diff [] = ([], 0, False)"
| "add_arrears user diff (a # as) =
     (case add_arrears user diff as of (as', added, exist) \<Rightarrow>
        if ua_User a = user then (a \<lparr> ua_Arrears := ua_Arrears a + diff \<rparr> # as', added + diff, True)
        else (a # as', added, exist))"

definition bill_share :: "tx_env \<Rightarrow> u64 \<Rightarrow> rat \<Rightarrow> u64" where
  "bill_share E income rate = u64_of_f64 (float_overflow E) (f64_mul (f64_of_u64 income) rate)"

definition bill_miner_partly ::
    "tx_env \<Rightarrow> AccountAddress \<Rightarrow> u64 \<Rightarrow> rat \<Rightarrow> MinerInfo \<Rightarrow> MinerInfo \<times> u64" where
  "bill_miner_partly E user income rate miner =
     (let minerIncome = bill_share E income rate;
          diff = income - minerIncome;
          miner = miner \<lparr> mn_PendingIncome := mn_PendingIncome miner + minerIncome \<rparr>
      in case add_arrears user diff (mn_UserArrears miner) of (as, added, exist) \<Rightarrow>
           if exist then (miner \<lparr> mn_UserArrears := as \<rparr>, added)
           else (miner \<lparr> mn_UserArrears := as @ [\<lparr> ua_User = user, ua_Arrears = diff \<rparr>] \<rparr>, diff))"

fun bill_miners_partly ::
    "tx_env \<Rightarrow> AccountAddress \<Rightarrow> (AccountAddress \<Rightarrow> u64) \<Rightarrow> rat \<Rightarrow> MinerInfo list \<Rightarrow> u64 \<Rightarrow>
     MinerInfo list \<times> u64" where
  "bill_miners_partly E user income rate [] arrears = ([], arrears)"
| "bill_miners_partly E user income rate (m # ms) arrears =
     (case bill_miner_partly E user (income (mn_Address m)) rate m of (m', added) \<Rightarrow>
      case bill_miners_partly E user income rate ms (arrears + added) of (ms', arrears') \<Rightarrow>
        (m' # ms', arrears'))"

definition bill_user ::
    "tx_env \<Rightarrow> u64 \<Rightarrow> u64 \<Rightarrow> (AccountAddress \<Rightarrow> u64) \<Rightarrow> SQLChainUser \<Rightarrow> MinerInfo list \<Rightarrow>
     SQLChainUser \<times> MinerInfo list" where
  "bill_user E gasPrice cost income user miners =
     (if su_AdvancePayment user \<ge> cost * gasPrice then
        (user \<lparr> su_AdvancePayment := su_AdvancePayment user - cost * gasPrice \<rparr>,
         map (\<lambda>m. m \<lparr> mn_PendingIncome := mn_PendingIncome m + income (mn_Address m) * gasPrice \<rparr>) miners)
      else
        let rate = f64_div (f64_of_u64 (su_AdvancePayment user)) (f64_of_u64 (cost * gasPrice)) in
        case bill_miners_partly E (su_Address user) (\<lambda>m. income m * gasPrice) rate miners
               (su_Arrears user) of
          (miners, arrears) \<Rightarrow>
            (user \<lparr> su_AdvancePayment := 0, su_Status := Arrears, su_Arrears := arrears \<rparr>, miners))"

fun bill_users ::
    "tx_env \<Rightarrow> u64 \<Rightarrow> (AccountAddress \<Rightarrow> u64) \<Rightarrow> (AccountAddress \<Rightarrow> AccountAddress \<Rightarrow> u64) \<Rightarrow>
     SQLChainUser list \<Rightarrow> MinerInfo list \<Rightarrow> SQLChainUser list \<times> MinerInfo list" where
  "bill_users E gasPrice cost income [] miners = ([], miners)"
| "bill_users E gasPrice cost income (u # us) miners =
     (case bill_user E gasPrice (cost (su_Address u)) (income (su_Address u)) u miners of
        (u', miners) \<Rightarrow>
          (case bill_users E gasPrice cost income us miners of (us', miners) \<Rightarrow> (u' # us', miners)))"

definition updateBilling ::
    "tx_env \<Rightarrow> UpdateBillingHeader \<Rightarrow> HashSignVerifier \<Rightarrow> unit meta_op" where
  "updateBilling E tx i s =
     (let dbID = address_DatabaseID (ub_Receiver tx) in
      case loadSQLChainObject s dbID of
        None \<Rightarrow> (s, Err ErrDatabaseNotFound)
      | Some newProfile \<Rightarrow>
          if ub_Version tx > 0 \<and>
             (ub_From tx \<ge> ub_To tx \<or> sc_LastUpdatedHeight newProfile \<noteq> ub_From tx)
          then (s, Err ErrInvalidRange)
          else if sc_GasPrice newProfile = 0 then (s, Ok ())
          else if \<not> (\<exists>miner \<in> set (sc_Miners newProfile). mn_Address miner = signee_address E i)
          then (s, Err ErrInvalidSender)
          else
            (case bill_users E (sc_GasPrice newProfile) (get0 (cost_map (ub_Users tx)))
                    (user_income (user_map (ub_Users tx))) (sc_Users newProfile)
                    (map settle_pending (sc_Miners newProfile)) of
               (users, miners) \<Rightarrow>
                 (put_database dbID (Some (newProfile \<lparr> sc_Users := users, sc_Miners := miners,
                    sc_LastUpdatedHeight := ub_To tx \<rparr>)) s, Ok ())))"

definition loadROSQLChains :: "metaState \<Rightarrow> AccountAddress \<Rightarrow> SQLChainProfile list" where
  "loadROSQLChains s addr =
     concat (map (\<lambda>(_, db). map (\<lambda>_. db) (filter (\<lambda>miner. mn_Address miner = addr) (sc_Miners db)))
       (ix_databases (ms_readonly s)))"

section \<open>Transfers to a database\<close>

text \<open>
  The loop over one miner's arrears entries: \<open>i\<close> counts the entries of other users
  met so far, and the amount added is the one at index \<open>i\<close>. The list the loop
  builds is not stored.
\<close>

fun pay_miner :: "AccountAddress \<Rightarrow> UserArrears list \<Rightarrow> nat \<Rightarrow> UserArrears list \<Rightarrow> u64 \<Rightarrow> u64" where
  "pay_miner user all i [] pending = pending"
| "pay_miner user all i (ua # uas) pending =
     (if ua_User ua = user then pay_miner user all i uas (pending + ua_Arrears (all ! i))
      else pay_miner user all (i + 1) uas pending)"

definition pay_arrears :: "AccountAddress \<Rightarrow> MinerInfo \<Rightarrow> MinerInfo" where
  "pay_arrears user miner =
     miner \<lparr> mn_PendingIncome :=
       pay_miner user (mn_UserArrears miner) 0 (mn_UserArrears miner) (mn_PendingIncome miner) \<rparr>"

text \<open>
  What a transfer of \<open>amount\<close> does to the user and the miners, and the amount left
  after the arrears: the code sets the user's arrears to zero before it subtracts
  them.
\<close>

definition settle_user ::
    "SQLChainUser \<Rightarrow> MinerInfo list \<Rightarrow> u64 \<Rightarrow> u64 \<Rightarrow>
     (bp_error, SQLChainUser \<times> MinerInfo list \<times> u64 \<times> u64) res" where
  "settle_user user miners amount balance =
     (if su_Arrears user > 0 then
        if su_Arrears user \<le> amount then
          let miners = map (pay_arrears (su_Address user)) miners;
              user = user \<lparr> su_Arrears := 0, su_Status := Normal \<rparr>
          in Ok (user, miners, amount - su_Arrears user, balance - su_Arrears user)
        else Err ErrInsufficientTransfer
      else Ok (user, miners, amount, balance))"

definition deposit_user ::
    "u64 \<Rightarrow> u64 \<Rightarrow> SQLChainUser \<Rightarrow> (bp_error, SQLChainUser) res" where
  "deposit_user minDep amount user =
     (if su_Deposit user < minDep then
        let diff = minDep - su_Deposit user in
        if diff \<ge> amount then Ok (user \<lparr> su_Deposit := su_Deposit user + amount \<rparr>)
        else Ok (user \<lparr> su_Deposit := minDep,
                        su_AdvancePayment := su_AdvancePayment user + (amount - diff) \<rparr>)
      else (case safeAdd (su_AdvancePayment user) amount of
              Ok a \<Rightarrow> Ok (user \<lparr> su_AdvancePayment := a \<rparr>) | Err e \<Rightarrow> Err e | Panic \<Rightarrow> Panic))"

definition restore_status :: "u64 \<Rightarrow> SQLChainUser \<Rightarrow> SQLChainUser" where
  "restore_status minDep user =
     (if \<not> EnableQuery (su_Status user) \<and> su_AdvancePayment user > minDep
      then user \<lparr> su_Status := Normal \<rparr> else user)"

definition transferSQLChainTokenBalance ::
    "tx_env \<Rightarrow> TransferHeader \<Rightarrow> HashSignVerifier \<Rightarrow> unit meta_op" where
  "transferSQLChainTokenBalance E transfer i s =
     (if hv_Signee i = None then (s, Err ErrInvalidSender)
      else op_bind (op_sender E i) (\<lambda>realSender s.
        if realSender \<noteq> tr_Sender transfer then (s, Err ErrInvalidSender)
        else
          let dbID = address_DatabaseID (tr_Receiver transfer) in
          case loadSQLChainObject s dbID of
            None \<Rightarrow> (s, Err ErrDatabaseNotFound)
          | Some sqlchain \<Rightarrow>
              if sc_TokenType sqlchain \<noteq> tr_TokenType transfer then (s, Err ErrWrongTokenType)
              else
                (case loadAccountObject s realSender of
                   None \<Rightarrow> (s, Panic)
                 | Some account \<Rightarrow>
                     (case tb_get (ac_TokenBalance account) (tr_TokenType transfer) of
                        None \<Rightarrow> (s, Panic)
                      | Some balance \<Rightarrow>
                          if balance < tr_Amount transfer then (s, Err ErrInsufficientBalance)
                          else
                            (case find (\<lambda>j. su_Address (sc_Users sqlchain ! j) = tr_Sender transfer)
                                    [0..<length (sc_Users sqlchain)] of
                               None \<Rightarrow> (s, Ok ())
                             | Some j \<Rightarrow>
                                 op_bind (op_lift (settle_user (sc_Users sqlchain ! j)
                                   (sc_Miners sqlchain) (tr_Amount transfer) balance))
                                 (\<lambda>(user, miners, amount, balance).
                                 let minDep = minDeposit E (sc_GasPrice sqlchain)
                                                (of_nat (length (sc_Miners sqlchain))) in
                                 op_bind (op_lift (deposit_user minDep amount user)) (\<lambda>user s.
                                   (put_account realSender (Some (account \<lparr> ac_TokenBalance :=
                                      tb_set (ac_TokenBalance account) (tr_TokenType transfer)
                                        (balance - amount) \<rparr>))
                                     (put_database dbID (Some (sqlchain \<lparr>
                                        sc_Users := (sc_Users sqlchain)[j := restore_status minDep user],
                                        sc_Miners := miners \<rparr>)) s), Ok ()))) s)))) s)"

section \<open>Applying a transaction\<close>

fun applyTransaction :: "tx_env \<Rightarrow> Transaction \<Rightarrow> u32 \<Rightarrow> unit meta_op" where
  "applyTransaction E (Transfer t _ i) height s =
     (case transferSQLChainTokenBalance E t i s of
        (s, Err ErrDatabaseNotFound) \<Rightarrow> transferAccountToken E t i s
      | r \<Rightarrow> r)"
| "applyTransaction E (BaseAccount a _) height s = storeBaseAccount (ac_Address a) a s"
| "applyTransaction E (ProvideService t _ i) height s = updateProviderList E t i height s"
| "applyTransaction E (CreateDatabase t m i) height s =
     matchProvidersWithUser E t (mx_Timestamp m) i s"
| "applyTransaction E (UpdatePermission t _ i) height s = updatePermission E t i s"
| "applyTransaction E (IssueKeys t _ i) height s = updateKeys E t i s"
| "applyTransaction E (UpdateBilling t _ i) height s = updateBilling E t i s"
| "applyTransaction E (TransactionWrapper t) height s = applyTransaction E t height s"

definition meta_apply :: "tx_env \<Rightarrow> Transaction \<Rightarrow> u32 \<Rightarrow> unit meta_op" where
  "meta_apply E t height s =
     (let addr = GetAccountAddress E t; nonce = GetAccountNonce t; ttype = GetTransactionType t in
      case (case nextNonce s addr of
              Err e \<Rightarrow> if ttype \<noteq> TransactionTypeBaseAccount then Err e else Ok 0
            | r \<Rightarrow> r) of
        Err e \<Rightarrow> (s, Err e)
      | Panic \<Rightarrow> (s, Panic)
      | Ok expected \<Rightarrow>
          if expected \<noteq> nonce then (s, Err ErrInvalidAccountNonce)
          else op_bind (applyTransaction E t height) (\<lambda>_. increaseNonce addr) s)"

section \<open>Every transaction keeps the state well-formed\<close>

lemma op_inv_bind:
  "op_triple I m (\<lambda>_. I) I \<Longrightarrow> (\<And>x. op_triple I (f x) (\<lambda>_. I) I) \<Longrightarrow> op_triple I (op_bind m f) (\<lambda>_. I) I"
  by (rule op_bind_triple)

lemma op_inv_lift: "op_triple I (op_lift r) (\<lambda>_. I) I"
  by (rule op_lift_triple)

lemma op_inv_sender: "op_triple I (op_sender E i) (\<lambda>_. I) I"
  by (auto simp: op_triple_def op_sender_def split: res.splits)

lemma op_invI:
  "(\<And>s. I s \<Longrightarrow> I (fst (m s))) \<Longrightarrow> op_triple I m (\<lambda>_. I) I"
  by (auto simp: op_triple_def split: res.splits) (metis fst_conv)+

lemma op_invD: "op_triple I m (\<lambda>_. I) I \<Longrightarrow> I s \<Longrightarrow> I (fst (m s))"
  by (rule op_triple_all)

text \<open>
  What a transfer to a database can do: nothing, or settle the account of the
  first user with the sender's address.
\<close>

lemma transferSQLChain_cases:
  assumes "transferSQLChainTokenBalance E tx i s = (s', r)"
  shows "s' = s \<or>
    r = Ok () \<and> PubKeyHash (THashH E) (hv_Signee i) = Ok (tr_Sender tx) \<and>
    (\<exists>db acct bal j user miners amount bal' user'.
      loadSQLChainObject s (address_DatabaseID (tr_Receiver tx)) = Some db \<and>
      loadAccountObject s (tr_Sender tx) = Some acct \<and>
      tb_get (ac_TokenBalance acct) (tr_TokenType tx) = Some bal \<and> tr_Amount tx \<le> bal \<and>
      j < length (sc_Users db) \<and> su_Address (sc_Users db ! j) = tr_Sender tx \<and>
      (\<forall>k < j. su_Address (sc_Users db ! k) \<noteq> tr_Sender tx) \<and>
      settle_user (sc_Users db ! j) (sc_Miners db) (tr_Amount tx) bal = Ok (user, miners, amount, bal') \<and>
      deposit_user (minDeposit E (sc_GasPrice db) (of_nat (length (sc_Miners db)))) amount user = Ok user' \<and>
      s' = put_account (tr_Sender tx) (Some (acct \<lparr> ac_TokenBalance :=
              tb_set (ac_TokenBalance acct) (tr_TokenType tx) (bal' - amount) \<rparr>))
           (put_database (address_DatabaseID (tr_Receiver tx)) (Some (db \<lparr>
              sc_Users := (sc_Users db)[j := restore_status
                (minDeposit E (sc_GasPrice db) (of_nat (length (sc_Miners db)))) user'],
              sc_Miners := miners \<rparr>)) s))"
proof -
  have find: "find (\<lambda>j. su_Address (us ! j) = a) [0..<length us] = Some j \<Longrightarrow>
      j < length us \<and> su_Address (us ! j) = a \<and> (\<forall>k < j. su_Address (us ! k) \<noteq> a)" for us j a
    by (auto simp: find_Some_iff)
  show ?thesis
    using assms
    by (simp add: transferSQLChainTokenBalance_def op_bind_def op_lift_def op_sender_def Let_def
        split: if_splits res.splits option.splits prod.splits)
      (use find in \<open>force simp: not_less\<close>)+
qed

context account_pred
begin

lemma load_database: "acc_inv A s \<Longrightarrow> loadSQLChainObject s d = Some b \<Longrightarrow> sc_ID b = d"
  unfolding acc_inv_def by (blast intro: wf_load(2))

lemma delete_providers:
  "acc_inv A s \<Longrightarrow> acc_inv A (fold (\<lambda>m. deleteProviderObject (f m)) ms s)"
proof (induction ms arbitrary: s)
  case (Cons m ms)
  then show ?case by (auto simp: deleteProviderObject_def intro!: Cons.IH put_provider)
qed simp

lemma refund: "op_triple (acc_inv A) (refund_provider k) (\<lambda>_. acc_inv A) (acc_inv A)"
proof (rule op_invI)
  fix s
  assume I: "acc_inv A s"
  have body: "op_triple (acc_inv A) (op_bind (increaseAccountStableBalance k d) (\<lambda>_ s.
            (deleteProviderObject k s, Ok ()))) (\<lambda>_. acc_inv A) (acc_inv A)" for d
    unfolding increaseAccountStableBalance_def
    by (intro op_inv_bind tokens op_pure_triple) (auto simp: deleteProviderObject_def intro!: put_provider)
  show "acc_inv A (fst (refund_provider k s))"
    using I op_invD [OF body I]
    by (simp add: refund_provider_def split: option.splits)
qed

lemma provide_service:
  "op_triple (acc_inv A) (updateProviderList E tx i h) (\<lambda>_. acc_inv A) (acc_inv A)"
proof -
  have first: "op_triple (acc_inv A) (if b then refund_provider k else op_lift (Ok ()))
      (\<lambda>_. acc_inv A) (acc_inv A)" for b k
    by (simp add: refund op_inv_lift)
  show ?thesis
    unfolding updateProviderList_def decreaseAccountStableBalance_def
    by (intro op_inv_bind op_inv_sender first tokens op_pure_triple put_provider) auto
qed

lemma store_db:
  "dbAddr \<in> F \<Longrightarrow> op_triple (acc_inv A) (store_database dbAddr sp) (\<lambda>_. acc_inv A) (acc_inv A)"
  by (rule op_invI)
    (auto simp: store_database_def intro!: delete_providers put_database put_account fresh)

lemma create_db:
  assumes "\<And>a. databaseID_AccountAddress (FromAccountAndNonce (THashH E) (cd_Owner tx) (cd_Nonce tx)) = Ok a \<Longrightarrow> a \<in> F"
  shows "op_triple (acc_inv A) (create_database E tx t k m ms) (\<lambda>_. acc_inv A) (acc_inv A)"
  unfolding create_database_def Let_def
proof (rule op_bind_triple [where Q = "\<lambda>a s. acc_inv A s \<and> a \<in> F"], goal_cases)
  case 1
  show ?case using assms by (intro op_lift_triple) (auto split: res.splits)
next
  case (2 dbAddr)
  show ?case
  proof (cases "dbAddr \<in> F")
    case True
    then show ?thesis by simp (intro op_inv_bind op_inv_lift tokens store_db)
  qed (simp add: op_triple_def)
qed

lemma create_tx:
  assumes "\<And>a. databaseID_AccountAddress (FromAccountAndNonce (THashH E) (cd_Owner tx) (cd_Nonce tx)) = Ok a \<Longrightarrow> a \<in> F"
  shows "op_triple (acc_inv A) (matchProvidersWithUser E tx t i) (\<lambda>_. acc_inv A) (acc_inv A)"
  unfolding matchProvidersWithUser_def
proof (intro op_inv_bind op_inv_sender op_invI, goal_cases)
  case (1 sender s)
  then show ?case
    using op_invD [OF create_db [OF assms] 1]
    by (simp add: Let_def split: res.splits option.splits)
qed

lemma update_permission:
  "op_triple (acc_inv A) (updatePermission E tx i) (\<lambda>_. acc_inv A) (acc_inv A)"
  unfolding updatePermission_def
proof (intro op_inv_bind op_inv_sender op_invI, goal_cases)
  case (1 sender s)
  then show ?case
    using load_database [OF 1] by (auto simp: Let_def intro!: put_database split: option.splits)
qed

lemma update_keys: "op_triple (acc_inv A) (updateKeys E tx i) (\<lambda>_. acc_inv A) (acc_inv A)"
  by (rule op_invI) (auto simp: updateKeys_def Let_def split: option.splits)

lemma update_billing: "op_triple (acc_inv A) (updateBilling E tx i) (\<lambda>_. acc_inv A) (acc_inv A)"
  by (rule op_invI)
    (auto simp: updateBilling_def Let_def intro!: put_database dest: load_database
      split: option.splits prod.splits)

lemma transfer_database:
  "op_triple (acc_inv A) (transferSQLChainTokenBalance E tx i) (\<lambda>_. acc_inv A) (acc_inv A)"
proof (rule op_invI)
  fix s
  assume I: "acc_inv A s"
  obtain s' r where run: "transferSQLChainTokenBalance E tx i s = (s', r)" by fastforce
  show "acc_inv A (fst (transferSQLChainTokenBalance E tx i s))"
    using transferSQLChain_cases [OF run] I load_database [OF I] load_account [OF I]
    by (auto simp: run intro!: put_account put_database balance)
qed

lemma transfer:
  assumes "tr_Receiver tx \<in> F \<or> tr_Receiver tx = tr_Sender tx"
  shows "op_triple (acc_inv A) (applyTransaction E (Transfer tx m i) h) (\<lambda>_. acc_inv A) (acc_inv A)"
proof (rule op_invI)
  fix s
  assume I: "acc_inv A s"
  obtain s' r where run: "transferSQLChainTokenBalance E tx i s = (s', r)" by fastforce
  have I': "acc_inv A s'" using op_invD [OF transfer_database I, of E tx i] by (simp add: run)
  then show "acc_inv A (fst (applyTransaction E (Transfer tx m i) h s))"
    using op_invD [OF transfer_account [OF assms] I', of E i]
    by (auto simp: run split: res.splits bp_error.splits)
qed

end

text \<open>The transaction inside all wrappers, and the address of the database it creates.\<close>

fun inner_tx :: "Transaction \<Rightarrow> Transaction" where
  "inner_tx (TransactionWrapper t) = inner_tx t"
| "inner_tx t = t"

fun created_address :: "tx_env \<Rightarrow> Transaction \<Rightarrow> AccountAddress option" where
  "created_address E (CreateDatabase tx _ _) =
     (case databaseID_AccountAddress (FromAccountAndNonce (THashH E) (cd_Owner tx) (cd_Nonce tx)) of
        Ok a \<Rightarrow> Some a | _ \<Rightarrow> None)"
| "created_address E (TransactionWrapper t) = created_address E t"
| "created_address E _ = None"

fun is_base_account :: "Transaction \<Rightarrow> bool" where
  "is_base_account (BaseAccount _ _) = True"
| "is_base_account (TransactionWrapper t) = is_base_account t"
| "is_base_account _ = False"

text \<open>The lemmas above for every transaction that is not a base account.\<close>

interpretation any_account: account_pred "\<lambda>_ _. True" UNIV
  by unfold_locales auto

interpretation nonce_of: account_pred "\<lambda>k a. k = p \<longrightarrow> ac_NextNonce a = n" "- {p}" for p n
  by unfold_locales auto

lemma acc_inv_True: "acc_inv (\<lambda>_ _. True) = wf_meta"
  by (auto simp: acc_inv_def)

lemma wf_storeBaseAccount:
  assumes "wf_meta s" and "ac_Address v = k"
  shows "wf_meta (fst (storeBaseAccount k v s))"
proof -
  have addr: "ac_Address ao' = ac_Address ao" if "add_balances ao v = Ok ao'" for ao ao'
    using that by (auto split: if_splits TokenBalance.splits res.splits)
  have raw: "dirty_account s k = Some (Some ao) \<Longrightarrow> ac_Address ao = k"
      "ro_account s k = Some ao \<Longrightarrow> ac_Address ao = k" for ao
    using assms(1) unfolding wf_meta_def by blast+
  have key: "find_object (dirty_account s k) (ro_account s k) = FoundDirty ao \<Longrightarrow> ac_Address ao = k"
      "find_object (dirty_account s k) (ro_account s k) = FoundReadonly ao \<Longrightarrow> ac_Address ao = k" for ao
    using raw by (auto simp: find_object_def split: option.splits)
  show ?thesis
  proof (cases "find_object (dirty_account s k) (ro_account s k)")
    case (FoundDirty ao)
    then show ?thesis
      using assms(1) key(1) [OF FoundDirty] addr [of ao]
      by (simp add: storeBaseAccount_def loadOrStoreAccountObject_def wf_put_account
          del: add_balances.simps split: res.splits)
  next
    case (FoundReadonly ao)
    then show ?thesis
      using assms(1) key(2) [OF FoundReadonly] addr [of ao]
      by (simp add: storeBaseAccount_def loadOrStoreAccountObject_def wf_set_ro_account
          del: add_balances.simps split: res.splits)
  next
    case NotFound
    then show ?thesis
      using assms by (simp add: storeBaseAccount_def loadOrStoreAccountObject_def wf_put_account)
  qed
qed

lemma wf_applyTransaction: "wf_meta s \<Longrightarrow> wf_meta (fst (applyTransaction E t h s))"
proof (induction t)
  case (Transfer tx m i)
  then show ?case
    using op_invD [OF any_account.transfer, unfolded acc_inv_True] by simp
next
  case (CreateDatabase tx m i)
  then show ?case
    using op_invD [OF any_account.create_tx, unfolded acc_inv_True] by simp
next
  case (BaseAccount a m)
  then show ?case by (simp add: wf_storeBaseAccount)
qed (use op_invD [OF any_account.provide_service, unfolded acc_inv_True]
    op_invD [OF any_account.update_permission, unfolded acc_inv_True]
    op_invD [OF any_account.update_keys, unfolded acc_inv_True]
    op_invD [OF any_account.update_billing, unfolded acc_inv_True] in auto)

lemma wf_meta_apply: "wf_meta s \<Longrightarrow> wf_meta (fst (meta_apply E t h s))"
proof -
  assume wf: "wf_meta s"
  have inc: "wf_meta s' \<Longrightarrow> wf_meta (fst (increaseNonce k s'))" for s' k
    using op_invD [OF any_account.increase_nonce_wf, unfolded acc_inv_True] by simp
  have "op_triple wf_meta (op_bind (applyTransaction E t h) (\<lambda>_. increaseNonce k))
      (\<lambda>_. wf_meta) wf_meta" for k
    by (intro op_inv_bind op_invI wf_applyTransaction inc)
  from op_invD [OF this wf] show ?thesis
    using wf by (auto simp: meta_apply_def Let_def split: res.splits if_splits)
qed

lemma nonce_applyTransaction:
  assumes "acc_inv (\<lambda>k a. k = p \<longrightarrow> ac_NextNonce a = n) s" and "p = GetAccountAddress E t"
    and "\<not> is_base_account t" and "created_address E t \<noteq> Some p"
  shows "acc_inv (\<lambda>k a. k = p \<longrightarrow> ac_NextNonce a = n) (fst (applyTransaction E t h s))"
  using assms
proof (induction t)
  case (Transfer tx m i)
  then have "tr_Receiver tx \<in> - {p} \<or> tr_Receiver tx = tr_Sender tx" by auto
  from op_invD [OF nonce_of.transfer [OF this]] Transfer show ?case by blast
next
  case (CreateDatabase tx m i)
  then have "a \<in> - {p}"
    if "databaseID_AccountAddress (FromAccountAndNonce (THashH E) (cd_Owner tx) (cd_Nonce tx)) = Ok a" for a
    using that by auto
  from op_invD [OF nonce_of.create_tx [OF this]] CreateDatabase show ?case by simp
next
  case (ProvideService tx m i)
  then show ?case using op_invD [OF nonce_of.provide_service] by simp
next
  case (UpdatePermission tx m i)
  then show ?case using op_invD [OF nonce_of.update_permission] by simp
next
  case (IssueKeys tx m i)
  then show ?case using op_invD [OF nonce_of.update_keys] by simp
next
  case (UpdateBilling tx m i)
  then show ?case using op_invD [OF nonce_of.update_billing] by simp
qed auto

end
