(* ===== verification/Meta_Properties.thy ===== *)
theory Meta_Properties
  imports Meta_Apply
begin

text \<open>
  What the transactions do to the main chain's state: the invariant of every
  reachable state, replay protection, the administration of databases, billing,
  and the selection of miners.
\<close>

section \<open>Reachable states\<close>

text \<open>
  The states a node's \<open>metaState\<close> goes through: transactions applied at some
  height, whatever their result, commits and clean-ups.
\<close>

inductive meta_reachable :: "tx_env \<Rightarrow> metaState \<Rightarrow> bool" for E where
  init: "meta_reachable E newMetaState"
| transaction: "meta_reachable E s \<Longrightarrow> meta_reachable E (fst (meta_apply E t h s))"
| commit: "meta_reachable E s \<Longrightarrow> meta_reachable E (metaState_commit s)"
| clean: "meta_reachable E s \<Longrightarrow> meta_reachable E (metaState_clean s)"
| copy: "meta_reachable E s \<Longrightarrow> meta_reachable E (metaState_makeCopy s)"

lemma meta_reachable_wf: "meta_reachable E s \<Longrightarrow> wf_meta s"
proof (induction rule: meta_reachable.induct)
  case (copy s)
  then show ?case by (simp add: makeCopy_eq wf_clean)
qed (auto simp: wf_meta_apply wf_commit wf_clean)

text \<open>
  C11: in every state a node reaches, by whatever transactions, commits, clean-ups
  and copies, each map has one entry per key, no account pointer is nil, and every
  account, database and provider is stored under the key it carries itself.
\<close>

theorem reachable_well_formed:
  assumes "meta_reachable E s"
  shows "wf_meta s"
  using assms by (rule meta_reachable_wf)

theorem reachable_well_formed_witness:
  "meta_reachable example_env (metaState_commit (fst (meta_apply example_env
      (BaseAccount (example_account [1] 5) \<lparr> mx_TxType = 7, mx_Timestamp = 0 \<rparr>) 0 newMetaState))) \<and>
   wf_meta (metaState_commit (fst (meta_apply example_env
      (BaseAccount (example_account [1] 5) \<lparr> mx_TxType = 7, mx_Timestamp = 0 \<rparr>) 0 newMetaState)))"
  using reachable_well_formed meta_reachable.intros by blast

section \<open>Nonces\<close>

lemma meta_apply_Ok:
  assumes "meta_apply E t h s = (s', Ok ())"
  shows "\<exists>s1. applyTransaction E t h s = (s1, Ok ()) \<and>
    increaseNonce (GetAccountAddress E t) s1 = (s', Ok ()) \<and>
    (nextNonce s (GetAccountAddress E t) = Ok (GetAccountNonce t) \<or>
     (\<exists>e. nextNonce s (GetAccountAddress E t) = Err e) \<and>
       GetTransactionType t = TransactionTypeBaseAccount \<and> GetAccountNonce t = 0)"
  using assms
  by (auto simp: meta_apply_def Let_def op_bind_def split: res.splits if_splits prod.splits)

lemma increaseNonce_load:
  assumes "no_nil_accounts s" and "increaseNonce k s = (s', Ok ())"
  shows "\<exists>a. loadAccountObject s k = Some a \<and>
    loadAccountObject s' k = Some (a \<lparr> ac_NextNonce := ac_NextNonce a + 1 \<rparr>)"
  using assms
  by (cases "dirty_account s k"; cases "ro_account s k")
    (auto simp: increaseNonce_def op_bind_def dirty_account_copy_def load_overlay overlay_view_def
      accounts.dirty_put accounts.ro_put no_nil_accounts_def split: option.splits)

text \<open>
  C1: replay protection. When a transaction other than a base account has been
  applied, the next nonce of its sender is the transaction's nonce plus one, and
  applying the same transaction again, at any height, fails with an invalid nonce
  and leaves the state as it is. (A transaction that creates a database writes a
  new account at the database's address; the hypothesis says that this hash is not
  the sender's own address.)
\<close>

theorem apply_prevents_replay:
  assumes "wf_meta s" and "meta_apply E t h s = (s', Ok ())" and "\<not> is_base_account t"
    and "GetTransactionType t \<noteq> TransactionTypeBaseAccount"
    and "created_address E t \<noteq> Some (GetAccountAddress E t)"
  shows "nextNonce s' (GetAccountAddress E t) = Ok (GetAccountNonce t + 1) \<and>
    meta_apply E t h' s' = (s', Err ErrInvalidAccountNonce)"
proof -
  define p n where pn: "p = GetAccountAddress E t" "n = GetAccountNonce t"
  obtain s1 where s1: "applyTransaction E t h s = (s1, Ok ())" "increaseNonce p s1 = (s', Ok ())"
      "nextNonce s p = Ok n"
    using meta_apply_Ok [OF assms(2)] assms(4) by (auto simp: pn)
  have "acc_inv (\<lambda>k a. k = p \<longrightarrow> ac_NextNonce a = n) s"
    using s1(3) assms(1)
    by (auto simp: acc_inv_def nextNonce_def object_or_panic_load split: option.splits)
  from nonce_applyTransaction [OF this pn(1) assms(3)] assms(5) s1(1)
  have I1: "acc_inv (\<lambda>k a. k = p \<longrightarrow> ac_NextNonce a = n) s1"
    by (metis fst_conv pn(1))
  then have "no_nil_accounts s1" by (simp add: acc_inv_def)
  from increaseNonce_load [OF this s1(2)] I1
  obtain a where a: "loadAccountObject s' p = Some a" "ac_NextNonce a = n + 1"
    by (auto simp: acc_inv_def)
  have "wf_meta s'" using wf_meta_apply [OF assms(1), of E t h] assms(2) by simp
  then have "nextNonce s' p = Ok (n + 1)"
    using a by (simp add: nextNonce_def object_or_panic_load)
  then show ?thesis
    by (simp add: meta_apply_def Let_def flip: pn)
qed

definition example_transfer :: Transaction where
  "example_transfer =
     Transfer \<lparr> tr_Sender = [1], tr_Receiver = [2], tr_Nonce = 0, tr_Amount = 3, tr_TokenType = Particle \<rparr>
       \<lparr> mx_TxType = TransactionTypeTransfer, mx_Timestamp = 0 \<rparr> (example_hsv [1])"

lemmas run_defs = meta_apply_def transferSQLChainTokenBalance_def transferAccountToken_def
  loadOrStoreAccountObject_def find_object_def transfer_object_def object_or_panic_def
  op_bind_def op_lift_def op_sender_def dirty_account_copy_def increaseNonce_def nextNonce_def
  PubKeyHash_def loadSQLChainObject_def loadAccountObject_def loadProviderObject_def
  dirty_defs ro_defs put_defs safeAdd_def safeSub_def Let_def example_defs
  GetTransactionType_def TransactionTypeBaseAccount_def TransactionTypeTransfer_def
  Particle_def Wave_def

lemma wf_example [simp]: "distinct (map ac_Address as) \<Longrightarrow> wf_meta (example_state as)"
  by (auto simp: wf_meta_def meta_inv_def no_nil_accounts_def dirty_defs ro_defs example_defs
      comp_def dest: map_of_SomeD)

theorem apply_prevents_replay_witness:
  "\<exists>s'. meta_apply example_env example_transfer 0 (example_state [example_account [1] 5]) = (s', Ok ()) \<and>
     meta_apply example_env example_transfer 7 s' = (s', Err ErrInvalidAccountNonce)"
proof -
  define s where "s = example_state [example_account [1] 5]"
  have wf: "wf_meta s" by (simp add: s_def)
  obtain s' where run: "meta_apply example_env example_transfer 0 s = (s', Ok ())"
    by (simp add: s_def example_transfer_def run_defs)
  have "meta_apply example_env example_transfer 7 s' = (s', Err ErrInvalidAccountNonce)"
    using apply_prevents_replay [OF wf run, of 7]
    by (simp add: example_transfer_def GetTransactionType_def TransactionTypeBaseAccount_def
        TransactionTypeTransfer_def)
  with run show ?thesis by (auto simp: s_def)
qed

section \<open>Base accounts\<close>

text \<open>
  a base account transaction has no signature and verifies whatever it says,
  and applying one for an existing account that has not sent anything yet adds its
  balances to that account: anyone can create tokens. (No transaction check
  of the chain rejects the type.)
\<close>

theorem base_account_mints:
  assumes "wf_meta s" and "loadAccountObject s (ac_Address v) = Some a" and "ac_NextNonce a = 0"
    and "ac_TokenBalance a = TB p w" and "ac_TokenBalance v = TB vp vw"
    and "unat p + unat vp < 2 ^ 64" and "unat w + unat vw < 2 ^ 64"
  shows "tx_Verify E (BaseAccount v m) = Ok () \<and>
    (\<exists>s'. meta_apply E (BaseAccount v m) h s = (s', Ok ()) \<and>
       balance_of s' Particle (ac_Address v) = balance_of s Particle (ac_Address v) + unat vp \<and>
       balance_of s' Wave (ac_Address v) = balance_of s Wave (ac_Address v) + unat vw)"
proof -
  define k where "k = ac_Address v"
  define a' where "a' = a \<lparr> ac_TokenBalance := TB (p + vp) (w + vw) \<rparr>"
  have sum: "\<not> p + vp < p" "\<not> w + vw < w" "unat (p + vp) = unat p + unat vp" "unat (w + vw) = unat w + unat vw"
    using assms(6,7) by (simp_all add: add_overflow_iff unat_add_exact)
  have add: "add_balances a v = Ok a'"
    using assms(3-5) sum(1,2) by (simp add: safeAdd_def a'_def)
  have nn: "no_nil_accounts s" using assms(1) by simp
  then have found: "find_object (dirty_account s k) (ro_account s k) = FoundDirty a \<or>
      find_object (dirty_account s k) (ro_account s k) = FoundReadonly a \<and> dirty_account s k = None"
    using assms(2)
    by (auto simp: find_object_def load_overlay overlay_view_def no_nil_accounts_def k_def split: option.splits)
  obtain s1 where s1: "storeBaseAccount k v s = (s1, Ok ())" "loadAccountObject s1 k = Some a'"
    using found add
    by (auto simp: storeBaseAccount_def loadOrStoreAccountObject_def simp del: add_balances.simps)
  have wf1: "wf_meta s1"
    using wf_storeBaseAccount [OF assms(1), of v k] s1(1) by (simp add: k_def)
  have next0: "nextNonce s k = Ok 0"
    using nn assms(2,3) by (simp add: nextNonce_def object_or_panic_load k_def)
  obtain s2 where s2: "increaseNonce k s1 = (s2, Ok ())"
      "loadAccountObject s2 k = Some (a' \<lparr> ac_NextNonce := ac_NextNonce a' + 1 \<rparr>)"
    using s1(2) wf_no_nil [OF wf1]
    by (auto simp: increaseNonce_def op_bind_def dirty_account_copy_def load_overlay overlay_view_def
        accounts.dirty_put accounts.ro_put no_nil_accounts_def split: option.splits)
  have "meta_apply E (BaseAccount v m) h s = (s2, Ok ())"
    using next0 s1 s2 by (simp add: meta_apply_def op_bind_def k_def)
  moreover have "balance_of s2 Particle k = unat p + unat vp" "balance_of s2 Wave k = unat w + unat vw"
      "balance_of s Particle k = unat p" "balance_of s Wave k = unat w"
    using s2(2) assms(2,4) sum(3,4) by (simp_all add: balance_of_def a'_def k_def Particle_def Wave_def)
  ultimately show ?thesis by (simp add: k_def)
qed

theorem base_account_mints_witness:
  "\<exists>s'. meta_apply example_env (BaseAccount (example_account [1] 1000) zero_mixin) 0
      (example_state [example_account [1] 5]) = (s', Ok ()) \<and> balance_of s' Particle [1] = 1005"
proof -
  define s where "s = example_state [example_account [1] 5]"
  have load: "loadAccountObject s [1] = Some (example_account [1] 5)"
    by (simp add: s_def run_defs)
  have wf: "wf_meta s" by (simp add: s_def)
  have bal: "balance_of s Particle [1] = 5"
    by (simp add: balance_of_def load example_account_def)
  have "\<exists>s'. meta_apply example_env (BaseAccount (example_account [1] 1000) zero_mixin) 0 s = (s', Ok ()) \<and>
      balance_of s' Particle [1] = balance_of s Particle [1] + unat (1000::u64)"
    using base_account_mints [OF wf, of "example_account [1] 1000" "example_account [1] 5" 5 0 1000 0
        example_env zero_mixin 0] load
    by (auto simp: example_account_def)
  then show ?thesis unfolding bal by (simp add: s_def)
qed

section \<open>Issued keys\<close>

text \<open>
  issuing keys does nothing: the transaction is accepted from a super user (and
  from anyone who is not a user of the database at all), but the state after it is
  the state before it, so the miners' encryption keys it carries are lost.
\<close>

theorem updateKeys_stores_nothing:
  "fst (updateKeys E tx i s) = s \<and>
   (snd (updateKeys E tx i s) = Ok () \<longleftrightarrow>
     (\<exists>so. loadSQLChainObject s (address_DatabaseID (ik_TargetSQLChain tx)) = Some so \<and>
       (case find (\<lambda>user. signee_address E i = su_Address user) (sc_Users so) of
          Some user \<Rightarrow> HasSuperPermission (su_Permission user) | None \<Rightarrow> True)))"
  by (auto simp: updateKeys_def Let_def split: option.splits)

section \<open>Permissions\<close>

lemma scan_users_Some:
  assumes "scan_users sender target i us n t = Some (n', t')"
  shows "n' = n + length (filter (\<lambda>u. HasSuperPermission (su_Permission u)) us) \<and>
    (\<forall>u \<in> set us. su_Address u = sender \<longrightarrow> HasSuperPermission (su_Permission u)) \<and>
    (t' = t \<and> (\<forall>u \<in> set us. su_Address u \<noteq> target) \<or>
     (\<exists>j < length us. t' = Some (i + j) \<and> su_Address (us ! j) = target))"
  using assms
proof (induction us arbitrary: i n t)
  case (Cons u us)
  have ok: "\<not> (sender = su_Address u \<and> \<not> HasSuperPermission (su_Permission u))"
    using Cons.prems by (auto split: if_splits)
  from Cons.IH [of "i + 1"] Cons.prems ok
  have IH: "n' = (if HasSuperPermission (su_Permission u) then n + 1 else n) +
        length (filter (\<lambda>u. HasSuperPermission (su_Permission u)) us)"
      "\<forall>u \<in> set us. su_Address u = sender \<longrightarrow> HasSuperPermission (su_Permission u)"
      "t' = (if target = su_Address u then Some i else t) \<and> (\<forall>u \<in> set us. su_Address u \<noteq> target) \<or>
       (\<exists>j < length us. t' = Some (i + 1 + j) \<and> su_Address (us ! j) = target)"
    by (auto split: if_splits)
  have "t' = t \<and> (\<forall>v \<in> set (u # us). su_Address v \<noteq> target) \<or>
     (\<exists>j < length (u # us). t' = Some (i + j) \<and> su_Address ((u # us) ! j) = target)"
    using IH(3) by (cases "target = su_Address u") (force, force)
  with IH ok show ?case by auto
qed auto

definition has_super_user :: "SQLChainProfile \<Rightarrow> bool" where
  "has_super_user db \<longleftrightarrow> (\<exists>u \<in> set (sc_Users db). HasSuperPermission (su_Permission u))"

lemma filter_update_length:
  assumes "i < length xs"
  shows "length (filter P xs) \<le> Suc (length (filter P (xs[i := y])))"
proof -
  have "xs = take i xs @ xs ! i # drop (Suc i) xs" by (rule id_take_nth_drop [OF assms])
  then have "length (filter P xs) = length (filter P (take i xs @ xs ! i # drop (Suc i) xs))" by simp
  then show ?thesis using assms by (simp add: upd_conv_take_nth_drop)
qed

text \<open>
  C32: as long as permissions are updated by users of the database, it keeps a super
  user: when the sender is one of the users and the update succeeds, the sender had
  super permission, the target has exactly the permission of the transaction, and
  some user still has super permission.
\<close>

theorem updatePermission_keeps_super_user:
  assumes "loadSQLChainObject s dbID = Some db" and "dbID = address_DatabaseID (uh_TargetSQLChain tx)"
    and "u \<in> set (sc_Users db)" and "su_Address u = signee_address E i"
    and "hv_Signee i \<noteq> None" and "updatePermission E tx i s = (s', Ok ())"
  shows "HasSuperPermission (su_Permission u) \<and>
    (\<exists>db'. loadSQLChainObject s' dbID = Some db' \<and> has_super_user db' \<and>
      (\<exists>v \<in> set (sc_Users db'). su_Address v = uh_TargetUser tx \<and> su_Permission v = uh_Permission tx))"
proof -
  define sender where "sender = signee_address E i"
  have send: "op_sender E i s = (s, Ok sender)"
    using assms(5) by (auto simp: op_sender_def sender_def signee_address_def PubKeyHash_def)
  obtain n t where scan: "scan_users sender (uh_TargetUser tx) 0 (sc_Users db) 0 None = Some (n, t)"
      and left: "\<not> (n \<le> 1 \<and> uh_TargetUser tx = sender \<and> \<not> HasSuperPermission (uh_Permission tx))"
      and s': "s' = put_database dbID (Some (db \<lparr> sc_Users := set_permission tx t (sc_Users db) \<rparr>)) s"
    using assms(1,2,6) send
    by (auto simp: updatePermission_def op_bind_def Let_def split: option.splits if_splits)
  note sp = scan_users_Some [OF scan]
  have super: "HasSuperPermission (su_Permission u)" using sp assms(3,4) by (auto simp: sender_def)
  define us' where "us' = set_permission tx t (sc_Users db)"
  have target: "\<exists>v \<in> set us'. su_Address v = uh_TargetUser tx \<and> su_Permission v = uh_Permission tx"
  proof (cases t)
    case None
    then show ?thesis by (simp add: us'_def set_permission_def new_user_def)
  next
    case (Some j)
    then have "j < length (sc_Users db)" "su_Address (sc_Users db ! j) = uh_TargetUser tx"
      using sp by auto
    then show ?thesis
      by (intro bexI [of _ "(sc_Users db ! j) \<lparr> su_Permission := uh_Permission tx \<rparr>"])
        (simp_all add: us'_def Some set_permission_def set_update_memI)
  qed
  have "\<exists>v \<in> set us'. HasSuperPermission (su_Permission v)"
  proof (cases t)
    case None
    then show ?thesis using assms(3) super by (auto simp: us'_def set_permission_def)
  next
    case (Some j)
    then have j: "j < length (sc_Users db)" "su_Address (sc_Users db ! j) = uh_TargetUser tx"
      using sp by auto
    show ?thesis
    proof (cases "HasSuperPermission (uh_Permission tx)")
      case True
      then show ?thesis using target by metis
    next
      case False
      consider "u \<in> set us'" | "su_Address u = uh_TargetUser tx"
        using assms(3) j by (auto simp: us'_def Some set_permission_def in_set_conv_nth nth_list_update) metis
      then show ?thesis
      proof cases
        case 1
        then show ?thesis using super by blast
      next
        case 2
        then have "1 < n" using left False assms(4) by (auto simp: sender_def)
        then have "length (filter (\<lambda>u. HasSuperPermission (su_Permission u)) us') \<noteq> 0"
          using conjunct1 [OF sp] filter_update_length [OF j(1), of "\<lambda>u. HasSuperPermission (su_Permission u)"
              "(sc_Users db ! j) \<lparr> su_Permission := uh_Permission tx \<rparr>"]
          by (auto simp: us'_def Some set_permission_def)
        then show ?thesis by (auto simp: filter_empty_conv)
      qed
    qed
  qed
  then show ?thesis
    using super target by (auto simp: s' has_super_user_def us'_def)
qed

text \<open>A state with one database and the given users, for examples.\<close>

definition example_db :: "SQLChainUser list \<Rightarrow> MinerInfo list \<Rightarrow> SQLChainProfile" where
  "example_db users miners =
     \<lparr> sc_ID = address_DatabaseID zero_hash, sc_Address = zero_hash, sc_Period = 0, sc_GasPrice = 1,
       sc_LastUpdatedHeight = 0, sc_TokenType = Particle, sc_Owner = [1], sc_Miners = miners,
       sc_Users = users, sc_EncodedGenesis = [], sc_Meta = empty_ResourceMeta \<rparr>"

definition example_admin :: "AccountAddress \<Rightarrow> SQLChainUser" where
  "example_admin a = new_user a (Some (UserPermissionFromRole Admin))"

definition example_db_state :: "SQLChainUser list \<Rightarrow> MinerInfo list \<Rightarrow> Account list \<Rightarrow> metaState" where
  "example_db_state users miners as =
     put_database (address_DatabaseID zero_hash) (Some (example_db users miners)) (example_state as)"

lemma wf_example_db:
  "distinct (map ac_Address as) \<Longrightarrow> wf_meta (example_db_state us ms as)"
  by (auto simp: example_db_state_def example_db_def intro!: wf_put_database)

lemma super_Admin [simp]: "HasSuperPermission (Some (UserPermissionFromRole Admin))"
  by (simp add: HasSuperPermission_def UserPermissionFromRole_def Admin_def Read_def Write_def Super_def)

theorem updatePermission_keeps_super_user_witness:
  "\<exists>s' db'. updatePermission example_env
      \<lparr> uh_TargetSQLChain = zero_hash, uh_TargetUser = [2], uh_Permission = None, uh_Nonce = 0 \<rparr>
      (example_hsv [1]) (example_db_state [example_admin [1], example_admin [2]] [] []) = (s', Ok ()) \<and>
    loadSQLChainObject s' (address_DatabaseID zero_hash) = Some db' \<and> has_super_user db'"
proof -
  define s where "s = example_db_state [example_admin [1], example_admin [2]] [] []"
  define tx where "tx = \<lparr> uh_TargetSQLChain = zero_hash, uh_TargetUser = [2::byte],
    uh_Permission = None, uh_Nonce = 0 \<rparr>"
  have load: "loadSQLChainObject s (address_DatabaseID zero_hash) =
      Some (example_db [example_admin [1], example_admin [2]] [])"
    by (simp add: s_def example_db_state_def)
  have sel: "su_Address (example_admin a) = a" "HasSuperPermission (su_Permission (example_admin a))" for a
    by (simp_all add: example_admin_def new_user_def)
  obtain s' where run: "updatePermission example_env tx (example_hsv [1]) s = (s', Ok ())"
    using load
    by (simp add: updatePermission_def tx_def op_bind_def op_sender_def PubKeyHash_def example_env_def
        example_hsv_def example_db_def sel Let_def)
  have "\<exists>db'. loadSQLChainObject s' (address_DatabaseID zero_hash) = Some db' \<and> has_super_user db'"
    using updatePermission_keeps_super_user [OF load _ _ _ _ run, of "example_admin [1]"]
    by (auto simp: tx_def sel example_db_def signee_address_def PubKeyHash_def example_env_def example_hsv_def)
  with run show ?thesis by (auto simp: s_def tx_def)
qed

text \<open>
  a stranger can take over a database: an account that is not one of its users
  may send any permission update that grants super permission, in particular one
  that names itself, and it succeeds. The check of the sender's permission only
  looks at senders who are users.
\<close>

theorem updatePermission_stranger:
  assumes "loadSQLChainObject s (address_DatabaseID (uh_TargetSQLChain tx)) = Some db"
    and "\<forall>u \<in> set (sc_Users db). su_Address u \<noteq> signee_address E i"
    and "hv_Signee i \<noteq> None" and "uh_TargetUser tx = signee_address E i"
    and "HasSuperPermission (uh_Permission tx)"
  shows "\<exists>s' db' u. updatePermission E tx i s = (s', Ok ()) \<and>
    loadSQLChainObject s' (address_DatabaseID (uh_TargetSQLChain tx)) = Some db' \<and>
    u \<in> set (sc_Users db') \<and> su_Address u = signee_address E i \<and> HasSuperPermission (su_Permission u)"
proof -
  define sender where "sender = signee_address E i"
  have send: "op_sender E i s = (s, Ok sender)"
    using assms(3) by (auto simp: op_sender_def sender_def signee_address_def PubKeyHash_def)
  have scan: "\<exists>n'. scan_users sender sender j us n None = Some (n', None)"
    if "\<forall>u \<in> set us. su_Address u \<noteq> sender" for us j n
    using that by (induction us arbitrary: j n) auto
  then obtain n where n: "scan_users sender sender 0 (sc_Users db) 0 None = Some (n, None)"
    using assms(2) unfolding sender_def by metis
  have target: "uh_TargetUser tx = sender" using assms(4) by (simp add: sender_def)
  define db' where "db' = db \<lparr> sc_Users := sc_Users db @ [new_user sender (uh_Permission tx)] \<rparr>"
  have "updatePermission E tx i s =
      (put_database (address_DatabaseID (uh_TargetSQLChain tx)) (Some db') s, Ok ())"
    by (simp add: updatePermission_def op_bind_def send assms(1,5) target n Let_def db'_def
        set_permission_def)
  moreover have "new_user sender (uh_Permission tx) \<in> set (sc_Users db')" by (simp add: db'_def)
  moreover have "su_Address (new_user sender (uh_Permission tx)) = sender"
      "HasSuperPermission (su_Permission (new_user sender (uh_Permission tx)))"
    using assms(5) by (simp_all add: new_user_def)
  ultimately show ?thesis unfolding sender_def by (metis load_put(5))
qed

theorem updatePermission_stranger_witness:
  "\<exists>s' db' u. updatePermission example_env
      \<lparr> uh_TargetSQLChain = zero_hash, uh_TargetUser = [9],
        uh_Permission = Some (UserPermissionFromRole Admin), uh_Nonce = 0 \<rparr>
      (example_hsv [9]) (example_db_state [example_admin [1]] [] []) = (s', Ok ()) \<and>
    loadSQLChainObject s' (address_DatabaseID zero_hash) = Some db' \<and>
    u \<in> set (sc_Users db') \<and> su_Address u = [9] \<and> HasSuperPermission (su_Permission u)"
proof -
  have load: "loadSQLChainObject (example_db_state [example_admin [1]] [] []) (address_DatabaseID zero_hash) =
      Some (example_db [example_admin [1]] [])"
    by (simp add: example_db_state_def)
  show ?thesis
    using updatePermission_stranger [of "example_db_state [example_admin [1]] [] []"
        "\<lparr> uh_TargetSQLChain = zero_hash, uh_TargetUser = [9],
           uh_Permission = Some (UserPermissionFromRole Admin), uh_Nonce = 0 \<rparr>"
        "example_db [example_admin [1]] []" example_env "example_hsv [9]"] load
    by (simp add: example_db_def example_admin_def new_user_def signee_address_def PubKeyHash_def
        example_env_def example_hsv_def)
qed

end
