(* ===== verification/Meta_Billing.thy ===== *)
theory Meta_Billing
  imports Meta_Properties
begin

text \<open>
  Money in a database: what billing takes from users and gives to miners, and what
  a user's transfer to the database does with arrears.
\<close>

section \<open>Arrears entries\<close>

definition entries_of :: "AccountAddress \<Rightarrow> UserArrears list \<Rightarrow> UserArrears list" where
  "entries_of u as = filter (\<lambda>a. ua_User a = u) as"

text \<open>What a miner is owed by a user.\<close>

definition arrears_of :: "AccountAddress \<Rightarrow> MinerInfo \<Rightarrow> u64" where
  "arrears_of u m = sum_list (map ua_Arrears (entries_of u (mn_UserArrears m)))"

lemma add_arrears_spec:
  "add_arrears u d as = (as', added, exist) \<Longrightarrow>
     exist = (entries_of u as \<noteq> []) \<and> added = of_nat (length (entries_of u as)) * d \<and>
     length (entries_of u as') = length (entries_of u as) \<and>
     sum_list (map ua_Arrears (entries_of u as')) = sum_list (map ua_Arrears (entries_of u as)) + added \<and>
     (\<forall>v. v \<noteq> u \<longrightarrow> entries_of v as' = entries_of v as)"
  by (induction as arbitrary: as' added exist)
    (auto simp: entries_of_def algebra_simps split: prod.splits if_splits)

lemma bill_miner_partly_spec:
  assumes "length (entries_of u (mn_UserArrears m)) \<le> 1"
    and "bill_miner_partly E u income rate m = (m', added)"
  shows "mn_Address m' = mn_Address m \<and>
    mn_PendingIncome m' = mn_PendingIncome m + bill_share E income rate \<and>
    arrears_of u m' = arrears_of u m + (income - bill_share E income rate) \<and>
    added = income - bill_share E income rate \<and>
    (\<forall>v. v \<noteq> u \<longrightarrow> arrears_of v m' = arrears_of v m)"
proof -
  define d where "d = income - bill_share E income rate"
  obtain as' add ex where a: "add_arrears u d (mn_UserArrears m) = (as', add, ex)"
    by (metis prod_cases3)
  note spec = add_arrears_spec [OF a]
  show ?thesis
  proof (cases ex)
    case True
    then have "length (entries_of u (mn_UserArrears m)) = 1"
      using assms(1) spec by (cases "entries_of u (mn_UserArrears m)") auto
    then show ?thesis
      using assms(2) a spec True
      by (auto simp: bill_miner_partly_def Let_def arrears_of_def simp flip: d_def)
  next
    case False
    then show ?thesis
      using assms(2) a spec
      by (auto simp: bill_miner_partly_def Let_def arrears_of_def entries_of_def simp flip: d_def)
  qed
qed

lemma bill_miners_partly_spec:
  assumes "\<forall>m \<in> set ms. length (entries_of u (mn_UserArrears m)) \<le> 1"
    and "bill_miners_partly E u income rate ms arrears = (ms', arrears')"
  shows "length ms' = length ms \<and>
    (\<forall>j < length ms. mn_PendingIncome (ms' ! j) =
        mn_PendingIncome (ms ! j) + bill_share E (income (mn_Address (ms ! j))) rate \<and>
      arrears_of u (ms' ! j) = arrears_of u (ms ! j) +
        (income (mn_Address (ms ! j)) - bill_share E (income (mn_Address (ms ! j))) rate)) \<and>
    arrears' = arrears + sum_list (map (\<lambda>m. income (mn_Address m) -
      bill_share E (income (mn_Address m)) rate) ms)"
  using assms
proof (induction ms arbitrary: arrears ms' arrears')
  case (Cons m ms)
  obtain m1 d where m1: "bill_miner_partly E u (income (mn_Address m)) rate m = (m1, d)" by fastforce
  obtain ms1 a1 where ms1: "bill_miners_partly E u income rate ms (arrears + d) = (ms1, a1)" by fastforce
  have first: "mn_PendingIncome m1 = mn_PendingIncome m + bill_share E (income (mn_Address m)) rate"
      "arrears_of u m1 = arrears_of u m + (income (mn_Address m) - bill_share E (income (mn_Address m)) rate)"
      "d = income (mn_Address m) - bill_share E (income (mn_Address m)) rate"
    using bill_miner_partly_spec [OF _ m1] Cons.prems(1) by auto
  have res: "ms' = m1 # ms1" "arrears' = a1" using Cons.prems(2) m1 ms1 by auto
  have rest: "\<forall>m \<in> set ms. length (entries_of u (mn_UserArrears m)) \<le> 1" using Cons.prems(1) by simp
  from Cons.IH [OF rest ms1] first show ?case
    by (auto simp: res nth_Cons' algebra_simps less_Suc_eq_0_disj)
qed auto

text \<open>
  C33: billing a user accounts for every token. A user whose advance payment covers
  the cost pays exactly the cost from it, and each miner's pending income grows by
  its income from the user. A user who cannot pay is left with no advance payment
  and the status Arrears; then for each miner what is paid out and what is added to
  the arrears the miner has recorded for the user make up the income, the arrears
  recorded for the user grow by what all miners are owed, and, for amounts up to
  \<open>2^53\<close>, no miner is paid more than its income.
\<close>

theorem bill_user_accounts:
  assumes "\<forall>m \<in> set miners. length (entries_of (su_Address user) (mn_UserArrears m)) \<le> 1"
    and "bill_user E gasPrice cost income user miners = (user', miners')"
  shows "length miners' = length miners \<and>
    (su_AdvancePayment user \<ge> cost * gasPrice \<longrightarrow>
       unat (su_AdvancePayment user') + unat (cost * gasPrice) = unat (su_AdvancePayment user) \<and>
       su_Arrears user' = su_Arrears user \<and>
       (\<forall>j < length miners. mn_PendingIncome (miners' ! j) =
          mn_PendingIncome (miners ! j) + income (mn_Address (miners ! j)) * gasPrice)) \<and>
    (su_AdvancePayment user < cost * gasPrice \<longrightarrow>
       su_AdvancePayment user' = 0 \<and> su_Status user' = Arrears \<and>
       (\<forall>j < length miners.
          (mn_PendingIncome (miners' ! j) - mn_PendingIncome (miners ! j)) +
          (arrears_of (su_Address user) (miners' ! j) - arrears_of (su_Address user) (miners ! j)) =
            income (mn_Address (miners ! j)) * gasPrice \<and>
          (unat (cost * gasPrice) \<le> 2 ^ 53 \<and> unat (income (mn_Address (miners ! j)) * gasPrice) \<le> 2 ^ 53 \<longrightarrow>
            mn_PendingIncome (miners' ! j) - mn_PendingIncome (miners ! j) \<le>
              income (mn_Address (miners ! j)) * gasPrice)) \<and>
       su_Arrears user' = su_Arrears user + sum_list (map (\<lambda>j.
          arrears_of (su_Address user) (miners' ! j) - arrears_of (su_Address user) (miners ! j))
          [0..<length miners]))"
proof (cases "su_AdvancePayment user \<ge> cost * gasPrice")
  case True
  then have "unat (su_AdvancePayment user - cost * gasPrice) + unat (cost * gasPrice) =
      unat (su_AdvancePayment user)"
    by (simp add: unat_sub_exact word_le_nat_alt)
  then show ?thesis
    using assms(2) True by (auto simp: bill_user_def not_less [symmetric])
next
  case False
  define rate where "rate = f64_div (f64_of_u64 (su_AdvancePayment user)) (f64_of_u64 (cost * gasPrice))"
  define inc where "inc = (\<lambda>m. income m * gasPrice)"
  obtain ms a where b: "bill_miners_partly E (su_Address user) inc rate miners (su_Arrears user) = (ms, a)"
    by fastforce
  have res: "user' = user \<lparr> su_AdvancePayment := 0, su_Status := Arrears, su_Arrears := a \<rparr>" "miners' = ms"
    using assms(2) False b by (auto simp: bill_user_def Let_def rate_def inc_def)
  note spec = bill_miners_partly_spec [OF assms(1) b]
  have share: "bill_share E x rate \<le> x" if "unat (cost * gasPrice) \<le> 2 ^ 53" "unat x \<le> 2 ^ 53" for x
    using f64_share_le [OF that(2), of rate "float_overflow E"]
      f64_rate_le [OF _ that(1), of "su_AdvancePayment user"] False
    by (simp add: bill_share_def rate_def not_le)
  have sum: "sum_list (map (\<lambda>m. inc (mn_Address m) - bill_share E (inc (mn_Address m)) rate) miners) =
      sum_list (map (\<lambda>j. arrears_of (su_Address user) (miners' ! j) -
        arrears_of (su_Address user) (miners ! j)) [0..<length miners])"
    using spec by (intro arg_cong [where f = sum_list] nth_equalityI) (auto simp: res)
  show ?thesis
    using spec share False sum by (auto simp: res inc_def)
qed

definition example_miner :: "AccountAddress \<Rightarrow> MinerInfo" where
  "example_miner a =
     \<lparr> mn_Address = a, mn_NodeID = '''', mn_Name = '''', mn_PendingIncome = 0, mn_ReceivedIncome = 0,
       mn_UserArrears = [], mn_Deposit = 0, mn_Status = 0, mn_EncryptionKey = '''' \<rparr>"

theorem bill_user_accounts_witness:
  "(let (user', miners') = bill_user example_env 2 5 (\<lambda>_. 5)
        (example_admin [1] \<lparr> su_AdvancePayment := 4 \<rparr>) [example_miner [7]]
    in su_AdvancePayment user' = 0 \<and>
       (mn_PendingIncome (miners' ! 0)) + arrears_of [1] (miners' ! 0) = 10 \<and>
       su_Arrears user' = arrears_of [1] (miners' ! 0) \<and> mn_PendingIncome (miners' ! 0) \<le> 10)"
proof -
  define u where "u = example_admin [1] \<lparr> su_AdvancePayment := 4 \<rparr>"
  obtain u' ms' where run: "bill_user example_env 2 5 (\<lambda>_. 5) u [example_miner [7]] = (u', ms')" by fastforce
  have sel: "su_Address u = [1]" "su_AdvancePayment u = 4" "su_Arrears u = 0"
      "mn_UserArrears (example_miner [7]) = []" "mn_PendingIncome (example_miner [7]) = 0"
      "arrears_of v (example_miner [7]) = 0" for v
    by (simp_all add: u_def example_admin_def new_user_def example_miner_def arrears_of_def entries_of_def)
  have "\<forall>m \<in> set [example_miner [7]]. length (entries_of (su_Address u) (mn_UserArrears m)) \<le> 1"
    by (simp add: sel entries_of_def)
  from bill_user_accounts [OF this run] show ?thesis
    unfolding u_def [symmetric] run by (simp add: sel)
qed

text \<open>
  above \<open>2^53\<close> the rounding of the proration can pay a miner more than its
  income, and the arrears then wrap around: a user who is one token short is
  recorded with arrears of \<open>2^64 - 1\<close>.
\<close>

theorem bill_user_wraps:
  "(let (user', miners') = bill_user E 1 (2 ^ 54 + 7) (\<lambda>_. 2 ^ 54 + 7)
        (example_admin [1] \<lparr> su_AdvancePayment := 2 ^ 54 + 6 \<rparr>) [example_miner [7]]
    in mn_PendingIncome (miners' ! 0) = 2 ^ 54 + 8 \<and> su_Arrears user' = - 1)"
proof -
  have fl: "\<lfloor>9007199254740995 / 2 :: rat\<rfloor> = 4503599627370497" "\<lfloor>18014398509481991 / 4 :: rat\<rfloor> = 4503599627370497"
    by (simp_all add: floor_eq_iff)
  have r: "f64_round 18014398509481990 = 18014398509481992" "f64_round 18014398509481991 = 18014398509481992"
      "f64_round 1 = 1" "f64_round 18014398509481992 = 18014398509481992"
    by (simp_all add: f64_round_def ilog2_def BitLen.simps pow2_def round_half_even_def Let_def fl)
  show ?thesis
    by (simp add: bill_user_def bill_miner_partly_def bill_share_def example_admin_def new_user_def
        example_miner_def f64_of_u64_def f64_div_def f64_mul_def u64_of_f64_def r Let_def)
qed

section \<open>Transfers to a database\<close>

lemma settle_user_Ok:
  assumes "settle_user user miners amount balance = Ok (user', miners', amount', balance')"
  shows "amount' = amount \<and> balance' = balance \<and> su_Arrears user' = 0 \<and>
    su_Deposit user' = su_Deposit user \<and> su_AdvancePayment user' = su_AdvancePayment user \<and>
    su_Arrears user \<le> amount \<and>
    (0 < su_Arrears user \<longrightarrow> miners' = map (pay_arrears (su_Address user)) miners) \<and>
    (su_Arrears user = 0 \<longrightarrow> user' = user \<and> miners' = miners)"
  using assms by (auto simp: settle_user_def Let_def word_gt_0 split: if_splits)

lemma deposit_user_Ok:
  assumes "deposit_user minDep amount user = Ok user'"
    and "unat (su_AdvancePayment user) + unat amount < 2 ^ 64"
  shows "unat (su_Deposit user') + unat (su_AdvancePayment user') =
      unat (su_Deposit user) + unat (su_AdvancePayment user) + unat amount \<and>
    su_Arrears user' = su_Arrears user \<and> su_Address user' = su_Address user"
proof (cases "su_Deposit user < minDep")
  case True
  define diff where "diff = minDep - su_Deposit user"
  have diff: "unat minDep = unat (su_Deposit user) + unat diff"
    using True by (simp add: diff_def unat_sub_exact word_le_nat_alt word_less_nat_alt)
  show ?thesis
  proof (cases "diff \<ge> amount")
    case le: True
    have "unat (su_Deposit user) + unat amount < 2 ^ 64"
    proof -
      have "unat minDep < 2 ^ 64" using unsigned_less [of minDep] by simp
      then show ?thesis using le diff by (simp add: word_le_nat_alt)
    qed
    then show ?thesis
      using assms(1) True le by (auto simp: deposit_user_def Let_def unat_add_exact simp flip: diff_def)
  next
    case False
    then have sub: "unat amount = unat diff + unat (amount - diff)"
      by (simp add: unat_sub_exact word_le_nat_alt)
    then have "unat (su_AdvancePayment user + (amount - diff)) =
        unat (su_AdvancePayment user) + unat (amount - diff)"
      using assms(2) by (intro unat_add_exact) simp
    then show ?thesis
      using assms(1) True False sub diff by (auto simp: deposit_user_def Let_def simp flip: diff_def)
  qed
next
  case False
  then show ?thesis
    using assms by (auto simp: deposit_user_def safeAdd_def unat_add_exact split: if_splits)
qed

lemma pay_miner_none: "entries_of u rest = [] \<Longrightarrow> pay_miner u all i rest p = p"
  by (induction rest arbitrary: i) (auto simp: entries_of_def split: if_splits)

lemma pay_miner_suffix:
  "entries_of u pre = [] \<Longrightarrow> length (entries_of u rest) \<le> 1 \<Longrightarrow>
    pay_miner u (pre @ rest) (length pre) rest p = p + sum_list (map ua_Arrears (entries_of u rest))"
proof (induction rest arbitrary: pre)
  case (Cons a rest)
  show ?case
  proof (cases "ua_User a = u")
    case True
    then have "entries_of u rest = []" using Cons.prems(2) by (simp add: entries_of_def)
    then show ?thesis using True by (simp add: pay_miner_none nth_append entries_of_def)
  next
    case False
    with Cons.IH [of "pre @ [a]"] Cons.prems show ?thesis by (simp add: entries_of_def)
  qed
qed (simp add: entries_of_def)

lemma pay_miner_single:
  assumes "length (entries_of u as) \<le> 1"
  shows "pay_miner u as 0 as p = p + sum_list (map ua_Arrears (entries_of u as))"
  using pay_miner_suffix [of u "[]" as p] assms by (simp add: entries_of_def)

text \<open>
  arrears are paid out and not charged. When a user with arrears transfers an
  amount to the database and the transfer succeeds, the arrears are cleared and the
  pending income of every miner grows by what the user owed it; but the sender's
  balance falls by the amount only, and the whole amount is added to the user's
  deposit and advance payment, so nothing is left that pays the miners. The
  miners' arrears entries stay and can be paid out again.
\<close>

theorem arrears_not_charged:
  assumes "transferSQLChainTokenBalance E tx i s = (s', Ok ())"
    and "loadSQLChainObject s (address_DatabaseID (tr_Receiver tx)) = Some db"
    and "sc_Users db = us @ u # vs" and "\<forall>v \<in> set us. su_Address v \<noteq> tr_Sender tx"
    and "su_Address u = tr_Sender tx" and "0 < su_Arrears u" and "s' \<noteq> s"
    and "unat (su_AdvancePayment u) + unat (tr_Amount tx) < 2 ^ 64"
    and "\<forall>m \<in> set (sc_Miners db). length (entries_of (tr_Sender tx) (mn_UserArrears m)) \<le> 1"
  shows "\<exists>db' u'. loadSQLChainObject s' (address_DatabaseID (tr_Receiver tx)) = Some db' \<and>
    sc_Users db' = us @ u' # vs \<and> su_Arrears u' = 0 \<and>
    balance_of s (tr_TokenType tx) (tr_Sender tx) =
      balance_of s' (tr_TokenType tx) (tr_Sender tx) + unat (tr_Amount tx) \<and>
    unat (su_Deposit u') + unat (su_AdvancePayment u') =
      unat (su_Deposit u) + unat (su_AdvancePayment u) + unat (tr_Amount tx) \<and>
    (\<forall>j < length (sc_Miners db).
       mn_PendingIncome (sc_Miners db' ! j) =
         mn_PendingIncome (sc_Miners db ! j) + arrears_of (tr_Sender tx) (sc_Miners db ! j) \<and>
       mn_UserArrears (sc_Miners db' ! j) = mn_UserArrears (sc_Miners db ! j))"
proof -
  obtain db0 acct bal j user miners amount bal' user' where
      db0: "loadSQLChainObject s (address_DatabaseID (tr_Receiver tx)) = Some db0"
    and a: "loadAccountObject s (tr_Sender tx) = Some acct"
      "tb_get (ac_TokenBalance acct) (tr_TokenType tx) = Some bal" "tr_Amount tx \<le> bal"
    and j0: "j < length (sc_Users db0)" "su_Address (sc_Users db0 ! j) = tr_Sender tx"
      "\<forall>k < j. su_Address (sc_Users db0 ! k) \<noteq> tr_Sender tx"
    and settle0: "settle_user (sc_Users db0 ! j) (sc_Miners db0) (tr_Amount tx) bal = Ok (user, miners, amount, bal')"
    and deposit0: "deposit_user (minDeposit E (sc_GasPrice db0) (of_nat (length (sc_Miners db0)))) amount user = Ok user'"
    and s0: "s' = put_account (tr_Sender tx) (Some (acct \<lparr> ac_TokenBalance :=
              tb_set (ac_TokenBalance acct) (tr_TokenType tx) (bal' - amount) \<rparr>))
           (put_database (address_DatabaseID (tr_Receiver tx)) (Some (db0 \<lparr>
              sc_Users := (sc_Users db0)[j := restore_status
                (minDeposit E (sc_GasPrice db0) (of_nat (length (sc_Miners db0)))) user'],
              sc_Miners := miners \<rparr>)) s)"
    using transferSQLChain_cases [OF assms(1)] assms(7) by blast
  have "db0 = db" using db0 assms(2) by simp
  note j = j0 [unfolded this] and settle = settle0 [unfolded this]
    and deposit = deposit0 [unfolded this] and s' = s0 [unfolded this]
  have jus: "j = length us"
  proof (rule ccontr)
    assume "j \<noteq> length us"
    then consider "j < length us" | "length us < j" by linarith
    then show False
      using j assms(3-5) by cases (auto simp: nth_append dest: spec [of _ "length us"])
  qed
  then have uj: "sc_Users db ! j = u" by (simp add: assms(3) nth_append)
  have st: "amount = tr_Amount tx" "bal' = bal" "su_Arrears user = 0" "su_Deposit user = su_Deposit u"
      "su_AdvancePayment user = su_AdvancePayment u" "miners = map (pay_arrears (tr_Sender tx)) (sc_Miners db)"
    using settle_user_Ok [OF settle] assms(5,6) by (auto simp: uj)
  have dep: "unat (su_Deposit user') + unat (su_AdvancePayment user') =
      unat (su_Deposit u) + unat (su_AdvancePayment u) + unat (tr_Amount tx)" "su_Arrears user' = 0"
    using deposit_user_Ok [OF deposit] assms(8) by (auto simp: st)
  define u' where "u' = restore_status (minDeposit E (sc_GasPrice db) (of_nat (length (sc_Miners db)))) user'"
  have u': "su_Deposit u' = su_Deposit user'" "su_AdvancePayment u' = su_AdvancePayment user'" "su_Arrears u' = 0"
    using dep(2) by (auto simp: u'_def restore_status_def)
  have bal: "balance_of s (tr_TokenType tx) (tr_Sender tx) = unat bal"
      "balance_of s' (tr_TokenType tx) (tr_Sender tx) = unat (bal - tr_Amount tx)"
    using a by (simp_all add: balance_of_def s' st)
  have sub: "unat bal = unat (bal - tr_Amount tx) + unat (tr_Amount tx)"
    using a(3) by (simp add: unat_sub_exact word_le_nat_alt)
  show ?thesis
    using bal sub dep(1) u' assms(9)
    by (intro exI [of _ "db \<lparr> sc_Users := us @ u' # vs, sc_Miners := miners \<rparr>"] exI [of _ u'])
      (auto simp: s' assms(3) jus u'_def [symmetric] st(6) pay_arrears_def pay_miner_single arrears_of_def)
qed

theorem arrears_not_charged_witness:
  "\<exists>s' db' u'. transferSQLChainTokenBalance example_env
      \<lparr> tr_Sender = [1], tr_Receiver = zero_hash, tr_Nonce = 0, tr_Amount = 5, tr_TokenType = Particle \<rparr>
      (example_hsv [1])
      (example_db_state [example_admin [1] \<lparr> su_Arrears := 3 \<rparr>]
        [example_miner [7] \<lparr> mn_UserArrears := [\<lparr> ua_User = [1], ua_Arrears = 3 \<rparr>] \<rparr>]
        [example_account [1] 10]) = (s', Ok ()) \<and>
    loadSQLChainObject s' (address_DatabaseID zero_hash) = Some db' \<and> sc_Users db' = [u'] \<and>
    su_Arrears u' = 0 \<and> balance_of s' Particle [1] = 5 \<and>
    unat (su_Deposit u') + unat (su_AdvancePayment u') = 5 \<and>
    mn_PendingIncome (sc_Miners db' ! 0) = 3"
proof -
  define u where "u = example_admin [1] \<lparr> su_Arrears := 3 \<rparr>"
  define m where "m = example_miner [7] \<lparr> mn_UserArrears := [\<lparr> ua_User = [1], ua_Arrears = 3 \<rparr>] \<rparr>"
  define s where "s = example_db_state [u] [m] [example_account [1] 10]"
  define tx where "tx = \<lparr> tr_Sender = [1::byte], tr_Receiver = zero_hash, tr_Nonce = 0, tr_Amount = 5,
    tr_TokenType = Particle \<rparr>"
  have u: "su_Address u = [1]" "su_Arrears u = 3" "su_Deposit u = 0" "su_AdvancePayment u = 0"
    by (simp_all add: u_def example_admin_def new_user_def)
  have m: "mn_UserArrears m = [\<lparr> ua_User = [1], ua_Arrears = 3 \<rparr>]" "mn_PendingIncome m = 0"
    by (simp_all add: m_def example_miner_def)
  have load: "loadSQLChainObject s (address_DatabaseID (tr_Receiver tx)) = Some (example_db [u] [m])"
      "loadAccountObject s [1] = Some (example_account [1] 10)"
    by (simp_all add: s_def tx_def example_db_state_def)
      (simp add: load_overlay overlay_view_def dirty_defs ro_defs example_defs)
  have "\<not> (5 :: u64) \<le> 1" by (simp add: word_le_nat_alt)
  then obtain s' where run: "transferSQLChainTokenBalance example_env tx (example_hsv [1]) s = (s', Ok ())"
      and new: "loadAccountObject s' [1] = Some (example_account [1] 5)"
    using load u m
    by (simp add: transferSQLChainTokenBalance_def tx_def op_bind_def op_lift_def op_sender_def Let_def
        PubKeyHash_def example_hsv_def example_env_def example_db_def example_account_def settle_user_def
        deposit_user_def minDeposit_def safeAdd_def pay_arrears_def)
  have "s' \<noteq> s" using new load(2) by (auto simp: example_account_def empty_account_def)
  moreover have "\<forall>x \<in> set (sc_Miners (example_db [u] [m])).
      length (entries_of (tr_Sender tx) (mn_UserArrears x)) \<le> 1"
    by (simp add: example_db_def m entries_of_def tx_def)
  moreover have "balance_of s Particle [1] = 10"
    by (simp add: balance_of_def load example_account_def)
  ultimately show ?thesis
    using arrears_not_charged [OF run load(1), of "[]" u "[]"] run u m
    unfolding u_def [symmetric] m_def [symmetric] s_def [symmetric] tx_def [symmetric]
    by (simp add: tx_def example_db_def arrears_of_def entries_of_def) metis
qed

end
