(* ===== verification/BP_Block.thy ===== *)
theory BP_Block
  imports Merkle Meta_Apply
begin

text \<open>
  The block of the main chain, \<open>types/bp_block.go\<close>: header, signature and
  transactions, how a producer packs and signs one and how a receiver checks it.
\<close>

section \<open>Blocks\<close>

record BPHeader =
  bh_Version :: int
  bh_Producer :: AccountAddress
  bh_MerkleRoot :: hash
  bh_ParentHash :: hash
  bh_Timestamp :: Time

record BPSignedHeader =
  bs_BPHeader :: BPHeader
  bs_HSV :: HashSignVerifier

record BPBlock =
  bl_SignedHeader :: BPSignedHeader
  bl_Transactions :: "Transaction list"

text \<open>
  What the block producer takes from outside: the environment of the transactions
  and the generated \<open>MarshalHash\<close> of the header.
\<close>

record bp_env =
  be_tx :: tx_env
  marshal_BPHeader :: "BPHeader \<Rightarrow> bytes option"

definition bs_verifyHash :: "bp_env \<Rightarrow> BPSignedHeader \<Rightarrow> (verifier_error, unit) res" where
  "bs_verifyHash B s = hsv_VerifyHash (THashH (be_tx B)) (marshal_BPHeader B (bs_BPHeader s)) (bs_HSV s)"

definition bs_verify :: "bp_env \<Rightarrow> BPSignedHeader \<Rightarrow> (verifier_error, unit) res" where
  "bs_verify B s =
     hsv_Verify (THashH (be_tx B)) (sigVerify (be_tx B)) (marshal_BPHeader B (bs_BPHeader s)) (bs_HSV s)"

definition bs_setHash :: "bp_env \<Rightarrow> BPSignedHeader \<Rightarrow> BPSignedHeader \<times> (verifier_error, unit) res" where
  "bs_setHash B s =
     (case hsv_SetHash (THashH (be_tx B)) (marshal_BPHeader B (bs_BPHeader s)) (bs_HSV s) of
        (i, r) \<Rightarrow> (s \<lparr> bs_HSV := i \<rparr>, r))"

definition bs_sign ::
    "bp_env \<Rightarrow> ('k \<Rightarrow> bytes \<Rightarrow> Signature option \<times> bool) \<Rightarrow> ('k \<Rightarrow> PublicKey) \<Rightarrow> 'k \<Rightarrow> BPSignedHeader \<Rightarrow>
     BPSignedHeader \<times> (verifier_error, unit) res" where
  "bs_sign B sign pub signer s =
     (case hsv_Sign (THashH (be_tx B)) sign pub (marshal_BPHeader B (bs_BPHeader s)) signer (bs_HSV s) of
        (i, r) \<Rightarrow> (s \<lparr> bs_HSV := i \<rparr>, r))"

definition GetTxHashes :: "BPBlock \<Rightarrow> hash list" where
  "GetTxHashes b = map tx_Hash (bl_Transactions b)"

text \<open>The root is dereferenced, so a nil one would panic.\<close>

definition block_root :: "bp_env \<Rightarrow> BPBlock \<Rightarrow> (bp_error, hash) res" where
  "block_root B b =
     (case merkle_GetRoot (NewMerkle (THashH (be_tx B)) (GetTxHashes b)) of
        None \<Rightarrow> Panic | Some r \<Rightarrow> Ok r)"

definition set_root :: "hash \<Rightarrow> BPBlock \<Rightarrow> BPBlock" where
  "set_root r b =
     b \<lparr> bl_SignedHeader := (bl_SignedHeader b)
          \<lparr> bs_BPHeader := (bs_BPHeader (bl_SignedHeader b)) \<lparr> bh_MerkleRoot := r \<rparr> \<rparr> \<rparr>"

definition setMerkleRoot :: "bp_env \<Rightarrow> BPBlock \<Rightarrow> (bp_error, BPBlock) res" where
  "setMerkleRoot B b =
     (case block_root B b of Ok r \<Rightarrow> Ok (set_root r b) | Err e \<Rightarrow> Err e | Panic \<Rightarrow> Panic)"

definition verifyMerkleRoot :: "bp_env \<Rightarrow> BPBlock \<Rightarrow> (bp_error, unit) res" where
  "verifyMerkleRoot B b =
     (case block_root B b of
        Ok r \<Rightarrow> if r \<noteq> bh_MerkleRoot (bs_BPHeader (bl_SignedHeader b))
                then Err ErrMerkleRootVerification else Ok ()
      | Err e \<Rightarrow> Err e
      | Panic \<Rightarrow> Panic)"

definition verifier_res :: "(verifier_error, 'a) res \<Rightarrow> (bp_error, 'a) res" where
  "verifier_res r = (case r of Ok x \<Rightarrow> Ok x | Err e \<Rightarrow> Err (ErrVerify e) | Panic \<Rightarrow> Panic)"

definition finish_header ::
    "(BPSignedHeader \<Rightarrow> BPSignedHeader \<times> (verifier_error, unit) res) \<Rightarrow> BPBlock \<Rightarrow> (bp_error, BPBlock) res" where
  "finish_header f b =
     (case f (bl_SignedHeader b) of (s, r) \<Rightarrow>
        (case verifier_res r of
           Ok _ \<Rightarrow> Ok (b \<lparr> bl_SignedHeader := s \<rparr>) | Err e \<Rightarrow> Err e | Panic \<Rightarrow> Panic))"

definition block_SetHash :: "bp_env \<Rightarrow> BPBlock \<Rightarrow> (bp_error, BPBlock) res" where
  "block_SetHash B b =
     (case setMerkleRoot B b of
        Ok b \<Rightarrow> finish_header (bs_setHash B) b | Err e \<Rightarrow> Err e | Panic \<Rightarrow> Panic)"

definition block_VerifyHash :: "bp_env \<Rightarrow> BPBlock \<Rightarrow> (bp_error, unit) res" where
  "block_VerifyHash B b =
     (case verifyMerkleRoot B b of
        Ok _ \<Rightarrow> verifier_res (bs_verifyHash B (bl_SignedHeader b)) | r \<Rightarrow> r)"

definition PackAndSignBlock ::
    "bp_env \<Rightarrow> ('k \<Rightarrow> bytes \<Rightarrow> Signature option \<times> bool) \<Rightarrow> ('k \<Rightarrow> PublicKey) \<Rightarrow> 'k \<Rightarrow> BPBlock \<Rightarrow>
     (bp_error, BPBlock) res" where
  "PackAndSignBlock B sign pub signer b =
     (case setMerkleRoot B b of
        Ok b \<Rightarrow> finish_header (bs_sign B sign pub signer) b | Err e \<Rightarrow> Err e | Panic \<Rightarrow> Panic)"

definition block_Verify :: "bp_env \<Rightarrow> BPBlock \<Rightarrow> (bp_error, unit) res" where
  "block_Verify B b =
     (case verifyMerkleRoot B b of
        Ok _ \<Rightarrow> verifier_res (bs_verify B (bl_SignedHeader b)) | r \<Rightarrow> r)"

definition block_Timestamp :: "BPBlock \<Rightarrow> Time" where
  "block_Timestamp b = bh_Timestamp (bs_BPHeader (bl_SignedHeader b))"

definition block_Producer :: "BPBlock \<Rightarrow> AccountAddress" where
  "block_Producer b = bh_Producer (bs_BPHeader (bl_SignedHeader b))"

definition block_ParentHash :: "BPBlock \<Rightarrow> hash" where
  "block_ParentHash b = bh_ParentHash (bs_BPHeader (bl_SignedHeader b))"

definition block_BlockHash :: "BPBlock \<Rightarrow> hash" where
  "block_BlockHash b = hv_DataHash (bs_HSV (bl_SignedHeader b))"

section \<open>Producing and checking a block\<close>

lemma block_root_header [simp]:
  "block_root B (b \<lparr> bl_SignedHeader := s \<rparr>) = block_root B b"
  "block_root B (set_root r b) = block_root B b"
  by (simp_all add: block_root_def GetTxHashes_def set_root_def)

lemma block_root_Ok:
  "length (bl_Transactions b) \<le> 2 ^ 62 \<Longrightarrow>
    block_root B b = Ok (merkle_root (THashH (be_tx B)) (GetTxHashes b))"
  by (simp add: block_root_def GetTxHashes_def merkle_array_root)

lemma hsv_Sign_Verify:
  assumes "\<And>h. \<exists>sig. sign k h = (Some sig, False) \<and> sv (Some sig) h (Some (pub k))"
    and "hsv_Sign T sign pub enc k i = (i', Ok u)"
  shows "hsv_Verify T sv enc i' = Ok () \<and> hsv_VerifyHash T enc i' = Ok () \<and> hv_Signee i' = Some (pub k)"
  using assms(2) assms(1) [of "T (the enc)"]
  by (auto simp: hsv_Sign_def hsv_SetHash_def hsv_SignHash_def hsv_Verify_def hsv_VerifyHash_def
      hsv_VerifySignature_def split: option.splits res.splits)

lemma pack_sign_block:
  assumes sign: "\<And>h. \<exists>sig. sign k h = (Some sig, False) \<and> sigVerify (be_tx B) (Some sig) h (Some (pub k))"
    and enc: "\<And>h. marshal_BPHeader B h \<noteq> None"
    and len: "length (bl_Transactions b) \<le> 2 ^ 62"
  shows "\<exists>b'. PackAndSignBlock B sign pub k b = Ok b' \<and>
    block_Verify B b' = Ok () \<and> block_VerifyHash B b' = Ok () \<and>
    bl_Transactions b' = bl_Transactions b \<and> block_ParentHash b' = block_ParentHash b \<and>
    block_Producer b' = block_Producer b \<and> block_Timestamp b' = block_Timestamp b \<and>
    bh_MerkleRoot (bs_BPHeader (bl_SignedHeader b')) = merkle_root (THashH (be_tx B)) (GetTxHashes b)"
proof -
  let ?r = "merkle_root (THashH (be_tx B)) (GetTxHashes b)"
  define s where "s = bl_SignedHeader (set_root ?r b)"
  obtain i u where i: "hsv_Sign (THashH (be_tx B)) sign pub (marshal_BPHeader B (bs_BPHeader s)) k (bs_HSV s) =
      (i, Ok u)"
    using enc [of "bs_BPHeader s"] sign [of "THashH (be_tx B) (the (marshal_BPHeader B (bs_BPHeader s)))"]
    by (auto simp: hsv_Sign_def hsv_SetHash_def hsv_SignHash_def)
  note v = hsv_Sign_Verify [where sv = "sigVerify (be_tx B)", OF sign i]
  note root = block_root_Ok [OF len, of B]
  let ?b = "(set_root ?r b) \<lparr> bl_SignedHeader := s \<lparr> bs_HSV := i \<rparr> \<rparr>"
  have "PackAndSignBlock B sign pub k b = Ok ?b"
    using i by (simp add: PackAndSignBlock_def setMerkleRoot_def root finish_header_def bs_sign_def
        verifier_res_def flip: s_def)
  moreover have "verifyMerkleRoot B ?b = Ok ()"
    by (simp add: verifyMerkleRoot_def root s_def set_root_def)
  ultimately show ?thesis
    using v by (auto simp: block_Verify_def block_VerifyHash_def bs_verify_def bs_verifyHash_def
        verifier_res_def block_ParentHash_def block_Producer_def block_Timestamp_def s_def set_root_def)
qed

text \<open>
  C28: a block that was packed and signed passes the receiver's check and the check of
  the genesis block, carries the same transactions, parent, producer and time as
  before, and commits to its transactions by the root of their hashes; packing one
  with an encodable header and a working key always succeeds.
\<close>

theorem block_pack_verify:
  assumes sign: "\<And>h. \<exists>sig. sign k h = (Some sig, False) \<and> sigVerify (be_tx B) (Some sig) h (Some (pub k))"
    and enc: "\<And>h. marshal_BPHeader B h \<noteq> None"
    and len: "length (bl_Transactions b) \<le> 2 ^ 62"
  shows "\<exists>b'. PackAndSignBlock B sign pub k b = Ok b' \<and>
    block_Verify B b' = Ok () \<and> block_VerifyHash B b' = Ok () \<and>
    bl_Transactions b' = bl_Transactions b \<and> block_ParentHash b' = block_ParentHash b \<and>
    block_Producer b' = block_Producer b \<and> block_Timestamp b' = block_Timestamp b \<and>
    bh_MerkleRoot (bs_BPHeader (bl_SignedHeader b')) = merkle_root (THashH (be_tx B)) (GetTxHashes b)"
  by (rule pack_sign_block) (use assms in auto)

definition example_bp_env :: bp_env where
  "example_bp_env = \<lparr> be_tx = example_env, marshal_BPHeader = (\<lambda>_. Some []) \<rparr>"

definition example_sign :: "PublicKey \<Rightarrow> bytes \<Rightarrow> Signature option \<times> bool" where
  "example_sign k h = (Some \<lparr> sg_R = 0, sg_S = 0 \<rparr>, False)"

definition example_block :: "hash \<Rightarrow> hash \<Rightarrow> Time \<Rightarrow> Transaction list \<Rightarrow> BPBlock" where
  "example_block h parent t txs =
     \<lparr> bl_SignedHeader =
         \<lparr> bs_BPHeader = \<lparr> bh_Version = 1, bh_Producer = [], bh_MerkleRoot = [], bh_ParentHash = parent,
                           bh_Timestamp = t \<rparr>,
           bs_HSV = (example_hsv [9]) \<lparr> hv_DataHash := h \<rparr> \<rparr>,
       bl_Transactions = txs \<rparr>"

lemma example_signs:
  "\<exists>sig. example_sign [9] h = (Some sig, False) \<and>
     sigVerify (be_tx example_bp_env) (Some sig) h (Some (id [9]))"
  by (simp add: example_sign_def example_bp_env_def example_env_def)

lemma example_marshals: "marshal_BPHeader example_bp_env h \<noteq> None"
  by (simp add: example_bp_env_def)

lemma be_tx_example [simp]: "be_tx example_bp_env = example_env"
  by (simp add: example_bp_env_def)

theorem block_pack_verify_witness:
  "\<exists>b'. PackAndSignBlock example_bp_env example_sign id [9] (example_block [] [] 0 []) = Ok b' \<and>
     block_Verify example_bp_env b' = Ok ()"
proof -
  have "length (bl_Transactions (example_block [] [] 0 [])) \<le> 2 ^ 62"
    by (simp add: example_block_def)
  then show ?thesis
    using block_pack_verify [where sign = example_sign and k = "[9]" and pub = id and
        b = "example_block [] [] 0 []", OF example_signs example_marshals] by blast
qed

text \<open>
  the check of a block does not cover the contents of its base account
  transactions: they hash to the zero hash whatever account and balance they carry,
  so any of them can be replaced by another in a checked block and the block still
  passes, with the same block hash.
\<close>

theorem block_verify_ignores_base_accounts:
  assumes "bl_Transactions b = xs @ BaseAccount a m # ys"
  shows "block_Verify B (b \<lparr> bl_Transactions := xs @ BaseAccount a' m' # ys \<rparr>) = block_Verify B b \<and>
    block_BlockHash (b \<lparr> bl_Transactions := xs @ BaseAccount a' m' # ys \<rparr>) = block_BlockHash b"
  using assms
  by (simp add: block_Verify_def verifyMerkleRoot_def block_root_def GetTxHashes_def block_BlockHash_def
      split: option.split)

theorem block_verify_ignores_base_accounts_witness:
  "block_Verify example_bp_env (example_block [] [] 0 [BaseAccount (example_account [1] 1000) zero_mixin]) =
   block_Verify example_bp_env (example_block [] [] 0 [BaseAccount (example_account [1] 5) zero_mixin])"
  using block_verify_ignores_base_accounts
    [of "example_block [] [] 0 [BaseAccount (example_account [1] 5) zero_mixin]" "[]" _ _ "[]"
      example_bp_env "example_account [1] 1000" zero_mixin]
  by (simp add: example_block_def)

end
