(* ===== verification/Block_Node.thy ===== *)
theory Block_Node
  imports BP_Block
begin

text \<open>
  The tree of blocks of \<open>blockproducer/blocknode.go\<close>: a node points to its parent, and
  the queries walk towards the genesis block. The reference is the list of the
  ancestors of a node.
\<close>

section \<open>Nodes\<close>

text \<open>
  \<open>bn_block\<close> is the cached block, \<open>None\<close> after \<open>clear\<close>. A node is a value here, so
  clearing or filling the cache of a shared node is an update of each copy.
\<close>

datatype blockNode =
  BlockNode (bn_parent: "blockNode option") (bn_count: u32) (bn_height: u32) (bn_hash: hash)
    (bn_txCount: nat) (bn_block: "BPBlock option")

definition newBlockNode :: "u32 \<Rightarrow> BPBlock \<Rightarrow> blockNode option \<Rightarrow> blockNode" where
  "newBlockNode h b p =
     BlockNode p (case p of Some p \<Rightarrow> bn_count p + 1 | None \<Rightarrow> 0) h
       (block_BlockHash b) (length (bl_Transactions b)) (Some b)"

fun node_clear :: "blockNode \<Rightarrow> blockNode" where
  "node_clear (BlockNode p c h hs n _) = BlockNode p c h hs n None"

definition newNonCacheBlockNode :: "u32 \<Rightarrow> BPBlock \<Rightarrow> blockNode option \<Rightarrow> blockNode" where
  "newNonCacheBlockNode h b p = node_clear (newBlockNode h b p)"

text \<open>\<open>fetchNodeList\<close>: the loop fills the slice from its end; a nil node panics.\<close>

fun fetch_loop :: "nat \<Rightarrow> blockNode option \<Rightarrow> blockNode list \<Rightarrow> (bp_error, blockNode list) res" where
  "fetch_loop 0 iter bl = Ok bl"
| "fetch_loop (Suc k) None bl = Panic"
| "fetch_loop (Suc k) (Some n) bl = fetch_loop k (bn_parent n) (n # bl)"

definition fetchNodeList :: "blockNode \<Rightarrow> u32 \<Rightarrow> (bp_error, blockNode list) res" where
  "fetchNodeList n from =
     (if bn_count n < from then Ok []
      else fetch_loop (unat (bn_count n - from + 1)) (Some n) [])"

text \<open>The walk to the first ancestor, or the node itself, that satisfies a condition.\<close>

fun walk :: "(blockNode \<Rightarrow> bool) \<Rightarrow> blockNode \<Rightarrow> blockNode option" where
  "walk P (BlockNode p c h hs t b) =
     (if P (BlockNode p c h hs t b) then Some (BlockNode p c h hs t b)
      else case p of None \<Rightarrow> None | Some p \<Rightarrow> walk P p)"

definition ancestor :: "blockNode \<Rightarrow> u32 \<Rightarrow> blockNode option" where
  "ancestor n h =
     (if h > bn_height n then None
      else case walk (\<lambda>a. \<not> bn_height a > h) n of
             Some a \<Rightarrow> if bn_height a \<noteq> h then None else Some a
           | None \<Rightarrow> None)"

definition ancestorByCount :: "blockNode \<Rightarrow> u32 \<Rightarrow> blockNode option" where
  "ancestorByCount n c = (if c > bn_count n then None else walk (\<lambda>a. \<not> bn_count a \<noteq> c) n)"

definition lastIrreversible :: "blockNode \<Rightarrow> u32 \<Rightarrow> (bp_error, blockNode) res" where
  "lastIrreversible n confirm =
     (let count = (if bn_count n > confirm then bn_count n - confirm else 0) in
      case walk (\<lambda>irr. \<not> bn_count irr > count) n of Some irr \<Rightarrow> Ok irr | None \<Rightarrow> Panic)"

definition hasAncestor :: "blockNode \<Rightarrow> blockNode \<Rightarrow> bool" where
  "hasAncestor n anc =
     (case ancestorByCount n (bn_count anc) of
        Some match \<Rightarrow> bn_hash match = bn_hash anc | None \<Rightarrow> False)"

fun hasAncestorWithMinCount :: "blockNode \<Rightarrow> hash \<Rightarrow> u32 \<Rightarrow> blockNode option" where
  "hasAncestorWithMinCount (BlockNode p c h hs t b) blockHash minCount =
     (if c \<ge> minCount then
        if hs = blockHash then Some (BlockNode p c h hs t b)
        else (case p of None \<Rightarrow> None | Some p \<Rightarrow> hasAncestorWithMinCount p blockHash minCount)
      else None)"

section \<open>What the queries return\<close>

text \<open>The node and its ancestors, the genesis block last.\<close>

fun ancestors :: "blockNode \<Rightarrow> blockNode list" where
  "ancestors (BlockNode p c h hs t b) =
     BlockNode p c h hs t b # (case p of None \<Rightarrow> [] | Some p \<Rightarrow> ancestors p)"

text \<open>The counts start at zero and grow by one without wrapping.\<close>

fun wf_node :: "blockNode \<Rightarrow> bool" where
  "wf_node (BlockNode p c h hs t b) =
     (case p of None \<Rightarrow> c = 0
      | Some p \<Rightarrow> wf_node p \<and> unat c = Suc (unat (bn_count p)))"

lemma walk_find: "walk P n = find P (ancestors n)"
  by (induction P n rule: walk.induct) (auto split: option.splits)

lemma ancestors_count:
  "wf_node n \<Longrightarrow> map (\<lambda>a. unat (bn_count a)) (rev (ancestors n)) = [0..<Suc (unat (bn_count n))]"
  by (induction n rule: ancestors.induct) (auto split: option.splits)

lemma length_ancestors: "wf_node n \<Longrightarrow> length (ancestors n) = Suc (unat (bn_count n))"
  using arg_cong [OF ancestors_count [of n], of length] by simp

lemma ancestors_Cons: "ancestors n = n # (case bn_parent n of None \<Rightarrow> [] | Some p \<Rightarrow> ancestors p)"
  by (cases n) (auto split: option.splits)

text \<open>The walk stops at the ancestor with the wanted count.\<close>

lemma walk_count:
  assumes "wf_node n" and "k \<le> unat (bn_count n)"
    and "\<And>a. unat (bn_count a) = k \<Longrightarrow> P a" and "\<And>a. k < unat (bn_count a) \<Longrightarrow> \<not> P a"
  shows "walk P n = Some (rev (ancestors n) ! k)"
  using assms(1,2)
proof (induction n rule: wf_node.induct)
  case (1 p c h hs t b)
  let ?n = "BlockNode p c h hs t b"
  show ?case
  proof (cases "unat c = k")
    case True
    then show ?thesis
      using assms(3) [of ?n] length_ancestors [OF 1(2)]
      by (simp add: walk_find ancestors_Cons [of ?n] nth_append)
  next
    case False
    then obtain q where q: "p = Some q" "wf_node q" "unat c = Suc (unat (bn_count q))" "k \<le> unat (bn_count q)"
      using 1(2,3) by (cases p) auto
    then have "walk P q = Some (rev (ancestors q) ! k)" using 1(1) by simp
    then show ?thesis
      using False 1(3) q assms(4) [of ?n] length_ancestors [OF q(2)] by (simp add: nth_append)
  qed
qed

lemma ancestorByCount_nth:
  assumes "wf_node n"
  shows "ancestorByCount n c =
    (if unat c \<le> unat (bn_count n) then Some (rev (ancestors n) ! unat c) else None)"
  using assms
  by (auto simp: ancestorByCount_def word_less_nat_alt not_less word_unat_eq_iff intro!: walk_count)

lemma lastIrreversible_nth:
  assumes "wf_node n"
  shows "lastIrreversible n confirm = Ok (rev (ancestors n) ! (unat (bn_count n) - unat confirm))"
proof -
  define count where "count = (if bn_count n > confirm then bn_count n - confirm else 0)"
  have c: "unat count = unat (bn_count n) - unat confirm"
    by (simp add: count_def word_less_nat_alt unat_sub word_le_nat_alt)
  have "walk (\<lambda>irr. \<not> bn_count irr > count) n = Some (rev (ancestors n) ! (unat (bn_count n) - unat confirm))"
    using assms by (intro walk_count) (auto simp: word_less_nat_alt c)
  then show ?thesis by (simp add: lastIrreversible_def flip: count_def)
qed

lemma fetch_loop_ancestors:
  assumes "k \<le> length (ancestors n)"
  shows "fetch_loop k (Some n) bl = Ok (rev (take k (ancestors n)) @ bl)"
  using assms
proof (induction k arbitrary: n bl)
  case (Suc k)
  show ?case
  proof (cases "bn_parent n")
    case None
    then have "k = 0" using Suc.prems by (simp add: ancestors_Cons [of n])
    then show ?thesis by (simp add: ancestors_Cons [of n])
  next
    case (Some p)
    then show ?thesis using Suc by (simp add: ancestors_Cons [of n])
  qed
qed simp

lemma unat_distance:
  assumes "(from :: u32) \<le> c" and "unat c + 1 < 2 ^ 32"
  shows "unat (c - from + 1) = Suc (unat c - unat from)"
proof -
  have "unat (c - from) = unat c - unat from"
    using assms(1) by (simp add: unat_sub)
  then show ?thesis
    using assms(2) by (simp add: unat_word_ariths(1))
qed

lemma fetchNodeList_drop:
  assumes "wf_node n" and "unat (bn_count n) + 1 < 2 ^ 32"
  shows "fetchNodeList n from = Ok (drop (unat from) (rev (ancestors n)))"
proof (cases "bn_count n < from")
  case True
  then show ?thesis
    using length_ancestors [OF assms(1)] by (simp add: fetchNodeList_def word_less_nat_alt)
next
  case False
  then have le: "from \<le> bn_count n" by simp
  show ?thesis
    using False unat_distance [OF le assms(2)] le [unfolded word_le_nat_alt] length_ancestors [OF assms(1)]
    by (simp add: fetchNodeList_def fetch_loop_ancestors rev_take Suc_diff_le del: fetch_loop.simps)
qed

lemma hasAncestor_iff:
  assumes "wf_node n"
  shows "hasAncestor n anc \<longleftrightarrow>
    (\<exists>a \<in> set (ancestors n). bn_count a = bn_count anc \<and> bn_hash a = bn_hash anc)"
proof -
  have count: "bn_count (rev (ancestors n) ! i) = c \<longleftrightarrow> i = unat c" if "i \<le> unat (bn_count n)" for i c
  proof -
    have "map (\<lambda>a. unat (bn_count a)) (rev (ancestors n)) ! i = [0..<Suc (unat (bn_count n))] ! i"
      using ancestors_count [OF assms] by simp
    then have "unat (bn_count (rev (ancestors n) ! i)) = i"
      using that length_ancestors [OF assms] by (simp del: upt_Suc)
    then show ?thesis by (metis word_unat_eq_iff)
  qed
  have set: "set (ancestors n) = (!) (rev (ancestors n)) ` {..unat (bn_count n)}"
    using length_ancestors [OF assms]
    by (subst set_rev [symmetric]) (force simp only: set_conv_nth image_def length_rev less_Suc_eq_le mem_Collect_eq
        atMost_iff)
  then show ?thesis
    using assms count by (auto simp: hasAncestor_def ancestorByCount_nth set)
qed

lemma wf_newBlockNode:
  assumes "wf_node p" and "unat (bn_count p) + 1 < 2 ^ 32"
  shows "wf_node (newBlockNode h b (Some p))"
proof -
  have "unat (bn_count p + 1) = Suc (unat (bn_count p))"
    using assms(2) by (simp add: unat_word_ariths(1))
  then show ?thesis using assms(1) by (simp add: newBlockNode_def)
qed

lemma newBlockNode_sel [simp]:
  "bn_parent (newBlockNode h b p) = p" "bn_height (newBlockNode h b p) = h"
  "bn_hash (newBlockNode h b p) = block_BlockHash b" "bn_block (newBlockNode h b p) = Some b"
  "bn_txCount (newBlockNode h b p) = length (bl_Transactions b)"
  by (simp_all add: newBlockNode_def)

lemma ancestors_newBlockNode [simp]:
  "ancestors (newBlockNode h b (Some p)) = newBlockNode h b (Some p) # ancestors p"
  by (simp add: newBlockNode_def)

section \<open>Properties\<close>

text \<open>
  on a chain whose counts start at zero and grow by one, the node queries are
  positions in the list of blocks from the genesis block to the node: \<open>fetchNodeList\<close>
  returns the blocks from the given count on and never runs into a nil parent,
  \<open>ancestorByCount\<close> the block with that count, and \<open>lastIrreversible\<close> the block that
  has the given number of confirmations on top of it, or the genesis block.
\<close>

theorem node_queries_positions:
  assumes "wf_node n" and "unat (bn_count n) + 1 < 2 ^ 32"
  shows "fetchNodeList n from = Ok (drop (unat from) (rev (ancestors n))) \<and>
    ancestorByCount n c =
      (if unat c \<le> unat (bn_count n) then Some (rev (ancestors n) ! unat c) else None) \<and>
    lastIrreversible n confirm = Ok (rev (ancestors n) ! (unat (bn_count n) - unat confirm))"
  using fetchNodeList_drop [OF assms] ancestorByCount_nth [OF assms(1)] lastIrreversible_nth [OF assms(1)]
  by blast

definition example_genesis_node :: blockNode where
  "example_genesis_node = newBlockNode 0 (example_block [0] [] 0 []) None"

definition example_node :: "hash \<Rightarrow> u32 \<Rightarrow> Transaction list \<Rightarrow> blockNode \<Rightarrow> blockNode" where
  "example_node h height txs p = newBlockNode height (example_block h (bn_hash p) 0 txs) (Some p)"

lemma wf_example_genesis [simp]: "wf_node example_genesis_node" "bn_count example_genesis_node = 0"
  by (simp_all add: example_genesis_node_def newBlockNode_def)

theorem node_queries_positions_witness:
  "lastIrreversible (example_node [2] 7 [] (example_node [1] 5 [] example_genesis_node)) 1 =
     Ok (example_node [1] 5 [] example_genesis_node)"
proof -
  let ?n = "example_node [2] 7 [] (example_node [1] 5 [] example_genesis_node)"
  have "wf_node ?n \<and> unat (bn_count ?n) + 1 < 2 ^ 32"
    by (simp add: example_node_def example_genesis_node_def newBlockNode_def)
  then have "lastIrreversible ?n 1 = Ok (rev (ancestors ?n) ! (unat (bn_count ?n) - unat (1 :: u32)))"
    using node_queries_positions [of ?n] by blast
  then show ?thesis
    by (simp add: example_node_def example_genesis_node_def newBlockNode_def)
qed

text \<open>
  when the heights grow along the chain, \<open>ancestor\<close> finds the block of a height
  exactly when there is one; when a block claims an earlier time than its parent, it
  may miss a block that is there.
\<close>

theorem ancestor_finds_height:
  "(sorted_wrt (\<lambda>a b. bn_height b < bn_height a) (ancestors n) \<longrightarrow>
      ancestor n h = find (\<lambda>a. bn_height a = h) (ancestors n)) \<and>
   (\<exists>m a. wf_node m \<and> a \<in> set (ancestors m) \<and> bn_height a = 5 \<and> ancestor m 5 = None)"
proof (intro conjI impI)
  assume s: "sorted_wrt (\<lambda>a b. bn_height b < bn_height a) (ancestors n)"
  have find: "sorted_wrt (\<lambda>a b. bn_height b < bn_height a) xs \<Longrightarrow>
      find (\<lambda>a. bn_height a = h) xs =
        (case find (\<lambda>a. \<not> bn_height a > h) xs of Some a \<Rightarrow> if bn_height a \<noteq> h then None else Some a | None \<Rightarrow> None)"
    for xs
  proof (induction xs)
    case (Cons x xs)
    have "find (\<lambda>a. bn_height a = h) xs = None" if "bn_height x < h"
      using Cons.prems that by (auto simp: find_None_iff dest: less_trans)
    then show ?case using Cons by (auto simp: not_less)
  qed simp
  show "ancestor n h = find (\<lambda>a. bn_height a = h) (ancestors n)"
  proof (cases "h > bn_height n")
    case True
    have "\<forall>a \<in> set (ancestors n). bn_height a \<le> bn_height n"
      using s by (auto simp: ancestors_Cons [of n])
    with True have "find (\<lambda>a. bn_height a = h) (ancestors n) = None"
      by (auto simp: find_None_iff)
    with True show ?thesis by (simp add: ancestor_def)
  qed (simp add: ancestor_def walk_find find [OF s])
next
  let ?a = "example_node [1] 5 [] example_genesis_node"
  let ?m = "example_node [2] 3 [] ?a"
  have "wf_node ?m \<and> ?a \<in> set (ancestors ?m) \<and> bn_height ?a = 5 \<and> ancestor ?m 5 = None"
    by (simp add: example_node_def example_genesis_node_def newBlockNode_def ancestor_def)
  then show "\<exists>m a. wf_node m \<and> a \<in> set (ancestors m) \<and> bn_height a = 5 \<and> ancestor m 5 = None"
    by blast
qed

end
