(* ===== verification/Meta_Match.thy ===== *)
theory Meta_Match
  imports Meta_Properties "HOL-Library.Multiset"
begin

text \<open>
  The creation of databases: which miners are selected, what is charged, and that
  the selection, like every other transaction, depends only on what the state
  stands for and not on how it is split into indexes or in which order a map is
  visited.
\<close>

section \<open>Selecting miners\<close>

definition provider_matches :: "CreateDatabaseHeader \<Rightarrow> AccountAddress \<Rightarrow> ProviderProfile \<Rightarrow> bool" where
  "provider_matches tx user po \<longleftrightarrow>
     isProviderUserMatch (pp_TargetUser po) user \<and> fst (isProviderReqMatch po tx)"

lemma isProviderReqMatch_cases:
  "isProviderReqMatch po tx = (True, None) \<or> (\<exists>e. isProviderReqMatch po tx = (False, Some e))"
  by (simp add: isProviderReqMatch_def)

lemma filterAndAppendMiner_match:
  "provider_matches tx user po \<Longrightarrow> filterAndAppendMiner ms po tx user = (ms @ [new_miner po], None)"
  using isProviderReqMatch_cases [of po tx]
  by (auto simp: provider_matches_def filterAndAppendMiner_def)

lemma filterAndAppendMiner_skip:
  "\<not> provider_matches tx user po \<Longrightarrow> \<exists>e. filterAndAppendMiner ms po tx user = (ms, Some e)"
  using isProviderReqMatch_cases [of po tx]
  by (auto simp: provider_matches_def filterAndAppendMiner_def)

lemma fold_filter_miners:
  "fold (\<lambda>(_, po) ms. fst (filterAndAppendMiner ms po tx user)) m acc =
     acc @ map new_miner (filter (provider_matches tx user) (map snd m))"
proof (induction m arbitrary: acc)
  case (Cons kv m)
  then show ?case
    using filterAndAppendMiner_match [of tx user "snd kv" acc]
      filterAndAppendMiner_skip [of tx user "snd kv" acc]
    by (cases "provider_matches tx user (snd kv)") (auto simp: case_prod_beta)
qed simp

lemma allProviderMap_spec:
  assumes "meta_inv s"
  shows "minv (allProviderMap s ts)"
    and "mget (allProviderMap s ts) k = (if k \<in> set ts then None else loadProviderObject s k)"
proof -
  have inv: "minv (ix_provider (ms_readonly s))" "minv (dx_provider (ms_dirty s))"
    using assms by (auto simp: meta_inv_def)
  show "minv (allProviderMap s ts)"
    unfolding allProviderMap_def by (intro gm.inv_fold_del minv_commit_map) (simp add: inv deepCopy_map)
  show "mget (allProviderMap s ts) k = (if k \<in> set ts then None else loadProviderObject s k)"
    using inv
    by (simp add: allProviderMap_def gm.get_fold_del mget_commit_map deepCopy_map load_overlay
        dirty_defs ro_defs)
qed

text \<open>The miners chosen from a list of targets: at most the number wanted, each a provider that matches.\<close>

definition offered :: "metaState \<Rightarrow> CreateDatabaseHeader \<Rightarrow> AccountAddress \<Rightarrow> MinerInfo \<Rightarrow> bool" where
  "offered s tx user m \<longleftrightarrow>
     (\<exists>k po. loadProviderObject s k = Some po \<and> provider_matches tx user po \<and> m = new_miner po)"

lemma match_targets_spec:
  assumes "match_targets s tx user n ts ms err = (ms', err')" and "length ms < n"
    and "\<forall>m \<in> set ms. offered s tx user m"
  shows "length ms' \<le> n \<and> length ms' \<le> length ms + length ts \<and> (\<forall>m \<in> set ms'. offered s tx user m)"
  using assms
proof (induction ts arbitrary: ms err)
  case (Cons t ts)
  show ?case
  proof (cases "loadProviderObject s t")
    case None
    then show ?thesis using Cons by fastforce
  next
    case (Some po)
    show ?thesis
    proof (cases "provider_matches tx user po")
      case True
      have off: "\<forall>m \<in> set (ms @ [new_miner po]). offered s tx user m"
        using Cons.prems(3) Some True by (auto simp: offered_def)
      show ?thesis
      proof (cases "Suc (length ms) = n")
        case n: True
        then show ?thesis
          using Cons.prems(1) Some filterAndAppendMiner_match [OF True] off by auto
      next
        case False
        then have "match_targets s tx user n ts (ms @ [new_miner po]) None = (ms', err')"
          using Cons.prems(1) Some filterAndAppendMiner_match [OF True] by auto
        from Cons.IH [OF this _ off] False Cons.prems(2) show ?thesis by auto
      qed
    next
      case False
      then obtain e where "filterAndAppendMiner ms po tx user = (ms, Some e)"
        using filterAndAppendMiner_skip by blast
      then have "match_targets s tx user n ts ms (Some e) = (ms', err')"
        using Cons.prems(1,2) Some by auto
      from Cons.IH [OF this Cons.prems(2,3)] show ?thesis by auto
    qed
  qed
qed auto

lemma filterNMiners_spec:
  assumes "meta_inv s" and "filterNMiners s tx user n = Ok ms"
  shows "length ms = n \<and> (\<forall>m \<in> set ms. offered s tx user m)"
proof -
  define all where "all = allProviderMap s (rm_TargetMiners (cd_ResourceMeta tx))"
  define new where "new = map new_miner (filter (provider_matches tx user) (map snd all))"
  have ms: "ms = take n (sort_key mn_NodeID new)" "n \<le> length new"
    using assms(2) by (auto simp: filterNMiners_def Let_def fold_filter_miners all_def new_def
        split: if_splits)
  have "\<exists>k. loadProviderObject s k = Some po" if "po \<in> set (map snd all)" for po
  proof -
    from that obtain k where "(k, po) \<in> set all" by auto
    then have "mget all k = Some po" using allProviderMap_spec(1) [OF assms(1)] by (simp add: all_def)
    then show ?thesis using allProviderMap_spec(2) [OF assms(1)] by (auto simp: all_def split: if_splits)
  qed
  then have "\<forall>m \<in> set new. offered s tx user m"
    unfolding new_def offered_def set_map set_filter by blast
  then show ?thesis using ms by (auto dest: in_set_takeD)
qed

lemma select_miners_Ok:
  assumes "meta_inv s" and "0 < n" and "select_miners s tx user n = Ok ms"
  shows "length ms = n \<and> (\<forall>m \<in> set ms. offered s tx user m)"
proof -
  obtain ms0 err where m: "match_targets s tx user n (rm_TargetMiners (cd_ResourceMeta tx)) [] None = (ms0, err)"
    by fastforce
  note spec = match_targets_spec [OF m]
  show ?thesis
    using assms m spec filterNMiners_spec [OF assms(1)]
    by (fastforce simp: select_miners_def Let_def split: if_splits res.splits)
qed

section \<open>What creating a database does\<close>

lemma dirty_account_copy_Ok:
  assumes "no_nil_accounts s" and "dirty_account_copy k s = (s1, Ok a)"
  shows "no_nil_accounts s1" and "loadAccountObject s k = Some a"
    and "loadAccountObject s1 = loadAccountObject s"
    and "loadSQLChainObject s1 = loadSQLChainObject s" and "loadProviderObject s1 = loadProviderObject s"
proof -
  have c: "loadAccountObject s k = Some a" "s1 = s \<or> s1 = put_account k (Some a) s"
    using assms
    by (auto simp: dirty_account_copy_def load_overlay(1) overlay_view_def split: option.splits)
  then show "no_nil_accounts s1" "loadAccountObject s k = Some a"
      "loadAccountObject s1 = loadAccountObject s" "loadSQLChainObject s1 = loadSQLChainObject s"
      "loadProviderObject s1 = loadProviderObject s"
    using assms(1) by (auto simp: fun_eq_iff)
qed

lemma decreaseAccountToken_Ok:
  assumes "no_nil_accounts s" and "decreaseAccountToken k amount t s = (s', Ok u)"
  shows "balance_of s' t k + unat amount = balance_of s t k"
    and "loadSQLChainObject s' = loadSQLChainObject s" and "loadProviderObject s' = loadProviderObject s"
proof -
  obtain s1 a b where c: "dirty_account_copy k s = (s1, Ok a)" "tb_get (ac_TokenBalance a) t = Some b"
      "amount \<le> b"
      "s' = put_account k (Some (a \<lparr> ac_TokenBalance := tb_set (ac_TokenBalance a) t (b - amount) \<rparr>)) s1"
    using assms(2)
    by (auto simp: decreaseAccountToken_def update_token_def op_bind_def op_lift_def safeSub_def not_less
        split: prod.splits res.splits option.splits if_splits)
  note d = dirty_account_copy_Ok [OF assms(1) c(1)]
  show "balance_of s' t k + unat amount = balance_of s t k"
    using c d by (simp add: balance_of_def unat_sub word_le_nat_alt)
  show "loadSQLChainObject s' = loadSQLChainObject s" "loadProviderObject s' = loadProviderObject s"
    using c(4) d by auto
qed

lemma fold_deleteProvider:
  "loadAccountObject (fold (\<lambda>m. deleteProviderObject (mn_Address m)) ms s) = loadAccountObject s"
  "loadSQLChainObject (fold (\<lambda>m. deleteProviderObject (mn_Address m)) ms s) = loadSQLChainObject s"
  "loadProviderObject (fold (\<lambda>m. deleteProviderObject (mn_Address m)) ms s) k =
     (if k \<in> mn_Address ` set ms then None else loadProviderObject s k)"
  by (induction ms arbitrary: s) (auto simp: deleteProviderObject_def fun_eq_iff)

lemma create_database_Ok:
  assumes "no_nil_accounts s" and "create_database E tx ts sender dep miners s = (s', Ok u)"
  defines "dbID \<equiv> FromAccountAndNonce (THashH E) (cd_Owner tx) (cd_Nonce tx)"
  shows "\<exists>dbAddr enc. databaseID_AccountAddress dbID = Ok dbAddr \<and>
    loadSQLChainObject s dbID = None \<and>
    loadSQLChainObject s' dbID = Some (new_sqlchain tx sender dep miners dbID dbAddr enc) \<and>
    (\<forall>m \<in> set miners. loadProviderObject s' (mn_Address m) = None) \<and>
    (sender \<noteq> dbAddr \<longrightarrow>
      balance_of s' (cd_TokenType tx) sender + unat dep + unat (cd_AdvancePayment tx) =
        balance_of s (cd_TokenType tx) sender)"
proof -
  obtain dbAddr s1 enc where c: "databaseID_AccountAddress dbID = Ok dbAddr"
      "\<not> dep + cd_AdvancePayment tx < dep"
      "decreaseAccountToken sender (dep + cd_AdvancePayment tx) (cd_TokenType tx) s = (s1, Ok ())"
      "store_database dbAddr (new_sqlchain tx sender dep miners dbID dbAddr enc) s1 = (s', Ok u)"
    using assms(2)
    by (auto simp: create_database_def Let_def op_bind_def op_lift_def safeAdd_def dbID_def
        split: prod.splits res.splits option.splits if_splits)
  note d = decreaseAccountToken_Ok [OF assms(1) c(3)]
  have sum: "unat (dep + cd_AdvancePayment tx) = unat dep + unat (cd_AdvancePayment tx)"
    using c(2) by (simp add: not_less unat_plus_simple)
  let ?f = "fold (\<lambda>m. deleteProviderObject (mn_Address m)) miners"
  have s': "loadSQLChainObject s1 dbID = None"
      "s' = ?f (put_database dbID (Some (new_sqlchain tx sender dep miners dbID dbAddr enc))
             (put_account dbAddr (Some (empty_account dbAddr)) s1))"
    using c(4) by (auto simp: store_database_def new_sqlchain_def split: if_splits)
  then show ?thesis
    using c(1) d sum by (auto simp: fold_deleteProvider balance_of_def intro!: exI)
qed

lemma unat_Node: "unat (ucast (w :: u16) :: u64) = unat w"
proof -
  have "unat w < 2 ^ 16" using unsigned_less [of w] by simp
  then have "unat w < 2 ^ 64" by simp
  then show ?thesis by (simp add: unsigned_ucast_eq take_bit_nat_eq_self)
qed

lemma matchProvidersWithUser_Ok:
  assumes "matchProvidersWithUser E tx ts i s = (s', Ok u)"
  defines "n \<equiv> ucast (rm_Node (cd_ResourceMeta tx)) :: u64"
  shows "PubKeyHash (THashH E) (hv_Signee i) = Ok (cd_Owner tx)"
    and "0 < unat n" and "minDeposit E (cd_GasPrice tx) n \<le> cd_AdvancePayment tx"
    and "select_miners s tx (cd_Owner tx) (unat n) = Err None \<and> s' = s \<or>
      (\<exists>miners. select_miners s tx (cd_Owner tx) (unat n) = Ok miners \<and>
        create_database E tx ts (cd_Owner tx) (minDeposit E (cd_GasPrice tx) n) miners s = (s', Ok u))"
proof -
  have nz: "n \<noteq> 0" if "rm_Node (cd_ResourceMeta tx) \<noteq> 0"
    using that unat_Node [of "rm_Node (cd_ResourceMeta tx)"] by (auto simp: n_def unat_eq_0)
  show "PubKeyHash (THashH E) (hv_Signee i) = Ok (cd_Owner tx)" "0 < unat n"
      "minDeposit E (cd_GasPrice tx) n \<le> cd_AdvancePayment tx"
      "select_miners s tx (cd_Owner tx) (unat n) = Err None \<and> s' = s \<or>
      (\<exists>miners. select_miners s tx (cd_Owner tx) (unat n) = Ok miners \<and>
        create_database E tx ts (cd_Owner tx) (minDeposit E (cd_GasPrice tx) n) miners s = (s', Ok u))"
    using assms(1) nz
    by (auto simp: matchProvidersWithUser_def op_bind_def op_sender_def Let_def n_def [symmetric] not_less
        unat_gt_0 split: res.splits if_splits option.splits)
qed

text \<open>
  C31: when a request to create a database succeeds and changes the state, the
  database did not exist before; afterwards it exists with exactly as many entries
  in its list of miners as requested (a provider may fill several), each of them a registered provider that accepts the user and meets
  the request, and none of these providers is offered any more. The owner signed the
  request and, unless the owner's address is that of the database, paid the deposit and the
  advance payment, to the unit, and the advance payment covers the minimal deposit.
\<close>

theorem create_database_selects:
  assumes "wf_meta s" and "matchProvidersWithUser E tx ts i s = (s', Ok ())" and "s' \<noteq> s"
  shows "\<exists>dbID dbAddr db.
    dbID = FromAccountAndNonce (THashH E) (cd_Owner tx) (cd_Nonce tx) \<and>
    databaseID_AccountAddress dbID = Ok dbAddr \<and>
    PubKeyHash (THashH E) (hv_Signee i) = Ok (cd_Owner tx) \<and>
    loadSQLChainObject s dbID = None \<and> loadSQLChainObject s' dbID = Some db \<and>
    length (sc_Miners db) = unat (rm_Node (cd_ResourceMeta tx)) \<and>
    (\<forall>m \<in> set (sc_Miners db). offered s tx (cd_Owner tx) m \<and> loadProviderObject s' (mn_Address m) = None) \<and>
    (\<exists>u. sc_Users db = [u] \<and> su_Address u = cd_Owner tx \<and> su_Deposit u \<le> su_AdvancePayment u \<and>
      (cd_Owner tx \<noteq> dbAddr \<longrightarrow>
        balance_of s' (cd_TokenType tx) (cd_Owner tx) + unat (su_Deposit u) + unat (su_AdvancePayment u) =
          balance_of s (cd_TokenType tx) (cd_Owner tx)))"
proof -
  note m = matchProvidersWithUser_Ok [OF assms(2)]
  obtain miners where sel: "select_miners s tx (cd_Owner tx) (unat (rm_Node (cd_ResourceMeta tx))) = Ok miners"
      and create: "create_database E tx ts (cd_Owner tx)
        (minDeposit E (cd_GasPrice tx) (ucast (rm_Node (cd_ResourceMeta tx)))) miners s = (s', Ok ())"
    using m(4) assms(3) by (auto simp: unat_Node)
  have "length miners = unat (rm_Node (cd_ResourceMeta tx)) \<and> (\<forall>m \<in> set miners. offered s tx (cd_Owner tx) m)"
    using m(2) by (intro select_miners_Ok [OF _ _ sel]) (auto simp: assms(1) unat_Node)
  moreover note create_database_Ok [OF wf_no_nil [OF assms(1)] create]
  ultimately show ?thesis
    using m(1,3) by (fastforce simp: new_sqlchain_def)
qed

definition example_provider :: "AccountAddress \<Rightarrow> ProviderProfile" where
  "example_provider k =
     \<lparr> pp_Provider = k, pp_Space = 0, pp_Memory = 0, pp_LoadAvgPerCPU = F64 0, pp_TargetUser = [],
       pp_Deposit = 10, pp_GasPrice = 1, pp_TokenType = Particle, pp_NodeID = ''''  \<rparr>"

definition example_owner :: AccountAddress where
  "example_owner = replicate 32 1"

definition example_owner_env :: tx_env where
  "example_owner_env = example_env \<lparr> THashH := (\<lambda>b. if b = [] then example_owner else zero_hash) \<rparr>"

definition example_create :: "AccountAddress list \<Rightarrow> u16 \<Rightarrow> CreateDatabaseHeader" where
  "example_create targets n =
     \<lparr> cd_Owner = example_owner,
       cd_ResourceMeta = empty_ResourceMeta \<lparr> rm_TargetMiners := targets, rm_Node := n \<rparr>,
       cd_GasPrice = 1, cd_AdvancePayment = 5, cd_TokenType = Particle, cd_Nonce = 0 \<rparr>"

definition example_offer_state :: metaState where
  "example_offer_state =
     put_provider [7] (Some (example_provider [7])) (example_state [example_account example_owner 9])"

lemma wf_example_offer: "wf_meta example_offer_state"
  by (auto simp: example_offer_state_def example_provider_def intro!: wf_put_provider)

lemma load_example_offer [simp]:
  "loadProviderObject example_offer_state k = (if k = [7] then Some (example_provider [7]) else None)"
  "loadAccountObject example_offer_state k =
     (if k = example_owner then Some (example_account example_owner 9) else None)"
  "loadSQLChainObject example_offer_state d = None"
  by (simp_all add: example_offer_state_def)
    (simp_all add: load_overlay overlay_view_def dirty_defs ro_defs example_defs)

lemma example_matches [simp]:
  "provider_matches (example_create ts n) u (example_provider k)"
  by (simp add: provider_matches_def isProviderUserMatch_def isProviderReqMatch_def example_create_def
      example_provider_def empty_ResourceMeta_def)

lemma example_owner_env_simps [simp]:
  "THashH example_owner_env [] = example_owner"
  "minDeposit example_owner_env g n = g * n"
  "PubKeyHash (THashH example_owner_env) (hv_Signee (example_hsv [])) = Ok example_owner"
  by (simp_all add: example_owner_env_def example_defs minDeposit_def PubKeyHash_def)

lemma example_create_simps [simp]:
  "cd_Owner (example_create ts n) = example_owner"
  "rm_TargetMiners (cd_ResourceMeta (example_create ts n)) = ts"
  "rm_Node (cd_ResourceMeta (example_create ts n)) = n"
  "cd_GasPrice (example_create ts n) = 1" "cd_AdvancePayment (example_create ts n) = 5"
  "cd_TokenType (example_create ts n) = Particle" "cd_Nonce (example_create ts n) = 0"
  by (simp_all add: example_create_def)

lemma example_database_id:
  "databaseID_AccountAddress (FromAccountAndNonce (THashH example_owner_env) example_owner 0) = Ok zero_hash"
proof -
  have "string_bytes (hash_String example_owner @ itoa 0) \<noteq> []"
    by (simp add: string_bytes_def itoa.simps)
  then show ?thesis
    by (simp add: databaseID_AccountAddress_def NewHashFromStr_def FromAccountAndNonce_def
        hash_Decode_String example_owner_env_def)
qed

lemma example_decrease:
  "decreaseAccountToken example_owner 6 Particle example_offer_state =
     (put_account example_owner (Some (example_account example_owner 3))
       (put_account example_owner (Some (example_account example_owner 9)) example_offer_state), Ok ())"
  by (simp add: decreaseAccountToken_def update_token_def op_bind_def op_lift_def dirty_account_copy_def
      safeSub_def example_offer_state_def dirty_defs ro_defs put_defs example_defs)

lemma example_genesis:
  "\<exists>gb. generateGenesisBlock example_owner_env 0 = Ok gb" "encode_genesis_block example_owner_env gb = Some []"
  by (simp_all add: generateGenesisBlock_def example_owner_env_def example_defs hsv_SetHash_def Let_def)

theorem create_database_selects_witness:
  "\<exists>s' db.
    matchProvidersWithUser example_owner_env (example_create [[7]] 1) 0 (example_hsv [])
      example_offer_state = (s', Ok ()) \<and>
    loadSQLChainObject s' (FromAccountAndNonce (THashH example_owner_env) example_owner 0) = Some db \<and>
    length (sc_Miners db) = 1"
proof -
  let ?tx = "example_create [[7]] 1"
  let ?run = "matchProvidersWithUser example_owner_env ?tx 0 (example_hsv []) example_offer_state"
  have sel: "select_miners example_offer_state ?tx example_owner (Suc 0) = Ok [new_miner (example_provider [7])]"
    by (simp add: select_miners_def filterAndAppendMiner_match)
  obtain gb where gb: "generateGenesisBlock example_owner_env 0 = Ok gb"
    using example_genesis(1) by blast
  have "snd ?run = Ok () \<and> loadSQLChainObject (fst ?run)
      (FromAccountAndNonce (THashH example_owner_env) example_owner 0) \<noteq> None"
    using sel
    by (simp add: matchProvidersWithUser_def create_database_def example_database_id op_bind_def op_lift_def op_sender_def safeAdd_def
        example_decrease gb example_genesis(2) store_database_def deleteProviderObject_def
        new_sqlchain_def)
  then obtain s' where run: "?run = (s', Ok ())" and ne: "s' \<noteq> example_offer_state"
    by (metis load_example_offer(3) surjective_pairing)
  from create_database_selects [OF wf_example_offer run ne] run show ?thesis
    by auto
qed

section \<open>A creation that does nothing\<close>

lemma match_targets_prefix:
  assumes "length ms + length ts < n"
  shows "\<exists>ms' err'. length ms' \<le> length ms + length (filter (\<lambda>k. loadProviderObject s k \<noteq> None) ts) \<and>
    match_targets s tx user n (ts @ us) ms err = match_targets s tx user n us ms' err'"
  using assms
proof (induction ts arbitrary: ms err)
  case Nil
  then show ?case by auto
next
  case (Cons t ts)
  show ?case
  proof (cases "loadProviderObject s t")
    case None
    then show ?thesis using Cons.IH [of ms "Some ErrNoSuchMiner"] Cons.prems by simp
  next
    case (Some po)
    obtain ms1 e1 where f: "filterAndAppendMiner ms po tx user = (ms1, e1)" "length ms1 \<le> Suc (length ms)"
      using filterAndAppendMiner_match [of tx user po ms] filterAndAppendMiner_skip [of tx user po ms]
      by (cases "provider_matches tx user po") auto
    then obtain ms' err' where "length ms' \<le> length ms1 + length (filter (\<lambda>k. loadProviderObject s k \<noteq> None) ts)"
        "match_targets s tx user n (ts @ us) ms1 e1 = match_targets s tx user n us ms' err'"
      using Cons.IH [of ms1 e1] Cons.prems by auto
    moreover have "length ms1 \<noteq> n" using f(2) Cons.prems by simp
    ultimately show ?thesis using f Some by (intro exI [of _ ms'] exI [of _ err']) simp
  qed
qed

text \<open>
  a request that names as many target miners as it needs, one of which is not a
  registered provider while the last one matches, is reported as a success although
  no database is created and the state is left as it was: the error of the last
  loop iteration, which is nil, is wrapped and returned in place of "not enough
  miners".
\<close>

theorem create_database_silent:
  assumes "PubKeyHash (THashH E) (hv_Signee i) = Ok (cd_Owner tx)"
    and "cd_GasPrice tx \<noteq> 0" and "rm_Node (cd_ResourceMeta tx) \<noteq> 0"
    and "minDeposit E (cd_GasPrice tx) (ucast (rm_Node (cd_ResourceMeta tx))) \<le> cd_AdvancePayment tx"
    and targets: "rm_TargetMiners (cd_ResourceMeta tx) = ks @ [k]"
    and len: "Suc (length ks) = unat (rm_Node (cd_ResourceMeta tx))"
    and missing: "j \<in> set ks" "loadProviderObject s j = None"
    and last: "loadProviderObject s k = Some po" "provider_matches tx (cd_Owner tx) po"
  shows "matchProvidersWithUser E tx ts i s = (s, Ok ())"
proof -
  let ?n = "unat (rm_Node (cd_ResourceMeta tx))"
  have "length (filter (\<lambda>k. loadProviderObject s k \<noteq> None) ks) < length ks"
    using missing by (auto intro!: length_filter_less)
  moreover have "length [] + length ks < ?n" using len by simp
  ultimately obtain ms' err' where ms: "length ms' < length ks"
      "match_targets s tx (cd_Owner tx) ?n (ks @ [k]) [] None =
         match_targets s tx (cd_Owner tx) ?n [k] ms' err'"
    using match_targets_prefix [of "[]" ks ?n s tx "cd_Owner tx" "[k]" None] by force
  then have "match_targets s tx (cd_Owner tx) ?n (ks @ [k]) [] None = (ms' @ [new_miner po], None)"
    using last len by (simp add: filterAndAppendMiner_match)
  then have "select_miners s tx (cd_Owner tx) ?n = Err None"
    using ms(1) len by (simp add: select_miners_def targets errors_Wrap_def)
  then show ?thesis
    using assms(1-4) by (simp add: matchProvidersWithUser_def op_bind_def op_sender_def unat_Node not_less Let_def)
qed

theorem create_database_silent_witness:
  "matchProvidersWithUser example_owner_env (example_create [[8], [7]] 2) 0 (example_hsv [])
     example_offer_state = (example_offer_state, Ok ())"
  by (rule create_database_silent [where ks = "[[8]]" and k = "[7]" and j = "[8]"
        and po = "example_provider [7]"]) (simp_all add: word_le_nat_alt)

section \<open>Equal views give equal results\<close>

text \<open>
  Two states stand for the same data when every load returns the same, whichever
  index the objects are in and in whichever order the maps list their entries.
\<close>

definition same_view :: "metaState \<Rightarrow> metaState \<Rightarrow> bool" where
  "same_view s t \<longleftrightarrow>
     meta_inv s \<and> meta_inv t \<and> no_nil_accounts s \<and> no_nil_accounts t \<and>
     loadAccountObject s = loadAccountObject t \<and> loadSQLChainObject s = loadSQLChainObject t \<and>
     loadProviderObject s = loadProviderObject t"

definition distinct_node_ids :: "metaState \<Rightarrow> bool" where
  "distinct_node_ids s \<longleftrightarrow>
     (\<forall>k k' p p'. loadProviderObject s k = Some p \<longrightarrow> loadProviderObject s k' = Some p' \<longrightarrow>
        pp_NodeID p = pp_NodeID p' \<longrightarrow> k = k')"

text \<open>An operation agrees on two states: the same outcome, and states with the same view.\<close>

definition agrees :: "'a meta_op \<Rightarrow> metaState \<Rightarrow> metaState \<Rightarrow> bool" where
  "agrees m s t \<longleftrightarrow> snd (m s) = snd (m t) \<and> same_view (fst (m s)) (fst (m t))"

lemma same_view_put [intro]:
  "same_view s t \<Longrightarrow> same_view (put_account k (Some a) s) (put_account k (Some a) t)"
  "same_view s t \<Longrightarrow> same_view (put_database d b s) (put_database d b t)"
  "same_view s t \<Longrightarrow> same_view (put_provider k p s) (put_provider k p t)"
  by (simp_all add: same_view_def fun_eq_iff)

lemma agrees_bind [intro]:
  assumes "agrees m s t" and "\<And>x s t. same_view s t \<Longrightarrow> agrees (f x) s t"
  shows "agrees (op_bind m f) s t"
  using assms
  by (cases "m s"; cases "m t"; cases "snd (m s)") (auto simp: agrees_def op_bind_def)

lemma agrees_lift [intro]: "same_view s t \<Longrightarrow> agrees (op_lift r) s t"
  by (simp add: agrees_def op_lift_def)

lemma agrees_sender [intro]: "same_view s t \<Longrightarrow> agrees (op_sender E i) s t"
  by (auto simp: agrees_def op_sender_def split: res.splits)

lemma agrees_put:
  "same_view s t \<Longrightarrow> agrees (\<lambda>s. (put_account k (Some a) s, r)) s t"
  "same_view s t \<Longrightarrow> agrees (\<lambda>s. (put_database d b s, r)) s t"
  "same_view s t \<Longrightarrow> agrees (\<lambda>s. (put_provider k p s, r)) s t"
  "same_view s t \<Longrightarrow> agrees (\<lambda>s. (s, r)) s t"
  by (auto simp: agrees_def)

lemma dirty_account_copy_view:
  assumes "no_nil_accounts s"
  shows "dirty_account_copy k s =
    (case loadAccountObject s k of
       None \<Rightarrow> (s, Err ErrAccountNotFound)
     | Some a \<Rightarrow> (if dirty_account s k = None then put_account k (Some a) s else s, Ok a))"
  using assms
  by (auto simp: dirty_account_copy_def load_overlay(1) overlay_view_def no_nil_accounts_def
      split: option.splits) (metis option.exhaust)

lemma agrees_account_copy [intro]: "same_view s t \<Longrightarrow> agrees (dirty_account_copy k) s t"
  by (auto simp: agrees_def same_view_def dirty_account_copy_view fun_eq_iff split: option.splits)

lemma agrees_update_token [intro]: "same_view s t \<Longrightarrow> agrees (update_token f k ty) s t"
  unfolding update_token_def by (intro agrees_bind agrees_account_copy agrees_lift agrees_put)

lemma agrees_increaseNonce [intro]: "same_view s t \<Longrightarrow> agrees (increaseNonce k) s t"
  unfolding increaseNonce_def by (intro agrees_bind agrees_account_copy agrees_put)

lemma find_object_view:
  assumes "no_nil_accounts s"
  shows "find_object (dirty_account s k) (ro_account s k) =
    (case loadAccountObject s k of None \<Rightarrow> NotFound
     | Some a \<Rightarrow> if dirty_account s k = None then FoundReadonly a else FoundDirty a)"
  using assms
  by (auto simp: find_object_def load_overlay(1) overlay_view_def no_nil_accounts_def
      split: option.splits)

lemma agrees_storeBaseAccount [intro]: "same_view s t \<Longrightarrow> agrees (storeBaseAccount k a) s t"
  by (auto simp: agrees_def same_view_def storeBaseAccount_def loadOrStoreAccountObject_def
      find_object_view fun_eq_iff simp del: add_balances.simps split: option.splits res.splits)

lemma same_view_loadOrStore:
  "same_view s t \<Longrightarrow>
     same_view (fst (loadOrStoreAccountObject k a s)) (fst (loadOrStoreAccountObject k a t))"
  by (auto simp: same_view_def loadOrStoreAccountObject_def find_object_view fun_eq_iff
      split: option.splits)

lemma same_view_object:
  "same_view s t \<Longrightarrow> transfer_object s k = transfer_object t k \<and> object_or_panic s k = object_or_panic t k"
  by (simp add: same_view_def transfer_object_load object_or_panic_load)

lemma agrees_transferAccountToken:
  assumes "same_view s t"
  shows "agrees (transferAccountToken E tx i) s t"
proof -
  let ?st = "\<lambda>s. fst (loadOrStoreAccountObject (tr_Receiver tx) (empty_account (tr_Receiver tx)) s)"
  have v: "same_view (?st s) (?st t)" using assms by (rule same_view_loadOrStore)
  note o = same_view_object [OF v]
  show ?thesis
    using assms v o
    by (auto simp: agrees_def transferAccountToken_def Let_def op_bind_def op_lift_def
        split: res.splits option.splits)
qed

lemma agrees_transferSQLChain:
  assumes "same_view s t"
  shows "agrees (transferSQLChainTokenBalance E tx i) s t"
proof -
  have l: "loadSQLChainObject t = loadSQLChainObject s" "loadAccountObject t = loadAccountObject s"
    using assms by (auto simp: same_view_def)
  show ?thesis
    using assms
    by (auto simp: agrees_def transferSQLChainTokenBalance_def Let_def op_bind_def op_lift_def
        op_sender_def l split: res.splits option.splits)
qed

lemma agrees_transfer:
  assumes "same_view s t"
  shows "agrees (\<lambda>s. applyTransaction E (Transfer tx m i) h s) s t"
proof -
  obtain s1 t1 r where st: "transferSQLChainTokenBalance E tx i s = (s1, r)"
      "transferSQLChainTokenBalance E tx i t = (t1, r)" "same_view s1 t1"
    using agrees_transferSQLChain [OF assms, of E tx i]
    by (cases "transferSQLChainTokenBalance E tx i s"; cases "transferSQLChainTokenBalance E tx i t")
      (auto simp: agrees_def)
  then show ?thesis
    using agrees_transferAccountToken [OF st(3), of E tx i]
    by (auto simp: agrees_def split: res.splits bp_error.splits)
qed

lemma agrees_updateProviderList:
  assumes "same_view s t"
  shows "agrees (updateProviderList E tx i h) s t"
proof -
  have refund: "agrees (refund_provider k) s t" if "same_view s t" for k s t
  proof -
    have l: "loadProviderObject s k = loadProviderObject t k" using that by (simp add: same_view_def)
    have "agrees (op_bind (increaseAccountStableBalance k d) (\<lambda>_ s. (deleteProviderObject k s, Ok ()))) s t" for d
      unfolding increaseAccountStableBalance_def increaseAccountToken_def deleteProviderObject_def
      using that by (intro agrees_bind agrees_update_token agrees_put)
    then show ?thesis
      using that by (cases "loadProviderObject t k") (auto simp: agrees_def refund_provider_def l)
  qed
  have "agrees (if b then refund_provider k else op_lift (Ok ())) s t" if "same_view s t" for b k s t
    by (simp add: refund agrees_lift that)
  then show ?thesis
    unfolding updateProviderList_def decreaseAccountStableBalance_def decreaseAccountToken_def
    using assms by (intro agrees_bind agrees_sender agrees_update_token agrees_put)
qed

lemma agrees_users:
  assumes "same_view s t"
  shows "agrees (updatePermission E up i) s t" and "agrees (updateKeys E ik i) s t"
    and "agrees (updateBilling E ub i) s t"
proof -
  have l: "loadSQLChainObject t = loadSQLChainObject s"
    using assms by (auto simp: same_view_def)
  show "agrees (updatePermission E up i) s t" "agrees (updateKeys E ik i) s t"
      "agrees (updateBilling E ub i) s t"
    using assms
    by (auto simp: agrees_def updatePermission_def updateKeys_def updateBilling_def op_bind_def op_sender_def
        l Let_def split: res.splits option.splits prod.splits)
qed

lemma sort_key_unique:
  assumes "mset xs = mset ys" and "inj_on f (set xs)"
  shows "sort_key f xs = sort_key f ys"
  using assms by (intro sort_key_inj_key_eq) simp_all

lemma mset_minv:
  assumes "minv m" and "minv m'" and "mget m = mget m'"
  shows "mset m = mset m'"
proof -
  have "set m = {(k, v). mget m k = Some v}" using assms(1) by simp
  also have "\<dots> = {(k, v). mget m' k = Some v}" by (simp add: assms(3))
  also have "\<dots> = set m'" using assms(2) by simp
  finally show ?thesis
    using assms(1,2) by (simp add: distinct_map set_eq_iff_mset_eq_distinct [symmetric])
qed

lemma filterNMiners_same:
  assumes v: "same_view s t" and d: "distinct_node_ids s"
  shows "filterNMiners s tx user n = filterNMiners t tx user n"
proof -
  let ?ts = "rm_TargetMiners (cd_ResourceMeta tx)"
  let ?new = "\<lambda>s. map new_miner (filter (provider_matches tx user) (map snd (allProviderMap s ?ts)))"
  have inv: "meta_inv s" "meta_inv t" using v by (auto simp: same_view_def)
  note a = allProviderMap_spec [OF inv(1)] and b = allProviderMap_spec [OF inv(2)]
  have get: "mget (allProviderMap s ?ts) = mget (allProviderMap t ?ts)"
    using v by (auto simp: a(2) b(2) same_view_def)
  have "mset (allProviderMap s ?ts) = mset (allProviderMap t ?ts)"
    using a(1) b(1) get by (rule mset_minv)
  then have m: "mset (?new s) = mset (?new t)" by simp
  have "inj_on pp_NodeID (snd ` set (allProviderMap s ?ts))"
  proof (rule inj_onI)
    fix p p'
    assume "p \<in> snd ` set (allProviderMap s ?ts)" "p' \<in> snd ` set (allProviderMap s ?ts)"
      and e: "pp_NodeID p = pp_NodeID p'"
    then obtain k k' where "(k, p) \<in> set (allProviderMap s ?ts)" "(k', p') \<in> set (allProviderMap s ?ts)"
      by auto
    then have "mget (allProviderMap s ?ts) k = Some p" "mget (allProviderMap s ?ts) k' = Some p'"
      using a(1) [of ?ts] by simp_all
    then have "loadProviderObject s k = Some p" "loadProviderObject s k' = Some p'"
      by (auto simp: a(2) split: if_splits)
    with d e show "p = p'" by (metis distinct_node_ids_def option.inject)
  qed
  moreover have "mn_NodeID \<circ> new_miner = pp_NodeID" by (auto simp: new_miner_def)
  ultimately have "inj_on mn_NodeID (set (?new s))"
    by (auto intro!: inj_on_imageI elim!: inj_on_subset)
  with m have "sort_key mn_NodeID (?new s) = sort_key mn_NodeID (?new t)" by (rule sort_key_unique)
  then show ?thesis
    using mset_eq_length [OF m] by (simp add: filterNMiners_def Let_def fold_filter_miners)
qed

lemma agrees_create:
  assumes v: "same_view s t" and d: "distinct_node_ids s"
  shows "agrees (matchProvidersWithUser E tx ts i) s t"
proof -
  have l: "loadProviderObject t = loadProviderObject s" using v by (simp add: same_view_def)
  have "match_targets t tx u n ks ms e = match_targets s tx u n ks ms e" for u n ks ms e
    by (induction ks arbitrary: ms e) (auto simp: l split: option.splits prod.splits)
  then have sel: "select_miners t tx u n = select_miners s tx u n" for u n
    by (simp add: select_miners_def filterNMiners_same [OF v d] Let_def split: prod.split)
  have del: "same_view (fold (\<lambda>m. deleteProviderObject (mn_Address m)) ms s)
      (fold (\<lambda>m. deleteProviderObject (mn_Address m)) ms t)" if "same_view s t" for ms :: "MinerInfo list" and s t
    using that by (induction ms arbitrary: s t) (auto simp: deleteProviderObject_def)
  have store: "agrees (store_database a sp) s t" if "same_view s t" for a sp s t
  proof -
    have "loadSQLChainObject s = loadSQLChainObject t" using that by (simp add: same_view_def)
    then show ?thesis
      using that del [OF same_view_put(2) [OF same_view_put(1) [OF that]]]
      by (simp add: agrees_def store_database_def)
  qed
  have create: "agrees (create_database E tx ts u dep ms) s t" for u dep ms
    unfolding create_database_def Let_def decreaseAccountToken_def
    by (intro agrees_bind agrees_lift agrees_update_token store v)
  have "agrees (\<lambda>s. case select_miners s tx u n of
        Err None \<Rightarrow> (s, Ok ()) | Err (Some e) \<Rightarrow> (s, Err e) | Panic \<Rightarrow> (s, Panic)
      | Ok miners \<Rightarrow> create_database E tx ts u dep miners s) s t" for u n dep
    using v create by (auto simp: agrees_def sel split: res.split option.split)
  then show ?thesis
    using v by (cases "PubKeyHash (THashH E) (hv_Signee i)")
      (auto simp: agrees_def matchProvidersWithUser_def op_bind_def op_sender_def Let_def)
qed

lemma agrees_applyTransaction:
  assumes "same_view s t" and "distinct_node_ids s"
  shows "agrees (applyTransaction E tx h) s t"
  using assms
proof (induction tx)
  case (Transfer tx m i)
  then show ?case using agrees_transfer by blast
qed (auto simp: agrees_def agrees_create [unfolded agrees_def] agrees_updateProviderList [unfolded agrees_def]
      agrees_users [unfolded agrees_def] agrees_storeBaseAccount [unfolded agrees_def])

text \<open>
  C30: applying a transaction depends only on what the state stands for. Two states
  with the same accounts, databases and providers, however these are split between
  the dirty and the read-only index and in whatever order the maps are visited, give
  the same outcome and end with the same accounts, databases and providers, as long
  as no two providers have the same node id.
\<close>

theorem apply_depends_on_view:
  assumes "same_view s t" and "distinct_node_ids s"
  shows "snd (meta_apply E tx h s) = snd (meta_apply E tx h t) \<and>
    same_view (fst (meta_apply E tx h s)) (fst (meta_apply E tx h t))"
proof -
  have "nextNonce s k = nextNonce t k" for k
    using same_view_object [OF assms(1), of k] by (simp add: nextNonce_def)
  moreover have "agrees (op_bind (applyTransaction E tx h) (\<lambda>_. increaseNonce k)) s t" for k
    using agrees_applyTransaction [OF assms] by (rule agrees_bind) (rule agrees_increaseNonce)
  ultimately have "agrees (meta_apply E tx h) s t"
    using assms(1) by (auto simp: agrees_def meta_apply_def Let_def split: res.splits)
  then show ?thesis by (simp add: agrees_def)
qed

lemma same_view_commit: "wf_meta s \<Longrightarrow> same_view s (metaState_commit s)"
  using wf_commit [of s] by (simp add: same_view_def)

theorem apply_depends_on_view_witness:
  "snd (meta_apply example_env example_transfer 0 example_offer_state) =
     snd (meta_apply example_env example_transfer 0 (metaState_commit example_offer_state)) \<and>
   ms_dirty example_offer_state \<noteq> ms_dirty (metaState_commit example_offer_state)"
proof -
  have "same_view example_offer_state (metaState_commit example_offer_state)"
    by (rule same_view_commit [OF wf_example_offer])
  moreover have "distinct_node_ids example_offer_state"
    by (simp add: distinct_node_ids_def)
  ultimately have "snd (meta_apply example_env example_transfer 0 example_offer_state) =
      snd (meta_apply example_env example_transfer 0 (metaState_commit example_offer_state))"
    using apply_depends_on_view by blast
  moreover have "ms_dirty example_offer_state \<noteq> ms_dirty (metaState_commit example_offer_state)"
    by (simp add: example_offer_state_def put_defs metaState_commit_def newDirtyIndex_def example_defs)
  ultimately show ?thesis ..
qed

text \<open>
  without that condition the outcome depends on the order in which the map of
  providers is visited. Two providers may register the same node id, and two nodes
  that hold the same providers but visit them in different orders then choose
  different miners for the same request.
\<close>

theorem miner_choice_depends_on_order:
  "\<exists>s t tx. same_view s t \<and>
     filterNMiners s tx example_owner 1 = Ok [new_miner (example_provider [7])] \<and>
     filterNMiners t tx example_owner 1 = Ok [new_miner (example_provider [8])]"
proof -
  let ?put = "\<lambda>k. put_provider [k] (Some (example_provider [k]))"
  let ?s = "?put 8 (?put 7 newMetaState)" and ?t = "?put 7 (?put 8 newMetaState)"
  let ?tx = "example_create [] 1"
  have id: "mn_NodeID (new_miner (example_provider k)) = []" for k
    by (simp add: new_miner_def example_provider_def)
  have v: "same_view ?s ?t" by (simp add: same_view_def fun_eq_iff)
  have "allProviderMap ?s [] = [([7], example_provider [7]), ([8], example_provider [8])]"
      "allProviderMap ?t [] = [([8], example_provider [8]), ([7], example_provider [7])]"
    by (simp_all add: allProviderMap_def put_defs newMetaState_def newDirtyIndex_def newMetaIndex_def
        commit_map_def)
  then have "filterNMiners ?s ?tx example_owner 1 = Ok [new_miner (example_provider [7])]"
      "filterNMiners ?t ?tx example_owner 1 = Ok [new_miner (example_provider [8])]"
    using id by (simp_all add: filterNMiners_def Let_def filterAndAppendMiner_match)
  with v show ?thesis by blast
qed

end
