(* ===== verification/Branch.thy ===== *)
theory Branch
  imports Block_Node Meta_Match "HOL-Library.Product_Lexorder"
begin

text \<open>
  The branches of \<open>blockproducer/branch.go\<close>: a head block, the state after it, the
  transactions packed since the last irreversible block and the pool of those waiting.
  A branch grows by applying a received block or by producing one.
\<close>

section \<open>Branches\<close>

record branch =
  br_head :: blockNode
  br_preview :: metaState
  br_packed :: "(hash, Transaction) gomap"
  br_unpacked :: "(hash, Transaction) gomap"

definition MaxTransactionsPerBlock :: nat where
  "MaxTransactionsPerBlock = 10000"

text \<open>
  The body of the loops of \<open>newBranch\<close> and \<open>applyBlock\<close> over the transactions of a
  block: a transaction of the pool leaves it without being verified again, any other
  one is verified; then a packed one is an error, and the others are packed and applied.
\<close>

definition pack_checked :: "tx_env \<Rightarrow> u32 \<Rightarrow> Transaction \<Rightarrow> branch \<Rightarrow> branch \<times> (bp_error, unit) res" where
  "pack_checked E height v b =
     (if mget (br_packed b) (tx_Hash v) \<noteq> None then (b, Err ErrExistedTx)
      else
        (case meta_apply E v height (br_preview b) of (s, r) \<Rightarrow>
           (b \<lparr> br_packed := mput (tx_Hash v) v (br_packed b), br_preview := s \<rparr>, r)))"

definition pack_tx :: "tx_env \<Rightarrow> u32 \<Rightarrow> Transaction \<Rightarrow> branch \<Rightarrow> branch \<times> (bp_error, unit) res" where
  "pack_tx E height v b =
     (let k = tx_Hash v in
      if mget (br_unpacked b) k \<noteq> None
      then pack_checked E height v (b \<lparr> br_unpacked := mdel k (br_unpacked b) \<rparr>)
      else case tx_Verify E v of
        Ok _ \<Rightarrow> pack_checked E height v b
      | Err e \<Rightarrow> (b, Err (ErrVerify e))
      | Panic \<Rightarrow> (b, Panic))"

fun pack_txs :: "tx_env \<Rightarrow> u32 \<Rightarrow> Transaction list \<Rightarrow> branch \<Rightarrow> branch \<times> (bp_error, unit) res" where
  "pack_txs E height [] b = (b, Ok ())"
| "pack_txs E height (v # vs) b =
     (case pack_tx E height v b of (b, Ok _) \<Rightarrow> pack_txs E height vs b | r \<Rightarrow> r)"

text \<open>The outer loop of \<open>newBranch\<close>: a node without a cached block is a nil dereference.\<close>

fun pack_nodes :: "tx_env \<Rightarrow> blockNode list \<Rightarrow> branch \<Rightarrow> branch \<times> (bp_error, unit) res" where
  "pack_nodes E [] b = (b, Ok ())"
| "pack_nodes E (bn # bns) b =
     (if bn_txCount bn > MaxTransactionsPerBlock then (b, Err ErrTooManyTransactionsInBlock)
      else case bn_block bn of
        None \<Rightarrow> (b, Panic)
      | Some block \<Rightarrow>
          (case pack_txs E (bn_height bn) (bl_Transactions block) b of
             (b, Ok _) \<Rightarrow> pack_nodes E bns b | r \<Rightarrow> r))"

definition newBranch ::
    "tx_env \<Rightarrow> blockNode \<Rightarrow> blockNode \<Rightarrow> metaState \<Rightarrow> (hash, Transaction) gomap \<Rightarrow> (bp_error, branch) res" where
  "newBranch E baseNode headNode baseState basePool =
     (case fetchNodeList headNode (bn_count baseNode + 1) of
        Ok list \<Rightarrow>
          (let inst = \<lparr> br_head = headNode, br_preview = metaState_makeCopy baseState, br_packed = [],
                        br_unpacked = fold (\<lambda>(k, v). mput k v) basePool [] \<rparr>
           in case pack_nodes E list inst of
                (inst, Ok _) \<Rightarrow> Ok (inst \<lparr> br_preview := metaState_commit (br_preview inst) \<rparr>)
              | (_, Err e) \<Rightarrow> Err e
              | (_, Panic) \<Rightarrow> Panic)
      | Err e \<Rightarrow> Err e
      | Panic \<Rightarrow> Panic)"

definition makeArena :: "branch \<Rightarrow> branch" where
  "makeArena b = b \<lparr> br_preview := \<lparr> ms_dirty = newDirtyIndex, ms_readonly = ms_readonly (br_preview b) \<rparr> \<rparr>"

text \<open>
  The arena shares the read-only index with its origin, and \<open>storeBaseAccount\<close> writes
  into it: the origin sees what the arena wrote there.
\<close>

definition share_readonly :: "branch \<Rightarrow> branch \<Rightarrow> branch" where
  "share_readonly arena b =
     b \<lparr> br_preview := (br_preview b) \<lparr> ms_readonly := ms_readonly (br_preview arena) \<rparr> \<rparr>"

definition branch_addTx :: "Transaction \<Rightarrow> branch \<Rightarrow> branch" where
  "branch_addTx tx b =
     (let k = tx_Hash tx in
      if mget (br_packed b) k = None \<and> mget (br_unpacked b) k = None
      then b \<lparr> br_unpacked := mput k tx (br_unpacked b) \<rparr> else b)"

text \<open>The origin branch as it is left, and the new branch or the error.\<close>

definition branch_applyBlock ::
    "tx_env \<Rightarrow> blockNode \<Rightarrow> branch \<Rightarrow> branch \<times> (bp_error, branch) res" where
  "branch_applyBlock E n b =
     (case bn_block n of
        None \<Rightarrow> (b, Panic)
      | Some block \<Rightarrow>
          if bn_hash (br_head b) \<noteq> block_ParentHash block then (b, Err ErrParentNotMatch)
          else if bn_txCount n > MaxTransactionsPerBlock then (b, Err ErrTooManyTransactionsInBlock)
          else
            (case pack_txs E (bn_height n) (bl_Transactions block) (makeArena b) of
               (cpy, Ok _) \<Rightarrow> (share_readonly cpy b, Ok (cpy \<lparr> br_head := n \<rparr>))
             | (cpy, Err e) \<Rightarrow> (share_readonly cpy b, Err e)
             | (cpy, Panic) \<Rightarrow> (share_readonly cpy b, Panic)))"

text \<open>
  By account address, then by nonce. \<open>sort.Slice\<close> leaves the order of equal elements
  open; the model keeps the order of the map.
\<close>

definition sortUnpackedTxs :: "tx_env \<Rightarrow> branch \<Rightarrow> Transaction list" where
  "sortUnpackedTxs E b =
     sort_key (\<lambda>t. (GetAccountAddress E t, GetAccountNonce t)) (map snd (br_unpacked b))"

fun produce_loop ::
    "tx_env \<Rightarrow> u32 \<Rightarrow> nat \<Rightarrow> Transaction list \<Rightarrow> branch \<Rightarrow> Transaction list \<Rightarrow>
     branch \<times> (bp_error, Transaction list) res" where
  "produce_loop E h packCount [] b out = (b, Ok out)"
| "produce_loop E h packCount (v # vs) b out =
     (case meta_apply E v h (br_preview b) of
        (s, Err _) \<Rightarrow> produce_loop E h packCount vs (b \<lparr> br_preview := s \<rparr>) out
      | (s, Panic) \<Rightarrow> (b \<lparr> br_preview := s \<rparr>, Panic)
      | (s, Ok _) \<Rightarrow>
          (let k = tx_Hash v;
               b = b \<lparr> br_preview := s, br_unpacked := mdel k (br_unpacked b),
                       br_packed := mput k v (br_packed b) \<rparr>;
               out = out @ [v]
           in if length out = packCount then (b, Ok out) else produce_loop E h packCount vs b out))"

definition produceBlock ::
    "bp_env \<Rightarrow> ('k \<Rightarrow> bytes \<Rightarrow> Signature option \<times> bool) \<Rightarrow> ('k \<Rightarrow> PublicKey) \<Rightarrow>
     u32 \<Rightarrow> Time \<Rightarrow> AccountAddress \<Rightarrow> 'k \<Rightarrow> branch \<Rightarrow> branch \<times> (bp_error, branch \<times> BPBlock) res" where
  "produceBlock B sign pub h ts addr signer b =
     (let txs = sortUnpackedTxs (be_tx B) (makeArena b);
          packCount = (if length txs < MaxTransactionsPerBlock then length txs else MaxTransactionsPerBlock)
      in case produce_loop (be_tx B) h packCount txs (makeArena b) [] of
           (cpy, Ok out) \<Rightarrow>
             (let block =
                \<lparr> bl_SignedHeader =
                    \<lparr> bs_BPHeader =
                        \<lparr> bh_Version = 0x01000000, bh_Producer = addr, bh_MerkleRoot = zero_hash,
                          bh_ParentHash = bn_hash (br_head cpy), bh_Timestamp = ts \<rparr>,
                      bs_HSV = zero_hsv \<rparr>,
                  bl_Transactions = out \<rparr>
              in (share_readonly cpy b,
                  case PackAndSignBlock B sign pub signer block of
                    Ok block \<Rightarrow> Ok (cpy \<lparr> br_head := newBlockNode h block (Some (br_head cpy)) \<rparr>, block)
                  | Err e \<Rightarrow> Err e
                  | Panic \<Rightarrow> Panic))
         | (cpy, Err e) \<Rightarrow> (share_readonly cpy b, Err e)
         | (cpy, Panic) \<Rightarrow> (share_readonly cpy b, Panic))"

definition clearPackedTxs :: "Transaction list \<Rightarrow> branch \<Rightarrow> branch" where
  "clearPackedTxs txs b = b \<lparr> br_packed := fold (\<lambda>v. mdel (tx_Hash v)) txs (br_packed b) \<rparr>"

definition clearUnpackedTxs :: "Transaction list \<Rightarrow> branch \<Rightarrow> branch" where
  "clearUnpackedTxs txs b = b \<lparr> br_unpacked := fold (\<lambda>v. mdel (tx_Hash v)) txs (br_unpacked b) \<rparr>"

definition branch_queryTxState :: "branch \<Rightarrow> hash \<Rightarrow> TransactionState option" where
  "branch_queryTxState b h =
     (if mget (br_unpacked b) h \<noteq> None then Some TransactionStatePending
      else if mget (br_packed b) h \<noteq> None then Some TransactionStatePacked
      else None)"

section \<open>Well-formed branches\<close>

text \<open>A pool lists each transaction once, under its hash.\<close>

definition wf_pool :: "(hash, Transaction) gomap \<Rightarrow> bool" where
  "wf_pool m \<longleftrightarrow> minv m \<and> (\<forall>k v. mget m k = Some v \<longrightarrow> tx_Hash v = k)"

definition wf_branch :: "branch \<Rightarrow> bool" where
  "wf_branch b \<longleftrightarrow>
     wf_pool (br_packed b) \<and> wf_pool (br_unpacked b) \<and> wf_meta (br_preview b) \<and>
     (\<forall>k. mget (br_packed b) k = None \<or> mget (br_unpacked b) k = None)"

lemma wf_pool_put [simp]: "wf_pool m \<Longrightarrow> wf_pool (mput (tx_Hash v) v m)"
  by (simp add: wf_pool_def)

lemma wf_pool_del [simp]: "wf_pool m \<Longrightarrow> wf_pool (mdel k m)"
  by (simp add: wf_pool_def)

lemma wf_pool_clear: "wf_pool m \<Longrightarrow> wf_pool (fold (\<lambda>v. mdel (tx_Hash v)) txs m)"
  by (induction txs arbitrary: m) auto

lemma mget_clear:
  "mget (fold (\<lambda>v. mdel (tx_Hash v)) txs m) k = (if k \<in> tx_Hash ` set txs then None else mget m k)"
  by (induction txs arbitrary: m) auto

lemma wf_pool_copy: "wf_pool m \<Longrightarrow> wf_pool (fold (\<lambda>(k, v). mput k v) m [])"
  by (simp add: wf_pool_def deepCopy_map)

lemma wf_preview [simp]: "wf_branch b \<Longrightarrow> wf_meta (br_preview b)"
  by (simp add: wf_branch_def)

lemma wf_arena:
  assumes "wf_branch b"
  shows "wf_branch (makeArena b)"
proof -
  have "\<lparr> ms_dirty = newDirtyIndex, ms_readonly = ms_readonly (br_preview b) \<rparr> = metaState_clean (br_preview b)"
    by (simp add: metaState_clean_def)
  then show ?thesis using assms by (simp add: wf_branch_def makeArena_def wf_clean)
qed

lemma wf_branch_upd [simp]:
  "wf_branch (b \<lparr> br_head := n \<rparr>) = wf_branch b"
  "wf_branch b \<Longrightarrow> wf_meta s \<Longrightarrow> wf_branch (b \<lparr> br_preview := s \<rparr>)"
  by (simp_all add: wf_branch_def)

lemma wf_pack_checked:
  assumes "wf_branch b" and "mget (br_unpacked b) (tx_Hash v) = None"
  shows "wf_branch (fst (pack_checked E h v b))"
proof -
  have "wf_meta (fst (meta_apply E v h (br_preview b)))"
    using assms(1) by (simp add: wf_meta_apply)
  then show ?thesis
    using assms by (simp add: pack_checked_def wf_branch_def case_prod_beta)
qed

lemma wf_pack_tx: "wf_branch b \<Longrightarrow> wf_branch (fst (pack_tx E h v b))"
  by (auto simp: pack_tx_def Let_def wf_pack_checked wf_branch_def [of "b \<lparr> br_unpacked := m \<rparr>" for m]
      intro!: wf_pack_checked split: res.split) (auto simp: wf_branch_def)

lemma wf_pack_txs: "wf_branch b \<Longrightarrow> wf_branch (fst (pack_txs E h vs b))"
proof (induction vs arbitrary: b)
  case (Cons v vs)
  then show ?case
    using wf_pack_tx [OF Cons.prems, of E h v] by (auto split: prod.splits res.splits)
qed simp

lemma wf_pack_nodes: "wf_branch b \<Longrightarrow> wf_branch (fst (pack_nodes E ns b))"
proof (induction ns arbitrary: b)
  case (Cons n ns)
  show ?case
  proof (cases "bn_block n")
    case (Some block)
    then show ?thesis
      using Cons.IH wf_pack_txs [OF Cons.prems, of E "bn_height n" "bl_Transactions block"] Cons.prems
      by (auto split: prod.splits res.splits)
  qed (simp add: Cons.prems)
qed simp

lemma wf_produce_loop: "wf_branch b \<Longrightarrow> wf_branch (fst (produce_loop E h c vs b out))"
proof (induction vs arbitrary: b out)
  case (Cons v vs)
  have s: "wf_meta (fst (meta_apply E v h (br_preview b)))"
    using Cons.prems by (simp add: wf_meta_apply)
  have step: "wf_branch (b \<lparr> br_preview := s', br_unpacked := mdel (tx_Hash v) (br_unpacked b),
      br_packed := mput (tx_Hash v) v (br_packed b) \<rparr>)" if "wf_meta s'" for s'
    using Cons.prems that by (auto simp: wf_branch_def)
  show ?case
    using s step Cons by (auto simp: Let_def split: prod.splits res.splits)
qed simp

text \<open>Sharing the read-only index keeps the origin well-formed.\<close>

lemma wf_share_readonly:
  assumes "wf_branch b" and "wf_branch cpy"
  shows "wf_branch (share_readonly cpy b)"
proof -
  have "wf_meta ((br_preview b) \<lparr> ms_readonly := ms_readonly (br_preview cpy) \<rparr>)"
    using wf_preview [OF assms(1)] wf_preview [OF assms(2)]
    by (simp add: wf_meta_def meta_inv_def no_nil_accounts_def dirty_defs ro_defs)
  then show ?thesis using assms(1) by (simp add: share_readonly_def)
qed

text \<open>Applying a list of transactions one after the other, up to the first error.\<close>

fun apply_all :: "tx_env \<Rightarrow> u32 \<Rightarrow> Transaction list \<Rightarrow> unit meta_op" where
  "apply_all E h [] s = (s, Ok ())"
| "apply_all E h (v # vs) s =
     (case meta_apply E v h s of (s, Ok _) \<Rightarrow> apply_all E h vs s | r \<Rightarrow> r)"

lemma pack_checked_Ok:
  "pack_checked E h v b = (b', Ok u) \<longleftrightarrow>
     mget (br_packed b) (tx_Hash v) = None \<and>
     (\<exists>s. meta_apply E v h (br_preview b) = (s, Ok u) \<and>
        b' = b \<lparr> br_packed := mput (tx_Hash v) v (br_packed b), br_preview := s \<rparr>)"
  by (auto simp: pack_checked_def split: prod.splits)

lemma mdel_none: "mget m k = None \<Longrightarrow> mdel k m = m"
  by (simp add: delete_idem map_of_eq_None_iff)

lemma pack_tx_Ok:
  "pack_tx E h v b = (b', Ok u) \<longleftrightarrow>
     mget (br_packed b) (tx_Hash v) = None \<and>
     (mget (br_unpacked b) (tx_Hash v) \<noteq> None \<or> tx_Verify E v = Ok ()) \<and>
     (\<exists>s. meta_apply E v h (br_preview b) = (s, Ok u) \<and>
        b' = b \<lparr> br_unpacked := mdel (tx_Hash v) (br_unpacked b),
                 br_packed := mput (tx_Hash v) v (br_packed b), br_preview := s \<rparr>)"
proof (cases "mget (br_unpacked b) (tx_Hash v)")
  case None
  have b: "b \<lparr> br_unpacked := mdel (tx_Hash v) (br_unpacked b) \<rparr> = b"
    by (cases b) (use mdel_none [OF None] in simp)
  have "pack_tx E h v b = (b', Ok u) \<longleftrightarrow> tx_Verify E v = Ok () \<and> pack_checked E h v b = (b', Ok u)"
    using None by (auto simp: pack_tx_def split: res.splits)
  then show ?thesis using None by (auto simp: pack_checked_Ok b)
next
  case (Some t)
  then show ?thesis by (simp add: pack_tx_def pack_checked_Ok)
qed

lemma pack_txs_Ok:
  "pack_txs E h vs b = (b', Ok ()) \<longleftrightarrow>
     distinct (map tx_Hash vs) \<and> (\<forall>v \<in> set vs. mget (br_packed b) (tx_Hash v) = None) \<and>
     (\<forall>v \<in> set vs. mget (br_unpacked b) (tx_Hash v) \<noteq> None \<or> tx_Verify E v = Ok ()) \<and>
     (\<exists>s. apply_all E h vs (br_preview b) = (s, Ok ()) \<and>
        b' = b \<lparr> br_unpacked := fold (\<lambda>v. mdel (tx_Hash v)) vs (br_unpacked b),
                 br_packed := fold (\<lambda>v. mput (tx_Hash v) v) vs (br_packed b), br_preview := s \<rparr>)"
proof (induction vs arbitrary: b)
  case (Cons v vs)
  let ?b = "\<lambda>s. b \<lparr> br_unpacked := mdel (tx_Hash v) (br_unpacked b),
      br_packed := mput (tx_Hash v) v (br_packed b), br_preview := s \<rparr>"
  have IH: "pack_txs E h vs (?b s) = (b', Ok ()) \<longleftrightarrow>
     distinct (map tx_Hash vs) \<and> (\<forall>w \<in> set vs. tx_Hash w \<noteq> tx_Hash v \<and> mget (br_packed b) (tx_Hash w) = None) \<and>
     (\<forall>w \<in> set vs. tx_Hash w \<noteq> tx_Hash v \<and> mget (br_unpacked b) (tx_Hash w) \<noteq> None \<or> tx_Verify E w = Ok ()) \<and>
     (\<exists>s'. apply_all E h vs s = (s', Ok ()) \<and>
        b' = b \<lparr> br_unpacked := fold (\<lambda>v. mdel (tx_Hash v)) (v # vs) (br_unpacked b),
                 br_packed := fold (\<lambda>v. mput (tx_Hash v) v) (v # vs) (br_packed b), br_preview := s' \<rparr>)" for s
    unfolding Cons.IH [of "?b s"] by (auto split: if_splits)
  have "pack_txs E h (v # vs) b = (b', Ok ()) \<longleftrightarrow>
      (\<exists>b1. pack_tx E h v b = (b1, Ok ()) \<and> pack_txs E h vs b1 = (b', Ok ()))"
    by (auto split: prod.splits res.splits)
  also have "\<dots> \<longleftrightarrow> mget (br_packed b) (tx_Hash v) = None \<and>
     (mget (br_unpacked b) (tx_Hash v) \<noteq> None \<or> tx_Verify E v = Ok ()) \<and>
     (\<exists>s. meta_apply E v h (br_preview b) = (s, Ok ()) \<and> pack_txs E h vs (?b s) = (b', Ok ()))"
    unfolding pack_tx_Ok by blast
  also have "\<dots> \<longleftrightarrow> mget (br_packed b) (tx_Hash v) = None \<and>
     (mget (br_unpacked b) (tx_Hash v) \<noteq> None \<or> tx_Verify E v = Ok ()) \<and>
     distinct (map tx_Hash vs) \<and> (\<forall>w \<in> set vs. tx_Hash w \<noteq> tx_Hash v \<and> mget (br_packed b) (tx_Hash w) = None) \<and>
     (\<forall>w \<in> set vs. mget (br_unpacked b) (tx_Hash w) \<noteq> None \<or> tx_Verify E w = Ok ()) \<and>
     (\<exists>s'. apply_all E h (v # vs) (br_preview b) = (s', Ok ()) \<and>
        b' = b \<lparr> br_unpacked := fold (\<lambda>v. mdel (tx_Hash v)) (v # vs) (br_unpacked b),
                 br_packed := fold (\<lambda>v. mput (tx_Hash v) v) (v # vs) (br_packed b), br_preview := s' \<rparr>)"
    unfolding IH by (auto split: prod.splits res.splits)
  finally show ?case by (auto simp: image_iff)
qed (auto simp: fun_eq_iff)

section \<open>Properties\<close>

text \<open>
  The branches a node holds: rebuilt from a state of the main chain, and changed by
  incoming transactions, received blocks (the branch tried and the one that results),
  produced blocks, commits of the preview and the clean-ups.
\<close>

inductive branch_reachable :: "bp_env \<Rightarrow> branch \<Rightarrow> bool" for B where
  rebuild: "meta_reachable (be_tx B) s \<Longrightarrow> wf_pool pool \<Longrightarrow>
    newBranch (be_tx B) base head s pool = Ok b \<Longrightarrow> branch_reachable B b"
| add: "branch_reachable B b \<Longrightarrow> branch_reachable B (branch_addTx tx b)"
| applied: "branch_reachable B b \<Longrightarrow> branch_applyBlock (be_tx B) n b = (b', Ok br) \<Longrightarrow> branch_reachable B br"
| tried: "branch_reachable B b \<Longrightarrow> branch_reachable B (fst (branch_applyBlock (be_tx B) n b))"
| produced: "branch_reachable B b \<Longrightarrow>
    produceBlock B sign pub h ts addr (k :: bytes) b = (b', Ok (br, bl)) \<Longrightarrow> branch_reachable B br"
| attempted: "branch_reachable B b \<Longrightarrow>
    branch_reachable B (fst (produceBlock B sign pub h ts addr (k :: bytes) b))"
| commit: "branch_reachable B b \<Longrightarrow>
    branch_reachable B (b \<lparr> br_preview := metaState_commit (br_preview b) \<rparr>)"
| clear: "branch_reachable B b \<Longrightarrow> branch_reachable B (clearUnpackedTxs us (clearPackedTxs ps b))"

lemma wf_newBranch:
  assumes "wf_meta s" and "wf_pool pool" and "newBranch E base head s pool = Ok b"
  shows "wf_branch b"
proof -
  let ?inst = "\<lparr> br_head = head, br_preview = metaState_makeCopy s, br_packed = [],
      br_unpacked = fold (\<lambda>(k, v). mput k v) pool [] \<rparr>"
  have wf: "wf_branch ?inst"
    using assms(1,2) by (simp add: wf_branch_def wf_pool_copy makeCopy_eq wf_clean)
      (simp add: wf_pool_def)
  obtain ns b1 u where "pack_nodes E ns ?inst = (b1, Ok u)"
      "b = b1 \<lparr> br_preview := metaState_commit (br_preview b1) \<rparr>"
    using assms(3) by (auto simp: newBranch_def Let_def split: res.splits prod.splits)
  then show ?thesis
    using wf_pack_nodes [OF wf, of E ns] by (simp add: wf_commit)
qed

lemma wf_applyBlock:
  assumes "wf_branch b"
  shows "wf_branch (fst (branch_applyBlock E n b)) \<and> (\<forall>br. snd (branch_applyBlock E n b) = Ok br \<longrightarrow> wf_branch br)"
proof (cases "bn_block n")
  case (Some block)
  have "wf_branch (fst (pack_txs E (bn_height n) (bl_Transactions block) (makeArena b)))"
    by (rule wf_pack_txs [OF wf_arena [OF assms]])
  then show ?thesis
    using Some assms
    by (auto simp: branch_applyBlock_def wf_share_readonly split: res.splits prod.splits)
qed (simp add: branch_applyBlock_def assms)

lemma wf_produceBlock:
  assumes "wf_branch b"
  shows "wf_branch (fst (produceBlock B sign pub h ts addr k b)) \<and>
    (\<forall>br bl. snd (produceBlock B sign pub h ts addr k b) = Ok (br, bl) \<longrightarrow> wf_branch br)"
proof -
  let ?txs = "sortUnpackedTxs (be_tx B) (makeArena b)"
  let ?c = "if length ?txs < MaxTransactionsPerBlock then length ?txs else MaxTransactionsPerBlock"
  obtain cpy r where run: "produce_loop (be_tx B) h ?c ?txs (makeArena b) [] = (cpy, r)"
    by fastforce
  have "wf_branch cpy"
    using wf_produce_loop [OF wf_arena [OF assms], of "be_tx B" h ?c ?txs "[]"] by (simp only: run fst_conv)
  then show ?thesis
    using assms unfolding produceBlock_def Let_def run
    by (auto simp: wf_share_readonly split: res.splits)
qed

text \<open>
  C17: in every branch a node holds, the packed and the waiting transactions are two
  disjoint pools that list each transaction once, under its own hash, and the preview
  is a well-formed state.
\<close>

theorem reachable_branch_well_formed:
  assumes "branch_reachable B b"
  shows "wf_branch b"
  using assms
proof (induction rule: branch_reachable.induct)
  case (rebuild s pool base head b)
  from wf_newBranch [OF meta_reachable_wf [OF rebuild(1)] rebuild(2,3)] show ?case .
next
  case (applied b n b' br)
  then show ?case using wf_applyBlock [of b "be_tx B" n] by fastforce
next
  case (add b tx)
  then show ?case by (auto simp: branch_addTx_def Let_def wf_branch_def)
next
  case (commit b)
  then show ?case by (simp add: wf_commit)
next
  case (produced b sign pub h ts addr k b' br bl)
  then show ?case using wf_produceBlock [OF produced(3), of B sign pub h ts addr k] by fastforce
next
  case (clear b us ps)
  then show ?case
    by (auto simp: wf_branch_def clearUnpackedTxs_def clearPackedTxs_def wf_pool_clear mget_clear)
next
  case (tried b n)
  from tried(2) show ?case by (rule conjunct1 [OF wf_applyBlock])
next
  case (attempted b sign pub h ts addr k)
  from attempted(2) show ?case by (rule conjunct1 [OF wf_produceBlock])
qed

definition example_branch :: "Transaction list \<Rightarrow> Account list \<Rightarrow> branch" where
  "example_branch pool as =
     \<lparr> br_head = example_genesis_node, br_preview = example_state as, br_packed = [],
       br_unpacked = map (\<lambda>t. (tx_Hash t, t)) pool \<rparr>"

lemma example_branch_rebuilt:
  "newBranch E example_genesis_node example_genesis_node newMetaState [] = Ok (example_branch [] [])"
  by (simp add: newBranch_def example_branch_def fetchNodeList_def example_state_def metaState_makeCopy_def
      newMetaState_def metaState_commit_def newDirtyIndex_def commit_map_def metaIndex_deepCopy_def newMetaIndex_def)

theorem reachable_branch_well_formed_witness:
  "branch_reachable example_bp_env (branch_addTx example_transfer (example_branch [] [])) \<and>
   wf_branch (branch_addTx example_transfer (example_branch [] []))"
proof -
  have "branch_reachable example_bp_env (example_branch [] [])"
    by (rule branch_reachable.rebuild [OF meta_reachable.init _ example_branch_rebuilt]) (simp add: wf_pool_def)
  then have r: "branch_reachable example_bp_env (branch_addTx example_transfer (example_branch [] []))"
    by (rule branch_reachable.add)
  then show ?thesis using reachable_branch_well_formed by blast
qed

lemma applyBlock_Ok:
  assumes "bn_hash (br_head b) = block_ParentHash block"
    and "length (bl_Transactions block) \<le> MaxTransactionsPerBlock"
    and "distinct (map tx_Hash (bl_Transactions block))"
    and "\<And>v. v \<in> set (bl_Transactions block) \<Longrightarrow> mget (br_packed b) (tx_Hash v) = None \<and>
       (mget (br_unpacked b) (tx_Hash v) \<noteq> None \<or> tx_Verify E v = Ok ())"
    and "apply_all E h (bl_Transactions block) (br_preview (makeArena b)) = (s, Ok ())"
  shows "\<exists>cpy. cpy = (makeArena b)
        \<lparr> br_unpacked := fold (\<lambda>v. mdel (tx_Hash v)) (bl_Transactions block) (br_unpacked b),
          br_packed := fold (\<lambda>v. mput (tx_Hash v) v) (bl_Transactions block) (br_packed b), br_preview := s \<rparr> \<and>
      branch_applyBlock E (newBlockNode h block p) b =
        (share_readonly cpy b, Ok (cpy \<lparr> br_head := newBlockNode h block p \<rparr>))"
proof -
  have arena: "br_packed (makeArena b) = br_packed b" "br_unpacked (makeArena b) = br_unpacked b"
    by (simp_all add: makeArena_def)
  let ?cpy = "(makeArena b)
        \<lparr> br_unpacked := fold (\<lambda>v. mdel (tx_Hash v)) (bl_Transactions block) (br_unpacked b),
          br_packed := fold (\<lambda>v. mput (tx_Hash v) v) (bl_Transactions block) (br_packed b), br_preview := s \<rparr>"
  have "pack_txs E h (bl_Transactions block) (makeArena b) = (?cpy, Ok ())"
    unfolding pack_txs_Ok arena using assms by blast
  then show ?thesis using assms(1,2) by (simp add: branch_applyBlock_def not_less)
qed

text \<open>
  C16: what it takes for a received block to be accepted, and what it does: the result is a
  new branch exactly when the block extends the head, is not too big, repeats no
  transaction and none packed since the last irreversible block, each transaction is in
  the pool (by its hash) or passes verification, and all apply in order on the head's
  committed state; and the new branch then has the block as its head, the state these
  transactions lead to, and exactly these transactions removed from the pool and added
  to the packed ones.
\<close>

theorem applyBlock_accepts_iff:
  "snd (branch_applyBlock E (newBlockNode h block (Some p)) b) = Ok br \<longleftrightarrow>
    bn_hash (br_head b) = block_ParentHash block \<and>
    length (bl_Transactions block) \<le> MaxTransactionsPerBlock \<and>
    distinct (map tx_Hash (bl_Transactions block)) \<and>
    (\<forall>v \<in> set (bl_Transactions block). mget (br_packed b) (tx_Hash v) = None \<and>
       (mget (br_unpacked b) (tx_Hash v) \<noteq> None \<or> tx_Verify E v = Ok ())) \<and>
    apply_all E h (bl_Transactions block) (metaState_clean (br_preview b)) = (br_preview br, Ok ()) \<and>
    br_head br = newBlockNode h block (Some p) \<and>
    br_packed br = fold (\<lambda>v. mput (tx_Hash v) v) (bl_Transactions block) (br_packed b) \<and>
    br_unpacked br = fold (\<lambda>v. mdel (tx_Hash v)) (bl_Transactions block) (br_unpacked b)"
proof -
  have arena: "br_preview (makeArena b) = metaState_clean (br_preview b)"
      "br_packed (makeArena b) = br_packed b" "br_unpacked (makeArena b) = br_unpacked b"
    by (simp_all add: makeArena_def metaState_clean_def)
  have "snd (branch_applyBlock E (newBlockNode h block (Some p)) b) = Ok br \<longleftrightarrow>
      bn_hash (br_head b) = block_ParentHash block \<and> length (bl_Transactions block) \<le> MaxTransactionsPerBlock \<and>
      (\<exists>cpy. pack_txs E h (bl_Transactions block) (makeArena b) = (cpy, Ok ()) \<and>
         br = cpy \<lparr> br_head := newBlockNode h block (Some p) \<rparr>)"
    by (auto simp: branch_applyBlock_def not_less split: res.splits prod.splits)
  then show ?thesis
    unfolding pack_txs_Ok arena
    by (cases br; cases b; cases "apply_all E h (bl_Transactions block) (metaState_clean (br_preview b))") (auto simp: makeArena_def)
qed

text \<open>A waiting transfer and a forged one that carries the same hash field.\<close>

definition example_hash_env :: tx_env where
  "example_hash_env = example_env \<lparr> marshal_Transfer := (\<lambda>h. Some (tr_Receiver h)) \<rparr>"

definition example_transfer_to :: "AccountAddress \<Rightarrow> hash \<Rightarrow> Transaction" where
  "example_transfer_to receiver h =
     Transfer \<lparr> tr_Sender = [1], tr_Receiver = receiver, tr_Nonce = 0, tr_Amount = 3, tr_TokenType = Particle \<rparr>
       \<lparr> mx_TxType = TransactionTypeTransfer, mx_Timestamp = 0 \<rparr> (example_hsv [1] \<lparr> hv_DataHash := h \<rparr>)"

lemma wf_example_branch:
  assumes "distinct (map tx_Hash pool)" and "distinct (map ac_Address as)"
  shows "wf_branch (example_branch pool as)"
proof -
  have "minv (map (\<lambda>t. (tx_Hash t, t)) pool)" using assms(1) by (simp add: comp_def)
  then show ?thesis
    using assms by (auto simp: wf_branch_def wf_pool_def example_branch_def)
qed

text \<open>
  C36: a transaction of a received block is not verified when the pool holds a
  transaction with the same hash field, and the hash field is part of the transaction.
  So whatever hash and signature functions are used, a block producer can replace a
  waiting transfer by one with another receiver: whether or not the changed transfer
  verifies, a block that holds just it is accepted as soon as it applies to the state, and
  the new state is the one it leads to.
\<close>

theorem pooled_hash_skips_verification:
  assumes "wf_branch b" and "mget (br_unpacked b) (hv_DataHash sg) = Some (Transfer th m sg)"
    and "bl_Transactions block = [Transfer (th \<lparr> tr_Receiver := r \<rparr>) m sg]"
    and "block_ParentHash block = bn_hash (br_head b)"
    and "meta_apply E (Transfer (th \<lparr> tr_Receiver := r \<rparr>) m sg) h (metaState_clean (br_preview b)) = (s, Ok ())"
  shows "\<exists>b' br. branch_applyBlock E (newBlockNode h block (Some (br_head b))) b = (b', Ok br) \<and> br_preview br = s"
proof -
  have "mget (br_packed b) (hv_DataHash sg) = None" using assms(1,2) unfolding wf_branch_def by fastforce
  moreover have "br_preview (makeArena b) = metaState_clean (br_preview b)" by (simp add: makeArena_def metaState_clean_def)
  ultimately show ?thesis
    using applyBlock_Ok [of b block E h s "Some (br_head b)"] assms(2-5) by (auto simp: MaxTransactionsPerBlock_def)
qed

text \<open>The forged transfer does not verify, and the block moves the sender's tokens to another account.\<close>

theorem pooled_hash_skips_verification_witness:
  "\<exists>b' br. tx_Verify example_hash_env (example_transfer_to [6] [2]) = Err ErrHashValueNotMatch \<and>
     branch_applyBlock example_hash_env
       (newBlockNode 1 (example_block [7] [0] 0 [example_transfer_to [6] [2]]) (Some example_genesis_node))
       (example_branch [example_transfer_to [2] [2]] [example_account [1] 5]) = (b', Ok br) \<and>
     balance_of (br_preview br) Particle [1] = 2 \<and> balance_of (br_preview br) Particle [6] = 3"
proof -
  let ?pooled = "example_transfer_to [2] [2]" and ?forged = "example_transfer_to [6] [2]" and ?E = example_hash_env
  let ?b = "example_branch [?pooled] [example_account [1] 5]"
  let ?block = "example_block [7] [0] 0 [?forged]"
  have "tx_Verify ?E ?forged = Err ErrHashValueNotMatch"
    by (simp add: example_transfer_to_def example_hash_env_def example_env_def example_hsv_def
        hsv_Verify_def hsv_VerifyHash_def)
  moreover obtain s where s: "meta_apply ?E ?forged 1 (example_state [example_account [1] 5]) = (s, Ok ())"
      "balance_of s Particle [1] = 2" "balance_of s Particle [6] = 3"
    by (simp add: example_transfer_to_def example_hash_env_def run_defs balance_of_def)
  moreover have "metaState_clean (br_preview ?b) = example_state [example_account [1] 5]" "br_head ?b = example_genesis_node"
      "bn_hash example_genesis_node = [0]" "block_ParentHash ?block = [0]" "bl_Transactions ?block = [?forged]"
      "mget (br_unpacked ?b) [2] = Some ?pooled"
    by (simp_all add: metaState_clean_def example_branch_def example_state_def newDirtyIndex_def example_genesis_node_def
        newBlockNode_def example_block_def block_BlockHash_def block_ParentHash_def example_transfer_to_def)
  moreover have "wf_branch ?b" by (rule wf_example_branch) simp_all
  ultimately show ?thesis
    using pooled_hash_skips_verification [of ?b "example_hsv [1] \<lparr> hv_DataHash := [2] \<rparr>" _ _ ?block "[6]" ?E 1 s]
    by (simp add: example_transfer_to_def) blast
qed

theorem applyBlock_accepts_iff_witness:
  "\<exists>br. snd (branch_applyBlock example_hash_env
     (newBlockNode 1 (example_block [7] [0] 0 [example_transfer_to [2] [2]]) (Some example_genesis_node))
     (example_branch [] [example_account [1] 5])) = Ok br \<and> br_packed br = [([2], example_transfer_to [2] [2])]"
  unfolding applyBlock_accepts_iff
  by (rule exI [of _ "\<lparr> br_head = newBlockNode 1 (example_block [7] [0] 0 [example_transfer_to [2] [2]]) (Some example_genesis_node),
        br_preview = fst (apply_all example_hash_env 1 [example_transfer_to [2] [2]] (example_state [example_account [1] 5])),
        br_packed = [([2], example_transfer_to [2] [2])], br_unpacked = [] \<rparr>"])
    (simp add: example_branch_def example_genesis_node_def newBlockNode_def example_block_def block_BlockHash_def
      block_ParentHash_def MaxTransactionsPerBlock_def example_transfer_to_def metaState_clean_def
      example_hash_env_def hsv_Verify_def hsv_VerifyHash_def hsv_VerifySignature_def run_defs newDirtyIndex_def)

text \<open>
  The transactions a producer skips leave no trace: every transaction of the list that
  fails, at its turn, leaves the state as it was.
\<close>

fun failures_clean :: "tx_env \<Rightarrow> u32 \<Rightarrow> Transaction list \<Rightarrow> metaState \<Rightarrow> bool" where
  "failures_clean E h [] s = True"
| "failures_clean E h (v # vs) s =
     (case meta_apply E v h s of
        (s', Ok _) \<Rightarrow> failures_clean E h vs s' | (s', _) \<Rightarrow> s' = s \<and> failures_clean E h vs s)"

lemma produce_loop_Ok:
  assumes "produce_loop E h c vs b out = (b', Ok out')" and "failures_clean E h vs (br_preview b)"
    and "distinct (map tx_Hash vs)" and "length out < c \<or> vs = []" and "length out \<le> c"
  shows "\<exists>ws. out' = out @ ws \<and> set ws \<subseteq> set vs \<and> distinct (map tx_Hash ws) \<and> length out' \<le> c \<and>
    apply_all E h ws (br_preview b) = (br_preview b', Ok ()) \<and>
    b' = b \<lparr> br_unpacked := fold (\<lambda>v. mdel (tx_Hash v)) ws (br_unpacked b),
             br_packed := fold (\<lambda>v. mput (tx_Hash v) v) ws (br_packed b), br_preview := br_preview b' \<rparr>"
  using assms
proof (induction vs arbitrary: b out)
  case Nil
  then show ?case by (auto intro!: exI [of _ "[]"])
next
  case (Cons v vs)
  obtain s r where run: "meta_apply E v h (br_preview b) = (s, r)" by fastforce
  show ?case
  proof (cases r)
    case (Ok u)
    let ?b = "b \<lparr> br_preview := s, br_unpacked := mdel (tx_Hash v) (br_unpacked b),
      br_packed := mput (tx_Hash v) v (br_packed b) \<rparr>"
    show ?thesis
    proof (cases "Suc (length out) = c")
      case True
      then have "b' = ?b" "out' = out @ [v]" using Cons.prems(1) run Ok by (auto simp: Let_def)
      then show ?thesis using run Ok True by (intro exI [of _ "[v]"]) simp
    next
      case False
      then have "produce_loop E h c vs ?b (out @ [v]) = (b', Ok out')"
        using Cons.prems(1) run Ok by (simp add: Let_def)
      from Cons.IH [OF this] False Cons.prems(2-5) run Ok obtain ws where
        ws: "out' = out @ [v] @ ws" "set ws \<subseteq> set vs" "distinct (map tx_Hash ws)" "length out' \<le> c"
          "apply_all E h ws s = (br_preview b', Ok ())"
          "b' = ?b \<lparr> br_unpacked := fold (\<lambda>v. mdel (tx_Hash v)) ws (br_unpacked ?b),
             br_packed := fold (\<lambda>v. mput (tx_Hash v) v) ws (br_packed ?b), br_preview := br_preview b' \<rparr>"
        by auto
      have "tx_Hash v \<notin> tx_Hash ` set ws" using Cons.prems(3) ws(2) by auto
      then show ?thesis
        using ws run Ok by (intro exI [of _ "v # ws"]) (auto simp: image_iff)
    qed
  next
    case (Err e)
    then have s: "s = br_preview b" "failures_clean E h vs (br_preview b)"
      using Cons.prems(2) run by auto
    then have "produce_loop E h c vs b out = (b', Ok out')"
      using Cons.prems(1) run Err by simp
    from Cons.IH [OF this s(2)] Cons.prems(3-5) show ?thesis by fastforce
  next
    case Panic
    then show ?thesis using Cons.prems(1) run by simp
  qed
qed

lemma PackAndSignBlock_keeps:
  "PackAndSignBlock B sign pub k b0 = Ok b \<Longrightarrow>
     block_Timestamp b = block_Timestamp b0 \<and> block_ParentHash b = block_ParentHash b0 \<and>
     block_Producer b = block_Producer b0 \<and> bl_Transactions b = bl_Transactions b0"
  by (auto simp: PackAndSignBlock_def setMerkleRoot_def finish_header_def bs_sign_def set_root_def block_Timestamp_def
      block_ParentHash_def block_Producer_def split: res.splits prod.splits)

lemma if_less_min: "(if (a :: nat) < b then a else b) = min a b"
  by simp

lemma produceBlock_Ok:
  assumes "produceBlock B sign pub h ts addr k b = (b', Ok (br, bl))"
  defines "txs \<equiv> sortUnpackedTxs (be_tx B) b"
  shows "\<exists>cpy out. produce_loop (be_tx B) h (min (length txs) MaxTransactionsPerBlock) txs (makeArena b) [] = (cpy, Ok out) \<and>
    bl_Transactions bl = out \<and> block_ParentHash bl = bn_hash (br_head cpy) \<and>
    br = cpy \<lparr> br_head := newBlockNode h bl (Some (br_head cpy)) \<rparr> \<and> b' = share_readonly cpy b"
proof -
  have txs: "sortUnpackedTxs (be_tx B) (makeArena b) = txs"
    by (simp add: txs_def sortUnpackedTxs_def makeArena_def)
  obtain cpy r where run: "produce_loop (be_tx B) h (min (length txs) MaxTransactionsPerBlock) txs (makeArena b) [] = (cpy, r)"
    by fastforce
  show ?thesis
    using assms(1) unfolding produceBlock_def Let_def txs if_less_min run
    by (auto split: res.splits dest!: PackAndSignBlock_keeps) (auto simp: block_ParentHash_def)
qed

lemma sorted_pool:
  assumes "wf_pool (br_unpacked b)"
  shows "distinct (map tx_Hash (sortUnpackedTxs E b))"
    and "v \<in> set (sortUnpackedTxs E b) \<Longrightarrow> mget (br_unpacked b) (tx_Hash v) = Some v"
proof -
  have key: "tx_Hash w = k" if "(k, w) \<in> set (br_unpacked b)" for k w
    using assms that by (simp add: wf_pool_def)
  then have eq: "map tx_Hash (map snd (br_unpacked b)) = map fst (br_unpacked b)" by auto
  have "distinct (map tx_Hash (map snd (br_unpacked b)))"
    unfolding eq using assms by (simp add: wf_pool_def)
  moreover have "mset (map tx_Hash (sortUnpackedTxs E b)) = mset (map tx_Hash (map snd (br_unpacked b)))"
    by (simp add: sortUnpackedTxs_def multiset.map_comp)
  ultimately show "distinct (map tx_Hash (sortUnpackedTxs E b))"
    by (metis mset_eq_imp_distinct_iff)
  assume "v \<in> set (sortUnpackedTxs E b)"
  then obtain k where "(k, v) \<in> set (br_unpacked b)" by (auto simp: sortUnpackedTxs_def)
  with key assms show "mget (br_unpacked b) (tx_Hash v) = Some v" by (auto simp: wf_pool_def)
qed

text \<open>
  C15: producer and receiver agree. When every transaction the producer skipped left no
  trace in its state, the block it produced is accepted by every branch with the same
  head, pool and state, and leads there to the very branch the producer switched to;
  the block takes its transactions from the pool and respects the limit.
\<close>

theorem produced_block_accepted:
  assumes wf: "wf_branch b"
    and run: "produceBlock B sign pub h ts addr k b = (b', Ok (br, bl))"
    and clean: "failures_clean (be_tx B) h (sortUnpackedTxs (be_tx B) b) (metaState_clean (br_preview b))"
  shows "branch_applyBlock (be_tx B) (newBlockNode h bl (Some (br_head b))) b = (b', Ok br) \<and>
    set (bl_Transactions bl) \<subseteq> snd ` set (br_unpacked b) \<and>
    length (bl_Transactions bl) \<le> MaxTransactionsPerBlock"
proof -
  let ?E = "be_tx B" and ?txs = "sortUnpackedTxs (be_tx B) b"
  obtain cpy out where o: "produce_loop ?E h (min (length ?txs) MaxTransactionsPerBlock) ?txs (makeArena b) [] = (cpy, Ok out)"
      "bl_Transactions bl = out" "block_ParentHash bl = bn_hash (br_head cpy)"
      "br = cpy \<lparr> br_head := newBlockNode h bl (Some (br_head cpy)) \<rparr>" "b' = share_readonly cpy b"
    using produceBlock_Ok [OF run] by blast
  have arena: "br_preview (makeArena b) = metaState_clean (br_preview b)" "br_packed (makeArena b) = br_packed b"
      "br_unpacked (makeArena b) = br_unpacked b" "br_head (makeArena b) = br_head b"
    by (simp_all add: makeArena_def metaState_clean_def)
  note pool = sorted_pool [of b, where E = ?E]
  have wfp: "wf_pool (br_unpacked b)" using wf by (simp add: wf_branch_def)
  have "0 < min (length ?txs) MaxTransactionsPerBlock \<or> ?txs = []"
    by (auto simp: MaxTransactionsPerBlock_def)
  then obtain ws where ws: "out = ws" "set ws \<subseteq> set ?txs" "distinct (map tx_Hash ws)"
      "length out \<le> min (length ?txs) MaxTransactionsPerBlock"
      "apply_all ?E h ws (br_preview (makeArena b)) = (br_preview cpy, Ok ())"
      "cpy = (makeArena b) \<lparr> br_unpacked := fold (\<lambda>v. mdel (tx_Hash v)) ws (br_unpacked b),
             br_packed := fold (\<lambda>v. mput (tx_Hash v) v) ws (br_packed b), br_preview := br_preview cpy \<rparr>"
    using produce_loop_Ok [OF o(1)] clean pool(1) [OF wfp] by (auto simp: arena)
  have head: "br_head cpy = br_head b" using arg_cong [OF ws(6), of br_head] by (simp add: arena)
  have in_pool: "mget (br_unpacked b) (tx_Hash v) = Some v" if "v \<in> set out" for v
    using that ws(1,2) pool(2) [OF wfp] by blast
  have "mget (br_packed b) (tx_Hash v) = None" if "v \<in> set out" for v
    using in_pool [OF that] wf by (metis option.distinct(1) wf_branch_def)
  then have "\<exists>c. c = (makeArena b)
        \<lparr> br_unpacked := fold (\<lambda>v. mdel (tx_Hash v)) (bl_Transactions bl) (br_unpacked b),
          br_packed := fold (\<lambda>v. mput (tx_Hash v) v) (bl_Transactions bl) (br_packed b), br_preview := br_preview cpy \<rparr> \<and>
      branch_applyBlock ?E (newBlockNode h bl (Some (br_head b))) b =
        (share_readonly c b, Ok (c \<lparr> br_head := newBlockNode h bl (Some (br_head b)) \<rparr>))"
    using o ws in_pool head by (intro applyBlock_Ok) auto
  moreover have "set out \<subseteq> snd ` set (br_unpacked b)"
    using ws(1,2) by (auto simp: sortUnpackedTxs_def)
  ultimately show ?thesis
    using o(2,4,5) ws(1,4,6) head by auto
qed

lemma produceBlock_exists:
  assumes "produce_loop example_env h (min (length (sortUnpackedTxs example_env b)) MaxTransactionsPerBlock)
      (sortUnpackedTxs example_env b) (makeArena b) [] = (cpy, Ok out)"
    and "length out \<le> 2 ^ 62"
  shows "\<exists>br bl. produceBlock example_bp_env example_sign id h ts addr [9] b = (share_readonly cpy b, Ok (br, bl)) \<and>
    bl_Transactions bl = out \<and> block_Verify example_bp_env bl = Ok () \<and> block_ParentHash bl = bn_hash (br_head cpy)"
proof -
  let ?block = "\<lparr> bl_SignedHeader =
                    \<lparr> bs_BPHeader =
                        \<lparr> bh_Version = 0x01000000, bh_Producer = addr, bh_MerkleRoot = zero_hash,
                          bh_ParentHash = bn_hash (br_head cpy), bh_Timestamp = ts \<rparr>,
                      bs_HSV = zero_hsv \<rparr>,
                  bl_Transactions = out \<rparr>"
  obtain bl where bl: "PackAndSignBlock example_bp_env example_sign id [9] ?block = Ok bl"
      "block_Verify example_bp_env bl = Ok ()" "bl_Transactions bl = out" "block_ParentHash bl = block_ParentHash ?block"
    using pack_sign_block [where sign = example_sign and k = "[9]" and pub = id and b = ?block,
        OF example_signs example_marshals] assms(2) by auto
  have "sortUnpackedTxs example_env (makeArena b) = sortUnpackedTxs example_env b"
    by (simp add: sortUnpackedTxs_def makeArena_def)
  then show ?thesis
    using assms(1) bl by (simp add: produceBlock_def Let_def if_less_min block_ParentHash_def)
qed

definition example_send :: "AccountAddress \<Rightarrow> AccountAddress \<Rightarrow> u64 \<Rightarrow> hash \<Rightarrow> Transaction" where
  "example_send sender receiver amount h =
     Transfer \<lparr> tr_Sender = sender, tr_Receiver = receiver, tr_Nonce = 0, tr_Amount = amount, tr_TokenType = Particle \<rparr>
       \<lparr> mx_TxType = TransactionTypeTransfer, mx_Timestamp = 0 \<rparr> (example_hsv sender \<lparr> hv_DataHash := h \<rparr>)"

lemma example_pool:
  "sortUnpackedTxs example_env (example_branch [example_send [1] [2] n [10], example_send [2] [3] 0 [11]] as) =
     [example_send [1] [2] n [10], example_send [2] [3] 0 [11]]"
  by (simp add: sortUnpackedTxs_def example_branch_def example_send_def signee_address_def PubKeyHash_def
      example_hsv_def example_env_def)

lemma example_arena [simp]: "makeArena (example_branch pool as) = example_branch pool as"
  by (simp add: makeArena_def example_branch_def example_state_def newDirtyIndex_def)

theorem produced_block_accepted_witness:
  "\<exists>b' br bl. produceBlock example_bp_env example_sign id 1 0 [] [9]
       (example_branch [example_send [1] [2] 3 [10], example_send [2] [3] 0 [11]] [example_account [1] 5]) =
         (b', Ok (br, bl)) \<and> length (bl_Transactions bl) = 2 \<and>
     branch_applyBlock example_env (newBlockNode 1 bl (Some example_genesis_node))
       (example_branch [example_send [1] [2] 3 [10], example_send [2] [3] 0 [11]] [example_account [1] 5]) =
         (b', Ok br)"
proof -
  let ?txs = "[example_send [1] [2] 3 [10], example_send [2] [3] 0 [11]]"
  let ?b = "example_branch ?txs [example_account [1] 5]"
  have clean: "failures_clean example_env 1 ?txs (example_state [example_account [1] 5])"
    by (simp add: example_send_def run_defs)
  obtain cpy out where loop: "produce_loop example_env 1 2 ?txs ?b [] = (cpy, Ok out)" "length out = 2"
    by (simp add: example_branch_def example_send_def run_defs)
  have "min (length ?txs) MaxTransactionsPerBlock = 2" by (simp add: MaxTransactionsPerBlock_def)
  from produceBlock_exists [of 1 ?b cpy out 0 "[]", unfolded example_pool this example_arena, OF loop(1)] loop(2)
  obtain b' br bl where run: "produceBlock example_bp_env example_sign id 1 0 [] [9] ?b = (b', Ok (br, bl))"
      "length (bl_Transactions bl) = 2"
    by (auto simp del: produce_loop.simps)
  have "metaState_clean (br_preview ?b) = example_state [example_account [1] 5]" "br_head ?b = example_genesis_node"
    by (simp_all add: metaState_clean_def example_branch_def example_state_def newDirtyIndex_def)
  moreover have "wf_branch ?b" by (rule wf_example_branch) (simp_all add: example_send_def)
  ultimately show ?thesis
    using produced_block_accepted [OF _ run(1)] clean run by (auto simp: example_pool)
qed

end
