(* ===== verification/BP_Storage.thy ===== *)
theory BP_Storage
  imports Block_Node Meta_Match
begin

text \<open>
  The storage of the block producer, \<open>blockproducer/storage.go\<close>: the tables, the
  procedures that write them inside one database transaction, and the loading at start.
  A table is the list of its rows in the order of their row ids. SQL statements mean
  what they say: \<open>INSERT OR REPLACE\<close> removes the rows that agree with the new one on the
  columns declared unique and adds the new row at the end. Errors of the database itself
  are an argument.
\<close>

section \<open>Tables\<close>

text \<open>The encoders and decoders of MessagePack and JSON, \<open>None\<close> an error.\<close>

record codec =
  enc_block :: "BPBlock \<Rightarrow> bytes option"
  dec_block :: "bytes \<Rightarrow> BPBlock option"
  enc_tx :: "Transaction \<Rightarrow> bytes option"
  dec_tx :: "bytes \<Rightarrow> Transaction option"
  enc_account :: "Account \<Rightarrow> bytes option"
  dec_account :: "bytes \<Rightarrow> Account option"
  enc_profile :: "SQLChainProfile \<Rightarrow> bytes option"
  dec_profile :: "bytes \<Rightarrow> SQLChainProfile option"
  enc_provider :: "ProviderProfile \<Rightarrow> bytes option"
  dec_provider :: "bytes \<Rightarrow> ProviderProfile option"
  json_tx :: "Transaction \<Rightarrow> string"

record block_row =
  kr_height :: u32
  kr_hash :: string
  kr_parent :: string
  kr_encoded :: bytes

record indexed_block_row =
  ib_height :: u32
  ib_hash :: string
  ib_timestamp :: Time
  ib_version :: int
  ib_producer :: string
  ib_merkle_root :: string
  ib_parent :: string
  ib_tx_count :: nat

record indexed_tx_row =
  it_block_height :: u32
  it_tx_index :: nat
  it_hash :: string
  it_block_hash :: string
  it_timestamp :: Time
  it_tx_type :: TransactionType
  it_address :: string
  it_raw :: string

record tables =
  tb_blocks :: "block_row list"
  tb_txPool :: "(TransactionType \<times> string \<times> bytes) list"
  tb_irreversible :: "(int \<times> string) list"
  tb_accounts :: "(string \<times> bytes) list"
  tb_shardChain :: "(string \<times> string \<times> bytes) list"
  tb_provider :: "(string \<times> bytes) list"
  tb_indexed_blocks :: "indexed_block_row list"
  tb_indexed_transactions :: "indexed_tx_row list"
  tb_indexed_shardChains :: "(string \<times> string \<times> string) list"

definition empty_tables :: tables where
  "empty_tables =
     \<lparr> tb_blocks = [], tb_txPool = [], tb_irreversible = [], tb_accounts = [], tb_shardChain = [],
       tb_provider = [], tb_indexed_blocks = [], tb_indexed_transactions = [], tb_indexed_shardChains = [] \<rparr>"

definition insert_or_replace :: "('r \<Rightarrow> 'k) \<Rightarrow> 'r \<Rightarrow> 'r list \<Rightarrow> 'r list" where
  "insert_or_replace key r rows = filter (\<lambda>r'. key r' \<noteq> key r) rows @ [r]"

definition delete_where :: "('r \<Rightarrow> bool) \<Rightarrow> 'r list \<Rightarrow> 'r list" where
  "delete_where P rows = filter (\<lambda>r. \<not> P r) rows"

section \<open>Procedures\<close>

type_synonym storageProcedure = "tables \<Rightarrow> (bp_error, tables) res"

definition errPass :: "bp_error \<Rightarrow> storageProcedure" where
  "errPass e = (\<lambda>_. Err e)"

definition addBlock :: "codec \<Rightarrow> u32 \<Rightarrow> BPBlock \<Rightarrow> storageProcedure" where
  "addBlock C height b =
     (case enc_block C b of
        None \<Rightarrow> errPass ErrEncode
      | Some enc \<Rightarrow> (\<lambda>db. Ok (db \<lparr> tb_blocks := insert_or_replace kr_hash
          \<lparr> kr_height = height, kr_hash = hash_String (block_BlockHash b),
            kr_parent = hash_String (block_ParentHash b), kr_encoded = enc \<rparr> (tb_blocks db) \<rparr>)))"

definition storage_addTx :: "codec \<Rightarrow> Transaction \<Rightarrow> storageProcedure" where
  "storage_addTx C t =
     (case enc_tx C t of
        None \<Rightarrow> errPass ErrEncode
      | Some enc \<Rightarrow> (\<lambda>db. Ok (db \<lparr> tb_txPool := insert_or_replace (\<lambda>(_, h, _). h)
          (GetTransactionType t, hash_String (tx_Hash t), enc) (tb_txPool db) \<rparr>)))"

definition index_tx :: "tx_env \<Rightarrow> codec \<Rightarrow> u32 \<Rightarrow> BPBlock \<Rightarrow> nat \<times> Transaction \<Rightarrow> indexed_tx_row list \<Rightarrow> indexed_tx_row list" where
  "index_tx E C height b = (\<lambda>(txIndex, t).
     insert_or_replace (\<lambda>r. (it_block_height r, it_tx_index r))
       \<lparr> it_block_height = height, it_tx_index = txIndex, it_hash = hash_String (tx_Hash t),
         it_block_hash = hash_String (block_BlockHash b), it_timestamp = GetTimestamp t,
         it_tx_type = GetTransactionType t, it_address = hash_String (GetAccountAddress E t),
         it_raw = json_tx C t \<rparr>)"

definition buildBlockIndex :: "tx_env \<Rightarrow> codec \<Rightarrow> u32 \<Rightarrow> BPBlock \<Rightarrow> storageProcedure" where
  "buildBlockIndex E C height b db =
     Ok (db \<lparr> tb_indexed_blocks := insert_or_replace ib_height
                \<lparr> ib_height = height, ib_hash = hash_String (block_BlockHash b),
                  ib_timestamp = block_Timestamp b,
                  ib_version = bh_Version (bs_BPHeader (bl_SignedHeader b)),
                  ib_producer = hash_String (block_Producer b),
                  ib_merkle_root = hash_String (bh_MerkleRoot (bs_BPHeader (bl_SignedHeader b))),
                  ib_parent = hash_String (block_ParentHash b),
                  ib_tx_count = length (bl_Transactions b) \<rparr> (tb_indexed_blocks db),
              tb_indexed_transactions := fold (index_tx E C height b)
                (enumerate 0 (bl_Transactions b)) (tb_indexed_transactions db) \<rparr>)"

definition updateIrreversible :: "hash \<Rightarrow> storageProcedure" where
  "updateIrreversible h db =
     Ok (db \<lparr> tb_irreversible := insert_or_replace fst (0, hash_String h) (tb_irreversible db) \<rparr>)"

definition deleteTxs :: "Transaction list \<Rightarrow> storageProcedure" where
  "deleteTxs txs db =
     Ok (db \<lparr> tb_txPool := fold (\<lambda>v. delete_where (\<lambda>(_, h, _). h = hash_String (tx_Hash v))) txs (tb_txPool db) \<rparr>)"

definition updateAccount :: "codec \<Rightarrow> Account \<Rightarrow> storageProcedure" where
  "updateAccount C account =
     (case enc_account C account of
        None \<Rightarrow> errPass ErrEncode
      | Some enc \<Rightarrow> (\<lambda>db. Ok (db \<lparr> tb_accounts := insert_or_replace fst
          (hash_String (ac_Address account), enc) (tb_accounts db) \<rparr>)))"

definition deleteAccount :: "AccountAddress \<Rightarrow> storageProcedure" where
  "deleteAccount address db =
     Ok (db \<lparr> tb_accounts := delete_where (\<lambda>r. fst r = hash_String address) (tb_accounts db) \<rparr>)"

text \<open>The loop over the users dereferences their permission, so a nil one panics.\<close>

fun index_users ::
    "SQLChainProfile \<Rightarrow> SQLChainUser list \<Rightarrow> (string \<times> string \<times> string) list \<Rightarrow>
     (bp_error, (string \<times> string \<times> string) list) res" where
  "index_users profile [] rows = Ok rows"
| "index_users profile (u # us) rows =
     (case su_Permission u of
        None \<Rightarrow> Panic
      | Some perm \<Rightarrow>
          index_users profile us
            (if up_Role perm = Void
             then delete_where (\<lambda>(acc, addr, _). acc = hash_String (su_Address u) \<and>
                    addr = hash_String (sc_Address profile)) rows
             else insert_or_replace id
                    (hash_String (su_Address u), hash_String (sc_Address profile), sc_ID profile) rows))"

definition updateShardChain :: "codec \<Rightarrow> SQLChainProfile \<Rightarrow> storageProcedure" where
  "updateShardChain C profile =
     (case enc_profile C profile of
        None \<Rightarrow> errPass ErrEncode
      | Some enc \<Rightarrow> (\<lambda>db.
          (let db = db \<lparr> tb_shardChain := insert_or_replace (\<lambda>(addr, id, _). (addr, id))
                (hash_String (sc_Address profile), sc_ID profile, enc) (tb_shardChain db) \<rparr>
           in case index_users profile (sc_Users profile) (tb_indexed_shardChains db) of
                Ok rows \<Rightarrow> Ok (db \<lparr> tb_indexed_shardChains := rows \<rparr>)
              | Err e \<Rightarrow> Err e
              | Panic \<Rightarrow> Panic)))"

definition deleteShardChain :: "DatabaseID \<Rightarrow> storageProcedure" where
  "deleteShardChain d db =
     Ok (db \<lparr> tb_shardChain := delete_where (\<lambda>(_, id, _). id = d) (tb_shardChain db),
              tb_indexed_shardChains := delete_where (\<lambda>(_, _, id). id = d) (tb_indexed_shardChains db) \<rparr>)"

definition updateProvider :: "codec \<Rightarrow> ProviderProfile \<Rightarrow> storageProcedure" where
  "updateProvider C profile =
     (case enc_provider C profile of
        None \<Rightarrow> errPass ErrEncode
      | Some enc \<Rightarrow> (\<lambda>db. Ok (db \<lparr> tb_provider := insert_or_replace fst
          (hash_String (pp_Provider profile), enc) (tb_provider db) \<rparr>)))"

definition deleteProvider :: "AccountAddress \<Rightarrow> storageProcedure" where
  "deleteProvider address db =
     Ok (db \<lparr> tb_provider := delete_where (\<lambda>r. fst r = hash_String address) (tb_provider db) \<rparr>)"

text \<open>\<open>metaState.compileChanges\<close>: one procedure per entry of the dirty index.\<close>

definition compileChanges :: "codec \<Rightarrow> metaState \<Rightarrow> storageProcedure list \<Rightarrow> storageProcedure list" where
  "compileChanges C s dst =
     dst @
     map (\<lambda>(k, v). case v of Some a \<Rightarrow> updateAccount C a | None \<Rightarrow> deleteAccount k) (dx_accounts (ms_dirty s)) @
     map (\<lambda>(k, v). case v of Some p \<Rightarrow> updateShardChain C p | None \<Rightarrow> deleteShardChain k) (dx_databases (ms_dirty s)) @
     map (\<lambda>(k, v). case v of Some p \<Rightarrow> updateProvider C p | None \<Rightarrow> deleteProvider k) (dx_provider (ms_dirty s))"

section \<open>Running procedures in a transaction\<close>

fun run_procedures :: "storageProcedure list \<Rightarrow> storageProcedure" where
  "run_procedures [] db = Ok db"
| "run_procedures (sp # sps) db =
     (case sp db of Ok db \<Rightarrow> run_procedures sps db | Err e \<Rightarrow> Err e | Panic \<Rightarrow> Panic)"

text \<open>
  What the database does: begin the transaction or fail, fail in a statement of the
  given procedure, fail to commit, or work.
\<close>

datatype db_fault = NoFault | BeginFails | ProcedureFails nat | CommitFails

text \<open>
  \<open>store\<close>: the tables, the state the callback changes, and the result. Without a commit
  the deferred \<open>Rollback\<close> restores the tables; a failing commit ends the process, after
  the callback ran.
\<close>

definition store ::
    "db_fault \<Rightarrow> storageProcedure list \<Rightarrow> ('s \<Rightarrow> 's) \<Rightarrow> tables \<Rightarrow> 's \<Rightarrow> tables \<times> 's \<times> (bp_error, unit) res" where
  "store fault sps cb db s =
     (case fault of
        BeginFails \<Rightarrow> (db, s, Err ErrStorage)
      | _ \<Rightarrow>
          (case run_procedures
                  (case fault of ProcedureFails n \<Rightarrow> sps[n := errPass ErrStorage] | _ \<Rightarrow> sps) db of
             Err e \<Rightarrow> (db, s, Err e)
           | Panic \<Rightarrow> (db, s, Panic)
           | Ok db' \<Rightarrow> if fault = CommitFails then (db, cb s, Panic) else (db', cb s, Ok ())))"

text \<open>\<open>openStorage\<close>: \<open>open\<close> is \<open>NewSqlite\<close> and \<open>exec\<close> runs one statement of the schema.\<close>

fun exec_ddls :: "('st \<Rightarrow> string \<Rightarrow> 'st option) \<Rightarrow> string list \<Rightarrow> 'st \<Rightarrow> 'st option \<times> bp_error option" where
  "exec_ddls exec [] st = (Some st, None)"
| "exec_ddls exec (v # vs) st =
     (case exec st v of None \<Rightarrow> (Some st, Some ErrStorage) | Some st \<Rightarrow> exec_ddls exec vs st)"

definition openStorage ::
    "'st option \<Rightarrow> ('st \<Rightarrow> string \<Rightarrow> 'st option) \<Rightarrow> string list \<Rightarrow> 'st option \<times> bp_error option" where
  "openStorage opened exec ddls =
     (case opened of None \<Rightarrow> (None, None) | Some st \<Rightarrow> exec_ddls exec ddls st)"

section \<open>Loading\<close>

definition decode_hash :: "hash \<Rightarrow> string \<Rightarrow> (bp_error, hash) res" where
  "decode_hash dst s =
     (case hash_Decode dst s of Ok h \<Rightarrow> Ok h | Err _ \<Rightarrow> Err ErrStorage | Panic \<Rightarrow> Panic)"

definition loadIrreHash :: "tables \<Rightarrow> (bp_error, hash) res" where
  "loadIrreHash db =
     (case find (\<lambda>(id, _). id = 0) (tb_irreversible db) of
        None \<Rightarrow> Err ErrStorage
      | Some (_, hex) \<Rightarrow> decode_hash zero_hash hex)"

text \<open>The loop decodes each hash into the same variable.\<close>

fun load_pool_loop ::
    "codec \<Rightarrow> (TransactionType \<times> string \<times> bytes) list \<Rightarrow> hash \<Rightarrow> (hash, Transaction) gomap \<Rightarrow>
     (bp_error, (hash, Transaction) gomap) res" where
  "load_pool_loop C [] th pool = Ok pool"
| "load_pool_loop C ((tt, hex, enc) # rows) th pool =
     (case decode_hash th hex of
        Ok th \<Rightarrow>
          (case dec_tx C enc of
             None \<Rightarrow> Err ErrStorage
           | Some dec \<Rightarrow> load_pool_loop C rows th (mput th dec pool))
      | Err e \<Rightarrow> Err e
      | Panic \<Rightarrow> Panic)"

definition loadTxPool :: "codec \<Rightarrow> tables \<Rightarrow> (bp_error, (hash, Transaction) gomap) res" where
  "loadTxPool C db = load_pool_loop C (tb_txPool db) zero_hash []"

definition storage_loadBlock :: "codec \<Rightarrow> tables \<Rightarrow> hash \<Rightarrow> (bp_error, BPBlock) res" where
  "storage_loadBlock C db h =
     (case find (\<lambda>r. kr_hash r = hash_String h) (tb_blocks db) of
        None \<Rightarrow> Err ErrStorage
      | Some r \<Rightarrow> (case dec_block C (kr_encoded r) of None \<Rightarrow> Err ErrStorage | Some b \<Rightarrow> Ok b))"

text \<open>The loop of \<open>loadBlocks\<close>: the nodes by hash, and those that have no child yet.\<close>

fun load_blocks_loop ::
    "codec \<Rightarrow> block_row list \<Rightarrow> hash \<Rightarrow> hash \<Rightarrow> (hash, blockNode) gomap \<Rightarrow> (hash, blockNode) gomap \<Rightarrow>
     (bp_error, (hash, blockNode) gomap \<times> (hash, blockNode) gomap) res" where
  "load_blocks_loop C [] bh ph index headsIndex = Ok (index, headsIndex)"
| "load_blocks_loop C (r # rows) bh ph index headsIndex =
     (case decode_hash bh (kr_hash r) of
        Err e \<Rightarrow> Err e
      | Panic \<Rightarrow> Panic
      | Ok bh \<Rightarrow>
          (case decode_hash ph (kr_parent r) of
             Err e \<Rightarrow> Err e
           | Panic \<Rightarrow> Panic
           | Ok ph \<Rightarrow>
               (case dec_block C (kr_encoded r) of
                  None \<Rightarrow> Err ErrStorage
                | Some dec \<Rightarrow>
                    if kr_height r = 0 then
                      if index \<noteq> [] then Err ErrMultipleGenesis
                      else
                        (let bn = newNonCacheBlockNode 0 dec None
                         in load_blocks_loop C rows bh ph (mput bh bn index) (mput bh bn headsIndex))
                    else
                      (case mget index ph of
                         None \<Rightarrow> Err ErrParentNotFound
                       | Some pn \<Rightarrow>
                           (let bn = newNonCacheBlockNode (kr_height r) dec (Some pn)
                            in load_blocks_loop C rows bh ph (mput bh bn index)
                                 (mput bh bn (mdel ph headsIndex)))))))"

definition loadBlocks :: "codec \<Rightarrow> tables \<Rightarrow> hash \<Rightarrow> (bp_error, blockNode \<times> blockNode list) res" where
  "loadBlocks C db irreHash =
     (case load_blocks_loop C (tb_blocks db) zero_hash zero_hash [] [] of
        Err e \<Rightarrow> Err e
      | Panic \<Rightarrow> Panic
      | Ok (index, headsIndex) \<Rightarrow>
          (case mget index irreHash of
             None \<Rightarrow> Err ErrParentNotFound
           | Some lastIrre \<Rightarrow> Ok (lastIrre, map snd headsIndex)))"

fun load_keyed :: "(bytes \<Rightarrow> 'v option) \<Rightarrow> (string \<times> bytes) list \<Rightarrow> hash \<Rightarrow> (hash, 'v) gomap \<Rightarrow>
    (bp_error, (hash, 'v) gomap) res" where
  "load_keyed dec [] addr m = Ok m"
| "load_keyed dec ((hex, enc) # rows) addr m =
     (case decode_hash addr hex of
        Ok addr \<Rightarrow>
          (case dec enc of None \<Rightarrow> Err ErrStorage | Some v \<Rightarrow> load_keyed dec rows addr (mput addr v m))
      | Err e \<Rightarrow> Err e
      | Panic \<Rightarrow> Panic)"

fun load_profiles :: "(bytes \<Rightarrow> SQLChainProfile option) \<Rightarrow> (string \<times> string \<times> bytes) list \<Rightarrow>
    (DatabaseID, SQLChainProfile) gomap \<Rightarrow> (bp_error, (DatabaseID, SQLChainProfile) gomap) res" where
  "load_profiles dec [] m = Ok m"
| "load_profiles dec ((_, dbid, enc) # rows) m =
     (case dec enc of None \<Rightarrow> Err ErrStorage | Some v \<Rightarrow> load_profiles dec rows (mput dbid v m))"

definition set_readonly :: "(metaIndex \<Rightarrow> (bp_error, metaIndex) res) \<Rightarrow> metaState \<Rightarrow> (bp_error, metaState) res" where
  "set_readonly f view =
     (case f (ms_readonly view) of
        Ok ix \<Rightarrow> Ok (view \<lparr> ms_readonly := ix \<rparr>) | Err e \<Rightarrow> Err e | Panic \<Rightarrow> Panic)"

definition loadAndCacheAccounts :: "codec \<Rightarrow> tables \<Rightarrow> metaState \<Rightarrow> (bp_error, metaState) res" where
  "loadAndCacheAccounts C db = set_readonly (\<lambda>ix.
     case load_keyed (dec_account C) (tb_accounts db) zero_hash (ix_accounts ix) of
       Ok m \<Rightarrow> Ok (ix \<lparr> ix_accounts := m \<rparr>) | Err e \<Rightarrow> Err e | Panic \<Rightarrow> Panic)"

definition loadAndCacheShardChainProfiles :: "codec \<Rightarrow> tables \<Rightarrow> metaState \<Rightarrow> (bp_error, metaState) res" where
  "loadAndCacheShardChainProfiles C db = set_readonly (\<lambda>ix.
     case load_profiles (dec_profile C) (tb_shardChain db) (ix_databases ix) of
       Ok m \<Rightarrow> Ok (ix \<lparr> ix_databases := m \<rparr>) | Err e \<Rightarrow> Err e | Panic \<Rightarrow> Panic)"

definition loadAndCacheProviders :: "codec \<Rightarrow> tables \<Rightarrow> metaState \<Rightarrow> (bp_error, metaState) res" where
  "loadAndCacheProviders C db = set_readonly (\<lambda>ix.
     case load_keyed (dec_provider C) (tb_provider db) zero_hash (ix_provider ix) of
       Ok m \<Rightarrow> Ok (ix \<lparr> ix_provider := m \<rparr>) | Err e \<Rightarrow> Err e | Panic \<Rightarrow> Panic)"

definition res_bind :: "('e, 'a) res \<Rightarrow> ('a \<Rightarrow> ('e, 'b) res) \<Rightarrow> ('e, 'b) res" where
  "res_bind r f = (case r of Ok x \<Rightarrow> f x | Err e \<Rightarrow> Err e | Panic \<Rightarrow> Panic)"

definition loadImmutableState :: "codec \<Rightarrow> tables \<Rightarrow> (bp_error, metaState) res" where
  "loadImmutableState C db =
     res_bind (loadAndCacheAccounts C db newMetaState) (\<lambda>s.
     res_bind (loadAndCacheShardChainProfiles C db s) (\<lambda>s.
     loadAndCacheProviders C db s))"

definition loadDatabase ::
    "codec \<Rightarrow> tables \<Rightarrow>
     (bp_error, blockNode \<times> blockNode list \<times> metaState \<times> (hash, Transaction) gomap) res" where
  "loadDatabase C db =
     res_bind (loadIrreHash db) (\<lambda>irreHash.
     res_bind (loadBlocks C db irreHash) (\<lambda>(irre, heads).
     res_bind (loadImmutableState C db) (\<lambda>immutable.
     res_bind (loadTxPool C db) (\<lambda>txPool. Ok (irre, heads, immutable, txPool)))))"

section \<open>Rows and the maps they stand for\<close>

text \<open>What the two statements do to the list of entries the rows stand for: again a map.\<close>

definition row_put :: "'k \<Rightarrow> 'v \<Rightarrow> ('k \<times> 'v) list \<Rightarrow> ('k \<times> 'v) list" where
  "row_put k v m = filter (\<lambda>kv. fst kv \<noteq> k) m @ [(k, v)]"

definition row_del :: "'k \<Rightarrow> ('k \<times> 'v) list \<Rightarrow> ('k \<times> 'v) list" where
  "row_del k m = filter (\<lambda>kv. fst kv \<noteq> k) m"

lemma map_of_filter_key: "map_of (filter (\<lambda>kv. fst kv \<noteq> k) m) k' = (if k' = k then None else map_of m k')"
  by (induction m) auto

interpretation rowmap: go_map map_of row_put row_del "\<lambda>m. distinct (map fst m)"
  by unfold_locales
    (auto simp: row_put_def row_del_def map_of_filter_key map_add_def distinct_map inj_on_def
      split: option.splits)

text \<open>
  The contract between a table and the map it holds: \<open>row k v\<close> is the row of an entry,
  and the unique columns tell the keys of admissible entries apart.
\<close>

locale table_rows =
  fixes row :: "'k \<Rightarrow> 'v \<Rightarrow> 'r"
    and key :: "'r \<Rightarrow> 'u"
    and admissible :: "'k \<Rightarrow> 'v \<Rightarrow> bool"
  assumes key_row: "admissible k v \<Longrightarrow> admissible k' v' \<Longrightarrow> key (row k v) = key (row k' v') \<longleftrightarrow> k = k'"
begin

lemma replace_rows:
  assumes "\<forall>(k', v') \<in> set m. admissible k' v'" and "admissible k v"
  shows "insert_or_replace key (row k v) (map (\<lambda>(k, v). row k v) m) = map (\<lambda>(k, v). row k v) (row_put k v m)"
proof -
  have "key (row (fst kv) (snd kv)) \<noteq> key (row k v) \<longleftrightarrow> fst kv \<noteq> k" if "kv \<in> set m" for kv
    using assms that key_row by (metis (mono_tags, lifting) case_prodE prod.sel)
  then show ?thesis
    by (auto simp: insert_or_replace_def row_put_def filter_map comp_def case_prod_beta
        intro!: arg_cong [of _ _ "map _"] filter_cong)
qed

lemma delete_rows:
  assumes "\<forall>(k', v') \<in> set m. P (row k' v') \<longleftrightarrow> k' = k"
  shows "delete_where P (map (\<lambda>(k, v). row k v) m) = map (\<lambda>(k, v). row k v) (row_del k m)"
  using assms
  by (auto simp: delete_where_def row_del_def filter_map comp_def case_prod_beta
      intro!: arg_cong [of _ _ "map _"] filter_cong)

lemma admissible_put:
  "\<forall>(k', v') \<in> set m. admissible k' v' \<Longrightarrow> admissible k v \<Longrightarrow> \<forall>(k', v') \<in> set (row_put k v m). admissible k' v'"
  by (auto simp: row_put_def)

lemma admissible_del:
  "\<forall>(k', v') \<in> set m. admissible k' v' \<Longrightarrow> \<forall>(k', v') \<in> set (row_del k m). admissible k' v'"
  by (auto simp: row_del_def)

text \<open>Writing the entries of a dirty index one by one.\<close>

lemma write_rows:
  assumes "\<forall>(k, v) \<in> set m. admissible k v" and "\<forall>(k, ov) \<in> set d. \<forall>v. ov = Some v \<longrightarrow> admissible k v"
    and "\<forall>(k, ov) \<in> set d. \<forall>k' v'. admissible k' v' \<longrightarrow> (P k (row k' v') \<longleftrightarrow> k' = k)"
  defines "m' \<equiv> fold (\<lambda>(k, ov) m. case ov of Some v \<Rightarrow> row_put k v m | None \<Rightarrow> row_del k m) d m"
  shows "fold (\<lambda>(k, ov) rows. case ov of Some v \<Rightarrow> insert_or_replace key (row k v) rows
        | None \<Rightarrow> delete_where (P k) rows) d (map (\<lambda>(k, v). row k v) m) = map (\<lambda>(k, v). row k v) m' \<and>
    (\<forall>(k, v) \<in> set m'. admissible k v)"
  using assms(1-3) unfolding m'_def
proof (induction d arbitrary: m)
  case (Cons kov d)
  obtain k ov where kov: "kov = (k, ov)" by fastforce
  define m1 where "m1 = (case ov of Some v \<Rightarrow> row_put k v m | None \<Rightarrow> row_del k m)"
  have "\<forall>(k', v') \<in> set m. P k (row k' v') \<longleftrightarrow> k' = k"
    using Cons.prems(1,3) by (auto simp: kov)
  note del = delete_rows [OF this]
  have "(case ov of Some v \<Rightarrow> insert_or_replace key (row k v) (map (\<lambda>(k, v). row k v) m)
      | None \<Rightarrow> delete_where (P k) (map (\<lambda>(k, v). row k v) m)) = map (\<lambda>(k, v). row k v) m1"
    using Cons.prems(1,2) replace_rows del by (cases ov) (auto simp: kov m1_def)
  moreover have adm: "\<forall>(k, v) \<in> set m1. admissible k v"
  proof (cases ov)
    case (Some v)
    then have "admissible k v" using Cons.prems(2) kov by simp
    from admissible_put [OF Cons.prems(1) this] show ?thesis by (simp add: m1_def Some)
  qed (use admissible_del [OF Cons.prems(1)] m1_def in simp)
  moreover have "fold (\<lambda>(k, ov) rows. case ov of Some v \<Rightarrow> insert_or_replace key (row k v) rows
        | None \<Rightarrow> delete_where (P k) rows) d (map (\<lambda>(k, v). row k v) m1) =
      map (\<lambda>(k, v). row k v) (fold (\<lambda>(k, ov) m. case ov of Some v \<Rightarrow> row_put k v m | None \<Rightarrow> row_del k m) d m1) \<and>
      (\<forall>(k, v) \<in> set (fold (\<lambda>(k, ov) m. case ov of Some v \<Rightarrow> row_put k v m | None \<Rightarrow> row_del k m) d m1). admissible k v)"
  proof (rule Cons.IH [OF adm])
    show "\<forall>(k, ov) \<in> set d. \<forall>v. ov = Some v \<longrightarrow> admissible k v" using Cons.prems(2) by simp
    show "\<forall>(k, ov) \<in> set d. \<forall>k' v'. admissible k' v' \<longrightarrow> (P k (row k' v') \<longleftrightarrow> k' = k)"
      using Cons.prems(3) by simp
  qed
  ultimately show ?case by (simp add: kov m1_def)
qed simp

end

text \<open>A table of rows holds a map of admissible entries.\<close>

definition rows_hold :: "('k \<Rightarrow> 'v \<Rightarrow> 'r) \<Rightarrow> ('k \<Rightarrow> 'v \<Rightarrow> bool) \<Rightarrow> 'r list \<Rightarrow> ('k, 'v) gomap \<Rightarrow> bool" where
  "rows_hold row admissible rows m \<longleftrightarrow>
     (\<exists>es. rows = map (\<lambda>(k, v). row k v) es \<and> minv es \<and> mget es = mget m \<and> (\<forall>(k, v) \<in> set es. admissible k v))"

section \<open>The tables of the state\<close>

text \<open>
  An entry a table can hold: its key is a hash, or a database id whose address the
  profile carries, the object names its own key, and decoding gives the object back.
\<close>

definition encodes :: "('v \<Rightarrow> bytes option) \<Rightarrow> (bytes \<Rightarrow> 'v option) \<Rightarrow> 'v \<Rightarrow> bool" where
  "encodes enc dec v \<longleftrightarrow> (case enc v of None \<Rightarrow> False | Some e \<Rightarrow> dec e = Some v)"

definition account_ok :: "codec \<Rightarrow> AccountAddress \<Rightarrow> Account \<Rightarrow> bool" where
  "account_ok C k a \<longleftrightarrow> is_hash k \<and> ac_Address a = k \<and> encodes (enc_account C) (dec_account C) a"

definition provider_ok :: "codec \<Rightarrow> AccountAddress \<Rightarrow> ProviderProfile \<Rightarrow> bool" where
  "provider_ok C k p \<longleftrightarrow> is_hash k \<and> pp_Provider p = k \<and> encodes (enc_provider C) (dec_provider C) p"

definition profile_ok :: "codec \<Rightarrow> DatabaseID \<Rightarrow> SQLChainProfile \<Rightarrow> bool" where
  "profile_ok C d p \<longleftrightarrow> databaseID_AccountAddress d = Ok (sc_Address p) \<and> sc_ID p = d \<and>
     encodes (enc_profile C) (dec_profile C) p"

lemmas entry_ok_defs = account_ok_def provider_ok_def profile_ok_def

lemma encodesE:
  assumes "encodes enc dec v"
  obtains e where "enc v = Some e" "dec e = Some v"
  using assms by (auto simp: encodes_def split: option.splits)

abbreviation account_row :: "codec \<Rightarrow> AccountAddress \<Rightarrow> Account \<Rightarrow> string \<times> bytes" where
  "account_row C k a \<equiv> (hash_String k, the (enc_account C a))"

abbreviation provider_row :: "codec \<Rightarrow> AccountAddress \<Rightarrow> ProviderProfile \<Rightarrow> string \<times> bytes" where
  "provider_row C k p \<equiv> (hash_String k, the (enc_provider C p))"

abbreviation profile_row :: "codec \<Rightarrow> DatabaseID \<Rightarrow> SQLChainProfile \<Rightarrow> string \<times> string \<times> bytes" where
  "profile_row C d p \<equiv> (hash_String (sc_Address p), d, the (enc_profile C p))"

interpretation account_rows: table_rows "account_row C" fst "account_ok C" for C
  by unfold_locales (simp add: account_ok_def hash_String_inj)

interpretation provider_rows: table_rows "provider_row C" fst "provider_ok C" for C
  by unfold_locales (simp add: provider_ok_def hash_String_inj)

interpretation profile_rows: table_rows "profile_row C" "\<lambda>(addr, id, _). (addr, id)" "profile_ok C" for C
  by unfold_locales (auto simp: profile_ok_def)

text \<open>The tables hold exactly the objects of a read-only index.\<close>

definition tables_hold :: "codec \<Rightarrow> tables \<Rightarrow> metaIndex \<Rightarrow> bool" where
  "tables_hold C db ix \<longleftrightarrow>
     rows_hold (account_row C) (account_ok C) (tb_accounts db) (ix_accounts ix) \<and>
     rows_hold (profile_row C) (profile_ok C) (tb_shardChain db) (ix_databases ix) \<and>
     rows_hold (provider_row C) (provider_ok C) (tb_provider db) (ix_provider ix)"

lemma load_keyed_rows:
  assumes "\<forall>(k, v) \<in> set m. is_hash k \<and> encodes enc dec v" and "is_hash addr"
  shows "load_keyed dec (map (\<lambda>(k, v). (hash_String k, the (enc v))) m) addr m0 =
    Ok (fold (\<lambda>(k, v). mput k v) m m0)"
  using assms
  by (induction m arbitrary: addr m0) (auto simp: decode_hash_def hash_Decode_String elim!: encodesE)

lemma load_profiles_rows:
  assumes "\<forall>(k, v) \<in> set m. encodes enc dec v"
  shows "load_profiles dec (map (\<lambda>(d, p). (hash_String (sc_Address p), d, the (enc p))) m) m0 =
    Ok (fold (\<lambda>(k, v). mput k v) m m0)"
  using assms by (induction m arbitrary: m0) (auto elim!: encodesE)

lemma load_tables:
  assumes "tables_hold C db ix"
  shows "\<exists>r. loadImmutableState C db = Ok r \<and> ms_dirty r = newDirtyIndex \<and> meta_inv r \<and>
    mget (ix_accounts (ms_readonly r)) = mget (ix_accounts ix) \<and>
    mget (ix_databases (ms_readonly r)) = mget (ix_databases ix) \<and>
    mget (ix_provider (ms_readonly r)) = mget (ix_provider ix)"
proof -
  obtain as ds ps where t:
     "tb_accounts db = map (\<lambda>(k, a). account_row C k a) as"
     "minv as" "mget as = mget (ix_accounts ix)" "\<forall>(k, a) \<in> set as. account_ok C k a"
     "tb_shardChain db = map (\<lambda>(d, p). profile_row C d p) ds"
     "minv ds" "mget ds = mget (ix_databases ix)" "\<forall>(d, p) \<in> set ds. profile_ok C d p"
     "tb_provider db = map (\<lambda>(k, p). provider_row C k p) ps"
     "minv ps" "mget ps = mget (ix_provider ix)" "\<forall>(k, p) \<in> set ps. provider_ok C k p"
    using assms unfolding tables_hold_def rows_hold_def by blast
  have "\<forall>(k, v) \<in> set as. is_hash k \<and> encodes (enc_account C) (dec_account C) v"
      "\<forall>(k, v) \<in> set ps. is_hash k \<and> encodes (enc_provider C) (dec_provider C) v"
      "\<forall>(k, v) \<in> set ds. encodes (enc_profile C) (dec_profile C) v"
    using t(4,8,12) by (auto simp: entry_ok_defs)
  then have "loadImmutableState C db = Ok \<lparr> ms_dirty = newDirtyIndex,
      ms_readonly = \<lparr> ix_accounts = as, ix_databases = ds, ix_provider = ps \<rparr> \<rparr>"
    using is_hash_zero
    by (simp add: loadImmutableState_def loadAndCacheAccounts_def loadAndCacheShardChainProfiles_def
        loadAndCacheProviders_def set_readonly_def res_bind_def newMetaState_def newMetaIndex_def
        t(1,5,9) load_keyed_rows load_profiles_rows deepCopy_map t(2,6,10))
  then show ?thesis
    using t by (simp add: meta_inv_def newDirtyIndex_def)
qed

section \<open>Writing the changes of a state\<close>

lemma run_procedures_append:
  "run_procedures (xs @ ys) db = res_bind (run_procedures xs db) (run_procedures ys)"
  by (induction xs arbitrary: db) (auto simp: res_bind_def split: res.splits)

lemma update_ok:
  "account_ok C k a \<Longrightarrow>
     updateAccount C a db = Ok (db \<lparr> tb_accounts := insert_or_replace fst (account_row C k a) (tb_accounts db) \<rparr>)"
  "provider_ok C k p \<Longrightarrow>
     updateProvider C p db = Ok (db \<lparr> tb_provider := insert_or_replace fst (provider_row C k p) (tb_provider db) \<rparr>)"
  by (auto simp: updateAccount_def updateProvider_def entry_ok_defs elim!: encodesE)

lemma run_account_procedures:
  assumes "\<forall>(k, v) \<in> set d. \<forall>a. v = Some a \<longrightarrow> account_ok C k a"
  shows "run_procedures (map (\<lambda>(k, v). case v of Some a \<Rightarrow> updateAccount C a | None \<Rightarrow> deleteAccount k) d) db =
    Ok (db \<lparr> tb_accounts := fold (\<lambda>(k, ov) rows. case ov of
        Some a \<Rightarrow> insert_or_replace fst (account_row C k a) rows
      | None \<Rightarrow> delete_where (\<lambda>r. fst r = hash_String k) rows) d (tb_accounts db) \<rparr>)"
  using assms by (induction d arbitrary: db) (auto simp: update_ok deleteAccount_def split: option.split)

lemma run_provider_procedures:
  assumes "\<forall>(k, v) \<in> set d. \<forall>p. v = Some p \<longrightarrow> provider_ok C k p"
  shows "run_procedures (map (\<lambda>(k, v). case v of Some p \<Rightarrow> updateProvider C p | None \<Rightarrow> deleteProvider k) d) db =
    Ok (db \<lparr> tb_provider := fold (\<lambda>(k, ov) rows. case ov of
        Some p \<Rightarrow> insert_or_replace fst (provider_row C k p) rows
      | None \<Rightarrow> delete_where (\<lambda>r. fst r = hash_String k) rows) d (tb_provider db) \<rparr>)"
  using assms by (induction d arbitrary: db) (auto simp: update_ok deleteProvider_def split: option.split)

lemma index_users_Ok:
  "\<forall>u \<in> set us. su_Permission u \<noteq> None \<Longrightarrow> \<exists>rows'. index_users p us rows = Ok rows'"
  by (induction us arbitrary: rows) auto

text \<open>A profile that is written has no nil permission.\<close>

definition storable_profile :: "codec \<Rightarrow> DatabaseID \<Rightarrow> SQLChainProfile option \<Rightarrow> bool" where
  "storable_profile C d v \<longleftrightarrow> (case v of
     None \<Rightarrow> True | Some p \<Rightarrow> profile_ok C d p \<and> list_all (\<lambda>u. su_Permission u \<noteq> None) (sc_Users p))"

lemma profile_procedure_ok:
  assumes "storable_profile C k v"
  shows "\<exists>rows. (case v of Some p \<Rightarrow> updateShardChain C p | None \<Rightarrow> deleteShardChain k) db =
    Ok (db \<lparr> tb_shardChain := (case v of
        Some p \<Rightarrow> insert_or_replace (\<lambda>(addr, id, _). (addr, id)) (profile_row C k p) (tb_shardChain db)
      | None \<Rightarrow> delete_where (\<lambda>(_, id, _). id = k) (tb_shardChain db)), tb_indexed_shardChains := rows \<rparr>)"
proof (cases v)
  case (Some p)
  then have p: "encodes (enc_profile C) (dec_profile C) p" "sc_ID p = k" "\<forall>u \<in> set (sc_Users p). su_Permission u \<noteq> None"
    using assms by (auto simp: storable_profile_def profile_ok_def list_all_iff)
  from index_users_Ok [OF p(3), of p "tb_indexed_shardChains db"]
  obtain rows where "index_users p (sc_Users p) (tb_indexed_shardChains db) = Ok rows" ..
  with p(1,2) Some show ?thesis
    by (auto simp: updateShardChain_def elim!: encodesE)
qed (simp add: deleteShardChain_def, blast)

lemma run_profile_procedures:
  assumes "\<forall>(k, v) \<in> set d. storable_profile C k v"
  shows "\<exists>rows. run_procedures (map (\<lambda>(k, v). case v of Some p \<Rightarrow> updateShardChain C p | None \<Rightarrow> deleteShardChain k) d) db =
    Ok (db \<lparr> tb_shardChain := fold (\<lambda>(k, ov) rows. case ov of
        Some p \<Rightarrow> insert_or_replace (\<lambda>(addr, id, _). (addr, id)) (profile_row C k p) rows
      | None \<Rightarrow> delete_where (\<lambda>(_, id, _). id = k) rows) d (tb_shardChain db),
      tb_indexed_shardChains := rows \<rparr>)"
  using assms
proof (induction d arbitrary: db)
  case Nil
  have "db = db \<lparr> tb_shardChain := tb_shardChain db, tb_indexed_shardChains := tb_indexed_shardChains db \<rparr>" by simp
  then show ?case by (auto intro: exI [of _ "tb_indexed_shardChains db"])
next
  case (Cons kv d)
  obtain k v where kv: "kv = (k, v)" by fastforce
  obtain db1 rows where first: "(case v of Some p \<Rightarrow> updateShardChain C p | None \<Rightarrow> deleteShardChain k) db = Ok db1"
      "db1 = db \<lparr> tb_shardChain := (case v of
        Some p \<Rightarrow> insert_or_replace (\<lambda>(addr, id, _). (addr, id)) (profile_row C k p) (tb_shardChain db)
      | None \<Rightarrow> delete_where (\<lambda>(_, id, _). id = k) (tb_shardChain db)), tb_indexed_shardChains := rows \<rparr>"
    using profile_procedure_ok [of C k v db] Cons.prems kv by auto
  from Cons.IH [of db1] Cons.prems first show ?case
    by (simp add: kv)
qed

text \<open>
  A state can be stored: its new entries are admissible, and so are the keys it deletes.
\<close>

definition storable :: "codec \<Rightarrow> metaState \<Rightarrow> bool" where
  "storable C s \<longleftrightarrow>
     list_all (\<lambda>(k, v). is_hash k \<and> pred_option (account_ok C k) v) (dx_accounts (ms_dirty s)) \<and>
     list_all (\<lambda>(k, v). is_hash k \<and> pred_option (provider_ok C k) v) (dx_provider (ms_dirty s)) \<and>
     list_all (\<lambda>(d, v). storable_profile C d v) (dx_databases (ms_dirty s))"

lemma storableD:
  assumes "storable C s"
  shows "\<forall>(k, v) \<in> set (dx_accounts (ms_dirty s)). \<forall>a. v = Some a \<longrightarrow> account_ok C k a"
    and "\<forall>(k, v) \<in> set (dx_accounts (ms_dirty s)). is_hash k"
    and "\<forall>(k, v) \<in> set (dx_provider (ms_dirty s)). \<forall>p. v = Some p \<longrightarrow> provider_ok C k p"
    and "\<forall>(k, v) \<in> set (dx_provider (ms_dirty s)). is_hash k"
    and "\<forall>(d, v) \<in> set (dx_databases (ms_dirty s)). storable_profile C d v"
    and "\<forall>(d, v) \<in> set (dx_databases (ms_dirty s)). \<forall>p. v = Some p \<longrightarrow> profile_ok C d p"
proof -
  have "\<And>k v. (k, v) \<in> set (dx_accounts (ms_dirty s)) \<Longrightarrow> is_hash k \<and> pred_option (account_ok C k) v"
      "\<And>k v. (k, v) \<in> set (dx_provider (ms_dirty s)) \<Longrightarrow> is_hash k \<and> pred_option (provider_ok C k) v"
      and d: "\<And>d v. (d, v) \<in> set (dx_databases (ms_dirty s)) \<Longrightarrow> storable_profile C d v"
    using assms unfolding storable_def list_all_iff by blast+
  then show "\<forall>(k, v) \<in> set (dx_accounts (ms_dirty s)). \<forall>a. v = Some a \<longrightarrow> account_ok C k a"
      "\<forall>(k, v) \<in> set (dx_accounts (ms_dirty s)). is_hash k"
      "\<forall>(k, v) \<in> set (dx_provider (ms_dirty s)). \<forall>p. v = Some p \<longrightarrow> provider_ok C k p"
      "\<forall>(k, v) \<in> set (dx_provider (ms_dirty s)). is_hash k"
      "\<forall>(d, v) \<in> set (dx_databases (ms_dirty s)). storable_profile C d v"
    by fastforce+
  show "\<forall>(d, v) \<in> set (dx_databases (ms_dirty s)). \<forall>p. v = Some p \<longrightarrow> profile_ok C d p"
    using d by (fastforce simp: storable_profile_def)
qed

context table_rows
begin

lemma hold_write:
  assumes "rows_hold row admissible rows m" and "minv d"
    and "\<forall>(k, ov) \<in> set d. \<forall>v. ov = Some v \<longrightarrow> admissible k v"
    and "\<forall>(k, ov) \<in> set d. \<forall>k' v'. admissible k' v' \<longrightarrow> (P k (row k' v') \<longleftrightarrow> k' = k)"
  shows "rows_hold row admissible
    (fold (\<lambda>(k, ov) rows. case ov of Some v \<Rightarrow> insert_or_replace key (row k v) rows
        | None \<Rightarrow> delete_where (P k) rows) d rows) (commit_map d m)"
proof -
  obtain es where es: "rows = map (\<lambda>(k, v). row k v) es" "minv es" "mget es = mget m" "\<forall>(k, v) \<in> set es. admissible k v"
    using assms(1) unfolding rows_hold_def by blast
  let ?es = "fold (\<lambda>(k, ov) m. case ov of Some v \<Rightarrow> row_put k v m | None \<Rightarrow> row_del k m) d es"
  have "minv ?es \<and> mget ?es = mget (commit_map d m)"
    using rowmap.get_fold_overlay [OF assms(2), of es] rowmap.inv_fold_overlay [OF es(2), of d] es(3)
    by (auto simp: mget_commit_map [OF assms(2)] overlay_view_def fun_eq_iff split: option.split)
  with write_rows [OF es(4) assms(3,4)] show ?thesis
    unfolding rows_hold_def es(1) by blast
qed

end

lemma hash_key_rows:
  assumes "\<forall>(k, v) \<in> set d. is_hash k"
  shows "\<forall>(k, ov) \<in> set d. \<forall>k' v'. account_ok C k' v' \<longrightarrow> (fst (account_row C k' v') = hash_String k \<longleftrightarrow> k' = k)"
    and "\<forall>(k, ov) \<in> set d. \<forall>k' v'. provider_ok C k' v' \<longrightarrow> (fst (provider_row C k' v') = hash_String k \<longleftrightarrow> k' = k)"
  using assms by (auto simp: hash_String_inj entry_ok_defs)

lemma write_accounts:
  assumes "minv d" and "\<forall>(k, v) \<in> set d. \<forall>a. v = Some a \<longrightarrow> account_ok C k a" and "\<forall>(k, v) \<in> set d. is_hash k"
    and "rows_hold (account_row C) (account_ok C) (tb_accounts db) m"
  shows "\<exists>rows. run_procedures (map (\<lambda>(k, v). case v of Some a \<Rightarrow> updateAccount C a | None \<Rightarrow> deleteAccount k) d) db =
      Ok (db \<lparr> tb_accounts := rows \<rparr>) \<and> rows_hold (account_row C) (account_ok C) rows (commit_map d m)"
  using run_account_procedures [OF assms(2), of db]
    account_rows.hold_write [OF assms(4,1,2) hash_key_rows(1) [OF assms(3)]]
  by blast

lemma write_providers:
  assumes "minv d" and "\<forall>(k, v) \<in> set d. \<forall>p. v = Some p \<longrightarrow> provider_ok C k p" and "\<forall>(k, v) \<in> set d. is_hash k"
    and "rows_hold (provider_row C) (provider_ok C) (tb_provider db) m"
  shows "\<exists>rows. run_procedures (map (\<lambda>(k, v). case v of Some p \<Rightarrow> updateProvider C p | None \<Rightarrow> deleteProvider k) d) db =
      Ok (db \<lparr> tb_provider := rows \<rparr>) \<and> rows_hold (provider_row C) (provider_ok C) rows (commit_map d m)"
  using run_provider_procedures [OF assms(2), of db]
    provider_rows.hold_write [OF assms(4,1,2) hash_key_rows(2) [OF assms(3)]]
  by blast

lemma write_profiles:
  assumes "minv d" and "\<forall>(k, v) \<in> set d. storable_profile C k v"
    and "\<forall>(k, v) \<in> set d. \<forall>p. v = Some p \<longrightarrow> profile_ok C k p"
    and "rows_hold (profile_row C) (profile_ok C) (tb_shardChain db) m"
  shows "\<exists>rows ix. run_procedures (map (\<lambda>(k, v). case v of Some p \<Rightarrow> updateShardChain C p | None \<Rightarrow> deleteShardChain k) d) db =
      Ok (db \<lparr> tb_shardChain := rows, tb_indexed_shardChains := ix \<rparr>) \<and>
    rows_hold (profile_row C) (profile_ok C) rows (commit_map d m)"
proof -
  have "\<forall>(k, ov) \<in> set d. \<forall>k' v'. profile_ok C k' v' \<longrightarrow> ((\<lambda>(_, id, _). id = k) (profile_row C k' v') \<longleftrightarrow> k' = k)"
    by auto
  from profile_rows.hold_write [OF assms(4,1,3) this] run_profile_procedures [OF assms(2), of db]
  show ?thesis by blast
qed

lemma write_tables:
  assumes inv: "meta_inv s" and st: "storable C s" and hold: "tables_hold C db (ms_readonly s)"
  shows "\<exists>db'. run_procedures (compileChanges C s []) db = Ok db' \<and>
    tables_hold C db' (ms_readonly (metaState_commit s)) \<and>
    tb_blocks db' = tb_blocks db \<and> tb_txPool db' = tb_txPool db \<and> tb_irreversible db' = tb_irreversible db"
proof -
  let ?da = "dx_accounts (ms_dirty s)" and ?dd = "dx_databases (ms_dirty s)" and ?dp = "dx_provider (ms_dirty s)"
  have inv: "minv ?da" "minv ?dd" "minv ?dp" using inv by (auto simp: meta_inv_def)
  note st = storableD [OF st]
  note h = hold [unfolded tables_hold_def]
  obtain r1 where r1: "run_procedures (map (\<lambda>(k, v). case v of Some a \<Rightarrow> updateAccount C a | None \<Rightarrow> deleteAccount k) ?da) db =
      Ok (db \<lparr> tb_accounts := r1 \<rparr>)"
      and h1: "rows_hold (account_row C) (account_ok C) r1 (commit_map ?da (ix_accounts (ms_readonly s)))"
    using write_accounts [OF inv(1) st(1,2)] h by blast
  let ?db1 = "db \<lparr> tb_accounts := r1 \<rparr>"
  have "rows_hold (profile_row C) (profile_ok C) (tb_shardChain ?db1) (ix_databases (ms_readonly s))"
    using h by simp
  from write_profiles [OF inv(2) st(5,6) this]
  obtain r2 i2 where r2: "run_procedures (map (\<lambda>(k, v). case v of Some p \<Rightarrow> updateShardChain C p | None \<Rightarrow> deleteShardChain k) ?dd)
        ?db1 = Ok (?db1 \<lparr> tb_shardChain := r2, tb_indexed_shardChains := i2 \<rparr>)"
      and h2: "rows_hold (profile_row C) (profile_ok C) r2 (commit_map ?dd (ix_databases (ms_readonly s)))"
    by blast
  let ?db2 = "?db1 \<lparr> tb_shardChain := r2, tb_indexed_shardChains := i2 \<rparr>"
  have "rows_hold (provider_row C) (provider_ok C) (tb_provider ?db2) (ix_provider (ms_readonly s))"
    using h by simp
  from write_providers [OF inv(3) st(3,4) this]
  obtain r3 where r3: "run_procedures (map (\<lambda>(k, v). case v of Some a \<Rightarrow> updateProvider C a | None \<Rightarrow> deleteProvider k) ?dp)
        ?db2 = Ok (?db2 \<lparr> tb_provider := r3 \<rparr>)"
      and h3: "rows_hold (provider_row C) (provider_ok C) r3 (commit_map ?dp (ix_provider (ms_readonly s)))"
    by blast
  show ?thesis
    using h1 h2 h3 by (simp add: compileChanges_def run_procedures_append res_bind_def r1 r2 r3 tables_hold_def metaState_commit_def)
qed

text \<open>A statement that fails makes the whole sequence fail.\<close>

lemma run_procedures_fault:
  "run_procedures sps db = Ok db' \<Longrightarrow> n < length sps \<Longrightarrow> run_procedures (sps[n := errPass e]) db = Err e"
  by (induction sps arbitrary: n db) (auto simp: errPass_def split: res.splits nat.split)

lemma run_procedures_faulty:
  assumes "run_procedures sps db = Ok db'"
  shows "run_procedures (sps[n := errPass e]) db \<in> {Ok db', Err e}"
  using run_procedures_fault [OF assms, of n e] assms by (cases "n < length sps") (auto simp: list_update_beyond)

lemma store_cases:
  assumes "run_procedures sps db = Ok db1" and "store fault sps cb db s = (db', s', r)"
  shows "r = Ok () \<and> db' = db1 \<and> s' = cb s \<and> fault \<noteq> CommitFails \<or>
    r = Err ErrStorage \<and> db' = db \<and> s' = s \<and> fault \<noteq> NoFault \<and> fault \<noteq> CommitFails \<or>
    r = Panic \<and> db' = db \<and> s' = cb s \<and> fault = CommitFails"
proof (cases fault)
  case (ProcedureFails n)
  then show ?thesis
    using run_procedures_faulty [OF assms(1), of n ErrStorage] assms(2) by (auto simp: store_def)
qed (use assms in \<open>auto simp: store_def\<close>)

lemma load_view:
  assumes "tables_hold C db ix"
  shows "\<exists>x. loadImmutableState C db = Ok x \<and> loadAccountObject x = mget (ix_accounts ix) \<and>
    loadSQLChainObject x = mget (ix_databases ix) \<and> loadProviderObject x = mget (ix_provider ix)"
proof -
  obtain x where x: "loadImmutableState C db = Ok x" "ms_dirty x = newDirtyIndex"
      "mget (ix_accounts (ms_readonly x)) = mget (ix_accounts ix)"
      "mget (ix_databases (ms_readonly x)) = mget (ix_databases ix)"
      "mget (ix_provider (ms_readonly x)) = mget (ix_provider ix)"
    using load_tables [OF assms] by blast
  then have "loadAccountObject x = mget (ix_accounts ix)" "loadSQLChainObject x = mget (ix_databases ix)"
      "loadProviderObject x = mget (ix_provider ix)"
    by (simp_all add: fun_eq_iff load_overlay overlay_view_def dirty_defs ro_defs newDirtyIndex_def)
  with x(1) show ?thesis by blast
qed

lemma commit_index:
  assumes "meta_inv s"
  shows "mget (ix_accounts (ms_readonly (metaState_commit s))) = loadAccountObject s"
    "mget (ix_databases (ms_readonly (metaState_commit s))) = loadSQLChainObject s"
    "mget (ix_provider (ms_readonly (metaState_commit s))) = loadProviderObject s"
  using assms by (auto simp: load_overlay simp flip: ro_defs simp: accounts.ro_commit databases.ro_commit providers.ro_commit)

section \<open>Properties\<close>

text \<open>
  C6: the changes of a state are written all or not at all. Take a state whose new entries
  can be encoded and lie under their own keys, whose profiles have no user with a nil
  permission, and whose read-only index is what the tables hold. Whatever fails in the
  database, the state loaded at the next start is the state with its changes when
  \<open>store\<close> reports success and the state before them otherwise; without a fault it
  reports success, and it ends the process exactly when the commit itself fails.
\<close>

theorem stored_state_reloads:
  assumes "meta_inv s" and "storable C s" and "tables_hold C db (ms_readonly s)"
    and "store fault (compileChanges C s []) metaState_commit db s = (db', s', r)"
  shows "(fault = NoFault \<longrightarrow> r = Ok () \<and> s' = metaState_commit s) \<and> (r = Panic \<longleftrightarrow> fault = CommitFails) \<and>
    (\<exists>x. loadImmutableState C db' = Ok x \<and>
      loadAccountObject x = (if r = Ok () then loadAccountObject s else ro_account s) \<and>
      loadSQLChainObject x = (if r = Ok () then loadSQLChainObject s else ro_database s) \<and>
      loadProviderObject x = (if r = Ok () then loadProviderObject s else ro_provider s))"
proof -
  obtain db1 where run: "run_procedures (compileChanges C s []) db = Ok db1"
      and hold: "tables_hold C db1 (ms_readonly (metaState_commit s))"
    using write_tables [OF assms(1-3)] by blast
  have "r = Ok () \<and> db' = db1 \<and> s' = metaState_commit s \<and> fault \<noteq> CommitFails \<or>
      r \<noteq> Ok () \<and> fault \<noteq> NoFault \<and> db' = db \<and> (r = Panic \<longleftrightarrow> fault = CommitFails)"
    using store_cases [OF run assms(4)] by auto
  moreover have "mget (ix_accounts (ms_readonly s)) = ro_account s" "mget (ix_databases (ms_readonly s)) = ro_database s"
      "mget (ix_provider (ms_readonly s)) = ro_provider s"
    by (simp_all add: ro_defs fun_eq_iff)
  ultimately show ?thesis
    using load_view [OF hold] load_view [OF assms(3)] commit_index [OF assms(1)] by auto
qed

text \<open>One new account in an empty database.\<close>

definition example_codec :: "Account \<Rightarrow> codec" where
  "example_codec a =
     \<lparr> enc_block = (\<lambda>_. None), dec_block = (\<lambda>_. None), enc_tx = (\<lambda>_. None), dec_tx = (\<lambda>_. None),
       enc_account = (\<lambda>x. if x = a then Some [1] else None), dec_account = (\<lambda>e. if e = [1] then Some a else None),
       enc_profile = (\<lambda>_. None), dec_profile = (\<lambda>_. None), enc_provider = (\<lambda>_. None), dec_provider = (\<lambda>_. None),
       json_tx = (\<lambda>_. []) \<rparr>"

theorem stored_state_reloads_witness:
  "\<exists>db s x. store NoFault (compileChanges (example_codec (empty_account zero_hash))
        (put_account zero_hash (Some (empty_account zero_hash)) newMetaState) []) metaState_commit
      empty_tables (put_account zero_hash (Some (empty_account zero_hash)) newMetaState) = (db, s, Ok ()) \<and>
    loadImmutableState (example_codec (empty_account zero_hash)) db = Ok x \<and>
    loadAccountObject x zero_hash = Some (empty_account zero_hash)"
proof -
  let ?a = "empty_account zero_hash"
  let ?C = "example_codec ?a" and ?s = "put_account zero_hash (Some ?a) newMetaState"
  obtain db s r where st: "store NoFault (compileChanges ?C ?s []) metaState_commit empty_tables ?s = (db, s, r)"
    by (metis prod_cases3)
  have "meta_inv ?s"
    by (simp add: meta_inv_def newMetaState_def newMetaIndex_def newDirtyIndex_def put_defs)
  moreover have "storable ?C ?s"
    by (simp add: storable_def newMetaState_def newMetaIndex_def newDirtyIndex_def put_defs account_ok_def
        encodes_def example_codec_def empty_account_def)
  moreover have "tables_hold ?C empty_tables (ms_readonly ?s)"
    by (simp add: tables_hold_def rows_hold_def empty_tables_def newMetaState_def newMetaIndex_def put_defs)
  ultimately have "r = Ok ()" "\<exists>x. loadImmutableState ?C db = Ok x \<and> loadAccountObject x = loadAccountObject ?s"
    using stored_state_reloads [OF _ _ _ st] by auto
  then show ?thesis using st by (auto simp: load_put)
qed

section \<open>The tree of blocks\<close>

text \<open>
  The rows that \<open>addBlock\<close> appends for blocks with their heights, and a list of blocks
  that can be loaded: the first one, at height zero, has no parent, every other one has
  another height and comes after its parent, and no hash occurs twice.
\<close>

definition row_of_block :: "codec \<Rightarrow> u32 \<times> BPBlock \<Rightarrow> block_row" where
  "row_of_block C = (\<lambda>(h, b).
     \<lparr> kr_height = h, kr_hash = hash_String (block_BlockHash b), kr_parent = hash_String (block_ParentHash b),
       kr_encoded = the (enc_block C b) \<rparr>)"

fun grows :: "hash list \<Rightarrow> (u32 \<times> BPBlock) list \<Rightarrow> bool" where
  "grows seen [] = True"
| "grows seen ((h, b) # bs) =
     (block_BlockHash b \<notin> set seen \<and>
      (if seen = [] then h = 0 else h \<noteq> 0 \<and> block_ParentHash b \<in> set seen) \<and>
      grows (block_BlockHash b # seen) bs)"

definition block_tree :: "codec \<Rightarrow> (u32 \<times> BPBlock) list \<Rightarrow> bool" where
  "block_tree C bs \<longleftrightarrow> grows [] bs \<and> length bs < 2 ^ 32 \<and>
     list_all (\<lambda>(h, b). is_hash (block_BlockHash b) \<and> is_hash (block_ParentHash b) \<and>
       encodes (enc_block C) (dec_block C) b) bs"

text \<open>A loaded node stands for a block of the list and is linked to the node of its parent.\<close>

definition node_of :: "(u32 \<times> BPBlock) list \<Rightarrow> blockNode \<Rightarrow> bool" where
  "node_of bs n \<longleftrightarrow> list_ex (\<lambda>(h, b). bn_hash n = block_BlockHash b \<and> bn_height n = h \<and>
     bn_txCount n = length (bl_Transactions b) \<and>
     (case bn_parent n of None \<Rightarrow> h = 0 | Some p \<Rightarrow> h \<noteq> 0 \<and> bn_hash p = block_ParentHash b)) bs"

definition load_inv :: "(u32 \<times> BPBlock) list \<Rightarrow> hash list \<Rightarrow> hash set \<Rightarrow>
    (hash, blockNode) gomap \<Rightarrow> (hash, blockNode) gomap \<Rightarrow> bool" where
  "load_inv D seen parents index heads \<longleftrightarrow>
     minv index \<and> minv heads \<and> dom (mget index) = set seen \<and> parents \<subseteq> set seen \<and>
     (\<forall>k n. mget index k = Some n \<longrightarrow> bn_hash n = k \<and> wf_node n \<and> unat (bn_count n) < length seen \<and>
        (\<forall>a \<in> set (ancestors n). node_of D a)) \<and>
     (\<forall>k. mget heads k = (if k \<in> parents then None else mget index k))"

lemma wf_noncache:
  assumes "wf_node p" and "unat (bn_count p) + 1 < 2 ^ 32"
  shows "wf_node (newNonCacheBlockNode h b (Some p))" "unat (bn_count (newNonCacheBlockNode h b (Some p))) = unat (bn_count p) + 1"
  using wf_newBlockNode [OF assms, of h b] assms(2)
  by (auto simp: newNonCacheBlockNode_def newBlockNode_def)

lemma dom_mput: "dom (mget (mput k v m)) = insert k (dom (mget m))"
  by (auto simp: dom_def)

lemma load_inv_step:
  assumes inv: "load_inv D seen parents index heads" and p: "mget index (block_ParentHash b) = Some p"
    and new: "block_BlockHash b \<notin> set seen" "(h, b) \<in> set D" "h \<noteq> 0" and len: "length seen < 2 ^ 32 - 1"
  defines "n \<equiv> newNonCacheBlockNode h b (Some p)"
  shows "load_inv D (block_BlockHash b # seen) (insert (block_ParentHash b) parents)
    (mput (block_BlockHash b) n index) (mput (block_BlockHash b) n (mdel (block_ParentHash b) heads))"
proof -
  have pn: "bn_hash p = block_ParentHash b" "wf_node p" "unat (bn_count p) < length seen" "\<forall>a \<in> set (ancestors p). node_of D a"
    using inv p unfolding load_inv_def by blast+
  have ne: "block_ParentHash b \<noteq> block_BlockHash b"
    using inv p new(1) unfolding load_inv_def by (metis domI)
  have "wf_node n" "unat (bn_count n) < Suc (length seen)"
    using wf_noncache [OF pn(2), of h b] pn(3) len by (simp_all add: n_def)
  moreover have "bn_hash n = block_BlockHash b" by (simp add: n_def newNonCacheBlockNode_def newBlockNode_def)
  moreover have "\<forall>a \<in> set (ancestors n). node_of D a"
    using pn(1,4) new(2,3) by (auto simp: n_def newNonCacheBlockNode_def newBlockNode_def node_of_def list_ex_iff)
  ultimately show ?thesis
    using inv p new(1) ne unfolding load_inv_def dom_mput by (auto simp: less_Suc_eq split: if_splits)
qed

lemma load_blocks_loop_inv:
  assumes "load_inv D seen parents index heads" and "seen \<noteq> []" and "grows seen bs" and "set bs \<subseteq> set D"
    and "length seen + length bs < 2 ^ 32" and "is_hash bh" "is_hash ph"
    and "\<forall>(h, b) \<in> set bs. is_hash (block_BlockHash b) \<and> is_hash (block_ParentHash b) \<and> encodes (enc_block C) (dec_block C) b"
  shows "\<exists>index' heads'. load_blocks_loop C (map (row_of_block C) bs) bh ph index heads = Ok (index', heads') \<and>
    load_inv D (rev (map (block_BlockHash \<circ> snd) bs) @ seen) (parents \<union> (block_ParentHash \<circ> snd) ` set bs) index' heads'"
  using assms
proof (induction bs arbitrary: seen parents index heads bh ph)
  case (Cons hb bs)
  obtain h b where hb: "hb = (h, b)" by fastforce
  let ?bh = "block_BlockHash b" and ?ph = "block_ParentHash b"
  have b: "is_hash ?bh" "is_hash ?ph" "dec_block C (the (enc_block C b)) = Some b"
    using Cons.prems(8) by (auto simp: hb elim!: encodesE)
  have "?ph \<in> dom (mget index)"
    using Cons.prems(1,2,3) by (auto simp: hb load_inv_def)
  then obtain p where p: "mget index ?ph = Some p" by blast
  let ?n = "newNonCacheBlockNode h b (Some p)"
  have inv: "load_inv D (?bh # seen) (insert ?ph parents) (mput ?bh ?n index) (mput ?bh ?n (mdel ?ph heads))"
    using Cons.prems(2-5) by (intro load_inv_step [OF Cons.prems(1) p]) (auto simp: hb)
  have "grows (?bh # seen) bs" "set bs \<subseteq> set D" "length (?bh # seen) + length bs < 2 ^ 32"
      "\<forall>(h, b) \<in> set bs. is_hash (block_BlockHash b) \<and> is_hash (block_ParentHash b) \<and> encodes (enc_block C) (dec_block C) b"
    using Cons.prems(3,4,5,8) by (auto simp: hb)
  from Cons.IH [OF inv _ this(1-3) b(1,2) this(4)]
  show ?case
    using Cons.prems(2,3,6,7) b p by (simp add: hb row_of_block_def decode_hash_def hash_Decode_String Let_def)
qed simp

text \<open>
  C18: loading the blocks of a database rebuilds their tree. When the rows stand for a
  tree of blocks, written parents first, then loading ends without an error for every
  irreversible hash among them; the node of that hash and the heads are linked to the
  nodes of their parents down to the genesis block and numbered without wrapping, and
  the heads are exactly the blocks that no other block has as its parent.
\<close>

theorem loadBlocks_rebuilds_tree:
  assumes "block_tree C bs" and "tb_blocks db = map (row_of_block C) bs" and "irre \<in> (block_BlockHash \<circ> snd) ` set bs"
  shows "\<exists>lastIrre heads. loadBlocks C db irre = Ok (lastIrre, heads) \<and> bn_hash lastIrre = irre \<and>
    distinct (map bn_hash heads) \<and>
    set (map bn_hash heads) = (block_BlockHash \<circ> snd) ` set bs - (block_ParentHash \<circ> snd) ` set (tl bs) \<and>
    (\<forall>n \<in> set (lastIrre # heads). wf_node n \<and> (\<forall>a \<in> set (ancestors n). node_of bs a))"
proof -
  obtain h b bs' where bs: "bs = (h, b) # bs'" using assms(3) by (cases bs) auto
  have b: "is_hash (block_BlockHash b)" "is_hash (block_ParentHash b)" "dec_block C (the (enc_block C b)) = Some b" "h = 0"
    using assms(1) by (auto simp: block_tree_def bs elim!: encodesE)
  let ?n = "newNonCacheBlockNode 0 b None" and ?bh = "block_BlockHash b"
  have inv: "load_inv bs [?bh] {} [(?bh, ?n)] [(?bh, ?n)]"
    using b(4) by (auto simp: load_inv_def newNonCacheBlockNode_def newBlockNode_def node_of_def bs split: if_splits)
  have "\<exists>index heads. load_blocks_loop C (map (row_of_block C) bs') ?bh (block_ParentHash b) [(?bh, ?n)] [(?bh, ?n)] = Ok (index, heads) \<and>
    load_inv bs (rev (map (block_BlockHash \<circ> snd) bs') @ [?bh]) ({} \<union> (block_ParentHash \<circ> snd) ` set bs') index heads"
    using assms(1) b(1,2)
    by (intro load_blocks_loop_inv [OF inv]) (auto simp: block_tree_def list_all_iff bs)
  then obtain index heads where run: "load_blocks_loop C (map (row_of_block C) bs') ?bh (block_ParentHash b)
        [(?bh, ?n)] [(?bh, ?n)] = Ok (index, heads)"
      and inv: "load_inv bs (rev (map (block_BlockHash \<circ> snd) bs') @ [?bh]) ((block_ParentHash \<circ> snd) ` set bs') index heads"
    by auto
  have "irre \<in> dom (mget index)" using inv assms(3) by (auto simp: load_inv_def bs)
  then obtain l where l: "mget index irre = Some l" by blast
  have "loadBlocks C db irre = Ok (l, map snd heads)"
    using run l b by (simp add: loadBlocks_def assms(2) bs row_of_block_def decode_hash_def hash_Decode_String Let_def)
  moreover have heads: "mget heads (fst kv) = Some (snd kv)" if "kv \<in> set heads" for kv
    using inv that mget_mem [of heads "fst kv" "snd kv"] unfolding load_inv_def by simp
  moreover have nodes: "bn_hash n = k \<and> wf_node n \<and> (\<forall>a \<in> set (ancestors n). node_of bs a)" if "mget index k = Some n" for k n
    using inv that unfolding load_inv_def by blast
  moreover have sub: "mget heads k = Some n \<longleftrightarrow> mget index k = Some n \<and> k \<notin> (block_ParentHash \<circ> snd) ` set bs'" for k n
    using inv unfolding load_inv_def by (auto split: if_splits)
  ultimately have hd: "bn_hash (snd kv) = fst kv" "wf_node (snd kv) \<and> (\<forall>a \<in> set (ancestors (snd kv)). node_of bs a)"
    if "kv \<in> set heads" for kv using that by metis+
  have eq: "map bn_hash (map snd heads) = map fst heads" using hd(1) by simp
  have "fst ` set heads = dom (mget heads)" by (simp add: dom_map_of_conv_image_fst)
  also have "\<dots> = dom (mget index) - (block_ParentHash \<circ> snd) ` set bs'"
    by (rule set_eqI) (simp only: domIff not_None_eq Diff_iff sub, blast)
  also have "dom (mget index) = (block_BlockHash \<circ> snd) ` set bs" using inv by (auto simp: load_inv_def bs)
  finally have set: "set (map bn_hash (map snd heads)) = (block_BlockHash \<circ> snd) ` set bs - (block_ParentHash \<circ> snd) ` set (tl bs)"
    unfolding eq by (simp add: bs)
  have "distinct (map bn_hash (map snd heads))"
    unfolding eq using inv by (simp add: load_inv_def)
  moreover have "\<forall>n \<in> set (l # map snd heads). wf_node n \<and> (\<forall>a \<in> set (ancestors n). node_of bs a)"
    using nodes [OF l] hd(2) by auto
  ultimately show ?thesis
    using \<open>loadBlocks C db irre = Ok (l, map snd heads)\<close> nodes [OF l] set by blast
qed

text \<open>A genesis block with two children.\<close>

definition example_hash :: "byte \<Rightarrow> hash" where
  "example_hash n = replicate 31 0 @ [n]"

definition example_blocks :: "(u32 \<times> BPBlock) list" where
  "example_blocks =
     [(0, example_block (example_hash 1) zero_hash 0 []),
      (5, example_block (example_hash 2) (example_hash 1) 50 []),
      (7, example_block (example_hash 3) (example_hash 1) 70 [])]"

definition block_codec :: "BPBlock list \<Rightarrow> codec" where
  "block_codec bs = (example_codec (empty_account zero_hash))
     \<lparr> enc_block := (\<lambda>b. Some (block_BlockHash b)), dec_block := (\<lambda>e. find (\<lambda>b. block_BlockHash b = e) bs) \<rparr>"

lemma is_hash_example [simp]: "is_hash (example_hash n)"
  by (simp add: is_hash_def example_hash_def HashSize_def)

lemma example_hash_eq [simp]: "example_hash m = example_hash n \<longleftrightarrow> m = n"
  by (simp add: example_hash_def)

lemma example_block_fields [simp]:
  "block_BlockHash (example_block h p t txs) = h" "block_ParentHash (example_block h p t txs) = p"
  "block_Timestamp (example_block h p t txs) = t" "bl_Transactions (example_block h p t txs) = txs"
  by (simp_all add: example_block_def block_BlockHash_def block_ParentHash_def block_Timestamp_def)

theorem loadBlocks_rebuilds_tree_witness:
  "\<exists>lastIrre heads. loadBlocks (block_codec (map snd example_blocks))
      (empty_tables \<lparr> tb_blocks := map (row_of_block (block_codec (map snd example_blocks))) example_blocks \<rparr>)
      (example_hash 1) = Ok (lastIrre, heads) \<and>
    set (map bn_hash heads) = {example_hash 2, example_hash 3}"
proof -
  let ?C = "block_codec (map snd example_blocks)"
  let ?db = "empty_tables \<lparr> tb_blocks := map (row_of_block ?C) example_blocks \<rparr>"
  have tree: "block_tree ?C example_blocks"
    by (simp add: block_tree_def block_codec_def example_blocks_def encodes_def)
  have "tb_blocks ?db = map (row_of_block ?C) example_blocks" "example_hash 1 \<in> (block_BlockHash \<circ> snd) ` set example_blocks"
    by (simp_all add: example_blocks_def)
  from loadBlocks_rebuilds_tree [OF tree this] obtain l hs where
      "loadBlocks ?C ?db (example_hash 1) = Ok (l, hs)"
      "set (map bn_hash hs) = (block_BlockHash \<circ> snd) ` set example_blocks - (block_ParentHash \<circ> snd) ` set (tl example_blocks)"
    by blast
  moreover have "(block_BlockHash \<circ> snd) ` set example_blocks - (block_ParentHash \<circ> snd) ` set (tl example_blocks) =
      {example_hash 2, example_hash 3}"
    by (auto simp: example_blocks_def)
  ultimately have "loadBlocks ?C ?db (example_hash 1) = Ok (l, hs) \<and> set (map bn_hash hs) = {example_hash 2, example_hash 3}"
    by (simp only:)
  then show ?thesis by (intro exI)
qed

text \<open>
  writing a block a second time makes the database unreadable once it has a child:
  \<open>INSERT OR REPLACE\<close> moves the row behind the row of the child, and loading, in the
  order of the row ids, misses the parent. A second block at height zero, which a
  time before the end of the first period gives, has the same effect.
\<close>

theorem rewritten_block_breaks_loading:
  "\<exists>C a b g0 g1 db db'.
     run_procedures [addBlock C 0 g0, addBlock C 5 a, addBlock C 3 b, addBlock C 5 a] empty_tables = Ok db \<and>
     block_ParentHash a = block_BlockHash g0 \<and> block_ParentHash b = block_BlockHash a \<and>
     loadBlocks C db (block_BlockHash g0) = Err ErrParentNotFound \<and>
     run_procedures [addBlock C 0 g0, addBlock C 0 g1] empty_tables = Ok db' \<and>
     block_ParentHash g1 = block_BlockHash g0 \<and>
     loadBlocks C db' (block_BlockHash g0) = Err ErrMultipleGenesis"
proof -
  let ?g0 = "example_block (example_hash 1) zero_hash 0 []" and ?a = "example_block (example_hash 2) (example_hash 1) 50 []"
    and ?b = "example_block (example_hash 3) (example_hash 2) 30 []" and ?g1 = "example_block (example_hash 4) (example_hash 1) 2 []"
  let ?C = "block_codec [?g0, ?a, ?b, ?g1]"
  have dec: "decode_hash h' (hash_String h) = Ok h" if "is_hash h" "is_hash h'" for h h'
    using that by (simp add: decode_hash_def hash_Decode_String)
  let ?r = "\<lambda>ht x. row_of_block ?C (ht, x)"
  have "run_procedures [addBlock ?C 0 ?g0, addBlock ?C 5 ?a, addBlock ?C 3 ?b, addBlock ?C 5 ?a] empty_tables =
      Ok (empty_tables \<lparr> tb_blocks := [?r 0 ?g0, ?r 3 ?b, ?r 5 ?a] \<rparr>)"
    by (simp add: addBlock_def block_codec_def insert_or_replace_def empty_tables_def row_of_block_def hash_String_inj)
  moreover have "loadBlocks ?C (empty_tables \<lparr> tb_blocks := [?r 0 ?g0, ?r 3 ?b, ?r 5 ?a] \<rparr>) (block_BlockHash ?g0) = Err ErrParentNotFound"
    by (simp add: loadBlocks_def row_of_block_def dec block_codec_def)
  moreover have "run_procedures [addBlock ?C 0 ?g0, addBlock ?C 0 ?g1] empty_tables =
      Ok (empty_tables \<lparr> tb_blocks := [?r 0 ?g0, ?r 0 ?g1] \<rparr>)"
    by (simp add: addBlock_def block_codec_def insert_or_replace_def empty_tables_def row_of_block_def hash_String_inj)
  moreover have "loadBlocks ?C (empty_tables \<lparr> tb_blocks := [?r 0 ?g0, ?r 0 ?g1] \<rparr>) (block_BlockHash ?g0) = Err ErrMultipleGenesis"
    by (simp add: loadBlocks_def row_of_block_def dec block_codec_def)
  moreover have "block_ParentHash ?a = block_BlockHash ?g0" "block_ParentHash ?b = block_BlockHash ?a" "block_ParentHash ?g1 = block_BlockHash ?g0"
    by simp_all
  ultimately show ?thesis by blast
qed

text \<open>
  a permission update without a permission stops the node. The update is accepted
  and leaves a user whose permission is nil; writing that database then dereferences it.
\<close>

theorem nil_permission_stops_storing:
  "\<exists>E tx i s s' C. uh_Permission tx = None \<and> updatePermission E tx i s = (s', Ok ()) \<and>
     (\<exists>db'. run_procedures (compileChanges C s []) empty_tables = Ok db') \<and>
     run_procedures (compileChanges C s' []) empty_tables = Panic"
proof -
  let ?tx = "\<lparr> uh_TargetSQLChain = zero_hash, uh_TargetUser = [9], uh_Permission = None, uh_Nonce = 0 \<rparr>"
  let ?s = "example_db_state [example_admin [1]] [] []"
  let ?C = "(block_codec []) \<lparr> enc_account := (\<lambda>_. Some []), enc_profile := (\<lambda>_. Some []), enc_provider := (\<lambda>_. Some []) \<rparr>"
  define db' where "db' = (example_db [example_admin [1]] []) \<lparr> sc_Users := [example_admin [1], new_user [9] None] \<rparr>"
  have load: "loadSQLChainObject ?s (address_DatabaseID zero_hash) = Some (example_db [example_admin [1]] [])"
    by (simp add: example_db_state_def)
  have upd: "updatePermission example_env ?tx (example_hsv [1]) ?s = (put_database (address_DatabaseID zero_hash) (Some db') ?s, Ok ())"
    using load by (simp add: updatePermission_def op_bind_def op_sender_def Let_def db'_def set_permission_def
        example_db_def example_admin_def new_user_def PubKeyHash_def example_env_def example_hsv_def HasSuperPermission_def
        UserPermissionFromRole_def Admin_def Super_def Read_def Write_def)
  moreover have "\<exists>d. run_procedures (compileChanges ?C ?s []) empty_tables = Ok d"
    by (simp add: compileChanges_def example_db_state_def example_db_def example_admin_def put_defs example_defs
        updateShardChain_def updateAccount_def new_user_def Let_def)
  moreover have "run_procedures (compileChanges ?C (put_database (address_DatabaseID zero_hash) (Some db') ?s) []) empty_tables = Panic"
    by (simp add: compileChanges_def example_db_state_def example_db_def example_admin_def put_defs example_defs
        updateShardChain_def updateAccount_def new_user_def db'_def Let_def)
  moreover have "uh_Permission ?tx = None" by simp
  ultimately show ?thesis by blast
qed

end
