(* ===== verification/BP_Chain.thy ===== *)
theory BP_Chain
  imports Branch BP_Storage Float64
begin

text \<open>
  The chain of a block producer, \<open>blockproducer/chain.go\<close>, \<open>chain_io.go\<close> and
  \<open>bpinfo.go\<close>: the branches above the last irreversible block, the transaction pool, the
  storage, and the turns of the producers. Every operation runs under the lock of the
  chain, so it is a function on the chain. The least recently used cache that only
  drops the cached blocks of irreversible nodes is left out: a node keeps its block.
\<close>

section \<open>Block producers\<close>

record blockProducerInfo =
  bi_rank :: u32
  bi_total :: u32
  bi_role :: string
  bi_nodeID :: NodeID

definition bpInfo_at :: "PeersHeader \<Rightarrow> nat \<Rightarrow> blockProducerInfo" where
  "bpInfo_at peers i =
     (let v = ph_Servers peers ! i in
      \<lparr> bi_rank = of_nat i, bi_total = of_nat (length (ph_Servers peers)),
        bi_role = (if v = ph_Leader peers then ''L'' else ''F''), bi_nodeID = v \<rparr>)"

definition buildBlockProducerInfos ::
    "NodeID \<Rightarrow> PeersHeader \<Rightarrow> bool \<Rightarrow> (bp_error, blockProducerInfo \<times> blockProducerInfo list) res" where
  "buildBlockProducerInfos localNodeID peers isAPINode =
     (let total = length (ph_Servers peers);
          bpInfos = map (bpInfo_at peers) [0..<total]
      in if isAPINode
         then Ok (\<lparr> bi_rank = 0, bi_total = of_nat total, bi_role = ''A'', bi_nodeID = localNodeID \<rparr>, bpInfos)
         else case peers_Find peers localNodeID of
           None \<Rightarrow> Err ErrLocalNodeNotFound
         | Some index \<Rightarrow> Ok (bpInfos ! index, bpInfos))"

section \<open>The chain\<close>

type_synonym RunMode = int

definition BPMode :: RunMode where "BPMode = 0"
definition APINodeMode :: RunMode where "APINodeMode = 1"

text \<open>
  \<open>headBranch\<close> points to the element of \<open>branches\<close> at \<open>headIndex\<close>, so it is read from there.
\<close>

record Chain =
  ch_storage :: tables
  ch_address :: AccountAddress
  ch_mode :: RunMode
  ch_genesisTime :: Time
  ch_period :: int
  ch_tick :: int
  ch_bpInfos :: "blockProducerInfo list"
  ch_localBPInfo :: blockProducerInfo
  ch_localNodeID :: NodeID
  ch_confirms :: u32
  ch_nextHeight :: u32
  ch_offset :: int
  ch_lastIrre :: blockNode
  ch_immutable :: metaState
  ch_headIndex :: nat
  ch_branches :: "branch list"
  ch_txPool :: "(hash, Transaction) gomap"

definition headBranch :: "Chain \<Rightarrow> branch" where
  "headBranch c = ch_branches c ! ch_headIndex c"

definition chain_head :: "Chain \<Rightarrow> blockNode" where
  "chain_head c = br_head (headBranch c)"

text \<open>What the chain uses of the rest of the program: codecs, hashes and signatures.\<close>

record chain_env =
  ce_bp :: bp_env
  ce_codec :: codec
  ce_sign :: "bytes \<Rightarrow> bytes \<Rightarrow> Signature option \<times> bool"
  ce_pub :: "bytes \<Rightarrow> PublicKey"

abbreviation ce_tx :: "chain_env \<Rightarrow> tx_env" where
  "ce_tx K \<equiv> be_tx (ce_bp K)"

text \<open>
  The division truncates towards zero and the conversion keeps the low 32 bits. The period
  is not zero.
\<close>

definition heightOfTime :: "Chain \<Rightarrow> Time \<Rightarrow> u32" where
  "heightOfTime c t = of_int (time_Sub t (ch_genesisTime c) sdiv ch_period c)"

text \<open>\<open>store\<close> on the storage of the chain: the callback changes the chain.\<close>

definition chain_store ::
    "db_fault \<Rightarrow> storageProcedure list \<Rightarrow> (Chain \<Rightarrow> Chain) \<Rightarrow> Chain \<Rightarrow> Chain \<times> (bp_error, unit) res" where
  "chain_store fault sps cb c =
     (case store fault sps cb (ch_storage c) c of (db, c, r) \<Rightarrow> (c \<lparr> ch_storage := db \<rparr>, r))"

section \<open>Transactions\<close>

definition storeTx :: "chain_env \<Rightarrow> db_fault \<Rightarrow> Transaction \<Rightarrow> Chain \<Rightarrow> Chain \<times> (bp_error, unit) res" where
  "storeTx K fault tx c =
     (let k = tx_Hash tx in
      if mget (ch_txPool c) k \<noteq> None then (c, Err ErrExistedTx)
      else chain_store fault [storage_addTx (ce_codec K) tx]
        (\<lambda>c. c \<lparr> ch_txPool := mput k tx (ch_txPool c),
                  ch_branches := map (branch_addTx tx) (ch_branches c) \<rparr>) c)"

definition immutableNextNonce :: "Chain \<Rightarrow> AccountAddress \<Rightarrow> (bp_error, AccountNonce) res" where
  "immutableNextNonce c addr = nextNonce (ch_immutable c) addr"

definition MaxPendingTxsPerAccount :: AccountNonce where "MaxPendingTxsPerAccount = 1000"
definition MaxTxBroadcastTTL :: u32 where "MaxTxBroadcastTTL = 1"

text \<open>
  \<open>processAddTxReq\<close>: the chain, what is broadcast to the other producers, and \<open>Ok\<close> when
  the transaction went into the pool. The function itself only logs the errors.
\<close>

definition processAddTxReq ::
    "chain_env \<Rightarrow> db_fault \<Rightarrow> (u32 \<times> Transaction option) option \<Rightarrow> Chain \<Rightarrow>
     Chain \<times> (u32 \<times> Transaction) option \<times> (bp_error, bool) res" where
  "processAddTxReq K fault addTxReq c =
     (case addTxReq of
        None \<Rightarrow> (c, None, Ok False)
      | Some (_, None) \<Rightarrow> (c, None, Ok False)
      | Some (ttl, Some tx) \<Rightarrow>
          if mget (ch_txPool c) (tx_Hash tx) \<noteq> None then (c, None, Ok False)
          else case tx_Verify (ce_tx K) tx of
            Err e \<Rightarrow> (c, None, Err (ErrVerify e))
          | Panic \<Rightarrow> (c, None, Panic)
          | Ok _ \<Rightarrow>
              (case immutableNextNonce c (GetAccountAddress (ce_tx K) tx) of
                 Err e \<Rightarrow> (c, None, Err e)
               | Panic \<Rightarrow> (c, None, Panic)
               | Ok base \<Rightarrow>
                   let nonce = GetAccountNonce tx in
                   if nonce < base \<or> nonce \<ge> base + MaxPendingTxsPerAccount
                   then (c, None, Err ErrInvalidAccountNonce)
                   else
                     let ttl = (if ttl > MaxTxBroadcastTTL then MaxTxBroadcastTTL else ttl);
                         sent = (if ttl > 0 then Some (ttl - 1, tx) else None)
                     in case storeTx K fault tx c of
                          (c, Ok _) \<Rightarrow> (c, sent, Ok True)
                        | (c, Err e) \<Rightarrow> (c, sent, Err e)
                        | (c, Panic) \<Rightarrow> (c, sent, Panic)))"

section \<open>Growing and switching branches\<close>

text \<open>
  Applying the new irreversible blocks to the immutable state and dropping their
  transactions from the pool; a transaction that fails there ends the process.
\<close>

fun confirm_txs ::
    "tx_env \<Rightarrow> u32 \<Rightarrow> Transaction list \<Rightarrow> metaState \<times> (hash, Transaction) gomap \<Rightarrow>
     (bp_error, metaState \<times> (hash, Transaction) gomap) res" where
  "confirm_txs E h [] sp = Ok sp"
| "confirm_txs E h (tx # txs) (s, pool) =
     (case meta_apply E tx h s of
        (s, Ok _) \<Rightarrow> confirm_txs E h txs (s, mdel (tx_Hash tx) pool)
      | (_, Err _) \<Rightarrow> Panic
      | (_, Panic) \<Rightarrow> Panic)"

fun confirm_blocks ::
    "tx_env \<Rightarrow> blockNode list \<Rightarrow> metaState \<times> (hash, Transaction) gomap \<Rightarrow>
     (bp_error, metaState \<times> (hash, Transaction) gomap) res" where
  "confirm_blocks E [] sp = Ok sp"
| "confirm_blocks E (b # bs) sp =
     (case bn_block b of
        None \<Rightarrow> Panic
      | Some block \<Rightarrow>
          (case confirm_txs E (bn_height b) (bl_Transactions block) sp of
             Ok sp \<Rightarrow> confirm_blocks E bs sp | Err e \<Rightarrow> Err e | Panic \<Rightarrow> Panic))"

text \<open>The transactions of the pool whose nonce the immutable state has passed.\<close>

fun expire_pool ::
    "tx_env \<Rightarrow> metaState \<Rightarrow> (hash, Transaction) gomap \<Rightarrow>
     (bp_error, Transaction list \<times> (hash, Transaction) gomap) res" where
  "expire_pool E s [] = Ok ([], [])"
| "expire_pool E s ((k, v) # kvs) =
     (case nextNonce s (GetAccountAddress E v) of
        Panic \<Rightarrow> Panic
      | base \<Rightarrow>
          (case expire_pool E s kvs of
             Ok (expired, pool) \<Rightarrow>
               if (case base of Ok n \<Rightarrow> GetAccountNonce v < n | _ \<Rightarrow> True)
               then Ok (v # expired, pool) else Ok (expired, (k, v) # pool)
           | Err e \<Rightarrow> Err e
           | Panic \<Rightarrow> Panic))"

definition block_txs :: "blockNode \<Rightarrow> Transaction list" where
  "block_txs n = (case bn_block n of Some b \<Rightarrow> bl_Transactions b | None \<Rightarrow> [])"

text \<open>The loop that prunes the branches: the new slice and the index of the new branch.\<close>

fun prune_branches ::
    "nat \<Rightarrow> branch \<Rightarrow> blockNode \<Rightarrow> nat \<Rightarrow> branch list \<Rightarrow> branch list \<Rightarrow> nat \<Rightarrow> branch list \<times> nat" where
  "prune_branches originBrIdx newBr lastIrre i [] brs idx = (brs, idx)"
| "prune_branches originBrIdx newBr lastIrre i (b # bs) brs idx =
     (if i = originBrIdx
      then prune_branches originBrIdx newBr lastIrre (Suc i) bs
             (brs @ [newBr \<lparr> br_preview := metaState_commit (br_preview newBr) \<rparr>]) (length brs)
      else if hasAncestor (br_head b) lastIrre
      then prune_branches originBrIdx newBr lastIrre (Suc i) bs (brs @ [b]) idx
      else prune_branches originBrIdx newBr lastIrre (Suc i) bs brs idx)"

definition switch_callback ::
    "nat \<Rightarrow> branch \<Rightarrow> blockNode \<Rightarrow> blockNode list \<Rightarrow> Transaction list \<Rightarrow> (hash, Transaction) gomap \<Rightarrow>
     Chain \<Rightarrow> Chain" where
  "switch_callback originBrIdx newBr lastIrre newIrres expiredTxs resultTxPool c =
     (case prune_branches originBrIdx newBr lastIrre 0 (ch_branches c) [] 0 of (brs, idx) \<Rightarrow>
        c \<lparr> ch_lastIrre := lastIrre,
            ch_immutable := metaState_commit (ch_immutable c),
            ch_headIndex := idx,
            ch_branches := map (clearUnpackedTxs expiredTxs)
              (fold (\<lambda>b. map (clearPackedTxs (block_txs b))) newIrres brs),
            ch_txPool := resultTxPool \<rparr>)"

definition replaceAndSwitchToBranch ::
    "chain_env \<Rightarrow> db_fault \<Rightarrow> BPBlock \<Rightarrow> nat \<Rightarrow> branch \<Rightarrow> Chain \<Rightarrow> Chain \<times> (bp_error, unit) res" where
  "replaceAndSwitchToBranch K fault newBlock originBrIdx newBr c =
     (let height = heightOfTime c (block_Timestamp newBlock); E = ce_tx K; C = ce_codec K in
      case lastIrreversible (br_head newBr) (ch_confirms c) of
        Err e \<Rightarrow> (c, Err e)
      | Panic \<Rightarrow> (c, Panic)
      | Ok lastIrre \<Rightarrow>
          (case fetchNodeList lastIrre (bn_count (ch_lastIrre c) + 1) of
             Err e \<Rightarrow> (c, Err e)
           | Panic \<Rightarrow> (c, Panic)
           | Ok newIrres \<Rightarrow>
               (case confirm_blocks E newIrres (ch_immutable c, ch_txPool c) of
                  Err e \<Rightarrow> (c, Err e)
                | Panic \<Rightarrow> (c, Panic)
                | Ok (immutable, pool) \<Rightarrow>
                    (case expire_pool E immutable pool of
                       Err e \<Rightarrow> (c, Err e)
                     | Panic \<Rightarrow> (c, Panic)
                     | Ok (expiredTxs, resultTxPool) \<Rightarrow>
                         let sps = compileChanges C immutable [] @
                               [addBlock C height newBlock, buildBlockIndex E C height newBlock] @
                               map (\<lambda>n. deleteTxs (block_txs n)) newIrres @
                               (if expiredTxs \<noteq> [] then [deleteTxs expiredTxs] else []) @
                               [updateIrreversible (bn_hash lastIrre)]
                         in case chain_store fault sps
                                   (switch_callback originBrIdx newBr lastIrre newIrres expiredTxs resultTxPool)
                                   (c \<lparr> ch_immutable := immutable \<rparr>) of
                              (c, Err e) \<Rightarrow> (c \<lparr> ch_immutable := metaState_clean (ch_immutable c) \<rparr>, Err e)
                            | r \<Rightarrow> r))))"

text \<open>
  \<open>applyBlock\<close>: grow the first branch whose head is the parent, ignore a block that a
  branch already has at its height, or fork a branch below its head. The branch that is
  grown keeps what the attempt wrote into its read-only index.
\<close>

fun index_of_head :: "hash \<Rightarrow> nat \<Rightarrow> branch list \<Rightarrow> nat option" where
  "index_of_head parent i [] = None"
| "index_of_head parent i (v # vs) =
     (if bn_hash (br_head v) = parent then Some i else index_of_head parent (Suc i) vs)"

fun fork_point :: "hash \<Rightarrow> u32 \<Rightarrow> branch list \<Rightarrow> blockNode option" where
  "fork_point parent minCount [] = None"
| "fork_point parent minCount (v # vs) =
     (case hasAncestorWithMinCount (br_head v) parent minCount of
        Some n \<Rightarrow> Some n | None \<Rightarrow> fork_point parent minCount vs)"

definition grow_branch ::
    "chain_env \<Rightarrow> db_fault \<Rightarrow> u32 \<Rightarrow> BPBlock \<Rightarrow> nat \<Rightarrow> Chain \<Rightarrow> Chain \<times> (bp_error, unit) res" where
  "grow_branch K fault height bl i c =
     (let v = ch_branches c ! i; head = newBlockNode height bl (Some (br_head v)) in
      case branch_applyBlock (ce_tx K) head v of (v, r) \<Rightarrow>
        (let c = c \<lparr> ch_branches := (ch_branches c)[i := v] \<rparr> in
         case r of
           Err e \<Rightarrow> (c, Err e)
         | Panic \<Rightarrow> (c, Panic)
         | Ok br \<Rightarrow>
             if bn_count (br_head br) \<le> bn_count (chain_head c)
             then chain_store fault [addBlock (ce_codec K) height bl]
                    (\<lambda>c. c \<lparr> ch_branches := (ch_branches c)
                       [i := br \<lparr> br_preview := metaState_commit (br_preview br) \<rparr>] \<rparr>) c
             else replaceAndSwitchToBranch K fault bl i br c))"

definition fork_branch ::
    "chain_env \<Rightarrow> db_fault \<Rightarrow> u32 \<Rightarrow> BPBlock \<Rightarrow> blockNode \<Rightarrow> Chain \<Rightarrow> Chain \<times> (bp_error, unit) res" where
  "fork_branch K fault height bl parent c =
     (case newBranch (ce_tx K) (ch_lastIrre c) (newBlockNode height bl (Some parent)) (ch_immutable c) (ch_txPool c) of
        Err e \<Rightarrow> (c, Err e)
      | Panic \<Rightarrow> (c, Panic)
      | Ok br \<Rightarrow>
          chain_store fault [addBlock (ce_codec K) height bl]
            (\<lambda>c. c \<lparr> ch_branches := ch_branches c @ [br] \<rparr>) c)"

definition chain_applyBlock ::
    "chain_env \<Rightarrow> db_fault \<Rightarrow> BPBlock \<Rightarrow> Chain \<Rightarrow> Chain \<times> (bp_error, unit) res" where
  "chain_applyBlock K fault bl c =
     (let height = heightOfTime c (block_Timestamp bl) in
      case index_of_head (block_ParentHash bl) 0 (ch_branches c) of
        Some i \<Rightarrow> grow_branch K fault height bl i c
      | None \<Rightarrow>
          if list_ex (\<lambda>v. case ancestor (br_head v) height of
               Some n \<Rightarrow> bn_hash n = block_BlockHash bl | None \<Rightarrow> False) (ch_branches c)
          then (c, Ok ())
          else
            (case fork_point (block_ParentHash bl) (bn_count (ch_lastIrre c)) (ch_branches c) of
               Some parent \<Rightarrow> fork_branch K fault height bl parent c
             | None \<Rightarrow> (c, Err ErrParentNotFound)))"

definition pushBlock :: "chain_env \<Rightarrow> db_fault \<Rightarrow> BPBlock \<Rightarrow> Chain \<Rightarrow> Chain \<times> (bp_error, unit) res" where
  "pushBlock K fault b c =
     (case block_Verify (ce_bp K) b of
        Err e \<Rightarrow> (c, Err e) | Panic \<Rightarrow> (c, Panic) | Ok _ \<Rightarrow> chain_applyBlock K fault b c)"

section \<open>Producing\<close>

definition produceAndStoreBlock ::
    "chain_env \<Rightarrow> db_fault \<Rightarrow> Time \<Rightarrow> bytes \<Rightarrow> Chain \<Rightarrow> Chain \<times> (bp_error, BPBlock) res" where
  "produceAndStoreBlock K fault now priv c =
     (case produceBlock (ce_bp K) (ce_sign K) (ce_pub K) (heightOfTime c now) now (ch_address c) priv (headBranch c) of
        (v, r) \<Rightarrow>
          (let c = c \<lparr> ch_branches := (ch_branches c)[ch_headIndex c := v] \<rparr> in
           case r of
             Err e \<Rightarrow> (c, Err e)
           | Panic \<Rightarrow> (c, Panic)
           | Ok (br, bl) \<Rightarrow>
               (case replaceAndSwitchToBranch K fault bl (ch_headIndex c) br c of
                  (c, Ok _) \<Rightarrow> (c, Ok bl) | (c, Err e) \<Rightarrow> (c, Err e) | (c, Panic) \<Rightarrow> (c, Panic))))"

text \<open>\<open>Chain.produceBlock\<close>: without a local key there is an error; a block goes to the peers.\<close>

definition chain_produceBlock ::
    "chain_env \<Rightarrow> db_fault \<Rightarrow> bytes option \<Rightarrow> Time \<Rightarrow> Chain \<Rightarrow> Chain \<times> (bp_error, BPBlock) res" where
  "chain_produceBlock K fault priv now c =
     (case priv of None \<Rightarrow> (c, Err ErrPubKey) | Some priv \<Rightarrow> produceAndStoreBlock K fault now priv c)"

definition isMyTurn :: "Chain \<Rightarrow> (bp_error, bool) res" where
  "isMyTurn c =
     (if bi_total (ch_localBPInfo c) = 0 then Panic
      else Ok (ch_nextHeight c mod bi_total (ch_localBPInfo c) = bi_rank (ch_localBPInfo c)))"

definition increaseNextHeight :: "Chain \<Rightarrow> Chain" where
  "increaseNextHeight c = c \<lparr> ch_nextHeight := ch_nextHeight c + 1 \<rparr>"

text \<open>The chain after the advance, and the block that is broadcast.\<close>

definition advanceNextHeight ::
    "chain_env \<Rightarrow> db_fault \<Rightarrow> bytes option \<Rightarrow> Time \<Rightarrow> int \<Rightarrow> Chain \<Rightarrow> Chain \<times> (bp_error, BPBlock option) res" where
  "advanceNextHeight K fault priv now d c =
     (let elapsed = - d in
      if ch_mode c = APINodeMode then (increaseNextHeight c, Ok None)
      else case isMyTurn c of
        Panic \<Rightarrow> (increaseNextHeight c, Panic)
      | Err e \<Rightarrow> (increaseNextHeight c, Err e)
      | Ok False \<Rightarrow> (increaseNextHeight c, Ok None)
      | Ok True \<Rightarrow>
          if elapsed + ch_tick c > ch_period c then (increaseNextHeight c, Ok None)
          else case chain_produceBlock K fault priv now c of
            (c, Ok b) \<Rightarrow> (increaseNextHeight c, Ok (Some b))
          | (c, Err _) \<Rightarrow> (increaseNextHeight c, Ok None)
          | (c, Panic) \<Rightarrow> (increaseNextHeight c, Panic))"

definition nextTick :: "Time \<Rightarrow> Chain \<Rightarrow> Time \<times> int" where
  "nextTick now c =
     (let t = now + ch_offset c;
          d = time_Sub (ch_genesisTime c + int (unat (ch_nextHeight c)) * ch_period c) t
      in (t, if d > ch_tick c then ch_tick c else d))"

text \<open>
  One turn of \<open>mainCycle\<close> after the head was synchronised: advance when the time of the
  next height has come.
\<close>

definition mainCycle_turn ::
    "chain_env \<Rightarrow> db_fault \<Rightarrow> bytes option \<Rightarrow> Time \<Rightarrow> Chain \<Rightarrow> Chain \<times> (bp_error, BPBlock option) res" where
  "mainCycle_turn K fault priv now c =
     (case nextTick now c of (t, d) \<Rightarrow>
        if d \<le> 0 then advanceNextHeight K fault priv t d c else (c, Ok None))"

section \<open>Synchronising\<close>

text \<open>\<open>unreachable\<close> is the number of peers that \<open>blockingFetchBlock\<close> did not reach.\<close>

definition syncCurrentHead :: "u32 \<Rightarrow> u32 \<Rightarrow> Chain \<Rightarrow> (bp_error, bool) res" where
  "syncCurrentHead unreachable requiredReachable c =
     (let currentHeight = ch_nextHeight c - 1; serversNum = bi_total (ch_localBPInfo c) in
      if bn_height (chain_head c) \<ge> currentHeight then Ok True
      else if ch_mode c = BPMode then Ok (unreachable + requiredReachable \<le> serversNum)
      else if ch_mode c = APINodeMode then Ok (unreachable < serversNum)
      else Panic)"

text \<open>The inner loop of \<open>syncHeads\<close>, which never ends when the height is the largest \<open>uint32\<close>.\<close>

partial_function (option) sync_holes :: "u32 \<Rightarrow> Chain \<Rightarrow> Chain option" where
  "sync_holes nowHeight c =
     (if ch_nextHeight c \<le> nowHeight then sync_holes nowHeight (increaseNextHeight c) else Some c)"

text \<open>
  \<open>syncHeads\<close>: each round reads the clock twice; the readings are the list. This is the loop with
  \<open>StartupSyncHoles\<close> off; with it on, every height is advanced only after the peers were asked
  for the block of the last one, which reaches the chain by \<open>pushBlock\<close>.
\<close>

fun syncHeads :: "Time list \<Rightarrow> Chain \<Rightarrow> Chain option" where
  "syncHeads (t # t' # ts) c =
     (if t < ch_genesisTime c then Some c
      else let nowHeight = heightOfTime c t' in
        if ch_nextHeight c > nowHeight then Some c
        else case sync_holes nowHeight c of None \<Rightarrow> None | Some c \<Rightarrow> syncHeads ts c)"
| "syncHeads _ c = None"

definition getRemoteBPInfos :: "Chain \<Rightarrow> blockProducerInfo list" where
  "getRemoteBPInfos c = filter (\<lambda>info. bi_nodeID info \<noteq> bi_nodeID (ch_localBPInfo c)) (ch_bpInfos c)"

section \<open>Starting\<close>

record Config =
  cf_Mode :: RunMode
  cf_Genesis :: "BPBlock option"
  cf_Peers :: PeersHeader
  cf_NodeID :: NodeID
  cf_ConfirmThreshold :: rat
  cf_Period :: int
  cf_Tick :: int

text \<open>The blocks above the last irreversible one are read into the nodes of a head.\<close>

fun load_path :: "codec \<Rightarrow> tables \<Rightarrow> u32 \<Rightarrow> blockNode \<Rightarrow> (bp_error, blockNode) res" where
  "load_path C db from (BlockNode p c h hs t b) =
     (if c < from then Ok (BlockNode p c h hs t b)
      else
        (case (case p of None \<Rightarrow> Ok None
                | Some p \<Rightarrow> (case load_path C db from p of Ok p \<Rightarrow> Ok (Some p) | Err e \<Rightarrow> Err e | Panic \<Rightarrow> Panic)) of
           Err e \<Rightarrow> Err e
         | Panic \<Rightarrow> Panic
         | Ok p \<Rightarrow>
             (case b of
                Some _ \<Rightarrow> Ok (BlockNode p c h hs t b)
              | None \<Rightarrow>
                  (case storage_loadBlock C db hs of
                     Ok block \<Rightarrow> Ok (BlockNode p c h hs t (Some block)) | Err e \<Rightarrow> Err e | Panic \<Rightarrow> Panic))))"

fun rebuild_branches ::
    "chain_env \<Rightarrow> tables \<Rightarrow> blockNode \<Rightarrow> metaState \<Rightarrow> (hash, Transaction) gomap \<Rightarrow> blockNode list \<Rightarrow>
     (bp_error, branch list) res" where
  "rebuild_branches K db lastIrre immutable txPool [] = Ok []"
| "rebuild_branches K db lastIrre immutable txPool (v # vs) =
     (if hasAncestor v lastIrre then
        res_bind (load_path (ce_codec K) db (bn_count lastIrre + 1) v) (\<lambda>v.
        res_bind (newBranch (ce_tx K) lastIrre v immutable txPool) (\<lambda>br.
        res_bind (rebuild_branches K db lastIrre immutable txPool vs) (\<lambda>brs. Ok (br # brs))))
      else rebuild_branches K db lastIrre immutable txPool vs)"

text \<open>The first branch with the largest count.\<close>

fun select_head :: "nat \<Rightarrow> branch list \<Rightarrow> (nat \<times> branch) option \<Rightarrow> (nat \<times> branch) option" where
  "select_head i [] best = best"
| "select_head i (v # vs) best =
     select_head (Suc i) vs
       (case best of
          None \<Rightarrow> Some (i, v)
        | Some (j, b) \<Rightarrow> if bn_count (br_head v) > bn_count (br_head b) then Some (i, v) else Some (j, b))"

definition DefaultConfirmThreshold :: rat where
  "DefaultConfirmThreshold = f64_div 2 3"

definition needConfirms :: "rat \<Rightarrow> u32 \<Rightarrow> u32" where
  "needConfirms threshold l =
     (let threshold = (if threshold \<le> 0 then DefaultConfirmThreshold else threshold);
          n = of_int \<lceil>f64_round (f64_mul (of_nat (unat l)) threshold + 1)\<rceil>
      in if n > l then l else n)"

text \<open>
  \<open>NewChainWithContext\<close>. \<open>opened\<close> is what \<open>openStorage\<close> returned, \<open>existed\<close> whether the file
  was there, and \<open>localAddr\<close> the address of the local key. Without a storage and
  without an error the next call on it is a nil dereference.
\<close>

definition initStorage ::
    "chain_env \<Rightarrow> db_fault \<Rightarrow> BPBlock \<Rightarrow> tables \<Rightarrow> (bp_error, tables) res" where
  "initStorage K fault genesis db =
     (case apply_all (ce_tx K) 0 (bl_Transactions genesis) newMetaState of
        (_, Err e) \<Rightarrow> Err e
      | (_, Panic) \<Rightarrow> Panic
      | (init, Ok _) \<Rightarrow>
          (case store fault
                  (compileChanges (ce_codec K) init [] @
                   [addBlock (ce_codec K) 0 genesis,
                    updateIrreversible (hv_DataHash (bs_HSV (bl_SignedHeader genesis)))])
                  id db () of
             (db, _, Ok _) \<Rightarrow> Ok db | (_, _, Err e) \<Rightarrow> Err e | (_, _, Panic) \<Rightarrow> Panic))"

definition NewChain ::
    "chain_env \<Rightarrow> db_fault \<Rightarrow> Config \<Rightarrow> tables option \<times> bp_error option \<Rightarrow> bool \<Rightarrow>
     (bp_error, AccountAddress) res \<Rightarrow> (bp_error, Chain) res" where
  "NewChain K fault cfg opened existed localAddr =
     (case cf_Genesis cfg of
        None \<Rightarrow> Err ErrNilGenesis
      | Some genesis \<Rightarrow>
          res_bind (block_VerifyHash (ce_bp K) genesis) (\<lambda>_.
          case opened of
            (_, Some e) \<Rightarrow> Err e
          | (None, None) \<Rightarrow> Panic
          | (Some db, None) \<Rightarrow>
              res_bind (if existed then Ok db else initStorage K fault genesis db) (\<lambda>db.
              res_bind (loadDatabase (ce_codec K) db) (\<lambda>(lastIrre, heads, immutable, txPool).
              if (case ancestorByCount lastIrre 0 of
                    None \<Rightarrow> True | Some n \<Rightarrow> bn_hash n \<noteq> block_BlockHash genesis)
              then Err ErrGenesisHashNotMatch
              else
                res_bind (rebuild_branches K db lastIrre immutable txPool heads) (\<lambda>branches.
                case select_head 0 branches None of
                  None \<Rightarrow> Err ErrNoAvailableBranch
                | Some (headIndex, hb) \<Rightarrow>
                    res_bind localAddr (\<lambda>addr.
                    res_bind (buildBlockProducerInfos (cf_NodeID cfg) (cf_Peers cfg) (cf_Mode cfg = APINodeMode))
                      (\<lambda>(localBPInfo, bpInfos).
                    Ok \<lparr> ch_storage = db, ch_address = addr, ch_mode = cf_Mode cfg,
                         ch_genesisTime = block_Timestamp genesis, ch_period = cf_Period cfg, ch_tick = cf_Tick cfg,
                         ch_bpInfos = bpInfos, ch_localBPInfo = localBPInfo, ch_localNodeID = cf_NodeID cfg,
                         ch_confirms = needConfirms (cf_ConfirmThreshold cfg) (of_nat (length (ph_Servers (cf_Peers cfg)))),
                         ch_nextHeight = bn_height (br_head hb) + 1, ch_offset = 0,
                         ch_lastIrre = lastIrre, ch_immutable = immutable,
                         ch_headIndex = headIndex, ch_branches = branches, ch_txPool = txPool \<rparr>)))))))"

section \<open>Queries\<close>

text \<open>The block of a node: cached, or read from the storage.\<close>

definition node_block :: "chain_env \<Rightarrow> Chain \<Rightarrow> blockNode \<Rightarrow> (bp_error, BPBlock) res" where
  "node_block K c node =
     (case bn_block node of
        Some b \<Rightarrow> Ok b | None \<Rightarrow> storage_loadBlock (ce_codec K) (ch_storage c) (bn_hash node))"

definition fetchLastIrreversibleBlock :: "chain_env \<Rightarrow> Chain \<Rightarrow> (bp_error, BPBlock \<times> u32 \<times> u32) res" where
  "fetchLastIrreversibleBlock K c =
     (let node = ch_lastIrre c in
      res_bind (node_block K c node) (\<lambda>b. Ok (b, bn_count node, bn_height node)))"

definition fetchBlockByHeight :: "chain_env \<Rightarrow> Chain \<Rightarrow> u32 \<Rightarrow> (bp_error, (BPBlock \<times> u32) option) res" where
  "fetchBlockByHeight K c h =
     (case ancestor (chain_head c) h of
        None \<Rightarrow> Ok None
      | Some node \<Rightarrow> res_bind (node_block K c node) (\<lambda>b. Ok (Some (b, bn_count node))))"

definition fetchBlockByCount :: "chain_env \<Rightarrow> Chain \<Rightarrow> u32 \<Rightarrow> (bp_error, (BPBlock \<times> u32) option) res" where
  "fetchBlockByCount K c n =
     (case ancestorByCount (chain_head c) n of
        None \<Rightarrow> Ok None
      | Some node \<Rightarrow> res_bind (node_block K c node) (\<lambda>b. Ok (Some (b, bn_height node))))"

definition chain_nextNonce :: "Chain \<Rightarrow> AccountAddress \<Rightarrow> (bp_error, AccountNonce) res" where
  "chain_nextNonce c addr = nextNonce (br_preview (headBranch c)) addr"

definition chain_loadAccountTokenBalance :: "Chain \<Rightarrow> AccountAddress \<Rightarrow> TokenType \<Rightarrow> (bp_error, u64 \<times> bool) res" where
  "chain_loadAccountTokenBalance c addr tt = loadAccountTokenBalance (ch_immutable c) addr tt"

definition loadSQLChainProfile :: "Chain \<Rightarrow> DatabaseID \<Rightarrow> SQLChainProfile option" where
  "loadSQLChainProfile c databaseID = loadSQLChainObject (ch_immutable c) databaseID"

definition loadSQLChainProfiles :: "Chain \<Rightarrow> AccountAddress \<Rightarrow> SQLChainProfile list" where
  "loadSQLChainProfiles c addr = loadROSQLChains (ch_immutable c) addr"

definition chain_queryTxState :: "Chain \<Rightarrow> hash \<Rightarrow> TransactionState" where
  "chain_queryTxState c h =
     (case branch_queryTxState (headBranch c) h of
        Some state \<Rightarrow> state
      | None \<Rightarrow>
          if length (filter (\<lambda>r. it_hash r = hash_String h) (tb_indexed_transactions (ch_storage c))) > 0
          then TransactionStateConfirmed else TransactionStateNotFound)"

definition queryAccountSQLChainProfiles :: "Chain \<Rightarrow> AccountAddress \<Rightarrow> SQLChainProfile list" where
  "queryAccountSQLChainProfiles c account =
     List.map_filter (\<lambda>(_, _, d). loadSQLChainProfile c d)
       (filter (\<lambda>(acc, _, _). acc = hash_String account) (tb_indexed_shardChains (ch_storage c)))"

end
