(* ===== verification/Chain_Safety.thy ===== *)
theory Chain_Safety
  imports BP_Chain
begin

text \<open>
  What the chain keeps: the branches are well formed and above the last irreversible
  block, the head branch is a longest one, and the irreversible block only moves up.
  One lemma per operation, then the invariant of the reachable chains.
\<close>

section \<open>Well-formed chains\<close>

definition wf_head :: "blockNode \<Rightarrow> u32 \<Rightarrow> branch \<Rightarrow> bool" where
  "wf_head irre maxCount b \<longleftrightarrow>
     wf_branch b \<and> wf_node (br_head b) \<and> hasAncestor (br_head b) irre \<and> bn_count (br_head b) \<le> maxCount"

definition chain_ok :: "Chain \<Rightarrow> bool" where
  "chain_ok c \<longleftrightarrow>
     ch_headIndex c < length (ch_branches c) \<and>
     list_all (wf_head (ch_lastIrre c) (bn_count (chain_head c))) (ch_branches c) \<and>
     wf_meta (ch_immutable c) \<and> ms_dirty (ch_immutable c) = newDirtyIndex \<and> wf_pool (ch_txPool c)"

text \<open>
  The irreversible block is the genesis block or at least \<open>confirms\<close> blocks below the head.
\<close>

definition settled :: "Chain \<Rightarrow> bool" where
  "settled c \<longleftrightarrow> unat (bn_count (ch_lastIrre c)) \<le> unat (bn_count (chain_head c)) - unat (ch_confirms c)"

text \<open>The counts of the branches are far from the largest \<open>uint32\<close>.\<close>

definition room :: "Chain \<Rightarrow> bool" where
  "room c \<longleftrightarrow> unat (bn_count (chain_head c)) + 2 < 2 ^ 32"

lemma headBranch_mem: "chain_ok c \<Longrightarrow> headBranch c \<in> set (ch_branches c)"
  by (simp add: chain_ok_def headBranch_def)

lemma chain_ok_branch:
  assumes "chain_ok c" and "b \<in> set (ch_branches c)"
  shows "wf_branch b" "wf_node (br_head b)" "hasAncestor (br_head b) (ch_lastIrre c)"
    "bn_count (br_head b) \<le> bn_count (chain_head c)"
  using assms by (auto simp: chain_ok_def wf_head_def list_all_iff)

lemma chain_store_cases:
  assumes "chain_store fault sps cb c = (c', r)"
  obtains "c' = c" "r \<noteq> Ok ()"
    | db where "c' = (cb c) \<lparr> ch_storage := db \<rparr>" "r = Ok () \<or> r = Panic"
  using assms
  by (auto simp: chain_store_def store_def split: prod.splits db_fault.splits res.splits if_splits)

lemma chain_ok_storage [simp]:
  "chain_ok (c \<lparr> ch_storage := db \<rparr>) = chain_ok c" "settled (c \<lparr> ch_storage := db \<rparr>) = settled c"
  "chain_head (c \<lparr> ch_storage := db \<rparr>) = chain_head c" "headBranch (c \<lparr> ch_storage := db \<rparr>) = headBranch c"
  by (simp_all add: chain_ok_def settled_def chain_head_def headBranch_def)

text \<open>The nodes below a node.\<close>

lemma ancestorByCount_ancestor:
  assumes "wf_node n" and "a \<in> set (ancestors n)"
  shows "wf_node a \<and> unat (bn_count a) \<le> unat (bn_count n) \<and>
    ancestors a = drop (unat (bn_count n) - unat (bn_count a)) (ancestors n)"
  using assms
proof (induction n rule: ancestors.induct)
  case (1 p c h hs t b)
  show ?case
  proof (cases "a = BlockNode p c h hs t b")
    case False
    then obtain q where q: "p = Some q" "a \<in> set (ancestors q)"
      using "1.prems"(2) by (auto split: option.splits)
    have c: "wf_node q" "unat c = Suc (unat (bn_count q))" using "1.prems"(1) q by auto
    from "1.IH" [OF q(1) c(1) q(2)] c show ?thesis
      by (auto simp: q Suc_diff_le)
  qed (use "1.prems" in auto)
qed

lemma hasAncestor_below:
  assumes "wf_node n" and "a \<in> set (ancestors n)" and "hasAncestor n irre" and "bn_count irre \<le> bn_count a"
  shows "hasAncestor a irre"
proof -
  have a: "wf_node a" "unat (bn_count a) \<le> unat (bn_count n)"
      "ancestors a = drop (unat (bn_count n) - unat (bn_count a)) (ancestors n)"
    using ancestorByCount_ancestor [OF assms(1,2)] by auto
  have len: "length (ancestors n) = Suc (unat (bn_count n))" using assms(1) by (rule length_ancestors)
  have "unat (bn_count irre) \<le> unat (bn_count a)" using assms(4) by (simp add: word_le_nat_alt)
  then have "rev (ancestors a) ! unat (bn_count irre) = rev (ancestors n) ! unat (bn_count irre)"
    using a(2) len by (simp add: a(3) rev_nth length_ancestors [OF a(1)])
  then show ?thesis
    using assms(3) a(2) \<open>unat (bn_count irre) \<le> unat (bn_count a)\<close>
    by (simp add: hasAncestor_def ancestorByCount_nth [OF assms(1)] ancestorByCount_nth [OF a(1)] split: if_splits)
qed

lemma hasAncestor_child:
  assumes "wf_node n" and "unat (bn_count n) + 1 < 2 ^ 32" and "hasAncestor n irre"
  shows "hasAncestor (newBlockNode h b (Some n)) irre"
  using assms(3) wf_newBlockNode [OF assms(1,2), of h b]
  by (auto simp: hasAncestor_iff assms(1))

lemma hasAncestor_refl: "wf_node n \<Longrightarrow> hasAncestor n n"
  by (auto simp: hasAncestor_iff ancestors_Cons [of n])

lemma hasAncestor_mem: "wf_node n \<Longrightarrow> a \<in> set (ancestors n) \<Longrightarrow> hasAncestor n a"
  by (auto simp: hasAncestor_iff)

lemma count_newBlockNode:
  "unat (bn_count n) + 1 < 2 ^ 32 \<Longrightarrow> unat (bn_count (newBlockNode h b (Some n))) = unat (bn_count n) + 1"
  by (simp add: newBlockNode_def unat_word_ariths(1))

lemma hasAncestorWithMinCount_mem:
  "hasAncestorWithMinCount n h m = Some a \<Longrightarrow> a \<in> set (ancestors n) \<and> bn_hash a = h \<and> bn_count a \<ge> m"
  by (induction n h m rule: hasAncestorWithMinCount.induct) (auto split: if_splits option.splits)

text \<open>Transitivity along one branch.\<close>

lemma hasAncestor_le: "wf_node n \<Longrightarrow> hasAncestor n irre \<Longrightarrow> bn_count irre \<le> bn_count n"
  by (auto simp: hasAncestor_def ancestorByCount_nth word_le_nat_alt split: if_splits)

section \<open>Branches under the operations\<close>

lemma wf_addTx: "wf_branch b \<Longrightarrow> wf_branch (branch_addTx tx b)"
  by (auto simp: branch_addTx_def wf_branch_def Let_def)

lemma head_addTx [simp]: "br_head (branch_addTx tx b) = br_head b"
  by (simp add: branch_addTx_def Let_def)

lemma wf_clear:
  "wf_branch b \<Longrightarrow> wf_branch (clearPackedTxs txs b)" "wf_branch b \<Longrightarrow> wf_branch (clearUnpackedTxs txs b)"
  by (auto simp: wf_branch_def clearPackedTxs_def clearUnpackedTxs_def wf_pool_clear mget_clear)

lemma head_clear [simp]: "br_head (clearPackedTxs txs b) = br_head b" "br_head (clearUnpackedTxs txs b) = br_head b"
  by (simp_all add: clearPackedTxs_def clearUnpackedTxs_def)

lemma fold_map_list: "fold (\<lambda>x. map (f x)) xs ys = map (fold f xs) ys"
  by (induction xs arbitrary: ys) (simp_all add: comp_def)

lemma clear_all:
  assumes "wf_branch b"
  shows "wf_branch (fold (\<lambda>n. clearPackedTxs (block_txs n)) ns b) \<and> br_head (fold (\<lambda>n. clearPackedTxs (block_txs n)) ns b) = br_head b"
  using assms by (induction ns arbitrary: b) (simp_all add: wf_clear)

lemma applyBlock_heads:
  "branch_applyBlock E n b = (b', r) \<Longrightarrow> br_head b' = br_head b \<and> (\<forall>br. r = Ok br \<longrightarrow> br_head br = n)"
  by (auto simp: branch_applyBlock_def share_readonly_def split: option.splits if_splits prod.splits res.splits)

lemma produce_loop_head: "produce_loop E h n vs b out = (b', r) \<Longrightarrow> br_head b' = br_head b"
  by (induction vs arbitrary: b out) (fastforce simp: Let_def split: prod.splits res.splits if_splits)+

lemma produceBlock_heads:
  assumes "produceBlock B sign pub h ts addr k b = (b', r)"
  shows "br_head b' = br_head b" "r = Ok (br, bl) \<Longrightarrow> br_head br = newBlockNode h bl (Some (br_head b))"
proof -
  let ?txs = "sortUnpackedTxs (be_tx B) (makeArena b)"
  let ?c = "if length ?txs < MaxTransactionsPerBlock then length ?txs else MaxTransactionsPerBlock"
  obtain cpy r1 where run: "produce_loop (be_tx B) h ?c ?txs (makeArena b) [] = (cpy, r1)" by fastforce
  have "br_head cpy = br_head b" using produce_loop_head [OF run] by (simp add: makeArena_def)
  then show "br_head b' = br_head b" "r = Ok (br, bl) \<Longrightarrow> br_head br = newBlockNode h bl (Some (br_head b))"
    using assms unfolding produceBlock_def Let_def run
    by (auto simp: share_readonly_def split: res.splits)
qed

lemma newBranch_head: "newBranch E base n s pool = Ok b \<Longrightarrow> br_head b = n"
proof -
  assume new: "newBranch E base n s pool = Ok b"
  have tx: "pack_tx E h v b0 = (b1, r) \<Longrightarrow> br_head b1 = br_head b0" for h v b0 b1 r
    by (auto simp: pack_tx_def pack_checked_def Let_def split: if_splits res.splits prod.splits)
  have txs: "pack_txs E h vs b0 = (b1, r) \<Longrightarrow> br_head b1 = br_head b0" for h vs b0 b1 r
    by (induction vs arbitrary: b0) (auto dest!: tx split: prod.splits res.splits)
  have nodes: "pack_nodes E ns b0 = (b1, r) \<Longrightarrow> br_head b1 = br_head b0" for ns b0 b1 r
    by (induction ns arbitrary: b0) (auto dest!: txs split: prod.splits res.splits if_splits option.splits)
  from new show ?thesis
    by (auto simp: newBranch_def Let_def dest!: nodes split: res.splits prod.splits)
qed

section \<open>Replacing one branch\<close>

text \<open>An attempt to grow a branch leaves its head where it was.\<close>

lemma chain_ok_attempt:
  assumes "chain_ok c" and "i < length (ch_branches c)" and "wf_branch v" and "br_head v = br_head (ch_branches c ! i)"
  shows "chain_ok (c \<lparr> ch_branches := (ch_branches c)[i := v] \<rparr>)"
    "chain_head (c \<lparr> ch_branches := (ch_branches c)[i := v] \<rparr>) = chain_head c"
proof -
  show head: "chain_head (c \<lparr> ch_branches := (ch_branches c)[i := v] \<rparr>) = chain_head c"
    using assms(2,4) by (simp add: chain_head_def headBranch_def nth_list_update)
  have "wf_head (ch_lastIrre c) (bn_count (chain_head c)) v"
    using chain_ok_branch [OF assms(1), of "ch_branches c ! i"] assms(2-4) by (simp add: wf_head_def)
  then show "chain_ok (c \<lparr> ch_branches := (ch_branches c)[i := v] \<rparr>)"
    using assms(1) set_update_subset_insert [of "ch_branches c" i v] head
    by (auto simp: chain_ok_def list_all_iff)
qed

lemma chain_ok_grow:
  assumes "chain_ok c" and "i < length (ch_branches c)" and "i \<noteq> ch_headIndex c"
    and "wf_head (ch_lastIrre c) (bn_count (chain_head c)) br"
  shows "chain_ok (c \<lparr> ch_branches := (ch_branches c)[i := br] \<rparr>)"
    "chain_head (c \<lparr> ch_branches := (ch_branches c)[i := br] \<rparr>) = chain_head c"
proof -
  show head: "chain_head (c \<lparr> ch_branches := (ch_branches c)[i := br] \<rparr>) = chain_head c"
    using assms(3) by (simp add: chain_head_def headBranch_def)
  show "chain_ok (c \<lparr> ch_branches := (ch_branches c)[i := br] \<rparr>)"
    using assms(1,4) set_update_subset_insert [of "ch_branches c" i br] head
    by (auto simp: chain_ok_def list_all_iff)
qed

lemma chain_ok_fork:
  assumes "chain_ok c" and "wf_head (ch_lastIrre c) (bn_count (chain_head c)) br"
  shows "chain_ok (c \<lparr> ch_branches := ch_branches c @ [br] \<rparr>)"
    "chain_head (c \<lparr> ch_branches := ch_branches c @ [br] \<rparr>) = chain_head c"
  using assms by (auto simp: chain_ok_def chain_head_def headBranch_def nth_append)

section \<open>Switching\<close>

lemma prune_branches_spec:
  assumes "prune_branches i0 nb irre i bs brs idx = (brs', idx')"
  defines "nb' \<equiv> nb \<lparr> br_preview := metaState_commit (br_preview nb) \<rparr>"
  shows "(\<exists>ks. brs' = brs @ ks \<and> (\<forall>b \<in> set ks. b = nb' \<or> b \<in> set bs \<and> hasAncestor (br_head b) irre)) \<and>
    (i \<le> i0 \<and> i0 < i + length bs \<longrightarrow> idx' < length brs' \<and> brs' ! idx' = nb') \<and> (i0 < i \<longrightarrow> idx' = idx)"
  using assms(1)
proof (induction bs arbitrary: i brs idx)
  case (Cons b bs)
  consider "i = i0" | "i \<noteq> i0" "hasAncestor (br_head b) irre" | "i \<noteq> i0" "\<not> hasAncestor (br_head b) irre" by blast
  then show ?case
  proof cases
    case 1
    then have "prune_branches i0 nb irre (Suc i) bs (brs @ [nb']) (length brs) = (brs', idx')"
      using Cons.prems by (simp add: nb'_def)
    from Cons.IH [OF this] show ?thesis using 1 by (auto simp: nth_append)
  next
    case 2
    then have "prune_branches i0 nb irre (Suc i) bs (brs @ [b]) idx = (brs', idx')" using Cons.prems by simp
    from Cons.IH [OF this] show ?thesis using 2 by auto
  next
    case 3
    then have "prune_branches i0 nb irre (Suc i) bs brs idx = (brs', idx')" using Cons.prems by simp
    from Cons.IH [OF this] show ?thesis using 3 by auto
  qed
qed auto

text \<open>The immutable state and the pool under the confirmed blocks.\<close>

lemma confirm_txs_wf:
  "confirm_txs E h txs (s, pool) = Ok (s', pool') \<Longrightarrow> wf_meta s \<Longrightarrow> wf_pool pool \<Longrightarrow> wf_meta s' \<and> wf_pool pool'"
proof (induction txs arbitrary: s pool)
  case (Cons tx txs)
  obtain s1 r where run: "meta_apply E tx h s = (s1, r)" by fastforce
  then have "wf_meta s1" using wf_meta_apply [OF Cons.prems(2), of E tx h] by simp
  with Cons run show ?case by (auto split: res.splits)
qed simp

lemma confirm_blocks_wf:
  "confirm_blocks E bs (s, pool) = Ok (s', pool') \<Longrightarrow> wf_meta s \<Longrightarrow> wf_pool pool \<Longrightarrow> wf_meta s' \<and> wf_pool pool'"
proof (induction bs arbitrary: s pool)
  case (Cons b bs)
  then show ?case
    by (auto split: option.splits res.splits) (metis confirm_txs_wf)+
qed simp

lemma expire_pool_filter:
  "expire_pool E s pool = Ok (ex, pool') \<Longrightarrow>
     pool' = filter (\<lambda>kv. \<exists>n. nextNonce s (GetAccountAddress E (snd kv)) = Ok n \<and> \<not> GetAccountNonce (snd kv) < n) pool"
  by (induction pool arbitrary: ex pool') (auto split: res.splits prod.splits if_splits)

lemma wf_pool_filter: "wf_pool m \<Longrightarrow> wf_pool (filter P m)"
proof -
  assume m: "wf_pool m"
  have "minv (filter P m)" using m by (simp add: wf_pool_def distinct_map_filter)
  then show ?thesis using m by (auto simp: wf_pool_def)
qed

lemma switch_callback_ok:
  assumes ok: "chain_ok c" and i: "i < length (ch_branches c)"
    and nb: "wf_branch nb" "wf_node (br_head nb)" "bn_count (chain_head c) \<le> bn_count (br_head nb)"
    and irre: "irre \<in> set (ancestors (br_head nb))" and wf: "wf_meta s" "wf_pool rp"
    and c'_def: "c' = switch_callback i nb irre ns ex rp (c \<lparr> ch_immutable := s \<rparr>)"
  shows "chain_ok c' \<and> ch_lastIrre c' = irre \<and> chain_head c' = br_head nb"
proof -
  let ?nb = "nb \<lparr> br_preview := metaState_commit (br_preview nb) \<rparr>"
  let ?g = "\<lambda>b. clearUnpackedTxs ex (fold (\<lambda>n. clearPackedTxs (block_txs n)) ns b)"
  obtain brs idx where p: "prune_branches i nb irre 0 (ch_branches c) [] 0 = (brs, idx)" by fastforce
  have brs: "\<forall>b \<in> set brs. b = ?nb \<or> b \<in> set (ch_branches c) \<and> hasAncestor (br_head b) irre"
      "idx < length brs" "brs ! idx = ?nb"
    using prune_branches_spec [OF p] i by auto
  have c': "ch_branches c' = map ?g brs" "ch_headIndex c' = idx" "ch_lastIrre c' = irre"
      "ch_immutable c' = metaState_commit s" "ch_txPool c' = rp"
    by (simp_all add: c'_def switch_callback_def p fold_map_list)
  have wfb: "wf_branch b \<and> wf_node (br_head b) \<and> hasAncestor (br_head b) irre \<and> bn_count (br_head b) \<le> bn_count (br_head nb)"
    if "b \<in> set brs" for b
  proof (cases "b = ?nb")
    case True
    then show ?thesis using nb(1,2) hasAncestor_mem [OF nb(2) irre] by (simp add: wf_commit)
  next
    case False
    then show ?thesis using brs(1) that chain_ok_branch [OF ok, of b] nb(3) by auto
  qed
  have g: "wf_branch (?g b)" "br_head (?g b) = br_head b" if "b \<in> set brs" for b
    using wfb [OF that] clear_all [of b ns] by (simp_all add: wf_clear)
  have head: "chain_head c' = br_head nb"
    using brs(2,3) g(2) [of ?nb] nth_mem [OF brs(2)] by (simp add: chain_head_def headBranch_def c')
  have "list_all (wf_head irre (bn_count (br_head nb))) (map ?g brs)"
    using wfb g by (simp add: list_all_iff wf_head_def)
  then show ?thesis
    using head brs(2) wf by (simp add: chain_ok_def c' head wf_commit) (simp add: metaState_commit_def)
qed

text \<open>
  What a switch does to the chain: nothing but discarding what it wrote into the
  immutable state, or the new branch becomes the head and the irreversible block is
  the one \<open>confirms\<close> below it.
\<close>

lemma switch_cases:
  assumes ok: "chain_ok c" and i: "i < length (ch_branches c)"
    and nb: "wf_branch nb" "wf_node (br_head nb)" "bn_count (chain_head c) \<le> bn_count (br_head nb)"
      "unat (bn_count (br_head nb)) + 1 < 2 ^ 32"
    and run: "replaceAndSwitchToBranch K fault bl i nb c = (c', r)" and "r \<noteq> Panic"
  defines "irre \<equiv> rev (ancestors (br_head nb)) ! (unat (bn_count (br_head nb)) - unat (ch_confirms c))"
  shows "chain_ok c' \<and> ch_confirms c' = ch_confirms c \<and>
    (ch_lastIrre c' = ch_lastIrre c \<and> ch_branches c' = ch_branches c \<and> ch_headIndex c' = ch_headIndex c \<and> r \<noteq> Ok () \<or>
     ch_lastIrre c' = irre \<and> chain_head c' = br_head nb)"
proof -
  have irre: "lastIrreversible (br_head nb) (ch_confirms c) = Ok irre"
    unfolding irre_def by (rule lastIrreversible_nth [OF nb(2)])
  have mem: "irre \<in> set (ancestors (br_head nb))"
    by (auto simp: irre_def length_ancestors [OF nb(2)] intro!: nth_mem [of _ "rev _", simplified])
  show ?thesis
  proof (cases "\<exists>ns s pool ex rp. fetchNodeList irre (bn_count (ch_lastIrre c) + 1) = Ok ns \<and>
      confirm_blocks (ce_tx K) ns (ch_immutable c, ch_txPool c) = Ok (s, pool) \<and>
      expire_pool (ce_tx K) s pool = Ok (ex, rp)")
    case False
    then have "c' = c \<and> r \<noteq> Ok ()"
      using run irre by (auto simp: replaceAndSwitchToBranch_def Let_def split: res.splits prod.splits)
    then show ?thesis using ok by simp
  next
    case True
    then obtain ns s pool ex rp where steps:
        "fetchNodeList irre (bn_count (ch_lastIrre c) + 1) = Ok ns"
        "confirm_blocks (ce_tx K) ns (ch_immutable c, ch_txPool c) = Ok (s, pool)"
        "expire_pool (ce_tx K) s pool = Ok (ex, rp)" by blast
    have wf: "wf_meta s" "wf_pool pool"
      using confirm_blocks_wf [OF steps(2)] ok by (simp_all add: chain_ok_def)
    have rp: "wf_pool rp" using expire_pool_filter [OF steps(3)] wf_pool_filter [OF wf(2)] by simp
    obtain sps c1 r1 where store: "chain_store fault sps (switch_callback i nb irre ns ex rp)
        (c \<lparr> ch_immutable := s \<rparr>) = (c1, r1)"
        and c': "c' = (if \<exists>e. r1 = Err e then c1 \<lparr> ch_immutable := metaState_clean (ch_immutable c1) \<rparr> else c1)" "r = r1"
      using run irre steps unfolding replaceAndSwitchToBranch_def Let_def
      by (auto split: prod.splits res.splits)
    from store show ?thesis
    proof (cases rule: chain_store_cases)
      case 1
      then show ?thesis
        using ok wf_clean [OF wf(1)] c' \<open>r \<noteq> Panic\<close>
        by (cases r1) (auto simp: chain_ok_def chain_head_def headBranch_def metaState_clean_def)
    next
      case (2 db)
      then have "c' = (switch_callback i nb irre ns ex rp (c \<lparr> ch_immutable := s \<rparr>)) \<lparr> ch_storage := db \<rparr>"
        using c' \<open>r \<noteq> Panic\<close> by auto
      moreover have "ch_confirms (switch_callback i nb irre ns ex rp (c \<lparr> ch_immutable := s \<rparr>)) = ch_confirms c"
        by (simp add: switch_callback_def split: prod.split)
      ultimately show ?thesis
        using switch_callback_ok [OF ok i nb(1-3) mem wf(1) rp refl, of ns ex] by simp
    qed
  qed
qed

section \<open>Steps of the chain\<close>

text \<open>The head branch got longer, and the irreversible block is \<open>confirms\<close> below its head.\<close>

definition advanced :: "Chain \<Rightarrow> Chain \<Rightarrow> bool" where
  "advanced c c' \<longleftrightarrow>
     wf_node (chain_head c') \<and> hasAncestor (chain_head c') (ch_lastIrre c) \<and>
     bn_count (chain_head c) < bn_count (chain_head c') \<and>
     ch_lastIrre c' = rev (ancestors (chain_head c')) ! (unat (bn_count (chain_head c')) - unat (ch_confirms c))"

definition step_ok :: "Chain \<Rightarrow> Chain \<Rightarrow> bool" where
  "step_ok c c' \<longleftrightarrow> chain_ok c' \<and> ch_confirms c' = ch_confirms c \<and>
     (ch_lastIrre c' = ch_lastIrre c \<and> chain_head c' = chain_head c \<or> advanced c c')"

lemma step_ok_refl: "chain_ok c \<Longrightarrow> step_ok c c"
  by (simp add: step_ok_def)

lemma step_ok_same:
  "chain_ok c' \<Longrightarrow> ch_confirms c' = ch_confirms c \<Longrightarrow> ch_lastIrre c' = ch_lastIrre c \<Longrightarrow>
     chain_head c' = chain_head c \<Longrightarrow> step_ok c c'"
  by (simp add: step_ok_def)

lemma advanced_irre:
  assumes "advanced c c'"
  shows "unat (bn_count (ch_lastIrre c')) = unat (bn_count (chain_head c')) - unat (ch_confirms c)"
    "wf_node (ch_lastIrre c')" "ch_lastIrre c' \<in> set (ancestors (chain_head c'))"
proof -
  let ?n = "chain_head c'"
  have n: "wf_node ?n" using assms by (auto simp: advanced_def)
  have irre: "ch_lastIrre c' = rev (ancestors ?n) ! (unat (bn_count ?n) - unat (ch_confirms c))"
    using assms by (simp add: advanced_def)
  show mem: "ch_lastIrre c' \<in> set (ancestors ?n)"
    unfolding irre by (rule nth_mem [of _ "rev _", simplified]) (simp add: length_ancestors [OF n])
  show "wf_node (ch_lastIrre c')" using ancestorByCount_ancestor [OF n mem] by simp
  show "unat (bn_count (ch_lastIrre c')) = unat (bn_count ?n) - unat (ch_confirms c)"
    using arg_cong [OF ancestors_count [OF n], of "\<lambda>xs. xs ! (unat (bn_count ?n) - unat (ch_confirms c))"]
    by (simp add: irre length_ancestors [OF n] nth_append del: upt_Suc)
qed

lemma advanced_up:
  assumes "settled c" and "advanced c c'"
  shows "unat (bn_count (ch_lastIrre c')) = unat (bn_count (chain_head c')) - unat (ch_confirms c)"
    "hasAncestor (ch_lastIrre c') (ch_lastIrre c)"
proof -
  note irre = advanced_irre [OF assms(2)]
  show "unat (bn_count (ch_lastIrre c')) = unat (bn_count (chain_head c')) - unat (ch_confirms c)" by (rule irre(1))
  have n: "wf_node (chain_head c')" "hasAncestor (chain_head c') (ch_lastIrre c)" "bn_count (chain_head c) < bn_count (chain_head c')"
    using assms(2) by (auto simp: advanced_def)
  have "unat (bn_count (ch_lastIrre c)) \<le> unat (bn_count (ch_lastIrre c'))"
    using assms(1) n(3) unfolding irre(1) by (simp add: settled_def word_less_nat_alt)
  then show "hasAncestor (ch_lastIrre c') (ch_lastIrre c)"
    by (intro hasAncestor_below [OF n(1) irre(3) n(2)]) (simp add: word_le_nat_alt)
qed

lemma step_ok_settled:
  assumes "settled c" and "step_ok c c'"
  shows "settled c'"
  using assms advanced_up(1) [OF assms(1), of c'] by (auto simp: step_ok_def settled_def)

lemma storeTx_ok:
  assumes "chain_ok c" and "storeTx K fault tx c = (c', r)"
  shows "step_ok c c'"
proof -
  let ?cb = "\<lambda>c. c \<lparr> ch_txPool := mput (tx_Hash tx) tx (ch_txPool c), ch_branches := map (branch_addTx tx) (ch_branches c) \<rparr>"
  have head: "chain_head (?cb c) = chain_head c"
    using assms(1) by (simp add: chain_head_def headBranch_def chain_ok_def)
  have "chain_ok (?cb c)"
    using assms(1) head by (auto simp: chain_ok_def list_all_iff wf_head_def wf_addTx)
  then have "step_ok c ((?cb c) \<lparr> ch_storage := db \<rparr>)" for db
    using head by (intro step_ok_same) simp_all
  then show ?thesis
    using assms step_ok_refl [OF assms(1)]
    by (auto simp: storeTx_def Let_def split: if_splits elim!: chain_store_cases)
qed

lemma processAddTxReq_ok:
  assumes "chain_ok c" and "processAddTxReq K fault req c = (c', sent, r)"
  shows "step_ok c c'"
  using assms step_ok_refl [OF assms(1)] storeTx_ok [OF assms(1)]
  by (auto simp: processAddTxReq_def Let_def split: option.splits prod.splits res.splits if_splits)

lemma switch_ok:
  assumes "chain_ok c" and "i < length (ch_branches c)" and "room c"
    and "wf_branch nb" and "br_head nb = newBlockNode h b (Some (br_head v))" and "v \<in> set (ch_branches c)"
    and "bn_count (chain_head c) < bn_count (br_head nb)"
    and "replaceAndSwitchToBranch K fault bl i nb c = (c', r)" and "r \<noteq> Panic"
  shows "step_ok c c'"
proof -
  note v = chain_ok_branch [OF assms(1,6)]
  have small: "unat (bn_count (br_head v)) + 2 < 2 ^ 32"
    using v(4) assms(3) by (simp add: room_def word_le_nat_alt)
  have nb: "wf_node (br_head nb)" "hasAncestor (br_head nb) (ch_lastIrre c)" "unat (bn_count (br_head nb)) + 1 < 2 ^ 32"
    unfolding assms(5) using wf_newBlockNode [OF v(2)] hasAncestor_child [OF v(2) _ v(3)] small
    by (simp_all add: count_newBlockNode)
  have "bn_count (chain_head c) \<le> bn_count (br_head nb)" using assms(7) by simp
  from switch_cases [OF assms(1,2,4) nb(1) this nb(3) assms(8,9)] assms(7) nb(1,2) show ?thesis
    by (auto simp: step_ok_def advanced_def chain_head_def headBranch_def)
qed

lemma index_of_head_spec:
  "index_of_head h i bs = Some j \<Longrightarrow> i \<le> j \<and> j < i + length bs"
  "index_of_head h i bs = None \<Longrightarrow> \<forall>b \<in> set bs. bn_hash (br_head b) \<noteq> h"
  by (induction bs arbitrary: i) (fastforce split: if_splits)+

lemma fork_point_spec:
  "fork_point h m bs = Some n \<Longrightarrow> \<exists>v \<in> set bs. n \<in> set (ancestors (br_head v)) \<and> bn_hash n = h \<and> bn_count n \<ge> m"
  by (induction bs) (auto dest: hasAncestorWithMinCount_mem split: option.splits)

lemma grow_branch_ok:
  assumes ok: "chain_ok c" "room c" and i: "i < length (ch_branches c)"
    and run: "grow_branch K fault h bl i c = (c', r)" "r \<noteq> Panic"
  shows "step_ok c c'"
proof -
  let ?v = "ch_branches c ! i"
  let ?n = "newBlockNode h bl (Some (br_head ?v))"
  obtain v r1 where app: "branch_applyBlock (ce_tx K) ?n ?v = (v, r1)" by fastforce
  have mem: "?v \<in> set (ch_branches c)" using i by simp
  note wfv = chain_ok_branch [OF ok(1) mem]
  have v: "wf_branch v" "br_head v = br_head ?v" and br: "\<And>br. r1 = Ok br \<Longrightarrow> wf_branch br \<and> br_head br = ?n"
    using wf_applyBlock [OF wfv(1), of "ce_tx K" ?n, unfolded app fst_conv snd_conv] applyBlock_heads [OF app]
    by blast+
  let ?c = "c \<lparr> ch_branches := (ch_branches c)[i := v] \<rparr>"
  note c = chain_ok_attempt [OF ok(1) i v]
  have same: "step_ok c ?c" using c by (intro step_ok_same) simp_all
  show ?thesis
  proof (cases r1)
    case (Ok br)
    note br = br [OF Ok]
    have len: "i < length (ch_branches ?c)" using i by simp
    have vc: "v \<in> set (ch_branches ?c)" using i by (simp add: set_update_memI)
    have rm: "room ?c" using ok(2) c(2) by (simp add: room_def)
    have cnt: "unat (bn_count ?n) = unat (bn_count (br_head ?v)) + 1"
      using ok(2) wfv(4) by (intro count_newBlockNode) (simp add: room_def word_le_nat_alt)
    have wn: "wf_node ?n" "hasAncestor ?n (ch_lastIrre c)"
      using wf_newBlockNode [OF wfv(2)] hasAncestor_child [OF wfv(2) _ wfv(3)] ok(2) wfv(4)
      by (simp_all add: room_def word_le_nat_alt)
    show ?thesis
    proof (cases "bn_count (br_head br) \<le> bn_count (chain_head ?c)")
      case True
      have ne: "i \<noteq> ch_headIndex c"
        using True br cnt c(2) by (auto simp: word_le_nat_alt chain_head_def headBranch_def)
      let ?br = "br \<lparr> br_preview := metaState_commit (br_preview br) \<rparr>"
      have "wf_head (ch_lastIrre ?c) (bn_count (chain_head ?c)) ?br"
        using br wn True by (simp add: wf_head_def wf_commit)
      from chain_ok_grow [OF c(1) len _ this] ne
      have "step_ok c ((?c \<lparr> ch_branches := (ch_branches ?c)[i := ?br] \<rparr>) \<lparr> ch_storage := db \<rparr>)" for db
        using c(2) by (intro step_ok_same) simp_all
      moreover have "chain_store fault [addBlock (ce_codec K) h bl] (\<lambda>c. c \<lparr> ch_branches := (ch_branches c)[i := ?br] \<rparr>) ?c = (c', r)"
        using run(1) True Ok by (simp add: grow_branch_def Let_def app)
      ultimately show ?thesis using same by (auto elim!: chain_store_cases)
    next
      case False
      have "replaceAndSwitchToBranch K fault bl i br ?c = (c', r)"
        using run(1) False Ok by (simp add: grow_branch_def Let_def app)
      from switch_ok [OF c(1) len rm _ _ vc _ this run(2), of h bl] br v(2) False
      have "step_ok ?c c'" by simp
      then show ?thesis using c(2) by (simp add: step_ok_def advanced_def)
    qed
  qed (use run same in \<open>auto simp: grow_branch_def Let_def app\<close>)
qed

lemma fork_branch_ok:
  assumes ok: "chain_ok c" "room c"
    and parent: "v \<in> set (ch_branches c)" "p \<in> set (ancestors (br_head v))" "p \<noteq> br_head v" "bn_count p \<ge> bn_count (ch_lastIrre c)"
    and run: "fork_branch K fault h bl p c = (c', r)"
  shows "step_ok c c'"
proof (cases "newBranch (ce_tx K) (ch_lastIrre c) (newBlockNode h bl (Some p)) (ch_immutable c) (ch_txPool c)")
  case (Ok br)
  note v = chain_ok_branch [OF ok(1) parent(1)]
  have p: "wf_node p" "hasAncestor p (ch_lastIrre c)"
    using ancestorByCount_ancestor [OF v(2) parent(2)] hasAncestor_below [OF v(2) parent(2) v(3) parent(4)] by auto
  obtain q where q: "bn_parent (br_head v) = Some q" "p \<in> set (ancestors q)"
    using parent(2,3) by (cases "bn_parent (br_head v)") (auto simp: ancestors_Cons [of "br_head v"])
  have "unat (bn_count p) \<le> unat (bn_count q)" "unat (bn_count (br_head v)) = Suc (unat (bn_count q))"
    using ancestorByCount_ancestor [OF _ q(2)] v(2) q(1) by (cases "br_head v"; simp)+
  then have lt: "unat (bn_count p) < unat (bn_count (br_head v))" by simp
  have small: "unat (bn_count p) + 1 < 2 ^ 32" using lt v(4) ok(2) by (simp add: room_def word_le_nat_alt)
  have "wf_branch br" "br_head br = newBlockNode h bl (Some p)"
    using wf_newBranch [OF _ _ Ok] ok(1) newBranch_head [OF Ok] by (auto simp: chain_ok_def)
  then have "wf_head (ch_lastIrre c) (bn_count (chain_head c)) br"
    using wf_newBlockNode [OF p(1) small] hasAncestor_child [OF p(1) small p(2)] lt v(4)
    by (simp add: wf_head_def word_le_nat_alt count_newBlockNode [OF small])
  from chain_ok_fork [OF ok(1) this]
  have "step_ok c ((c \<lparr> ch_branches := ch_branches c @ [br] \<rparr>) \<lparr> ch_storage := db \<rparr>)" for db
    by (intro step_ok_same) simp_all
  then show ?thesis
    using run Ok step_ok_refl [OF ok(1)] by (auto simp: fork_branch_def elim!: chain_store_cases)
qed (use run step_ok_refl [OF ok(1)] in \<open>auto simp: fork_branch_def\<close>)

lemma pushBlock_ok:
  assumes "chain_ok c" "room c" and "pushBlock K fault b c = (c', r)" "r \<noteq> Panic"
  shows "step_ok c c'"
proof -
  let ?h = "heightOfTime c (block_Timestamp b)"
  consider "c' = c"
    | i where "index_of_head (block_ParentHash b) 0 (ch_branches c) = Some i" "grow_branch K fault ?h b i c = (c', r)"
    | p where "index_of_head (block_ParentHash b) 0 (ch_branches c) = None"
        "fork_point (block_ParentHash b) (bn_count (ch_lastIrre c)) (ch_branches c) = Some p"
        "fork_branch K fault ?h b p c = (c', r)"
    using assms(3) by (auto simp: pushBlock_def chain_applyBlock_def Let_def split: res.splits option.splits if_splits)
  then show ?thesis
  proof cases
    case (2 i)
    from index_of_head_spec(1) [OF 2(1)] have "i < length (ch_branches c)" by simp
    from grow_branch_ok [OF assms(1,2) this 2(2) assms(4)] show ?thesis .
  next
    case (3 p)
    obtain v where v: "v \<in> set (ch_branches c)" "p \<in> set (ancestors (br_head v))" "bn_hash p = block_ParentHash b"
        "bn_count p \<ge> bn_count (ch_lastIrre c)"
      using fork_point_spec [OF 3(2)] by blast
    then have "p \<noteq> br_head v" using index_of_head_spec(2) [OF 3(1)] by auto
    from fork_branch_ok [OF assms(1,2) v(1,2) this v(4) 3(3)] show ?thesis .
  qed (simp add: step_ok_refl [OF assms(1)])
qed

lemma produceAndStoreBlock_ok:
  assumes ok: "chain_ok c" "room c" and run: "produceAndStoreBlock K fault now priv c = (c', r)" "r \<noteq> Panic"
  shows "step_ok c c'"
proof -
  let ?i = "ch_headIndex c"
  obtain v r1 where prod: "produceBlock (ce_bp K) (ce_sign K) (ce_pub K) (heightOfTime c now) now (ch_address c) priv
      (headBranch c) = (v, r1)" by fastforce
  note wfh = chain_ok_branch [OF ok(1) headBranch_mem [OF ok(1)]]
  note wfp = wf_produceBlock [OF wfh(1), of "ce_bp K" "ce_sign K" "ce_pub K" "heightOfTime c now" now "ch_address c" priv,
      unfolded prod fst_conv snd_conv]
  have v: "wf_branch v" "br_head v = br_head (ch_branches c ! ?i)"
    using wfp produceBlock_heads(1) [OF prod] unfolding headBranch_def by blast+
  have br: "wf_branch br \<and> br_head br = newBlockNode (heightOfTime c now) bl (Some (br_head v))" if "r1 = Ok (br, bl)" for br bl
    using that wfp produceBlock_heads(2) [OF prod that] produceBlock_heads(1) [OF prod] by simp
  have i: "?i < length (ch_branches c)" using ok(1) by (simp add: chain_ok_def)
  let ?c = "c \<lparr> ch_branches := (ch_branches c)[?i := v] \<rparr>"
  note c = chain_ok_attempt [OF ok(1) i v]
  have same: "step_ok c ?c" using c by (intro step_ok_same) simp_all
  show ?thesis
  proof (cases r1)
    case (Ok p)
    obtain b bl where p: "p = (b, bl)" by fastforce
    note br = br [OF Ok [unfolded p]]
    obtain c1 r2 where sw: "replaceAndSwitchToBranch K fault bl ?i b ?c = (c1, r2)" by fastforce
    have run': "c' = c1" "r2 \<noteq> Panic"
      using run Ok p sw by (auto simp: produceAndStoreBlock_def Let_def prod split: res.splits)
    have len: "?i < length (ch_branches ?c)" and vc: "v \<in> set (ch_branches ?c)" and rm: "room ?c"
      using i ok(2) c(2) by (simp_all add: set_update_memI room_def)
    have "bn_count (chain_head ?c) < bn_count (br_head b)"
      using br v(2) ok(2) c(2) count_newBlockNode [of "br_head v" "heightOfTime c now" bl]
      by (simp add: room_def word_less_nat_alt chain_head_def headBranch_def)
    from switch_ok [OF c(1) len rm _ _ vc this sw run'(2)] br
    have "step_ok ?c c'" using run'(1) by simp
    then show ?thesis using c(2) by (simp add: step_ok_def advanced_def)
  qed (use run same in \<open>auto simp: produceAndStoreBlock_def Let_def prod\<close>)
qed

lemma step_ok_nextHeight: "step_ok c c' \<Longrightarrow> step_ok c (increaseNextHeight c')"
  by (simp add: step_ok_def advanced_def increaseNextHeight_def chain_ok_def chain_head_def headBranch_def)

lemma mainCycle_turn_ok:
  assumes "chain_ok c" "room c" and "mainCycle_turn K fault priv now c = (c', r)" "r \<noteq> Panic"
  shows "step_ok c c'"
proof (cases "c' = c \<or> c' = increaseNextHeight c")
  case True
  then show ?thesis using step_ok_nextHeight step_ok_refl [OF assms(1)] by blast
next
  case False
  then obtain t d where adv: "advanceNextHeight K fault priv t d c = (c', r)"
    using assms(3) by (auto simp: mainCycle_turn_def split: prod.splits if_splits)
  obtain k c1 r1 where "produceAndStoreBlock K fault t k c = (c1, r1)" "r1 \<noteq> Panic" "c' = increaseNextHeight c1"
    using adv False assms(4)
    by (auto simp: advanceNextHeight_def chain_produceBlock_def Let_def
        split: if_splits res.splits bool.splits option.splits prod.splits)
  then show ?thesis
    using produceAndStoreBlock_ok [OF assms(1,2)] step_ok_nextHeight by blast
qed

section \<open>Reachable chains\<close>

text \<open>
  The steps of a running chain: a received block, a transaction, a turn of the main
  cycle, or the height advancing while the chain is synchronised. A panic ends the
  process. The chain starts from a state that satisfies the invariant, in particular
  from a new database.
\<close>

inductive chain_step :: "chain_env \<Rightarrow> Chain \<Rightarrow> Chain \<Rightarrow> bool" for K where
  push: "pushBlock K fault b c = (c', r) \<Longrightarrow> r \<noteq> Panic \<Longrightarrow> chain_step K c c'"
| tx: "processAddTxReq K fault req c = (c', sent, r) \<Longrightarrow> r \<noteq> Panic \<Longrightarrow> chain_step K c c'"
| turn: "mainCycle_turn K fault priv now c = (c', r) \<Longrightarrow> r \<noteq> Panic \<Longrightarrow> chain_step K c c'"
| hole: "chain_step K c (increaseNextHeight c)"

inductive chain_run :: "chain_env \<Rightarrow> Chain \<Rightarrow> Chain \<Rightarrow> bool" for K where
  start: "chain_run K c c"
| step: "chain_run K c c' \<Longrightarrow> room c' \<Longrightarrow> chain_step K c' c'' \<Longrightarrow> chain_run K c c''"

lemma chain_step_ok:
  assumes "chain_ok c" "room c" "chain_step K c c'"
  shows "step_ok c c'"
  using assms(3)
proof cases
  case push
  then show ?thesis using pushBlock_ok [OF assms(1,2)] by blast
next
  case tx
  then show ?thesis using processAddTxReq_ok [OF assms(1)] by blast
next
  case turn
  then show ?thesis using mainCycle_turn_ok [OF assms(1,2)] by blast
qed (simp add: step_ok_nextHeight step_ok_refl [OF assms(1)])

section \<open>A new database\<close>

lemma wf_apply_all: "wf_meta s \<Longrightarrow> wf_meta (fst (apply_all E h txs s))"
proof (induction txs arbitrary: s)
  case (Cons v vs)
  obtain s1 r where run: "meta_apply E v h s = (s1, r)" by fastforce
  then have "wf_meta s1" using wf_meta_apply [OF Cons.prems, of E v h] by simp
  then show ?case using Cons.IH run by (auto split: res.split)
qed simp

lemma wf_meta_new: "wf_meta newMetaState"
  by (simp add: wf_meta_def meta_inv_def no_nil_accounts_def newMetaState_def newMetaIndex_def newDirtyIndex_def
      dirty_defs ro_defs)

lemma wf_meta_reloaded:
  assumes "wf_meta s" and "meta_inv r" and "ms_dirty r = newDirtyIndex"
    and "mget (ix_accounts (ms_readonly r)) = mget (ix_accounts (ms_readonly s))"
    and "mget (ix_databases (ms_readonly r)) = mget (ix_databases (ms_readonly s))"
    and "mget (ix_provider (ms_readonly r)) = mget (ix_provider (ms_readonly s))"
  shows "wf_meta r"
  using assms unfolding wf_meta_def no_nil_accounts_def dirty_defs ro_defs
  by (simp add: newDirtyIndex_def)

lemma tables_hold_upd [simp]:
  "tables_hold C (db \<lparr> tb_blocks := x \<rparr>) ix = tables_hold C db ix"
  "tables_hold C (db \<lparr> tb_irreversible := y \<rparr>) ix = tables_hold C db ix"
  by (simp_all add: tables_hold_def)

lemma tables_hold_empty: "tables_hold C empty_tables (ms_readonly newMetaState)"
  by (simp add: tables_hold_def rows_hold_def empty_tables_def newMetaState_def newMetaIndex_def)

lemma empty_tables_sel [simp]: "tb_blocks empty_tables = []" "tb_txPool empty_tables = []" "tb_irreversible empty_tables = []"
  by (simp_all add: empty_tables_def)

text \<open>The base accounts of a genesis block stay in the dirty index.\<close>

lemma base_keeps_readonly:
  assumes "ix_accounts (ms_readonly s) = []" and "is_base_account t"
  shows "ms_readonly (fst (meta_apply E t h s)) = ms_readonly s"
proof -
  have ro: "ro_account s' k = None" if "ms_readonly s' = ms_readonly s" for s' k
    using that assms(1) by (simp add: ro_defs)
  have base: "ms_readonly (fst (storeBaseAccount k v s)) = ms_readonly s" for k v
    using ro [of s k] by (auto simp: storeBaseAccount_def loadOrStoreAccountObject_def find_object_def put_defs
        simp del: add_balances.simps split: option.splits res.splits)
  have app: "ms_readonly (fst (applyTransaction E t h s)) = ms_readonly s"
    using assms(2) base by (induction t) auto
  have inc: "ms_readonly (fst (increaseNonce k s')) = ms_readonly s'" for k s'
    by (auto simp: increaseNonce_def op_bind_def dirty_account_copy_def put_defs split: prod.splits res.splits option.splits)
  show ?thesis
    using app inc by (auto simp: meta_apply_def Let_def op_bind_def split: res.splits prod.splits)
qed

lemma genesis_keeps_readonly:
  "ix_accounts (ms_readonly s) = [] \<Longrightarrow> list_all is_base_account txs \<Longrightarrow>
     ms_readonly (fst (apply_all E h txs s)) = ms_readonly s"
proof (induction txs arbitrary: s)
  case (Cons t txs)
  obtain s1 r where run: "meta_apply E t h s = (s1, r)" by fastforce
  have "ms_readonly s1 = ms_readonly s" using base_keeps_readonly [OF Cons.prems(1), of t E h] Cons.prems(2) run by simp
  then show ?case using Cons run by (auto split: res.split)
qed simp

text \<open>The storage after the genesis block was written.\<close>

lemma initStorage_new:
  assumes "apply_all (ce_tx K) 0 (bl_Transactions g) newMetaState = (init, Ok ())" and "storable (ce_codec K) init"
    and base: "list_all is_base_account (bl_Transactions g)"
    and g: "encodes (enc_block (ce_codec K)) (dec_block (ce_codec K)) g"
  shows "\<exists>db. initStorage K NoFault g empty_tables = Ok db \<and> tables_hold (ce_codec K) db (ms_readonly (metaState_commit init)) \<and>
    tb_blocks db = [row_of_block (ce_codec K) (0, g)] \<and> tb_txPool db = [] \<and>
    tb_irreversible db = [(0, hash_String (block_BlockHash g))]"
proof -
  have wf: "wf_meta init" using wf_apply_all [OF wf_meta_new, of "ce_tx K" 0 "bl_Transactions g"] assms(1) by simp
  have ro: "ms_readonly init = ms_readonly newMetaState"
    using genesis_keeps_readonly [OF _ base, of newMetaState "ce_tx K" 0] assms(1)
    by (simp add: newMetaState_def newMetaIndex_def)
  then obtain db where db: "run_procedures (compileChanges (ce_codec K) init []) empty_tables = Ok db"
      "tables_hold (ce_codec K) db (ms_readonly (metaState_commit init))"
      "tb_blocks db = tb_blocks empty_tables" "tb_txPool db = tb_txPool empty_tables"
      "tb_irreversible db = tb_irreversible empty_tables"
    using write_tables [OF wf_meta_inv [OF wf] assms(2), of empty_tables] tables_hold_empty ro by auto
  let ?db = "db \<lparr> tb_blocks := [row_of_block (ce_codec K) (0, g)], tb_irreversible := [(0, hash_String (block_BlockHash g))] \<rparr>"
  have "initStorage K NoFault g empty_tables = Ok ?db"
    using g assms(1) db(3,5)
    by (auto simp: initStorage_def store_def run_procedures_append res_bind_def db(1) addBlock_def updateIrreversible_def
        insert_or_replace_def row_of_block_def block_BlockHash_def elim!: encodesE)
  then show ?thesis using db(2,4) by auto
qed

text \<open>The genesis block as \<open>loadDatabase\<close> and \<open>NewChain\<close> see it.\<close>

lemma genesis_node:
  fixes g
  defines "n \<equiv> newNonCacheBlockNode 0 g None"
  shows "wf_node n" "bn_count n = 0" "bn_hash n = block_BlockHash g" "bn_height n = 0"
    "hasAncestor n n" "ancestorByCount n 0 = Some n" "load_path C db 1 n = Ok n" "fetchNodeList n 1 = Ok []"
proof -
  have n: "n = BlockNode None 0 0 (block_BlockHash g) (length (bl_Transactions g)) None"
    by (simp add: n_def newNonCacheBlockNode_def newBlockNode_def)
  show wf: "wf_node n" by (simp add: n)
  show "bn_count n = 0" "bn_hash n = block_BlockHash g" "bn_height n = 0" "load_path C db 1 n = Ok n" "fetchNodeList n 1 = Ok []"
    by (simp_all add: n fetchNodeList_def)
  show "hasAncestor n n" by (rule hasAncestor_refl [OF wf])
  show "ancestorByCount n 0 = Some n" by (simp add: n ancestorByCount_def)
qed

lemma loadDatabase_genesis:
  assumes hold: "tables_hold C db ix" and rows: "tb_blocks db = [row_of_block C (0, g)]" "tb_txPool db = []"
      "tb_irreversible db = [(0, hash_String (block_BlockHash g))]"
    and g: "is_hash (block_BlockHash g)" "is_hash (block_ParentHash g)" "encodes (enc_block C) (dec_block C) g"
  shows "\<exists>x. loadDatabase C db = Ok (newNonCacheBlockNode 0 g None, [newNonCacheBlockNode 0 g None], x, []) \<and>
    ms_dirty x = newDirtyIndex \<and> meta_inv x \<and>
    mget (ix_accounts (ms_readonly x)) = mget (ix_accounts ix) \<and>
    mget (ix_databases (ms_readonly x)) = mget (ix_databases ix) \<and>
    mget (ix_provider (ms_readonly x)) = mget (ix_provider ix)"
proof -
  obtain x where x: "loadImmutableState C db = Ok x" "ms_dirty x = newDirtyIndex" "meta_inv x"
    "mget (ix_accounts (ms_readonly x)) = mget (ix_accounts ix)"
    "mget (ix_databases (ms_readonly x)) = mget (ix_databases ix)"
    "mget (ix_provider (ms_readonly x)) = mget (ix_provider ix)"
    using load_tables [OF hold] by blast
  have "loadBlocks C db (block_BlockHash g) = Ok (newNonCacheBlockNode 0 g None, [newNonCacheBlockNode 0 g None])"
    using g by (auto simp: loadBlocks_def rows row_of_block_def decode_hash_def hash_Decode_String Let_def elim!: encodesE)
  then have "loadDatabase C db = Ok (newNonCacheBlockNode 0 g None, [newNonCacheBlockNode 0 g None], x, [])"
    using g(1) by (simp add: loadDatabase_def loadIrreHash_def rows decode_hash_def hash_Decode_String res_bind_def x(1)
        loadTxPool_def)
  with x show ?thesis by blast
qed

section \<open>Properties\<close>

text \<open>
  A configuration that starts a chain on an empty storage: the genesis block has a valid
  hash and holds base accounts that apply, it and the state it leads to can be encoded,
  and the node is one of the producers.
\<close>

definition genesis_ok :: "chain_env \<Rightarrow> Config \<Rightarrow> BPBlock \<Rightarrow> metaState \<Rightarrow> bool" where
  "genesis_ok K cfg g init \<longleftrightarrow>
     cf_Genesis cfg = Some g \<and> block_VerifyHash (ce_bp K) g = Ok () \<and>
     list_all is_base_account (bl_Transactions g) \<and>
     apply_all (ce_tx K) 0 (bl_Transactions g) newMetaState = (init, Ok ()) \<and> storable (ce_codec K) init \<and>
     is_hash (block_BlockHash g) \<and> is_hash (block_ParentHash g) \<and>
     encodes (enc_block (ce_codec K)) (dec_block (ce_codec K)) g \<and>
     peers_Find (cf_Peers cfg) (cf_NodeID cfg) \<noteq> None"

text \<open>A chain of one branch with no transaction waiting.\<close>

definition idle :: "Chain \<Rightarrow> bool" where
  "idle c \<longleftrightarrow> ch_headIndex c = 0 \<and> ch_txPool c = [] \<and> ms_dirty (ch_immutable c) = newDirtyIndex \<and>
     length (ch_branches c) = 1 \<and> br_unpacked (headBranch c) = [] \<and> ms_dirty (br_preview (headBranch c)) = newDirtyIndex"

text \<open>
  A chain can be started from a new database: \<open>NewChain\<close> succeeds on an empty storage for
  every producer of the peer list; the chain satisfies the invariant, its head and
  irreversible block are the genesis block, and its state is that of the genesis
  transactions, which the storage holds as well.
\<close>

lemma NewChain_genesis:
  assumes "genesis_ok K cfg g init"
  shows "\<exists>c. NewChain K NoFault cfg (Some empty_tables, None) False (Ok addr) = Ok c \<and>
    chain_ok c \<and> idle c \<and> chain_head c = newNonCacheBlockNode 0 g None \<and> ch_lastIrre c = newNonCacheBlockNode 0 g None \<and>
    loadAccountObject (ch_immutable c) = loadAccountObject init \<and>
    tables_hold (ce_codec K) (ch_storage c) (ms_readonly (ch_immutable c)) \<and>
    ch_address c = addr \<and> ch_mode c = cf_Mode cfg \<and> ch_genesisTime c = block_Timestamp g \<and> ch_period c = cf_Period cfg \<and>
    ch_tick c = cf_Tick cfg \<and> ch_nextHeight c = 1 \<and> ch_offset c = 0 \<and>
    ch_confirms c = needConfirms (cf_ConfirmThreshold cfg) (of_nat (length (ph_Servers (cf_Peers cfg)))) \<and>
    buildBlockProducerInfos (cf_NodeID cfg) (cf_Peers cfg) (cf_Mode cfg = APINodeMode) = Ok (ch_localBPInfo c, ch_bpInfos c)"
proof -
  let ?n = "newNonCacheBlockNode 0 g None" and ?C = "ce_codec K"
  note n = genesis_node [where g = g]
  obtain index where assms: "cf_Genesis cfg = Some g" "block_VerifyHash (ce_bp K) g = Ok ()"
      "list_all is_base_account (bl_Transactions g)"
      "apply_all (ce_tx K) 0 (bl_Transactions g) newMetaState = (init, Ok ())" "storable (ce_codec K) init"
      "is_hash (block_BlockHash g)" "is_hash (block_ParentHash g)"
      "encodes (enc_block (ce_codec K)) (dec_block (ce_codec K)) g"
      "peers_Find (cf_Peers cfg) (cf_NodeID cfg) = Some index"
    using assms by (auto simp: genesis_ok_def)
  obtain db where db: "initStorage K NoFault g empty_tables = Ok db" and hold: "tables_hold ?C db (ms_readonly (metaState_commit init))"
      and rows: "tb_blocks db = [row_of_block ?C (0, g)]" "tb_txPool db = []" "tb_irreversible db = [(0, hash_String (block_BlockHash g))]"
    using initStorage_new [OF assms(4,5,3,8)] by blast
  obtain x where load: "loadDatabase ?C db = Ok (?n, [?n], x, [])" and x: "ms_dirty x = newDirtyIndex" "meta_inv x"
      "mget (ix_accounts (ms_readonly x)) = mget (ix_accounts (ms_readonly (metaState_commit init)))"
      "mget (ix_databases (ms_readonly x)) = mget (ix_databases (ms_readonly (metaState_commit init)))"
      "mget (ix_provider (ms_readonly x)) = mget (ix_provider (ms_readonly (metaState_commit init)))"
    using loadDatabase_genesis [OF hold rows assms(6-8)] by blast
  have init: "wf_meta init" using wf_apply_all [OF wf_meta_new, of "ce_tx K" 0 "bl_Transactions g"] assms(4) by simp
  have wfx: "wf_meta x" by (rule wf_meta_reloaded [OF wf_commit [OF init] x(2,1,3-5)])
  define br where "br = \<lparr> br_head = ?n, br_preview = metaState_commit (metaState_makeCopy x), br_packed = [], br_unpacked = [] \<rparr>"
  have nb: "newBranch (ce_tx K) ?n ?n x [] = Ok br" by (simp add: newBranch_def n Let_def br_def)
  have wfb: "wf_branch br" by (rule wf_newBranch [OF wfx _ nb]) (simp add: wf_pool_def)
  obtain info infos where infos: "buildBlockProducerInfos (cf_NodeID cfg) (cf_Peers cfg) (cf_Mode cfg = APINodeMode) = Ok (info, infos)"
    using assms(9) by (cases "cf_Mode cfg = APINodeMode") (simp_all add: buildBlockProducerInfos_def Let_def)
  define c where "c = \<lparr> ch_storage = db, ch_address = addr, ch_mode = cf_Mode cfg,
      ch_genesisTime = block_Timestamp g, ch_period = cf_Period cfg, ch_tick = cf_Tick cfg,
      ch_bpInfos = infos, ch_localBPInfo = info, ch_localNodeID = cf_NodeID cfg,
      ch_confirms = needConfirms (cf_ConfirmThreshold cfg) (of_nat (length (ph_Servers (cf_Peers cfg)))),
      ch_nextHeight = 1, ch_offset = 0, ch_lastIrre = ?n, ch_immutable = x,
      ch_headIndex = 0, ch_branches = [br], ch_txPool = [] \<rparr>"
  have "NewChain K NoFault cfg (Some empty_tables, None) False (Ok addr) = Ok c"
    using assms(1,2) by (simp add: NewChain_def res_bind_def db load n nb infos) (simp add: c_def br_def n)
  moreover have head: "chain_head c = ?n" "headBranch c = br" by (simp_all add: chain_head_def headBranch_def c_def br_def)
  moreover have "chain_ok c"
    using wfb wfx x(1) n by (simp add: chain_ok_def head) (simp add: c_def wf_head_def br_def wf_pool_def)
  moreover have "idle c" using x(1) by (simp add: idle_def head) (simp add: c_def br_def metaState_commit_def)
  moreover have "loadAccountObject x = loadAccountObject init"
    using x(1,3) commit_index(1) [OF wf_meta_inv [OF init]]
    by (simp add: fun_eq_iff load_overlay(1) [of x] overlay_view_def dirty_defs ro_defs newDirtyIndex_def)
  moreover have "tables_hold ?C db (ms_readonly x)"
    using hold x(3-5) by (simp add: tables_hold_def rows_hold_def)
  ultimately show ?thesis
    by (intro exI [of _ c]) (simp add: c_def infos)
qed

lemma chain_run_keeps:
  assumes "chain_run K c0 c" and "chain_ok c0"
    and "unat (bn_count (ch_lastIrre c0)) = unat (bn_count (chain_head c0)) - unat (ch_confirms c0)"
  shows "chain_ok c \<and> ch_confirms c = ch_confirms c0 \<and>
    unat (bn_count (ch_lastIrre c)) = unat (bn_count (chain_head c)) - unat (ch_confirms c)"
  using assms
proof (induction rule: chain_run.induct)
  case (step c c' c'')
  then have "step_ok c' c''" using chain_step_ok by blast
  then show ?case using step advanced_irre(1) [of c' c''] by (auto simp: step_ok_def)
qed simp

text \<open>
  C4: every state of a running chain is well formed. Take a chain that was started on an empty
  storage, from a genesis block whose hash verifies, whose base accounts apply and which can be
  encoded together with their state, and let it run through blocks, transactions and turns in any
  order and with any storage fault, up to a panic and while the head's count plus two is below
  \<open>2^32\<close>. Then the head branch is one of the longest, every branch is above the last irreversible
  block, well formed and numbered without wrapping, the immutable state has no uncommitted change,
  and the irreversible block is the one exactly \<open>confirms\<close> blocks below the head, or the genesis
  block when there are not that many.
\<close>

theorem chain_invariant:
  assumes "genesis_ok K cfg g init" and "NewChain K NoFault cfg (Some empty_tables, None) False (Ok addr) = Ok c0"
    and "chain_run K c0 c"
  shows "chain_ok c \<and> unat (bn_count (ch_lastIrre c)) = unat (bn_count (chain_head c)) - unat (ch_confirms c)"
proof -
  have "chain_ok c0" "chain_head c0 = newNonCacheBlockNode 0 g None" "ch_lastIrre c0 = newNonCacheBlockNode 0 g None"
    using NewChain_genesis [OF assms(1), of addr] assms(2) by auto
  then show ?thesis using chain_run_keeps [OF assms(3)] by (simp add: genesis_node)
qed

text \<open>
  C2: irreversible means irreversible: on a well-formed chain whose irreversible block is at
  least \<open>confirms\<close> blocks below the head, or the genesis block (\<open>settled\<close>), whatever block,
  transaction or turn comes next, the last irreversible block stays or is replaced by one
  above it, and all branches that are kept are above the new one. A chain started on an empty
  storage is settled and every step keeps it so; a chain restarted with more peers, and so more
  confirmations, need not be, and there the block does move down (\<open>larger_confirms_revert\<close>).
  The step does not panic and the count of the head plus two is below \<open>2^32\<close>.
\<close>

theorem irreversible_moves_up:
  assumes "chain_ok c" and "settled c" and "room c" and "chain_step K c c'"
  shows "(ch_lastIrre c' = ch_lastIrre c \<or> hasAncestor (ch_lastIrre c') (ch_lastIrre c)) \<and>
    (\<forall>b \<in> set (ch_branches c'). hasAncestor (br_head b) (ch_lastIrre c'))"
proof -
  have st: "step_ok c c'" by (rule chain_step_ok [OF assms(1,3,4)])
  then show ?thesis
    using chain_ok_branch(3) advanced_up(2) [OF assms(2)] by (auto simp: step_ok_def)
qed

text \<open>
  The guarantee depends on the number of confirmations: when a chain is started
  again with a larger one, so that the irreversible block is less than \<open>confirms\<close> below the
  head, the first block that grows the head branch moves the irreversible block back,
  below blocks whose transactions the immutable state already holds.
\<close>

theorem larger_confirms_revert:
  assumes "chain_ok c" and "room c" and "chain_step K c c'" and "chain_head c' \<noteq> chain_head c"
    and "unat (bn_count (chain_head c')) - unat (ch_confirms c) < unat (bn_count (ch_lastIrre c))"
  shows "unat (bn_count (ch_lastIrre c')) < unat (bn_count (ch_lastIrre c)) \<and>
    \<not> hasAncestor (ch_lastIrre c') (ch_lastIrre c)"
proof -
  have "step_ok c c'" by (rule chain_step_ok [OF assms(1,2,3)])
  then have "advanced c c'" using assms(4) by (simp add: step_ok_def)
  note irre = advanced_irre [OF this]
  show ?thesis
    using irre assms(5) hasAncestor_le [OF irre(2), of "ch_lastIrre c"] by (auto simp: word_le_nat_alt)
qed

section \<open>Examples\<close>

text \<open>A chain with one producer, a period of ten and one empty branch; a turn of the main cycle.\<close>

definition example_chain_env :: chain_env where
  "example_chain_env =
     \<lparr> ce_bp = example_bp_env, ce_codec = block_codec [], ce_sign = example_sign, ce_pub = id \<rparr>"

definition example_chain :: "u32 \<Rightarrow> blockNode \<Rightarrow> blockNode \<Rightarrow> Chain" where
  "example_chain confirms irre head =
     \<lparr> ch_storage = empty_tables, ch_address = [], ch_mode = BPMode, ch_genesisTime = 0, ch_period = 10, ch_tick = 1,
       ch_bpInfos = [], ch_localBPInfo = \<lparr> bi_rank = 0, bi_total = 1, bi_role = ''L'', bi_nodeID = ''a'' \<rparr>,
       ch_localNodeID = ''a'', ch_confirms = confirms, ch_nextHeight = 4, ch_offset = 0, ch_lastIrre = irre,
       ch_immutable = newMetaState, ch_headIndex = 0,
       ch_branches = [\<lparr> br_head = head, br_preview = newMetaState, br_packed = [], br_unpacked = [] \<rparr>],
       ch_txPool = [] \<rparr>"

lemma example_chain_ok:
  assumes "wf_node head" and "hasAncestor head irre"
  shows "chain_ok (example_chain confirms irre head)" "chain_head (example_chain confirms irre head) = head"
proof -
  show "chain_head (example_chain confirms irre head) = head"
    by (simp add: chain_head_def headBranch_def example_chain_def)
  then show "chain_ok (example_chain confirms irre head)"
    using assms wf_meta_new
    by (simp add: chain_ok_def) (simp add: example_chain_def wf_head_def wf_branch_def wf_pool_def,
      simp add: newMetaState_def)
qed

text \<open>An idle chain produces an empty block in its turn.\<close>

lemma idle_produce:
  assumes sign: "\<And>h. \<exists>sig. sign k h = (Some sig, False) \<and> sigVerify (be_tx B) (Some sig) h (Some (pub k))"
    and enc: "\<And>h. marshal_BPHeader B h \<noteq> None"
    and br: "br_head br = n" "br_unpacked br = []" "ms_dirty (br_preview br) = newDirtyIndex"
  shows "\<exists>b. produceBlock B sign pub h t addr k br = (br, Ok (br \<lparr> br_head := newBlockNode h b (Some n) \<rparr>, b)) \<and>
    block_Timestamp b = t \<and> bl_Transactions b = []"
proof -
  let ?b0 = "\<lparr> bl_SignedHeader = \<lparr> bs_BPHeader = \<lparr> bh_Version = 0x01000000, bh_Producer = addr, bh_MerkleRoot = zero_hash,
      bh_ParentHash = bn_hash n, bh_Timestamp = t \<rparr>, bs_HSV = zero_hsv \<rparr>, bl_Transactions = [] \<rparr>"
  have "length (bl_Transactions ?b0) \<le> 2 ^ 62" by simp
  from pack_sign_block [where sign = sign and k = k and pub = pub and b = ?b0, OF sign enc this]
  obtain b where b: "PackAndSignBlock B sign pub k ?b0 = Ok b" "bl_Transactions b = []" "block_Timestamp b = t"
    by (auto simp: block_Timestamp_def)
  have arena: "makeArena br = br" using br by (simp add: makeArena_def)
  have "sortUnpackedTxs (be_tx B) br = []" using br by (simp add: sortUnpackedTxs_def)
  moreover have "share_readonly br br = br" by (simp add: share_readonly_def)
  ultimately show ?thesis using b br(1) by (simp add: produceBlock_def Let_def arena)
qed

lemma head_clear_all [simp]: "br_head (fold (\<lambda>n. clearPackedTxs (block_txs n)) ns b) = br_head b"
  by (induction ns arbitrary: b) simp_all

lemma idle_switch:
  assumes c: "ch_headIndex c = 0" "ch_txPool c = []" "ms_dirty (ch_immutable c) = newDirtyIndex" "length (ch_branches c) = 1"
    and irre: "lastIrreversible (br_head nb) (ch_confirms c) = Ok l" "fetchNodeList l (bn_count (ch_lastIrre c) + 1) = Ok ns"
      "\<forall>n \<in> set ns. \<exists>b. bn_block n = Some b \<and> bl_Transactions b = []"
    and enc: "enc_block (ce_codec K) b \<noteq> None" and b: "bl_Transactions b = []"
  shows "\<exists>c'. replaceAndSwitchToBranch K NoFault b 0 nb c = (c', Ok ()) \<and> chain_head c' = br_head nb \<and> ch_lastIrre c' = l"
proof -
  have conf: "confirm_blocks (ce_tx K) ns (s, p) = Ok (s, p)" for s p
    using irre(3) by (induction ns) auto
  have del: "\<forall>sp \<in> set (map (\<lambda>n. deleteTxs (block_txs n)) ns). \<forall>db. sp db = Ok db"
    using irre(3) by (auto simp: block_txs_def deleteTxs_def)
  have run: "\<forall>sp \<in> set sps. \<forall>db. sp db = Ok db \<Longrightarrow> run_procedures (sps @ rest) db = run_procedures rest db" for sps rest db
    by (induction sps) auto
  obtain v where v: "ch_branches c = [v]" using c(4) by (cases "ch_branches c") auto
  obtain e where e: "enc_block (ce_codec K) b = Some e" using enc by blast
  show ?thesis
    using c irre(1,2) conf run [OF del] e
    by (auto simp: replaceAndSwitchToBranch_def Let_def chain_store_def store_def compileChanges_def newDirtyIndex_def
        addBlock_def buildBlockIndex_def updateIrreversible_def switch_callback_def chain_head_def headBranch_def v
        fold_map_list)
qed

lemma idle_turn:
  assumes sign: "\<And>h. \<exists>sig. ce_sign K k h = (Some sig, False) \<and> sigVerify (ce_tx K) (Some sig) h (Some (ce_pub K k))"
    and enc: "\<And>h. marshal_BPHeader (ce_bp K) h \<noteq> None" "\<And>b. enc_block (ce_codec K) b \<noteq> None"
    and c: "idle c" "wf_node (chain_head c)" "unat (bn_count (chain_head c)) + 2 < 2 ^ 32" "1 \<le> ch_confirms c"
      "ch_mode c = BPMode" "isMyTurn c = Ok True"
    and tick: "nextTick now c = (t, d)" "d \<le> 0" "ch_tick c - d \<le> ch_period c"
    and irre: "l = rev (ancestors (chain_head c)) ! (unat (bn_count (chain_head c)) + 1 - unat (ch_confirms c))"
      "fetchNodeList l (bn_count (ch_lastIrre c) + 1) = Ok ns" "\<forall>n \<in> set ns. \<exists>b. bn_block n = Some b \<and> bl_Transactions b = []"
  shows "\<exists>b c'. mainCycle_turn K NoFault (Some k) now c = (c', Ok (Some b)) \<and>
    chain_head c' = newBlockNode (heightOfTime c t) b (Some (chain_head c)) \<and> ch_lastIrre c' = l"
proof -
  let ?n = "chain_head c" and ?br = "headBranch c"
  have br: "br_head ?br = ?n" "br_unpacked ?br = []" "ms_dirty (br_preview ?br) = newDirtyIndex" "ch_headIndex c = 0"
    using c(1) by (simp_all add: idle_def chain_head_def)
  have same: "c \<lparr> ch_branches := (ch_branches c)[0 := ?br] \<rparr> = c"
    by (simp add: headBranch_def br(4))
  obtain b where b: "produceBlock (ce_bp K) (ce_sign K) (ce_pub K) (heightOfTime c t) t (ch_address c) k ?br =
      (?br, Ok (?br \<lparr> br_head := newBlockNode (heightOfTime c t) b (Some ?n) \<rparr>, b))" "bl_Transactions b = []"
    using idle_produce [of "ce_sign K" k "ce_bp K" "ce_pub K", OF sign enc(1) br(1-3)] by blast
  let ?m = "newBlockNode (heightOfTime c t) b (Some ?n)"
  have "bn_count ?n + 1 \<noteq> 0" "unat (bn_count ?n + 1) = unat (bn_count ?n) + 1" "1 \<le> unat (ch_confirms c)"
    using c(3,4) by (auto simp: unat_word_ariths(1) word_le_nat_alt simp flip: unat_0_iff)
  then have "lastIrreversible ?m (ch_confirms c) = Ok l"
    using lastIrreversible_nth [OF wf_newBlockNode [OF c(2)], of "heightOfTime c t" b] c(3) length_ancestors [OF c(2)]
    by (simp add: irre(1) newBlockNode_def nth_append)
  then obtain c1 where sw: "replaceAndSwitchToBranch K NoFault b 0 (?br \<lparr> br_head := ?m \<rparr>) c = (c1, Ok ())"
      "chain_head c1 = ?m" "ch_lastIrre c1 = l"
    using idle_switch [of c "?br \<lparr> br_head := ?m \<rparr>" l ns K b] irre(2,3) enc(2) b(2) c(1) by (auto simp: idle_def)
  have "produceAndStoreBlock K NoFault t k c = (c1, Ok b)"
    using b(1) sw(1) by (simp add: produceAndStoreBlock_def br(4) same)
  then have "mainCycle_turn K NoFault (Some k) now c = (increaseNextHeight c1, Ok (Some b))"
    using tick c(5,6)
    by (simp add: mainCycle_turn_def advanceNextHeight_def chain_produceBlock_def Let_def BPMode_def APINodeMode_def)
  then show ?thesis
    using sw(2,3) by (simp add: chain_head_def headBranch_def increaseNextHeight_def)
qed

lemma example_signs_any:
  "\<exists>sig. example_sign k h = (Some sig, False) \<and> sigVerify example_env (Some sig) h (Some (id k))"
  by (simp add: example_sign_def example_env_def)

lemma example_turn:
  assumes "wf_node head" and "unat (bn_count head) + 2 < 2 ^ 32" and "1 \<le> confirms"
    and "l = rev (ancestors head) ! (unat (bn_count head) + 1 - unat confirms)"
    and "fetchNodeList l (bn_count irre + 1) = Ok ns" and "\<forall>n \<in> set ns. \<exists>b. bn_block n = Some b \<and> bl_Transactions b = []"
  shows "\<exists>b c'. mainCycle_turn example_chain_env NoFault (Some [9]) 40 (example_chain confirms irre head) = (c', Ok (Some b)) \<and>
    chain_head c' = newBlockNode 4 b (Some head) \<and> ch_lastIrre c' = l"
proof -
  let ?c = "example_chain confirms irre head"
  have head: "chain_head ?c = head" by (simp add: example_chain_def chain_head_def headBranch_def)
  have c: "idle ?c" by (simp add: idle_def example_chain_def headBranch_def newMetaState_def)
  have "heightOfTime ?c 40 = 4" "nextTick 40 ?c = (40, 0)" "isMyTurn ?c = Ok True" "ch_mode ?c = BPMode"
      "ch_tick ?c - 0 \<le> ch_period ?c" "ch_confirms ?c = confirms" "ch_lastIrre ?c = irre"
    by (simp_all add: heightOfTime_def nextTick_def isMyTurn_def example_chain_def time_Sub_def signed_divide_int_def)
  with idle_turn [where K = example_chain_env and k = "[9]" and c = ?c and now = 40, OF _ _ _ c, unfolded head] assms show ?thesis
    using example_signs_any by (simp add: example_chain_env_def example_bp_env_def block_codec_def)
qed

text \<open>
  A block on the genesis block with one confirmation, one on a chain of two with five, and
  one with one confirmation that makes the second block irreversible.
\<close>

lemma example_turn_genesis:
  "\<exists>b c'. mainCycle_turn example_chain_env NoFault (Some [9]) 40 (example_chain 1 example_genesis_node example_genesis_node) =
      (c', Ok (Some b)) \<and> chain_head c' = newBlockNode 4 b (Some example_genesis_node) \<and> ch_lastIrre c' = example_genesis_node"
proof -
  have "ancestors example_genesis_node = [example_genesis_node]" by (simp add: example_genesis_node_def newBlockNode_def)
  then show ?thesis
    using example_turn [of example_genesis_node 1 example_genesis_node example_genesis_node "[]"] by (simp add: fetchNodeList_def)
qed

definition example_second :: blockNode where
  "example_second = example_node [1] 5 [] example_genesis_node"

lemma wf_example_second: "wf_node example_second" "bn_count example_second = 1" "hasAncestor example_second example_second"
    "ancestors example_second = [example_second, example_genesis_node]"
proof -
  show "wf_node example_second" "bn_count example_second = 1"
    by (simp_all add: example_second_def example_node_def example_genesis_node_def newBlockNode_def)
  then show "hasAncestor example_second example_second" by (simp add: hasAncestor_refl)
  show "ancestors example_second = [example_second, example_genesis_node]"
    by (simp add: example_second_def example_node_def) (simp add: example_genesis_node_def newBlockNode_def)
qed

lemma example_turn_second:
  "\<exists>b c'. mainCycle_turn example_chain_env NoFault (Some [9]) 40 (example_chain 5 example_second example_second) =
      (c', Ok (Some b)) \<and> chain_head c' = newBlockNode 4 b (Some example_second) \<and> ch_lastIrre c' = example_genesis_node"
  using example_turn [of example_second 5 example_genesis_node example_second "[]"]
  by (simp add: fetchNodeList_def wf_example_second)

lemma example_turn_moves:
  "\<exists>b c'. mainCycle_turn example_chain_env NoFault (Some [9]) 40 (example_chain 1 example_genesis_node example_second) =
      (c', Ok (Some b)) \<and> chain_head c' = newBlockNode 4 b (Some example_second) \<and> ch_lastIrre c' = example_second"
proof -
  have "\<exists>b. bn_block example_second = Some b \<and> bl_Transactions b = []"
    by (simp add: example_second_def example_node_def newBlockNode_def)
  then show ?thesis
    using example_turn [of example_second 1 example_second example_genesis_node "[example_second]"]
    by (simp add: fetchNodeList_def wf_example_second)
qed

theorem irreversible_moves_up_witness:
  "\<exists>c'. chain_step example_chain_env (example_chain 1 example_genesis_node example_second) c' \<and>
     bn_count (chain_head c') = 2 \<and> ch_lastIrre c' = example_second \<and> hasAncestor example_second example_genesis_node \<and>
     (\<forall>b \<in> set (ch_branches c'). hasAncestor (br_head b) example_second)"
proof -
  let ?c = "example_chain 1 example_genesis_node example_second"
  obtain b c where t: "mainCycle_turn example_chain_env NoFault (Some [9]) 40 ?c = (c, Ok (Some b))"
      "chain_head c = newBlockNode 4 b (Some example_second)" "ch_lastIrre c = example_second"
    using example_turn_moves by blast
  have anc: "hasAncestor example_second example_genesis_node"
    by (rule hasAncestor_mem) (simp_all add: wf_example_second)
  note ok = example_chain_ok [OF wf_example_second(1) anc, of 1]
  have irre: "ch_lastIrre ?c = example_genesis_node" "ch_confirms ?c = 1" by (simp_all add: example_chain_def)
  then have "settled ?c" by (simp add: settled_def ok(2))
  moreover have "room ?c" by (simp add: room_def ok(2) wf_example_second)
  moreover have st: "chain_step example_chain_env ?c c" using chain_step.turn [OF t(1)] by simp
  ultimately have "\<forall>b \<in> set (ch_branches c). hasAncestor (br_head b) example_second"
      "ch_lastIrre c = example_genesis_node \<or> hasAncestor example_second example_genesis_node"
    using irreversible_moves_up [OF ok(1), of example_chain_env c] t(3) irre(1) by simp_all
  moreover have "bn_count (chain_head c) = 2" using t(2) by (simp add: newBlockNode_def wf_example_second)
  ultimately show ?thesis using st t(3) anc by blast
qed

theorem larger_confirms_revert_witness:
  "\<exists>c'. chain_step example_chain_env (example_chain 5 example_second example_second) c' \<and>
     unat (bn_count (ch_lastIrre (example_chain 5 example_second example_second))) = 1 \<and>
     unat (bn_count (ch_lastIrre c')) < 1"
proof -
  let ?c = "example_chain 5 example_second example_second"
  obtain b c' where t: "mainCycle_turn example_chain_env NoFault (Some [9]) 40 ?c = (c', Ok (Some b))"
      "chain_head c' = newBlockNode 4 b (Some example_second)"
    using example_turn_second by blast
  note ok = example_chain_ok [OF wf_example_second(1,3), of 5]
  have st: "chain_step example_chain_env ?c c'" using chain_step.turn [OF t(1)] by simp
  have cnt: "bn_count (chain_head c') = 2" using t(2) by (simp add: newBlockNode_def wf_example_second)
  have "chain_head c' \<noteq> chain_head ?c" using cnt by (auto simp: ok(2) wf_example_second)
  moreover have irre: "ch_lastIrre ?c = example_second" "ch_confirms ?c = 5" by (simp_all add: example_chain_def)
  moreover have "room ?c" by (simp add: room_def ok(2) wf_example_second)
  ultimately have "unat (bn_count (ch_lastIrre c')) < unat (bn_count (ch_lastIrre ?c))"
    using larger_confirms_revert [OF ok(1) _ st] cnt by (simp add: wf_example_second)
  then show ?thesis using st irre by (auto simp: wf_example_second)
qed

text \<open>A genesis block with one base account.\<close>

definition example_base :: Transaction where
  "example_base = BaseAccount (empty_account zero_hash) (zero_mixin \<lparr> mx_TxType := TransactionTypeBaseAccount \<rparr>)"

definition example_genesis :: BPBlock where
  "example_genesis = set_root zero_hash (example_block (example_hash 0) zero_hash 0 [example_base])"

definition example_start_env :: chain_env where
  "example_start_env =
     \<lparr> ce_bp = \<lparr> be_tx = example_env, marshal_BPHeader = (\<lambda>h. Some (example_hash (of_int (bh_Timestamp h)))) \<rparr>,
       ce_codec = (example_codec ((empty_account zero_hash) \<lparr> ac_NextNonce := 1 \<rparr>))
         \<lparr> enc_block := (\<lambda>b. Some (block_BlockHash b)), dec_block := (\<lambda>_. Some example_genesis) \<rparr>,
       ce_sign = example_sign, ce_pub = id \<rparr>"

definition example_config :: Config where
  "example_config =
     \<lparr> cf_Mode = BPMode, cf_Genesis = Some example_genesis,
       cf_Peers = \<lparr> ph_Version = 1, ph_Term = 1, ph_Leader = ''a'', ph_Servers = [''b'', ''a''] \<rparr>,
       cf_NodeID = ''a'', cf_ConfirmThreshold = 1, cf_Period = 10, cf_Tick = 1 \<rparr>"

lemma example_genesis_sel:
  "block_BlockHash example_genesis = example_hash 0" "block_ParentHash example_genesis = zero_hash"
  "bl_Transactions example_genesis = [example_base]" "block_Timestamp example_genesis = 0"
  by (simp_all add: example_genesis_def set_root_def example_block_def block_BlockHash_def block_ParentHash_def
      block_Timestamp_def)

lemma example_genesis_verifies: "block_VerifyHash (ce_bp example_start_env) example_genesis = Ok ()"
proof -
  have "merkle_root T [h] = h" for T h by (subst merkle_root.simps) simp
  then have "block_root (ce_bp example_start_env) example_genesis = Ok zero_hash"
    by (simp add: block_root_Ok example_genesis_sel GetTxHashes_def example_base_def)
  then show ?thesis
    by (simp add: block_VerifyHash_def verifyMerkleRoot_def bs_verifyHash_def verifier_res_def hsv_VerifyHash_def
        example_start_env_def example_env_def)
      (simp add: example_genesis_def set_root_def example_block_def)
qed

lemma example_genesis_ok:
  "genesis_ok example_start_env example_config example_genesis
     (put_account zero_hash (Some ((empty_account zero_hash) \<lparr> ac_NextNonce := 1 \<rparr>)) newMetaState)"
proof -
  let ?K = example_start_env and ?s = "put_account zero_hash (Some ((empty_account zero_hash) \<lparr> ac_NextNonce := 1 \<rparr>)) newMetaState"
  have "apply_all (ce_tx ?K) 0 (bl_Transactions example_genesis) newMetaState = (?s, Ok ())"
    by (simp add: example_genesis_sel example_base_def run_defs storeBaseAccount_def newMetaState_def newDirtyIndex_def
        newMetaIndex_def example_start_env_def empty_account_def zero_mixin_def)
  moreover have "storable (ce_codec ?K) ?s"
    by (simp add: storable_def newMetaState_def newDirtyIndex_def put_defs account_ok_def encodes_def example_start_env_def
        example_codec_def)
  moreover have "encodes (enc_block (ce_codec ?K)) (dec_block (ce_codec ?K)) example_genesis"
    by (simp add: encodes_def example_start_env_def)
  moreover have "cf_Genesis example_config = Some example_genesis" "list_all is_base_account (bl_Transactions example_genesis)"
      "is_hash (block_BlockHash example_genesis)" "is_hash (block_ParentHash example_genesis)"
      "peers_Find (cf_Peers example_config) (cf_NodeID example_config) = Some 1"
    by (simp_all add: example_config_def example_genesis_sel example_base_def peers_Find_def)
  ultimately show ?thesis using example_genesis_verifies by (simp add: genesis_ok_def)
qed

lemma example_confirms: "needConfirms 1 2 = 2"
proof -
  have "f64_round 2 = 2" "f64_round 3 = 3"
    using f64_round_exact [of 2] f64_round_exact [of 3] by simp_all
  then show ?thesis by (simp add: needConfirms_def f64_mul_def)
qed

text \<open>The chain is started on an empty storage and produces a block in its turn.\<close>

theorem chain_invariant_witness:
  "\<exists>c0 c. NewChain example_start_env NoFault example_config (Some empty_tables, None) False (Ok []) = Ok c0 \<and>
     chain_run example_start_env c0 c \<and> bn_count (chain_head c) = 1 \<and>
     chain_ok c \<and> unat (bn_count (ch_lastIrre c)) = unat (bn_count (chain_head c)) - unat (ch_confirms c)"
proof -
  let ?K = example_start_env and ?n = "newNonCacheBlockNode 0 example_genesis None"
  note n = genesis_node [where g = example_genesis]
  obtain c0 where new: "NewChain ?K NoFault example_config (Some empty_tables, None) False (Ok []) = Ok c0"
      and c0: "idle c0" "chain_head c0 = ?n" "ch_lastIrre c0 = ?n" "ch_mode c0 = BPMode" "ch_genesisTime c0 = 0"
      "ch_period c0 = 10" "ch_tick c0 = 1" "ch_nextHeight c0 = 1" "ch_offset c0 = 0" "ch_confirms c0 = 2"
      "\<lparr> bi_rank = 1, bi_total = 2, bi_role = ''L'', bi_nodeID = ''a'' \<rparr> = ch_localBPInfo c0"
    using NewChain_genesis [OF example_genesis_ok, of "[]"]
    by (auto simp: example_config_def example_genesis_sel example_confirms buildBlockProducerInfos_def peers_Find_def
        BPMode_def APINodeMode_def bpInfo_at_def)
  have tick: "nextTick 10 c0 = (10, 0)" "isMyTurn c0 = Ok True"
    by (simp_all add: nextTick_def isMyTurn_def c0(4-10) time_Sub_def flip: c0(11))
  have anc: "ancestors ?n = [?n]" by (simp add: newNonCacheBlockNode_def newBlockNode_def)
  obtain b c where t: "mainCycle_turn ?K NoFault (Some [9]) 10 c0 = (c, Ok (Some b))"
      "chain_head c = newBlockNode (heightOfTime c0 10) b (Some ?n)"
  proof -
    have "\<exists>b c'. mainCycle_turn ?K NoFault (Some [9]) 10 c0 = (c', Ok (Some b)) \<and>
        chain_head c' = newBlockNode (heightOfTime c0 10) b (Some (chain_head c0)) \<and> ch_lastIrre c' = ?n"
      by (rule idle_turn [OF _ _ _ c0(1) _ _ _ c0(4) tick(2,1), where ns = "[]"])
        (simp_all add: c0(2-10) n anc, simp_all add: example_start_env_def example_signs_any [simplified])
    then show ?thesis using that c0(2) by auto
  qed
  have "room c0" by (simp add: room_def c0(2) n)
  then have run: "chain_run ?K c0 c"
    using chain_run.step [OF chain_run.start _ chain_step.turn [OF t(1)]] by simp
  have "bn_count (chain_head c) = 1" using t(2) n by (simp add: newBlockNode_def)
  with chain_invariant [OF example_genesis_ok new run] new run show ?thesis by blast
qed

end
