(* ===== verification/Chain_Turns.thy ===== *)
theory Chain_Turns
  imports Chain_Safety
begin

text \<open>
  Time on the chain: whose turn a height is, the height of a produced block, catching
  up with the clock at start; and what the chain does with transactions and with blocks
  it rejects.
\<close>

section \<open>Turns\<close>

lemma find_loop_spec:
  "find_loop key i ss = Some j \<Longrightarrow> i \<le> j \<and> j < i + length ss \<and> ss ! (j - i) = key"
  by (induction ss arbitrary: i) (fastforce simp: nth_Cons' split: if_splits)+

lemma build_infos:
  assumes "buildBlockProducerInfos n p False = Ok (info, infos)"
  shows "infos = map (bpInfo_at p) [0..<length (ph_Servers p)]" "\<exists>i < length infos. info = infos ! i \<and> bi_nodeID info = n"
  using assms find_loop_spec [of n 0 "ph_Servers p"]
  by (auto simp: buildBlockProducerInfos_def Let_def peers_Find_def bpInfo_at_def split: option.splits)

lemma turn_of:
  assumes "i < length (ph_Servers p)" and "length (ph_Servers p) < 2 ^ 32"
  shows "isMyTurn (c \<lparr> ch_localBPInfo := bpInfo_at p i, ch_nextHeight := h \<rparr>) = Ok (unat h mod length (ph_Servers p) = i)"
proof -
  let ?L = "length (ph_Servers p)"
  have u: "unat (of_nat ?L :: u32) = ?L" "unat (of_nat i :: u32) = i"
    using assms by (simp_all add: unat_of_nat)
  then have "h mod of_nat ?L = of_nat i \<longleftrightarrow> unat h mod ?L = i"
    by (metis unat_mod_distrib unsigned_word_eqI)
  moreover have "(of_nat ?L :: u32) \<noteq> 0" using u(1) assms(1) by (metis not_less_zero unat_0)
  ultimately show ?thesis by (simp add: isMyTurn_def bpInfo_at_def Let_def)
qed

lemma fair_offset:
  assumes "i < (L :: nat)"
  shows "\<exists>k < L. (a + k) mod L = i"
proof -
  let ?k = "(i + L - a mod L) mod L"
  have "a mod L < L" using assms by simp
  then have "a mod L + (i + L - a mod L) = i + L" by linarith
  then have "(a + ?k) mod L = (i + L) mod L" by (metis mod_add_left_eq mod_add_right_eq)
  then show ?thesis using assms by (intro exI [of _ ?k]) auto
qed

text \<open>
  C21: the producers take turns: for the infos a node builds from the peer list, every
  height is the turn of exactly one of the producers, and every producer, in particular
  the node itself, has its turn among any \<open>n\<close> consecutive heights of \<open>n\<close> producers.
\<close>

theorem producers_take_turns:
  assumes "buildBlockProducerInfos n p False = Ok (info, infos)" and "length (ph_Servers p) < 2 ^ 32"
  shows "(\<forall>h. \<exists>!i. i < length infos \<and>
      isMyTurn (c \<lparr> ch_localBPInfo := infos ! i, ch_nextHeight := h \<rparr>) = Ok True) \<and>
    (\<exists>i < length infos. info = infos ! i \<and> bi_nodeID info = n) \<and>
    (\<forall>h. \<forall>i < length infos. unat h + length infos \<le> 2 ^ 32 \<longrightarrow>
      (\<exists>k < length infos. isMyTurn (c \<lparr> ch_localBPInfo := infos ! i, ch_nextHeight := h + of_nat k \<rparr>) = Ok True))"
proof -
  let ?L = "length (ph_Servers p)"
  note infos = build_infos [OF assms(1)]
  have turn: "isMyTurn (c \<lparr> ch_localBPInfo := infos ! i, ch_nextHeight := h \<rparr>) = Ok (unat h mod ?L = i)"
    if "i < ?L" for i h using turn_of [OF that assms(2)] that by (simp add: infos(1))
  have len: "length infos = ?L" by (simp add: infos(1))
  have "?L > 0" using infos(2) len by auto
  then have one: "\<exists>!i. i < ?L \<and> isMyTurn (c \<lparr> ch_localBPInfo := infos ! i, ch_nextHeight := h \<rparr>) = Ok True" for h
    by (intro ex1I [of _ "unat h mod ?L"]) (auto simp: turn)
  have "\<exists>k < ?L. isMyTurn (c \<lparr> ch_localBPInfo := infos ! i, ch_nextHeight := h + of_nat k \<rparr>) = Ok True"
    if h: "i < ?L" "unat h + ?L \<le> 2 ^ 32" for h i
  proof -
    obtain k where k: "k < ?L" "(unat h + k) mod ?L = i" using fair_offset [OF h(1)] by blast
    have "unat (h + of_nat k) = unat h + k"
      using k(1) h(2) assms(2) by (simp add: unat_word_ariths(1) unat_of_nat)
    then show ?thesis using k turn [OF h(1)] by auto
  qed
  then show ?thesis using one infos(2) len by simp
qed

theorem producers_take_turns_witness:
  "\<exists>info infos. buildBlockProducerInfos ''a'' (cf_Peers example_config) False = Ok (info, infos) \<and> length infos = 2 \<and>
     (\<exists>k < 2. isMyTurn ((example_chain 1 example_second example_second) \<lparr> ch_localBPInfo := infos ! 0, ch_nextHeight := 7 + of_nat k \<rparr>) =
        Ok True)"
proof -
  obtain info infos where i: "buildBlockProducerInfos ''a'' (cf_Peers example_config) False = Ok (info, infos)"
    by (auto simp: buildBlockProducerInfos_def example_config_def peers_Find_def Let_def)
  have len: "length infos = 2" using build_infos(1) [OF i] by (simp add: example_config_def)
  have "length (ph_Servers (cf_Peers example_config)) < 2 ^ 32" by (simp add: example_config_def)
  from producers_take_turns [OF i this, of "example_chain 1 example_second example_second"] len
  have "\<forall>h. \<forall>i < 2. unat h + 2 \<le> 2 ^ 32 \<longrightarrow> (\<exists>k < 2. isMyTurn ((example_chain 1 example_second example_second)
      \<lparr> ch_localBPInfo := infos ! i, ch_nextHeight := h + of_nat k \<rparr>) = Ok True)" by simp
  from this [rule_format, of 0 7] have "\<exists>k < 2. isMyTurn ((example_chain 1 example_second example_second) \<lparr> ch_localBPInfo := infos ! 0, ch_nextHeight := 7 + of_nat k \<rparr>) =
        Ok True" by simp
  with i len show ?thesis by blast
qed

section \<open>Heights\<close>

lemma heightOfTime_in_period:
  assumes "0 \<le> e" and "e < ch_period c" and "int (unat h) * ch_period c + e < 2 ^ 63"
  shows "heightOfTime c (ch_genesisTime c + int (unat h) * ch_period c + e) = h"
proof -
  have p: "0 < ch_period c" using assms(1,2) by simp
  have nn: "0 \<le> int (unat h) * ch_period c + e" using p assms(1) by simp
  have "time_Sub (ch_genesisTime c + int (unat h) * ch_period c + e) (ch_genesisTime c) = int (unat h) * ch_period c + e"
    using nn assms(3) by (simp add: time_Sub_def max_def min_def)
  moreover have "(int (unat h) * ch_period c + e) div ch_period c = int (unat h)"
    using p assms(1,2) by simp
  ultimately show ?thesis using sdiv_nonneg [OF nn p] by (simp add: heightOfTime_def)
qed

lemma produceBlock_block:
  assumes "produceBlock B sign pub h ts addr k b = (b', Ok (br, bl))"
  shows "block_Timestamp bl = ts \<and> block_ParentHash bl = bn_hash (br_head b) \<and> block_Producer bl = addr"
proof -
  let ?txs = "sortUnpackedTxs (be_tx B) (makeArena b)"
  let ?c = "if length ?txs < MaxTransactionsPerBlock then length ?txs else MaxTransactionsPerBlock"
  obtain cpy r1 where run: "produce_loop (be_tx B) h ?c ?txs (makeArena b) [] = (cpy, r1)" by fastforce
  have "br_head cpy = br_head b" using produce_loop_head [OF run] by (simp add: makeArena_def)
  then show ?thesis
    using assms unfolding produceBlock_def Let_def run
    by (auto dest!: PackAndSignBlock_keeps simp: block_Timestamp_def block_ParentHash_def block_Producer_def split: res.splits)
qed

lemma switch_nextHeight:
  assumes "replaceAndSwitchToBranch K fault bl i nb c = (c', r)"
  shows "ch_nextHeight c' = ch_nextHeight c"
proof -
  have st: "ch_nextHeight c2 = ch_nextHeight c1"
    if "chain_store fault sps (switch_callback i nb l ns ex rp) c1 = (c2, r2)" for sps l ns ex rp c1 c2 r2
    using that by (auto simp: switch_callback_def elim!: chain_store_cases split: prod.splits)
  show ?thesis
    using assms by (auto simp: replaceAndSwitchToBranch_def Let_def dest!: st split: res.splits prod.splits)
qed

lemma produceAndStoreBlock_head:
  assumes ok: "chain_ok c" "room c" and run: "produceAndStoreBlock K fault now priv c = (c', Ok b)"
  shows "chain_head c' = newBlockNode (heightOfTime c now) b (Some (chain_head c)) \<and> block_Timestamp b = now \<and>
    block_ParentHash b = bn_hash (chain_head c) \<and> block_Producer b = ch_address c \<and> ch_nextHeight c' = ch_nextHeight c"
proof -
  let ?i = "ch_headIndex c"
  obtain v br where prod: "produceBlock (ce_bp K) (ce_sign K) (ce_pub K) (heightOfTime c now) now (ch_address c) priv
      (headBranch c) = (v, Ok (br, b))"
      and sw: "replaceAndSwitchToBranch K fault b ?i br (c \<lparr> ch_branches := (ch_branches c)[?i := v] \<rparr>) = (c', Ok ())"
    using run by (auto simp: produceAndStoreBlock_def Let_def split: prod.splits res.splits)
  let ?c = "c \<lparr> ch_branches := (ch_branches c)[?i := v] \<rparr>"
  note wfh = chain_ok_branch [OF ok(1) headBranch_mem [OF ok(1)]]
  note wfp = wf_produceBlock [OF wfh(1), of "ce_bp K" "ce_sign K" "ce_pub K" "heightOfTime c now" now "ch_address c" priv,
      unfolded prod fst_conv snd_conv]
  have i: "?i < length (ch_branches c)" using ok(1) by (simp add: chain_ok_def)
  have v: "wf_branch v" "br_head v = br_head (ch_branches c ! ?i)"
    using wfp produceBlock_heads(1) [OF prod] unfolding headBranch_def by blast+
  note c = chain_ok_attempt [OF ok(1) i v]
  have br: "wf_branch br" "br_head br = newBlockNode (heightOfTime c now) b (Some (chain_head c))"
    using wfp produceBlock_heads(2) [OF prod refl] by (simp_all add: chain_head_def)
  have h: "wf_node (chain_head c)" "unat (bn_count (chain_head c)) + 2 < 2 ^ 32"
    using wfh(2) ok(2) by (simp_all add: chain_head_def room_def)
  have "wf_node (br_head br)" "bn_count (chain_head ?c) \<le> bn_count (br_head br)" "unat (bn_count (br_head br)) + 1 < 2 ^ 32"
    using wf_newBlockNode [OF h(1)] h(2) by (simp_all add: br(2) c(2) count_newBlockNode word_le_nat_alt)
  from switch_cases [OF c(1) _ br(1) this sw] i have "chain_head c' = br_head br" by simp
  then show ?thesis
    using br(2) produceBlock_block [OF prod] switch_nextHeight [OF sw] by (simp add: chain_head_def)
qed

text \<open>
  C22: a block is produced in the right period: when a turn of the main cycle gives a
  block, then it was this producer's turn at the next height, the time of the block lies
  in the period of that height, the block has the old head as its parent and the
  producer's own address, it is the new head at that height, and the next height grew
  by one.
\<close>

theorem produced_in_its_period:
  assumes "chain_ok c" and "room c" and "0 < ch_tick c" and "(int (unat (ch_nextHeight c)) + 1) * ch_period c < 2 ^ 63"
    and "mainCycle_turn K fault priv now c = (c', Ok (Some b))"
  shows "isMyTurn c = Ok True \<and> heightOfTime c (block_Timestamp b) = ch_nextHeight c \<and>
    ch_genesisTime c + int (unat (ch_nextHeight c)) * ch_period c \<le> block_Timestamp b \<and>
    block_Timestamp b < ch_genesisTime c + (int (unat (ch_nextHeight c)) + 1) * ch_period c \<and>
    block_ParentHash b = bn_hash (chain_head c) \<and> block_Producer b = ch_address c \<and>
    chain_head c' = newBlockNode (ch_nextHeight c) b (Some (chain_head c)) \<and> ch_nextHeight c' = ch_nextHeight c + 1"
proof -
  let ?t = "now + ch_offset c" and ?T = "ch_genesisTime c + int (unat (ch_nextHeight c)) * ch_period c"
  let ?d = "snd (nextTick now c)"
  have adv: "advanceNextHeight K fault priv ?t ?d c = (c', Ok (Some b))" and d: "?d \<le> 0"
    using assms(5) by (auto simp: mainCycle_turn_def nextTick_def Let_def split: prod.splits if_splits)
  obtain k c1 where turn: "isMyTurn c = Ok True" and el: "- ?d + ch_tick c \<le> ch_period c"
      and prod: "produceAndStoreBlock K fault ?t k c = (c1, Ok b)" and c': "c' = increaseNextHeight c1"
    using adv by (auto simp: advanceNextHeight_def chain_produceBlock_def Let_def not_less
        split: if_splits res.splits bool.splits option.splits prod.splits)
  have p: "0 < ch_period c" "ch_period c < 2 ^ 63"
  proof -
    show p: "0 < ch_period c" using el d assms(3) by linarith
    have "1 * ch_period c \<le> (int (unat (ch_nextHeight c)) + 1) * ch_period c" using p by (intro mult_right_mono) auto
    then show "ch_period c < 2 ^ 63" using assms(4) by linarith
  qed
  have e: "?t = ?T + - ?d" "0 \<le> - ?d" "- ?d < ch_period c"
    using d el assms(3) p by (auto simp: nextTick_def Let_def time_Sub_def max_def min_def split: if_splits)
  have "int (unat (ch_nextHeight c)) * ch_period c + - ?d < 2 ^ 63" using e(3) assms(4) by (simp add: algebra_simps)
  from heightOfTime_in_period [OF e(2,3) this] e(1) have h: "heightOfTime c ?t = ch_nextHeight c" by simp
  note b = produceAndStoreBlock_head [OF assms(1,2) prod]
  have "?T \<le> ?t" "?t < ch_genesisTime c + (int (unat (ch_nextHeight c)) + 1) * ch_period c"
    using e by (simp_all add: algebra_simps)
  moreover have "chain_head c' = chain_head c1" "ch_nextHeight c' = ch_nextHeight c1 + 1"
    by (simp_all add: c' increaseNextHeight_def chain_head_def headBranch_def)
  ultimately show ?thesis using b h turn by simp
qed

theorem produced_in_its_period_witness:
  "\<exists>b c'. mainCycle_turn example_chain_env NoFault (Some [9]) 40 (example_chain 1 example_genesis_node example_genesis_node) =
      (c', Ok (Some b)) \<and> heightOfTime (example_chain 1 example_genesis_node example_genesis_node) (block_Timestamp b) = 4"
proof -
  let ?c = "example_chain 1 example_genesis_node example_genesis_node"
  obtain b c' where t: "mainCycle_turn example_chain_env NoFault (Some [9]) 40 ?c = (c', Ok (Some b))"
    using example_turn_genesis by blast
  note ok = example_chain_ok [OF wf_example_genesis(1) hasAncestor_refl [OF wf_example_genesis(1)], of 1]
  have "room ?c" by (simp add: room_def ok(2))
  moreover have "0 < ch_tick ?c" "(int (unat (ch_nextHeight ?c)) + 1) * ch_period ?c < 2 ^ 63" "ch_nextHeight ?c = 4"
    by (simp_all add: example_chain_def)
  ultimately have "heightOfTime ?c (block_Timestamp b) = 4"
    using produced_in_its_period [OF ok(1) _ _ _ t] by simp
  with t show ?thesis by blast
qed

section \<open>Catching up\<close>

lemma sync_holes_ends:
  assumes "unat nowHeight + 1 < 2 ^ 32"
  shows "sync_holes nowHeight c = Some (c \<lparr> ch_nextHeight := max (ch_nextHeight c) (nowHeight + 1) \<rparr>)"
proof (induction "unat nowHeight + 1 - unat (ch_nextHeight c)" arbitrary: c rule: less_induct)
  case less
  have up: "unat (nowHeight + 1) = unat nowHeight + 1"
    using assms by (simp add: unat_word_ariths(1))
  show ?case
  proof (cases "ch_nextHeight c \<le> nowHeight")
    case True
    let ?c = "increaseNextHeight c"
    have n: "unat (ch_nextHeight ?c) = unat (ch_nextHeight c) + 1"
      using True assms by (simp add: increaseNextHeight_def unat_word_ariths(1) word_le_nat_alt)
    have "sync_holes nowHeight ?c = Some (?c \<lparr> ch_nextHeight := max (ch_nextHeight ?c) (nowHeight + 1) \<rparr>)"
      using n True by (intro less) (simp add: word_le_nat_alt)
    moreover have "max (ch_nextHeight ?c) (nowHeight + 1) = max (ch_nextHeight c) (nowHeight + 1)"
      using n up True by (simp add: max_def word_le_nat_alt)
    ultimately show ?thesis
      using True by (subst sync_holes.simps) (simp add: increaseNextHeight_def)
  next
    case False
    then have "max (ch_nextHeight c) (nowHeight + 1) = ch_nextHeight c"
      using up by (auto simp: max_def word_le_nat_alt intro: word_unat_eq_iff [THEN iffD2])
    then show ?thesis using False by (subst sync_holes.simps) simp
  qed
qed

lemma sync_holes_diverges: "sync_holes (- 1) c = None"
proof -
  have "n \<noteq> - 1" if "sync_holes n c = Some y" for n c y
    using that by (rule sync_holes.raw_induct [rotated]) (auto split: if_splits)
  then show ?thesis by (cases "sync_holes (- 1) c") blast+
qed

text \<open>
  at start a chain catches up with the clock and stops: when the four readings of the
  clock in two rounds of \<open>syncHeads\<close> are the same time, not before the genesis block and
  whose height is not the largest \<open>uint32\<close>, the rounds end with the next height just after the
  height of the clock, or where it was when it was ahead. At the largest height the inner loop
  never ends.
\<close>

theorem syncHeads_catches_up:
  assumes "ch_genesisTime c \<le> t" and "unat (heightOfTime c t) + 1 < 2 ^ 32"
  shows "syncHeads (t # t # t # t # ts) c = Some (c \<lparr> ch_nextHeight := max (ch_nextHeight c) (heightOfTime c t + 1) \<rparr>) \<and>
    sync_holes (- 1) c = None"
proof -
  let ?c = "c \<lparr> ch_nextHeight := max (ch_nextHeight c) (heightOfTime c t + 1) \<rparr>"
  have h: "heightOfTime ?c t = heightOfTime c t" by (simp add: heightOfTime_def)
  have up: "unat (heightOfTime c t + 1) = unat (heightOfTime c t) + 1"
    using assms(2) by (simp add: unat_word_ariths(1))
  then have gt: "ch_nextHeight ?c > heightOfTime c t" by (simp add: max_def word_le_nat_alt word_less_nat_alt)
  then have second: "syncHeads (t # t # ts) ?c = Some ?c"
    using assms(1) by (simp add: Let_def h)
  show ?thesis
  proof (cases "ch_nextHeight c > heightOfTime c t")
    case True
    then have "max (ch_nextHeight c) (heightOfTime c t + 1) = ch_nextHeight c"
      using up by (auto simp: max_def word_le_nat_alt word_less_nat_alt intro: word_unat_eq_iff [THEN iffD2])
    then show ?thesis using True assms(1) by (simp add: Let_def sync_holes_diverges)
  next
    case False
    then show ?thesis
      using assms(1) second sync_holes_ends [OF assms(2), of c] by (simp add: Let_def sync_holes_diverges)
  qed
qed

theorem syncHeads_catches_up_witness:
  "syncHeads [75, 75, 75, 75] (example_chain 1 example_second example_second) =
     Some ((example_chain 1 example_second example_second) \<lparr> ch_nextHeight := 8 \<rparr>)"
proof -
  let ?c = "example_chain 1 example_second example_second"
  have h: "heightOfTime ?c 75 = 7"
    by (simp add: heightOfTime_def example_chain_def time_Sub_def sdiv_nonneg)
  show ?thesis
    using syncHeads_catches_up [of ?c 75 "[]"] h by (simp add: example_chain_def max_def)
qed

section \<open>Blocks and transactions from outside\<close>

text \<open>What the chain shows of itself: its branches and pools, its blocks and its storage.\<close>

definition outline ::
    "Chain \<Rightarrow> (blockNode \<times> (hash, Transaction) gomap \<times> (hash, Transaction) gomap) list \<times> nat \<times> blockNode \<times>
     (hash, Transaction) gomap \<times> tables \<times> u32" where
  "outline c =
     (map (\<lambda>b. (br_head b, br_packed b, br_unpacked b)) (ch_branches c), ch_headIndex c, ch_lastIrre c,
      ch_txPool c, ch_storage c, ch_nextHeight c)"

lemma applyBlock_origin:
  "branch_applyBlock E n b = (b', r) \<Longrightarrow> br_packed b' = br_packed b \<and> br_unpacked b' = br_unpacked b"
  by (auto simp: branch_applyBlock_def share_readonly_def split: option.splits if_splits prod.splits res.splits)

lemma chain_store_Err: "chain_store fault sps cb c = (c', Err e) \<Longrightarrow> c' = c"
  by (auto elim!: chain_store_cases)

lemma switch_Err:
  assumes "replaceAndSwitchToBranch K fault bl i nb c = (c', Err e)"
  shows "outline c' = outline c"
proof -
  have st: "c2 = c1" if "chain_store fault sps (switch_callback i nb l ns ex rp) c1 = (c2, Err e')" for sps l ns ex rp c1 c2 e'
    using that by (rule chain_store_Err)
  show ?thesis
    using assms by (auto simp: replaceAndSwitchToBranch_def Let_def outline_def dest!: st split: res.splits prod.splits)
qed

lemma outline_update:
  assumes "i < length (ch_branches c)" and "br_head v = br_head (ch_branches c ! i)"
    "br_packed v = br_packed (ch_branches c ! i)" "br_unpacked v = br_unpacked (ch_branches c ! i)"
  shows "outline (c \<lparr> ch_branches := (ch_branches c)[i := v] \<rparr>) = outline c"
  using assms by (simp add: outline_def map_update) (metis (no_types, lifting) list_update_id map_update)

text \<open>
  a block that the chain rejects, whatever the reason, changes none of its branches'
  heads and pools, neither the irreversible block nor the transaction pool nor the next
  height, and nothing in the storage.
\<close>

theorem rejected_block_changes_nothing:
  assumes "pushBlock K fault b c = (c', Err e)"
  shows "outline c' = outline c"
proof -
  let ?h = "heightOfTime c (block_Timestamp b)"
  consider "c' = c"
    | i where "index_of_head (block_ParentHash b) 0 (ch_branches c) = Some i" "grow_branch K fault ?h b i c = (c', Err e)"
    | p where "fork_branch K fault ?h b p c = (c', Err e)"
    using assms by (auto simp: pushBlock_def chain_applyBlock_def Let_def split: res.splits option.splits if_splits)
  then show ?thesis
  proof cases
    case (2 i)
    let ?n = "newBlockNode ?h b (Some (br_head (ch_branches c ! i)))"
    obtain v r where app: "branch_applyBlock (ce_tx K) ?n (ch_branches c ! i) = (v, r)" by fastforce
    let ?c = "c \<lparr> ch_branches := (ch_branches c)[i := v] \<rparr>"
    from index_of_head_spec(1) [OF 2(1)] have "i < length (ch_branches c)" by simp
    from outline_update [OF this] applyBlock_heads [OF app] applyBlock_origin [OF app]
    have c: "outline ?c = outline c" by simp
    have "outline c' = outline ?c"
      using 2(2) by (auto simp: grow_branch_def Let_def app dest: switch_Err dest!: chain_store_Err split: res.splits if_splits)
    with c show ?thesis by simp
  next
    case 3
    then have "c' = c" by (auto simp: fork_branch_def dest: chain_store_Err split: res.splits)
    then show ?thesis by simp
  qed simp
qed

text \<open>A block of an unknown parent.\<close>

theorem rejected_block_changes_nothing_witness:
  "outline (fst (pushBlock example_chain_env NoFault (set_root zero_hash (example_block [] [7] 0 []))
      (example_chain 1 example_genesis_node example_genesis_node))) =
   outline (example_chain 1 example_genesis_node example_genesis_node)"
proof -
  let ?b = "set_root zero_hash (example_block [] [7] 0 [])" and ?c = "example_chain 1 example_genesis_node example_genesis_node"
  have "merkle_root T [] = zero_hash" for T by (subst merkle_root.simps) simp
  then have "block_root example_bp_env ?b = Ok zero_hash"
    by (subst block_root_Ok) (simp_all add: GetTxHashes_def set_root_def)
  then have v: "block_Verify example_bp_env ?b = Ok ()"
    by (simp add: block_Verify_def verifyMerkleRoot_def bs_verify_def verifier_res_def hsv_Verify_def hsv_VerifyHash_def
        hsv_VerifySignature_def)
      (simp add: set_root_def example_block_def example_bp_env_def example_env_def example_hsv_def hsv_VerifySignature_def)
  have "pushBlock example_chain_env NoFault ?b ?c = (?c, Err ErrParentNotFound)"
    using v by (simp add: pushBlock_def example_chain_env_def chain_applyBlock_def Let_def example_chain_def set_root_def
        example_genesis_node_def newBlockNode_def ancestor_def block_BlockHash_def block_ParentHash_def example_block_def)
  from rejected_block_changes_nothing [OF this] show ?thesis
    using \<open>pushBlock example_chain_env NoFault ?b ?c = (?c, Err ErrParentNotFound)\<close> by simp
qed





end
