(* ===== verification/Kayak_Wal.thy ===== *)
theory Kayak_Wal
  imports Hash_Proto "HOL-Library.List_Lexorder"
begin

text \<open>
  The write-ahead logs of the replication protocol: the log entries of
  \<open>kayak/types/log.go\<close>, the log in memory of \<open>kayak/wal/mem_wal.go\<close> and the log on LevelDB
  of \<open>kayak/wal/leveldb_wal.go\<close>. Both implement the Go interface \<open>kt.Wal\<close>; the locale
  \<open>log_store\<close> is what its clients rely on.
\<close>

section \<open>Log entries\<close>

datatype LogType =
  LogPrepare | LogRollback | LogCommit | LogCheckpoint | LogBarrier | LogNoop | LogOther u16

fun logType_String :: "LogType \<Rightarrow> string" where
  "logType_String LogPrepare = ''LogPrepare''"
| "logType_String LogRollback = ''LogRollback''"
| "logType_String LogCommit = ''LogCommit''"
| "logType_String LogCheckpoint = ''LogCheckpoint''"
| "logType_String LogBarrier = ''LogBarrier''"
| "logType_String LogNoop = ''LogNoop''"
| "logType_String (LogOther _) = ''Unknown''"

record LogHeader =
  lh_Index :: u64
  lh_Version :: u64
  lh_Type :: LogType
  lh_Producer :: NodeID
  lh_DataLength :: u64

record Log =
  lg_LogHeader :: LogHeader
  lg_Data :: bytes

abbreviation lg_Index :: "Log \<Rightarrow> u64" where
  "lg_Index l \<equiv> lh_Index (lg_LogHeader l)"

abbreviation lg_Type :: "Log \<Rightarrow> LogType" where
  "lg_Type l \<equiv> lh_Type (lg_LogHeader l)"

datatype wal_error =
  ErrWalClosed | ErrWalInvalidLog | ErrAlreadyExists | ErrNotExists | ErrEOF
  | ErrLevelDB | ErrWalEncode | ErrWalDecode

section \<open>The log in memory\<close>

text \<open>
  \<open>offset\<close> counts the entries, and an entry is inserted at the offset. The conversion of
  the offset to \<open>int\<close> is exact for every number of entries that fits into memory.
\<close>

record MemWal =
  mw_logs :: "Log list"
  mw_revIndex :: "(u64, nat) gomap"
  mw_offset :: u64
  mw_closed :: bool

definition NewMemWal :: MemWal where
  "NewMemWal = \<lparr> mw_logs = [], mw_revIndex = [], mw_offset = 0, mw_closed = False \<rparr>"

text \<open>Growing the slice by one, moving its tail up and storing at the offset.\<close>

definition insert_at :: "nat \<Rightarrow> 'a \<Rightarrow> 'a list \<Rightarrow> 'a list option" where
  "insert_at i x xs = (if i \<le> length xs then Some (take i xs @ x # drop i xs) else None)"

definition memWal_Write :: "Log option \<Rightarrow> MemWal \<Rightarrow> MemWal \<times> Log option \<times> (wal_error, unit) res" where
  "memWal_Write l p =
     (if mw_closed p then (p, l, Err ErrWalClosed)
      else case l of
        None \<Rightarrow> (p, l, Err ErrWalInvalidLog)
      | Some lg \<Rightarrow>
          if mget (mw_revIndex p) (lg_Index lg) \<noteq> None then (p, l, Err ErrAlreadyExists)
          else
            let offset = mw_offset p; p = p \<lparr> mw_offset := mw_offset p + 1 \<rparr> in
            case insert_at (unat offset) lg (mw_logs p) of
              None \<Rightarrow> (p, l, Panic)
            | Some logs \<Rightarrow>
                (p \<lparr> mw_logs := logs, mw_revIndex := mput (lg_Index lg) (unat offset) (mw_revIndex p) \<rparr>, l, Ok ()))"

definition memWal_Read :: "MemWal \<Rightarrow> (wal_error, Log) res" where
  "memWal_Read p = (if mw_closed p then Err ErrWalClosed else Err ErrEOF)"

definition memWal_Get :: "u64 \<Rightarrow> MemWal \<Rightarrow> (wal_error, Log) res" where
  "memWal_Get index p =
     (if mw_closed p then Err ErrWalClosed
      else case mget (mw_revIndex p) index of
        None \<Rightarrow> Err ErrNotExists
      | Some i \<Rightarrow> if i < length (mw_logs p) then Ok (mw_logs p ! i) else Panic)"

definition memWal_Close :: "MemWal \<Rightarrow> MemWal" where
  "memWal_Close p = p \<lparr> mw_closed := True \<rparr>"

section \<open>The log on LevelDB\<close>

text \<open>
  LevelDB itself is a parameter: \<open>Get\<close>, \<open>Put\<close>, and the iterator over the keys with a
  given prefix, which is the list of entries it yields and the error it ends with.
  The msgpack encodings are parameters too.
\<close>

datatype ldb_error = LErrNotFound | LErrOther

record 'db leveldb =
  ldb_Get :: "bytes \<Rightarrow> 'db \<Rightarrow> (ldb_error, bytes) res"
  ldb_Put :: "bytes \<Rightarrow> bytes \<Rightarrow> 'db \<Rightarrow> 'db \<times> ldb_error option"
  ldb_Range :: "bytes \<Rightarrow> 'db \<Rightarrow> (bytes \<times> bytes) list \<times> ldb_error option"

record wal_codec =
  enc_data :: "bytes \<Rightarrow> bytes option"
  dec_data :: "bytes \<Rightarrow> bytes option"
  enc_header :: "LogHeader \<Rightarrow> bytes option"
  dec_header :: "bytes \<Rightarrow> LogHeader option"

record 'db LevelDBWal =
  lw_db :: 'db
  lw_it :: "((bytes \<times> bytes) list \<times> ldb_error option) option"
  lw_closed :: bool
  lw_read :: bool

definition NewLevelDBWal :: "'db \<Rightarrow> 'db LevelDBWal" where
  "NewLevelDBWal db = \<lparr> lw_db = db, lw_it = None, lw_closed = False, lw_read = False \<rparr>"

definition logHeaderKeyPrefix :: bytes where
  "logHeaderKeyPrefix = [0x4C, 0x48]"

definition logDataKeyPrefix :: bytes where
  "logDataKeyPrefix = [0x4C, 0x44]"

definition wal_uint64ToBytes :: "u64 \<Rightarrow> bytes" where
  "wal_uint64ToBytes o' = PutUint 8 o'"

abbreviation headerKey :: "u64 \<Rightarrow> bytes" where
  "headerKey i \<equiv> logHeaderKeyPrefix @ wal_uint64ToBytes i"

abbreviation dataKey :: "u64 \<Rightarrow> bytes" where
  "dataKey i \<equiv> logDataKeyPrefix @ wal_uint64ToBytes i"

text \<open>\<open>Write\<close> sets the data length of the caller's entry, which is therefore returned.\<close>

definition levelDBWal_Write ::
    "'db leveldb \<Rightarrow> wal_codec \<Rightarrow> Log option \<Rightarrow> 'db LevelDBWal \<Rightarrow>
     'db LevelDBWal \<times> Log option \<times> (wal_error, unit) res" where
  "levelDBWal_Write D C l p =
     (if lw_closed p then (p, l, Err ErrWalClosed)
      else let p = p \<lparr> lw_read := True \<rparr> in
      case l of
        None \<Rightarrow> (p, l, Err ErrWalInvalidLog)
      | Some lg \<Rightarrow>
          (case ldb_Get D (headerKey (lg_Index lg)) (lw_db p) of
             Ok _ \<Rightarrow> (p, l, Err ErrAlreadyExists)
           | Panic \<Rightarrow> (p, l, Panic)
           | Err LErrOther \<Rightarrow> (p, l, Err ErrLevelDB)
           | Err LErrNotFound \<Rightarrow>
               (case enc_data C (lg_Data lg) of
                  None \<Rightarrow> (p, l, Err ErrWalEncode)
                | Some enc \<Rightarrow>
                    (case ldb_Put D (dataKey (lg_Index lg)) enc (lw_db p) of
                       (db, Some _) \<Rightarrow> (p \<lparr> lw_db := db \<rparr>, l, Err ErrLevelDB)
                     | (db, None) \<Rightarrow>
                         let p = p \<lparr> lw_db := db \<rparr>;
                             header = (lg_LogHeader lg) \<lparr> lh_DataLength := of_nat (length enc) \<rparr>;
                             l = Some (lg \<lparr> lg_LogHeader := header \<rparr>)
                         in case enc_header C header of
                              None \<Rightarrow> (p, l, Err ErrWalEncode)
                            | Some henc \<Rightarrow>
                                (case ldb_Put D (headerKey (lg_Index lg)) henc (lw_db p) of
                                   (db, Some _) \<Rightarrow> (p \<lparr> lw_db := db \<rparr>, l, Err ErrLevelDB)
                                 | (db, None) \<Rightarrow> (p \<lparr> lw_db := db \<rparr>, l, Ok ()))))))"

definition levelDBWal_load :: "'db leveldb \<Rightarrow> wal_codec \<Rightarrow> bytes \<Rightarrow> 'db LevelDBWal \<Rightarrow> (wal_error, Log) res" where
  "levelDBWal_load D C logHeader p =
     (case dec_header C logHeader of
        None \<Rightarrow> Err ErrWalDecode
      | Some header \<Rightarrow>
          (case ldb_Get D (dataKey (lh_Index header)) (lw_db p) of
             Panic \<Rightarrow> Panic
           | Err _ \<Rightarrow> Err ErrLevelDB
           | Ok encData \<Rightarrow>
               (case dec_data C encData of
                  None \<Rightarrow> Err ErrWalDecode
                | Some d \<Rightarrow> Ok \<lparr> lg_LogHeader = header, lg_Data = d \<rparr>)))"

definition levelDBWal_Get :: "'db leveldb \<Rightarrow> wal_codec \<Rightarrow> u64 \<Rightarrow> 'db LevelDBWal \<Rightarrow> (wal_error, Log) res" where
  "levelDBWal_Get D C i p =
     (if lw_closed p then Err ErrWalClosed
      else case ldb_Get D (headerKey i) (lw_db p) of
        Err LErrNotFound \<Rightarrow> Err ErrNotExists
      | Err LErrOther \<Rightarrow> Err ErrLevelDB
      | Panic \<Rightarrow> Panic
      | Ok headerData \<Rightarrow> levelDBWal_load D C headerData p)"

definition levelDBWal_Read ::
    "'db leveldb \<Rightarrow> wal_codec \<Rightarrow> 'db LevelDBWal \<Rightarrow> 'db LevelDBWal \<times> (wal_error, Log) res" where
  "levelDBWal_Read D C p =
     (if lw_closed p then (p, Err ErrWalClosed)
      else if lw_read p then (p, Err ErrEOF)
      else
        case (case lw_it p of None \<Rightarrow> ldb_Range D logHeaderKeyPrefix (lw_db p) | Some it \<Rightarrow> it) of
          ((k, v) # rest, e) \<Rightarrow>
            let p = p \<lparr> lw_it := Some (rest, e) \<rparr> in (p, levelDBWal_load D C v p)
        | ([], e) \<Rightarrow>
            (p \<lparr> lw_it := None, lw_read := True \<rparr>, Err (if e = None then ErrEOF else ErrLevelDB)))"

definition levelDBWal_Close :: "'db LevelDBWal \<Rightarrow> 'db LevelDBWal" where
  "levelDBWal_Close p = (if lw_closed p then p else p \<lparr> lw_closed := True, lw_it := None \<rparr>)"

section \<open>The contract of a write-ahead log\<close>

text \<open>
  \<open>entry\<close> is the log a client sees: a successful write adds one entry under a new index,
  a failed one adds none, and a read returns the entry. An implementation may complete
  the header of an entry (\<open>seal\<close>) but not its index, type, producer or data.
\<close>

locale log_store =
  fixes Write :: "Log option \<Rightarrow> 'w \<Rightarrow> 'w \<times> Log option \<times> (wal_error, unit) res"
    and Get :: "u64 \<Rightarrow> 'w \<Rightarrow> (wal_error, Log) res"
    and inv :: "'w \<Rightarrow> bool"
    and entry :: "'w \<Rightarrow> u64 \<Rightarrow> Log option"
    and seal :: "Log \<Rightarrow> Log"
  assumes write_inv: "inv w \<Longrightarrow> inv (fst (Write ol w))"
    and write_nil: "Write None w \<noteq> (w', l', Ok ())"
    and write_Ok: "inv w \<Longrightarrow> Write (Some l) w = (w', l', Ok ()) \<Longrightarrow>
      l' = Some (seal l) \<and> entry w (lg_Index l) = None \<and> entry w' = (entry w)(lg_Index l \<mapsto> seal l)"
    and write_fail: "inv w \<Longrightarrow> Write ol w = (w', l', r) \<Longrightarrow> r \<noteq> Ok () \<Longrightarrow> entry w' = entry w"
    and get_Ok: "inv w \<Longrightarrow> Get i w = Ok l \<Longrightarrow> entry w i = Some l"
    and get_missing: "inv w \<Longrightarrow> Get i w = Err ErrNotExists \<Longrightarrow> entry w i = None"
    and entry_index: "inv w \<Longrightarrow> entry w i = Some l \<Longrightarrow> lg_Index l = i"
    and seal_keeps: "lg_Index (seal l) = lg_Index l" "lg_Type (seal l) = lg_Type l" "lg_Data (seal l) = lg_Data l"
      "lh_Producer (lg_LogHeader (seal l)) = lh_Producer (lg_LogHeader l)"
    and seal_seal: "seal (seal l) = seal l"
begin

text \<open>Entries are never overwritten or removed.\<close>

lemma write_mono:
  assumes "inv w" and "Write l w = (w', l', r)"
  shows "inv w' \<and> entry w \<subseteq>\<^sub>m entry w'"
proof (cases "\<exists>lg. l = Some lg \<and> r = Ok ()")
  case True
  then obtain lg where "l = Some lg" "r = Ok ()" by blast
  with write_Ok [OF assms(1)] assms(2) have "entry w (lg_Index lg) = None \<and> entry w' = (entry w)(lg_Index lg \<mapsto> seal lg)"
    by blast
  then show ?thesis using write_inv [OF assms(1), of l] assms(2) by (auto simp: map_le_def)
next
  case False
  then have "r \<noteq> Ok ()" using write_nil assms(2) by (cases l) auto
  then have "entry w' = entry w" by (rule write_fail [OF assms])
  then show ?thesis using write_inv [OF assms(1), of l] assms(2) by simp
qed

end

subsection \<open>The log in memory meets it\<close>

definition memWal_inv :: "MemWal \<Rightarrow> bool" where
  "memWal_inv p \<longleftrightarrow>
     mw_offset p = of_nat (length (mw_logs p)) \<and> minv (mw_revIndex p) \<and>
     length (mw_revIndex p) = length (mw_logs p) \<and>
     (\<forall>k i. mget (mw_revIndex p) k = Some i \<longrightarrow> i < length (mw_logs p) \<and> lg_Index (mw_logs p ! i) = k)"

definition memWal_entry :: "MemWal \<Rightarrow> u64 \<Rightarrow> Log option" where
  "memWal_entry p k = map_option (\<lambda>i. mw_logs p ! i) (mget (mw_revIndex p) k)"

lemma length_mput: "minv m \<Longrightarrow> mget m k = None \<Longrightarrow> length (mput k v m) = Suc (length m)"
  by (induction m) (auto split: if_splits)

text \<open>An index that is not in the log leaves room for the offset.\<close>

lemma fresh_key_length:
  assumes "minv m" and "mget m (k :: 'a::len word) = None"
  shows "length m < 2 ^ LENGTH('a)"
proof -
  have "k \<notin> fst ` set m" using assms(2) by (simp add: map_of_eq_None_iff)
  then have "card (set (map fst m)) < card (UNIV :: 'a word set)"
    by (intro psubset_card_mono) auto
  then show ?thesis unfolding distinct_card [OF assms(1)] by (simp add: card_word)
qed

lemma memWal_Write_Ok:
  assumes "memWal_inv p" and "memWal_Write (Some l) p = (p', l', r)" and "mget (mw_revIndex p) (lg_Index l) = None"
    and "\<not> mw_closed p"
  shows "r = Ok () \<and> l' = Some l \<and> p' = p \<lparr> mw_offset := mw_offset p + 1, mw_logs := mw_logs p @ [l],
    mw_revIndex := mput (lg_Index l) (length (mw_logs p)) (mw_revIndex p) \<rparr>"
proof -
  have len: "length (mw_logs p) < 2 ^ 64"
    using fresh_key_length [OF _ assms(3)] assms(1) by (simp add: memWal_inv_def)
  then have off: "unat (mw_offset p) = length (mw_logs p)"
    using assms(1) by (simp add: memWal_inv_def unat_of_nat)
  show ?thesis
    using assms(2,3,4) by (auto simp: memWal_Write_def insert_at_def Let_def off)
qed

interpretation mem_wal: log_store memWal_Write memWal_Get memWal_inv memWal_entry id
proof unfold_locales
  fix w :: MemWal and l w' l' r
  assume inv: "memWal_inv w"
  show "memWal_inv (fst (memWal_Write ol w))" for ol
  proof (cases "\<exists>l. ol = Some l \<and> mget (mw_revIndex w) (lg_Index l) = None \<and> \<not> mw_closed w")
    case True
    then obtain l where l: "ol = Some l" "mget (mw_revIndex w) (lg_Index l) = None" "\<not> mw_closed w" by blast
    with memWal_Write_Ok [OF inv _ l(2,3)] inv show ?thesis
      by (cases "memWal_Write ol w") (auto simp: memWal_inv_def length_mput nth_append less_SucI)
  next
    case False
    then have "fst (memWal_Write ol w) = w" by (auto simp: memWal_Write_def split: option.splits)
    then show ?thesis using inv by simp
  qed
  show "l' = Some (id l) \<and> memWal_entry w (lg_Index l) = None \<and> memWal_entry w' = (memWal_entry w)(lg_Index l \<mapsto> id l)"
    if "memWal_Write (Some l) w = (w', l', Ok ())"
  proof -
    from that have fresh: "mget (mw_revIndex w) (lg_Index l) = None" "\<not> mw_closed w"
      by (auto simp: memWal_Write_def split: if_splits)
    from memWal_Write_Ok [OF inv that fresh] fresh inv show ?thesis
      by (auto simp: memWal_entry_def memWal_inv_def nth_append fun_eq_iff
          intro!: option.map_cong dest: map_of_SomeD)
  qed
  show "memWal_entry w' = memWal_entry w" if "memWal_Write ol w = (w', l', r)" "r \<noteq> Ok ()" for ol
  proof (cases "\<exists>l. ol = Some l \<and> mget (mw_revIndex w) (lg_Index l) = None \<and> \<not> mw_closed w")
    case True
    then obtain l where "ol = Some l" "mget (mw_revIndex w) (lg_Index l) = None" "\<not> mw_closed w" by blast
    with memWal_Write_Ok [OF inv] that show ?thesis by blast
  next
    case False
    with that show ?thesis by (auto simp: memWal_Write_def split: option.splits if_splits)
  qed
  show "memWal_entry w i = Some l" if "memWal_Get i w = Ok l" for i
    using that by (auto simp: memWal_Get_def memWal_entry_def split: option.splits if_splits)
  show "memWal_entry w i = None" if "memWal_Get i w = Err ErrNotExists" for i
    using that by (auto simp: memWal_Get_def memWal_entry_def split: option.splits if_splits)
  show "lg_Index l = i" if "memWal_entry w i = Some l" for i
    using that inv by (auto simp: memWal_entry_def memWal_inv_def)
qed (auto simp: memWal_Write_def)

subsection \<open>The log on LevelDB meets it\<close>

text \<open>
  What the code relies on of LevelDB: \<open>view\<close> is the stored map; a failed \<open>Put\<close> leaves it,
  and the iterator yields the entries with the prefix in the order of their keys, all of
  them when it ends without an error.
\<close>

definition kv_contract :: "'db leveldb \<Rightarrow> ('db \<Rightarrow> bool) \<Rightarrow> ('db \<Rightarrow> bytes \<Rightarrow> bytes option) \<Rightarrow> bool" where
  "kv_contract D ok view \<longleftrightarrow>
     (\<forall>db k v. ok db \<longrightarrow> ldb_Get D k db = Ok v \<longrightarrow> view db k = Some v) \<and>
     (\<forall>db k. ok db \<longrightarrow> ldb_Get D k db = Err LErrNotFound \<longrightarrow> view db k = None) \<and>
     (\<forall>db k v db' e. ok db \<longrightarrow> ldb_Put D k v db = (db', e) \<longrightarrow>
        ok db' \<and> view db' = (if e = None then (view db)(k \<mapsto> v) else view db)) \<and>
     (\<forall>db p kvs. ok db \<longrightarrow> ldb_Range D p db = (kvs, None) \<longrightarrow>
        sorted_wrt (<) (map fst kvs) \<and> set kvs = {(k, v). view db k = Some v \<and> (\<exists>s. k = p @ s)})"

lemma kv_contractD:
  assumes "kv_contract D ok view" and "ok db"
  shows "ldb_Get D k db = Ok v \<Longrightarrow> view db k = Some v"
    and "ldb_Get D k db = Err LErrNotFound \<Longrightarrow> view db k = None"
    and "ldb_Put D k v db = (db', e) \<Longrightarrow> ok db' \<and> view db' = (if e = None then (view db)(k \<mapsto> v) else view db)"
    and "ldb_Range D p db = (kvs, None) \<Longrightarrow>
      sorted_wrt (<) (map fst kvs) \<and> set kvs = {(k, v). view db k = Some v \<and> (\<exists>s. k = p @ s)}"
  using assms unfolding kv_contract_def by blast+

text \<open>A codec decodes what it encoded.\<close>

definition wal_codec_ok :: "wal_codec \<Rightarrow> bool" where
  "wal_codec_ok C \<longleftrightarrow>
     (\<forall>d e. enc_data C d = Some e \<longrightarrow> dec_data C e = Some d) \<and>
     (\<forall>h e. enc_header C h = Some e \<longrightarrow> dec_header C e = Some h)"

text \<open>An entry is its header and its data; a header is stored after its data.\<close>

definition levelDBWal_entry ::
    "wal_codec \<Rightarrow> ('db \<Rightarrow> bytes \<Rightarrow> bytes option) \<Rightarrow> 'db LevelDBWal \<Rightarrow> u64 \<Rightarrow> Log option" where
  "levelDBWal_entry C view w i =
     (case view (lw_db w) (headerKey i) of
        None \<Rightarrow> None
      | Some h \<Rightarrow>
          (case view (lw_db w) (dataKey i) of
             None \<Rightarrow> None
           | Some e \<Rightarrow>
               (case (dec_header C h, dec_data C e) of
                  (Some hdr, Some d) \<Rightarrow> Some \<lparr> lg_LogHeader = hdr, lg_Data = d \<rparr>
                | _ \<Rightarrow> None)))"

definition levelDBWal_inv ::
    "wal_codec \<Rightarrow> ('db \<Rightarrow> bool) \<Rightarrow> ('db \<Rightarrow> bytes \<Rightarrow> bytes option) \<Rightarrow> 'db LevelDBWal \<Rightarrow> bool" where
  "levelDBWal_inv C ok view w \<longleftrightarrow>
     ok (lw_db w) \<and>
     (\<forall>s. view (lw_db w) (logHeaderKeyPrefix @ s) \<noteq> None \<longrightarrow> s \<in> range wal_uint64ToBytes) \<and>
     (\<forall>i h. view (lw_db w) (headerKey i) = Some h \<longrightarrow>
        (\<exists>hdr d e. dec_header C h = Some hdr \<and> lh_Index hdr = i \<and>
           view (lw_db w) (dataKey i) = Some e \<and> dec_data C e = Some d))"

definition levelDBWal_seal :: "wal_codec \<Rightarrow> Log \<Rightarrow> Log" where
  "levelDBWal_seal C l =
     (case enc_data C (lg_Data l) of
        None \<Rightarrow> l
      | Some enc \<Rightarrow> l \<lparr> lg_LogHeader := (lg_LogHeader l) \<lparr> lh_DataLength := of_nat (length enc) \<rparr> \<rparr>)"

lemma wal_keys [simp]:
  "wal_uint64ToBytes i = wal_uint64ToBytes j \<longleftrightarrow> i = j"
  "logHeaderKeyPrefix \<noteq> logDataKeyPrefix" "logDataKeyPrefix \<noteq> logHeaderKeyPrefix"
  "logHeaderKeyPrefix @ s \<noteq> dataKey j" "dataKey j \<noteq> logHeaderKeyPrefix @ s"
proof -
  have "Uint 8 (wal_uint64ToBytes k @ []) = k" for k
    unfolding wal_uint64ToBytes_def by (rule Uint_PutUint) simp
  then show "wal_uint64ToBytes i = wal_uint64ToBytes j \<longleftrightarrow> i = j" by (metis (no_types))
qed (auto simp: logHeaderKeyPrefix_def logDataKeyPrefix_def)

text \<open>What a write on LevelDB does, by the point where it leaves.\<close>

lemma levelDBWal_Write_cases:
  assumes "kv_contract D ok view" and "wal_codec_ok C" and "ok (lw_db w)"
    and "levelDBWal_Write D C (Some l) w = (w', l', r)"
  obtains (nothing) "r \<noteq> Ok ()" "lw_db w' = lw_db w"
  | (data) e where "r \<noteq> Ok ()" "ok (lw_db w')" "view (lw_db w) (headerKey (lg_Index l)) = None"
      "view (lw_db w') = (view (lw_db w))(dataKey (lg_Index l) \<mapsto> e) \<or> view (lw_db w') = view (lw_db w)"
  | (both) e h where "r = Ok ()" "ok (lw_db w')" "view (lw_db w) (headerKey (lg_Index l)) = None"
      "l' = Some (levelDBWal_seal C l)" "dec_data C e = Some (lg_Data l)"
      "dec_header C h = Some (lg_LogHeader (levelDBWal_seal C l))"
      "view (lw_db w') = (view (lw_db w))(dataKey (lg_Index l) \<mapsto> e, headerKey (lg_Index l) \<mapsto> h)"
proof (cases "lw_closed w \<or> ldb_Get D (headerKey (lg_Index l)) (lw_db w) \<noteq> Err LErrNotFound \<or> enc_data C (lg_Data l) = None")
  case True
  then have "r \<noteq> Ok ()" "lw_db w' = lw_db w"
    using assms(4) by (auto simp: levelDBWal_Write_def Let_def split: if_splits res.splits ldb_error.splits)
  then show ?thesis by (rule nothing)
next
  case False
  then obtain e where opened: "\<not> lw_closed w" and get: "ldb_Get D (headerKey (lg_Index l)) (lw_db w) = Err LErrNotFound"
      and e: "enc_data C (lg_Data l) = Some e"
    by blast
  note none = kv_contractD(2) [OF assms(1,3) get]
  obtain db1 f1 where put1: "ldb_Put D (dataKey (lg_Index l)) e (lw_db w) = (db1, f1)" by fastforce
  note db1 = kv_contractD(3) [OF assms(1,3) put1]
  let ?hd = "(lg_LogHeader l) \<lparr> lh_DataLength := of_nat (length e) \<rparr>"
  note eqs = levelDBWal_Write_def Let_def get e put1
  show ?thesis
  proof (cases "f1 = None \<and> enc_header C ?hd \<noteq> None")
    case False
    then have "r \<noteq> Ok ()" "lw_db w' = db1"
      using assms(4) opened by (auto simp: eqs split: option.splits)
    with db1 none show ?thesis by (intro data [of e]) (auto split: if_splits)
  next
    case True
    then obtain h where h: "enc_header C ?hd = Some h" by blast
    obtain db2 f2 where put2: "ldb_Put D (headerKey (lg_Index l)) h db1 = (db2, f2)" by fastforce
    have db2: "ok db2 \<and> view db2 = (if f2 = None then (view db1)(headerKey (lg_Index l) \<mapsto> h) else view db1)"
      using kv_contractD(3) [OF assms(1) _ put2] db1 by blast
    have r: "r = (if f2 = None then Ok () else Err ErrLevelDB)" "lw_db w' = db2" "l' = Some (levelDBWal_seal C l)"
      using assms(4) opened True h
      by (auto simp: eqs put2 levelDBWal_seal_def split: option.splits)
    show ?thesis
    proof (cases f2)
      case None
      have "dec_data C e = Some (lg_Data l)" "dec_header C h = Some (lg_LogHeader (levelDBWal_seal C l))"
        using assms(2) e h by (auto simp: wal_codec_ok_def levelDBWal_seal_def)
      with r None db1 db2 none True show ?thesis by (intro both [of e h]) auto
    next
      case (Some _)
      with r db1 db2 none True show ?thesis by (intro data [of e]) auto
    qed
  qed
qed

lemma levelDBWal_inv_entry:
  assumes "levelDBWal_inv C ok view w" and "view (lw_db w) (headerKey i) = Some h"
  obtains l e where "levelDBWal_entry C view w i = Some l" "dec_header C h = Some (lg_LogHeader l)" "lg_Index l = i"
    "view (lw_db w) (dataKey i) = Some e" "dec_data C e = Some (lg_Data l)"
proof -
  from assms obtain hdr d e where "dec_header C h = Some hdr" "lh_Index hdr = i" "view (lw_db w) (dataKey i) = Some e"
      "dec_data C e = Some d" unfolding levelDBWal_inv_def by blast
  with assms(2) show thesis by (intro that [of "\<lparr> lg_LogHeader = hdr, lg_Data = d \<rparr>" e]) (auto simp: levelDBWal_entry_def)
qed

lemma levelDBWal_entry_None:
  "view (lw_db w) (headerKey i) = None \<Longrightarrow> levelDBWal_entry C view w i = None"
  by (simp add: levelDBWal_entry_def)

lemma levelDBWal_entryE:
  assumes "levelDBWal_entry C view w i = Some l"
  obtains h where "view (lw_db w) (headerKey i) = Some h"
  using assms levelDBWal_entry_None [of view w i C] by (cases "view (lw_db w) (headerKey i)") auto

lemma levelDBWal_entry_cong:
  "view (lw_db w') = view (lw_db w) \<Longrightarrow> levelDBWal_entry C view w' = levelDBWal_entry C view w"
  by (intro ext) (simp only: levelDBWal_entry_def)

lemma levelDBWal_log_store:
  assumes "kv_contract D ok view" and "wal_codec_ok C"
  shows "log_store (levelDBWal_Write D C) (levelDBWal_Get D C) (levelDBWal_inv C ok view)
    (levelDBWal_entry C view) (levelDBWal_seal C)"
proof unfold_locales
  fix w :: "'a LevelDBWal" and l w' l' r
  assume inv: "levelDBWal_inv C ok view w"
  then have db: "ok (lw_db w)" by (simp add: levelDBWal_inv_def)
  have nil: "lw_db (fst (levelDBWal_Write D C None w)) = lw_db w" by (simp add: levelDBWal_Write_def)
  show "levelDBWal_inv C ok view (fst (levelDBWal_Write D C ol w))" for ol
  proof (cases ol)
    case None
    then show ?thesis using inv nil by (simp add: levelDBWal_inv_def)
  next
    case (Some lg)
    obtain w1 l1 r1 where W: "levelDBWal_Write D C (Some lg) w = (w1, l1, r1)" by (metis prod_cases3)
    have "levelDBWal_inv C ok view w1"
    proof (cases rule: levelDBWal_Write_cases [OF assms db W, case_names nothing data both])
      case nothing
      then show ?thesis using inv by (simp add: levelDBWal_inv_def)
    next
      case (data e)
      then show ?thesis using inv by (auto simp: levelDBWal_inv_def)
    next
      case (both e h)
      have "lh_Index (lg_LogHeader (levelDBWal_seal C lg)) = lg_Index lg"
        by (simp add: levelDBWal_seal_def split: option.splits)
      then show ?thesis using inv both by (auto simp: levelDBWal_inv_def)
    qed
    then show ?thesis using W Some by simp
  qed
  show "l' = Some (levelDBWal_seal C l) \<and> levelDBWal_entry C view w (lg_Index l) = None \<and>
      levelDBWal_entry C view w' = (levelDBWal_entry C view w)(lg_Index l \<mapsto> levelDBWal_seal C l)"
    if W: "levelDBWal_Write D C (Some l) w = (w', l', Ok ())"
  proof (cases rule: levelDBWal_Write_cases [OF assms db W, case_names nothing data both])
    case (both e h)
    have "\<lparr> lg_LogHeader = lg_LogHeader (levelDBWal_seal C l), lg_Data = lg_Data l \<rparr> = levelDBWal_seal C l"
      by (simp add: levelDBWal_seal_def split: option.splits)
    then show ?thesis
      using both(1-6) by (intro conjI ext) (auto simp: levelDBWal_entry_def both(7) split: option.splits)
  qed simp_all
  show "levelDBWal_entry C view w' = levelDBWal_entry C view w" if W: "levelDBWal_Write D C ol w = (w', l', r)" "r \<noteq> Ok ()" for ol
  proof (cases ol)
    case None
    then show ?thesis using W nil by (intro levelDBWal_entry_cong) simp
  next
    case (Some lg)
    show ?thesis
    proof (cases rule: levelDBWal_Write_cases [OF assms db W(1) [unfolded Some], case_names nothing data both])
      case (data e)
      then show ?thesis
        by (elim disjE; intro ext) (auto simp: levelDBWal_entry_def split: option.splits)
    qed (use W(2) in \<open>auto intro!: levelDBWal_entry_cong\<close>)
  qed
  have load: "levelDBWal_entry C view w i = Some l"
    if "view (lw_db w) (headerKey i) = Some h" "levelDBWal_load D C h w = Ok l" for i h
  proof -
    from inv that(1) obtain hdr where hdr: "dec_header C h = Some hdr" "lh_Index hdr = i"
      unfolding levelDBWal_inv_def by blast
    with that(2) obtain e d where "ldb_Get D (dataKey i) (lw_db w) = Ok e" "dec_data C e = Some d" "l = \<lparr> lg_LogHeader = hdr, lg_Data = d \<rparr>"
      by (auto simp: levelDBWal_load_def split: res.splits option.splits)
    with kv_contractD(1) [OF assms(1) db] hdr that(1) show ?thesis by (simp add: levelDBWal_entry_def)
  qed
  show "levelDBWal_entry C view w i = Some l" if "levelDBWal_Get D C i w = Ok l" for i
    using that load kv_contractD(1) [OF assms(1) db]
    by (auto simp: levelDBWal_Get_def split: res.splits if_splits ldb_error.splits)
  show "levelDBWal_entry C view w i = None" if "levelDBWal_Get D C i w = Err ErrNotExists" for i
    using that kv_contractD(2) [OF assms(1) db]
    by (auto simp: levelDBWal_Get_def levelDBWal_load_def levelDBWal_entry_def
        split: res.splits if_splits ldb_error.splits option.splits)
  show "lg_Index l = i" if entry: "levelDBWal_entry C view w i = Some l" for i
  proof -
    from entry obtain h where "view (lw_db w) (headerKey i) = Some h" by (rule levelDBWal_entryE)
    from levelDBWal_inv_entry [OF inv this] entry show ?thesis by (metis option.inject)
  qed
qed (auto simp: levelDBWal_Write_def levelDBWal_seal_def split: option.splits)

section \<open>Reading\<close>

text \<open>Reads of LevelDB that do not fail: a lookup is the stored map, and an iterator ends.\<close>

definition kv_reads :: "'db leveldb \<Rightarrow> ('db \<Rightarrow> bool) \<Rightarrow> ('db \<Rightarrow> bytes \<Rightarrow> bytes option) \<Rightarrow> bool" where
  "kv_reads D ok view \<longleftrightarrow>
     (\<forall>db k. ok db \<longrightarrow> ldb_Get D k db = (case view db k of Some v \<Rightarrow> Ok v | None \<Rightarrow> Err LErrNotFound)) \<and>
     (\<forall>db p. ok db \<longrightarrow> snd (ldb_Range D p db) = None)"

lemma levelDBWal_load_entry:
  assumes "kv_reads D ok view" and "levelDBWal_inv C ok view w" and "view (lw_db w) (headerKey i) = Some h"
    and "lw_db w' = lw_db w"
  shows "\<exists>l. levelDBWal_load D C h w' = Ok l \<and> levelDBWal_entry C view w i = Some l"
proof -
  obtain l e where l: "levelDBWal_entry C view w i = Some l" "dec_header C h = Some (lg_LogHeader l)" "lg_Index l = i"
      "view (lw_db w) (dataKey i) = Some e" "dec_data C e = Some (lg_Data l)"
    using levelDBWal_inv_entry [OF assms(2,3)] by blast
  have "ldb_Get D (dataKey i) (lw_db w) = Ok e"
    using assms(1,2) l(4) by (simp add: kv_reads_def levelDBWal_inv_def)
  with l assms(4) show ?thesis by (simp add: levelDBWal_load_def)
qed

lemma levelDBWal_Get_entry:
  assumes "kv_reads D ok view" and "levelDBWal_inv C ok view w" and "\<not> lw_closed w"
  shows "levelDBWal_Get D C i w = (case levelDBWal_entry C view w i of None \<Rightarrow> Err ErrNotExists | Some l \<Rightarrow> Ok l)"
proof -
  have get: "ldb_Get D (headerKey i) (lw_db w) =
      (case view (lw_db w) (headerKey i) of Some v \<Rightarrow> Ok v | None \<Rightarrow> Err LErrNotFound)"
    using assms(1,2) by (simp add: kv_reads_def levelDBWal_inv_def)
  show ?thesis
  proof (cases "view (lw_db w) (headerKey i)")
    case None
    then show ?thesis using assms(3) get by (simp add: levelDBWal_Get_def levelDBWal_entry_None)
  next
    case (Some h)
    with levelDBWal_load_entry [OF assms(1,2) Some refl] assms(3) get show ?thesis
      by (auto simp: levelDBWal_Get_def)
  qed
qed

text \<open>Big-endian keys are ordered as the numbers they encode.\<close>

lemma be_nat_lex: "length xs = length ys \<Longrightarrow> xs < ys \<longleftrightarrow> be_nat xs < be_nat ys"
proof (induction xs ys rule: list_induct2)
  case Nil
  then show ?case by simp
next
  case (Cons x xs y ys)
  have less: "be_nat (a # as) < be_nat (b # bs)" if "a < b" "length as = length bs" for a b :: byte and as bs
  proof -
    have "unat a + 1 \<le> unat b" using that(1) by (simp add: word_less_nat_alt)
    then have "(unat a + 1) * 256 ^ length bs \<le> unat b * 256 ^ length bs" by (rule mult_le_mono1)
    then show ?thesis using be_nat_less [of as] that(2) by simp
  qed
  show ?case
    using Cons less [of x y xs ys] less [of y x ys xs] by (cases x y rule: linorder_cases) auto
qed

lemma be_nat_PutUint: "be_nat (PutUint n w) = unat w mod 256 ^ n"
proof (induction n)
  case 0
  then show ?case by (simp add: PutUint_def)
next
  case (Suc n)
  have "unat (ucast (drop_bit (8 * n) w) :: byte) = unat w div 256 ^ n mod 256"
    unfolding unsigned_ucast_eq unsigned_drop_bit_eq by (simp add: drop_bit_eq_div power_mult take_bit_eq_mod)
  moreover have "unat w mod (256 * 256 ^ n) = 256 ^ n * (unat w div 256 ^ n mod 256) + unat w mod 256 ^ n"
    using mod_mult2_eq [of "unat w" "256 ^ n" 256] by (simp add: mult.commute)
  ultimately show ?case by (simp add: PutUint_Suc Suc.IH mult.commute)
qed

lemma headerKey_less: "headerKey i < headerKey j \<longleftrightarrow> i < j"
proof -
  have "unat (k :: u64) < 256 ^ 8" for k using unsigned_less [of k] by simp
  then have "wal_uint64ToBytes i < wal_uint64ToBytes j \<longleftrightarrow> i < j"
    by (simp add: be_nat_lex wal_uint64ToBytes_def be_nat_PutUint word_less_nat_alt)
  then show ?thesis by (simp add: logHeaderKeyPrefix_def)
qed

text \<open>The entries that reads still have to return.\<close>

definition levelDBWal_pending ::
    "'db leveldb \<Rightarrow> wal_codec \<Rightarrow> ('db \<Rightarrow> bytes \<Rightarrow> bytes option) \<Rightarrow> 'db LevelDBWal \<Rightarrow> Log list \<Rightarrow> bool" where
  "levelDBWal_pending D C view w ls \<longleftrightarrow>
     \<not> lw_closed w \<and> \<not> lw_read w \<and>
     (case (case lw_it w of None \<Rightarrow> ldb_Range D logHeaderKeyPrefix (lw_db w) | Some it \<Rightarrow> it) of (kvs, e) \<Rightarrow>
        e = None \<and>
        list_all2 (\<lambda>(k, h) l. k = headerKey (lg_Index l) \<and> view (lw_db w) k = Some h \<and>
          levelDBWal_entry C view w (lg_Index l) = Some l) kvs ls)"

lemma levelDBWal_pending_new:
  assumes "kv_contract D ok view" and "kv_reads D ok view" and "levelDBWal_inv C ok view (NewLevelDBWal db)"
  shows "\<exists>ls. levelDBWal_pending D C view (NewLevelDBWal db) ls \<and> sorted_wrt (<) (map lg_Index ls) \<and>
    set ls = {l. \<exists>i. levelDBWal_entry C view (NewLevelDBWal db) i = Some l}"
proof -
  let ?w = "NewLevelDBWal db"
  have db: "ok db" and keys: "view db (logHeaderKeyPrefix @ s) = Some h \<Longrightarrow> \<exists>i. s = wal_uint64ToBytes i" for s h
    using assms(3) by (force simp: levelDBWal_inv_def NewLevelDBWal_def)+
  obtain kvs where range: "ldb_Range D logHeaderKeyPrefix db = (kvs, None)"
    using assms(2) db by (metis kv_reads_def prod.collapse)
  note kvs = kv_contractD(4) [OF assms(1) db range]
  have "\<forall>kh \<in> set kvs. \<exists>l. fst kh = headerKey (lg_Index l) \<and> view db (fst kh) = Some (snd kh) \<and>
      levelDBWal_entry C view ?w (lg_Index l) = Some l"
  proof
    fix kh assume "kh \<in> set kvs"
    with kvs obtain s where s: "fst kh = logHeaderKeyPrefix @ s" "view db (fst kh) = Some (snd kh)" by auto
    then obtain i where k: "fst kh = headerKey i" using keys [of s "snd kh"] by auto
    with s(2) have "view (lw_db ?w) (headerKey i) = Some (snd kh)" by (simp add: NewLevelDBWal_def)
    from levelDBWal_inv_entry [OF assms(3) this] obtain l where "levelDBWal_entry C view ?w i = Some l" "lg_Index l = i"
      by blast
    with k s(2) show "\<exists>l. fst kh = headerKey (lg_Index l) \<and> view db (fst kh) = Some (snd kh) \<and>
      levelDBWal_entry C view ?w (lg_Index l) = Some l" by blast
  qed
  then obtain f where f: "\<forall>kh \<in> set kvs. fst kh = headerKey (lg_Index (f kh)) \<and> view db (fst kh) = Some (snd kh) \<and>
      levelDBWal_entry C view ?w (lg_Index (f kh)) = Some (f kh)" by (rule bchoice [THEN exE])
  let ?ls = "map f kvs"
  have "levelDBWal_pending D C view ?w ?ls"
    using f by (simp add: levelDBWal_pending_def NewLevelDBWal_def range list_all2_conv_all_nth split_def)
      (metis nth_mem)
  moreover have "map fst kvs = map (\<lambda>l. headerKey (lg_Index l)) ?ls"
    using f by simp
  then have "sorted_wrt (<) (map (\<lambda>l. headerKey (lg_Index l)) ?ls)" using kvs by metis
  then have "sorted_wrt (\<lambda>l l'. headerKey (lg_Index l) < headerKey (lg_Index l')) ?ls" unfolding sorted_wrt_map .
  then have "sorted_wrt (<) (map lg_Index ?ls)" unfolding headerKey_less sorted_wrt_map .
  moreover have "set ?ls = {l. \<exists>i. levelDBWal_entry C view ?w i = Some l}"
  proof (intro set_eqI iffI)
    fix l assume "l \<in> {l. \<exists>i. levelDBWal_entry C view ?w i = Some l}"
    then obtain i h where i: "levelDBWal_entry C view ?w i = Some l" "view (lw_db ?w) (headerKey i) = Some h"
      using levelDBWal_entryE by blast
    have "view db (headerKey i) = Some h" using i(2) by (simp add: NewLevelDBWal_def)
    then have "(headerKey i, h) \<in> set kvs" using kvs by auto
    with f i(1) show "l \<in> set ?ls" by (force simp: image_iff)
  qed (use f in auto)
  ultimately show ?thesis by blast
qed

lemma levelDBWal_Read_next:
  assumes "kv_reads D ok view" and "levelDBWal_inv C ok view w" and "levelDBWal_pending D C view w (l # ls)"
  shows "\<exists>w'. levelDBWal_Read D C w = (w', Ok l) \<and> lw_db w' = lw_db w \<and> levelDBWal_inv C ok view w' \<and>
    levelDBWal_pending D C view w' ls"
proof -
  obtain k h kvs where it: "(case lw_it w of None \<Rightarrow> ldb_Range D logHeaderKeyPrefix (lw_db w) | Some it \<Rightarrow> it) = ((k, h) # kvs, None)"
      and k: "k = headerKey (lg_Index l)" "view (lw_db w) k = Some h" "levelDBWal_entry C view w (lg_Index l) = Some l"
      and rest: "list_all2 (\<lambda>(k, h) l. k = headerKey (lg_Index l) \<and> view (lw_db w) k = Some h \<and>
          levelDBWal_entry C view w (lg_Index l) = Some l) kvs ls"
      and flags: "\<not> lw_closed w" "\<not> lw_read w"
    using assms(3) by (auto simp: levelDBWal_pending_def list_all2_Cons2 split: prod.splits)
  let ?w = "w \<lparr> lw_it := Some (kvs, None) \<rparr>"
  have "levelDBWal_load D C h ?w = Ok l"
    using levelDBWal_load_entry [OF assms(1,2), of "lg_Index l" h ?w] k by auto
  moreover have "levelDBWal_inv C ok view ?w" using assms(2) by (simp add: levelDBWal_inv_def)
  moreover have "levelDBWal_entry C view ?w = levelDBWal_entry C view w" by (rule levelDBWal_entry_cong) simp
  then have "levelDBWal_pending D C view ?w ls" using rest flags by (simp add: levelDBWal_pending_def)
  ultimately show ?thesis using it flags by (simp add: levelDBWal_Read_def)
qed

lemma levelDBWal_Read_end:
  assumes "levelDBWal_pending D C view w []"
  shows "levelDBWal_Read D C w = (w \<lparr> lw_it := None, lw_read := True \<rparr>, Err ErrEOF)"
  using assms by (auto simp: levelDBWal_pending_def levelDBWal_Read_def split: prod.splits)

section \<open>Properties\<close>

text \<open>
  C23: a write to the LevelDB log is all or nothing for its readers: when it succeeds the
  index was free, the entry is returned under it with its data length filled in, and
  every other index is as before; when it fails, at whichever of the two \<open>Put\<close>s, every
  index is as before.
\<close>

theorem levelDBWal_write_get:
  assumes "kv_contract D ok view" and "kv_reads D ok view" and "wal_codec_ok C"
    and "levelDBWal_inv C ok view w" and "\<not> lw_closed w"
    and "levelDBWal_Write D C (Some l) w = (w', l', r)"
  shows "levelDBWal_Get D C i w' =
      (if r = Ok () \<and> i = lg_Index l then Ok (levelDBWal_seal C l) else levelDBWal_Get D C i w) \<and>
    (r = Ok () \<longrightarrow> levelDBWal_Get D C (lg_Index l) w = Err ErrNotExists) \<and> levelDBWal_inv C ok view w'"
proof -
  note st = levelDBWal_log_store [OF assms(1,3)]
  have inv: "levelDBWal_inv C ok view w'" using log_store.write_inv [OF st assms(4), of "Some l"] assms(6) by simp
  have "\<not> lw_closed w'"
    using assms(5,6)
    by (auto simp: levelDBWal_Write_def Let_def split: res.splits option.splits ldb_error.splits prod.splits)
  note get = levelDBWal_Get_entry [OF assms(2,4,5)] levelDBWal_Get_entry [OF assms(2) inv this]
  show ?thesis
  proof (cases "r = Ok ()")
    case True
    from log_store.write_Ok [OF st assms(4) assms(6) [unfolded True]] True show ?thesis by (simp add: get inv)
  next
    case False
    from log_store.write_fail [OF st assms(4,6) False] False show ?thesis by (simp add: get inv)
  qed
qed

text \<open>Successive reads.\<close>

fun levelDBWal_reads :: "'db leveldb \<Rightarrow> wal_codec \<Rightarrow> nat \<Rightarrow> 'db LevelDBWal \<Rightarrow> (wal_error, Log) res list" where
  "levelDBWal_reads D C 0 w = []"
| "levelDBWal_reads D C (Suc n) w = (case levelDBWal_Read D C w of (w', r) \<Rightarrow> r # levelDBWal_reads D C n w')"

lemma levelDBWal_reads_end: "lw_read w \<Longrightarrow> \<not> lw_closed w \<Longrightarrow> levelDBWal_reads D C n w = replicate n (Err ErrEOF)"
  by (induction n) (auto simp: levelDBWal_Read_def)

lemma levelDBWal_reads_pending:
  assumes "kv_reads D ok view" and "levelDBWal_inv C ok view w" and "levelDBWal_pending D C view w ls"
  shows "levelDBWal_reads D C (length ls + n) w = map Ok ls @ replicate n (Err ErrEOF)"
  using assms(2,3)
proof (induction ls arbitrary: w)
  case Nil
  have "\<not> lw_closed w" using Nil(2) by (simp add: levelDBWal_pending_def)
  then show ?case
    using levelDBWal_Read_end [OF Nil(2)] by (cases n) (auto simp: levelDBWal_reads_end)
next
  case (Cons l ls)
  from levelDBWal_Read_next [OF assms(1) Cons.prems] Cons.IH show ?case by auto
qed

text \<open>
  reading a reopened LevelDB log returns every entry exactly once, in the order of the
  indexes, and then the end of the log, however often it is asked.
\<close>

theorem levelDBWal_read_all:
  assumes "kv_contract D ok view" and "kv_reads D ok view" and "wal_codec_ok C"
    and "levelDBWal_inv C ok view (NewLevelDBWal db)"
  shows "\<exists>ls. (\<forall>n. levelDBWal_reads D C (length ls + n) (NewLevelDBWal db) = map Ok ls @ replicate n (Err ErrEOF)) \<and>
    sorted_wrt (<) (map lg_Index ls) \<and> (\<forall>i l. levelDBWal_Get D C i (NewLevelDBWal db) = Ok l \<longleftrightarrow> l \<in> set ls \<and> lg_Index l = i)"
proof -
  let ?w = "NewLevelDBWal db"
  obtain ls where ls: "levelDBWal_pending D C view ?w ls" "sorted_wrt (<) (map lg_Index ls)"
      "set ls = {l. \<exists>i. levelDBWal_entry C view ?w i = Some l}"
    using levelDBWal_pending_new [OF assms(1,2,4)] by blast
  note index = log_store.entry_index [OF levelDBWal_log_store [OF assms(1,3)] assms(4)]
  have "levelDBWal_Get D C i ?w = Ok l \<longleftrightarrow> levelDBWal_entry C view ?w i = Some l" for i l
    by (subst levelDBWal_Get_entry [OF assms(2,4)]) (auto simp: NewLevelDBWal_def split: option.splits)
  then show ?thesis
    using ls(2,3) index levelDBWal_reads_pending [OF assms(2,4) ls(1)] by (intro exI [of _ ls]) auto
qed

section \<open>A store in memory\<close>

text \<open>A sorted association list meets the contract of LevelDB, and bytes can be encoded.\<close>

fun kv_put :: "bytes \<Rightarrow> bytes \<Rightarrow> (bytes \<times> bytes) list \<Rightarrow> (bytes \<times> bytes) list" where
  "kv_put k v [] = [(k, v)]"
| "kv_put k v ((k', v') # m) =
     (if k < k' then (k, v) # (k', v') # m else if k = k' then (k, v) # m else (k', v') # kv_put k v m)"

definition example_leveldb :: "(bytes \<times> bytes) list leveldb" where
  "example_leveldb =
     \<lparr> ldb_Get = (\<lambda>k db. case map_of db k of Some v \<Rightarrow> Ok v | None \<Rightarrow> Err LErrNotFound),
       ldb_Put = (\<lambda>k v db. (kv_put k v db, None)),
       ldb_Range = (\<lambda>p db. (filter (\<lambda>(k, v). take (length p) k = p) db, None)) \<rparr>"

abbreviation kv_sorted :: "(bytes \<times> bytes) list \<Rightarrow> bool" where
  "kv_sorted db \<equiv> sorted_wrt (<) (map fst db)"

lemma map_of_kv_put: "map_of (kv_put k v db) = (map_of db)(k \<mapsto> v)"
  by (induction db) (auto simp: fun_eq_iff)

lemma set_kv_put: "fst ` set (kv_put k v db) = insert k (fst ` set db)"
  by (simp add: dom_map_of_conv_image_fst [symmetric] map_of_kv_put)

lemma kv_sorted_put: "kv_sorted db \<Longrightarrow> kv_sorted (kv_put k v db)"
proof (induction db)
  case (Cons kv db)
  then show ?case by (cases kv) (auto simp: set_kv_put dest: less_trans)
qed simp

lemma kv_sorted_distinct: "kv_sorted db \<Longrightarrow> distinct (map fst db)"
  by (simp add: strict_sorted_iff sorted_wrt_iff_nth_less distinct_conv_nth) (metis linorder_neqE_nat order_less_irrefl)

lemma example_kv_contract: "kv_contract example_leveldb kv_sorted map_of"
proof -
  have range: "sorted_wrt (<) (map fst (filter P db))" if "kv_sorted db" for P and db :: "(bytes \<times> bytes) list"
    using that by (induction db) auto
  have prefix: "take (length p) k = p \<longleftrightarrow> (\<exists>s. k = p @ s)" for p k :: bytes
    by (metis append_eq_conv_conj append_take_drop_id)
  have mem: "map_of db k = Some v \<longleftrightarrow> (k, v) \<in> set db" if "kv_sorted db" for db k v
    using kv_sorted_distinct [OF that] by simp
  show ?thesis
    unfolding kv_contract_def example_leveldb_def
    using range by (auto simp: kv_sorted_put map_of_kv_put prefix mem split: option.splits)
qed

lemma example_kv_reads: "kv_reads example_leveldb kv_sorted map_of"
  by (simp add: kv_reads_def example_leveldb_def)

fun type_bytes :: "LogType \<Rightarrow> bytes" where
  "type_bytes LogPrepare = [0, 0, 0]"
| "type_bytes LogRollback = [1, 0, 0]"
| "type_bytes LogCommit = [2, 0, 0]"
| "type_bytes LogCheckpoint = [3, 0, 0]"
| "type_bytes LogBarrier = [4, 0, 0]"
| "type_bytes LogNoop = [5, 0, 0]"
| "type_bytes (LogOther n) = 6 # PutUint 2 n"

definition type_of_bytes :: "bytes \<Rightarrow> LogType" where
  "type_of_bytes b =
     (if b ! 0 = 0 then LogPrepare else if b ! 0 = 1 then LogRollback else if b ! 0 = 2 then LogCommit
      else if b ! 0 = 3 then LogCheckpoint else if b ! 0 = 4 then LogBarrier else if b ! 0 = 5 then LogNoop
      else LogOther (Uint 2 (drop 1 b)))"

definition example_wal_codec :: wal_codec where
  "example_wal_codec =
     \<lparr> enc_data = Some, dec_data = Some,
       enc_header = (\<lambda>h. Some (PutUint 8 (lh_Index h) @ PutUint 8 (lh_Version h) @ PutUint 8 (lh_DataLength h) @
         type_bytes (lh_Type h) @ string_bytes (lh_Producer h))),
       dec_header = (\<lambda>b. Some \<lparr> lh_Index = Uint 8 b, lh_Version = Uint 8 (drop 8 b),
         lh_Type = type_of_bytes (drop 24 b), lh_Producer = map (\<lambda>x. char_of (unat x)) (drop 27 b),
         lh_DataLength = Uint 8 (drop 16 b) \<rparr>) \<rparr>"

lemma type_of_type_bytes: "type_of_bytes (type_bytes t @ rest) = t"
  by (cases t) (simp_all add: type_of_bytes_def Uint_PutUint)

lemma length_type_bytes [simp]: "length (type_bytes t) = 3"
  by (cases t) simp_all

lemma string_of_string_bytes: "map (\<lambda>x. char_of (unat x)) (string_bytes s) = s"
proof -
  have "char_of (unat (of_nat (of_char c) :: byte)) = c" for c :: char
    by (simp add: unat_of_nat)
  then show ?thesis by (simp add: string_bytes_def comp_def)
qed

lemma example_wal_codec_ok: "wal_codec_ok example_wal_codec"
  by (simp add: wal_codec_ok_def example_wal_codec_def Uint_PutUint type_of_type_bytes string_of_string_bytes)

definition example_log :: "u64 \<Rightarrow> LogType \<Rightarrow> bytes \<Rightarrow> Log" where
  "example_log i t d =
     \<lparr> lg_LogHeader = \<lparr> lh_Index = i, lh_Version = 0, lh_Type = t, lh_Producer = ''a'', lh_DataLength = 0 \<rparr>, lg_Data = d \<rparr>"

lemma levelDBWal_inv_empty: "levelDBWal_inv C kv_sorted map_of (NewLevelDBWal [])"
  by (simp add: levelDBWal_inv_def NewLevelDBWal_def)

lemma example_write:
  "levelDBWal_Write example_leveldb example_wal_codec (Some (example_log 7 LogPrepare [1, 2])) (NewLevelDBWal []) =
     (w', l', r) \<Longrightarrow> r = Ok ()"
  by (auto simp: levelDBWal_Write_def NewLevelDBWal_def example_leveldb_def example_wal_codec_def Let_def)

theorem levelDBWal_write_get_witness:
  "\<exists>w'. levelDBWal_Get example_leveldb example_wal_codec 7 w' =
     Ok (levelDBWal_seal example_wal_codec (example_log 7 LogPrepare [1, 2])) \<and>
     levelDBWal_Get example_leveldb example_wal_codec 8 w' = Err ErrNotExists"
proof -
  let ?l = "example_log 7 LogPrepare [1, 2]" and ?w = "NewLevelDBWal ([] :: (bytes \<times> bytes) list)"
  obtain w' l' r where W: "levelDBWal_Write example_leveldb example_wal_codec (Some ?l) ?w = (w', l', r)"
    by (metis prod_cases3)
  have r: "r = Ok ()" by (rule example_write [OF W])
  have o: "\<not> lw_closed ?w" by (simp add: NewLevelDBWal_def)
  note get = levelDBWal_write_get [OF example_kv_contract example_kv_reads example_wal_codec_ok levelDBWal_inv_empty o W]
  have "levelDBWal_Get example_leveldb example_wal_codec 8 ?w = Err ErrNotExists"
    by (simp add: levelDBWal_Get_def NewLevelDBWal_def example_leveldb_def)
  with get [of 7] get [of 8] r show ?thesis by (intro exI [of _ w']) (simp add: example_log_def)
qed

theorem levelDBWal_read_all_witness:
  "\<exists>db l. levelDBWal_Get example_leveldb example_wal_codec 7 (NewLevelDBWal db) = Ok l \<and>
     (\<exists>ls. l \<in> set ls \<and> levelDBWal_reads example_leveldb example_wal_codec (length ls + 2) (NewLevelDBWal db) =
        map Ok ls @ [Err ErrEOF, Err ErrEOF])"
proof -
  let ?l = "example_log 7 LogPrepare [1, 2]" and ?w = "NewLevelDBWal ([] :: (bytes \<times> bytes) list)"
    and ?D = example_leveldb and ?C = example_wal_codec
  obtain w' l' r where W: "levelDBWal_Write ?D ?C (Some ?l) ?w = (w', l', r)"
    by (metis prod_cases3)
  note st = levelDBWal_log_store [OF example_kv_contract example_wal_codec_ok]
  have r: "r = Ok ()" by (rule example_write [OF W])
  let ?n = "NewLevelDBWal (lw_db w')"
  have inv: "levelDBWal_inv ?C kv_sorted map_of ?n"
    using log_store.write_inv [OF st levelDBWal_inv_empty, of "Some ?l"] W
    by (simp add: levelDBWal_inv_def NewLevelDBWal_def)
  have "levelDBWal_entry ?C map_of ?n 7 = Some (levelDBWal_seal ?C ?l)"
    using log_store.write_Ok [OF st levelDBWal_inv_empty W [unfolded r]]
      levelDBWal_entry_cong [where view = map_of and w' = ?n and w = w' and C = ?C]
    by (simp add: NewLevelDBWal_def example_log_def)
  then have get: "levelDBWal_Get ?D ?C 7 ?n = Ok (levelDBWal_seal ?C ?l)"
    by (subst levelDBWal_Get_entry [OF example_kv_reads inv]) (auto simp: NewLevelDBWal_def)
  from levelDBWal_read_all [OF example_kv_contract example_kv_reads example_wal_codec_ok inv] get obtain ls where
      "levelDBWal_seal ?C ?l \<in> set ls" "\<forall>n. levelDBWal_reads ?D ?C (length ls + n) ?n = map Ok ls @ replicate n (Err ErrEOF)"
    by blast
  moreover have "replicate 2 (Err ErrEOF :: (wal_error, Log) res) = [Err ErrEOF, Err ErrEOF]" by (simp add: numeral_2_eq_2)
  ultimately have "levelDBWal_seal ?C ?l \<in> set ls \<and>
      levelDBWal_reads ?D ?C (length ls + 2) ?n = map Ok ls @ [Err ErrEOF, Err ErrEOF]" by metis
  with get show ?thesis by blast
qed
end
