(* ===== verification/Nodes.thy ===== *)
theory Nodes
  imports Verifier
begin

text \<open>
  Nodes and their proof of work: the 256-bit counter and the miner of
  \<open>pow/cpuminer\<close>, the node records and roles of \<open>proto/nodeinfo.go\<close>, and the check
  of a node id against its public key and nonce in \<open>crypto/kms/pubkeystore.go\<close>. The
  two-round hash \<open>THashH\<close> is a parameter.
\<close>

section \<open>The 256-bit counter\<close>

record Uint256 =
  ui_A :: u64
  ui_B :: u64
  ui_C :: u64
  ui_D :: u64

definition uint256_zero :: Uint256 where
  "uint256_zero = \<lparr> ui_A = 0, ui_B = 0, ui_C = 0, ui_D = 0 \<rparr>"

definition uint256_Inc :: "Uint256 \<Rightarrow> Uint256" where
  "uint256_Inc i =
     (let i = i \<lparr> ui_A := ui_A i + 1 \<rparr> in
      if ui_A i = 0 then
        (let i = i \<lparr> ui_B := ui_B i + 1 \<rparr> in
         if ui_B i = 0 then
           (let i = i \<lparr> ui_C := ui_C i + 1 \<rparr> in
            if ui_C i = 0 then i \<lparr> ui_D := ui_D i + 1 \<rparr> else i)
         else i)
      else i)"

text \<open>The fields are written in their order, each one big-endian.\<close>

definition uint256_Bytes :: "Uint256 \<Rightarrow> bytes" where
  "uint256_Bytes i = PutUint 8 (ui_A i) @ PutUint 8 (ui_B i) @ PutUint 8 (ui_C i) @ PutUint 8 (ui_D i)"

datatype uint256_error = ErrBytesLen

definition Uint256FromBytes :: "bytes \<Rightarrow> (uint256_error, Uint256) res" where
  "Uint256FromBytes b =
     (if length b \<noteq> 32 then Err ErrBytesLen
      else Ok \<lparr> ui_A = Uint 8 b, ui_B = Uint 8 (drop 8 b), ui_C = Uint 8 (drop 16 b), ui_D = Uint 8 (drop 24 b) \<rparr>)"

section \<open>The miner\<close>

record NonceInfo =
  ni_Nonce :: Uint256
  ni_Difficulty :: int
  ni_Hash :: hash

definition HashBlock :: "(bytes \<Rightarrow> hash) \<Rightarrow> bytes \<Rightarrow> Uint256 \<Rightarrow> hash" where
  "HashBlock thash d nonce = thash (d @ uint256_Bytes nonce)"

datatype mine_error = ErrMiningStopped | ErrMinerInterrupted

text \<open>What the select statement finds in a turn of the loop.\<close>

datatype mine_signal = NoSignal | StopSignal | QuitSignal

definition setBytes_or_keep :: "hash \<Rightarrow> hash \<Rightarrow> hash" where
  "setBytes_or_keep old h = (case hash_SetBytes old h of Ok h' \<Rightarrow> h' | _ \<Rightarrow> old)"

definition set_nonce :: "Uint256 \<Rightarrow> hash \<Rightarrow> NonceInfo \<Rightarrow> NonceInfo" where
  "set_nonce i h b =
     b \<lparr> ni_Difficulty := hash_Difficulty (Some h), ni_Nonce := i, ni_Hash := setBytes_or_keep (ni_Hash b) h \<rparr>"

text \<open>
  The nonce sent to the channel and the error that is returned; \<open>signals k\<close> is what the
  select statement finds in turn \<open>k\<close>. The search may run forever.
\<close>

partial_function (option) mine_loop ::
    "(bytes \<Rightarrow> hash) \<Rightarrow> bytes \<Rightarrow> int \<Rightarrow> (nat \<Rightarrow> mine_signal) \<Rightarrow> nat \<Rightarrow> Uint256 \<Rightarrow> NonceInfo \<Rightarrow>
     (NonceInfo \<times> (mine_error, unit) res) option" where
  "mine_loop thash d difficulty signals k i bestNonce =
     (case signals k of
        StopSignal \<Rightarrow> Some (bestNonce, Err ErrMiningStopped)
      | QuitSignal \<Rightarrow> Some (bestNonce, Err ErrMinerInterrupted)
      | NoSignal \<Rightarrow>
          if hash_Difficulty (Some (HashBlock thash d i)) \<ge> difficulty
          then Some (set_nonce i (HashBlock thash d i) bestNonce, Ok ())
          else mine_loop thash d difficulty signals (Suc k) (uint256_Inc i)
                 (if hash_Difficulty (Some (HashBlock thash d i)) > ni_Difficulty bestNonce
                  then set_nonce i (HashBlock thash d i) bestNonce else bestNonce))"

definition ComputeBlockNonce ::
    "(bytes \<Rightarrow> hash) \<Rightarrow> bytes \<Rightarrow> (nat \<Rightarrow> mine_signal) \<Rightarrow> Uint256 \<Rightarrow> int \<Rightarrow>
     (NonceInfo \<times> (mine_error, unit) res) option" where
  "ComputeBlockNonce thash d signals startNonce difficulty =
     mine_loop thash d difficulty signals 0 startNonce
       \<lparr> ni_Nonce = uint256_zero, ni_Difficulty = 0, ni_Hash = zero_hash \<rparr>"

section \<open>Nodes and roles\<close>

datatype ServerRole = UnknownRole | Leader | Follower | Miner | Client

fun serverRole_String :: "ServerRole \<Rightarrow> string" where
  "serverRole_String Leader = ''Leader''"
| "serverRole_String Follower = ''Follower''"
| "serverRole_String Miner = ''Miner''"
| "serverRole_String Client = ''Client''"
| "serverRole_String UnknownRole = ''Unknown''"

definition char_ToLower :: "char \<Rightarrow> char" where
  "char_ToLower c = (if 65 \<le> (of_char c :: nat) \<and> (of_char c :: nat) \<le> 90 then char_of ((of_char c :: nat) + 32) else c)"

definition parseServerRole :: "string \<Rightarrow> ServerRole" where
  "parseServerRole roleStr =
     (let s = map char_ToLower roleStr in
      if s = ''leader'' then Leader else if s = ''follower'' then Follower
      else if s = ''miner'' then Miner else if s = ''client'' then Client else UnknownRole)"

definition serverRoles_Contains :: "ServerRole list \<Rightarrow> ServerRole \<Rightarrow> bool" where
  "serverRoles_Contains ss role = list_ex (\<lambda>s. s = role) ss"

record Node =
  nd_ID :: NodeID
  nd_Role :: ServerRole
  nd_Addr :: string
  nd_DirectAddr :: string
  nd_PublicKey :: "PublicKey option"
  nd_Nonce :: Uint256

text \<open>\<open>IsIDPubNonceValid\<close>; \<open>serialize\<close> is the encoding of a public key.\<close>

definition IsIDPubNonceValid ::
    "(bytes \<Rightarrow> hash) \<Rightarrow> (PublicKey \<Rightarrow> bytes) \<Rightarrow> hash option \<Rightarrow> Uint256 option \<Rightarrow> PublicKey option \<Rightarrow> bool" where
  "IsIDPubNonceValid thash serialize rid nonce key =
     (case (key, rid, nonce) of
        (Some k, Some i, Some n) \<Rightarrow> HashBlock thash (serialize k) n = i
      | _ \<Rightarrow> False)"

section \<open>The counter counts\<close>

definition uint256_value :: "Uint256 \<Rightarrow> nat" where
  "uint256_value i = unat (ui_A i) + 2 ^ 64 * (unat (ui_B i) + 2 ^ 64 * (unat (ui_C i) + 2 ^ 64 * unat (ui_D i)))"

lemma unat_inc: "unat (x + 1 :: u64) = (if x + 1 = 0 then 0 else unat x + 1)"
  by (simp add: unatSuc add.commute)

lemma u64_le: "unat (x :: u64) \<le> 2 ^ 64 - 1"
proof -
  have "unat x < 2 ^ 64" using unsigned_less [of x] by simp
  then show ?thesis by simp
qed

lemma unat_wraps: "x + 1 = (0 :: u64) \<Longrightarrow> unat x = 2 ^ 64 - 1"
proof -
  assume "x + 1 = (0 :: u64)"
  then have "(of_nat (unat x + 1) :: u64) = 0" by (simp add: add.commute)
  then have "2 ^ 64 dvd unat x + 1" by (simp only: word_of_nat_eq_0_iff) simp
  then have "2 ^ 64 \<le> unat x + 1" by (rule dvd_imp_le) simp
  then show ?thesis using u64_le [of x] by simp
qed

lemma uint256_value_less: "uint256_value i < 2 ^ 256"
proof -
  note u64_le [of "ui_A i"] u64_le [of "ui_B i"] u64_le [of "ui_C i"] u64_le [of "ui_D i"]
  then show ?thesis by (simp add: uint256_value_def)
qed

lemma uint256_Inc_value: "uint256_value (uint256_Inc i) = (uint256_value i + 1) mod 2 ^ 256"
proof -
  note lt = u64_le
  note b = lt [of "ui_A i"] lt [of "ui_B i"] lt [of "ui_C i"] lt [of "ui_D i"]
  consider (a) "ui_A i + 1 \<noteq> 0" | (b) "ui_A i + 1 = 0" "ui_B i + 1 \<noteq> 0" | (c) "ui_A i + 1 = 0" "ui_B i + 1 = 0" "ui_C i + 1 \<noteq> 0"
    | (d) "ui_A i + 1 = 0" "ui_B i + 1 = 0" "ui_C i + 1 = 0" by blast
  then show ?thesis
  proof cases
    case a
    then have "unat (ui_A i) + 1 < 2 ^ 64" using unat_inc [of "ui_A i"] lt [of "ui_A i + 1"] by simp
    with b show ?thesis by (simp add: uint256_Inc_def uint256_value_def Let_def unat_inc a)
  next
    case b': b
    then have "unat (ui_B i) + 1 < 2 ^ 64" using unat_inc [of "ui_B i"] lt [of "ui_B i + 1"] by simp
    with b b' show ?thesis by (simp add: uint256_Inc_def uint256_value_def Let_def unat_inc unat_wraps)
  next
    case c
    then have "unat (ui_C i) + 1 < 2 ^ 64" using unat_inc [of "ui_C i"] lt [of "ui_C i + 1"] by simp
    with b c show ?thesis by (simp add: uint256_Inc_def uint256_value_def Let_def unat_inc unat_wraps)
  next
    case d
    show ?thesis
    proof (cases "ui_D i + 1 = 0")
      case True
      with d show ?thesis by (simp add: uint256_Inc_def uint256_value_def Let_def unat_wraps)
    next
      case False
      then have "unat (ui_D i) + 1 < 2 ^ 64" using unat_inc [of "ui_D i"] lt [of "ui_D i + 1"] by simp
      with b d False show ?thesis by (simp add: uint256_Inc_def uint256_value_def Let_def unat_inc unat_wraps)
    qed
  qed
qed

lemma uint256_Bytes_FromBytes: "Uint256FromBytes (uint256_Bytes i) = Ok i" "length (uint256_Bytes i) = 32"
proof -
  have U: "Uint 8 (PutUint 8 x @ rest) = x" for x :: u64 and rest by (rule Uint_PutUint) simp
  have "Uint 8 (PutUint 8 x) = x" for x :: u64 using U [of x "[]"] by simp
  then show "Uint256FromBytes (uint256_Bytes i) = Ok i" "length (uint256_Bytes i) = 32"
    by (simp_all add: Uint256FromBytes_def uint256_Bytes_def U)
qed

section \<open>The search\<close>

definition inc_by :: "nat \<Rightarrow> Uint256 \<Rightarrow> Uint256" where
  "inc_by n i = (uint256_Inc ^^ n) i"

definition nonce_difficulty :: "(bytes \<Rightarrow> hash) \<Rightarrow> bytes \<Rightarrow> Uint256 \<Rightarrow> int" where
  "nonce_difficulty thash d i = hash_Difficulty (Some (HashBlock thash d i))"

lemma inc_by_Suc: "inc_by (Suc n) i = inc_by n (uint256_Inc i)"
  by (simp add: inc_by_def funpow_swap1)

lemma inc_by_value: "uint256_value (inc_by n i) = (uint256_value i + n) mod 2 ^ 256"
proof (induction n)
  case 0
  then show ?case using uint256_value_less [of i] by (simp add: inc_by_def)
next
  case (Suc n)
  have "uint256_value (inc_by (Suc n) i) = (uint256_value (inc_by n i) + 1) mod 2 ^ 256"
    by (simp add: inc_by_def uint256_Inc_value del: power_numeral)
  then show ?case by (simp only: Suc mod_add_left_eq) (simp add: ac_simps)
qed

text \<open>
  The best nonce so far: the first of the hardest among those tried, or still the zero value
  when the hash of none of them had any difficulty.
\<close>

definition zero_info :: NonceInfo where
  "zero_info = \<lparr> ni_Nonce = uint256_zero, ni_Difficulty = 0, ni_Hash = zero_hash \<rparr>"

definition best_of :: "(bytes \<Rightarrow> hash) \<Rightarrow> bytes \<Rightarrow> Uint256 \<Rightarrow> nat \<Rightarrow> NonceInfo \<Rightarrow> bool" where
  "best_of thash d s k b \<longleftrightarrow>
     is_hash (ni_Hash b) \<and>
     (\<forall>j < k. nonce_difficulty thash d (inc_by j s) \<le> ni_Difficulty b) \<and>
     (b = zero_info \<or>
       (\<exists>j < k. ni_Nonce b = inc_by j s \<and> ni_Difficulty b = nonce_difficulty thash d (inc_by j s) \<and>
          ni_Hash b = HashBlock thash d (inc_by j s) \<and> 0 < ni_Difficulty b \<and>
          (\<forall>i < j. nonce_difficulty thash d (inc_by i s) < ni_Difficulty b)))"

lemma best_of_step:
  assumes "best_of thash d s k b" and "\<And>x. is_hash (thash x)"
  shows "best_of thash d s (Suc k)
    (if nonce_difficulty thash d (inc_by k s) > ni_Difficulty b then set_nonce (inc_by k s) (HashBlock thash d (inc_by k s)) b else b)"
proof (cases "nonce_difficulty thash d (inc_by k s) > ni_Difficulty b")
  case True
  have "is_hash (HashBlock thash d i)" for i by (simp add: HashBlock_def assms(2))
  then have set: "ni_Nonce (set_nonce (inc_by k s) (HashBlock thash d (inc_by k s)) b) = inc_by k s"
      "ni_Hash (set_nonce (inc_by k s) (HashBlock thash d (inc_by k s)) b) = HashBlock thash d (inc_by k s)"
      "ni_Difficulty (set_nonce (inc_by k s) (HashBlock thash d (inc_by k s)) b) = nonce_difficulty thash d (inc_by k s)"
      "is_hash (HashBlock thash d (inc_by k s))"
    by (simp_all add: set_nonce_def setBytes_or_keep_def hash_SetBytes_def is_hash_def nonce_difficulty_def)
  have all: "\<forall>j < k. nonce_difficulty thash d (inc_by j s) \<le> ni_Difficulty b" using assms(1) by (simp add: best_of_def)
  have "0 \<le> ni_Difficulty b" using assms(1) by (auto simp: best_of_def zero_info_def)
  with True all show ?thesis unfolding best_of_def if_P [OF True] set
    by (intro conjI disjI2 exI [of _ k]) (force simp: less_Suc_eq set(4))+
next
  case False
  then show ?thesis using assms(1) less_SucI by (auto simp: best_of_def less_Suc_eq)
qed

lemma mine_loop_runs:
  assumes "\<And>x. is_hash (thash x)" and "best_of thash d s k b"
    and "\<forall>j. k \<le> j \<and> j < k + n \<longrightarrow> signals j = NoSignal \<and> nonce_difficulty thash d (inc_by j s) < difficulty"
  shows "\<exists>b'. best_of thash d s (k + n) b' \<and>
    mine_loop thash d difficulty signals k (inc_by k s) b = mine_loop thash d difficulty signals (k + n) (inc_by (k + n) s) b'"
  using assms(2,3)
proof (induction n arbitrary: k b)
  case (Suc n)
  let ?b = "if nonce_difficulty thash d (inc_by k s) > ni_Difficulty b then set_nonce (inc_by k s) (HashBlock thash d (inc_by k s)) b else b"
  from Suc.prems(2) have k: "signals k = NoSignal" "nonce_difficulty thash d (inc_by k s) < difficulty" by auto
  have "inc_by (Suc k) s = uint256_Inc (inc_by k s)" by (simp add: inc_by_def)
  then have "mine_loop thash d difficulty signals k (inc_by k s) b = mine_loop thash d difficulty signals (Suc k) (inc_by (Suc k) s) ?b"
    using k by (subst mine_loop.simps) (auto simp: nonce_difficulty_def)
  moreover have "\<exists>b'. best_of thash d s (Suc k + n) b' \<and>
      mine_loop thash d difficulty signals (Suc k) (inc_by (Suc k) s) ?b = mine_loop thash d difficulty signals (Suc k + n) (inc_by (Suc k + n) s) b'"
    by (rule Suc.IH [OF best_of_step [OF Suc.prems(1) assms(1)]]) (use Suc.prems(2) in auto)
  ultimately show ?case by simp
qed auto

text \<open>
  C26: Mining returns as soon as a nonce is hard enough or a signal arrives, whichever is
  first. Without a signal the nonce is the first one, counting up from the start value,
  whose hash has the wanted difficulty; with a signal it is the first of the hardest among
  the nonces tried until then, or the zero value when none was tried or the hash of none of
  them had any difficulty. The hash function is any that returns 32 bytes, and a receiver
  takes the result from the channel.
\<close>

theorem miner_returns_first_nonce:
  assumes "\<And>x. is_hash (thash x)" and "\<exists>n. signals n \<noteq> NoSignal \<or> nonce_difficulty thash d (inc_by n s) \<ge> difficulty"
  shows "\<exists>info r n. ComputeBlockNonce thash d signals s difficulty = Some (info, r) \<and>
    (\<forall>j < n. signals j = NoSignal \<and> nonce_difficulty thash d (inc_by j s) < difficulty) \<and>
    (if r = Ok () then signals n = NoSignal \<and> ni_Nonce info = inc_by n s \<and> ni_Hash info = HashBlock thash d (inc_by n s) \<and>
         ni_Difficulty info = nonce_difficulty thash d (inc_by n s) \<and> ni_Difficulty info \<ge> difficulty
     else signals n \<noteq> NoSignal \<and> best_of thash d s n info)"
proof -
  let ?P = "\<lambda>n. signals n \<noteq> NoSignal \<or> nonce_difficulty thash d (inc_by n s) \<ge> difficulty"
  define n where "n = (LEAST n. ?P n)"
  have n: "?P n" unfolding n_def by (rule LeastI_ex) (rule assms(2))
  have before: "signals j = NoSignal \<and> nonce_difficulty thash d (inc_by j s) < difficulty" if "j < n" for j
    using not_less_Least [of j ?P] that unfolding n_def by auto
  have "best_of thash d s 0 zero_info" by (simp add: best_of_def zero_info_def is_hash_def zero_hash_def)
  from mine_loop_runs [OF assms(1) this, of n signals difficulty] before obtain b where
    b: "best_of thash d s n b" "ComputeBlockNonce thash d signals s difficulty = mine_loop thash d difficulty signals n (inc_by n s) b"
    by (auto simp: ComputeBlockNonce_def inc_by_def zero_info_def)
  have h: "is_hash (HashBlock thash d (inc_by n s))" by (simp add: HashBlock_def assms(1))
  show ?thesis
  proof (cases "signals n")
    case NoSignal
    then have "ComputeBlockNonce thash d signals s difficulty = Some (set_nonce (inc_by n s) (HashBlock thash d (inc_by n s)) b, Ok ())"
      using n by (simp add: b(2) mine_loop.simps nonce_difficulty_def)
    then show ?thesis
      using NoSignal n before h
      by (intro exI [of _ "set_nonce (inc_by n s) (HashBlock thash d (inc_by n s)) b"] exI [of _ "Ok ()"] exI [of _ n])
        (auto simp: set_nonce_def nonce_difficulty_def setBytes_or_keep_def hash_SetBytes_def is_hash_def)
  qed (use b before in \<open>auto simp: mine_loop.simps intro!: exI [of _ n]\<close>)
qed

text \<open>A hash for which only nonces with 2 in the low byte of their first word are hard.\<close>

definition example_mine_hash :: "bytes \<Rightarrow> hash" where
  "example_mine_hash b = replicate 31 0 @ [if b ! 7 = 2 then 0 else 255]"

theorem miner_returns_first_nonce_witness:
  "\<exists>info n. ComputeBlockNonce example_mine_hash [] (\<lambda>_. NoSignal) uint256_zero 256 = Some (info, Ok ()) \<and>
     ni_Nonce info = inc_by n uint256_zero \<and> ni_Difficulty info \<ge> 256"
proof -
  have d: "nonce_difficulty example_mine_hash [] (inc_by 2 uint256_zero) \<ge> 256" unfolding nonce_difficulty_def inc_by_def by code_simp
  have "is_hash (example_mine_hash x)" for x by (simp add: is_hash_def HashSize_def example_mine_hash_def)
  from miner_returns_first_nonce [where thash = example_mine_hash and d = "[]" and s = uint256_zero and signals = "\<lambda>_. NoSignal"
      and difficulty = 256, OF this] d
  obtain info r n where "ComputeBlockNonce example_mine_hash [] (\<lambda>_. NoSignal) uint256_zero 256 = Some (info, r)"
      "if r = Ok () then ni_Nonce info = inc_by n uint256_zero \<and> ni_Difficulty info \<ge> 256 else False"
    by (metis (full_types))
  then show ?thesis by (auto split: if_splits)
qed
end
