(* ===== verification/Kayak.thy ===== *)
theory Kayak
  imports Kayak_Wal Float64 Nodes
begin

text \<open>
  The replication runtime of a database, package \<open>kayak\<close>: one leader and its followers. The
  leader checks a request, logs it as a prepare entry, sends that to the followers, and
  when enough of them have logged it too, logs a commit entry that names the prepare
  entry and the previous commit, executes the request and sends the commit entry on. A
  follower executes a request when it has executed the previous commit.

  Each function here is a function of the Go code, or the part of it between two places
  where its goroutine waits: for a log entry, for the commit channel, for the replies of
  the followers. How the parts interleave is the subject of \<open>Kayak_System\<close>.
\<close>

section \<open>Configuration and state\<close>

datatype kayak_error =
  ErrNotLeader | ErrNotFollower | ErrPrepareTimeout | ErrPrepareFailed | ErrInvalidLog
  | ErrNotInPeer | ErrInvalidConfig | ErrStopped
  | ErrPeersVerify verifier_error | ErrWal wal_error | ErrCallback string | ErrContextDone

text \<open>
  The environment: the write-ahead log as the interface \<open>kt.Wal\<close>, the state machine as
  the interface \<open>kt.Handler\<close>, and what the signature check of the peers needs. The state
  of the handler has two parts, what its \<open>Check\<close> records and what its \<open>Commit\<close> changes.
\<close>

record ('w, 'h, 'c, 'q, 'r) kayak_env =
  kw_Write :: "Log option \<Rightarrow> 'w \<Rightarrow> 'w \<times> Log option \<times> (wal_error, unit) res"
  kw_Read :: "'w \<Rightarrow> 'w \<times> (wal_error, Log) res"
  kw_Get :: "u64 \<Rightarrow> 'w \<Rightarrow> (wal_error, Log) res"
  sh_EncodePayload :: "'q \<Rightarrow> (string, bytes) res"
  sh_DecodePayload :: "bytes \<Rightarrow> (string, 'q) res"
  sh_Check :: "'q \<Rightarrow> 'c \<Rightarrow> 'c \<times> (string, unit) res"
  sh_Commit :: "'q \<Rightarrow> bool \<Rightarrow> 'h \<Rightarrow> 'h \<times> (string, 'r) res"
  peers_Verify :: "PeersHeader \<Rightarrow> HashSignVerifier \<Rightarrow> (verifier_error, unit) res"

record ('w, 'h, 'c) RuntimeConfig =
  kc_Handler :: 'h
  kc_Checks :: 'c
  kc_PrepareThreshold :: rat
  kc_CommitThreshold :: rat
  kc_Peers :: "(PeersHeader \<times> HashSignVerifier) option"
  kc_Wal :: 'w
  kc_NodeID :: NodeID

record ('w, 'h, 'c) Runtime =
  rt_nextIndex :: u64
  rt_lastCommit :: u64
  rt_pendingPrepares :: "(u64, bool) gomap"
  rt_nodeID :: NodeID
  rt_wal :: 'w
  rt_sh :: 'h
  rt_checks :: 'c
  rt_role :: ServerRole
  rt_followers :: "NodeID list"
  rt_minPreparedFollowers :: int
  rt_minCommitFollowers :: int
  rt_waitLogMap :: "(u64, Log option) gomap"
  rt_started :: u32

record 'q commitReq =
  cq_data :: 'q
  cq_index :: u64
  cq_lastCommit :: u64
  cq_log :: "Log option"

text \<open>A call that has to wait leaves the state it waits in.\<close>

datatype 'a awaited = Waiting | Done 'a

section \<open>Integers\<close>

definition rt_uint64ToBytes :: "u64 \<Rightarrow> bytes" where
  "rt_uint64ToBytes i = PutUint 8 i"

definition bytesToUint64 :: "bytes \<Rightarrow> (kayak_error, u64) res" where
  "bytesToUint64 b = (if length b < 8 then Err ErrInvalidLog else Ok (Uint 8 b))"

section \<open>Callbacks\<close>

definition callback :: "(string, 'a) res \<Rightarrow> (kayak_error, 'a) res" where
  "callback r = (case r of Ok x \<Rightarrow> Ok x | Err e \<Rightarrow> Err (ErrCallback e) | Panic \<Rightarrow> Panic)"

definition doCheck ::
    "('w, 'h, 'c, 'q, 'r) kayak_env \<Rightarrow> 'q \<Rightarrow> ('w, 'h, 'c) Runtime \<Rightarrow> ('w, 'h, 'c) Runtime \<times> (kayak_error, unit) res" where
  "doCheck E req rt =
     (case sh_Check E req (rt_checks rt) of (c, r) \<Rightarrow> (rt \<lparr> rt_checks := c \<rparr>, callback r))"

definition doEncodePayload :: "('w, 'h, 'c, 'q, 'r) kayak_env \<Rightarrow> 'q \<Rightarrow> (kayak_error, bytes) res" where
  "doEncodePayload E req = callback (sh_EncodePayload E req)"

definition doDecodePayload :: "('w, 'h, 'c, 'q, 'r) kayak_env \<Rightarrow> bytes \<Rightarrow> (kayak_error, 'q) res" where
  "doDecodePayload E b = callback (sh_DecodePayload E b)"

definition doCommit ::
    "('w, 'h, 'c, 'q, 'r) kayak_env \<Rightarrow> 'q \<Rightarrow> bool \<Rightarrow> ('w, 'h, 'c) Runtime \<Rightarrow>
     ('w, 'h, 'c) Runtime \<times> (kayak_error, 'r) res" where
  "doCommit E req isLeader rt =
     (case sh_Commit E req isLeader (rt_sh rt) of (h, r) \<Rightarrow> (rt \<lparr> rt_sh := h \<rparr>, callback r))"

section \<open>Indexes and pending prepares\<close>

definition updateNextIndex :: "Log \<Rightarrow> ('w, 'h, 'c) Runtime \<Rightarrow> ('w, 'h, 'c) Runtime" where
  "updateNextIndex l rt =
     (if rt_nextIndex rt < lg_Index l + 1 then rt \<lparr> rt_nextIndex := lg_Index l + 1 \<rparr> else rt)"

definition checkIfPrepareFinished :: "u64 \<Rightarrow> ('w, 'h, 'c) Runtime \<Rightarrow> bool" where
  "checkIfPrepareFinished index rt = (mget (rt_pendingPrepares rt) index \<noteq> Some True)"

definition markPendingPrepare :: "u64 \<Rightarrow> ('w, 'h, 'c) Runtime \<Rightarrow> ('w, 'h, 'c) Runtime" where
  "markPendingPrepare index rt = rt \<lparr> rt_pendingPrepares := mput index True (rt_pendingPrepares rt) \<rparr>"

definition markPrepareFinished :: "u64 \<Rightarrow> ('w, 'h, 'c) Runtime \<Rightarrow> ('w, 'h, 'c) Runtime" where
  "markPrepareFinished index rt = rt \<lparr> rt_pendingPrepares := mdel index (rt_pendingPrepares rt) \<rparr>"

section \<open>Writing logs\<close>

text \<open>A failed write ends the leader's process.\<close>

definition newLog ::
    "('w, 'h, 'c, 'q, 'r) kayak_env \<Rightarrow> LogType \<Rightarrow> bytes \<Rightarrow> ('w, 'h, 'c) Runtime \<Rightarrow>
     ('w, 'h, 'c) Runtime \<times> (kayak_error, Log) res" where
  "newLog E logType d rt =
     (let i = rt_nextIndex rt;
          l = \<lparr> lg_LogHeader = \<lparr> lh_Index = i, lh_Version = 0, lh_Type = logType, lh_Producer = rt_nodeID rt,
                 lh_DataLength = 0 \<rparr>, lg_Data = d \<rparr>
      in case kw_Write E (Some l) (rt_wal rt) of (w, l', r) \<Rightarrow>
        (rt \<lparr> rt_nextIndex := i + 1, rt_wal := w \<rparr>,
         case (r, l') of (Ok _, Some l) \<Rightarrow> Ok l | _ \<Rightarrow> Panic))"

definition writeWAL ::
    "('w, 'h, 'c, 'q, 'r) kayak_env \<Rightarrow> Log \<Rightarrow> ('w, 'h, 'c) Runtime \<Rightarrow>
     ('w, 'h, 'c) Runtime \<times> (kayak_error, unit) res" where
  "writeWAL E l rt =
     (case kw_Write E (Some l) (rt_wal rt) of (w, _, r) \<Rightarrow>
        (rt \<lparr> rt_wal := w \<rparr>, case r of Ok _ \<Rightarrow> Ok () | Err e \<Rightarrow> Err (ErrWal e) | Panic \<Rightarrow> Panic))"

section \<open>Waiting for logs\<close>

text \<open>
  An entry of the wait map is created by the first call that waits for the index, and is
  set when a follower has applied that log. A call on a follower waits without a limit.
\<close>

definition waitForLog ::
    "('w, 'h, 'c, 'q, 'r) kayak_env \<Rightarrow> u64 \<Rightarrow> ('w, 'h, 'c) Runtime \<Rightarrow> ('w, 'h, 'c) Runtime \<times> Log awaited" where
  "waitForLog E index rt =
     (case kw_Get E index (rt_wal rt) of
        Ok l \<Rightarrow> (rt, Done l)
      | _ \<Rightarrow>
          (case mget (rt_waitLogMap rt) index of
             None \<Rightarrow> (rt \<lparr> rt_waitLogMap := mput index None (rt_waitLogMap rt) \<rparr>, Waiting)
           | Some None \<Rightarrow> (rt, Waiting)
           | Some (Some l) \<Rightarrow> (rt \<lparr> rt_waitLogMap := mdel index (rt_waitLogMap rt) \<rparr>, Done l)))"

definition triggerLogAwaits :: "Log \<Rightarrow> ('w, 'h, 'c) Runtime \<Rightarrow> ('w, 'h, 'c) Runtime" where
  "triggerLogAwaits l rt =
     (case mget (rt_waitLogMap rt) (lg_Index l) of
        None \<Rightarrow> rt
      | Some _ \<Rightarrow> rt \<lparr> rt_waitLogMap := mput (lg_Index l) (Some l) (rt_waitLogMap rt) \<rparr>)"

definition getPrepareLog ::
    "('w, 'h, 'c, 'q, 'r) kayak_env \<Rightarrow> Log \<Rightarrow> ('w, 'h, 'c) Runtime \<Rightarrow>
     ('w, 'h, 'c) Runtime \<times> (kayak_error, u64 \<times> Log) res awaited" where
  "getPrepareLog E l rt =
     (case bytesToUint64 (lg_Data l) of
        Err e \<Rightarrow> (rt, Done (Err e))
      | Panic \<Rightarrow> (rt, Done Panic)
      | Ok prepareIndex \<Rightarrow>
          (case waitForLog E prepareIndex rt of
             (rt, Waiting) \<Rightarrow> (rt, Waiting)
           | (rt, Done pl) \<Rightarrow>
               if length (lg_Data l) \<ge> 16 then
                 let lastCommitIndex = Uint 8 (drop 8 (lg_Data l)) in
                 case waitForLog E lastCommitIndex rt of
                   (rt, Waiting) \<Rightarrow> (rt, Waiting)
                 | (rt, Done _) \<Rightarrow> (rt, Done (Ok (lastCommitIndex, pl)))
               else (rt, Done (Ok (0, pl)))))"

section \<open>The calls to the followers\<close>

text \<open>
  A tracker counts the calls that have returned, successful or not, and closes its
  channel when their number reaches the minimum. An error of \<open>None\<close> is Go's nil.
\<close>

record rpcTracker =
  tk_nodes :: "NodeID list"
  tk_minCount :: int
  tk_errors :: "(NodeID, string option) gomap"
  tk_complete :: int
  tk_done :: bool

definition newTracker :: "int \<Rightarrow> ('w, 'h, 'c) Runtime \<Rightarrow> rpcTracker" where
  "newTracker minCount rt =
     (let nodes = rt_followers rt;
          minCount = (if minCount > int (length nodes) then int (length nodes) else minCount);
          minCount = (if minCount < 0 then 0 else minCount)
      in \<lparr> tk_nodes = nodes, tk_minCount = minCount, tk_errors = [], tk_complete = 0, tk_done = False \<rparr>)"

definition tracker_send :: "rpcTracker \<Rightarrow> rpcTracker" where
  "tracker_send t = (if tk_minCount t = 0 then t \<lparr> tk_done := True \<rparr> else t)"

definition callSingle :: "nat \<Rightarrow> string option \<Rightarrow> rpcTracker \<Rightarrow> rpcTracker" where
  "callSingle idx err t =
     (let t = t \<lparr> tk_errors := mput (tk_nodes t ! idx) err (tk_errors t), tk_complete := tk_complete t + 1 \<rparr>
      in if tk_complete t \<ge> tk_minCount t then t \<lparr> tk_done := True \<rparr> else t)"

text \<open>\<open>get\<close> returns when the channel is closed or the context is done.\<close>

definition tracker_get :: "bool \<Rightarrow> rpcTracker \<Rightarrow> ((NodeID, string option) gomap \<times> bool \<times> bool) awaited" where
  "tracker_get ctxDone t =
     (if \<not> tk_done t \<and> \<not> ctxDone then Waiting
      else Done (tk_errors t, tk_done t \<or> int (length (tk_errors t)) \<ge> tk_minCount t,
             length (tk_errors t) = length (tk_nodes t)))"

definition errorSummary :: "(NodeID, string option) gomap \<Rightarrow> (kayak_error, unit) res" where
  "errorSummary errs = (if filter (\<lambda>(s, err). err \<noteq> None) errs = [] then Ok () else Err ErrPrepareFailed)"

definition applyRPC :: "int \<Rightarrow> ('w, 'h, 'c) Runtime \<Rightarrow> rpcTracker" where
  "applyRPC minCount rt = tracker_send (newTracker minCount rt)"

section \<open>The leader\<close>

definition leaderLogPrepare ::
    "('w, 'h, 'c, 'q, 'r) kayak_env \<Rightarrow> bytes \<Rightarrow> ('w, 'h, 'c) Runtime \<Rightarrow> ('w, 'h, 'c) Runtime \<times> (kayak_error, Log) res" where
  "leaderLogPrepare E d rt = newLog E LogPrepare d rt"

definition leaderLogRollback ::
    "('w, 'h, 'c, 'q, 'r) kayak_env \<Rightarrow> u64 \<Rightarrow> ('w, 'h, 'c) Runtime \<Rightarrow> ('w, 'h, 'c) Runtime \<times> (kayak_error, Log) res" where
  "leaderLogRollback E i rt = newLog E LogRollback (rt_uint64ToBytes i) rt"

text \<open>\<open>doLeaderPrepare\<close> up to sending the prepare log, and after the replies.\<close>

definition doLeaderPrepare ::
    "('w, 'h, 'c, 'q, 'r) kayak_env \<Rightarrow> 'q \<Rightarrow> ('w, 'h, 'c) Runtime \<Rightarrow>
     ('w, 'h, 'c) Runtime \<times> (kayak_error, Log \<times> rpcTracker) res" where
  "doLeaderPrepare E req rt =
     (case doCheck E req rt of
        (rt, Err e) \<Rightarrow> (rt, Err e)
      | (rt, Panic) \<Rightarrow> (rt, Panic)
      | (rt, Ok _) \<Rightarrow>
          (case doEncodePayload E req of
             Err e \<Rightarrow> (rt, Err e)
           | Panic \<Rightarrow> (rt, Panic)
           | Ok encBuf \<Rightarrow>
               (case leaderLogPrepare E encBuf rt of
                  (rt, Err e) \<Rightarrow> (rt, Err e)
                | (rt, Panic) \<Rightarrow> (rt, Panic)
                | (rt, Ok prepareLog) \<Rightarrow>
                    let rt = markPendingPrepare (lg_Index prepareLog) rt
                    in (rt, Ok (prepareLog, applyRPC (rt_minPreparedFollowers rt) rt)))))"

definition leaderPrepared :: "bool \<Rightarrow> rpcTracker \<Rightarrow> (kayak_error, unit) res awaited" where
  "leaderPrepared ctxDone t =
     (case tracker_get ctxDone t of
        Waiting \<Rightarrow> Waiting
      | Done (prepareErrors, prepareDone, _) \<Rightarrow>
          Done (if \<not> prepareDone then Err ErrPrepareTimeout else errorSummary prepareErrors))"

text \<open>The guards of \<open>Apply\<close> and its first part.\<close>

definition rt_Apply ::
    "('w, 'h, 'c, 'q, 'r) kayak_env \<Rightarrow> 'q \<Rightarrow> ('w, 'h, 'c) Runtime \<Rightarrow>
     ('w, 'h, 'c) Runtime \<times> (kayak_error, Log \<times> rpcTracker) res" where
  "rt_Apply E req rt =
     (if rt_started rt \<noteq> 1 then (rt, Err ErrStopped)
      else if rt_role rt \<noteq> Leader then (rt, Err ErrNotLeader)
      else doLeaderPrepare E req rt)"

definition leaderCommitResult :: "'q \<Rightarrow> Log \<Rightarrow> 'q commitReq" where
  "leaderCommitResult reqPayload prepareLog =
     \<lparr> cq_data = reqPayload, cq_index = lg_Index prepareLog, cq_lastCommit = 0, cq_log = None \<rparr>"

definition doLeaderRollback ::
    "('w, 'h, 'c, 'q, 'r) kayak_env \<Rightarrow> Log \<Rightarrow> ('w, 'h, 'c) Runtime \<Rightarrow> ('w, 'h, 'c) Runtime \<times> (kayak_error, Log \<times> rpcTracker) res" where
  "doLeaderRollback E prepareLog rt =
     (case leaderLogRollback E (lg_Index prepareLog) rt of
        (rt, Ok rollbackLog) \<Rightarrow> (rt, Ok (rollbackLog, applyRPC 0 rt))
      | (rt, Err e) \<Rightarrow> (rt, Err e)
      | (rt, Panic) \<Rightarrow> (rt, Panic))"

text \<open>One turn of the commit cycle on the leader: the log it sends, and the handler's result.\<close>

definition leaderDoCommit ::
    "('w, 'h, 'c, 'q, 'r) kayak_env \<Rightarrow> 'q commitReq \<Rightarrow> ('w, 'h, 'c) Runtime \<Rightarrow>
     ('w, 'h, 'c) Runtime \<times> (kayak_error, Log \<times> rpcTracker \<times> (kayak_error, 'r) res) res" where
  "leaderDoCommit E req rt =
     (if cq_log req \<noteq> None then (rt, Panic)
      else
        let logData = rt_uint64ToBytes (cq_index req) @ rt_uint64ToBytes (rt_lastCommit rt) in
        case newLog E LogCommit logData rt of
          (rt, Err e) \<Rightarrow> (rt, Err e)
        | (rt, Panic) \<Rightarrow> (rt, Panic)
        | (rt, Ok l) \<Rightarrow>
            (case doCommit E (cq_data req) True rt of
               (rt, Panic) \<Rightarrow> (rt, Panic)
             | (rt, r) \<Rightarrow>
                 let rt = rt \<lparr> rt_lastCommit := lg_Index l \<rparr>
                 in (rt, Ok (l, applyRPC (rt_minCommitFollowers rt) rt, r))))"

definition rt_Fetch :: "('w, 'h, 'c, 'q, 'r) kayak_env \<Rightarrow> u64 \<Rightarrow> ('w, 'h, 'c) Runtime \<Rightarrow> (kayak_error, Log) res" where
  "rt_Fetch E index rt =
     (if rt_started rt \<noteq> 1 then Err ErrStopped
      else if rt_role rt \<noteq> Leader then Err ErrNotLeader
      else case kw_Get E index (rt_wal rt) of Ok l \<Rightarrow> Ok l | Err e \<Rightarrow> Err (ErrWal e) | Panic \<Rightarrow> Panic)"

section \<open>A follower\<close>

definition followerPrepare ::
    "('w, 'h, 'c, 'q, 'r) kayak_env \<Rightarrow> Log \<Rightarrow> bool \<Rightarrow> ('w, 'h, 'c) Runtime \<Rightarrow>
     ('w, 'h, 'c) Runtime \<times> (kayak_error, unit) res" where
  "followerPrepare E l checkPrepare rt =
     (case doDecodePayload E (lg_Data l) of
        Err e \<Rightarrow> (rt, Err e)
      | Panic \<Rightarrow> (rt, Panic)
      | Ok req \<Rightarrow>
          (case (if checkPrepare then doCheck E req rt else (rt, Ok ())) of
             (rt, Err e) \<Rightarrow> (rt, Err e)
           | (rt, Panic) \<Rightarrow> (rt, Panic)
           | (rt, Ok _) \<Rightarrow>
               (case writeWAL E l rt of
                  (rt, Ok _) \<Rightarrow> (markPendingPrepare (lg_Index l) rt, Ok ())
                | r \<Rightarrow> r)))"

definition followerRollback ::
    "('w, 'h, 'c, 'q, 'r) kayak_env \<Rightarrow> Log \<Rightarrow> ('w, 'h, 'c) Runtime \<Rightarrow>
     ('w, 'h, 'c) Runtime \<times> (kayak_error, unit) res awaited" where
  "followerRollback E l rt =
     (case getPrepareLog E l rt of
        (rt, Waiting) \<Rightarrow> (rt, Waiting)
      | (rt, Done (Err e)) \<Rightarrow> (rt, Done (Err e))
      | (rt, Done Panic) \<Rightarrow> (rt, Done Panic)
      | (rt, Done (Ok (_, prepareLog))) \<Rightarrow>
          if checkIfPrepareFinished (lg_Index prepareLog) rt then (rt, Done (Err ErrInvalidLog))
          else
            (case writeWAL E l rt of
               (rt, Ok _) \<Rightarrow> (markPrepareFinished (lg_Index prepareLog) rt, Done (Ok ()))
             | (rt, r) \<Rightarrow> (rt, Done r)))"

text \<open>
  \<open>followerCommitResult\<close>: the request that is put on the commit channel. The comparison
  with the last commit reads it before the request is queued.
\<close>

definition followerCommitResult ::
    "('w, 'h, 'c, 'q, 'r) kayak_env \<Rightarrow> Log \<Rightarrow> Log \<Rightarrow> u64 \<Rightarrow> ('w, 'h, 'c) Runtime \<Rightarrow> (kayak_error, 'q commitReq) res" where
  "followerCommitResult E commitLog prepareLog lastCommit rt =
     (if lastCommit < rt_lastCommit rt then Err ErrInvalidLog
      else case doDecodePayload E (lg_Data prepareLog) of
        Err e \<Rightarrow> Err e
      | Panic \<Rightarrow> Panic
      | Ok logReq \<Rightarrow>
          Ok \<lparr> cq_data = logReq, cq_index = lg_Index prepareLog, cq_lastCommit = lastCommit, cq_log = Some commitLog \<rparr>)"

text \<open>\<open>followerCommit\<close> up to queueing the request, and after its result.\<close>

definition followerCommit ::
    "('w, 'h, 'c, 'q, 'r) kayak_env \<Rightarrow> Log \<Rightarrow> ('w, 'h, 'c) Runtime \<Rightarrow>
     ('w, 'h, 'c) Runtime \<times> (kayak_error, 'q commitReq) res awaited" where
  "followerCommit E l rt =
     (case getPrepareLog E l rt of
        (rt, Waiting) \<Rightarrow> (rt, Waiting)
      | (rt, Done (Err e)) \<Rightarrow> (rt, Done (Err e))
      | (rt, Done Panic) \<Rightarrow> (rt, Done Panic)
      | (rt, Done (Ok (lastCommit, prepareLog))) \<Rightarrow>
          if checkIfPrepareFinished (lg_Index prepareLog) rt then (rt, Done (Err ErrInvalidLog))
          else (rt, Done (followerCommitResult E l prepareLog lastCommit rt)))"

text \<open>
  One turn of the commit cycle on a follower. A request whose previous commit is not the
  last one goes back to the channel once that commit is logged. When the log cannot be
  written the request is dropped and its caller is never told.
\<close>

datatype commit_turn = Requeued | Dropped | Committed "(kayak_error, unit) res"

definition followerDoCommit ::
    "('w, 'h, 'c, 'q, 'r) kayak_env \<Rightarrow> 'q commitReq \<Rightarrow> ('w, 'h, 'c) Runtime \<Rightarrow>
     ('w, 'h, 'c) Runtime \<times> (kayak_error, commit_turn) res" where
  "followerDoCommit E req rt =
     (case cq_log req of
        None \<Rightarrow> (rt, Panic)
      | Some l \<Rightarrow>
          if cq_lastCommit req \<noteq> rt_lastCommit rt then (rt, Ok Requeued)
          else
            (case writeWAL E l rt of
               (rt, Panic) \<Rightarrow> (rt, Panic)
             | (rt, Err _) \<Rightarrow> (rt, Ok Dropped)
             | (rt, Ok _) \<Rightarrow>
                 (case doCommit E (cq_data req) False rt of
                    (rt, Panic) \<Rightarrow> (rt, Panic)
                  | (rt, r) \<Rightarrow>
                      (rt \<lparr> rt_lastCommit := lg_Index l \<rparr>,
                       Ok (Committed (case r of Err e \<Rightarrow> Err e | _ \<Rightarrow> Ok ()))))))"

definition follower_applied :: "Log \<Rightarrow> ('w, 'h, 'c) Runtime \<Rightarrow> ('w, 'h, 'c) Runtime" where
  "follower_applied l rt = triggerLogAwaits l (updateNextIndex l rt)"

definition followerCommitted :: "'q commitReq \<Rightarrow> Log \<Rightarrow> ('w, 'h, 'c) Runtime \<Rightarrow> ('w, 'h, 'c) Runtime" where
  "followerCommitted req l rt = follower_applied l (markPrepareFinished (cq_index req) rt)"

text \<open>
  \<open>followerApply\<close>: a prepare or rollback log, or a log of another type, is applied as a
  whole; a commit log ends in a request for the commit cycle.
\<close>

definition followerApply ::
    "('w, 'h, 'c, 'q, 'r) kayak_env \<Rightarrow> Log option \<Rightarrow> bool \<Rightarrow> ('w, 'h, 'c) Runtime \<Rightarrow>
     ('w, 'h, 'c) Runtime \<times> (kayak_error, 'q commitReq option) res awaited" where
  "followerApply E ol checkPrepare rt =
     (case ol of
        None \<Rightarrow> (rt, Done (Err ErrInvalidLog))
      | Some l \<Rightarrow>
          if rt_started rt \<noteq> 1 then (rt, Done (Err ErrStopped))
          else if rt_role rt = Leader then (rt, Done (Err ErrNotFollower))
          else
            (case lg_Type l of
               LogCommit \<Rightarrow>
                 (case followerCommit E l rt of
                    (rt, Waiting) \<Rightarrow> (rt, Waiting)
                  | (rt, Done (Ok req)) \<Rightarrow> (rt, Done (Ok (Some req)))
                  | (rt, Done (Err e)) \<Rightarrow> (rt, Done (Err e))
                  | (rt, Done Panic) \<Rightarrow> (rt, Done Panic))
             | t \<Rightarrow>
                 (case (case t of
                          LogPrepare \<Rightarrow> (case followerPrepare E l checkPrepare rt of (rt, r) \<Rightarrow> (rt, Done r))
                        | LogRollback \<Rightarrow> followerRollback E l rt
                        | _ \<Rightarrow> (rt, Done (Ok ()))) of
                    (rt, Waiting) \<Rightarrow> (rt, Waiting)
                  | (rt, Done (Ok _)) \<Rightarrow> (follower_applied l rt, Done (Ok None))
                  | (rt, Done (Err e)) \<Rightarrow> (rt, Done (Err e))
                  | (rt, Done Panic) \<Rightarrow> (rt, Done Panic))))"

section \<open>Starting\<close>

text \<open>
  \<open>readLogs\<close> handles one log: it continues with \<open>Ok True\<close>. When the previous commit of a
  commit log is not the last one, the code wraps a nil error and returns it, which ends
  the loop without an error: \<open>Ok False\<close>. A log entry that is missing is waited for, and
  no one can deliver it before the runtime has started: \<open>None\<close>.
\<close>

definition readLog ::
    "('w, 'h, 'c, 'q, 'r) kayak_env \<Rightarrow> Log \<Rightarrow> ('w, 'h, 'c) Runtime \<Rightarrow>
     (('w, 'h, 'c) Runtime \<times> (kayak_error, bool) res) option" where
  "readLog E l rt =
     (case lg_Type l of
        LogPrepare \<Rightarrow> Some (markPendingPrepare (lg_Index l) rt, Ok True)
      | LogCommit \<Rightarrow>
          (case getPrepareLog E l rt of
             (rt, Waiting) \<Rightarrow> None
           | (rt, Done (Err e)) \<Rightarrow> Some (rt, Err e)
           | (rt, Done Panic) \<Rightarrow> Some (rt, Panic)
           | (rt, Done (Ok (lastCommit, prepareLog))) \<Rightarrow>
               if lastCommit \<noteq> rt_lastCommit rt then Some (rt, Ok False)
               else if checkIfPrepareFinished (lg_Index prepareLog) rt then Some (rt, Err ErrInvalidLog)
               else Some (markPrepareFinished (lg_Index prepareLog) (rt \<lparr> rt_lastCommit := lg_Index l \<rparr>), Ok True))
      | LogRollback \<Rightarrow>
          (case getPrepareLog E l rt of
             (rt, Waiting) \<Rightarrow> None
           | (rt, Done (Err e)) \<Rightarrow> Some (rt, Err e)
           | (rt, Done Panic) \<Rightarrow> Some (rt, Panic)
           | (rt, Done (Ok (_, prepareLog))) \<Rightarrow>
               if checkIfPrepareFinished (lg_Index prepareLog) rt then Some (rt, Err ErrInvalidLog)
               else Some (markPrepareFinished (lg_Index prepareLog) rt, Ok True))
      | _ \<Rightarrow> Some (rt, Err ErrInvalidLog))"

partial_function (option) readLogs ::
    "('w, 'h, 'c, 'q, 'r) kayak_env \<Rightarrow> ('w, 'h, 'c) Runtime \<Rightarrow>
     (('w, 'h, 'c) Runtime \<times> (kayak_error, unit) res) option" where
  "readLogs E rt =
     (case kw_Read E (rt_wal rt) of
        (w, Panic) \<Rightarrow> Some (rt \<lparr> rt_wal := w \<rparr>, Panic)
      | (w, Err e) \<Rightarrow> Some (rt \<lparr> rt_wal := w \<rparr>, if e = ErrEOF then Ok () else Err (ErrWal e))
      | (w, Ok l) \<Rightarrow>
          (case readLog E l (rt \<lparr> rt_wal := w \<rparr>) of
             None \<Rightarrow> None
           | Some (rt, Err e) \<Rightarrow> Some (rt, Err e)
           | Some (rt, Panic) \<Rightarrow> Some (rt, Panic)
           | Some (rt, Ok again) \<Rightarrow> if again then readLogs E (updateNextIndex l rt) else Some (rt, Ok ())))"

definition peers_role :: "PeersHeader \<Rightarrow> NodeID \<Rightarrow> ServerRole option" where
  "peers_role peers n =
     (if n \<notin> set (ph_Servers peers) then None
      else Some (if n = ph_Leader peers then Leader else Follower))"

definition minFollowers :: "rat \<Rightarrow> nat \<Rightarrow> int" where
  "minFollowers threshold n = max \<lceil>f64_mul threshold (of_nat n)\<rceil> 1 - 1"

definition NewRuntime ::
    "('w, 'h, 'c, 'q, 'r) kayak_env \<Rightarrow> ('w, 'h, 'c) RuntimeConfig option \<Rightarrow>
     (kayak_error, ('w, 'h, 'c) Runtime) res option" where
  "NewRuntime E ocfg =
     (case ocfg of
        None \<Rightarrow> Some (Err ErrInvalidConfig)
      | Some cfg \<Rightarrow>
          (case kc_Peers cfg of
             None \<Rightarrow> Some (Err ErrInvalidConfig)
           | Some (peers, hsv) \<Rightarrow>
               (case peers_Verify E peers hsv of
                  Err e \<Rightarrow> Some (Err (ErrPeersVerify e))
                | Panic \<Rightarrow> Some Panic
                | Ok _ \<Rightarrow>
                    (case peers_role peers (kc_NodeID cfg) of
                       None \<Rightarrow> Some (Err ErrNotInPeer)
                     | Some role \<Rightarrow>
                         let n = length (ph_Servers peers);
                             rt = \<lparr> rt_nextIndex = 0, rt_lastCommit = 0, rt_pendingPrepares = [],
                                    rt_nodeID = kc_NodeID cfg, rt_wal = kc_Wal cfg, rt_sh = kc_Handler cfg,
                                    rt_checks = kc_Checks cfg, rt_role = role,
                                    rt_followers = filter (\<lambda>v. v \<noteq> ph_Leader peers) (ph_Servers peers),
                                    rt_minPreparedFollowers = minFollowers (kc_PrepareThreshold cfg) n,
                                    rt_minCommitFollowers = minFollowers (kc_CommitThreshold cfg) n,
                                    rt_waitLogMap = [], rt_started = 0 \<rparr>
                         in case readLogs E rt of
                              None \<Rightarrow> None
                            | Some (rt, Ok _) \<Rightarrow> Some (Ok rt)
                            | Some (rt, Err e) \<Rightarrow> Some (Err e)
                            | Some (rt, Panic) \<Rightarrow> Some Panic))))"

definition rt_Start :: "('w, 'h, 'c) Runtime \<Rightarrow> ('w, 'h, 'c) Runtime" where
  "rt_Start rt = (if rt_started rt = 0 then rt \<lparr> rt_started := 1 \<rparr> else rt)"

definition rt_Shutdown :: "('w, 'h, 'c) Runtime \<Rightarrow> ('w, 'h, 'c) Runtime" where
  "rt_Shutdown rt = (if rt_started rt = 1 then rt \<lparr> rt_started := 2 \<rparr> else rt)"
end
