(* ===== verification/Kayak_System.thy ===== *)
theory Kayak_System
  imports Kayak
begin

text \<open>
  A leader and its followers together: how the parts of the calls in \<open>Kayak\<close> interleave,
  and what holds in every state they reach. Messages may be lost, delayed, repeated and
  reordered; a follower may also fetch any log from the leader. The state of a goroutine
  that waits is part of the system: calls to \<open>Apply\<close> that wait for replies or for their
  commit, requests that wait for a commit cycle, and commits whose caller has not yet
  been told.
\<close>

section \<open>The system\<close>

datatype 'q apply_call =
    Preparing Log 'q rpcTracker "nat list"
  | Committing Log

record ('w, 'h, 'c, 'q) kayak_sys =
  ks_leader :: "('w, 'h, 'c) Runtime"
  ks_followers :: "NodeID \<Rightarrow> ('w, 'h, 'c) Runtime"
  ks_sent :: "Log list"
  ks_applies :: "'q apply_call list"
  ks_queue :: "'q commitReq list"
  ks_fqueue :: "NodeID \<Rightarrow> 'q commitReq list"
  ks_fdone :: "NodeID \<Rightarrow> 'q commitReq list"

text \<open>The request a delivered log leaves for the commit cycle.\<close>

definition queued :: "(kayak_error, 'q commitReq option) res awaited \<Rightarrow> 'q commitReq list" where
  "queued a = (case a of Done (Ok (Some req)) \<Rightarrow> [req] | _ \<Rightarrow> [])"

text \<open>The queue of a follower after a turn of its commit cycle took \<open>r\<close> from it.\<close>

definition after_turn :: "commit_turn \<Rightarrow> 'q commitReq \<Rightarrow> 'q commitReq list \<Rightarrow> 'q commitReq list" where
  "after_turn turn r rest = (if turn = Requeued then rest @ [r] else rest)"

inductive kayak_step ::
    "('w, 'h, 'c, 'q, 'r) kayak_env \<Rightarrow> ('w, 'h, 'c, 'q) kayak_sys \<Rightarrow> ('w, 'h, 'c, 'q) kayak_sys \<Rightarrow> bool"
  for E :: "('w, 'h, 'c, 'q, 'r) kayak_env" where
  called: "rt_Apply E q (ks_leader s) = (L, Ok (l, t)) \<Longrightarrow>
    kayak_step E s (s \<lparr> ks_leader := L, ks_sent := l # ks_sent s,
      ks_applies := Preparing l q t [0..<length (tk_nodes t)] # ks_applies s \<rparr>)"
| refused: "rt_Apply E q (ks_leader s) = (L, Err e) \<Longrightarrow> kayak_step E s (s \<lparr> ks_leader := L \<rparr>)"
| reply: "ks_applies s = xs @ Preparing l q t out # ys \<Longrightarrow> idx \<in> set out \<Longrightarrow> f = tk_nodes t ! idx \<Longrightarrow>
    followerApply E (Some l) True (ks_followers s f) = (F, Done r) \<Longrightarrow> err = None \<longleftrightarrow> is_Ok r \<Longrightarrow>
    kayak_step E s (s \<lparr> ks_followers := (ks_followers s)(f := F),
      ks_applies := xs @ Preparing l q (callSingle idx err t) (remove1 idx out) # ys \<rparr>)"
| lost: "ks_applies s = xs @ Preparing l q t out # ys \<Longrightarrow> idx \<in> set out \<Longrightarrow>
    kayak_step E s (s \<lparr> ks_applies := xs @ Preparing l q (callSingle idx (Some e) t) (remove1 idx out) # ys \<rparr>)"
| prepared: "ks_applies s = xs @ Preparing l q t out # ys \<Longrightarrow> leaderPrepared ctxDone t = Done (Ok ()) \<Longrightarrow>
    kayak_step E s (s \<lparr> ks_applies := xs @ Committing l # ys, ks_queue := ks_queue s @ [leaderCommitResult q l] \<rparr>)"
| abandoned: "ks_applies s = xs @ Preparing l q t out # ys \<Longrightarrow> leaderPrepared ctxDone t = Done (Ok ()) \<Longrightarrow>
    kayak_step E s (s \<lparr> ks_leader := markPrepareFinished (lg_Index l) (ks_leader s), ks_applies := xs @ ys \<rparr>)"
| not_prepared: "ks_applies s = xs @ Preparing l q t out # ys \<Longrightarrow> leaderPrepared ctxDone t = Done (Err e) \<Longrightarrow>
    doLeaderRollback E l (ks_leader s) = (L, Ok (rl, rt)) \<Longrightarrow>
    kayak_step E s (s \<lparr> ks_leader := markPrepareFinished (lg_Index l) L, ks_sent := rl # ks_sent s, ks_applies := xs @ ys \<rparr>)"
| leader_commit: "ks_queue s = xs @ r # ys \<Longrightarrow> leaderDoCommit E r (ks_leader s) = (L, Ok (l, t, result)) \<Longrightarrow>
    kayak_step E s (s \<lparr> ks_leader := L, ks_sent := l # ks_sent s, ks_queue := xs @ ys \<rparr>)"
| finished: "ks_applies s = xs @ Committing l # ys \<Longrightarrow>
    kayak_step E s (s \<lparr> ks_leader := markPrepareFinished (lg_Index l) (ks_leader s), ks_applies := xs @ ys \<rparr>)"
| deliver: "f \<in> set (rt_followers (ks_leader s)) \<Longrightarrow> l \<in> set (ks_sent s) \<Longrightarrow> followerApply E (Some l) True (ks_followers s f) = (F, a) \<Longrightarrow>
    kayak_step E s (s \<lparr> ks_followers := (ks_followers s)(f := F),
      ks_fqueue := (ks_fqueue s)(f := ks_fqueue s f @ queued a) \<rparr>)"
| fetch: "f \<in> set (rt_followers (ks_leader s)) \<Longrightarrow> rt_Fetch E i (ks_leader s) = Ok l \<Longrightarrow> followerApply E (Some l) False (ks_followers s f) = (F, a) \<Longrightarrow>
    kayak_step E s (s \<lparr> ks_followers := (ks_followers s)(f := F),
      ks_fqueue := (ks_fqueue s)(f := ks_fqueue s f @ queued a) \<rparr>)"
| follower_commit: "ks_fqueue s f = xs @ r # ys \<Longrightarrow> followerDoCommit E r (ks_followers s f) = (F, Ok turn) \<Longrightarrow>
    kayak_step E s (s \<lparr> ks_followers := (ks_followers s)(f := F),
      ks_fqueue := (ks_fqueue s)(f := after_turn turn r (xs @ ys)),
      ks_fdone := (ks_fdone s)(f := (if turn = Requeued \<or> turn = Dropped then [] else [r]) @ ks_fdone s f) \<rparr>)"
| follower_done: "ks_fdone s f = xs @ r # ys \<Longrightarrow> cq_log r = Some l \<Longrightarrow>
    kayak_step E s (s \<lparr> ks_followers := (ks_followers s)(f := followerCommitted r l (ks_followers s f)),
      ks_fdone := (ks_fdone s)(f := xs @ ys) \<rparr>)"

inductive kayak_run ::
    "('w, 'h, 'c, 'q, 'r) kayak_env \<Rightarrow> ('w, 'h, 'c, 'q) kayak_sys \<Rightarrow> ('w, 'h, 'c, 'q) kayak_sys \<Rightarrow> bool"
  for E :: "('w, 'h, 'c, 'q, 'r) kayak_env" where
  none: "kayak_run E s s"
| step: "kayak_run E s s' \<Longrightarrow> kayak_step E s' s'' \<Longrightarrow> kayak_run E s s''"

text \<open>The execution of a list of requests by the handler.\<close>

definition execute :: "('w, 'h, 'c, 'q, 'r) kayak_env \<Rightarrow> bool \<Rightarrow> 'q list \<Rightarrow> 'h \<Rightarrow> 'h" where
  "execute E isLeader qs h = foldl (\<lambda>h q. fst (sh_Commit E q isLeader h)) h qs"

section \<open>The invariant\<close>

text \<open>
  The commits of the leader in their order: the index of the commit log, the index of the
  prepare log and the request. The commit before position \<open>k\<close> is 0 at the start.
\<close>

type_synonym 'q history = "(u64 \<times> u64 \<times> 'q) list"

definition previous :: "'q history \<Rightarrow> nat \<Rightarrow> u64" where
  "previous hs k = (if k = 0 then 0 else fst (hs ! (k - 1)))"

definition requests :: "'q history \<Rightarrow> 'q list" where
  "requests hs = map (snd \<circ> snd) hs"

text \<open>The entry \<open>i\<close> prepares the request \<open>q\<close>, and the entry \<open>c\<close> commits what \<open>p\<close> prepared.\<close>

definition prepares :: "('w, 'h, 'c, 'q, 'r) kayak_env \<Rightarrow> (u64 \<Rightarrow> Log option) \<Rightarrow> u64 \<Rightarrow> 'q \<Rightarrow> bool" where
  "prepares E ent i q \<longleftrightarrow> (\<exists>l. ent i = Some l \<and> sh_DecodePayload E (lg_Data l) = Ok q)"

definition commits :: "(u64 \<Rightarrow> Log option) \<Rightarrow> u64 \<Rightarrow> u64 \<Rightarrow> u64 \<Rightarrow> bool" where
  "commits ent c p prev \<longleftrightarrow>
     (\<exists>l. ent c = Some l \<and> lg_Type l = LogCommit \<and> lg_Data l = rt_uint64ToBytes p @ rt_uint64ToBytes prev)"

definition history_ok :: "('w, 'h, 'c, 'q, 'r) kayak_env \<Rightarrow> (u64 \<Rightarrow> Log option) \<Rightarrow> 'q history \<Rightarrow> bool" where
  "history_ok E ent hs \<longleftrightarrow>
     distinct (map fst hs) \<and>
     (\<forall>k < length hs. case hs ! k of (c, p, q) \<Rightarrow> c \<noteq> 0 \<and> commits ent c p (previous hs k) \<and> prepares E ent p q) \<and>
     (\<forall>c l. ent c = Some l \<longrightarrow> lg_Type l = LogCommit \<longrightarrow> c \<in> fst ` set hs)"

definition follower_request :: "('w, 'h, 'c, 'q, 'r) kayak_env \<Rightarrow> (u64 \<Rightarrow> Log option) \<Rightarrow> 'q commitReq \<Rightarrow> bool" where
  "follower_request E ent r \<longleftrightarrow>
     (\<exists>l p. cq_log r = Some l \<and> ent (lg_Index l) = Some l \<and> commits ent (lg_Index l) p (cq_lastCommit r) \<and>
        prepares E ent p (cq_data r))"

text \<open>
  The leader: its log is the history, and its handler has executed it. Index 0 is used
  first, so it is never the index of a commit.
\<close>

definition leader_ok ::
    "('w, 'h, 'c, 'q, 'r) kayak_env \<Rightarrow> ('w \<Rightarrow> bool) \<Rightarrow> ('w \<Rightarrow> u64 \<Rightarrow> Log option) \<Rightarrow> (Log \<Rightarrow> Log) \<Rightarrow> 'h \<Rightarrow>
     'q history \<Rightarrow> ('w, 'h, 'c) Runtime \<Rightarrow> bool" where
  "leader_ok E ok entry seal h hs L \<longleftrightarrow>
     ok (rt_wal L) \<and> history_ok E (entry (rt_wal L)) hs \<and> rt_lastCommit L = previous hs (length hs) \<and>
     rt_sh L = execute E True (requests hs) h \<and>
     (if entry (rt_wal L) = Map.empty then rt_nextIndex L = 0 else entry (rt_wal L) 0 \<noteq> None) \<and>
     (\<forall>i l. entry (rt_wal L) i = Some l \<longrightarrow> seal l = l)"

text \<open>A follower has logs of the leader only, and has executed a prefix of the history.\<close>

definition follower_ok ::
    "('w, 'h, 'c, 'q, 'r) kayak_env \<Rightarrow> ('w \<Rightarrow> bool) \<Rightarrow> ('w \<Rightarrow> u64 \<Rightarrow> Log option) \<Rightarrow> (u64 \<Rightarrow> Log option) \<Rightarrow> 'h \<Rightarrow>
     'q history \<Rightarrow> ('w, 'h, 'c) Runtime \<Rightarrow> bool" where
  "follower_ok E ok entry ent h hs F \<longleftrightarrow>
     ok (rt_wal F) \<and> entry (rt_wal F) \<subseteq>\<^sub>m ent \<and>
     (\<forall>i l. mget (rt_waitLogMap F) i = Some (Some l) \<longrightarrow> ent i = Some l) \<and>
     (\<exists>k \<le> length hs. rt_lastCommit F = previous hs k \<and> rt_sh F = execute E False (take k (requests hs)) h)"

definition call_ok :: "('w, 'h, 'c, 'q, 'r) kayak_env \<Rightarrow> (u64 \<Rightarrow> Log option) \<Rightarrow> 'q apply_call \<Rightarrow> bool" where
  "call_ok E ent a \<longleftrightarrow>
     (case a of
        Preparing l q t out \<Rightarrow> ent (lg_Index l) = Some l \<and> lg_Type l = LogPrepare \<and> prepares E ent (lg_Index l) q
      | Committing l \<Rightarrow> True)"

definition sys_ok ::
    "('w, 'h, 'c, 'q, 'r) kayak_env \<Rightarrow> ('w \<Rightarrow> bool) \<Rightarrow> ('w \<Rightarrow> u64 \<Rightarrow> Log option) \<Rightarrow> (Log \<Rightarrow> Log) \<Rightarrow> 'h \<Rightarrow>
     'q history \<Rightarrow> ('w, 'h, 'c, 'q) kayak_sys \<Rightarrow> bool" where
  "sys_ok E ok entry seal h hs s \<longleftrightarrow>
     (let ent = entry (rt_wal (ks_leader s)) in
      leader_ok E ok entry seal h hs (ks_leader s) \<and>
      (\<forall>f. follower_ok E ok entry ent h hs (ks_followers s f)) \<and>
      (\<forall>l \<in> set (ks_sent s). ent (lg_Index l) = Some l) \<and>
      (\<forall>a \<in> set (ks_applies s). call_ok E ent a) \<and>
      (\<forall>r \<in> set (ks_queue s). prepares E ent (cq_index r) (cq_data r)) \<and>
      (\<forall>f. \<forall>r \<in> set (ks_fqueue s f) \<union> set (ks_fdone s f). follower_request E ent r))"

section \<open>Lemmas on the history\<close>

lemma prepares_mono: "ent \<subseteq>\<^sub>m ent' \<Longrightarrow> prepares E ent i q \<Longrightarrow> prepares E ent' i q"
  by (auto simp: prepares_def map_le_def dom_def)

lemma commits_mono: "ent \<subseteq>\<^sub>m ent' \<Longrightarrow> commits ent c p prev \<Longrightarrow> commits ent' c p prev"
  by (auto simp: commits_def map_le_def dom_def)

lemma map_le_Some: "ent \<subseteq>\<^sub>m ent' \<Longrightarrow> ent i = Some l \<Longrightarrow> ent' i = Some l"
  by (auto simp: map_le_def dom_def)

lemma follower_request_mono: "ent \<subseteq>\<^sub>m ent' \<Longrightarrow> follower_request E ent r \<Longrightarrow> follower_request E ent' r"
  unfolding follower_request_def by (blast intro: prepares_mono commits_mono map_le_Some)

lemma call_ok_mono: "ent \<subseteq>\<^sub>m ent' \<Longrightarrow> call_ok E ent a \<Longrightarrow> call_ok E ent' a"
  by (auto simp: call_ok_def intro: prepares_mono map_le_Some split: apply_call.splits)

lemma previous_append: "k \<le> length hs \<Longrightarrow> previous (hs @ xs) k = previous hs k"
  by (auto simp: previous_def nth_append)

lemma requests_append [simp]: "requests (hs @ xs) = requests hs @ requests xs"
  by (simp add: requests_def)

lemma length_requests [simp]: "length (requests hs) = length hs"
  by (simp add: requests_def)

lemma execute_snoc: "execute E b (qs @ [q]) h = fst (sh_Commit E q b (execute E b qs h))"
  by (simp add: execute_def)

lemma Uint_append: "n \<le> length b \<Longrightarrow> Uint n (b @ c) = Uint n b"
  by (simp add: Uint_def)

lemma uint64_pair:
  "Uint 8 (rt_uint64ToBytes a @ rt_uint64ToBytes b) = a" "Uint 8 (drop 8 (rt_uint64ToBytes a @ rt_uint64ToBytes b)) = b"
  "length (rt_uint64ToBytes a @ rt_uint64ToBytes b) = 16" "Uint 8 (rt_uint64ToBytes a) = a" "length (rt_uint64ToBytes a) = 8"
proof -
  have A: "Uint 8 (PutUint 8 x @ rest) = x" for x :: u64 and rest by (rule Uint_PutUint) simp
  then have B: "Uint 8 (PutUint 8 x) = x" for x :: u64 by (metis append_Nil2)
  show "Uint 8 (rt_uint64ToBytes a @ rt_uint64ToBytes b) = a" "Uint 8 (drop 8 (rt_uint64ToBytes a @ rt_uint64ToBytes b)) = b"
    "length (rt_uint64ToBytes a @ rt_uint64ToBytes b) = 16" "Uint 8 (rt_uint64ToBytes a) = a" "length (rt_uint64ToBytes a) = 8"
    by (simp_all add: rt_uint64ToBytes_def A B)
qed

lemma commits_unique: "commits ent c p prev \<Longrightarrow> commits ent c p' prev' \<Longrightarrow> p = p' \<and> prev = prev'"
proof -
  assume "commits ent c p prev" "commits ent c p' prev'"
  then have "rt_uint64ToBytes p @ rt_uint64ToBytes prev = rt_uint64ToBytes p' @ rt_uint64ToBytes prev'"
    by (auto simp: commits_def)
  then show ?thesis using uint64_pair(1,2) [of p prev] uint64_pair(1,2) [of p' prev'] by metis
qed

lemma prepares_unique: "prepares E ent p q \<Longrightarrow> prepares E ent p q' \<Longrightarrow> q = q'"
  by (auto simp: prepares_def)

lemma history_okD:
  assumes "history_ok E ent hs"
  shows "distinct (map fst hs)"
    and "k < length hs \<Longrightarrow> hs ! k = (c, p, q) \<Longrightarrow> c \<noteq> 0 \<and> commits ent c p (previous hs k) \<and> prepares E ent p q"
    and "ent c = Some l \<Longrightarrow> lg_Type l = LogCommit \<Longrightarrow> c \<in> fst ` set hs"
  using assms unfolding history_ok_def by auto

text \<open>The previous commit determines the position in the history.\<close>

lemma previous_inj:
  assumes "history_ok E ent hs" and "j < length hs" and "k \<le> length hs" and "previous hs j = previous hs k"
  shows "j = k"
proof -
  have nz: "fst (hs ! i) \<noteq> 0" if "i < length hs" for i
    using history_okD(2) [OF assms(1) that] by (cases "hs ! i") auto
  have dist: "i = i'" if "i < length hs" "i' < length hs" "fst (hs ! i) = fst (hs ! i')" for i i'
    using nth_eq_iff_index_eq [OF history_okD(1) [OF assms(1)], of i i'] that by simp
  show ?thesis
    using assms(2-4) nz [of "k - 1"] nz [of "j - 1"] dist [of "j - 1" "k - 1"]
    by (cases j; cases k) (auto simp: previous_def)
qed

text \<open>A request of the commit cycle whose previous commit is the last one is the next in the history.\<close>

lemma follower_request_next:
  assumes "history_ok E ent hs" and "follower_request E ent r" and "k \<le> length hs" and "cq_lastCommit r = previous hs k"
  obtains l p where "k < length hs" "cq_log r = Some l" "ent (lg_Index l) = Some l" "hs ! k = (lg_Index l, p, cq_data r)"
proof -
  from assms(2) obtain l p where l: "cq_log r = Some l" "ent (lg_Index l) = Some l"
      "commits ent (lg_Index l) p (cq_lastCommit r)" "prepares E ent p (cq_data r)"
    by (auto simp: follower_request_def)
  then have "lg_Index l \<in> fst ` set hs" using history_okD(3) [OF assms(1)] by (auto simp: commits_def)
  then obtain j where j: "j < length hs" "fst (hs ! j) = lg_Index l" by (auto simp: in_set_conv_nth)
  obtain p' q' where hj: "hs ! j = (lg_Index l, p', q')" using j(2) by (cases "hs ! j") auto
  then have "commits ent (lg_Index l) p' (previous hs j)" "prepares E ent p' q'"
    using history_okD(2) [OF assms(1) j(1)] by blast+
  with l have eq: "p' = p" "previous hs j = cq_lastCommit r" "q' = cq_data r"
    using commits_unique prepares_unique by metis+
  then have "j = k" using previous_inj [OF assms(1) j(1) assms(3)] assms(4) by simp
  with that l(1,2) hj eq j(1) show thesis by blast
qed

lemma history_grow:
  assumes "history_ok E ent hs" and "ent i = None" and "lg_Type l \<noteq> LogCommit"
  shows "history_ok E (ent(i \<mapsto> l)) hs"
proof -
  have le: "ent \<subseteq>\<^sub>m ent(i \<mapsto> l)" using assms(2) by (auto simp: map_le_def)
  show ?thesis
    unfolding history_ok_def
  proof (intro conjI allI impI)
    show "distinct (map fst hs)" by (rule history_okD(1) [OF assms(1)])
    fix k assume k: "k < length hs"
    obtain c p q where hk: "hs ! k = (c, p, q)" by (metis prod_cases3)
    from history_okD(2) [OF assms(1) k hk] show "case hs ! k of (c, p, q) \<Rightarrow> c \<noteq> 0 \<and>
        commits (ent(i \<mapsto> l)) c p (previous hs k) \<and> prepares E (ent(i \<mapsto> l)) p q"
      by (auto simp: hk intro: commits_mono [OF le] prepares_mono [OF le])
  next
    fix c l' assume "(ent(i \<mapsto> l)) c = Some l'" "lg_Type l' = LogCommit"
    then show "c \<in> fst ` set hs" using assms(3) history_okD(3) [OF assms(1)] by (auto split: if_splits)
  qed
qed

lemma history_snoc:
  assumes "history_ok E ent hs" and "ent c = None" and "c \<noteq> 0" and "lg_Type l = LogCommit"
    and "lg_Data l = rt_uint64ToBytes p @ rt_uint64ToBytes (previous hs (length hs))" and "prepares E ent p q"
  shows "history_ok E (ent(c \<mapsto> l)) (hs @ [(c, p, q)])"
proof -
  let ?ent = "ent(c \<mapsto> l)"
  have le: "ent \<subseteq>\<^sub>m ?ent" using assms(2) by (auto simp: map_le_def)
  have old: "c' \<noteq> 0 \<and> commits ent c' p' (previous hs k) \<and> prepares E ent p' q'" if "k < length hs" "hs ! k = (c', p', q')" for k c' p' q'
    by (rule history_okD(2) [OF assms(1) that])
  have "c \<notin> fst ` set hs"
    using old assms(2) by (auto simp: in_set_conv_nth commits_def) (metis fst_conv option.distinct(1) prod_cases3)
  then have "distinct (map fst (hs @ [(c, p, q)]))" using history_okD(1) [OF assms(1)] by auto
  moreover have "c' \<noteq> 0 \<and> commits ?ent c' p' (previous (hs @ [(c, p, q)]) k) \<and> prepares E ?ent p' q'"
    if "k < length (hs @ [(c, p, q)])" "(hs @ [(c, p, q)]) ! k = (c', p', q')" for k c' p' q'
  proof (cases "k < length hs")
    case True
    then show ?thesis
      using old [of k c' p' q'] that
      by (auto simp: nth_append previous_append intro: commits_mono [OF le] prepares_mono [OF le])
  next
    case False
    then have k: "k = length hs" using that(1) by simp
    have "commits ?ent c p (previous hs (length hs))" using assms(4,5) by (simp add: commits_def)
    then show ?thesis
      using that(2) assms(3) prepares_mono [OF le assms(6)] by (simp add: k previous_append)
  qed
  ultimately show ?thesis
    using history_okD(3) [OF assms(1)] unfolding history_ok_def by (auto split: if_splits)
qed

section \<open>Each operation keeps the invariant\<close>

text \<open>The runtime relies on its log; the handler decodes the payloads it encoded.\<close>

definition payload_ok :: "('w, 'h, 'c, 'q, 'r) kayak_env \<Rightarrow> bool" where
  "payload_ok E \<longleftrightarrow> (\<forall>q b. sh_EncodePayload E q = Ok b \<longrightarrow> sh_DecodePayload E b = Ok q)"

locale kayak_store = log_store "kw_Write E" "kw_Get E" ok entry seal
  for E :: "('w, 'h, 'c, 'q, 'r) kayak_env" and ok entry seal
begin

lemma newLog_Ok:
  assumes "ok (rt_wal L)" and "newLog E t d L = (L', Ok l)"
  shows "entry (rt_wal L) (rt_nextIndex L) = None" and "lg_Index l = rt_nextIndex L" and "lg_Type l = t"
    and "lg_Data l = d" and "seal l = l" and "ok (rt_wal L')"
    and "entry (rt_wal L') = (entry (rt_wal L))(rt_nextIndex L \<mapsto> l)"
    and "L' = L \<lparr> rt_nextIndex := rt_nextIndex L + 1, rt_wal := rt_wal L' \<rparr>"
proof -
  let ?l = "\<lparr> lg_LogHeader = \<lparr> lh_Index = rt_nextIndex L, lh_Version = 0, lh_Type = t, lh_Producer = rt_nodeID L,
     lh_DataLength = 0 \<rparr>, lg_Data = d \<rparr>"
  obtain w l' r where W: "kw_Write E (Some ?l) (rt_wal L) = (w, l', r)" by (metis prod_cases3)
  with assms(2) have L': "L' = L \<lparr> rt_nextIndex := rt_nextIndex L + 1, rt_wal := w \<rparr>" and r: "r = Ok ()" "l' = Some l"
    by (auto simp: newLog_def Let_def split: res.splits option.splits)
  have o: "ok w" using write_inv [OF assms(1), of "Some ?l"] W by simp
  from write_Ok [OF assms(1) W [unfolded r(1)]] r(2)
  have l: "l = seal ?l" "entry (rt_wal L) (rt_nextIndex L) = None" "entry w = (entry (rt_wal L))(rt_nextIndex L \<mapsto> l)" by auto
  show "entry (rt_wal L) (rt_nextIndex L) = None" "lg_Index l = rt_nextIndex L" "lg_Type l = t" "lg_Data l = d" "seal l = l"
    "ok (rt_wal L')" "entry (rt_wal L') = (entry (rt_wal L))(rt_nextIndex L \<mapsto> l)"
    "L' = L \<lparr> rt_nextIndex := rt_nextIndex L + 1, rt_wal := rt_wal L' \<rparr>"
    using l o L' seal_keeps [of ?l] seal_seal [of ?l] by simp_all
qed

text \<open>A log of the leader that is not a commit.\<close>

lemma leader_log:
  assumes "leader_ok E ok entry seal h hs L" and "newLog E t d L = (L', Ok l)" and "t \<noteq> LogCommit"
  shows "leader_ok E ok entry seal h hs L'" and "entry (rt_wal L) \<subseteq>\<^sub>m entry (rt_wal L')"
    and "entry (rt_wal L') (lg_Index l) = Some l" and "lg_Data l = d"
proof -
  have o: "ok (rt_wal L)" using assms(1) by (simp add: leader_ok_def)
  note n = newLog_Ok [OF o assms(2)]
  have "rt_lastCommit L' = rt_lastCommit L" "rt_sh L' = rt_sh L" by (subst n(8), simp)+
  moreover have "history_ok E (entry (rt_wal L')) hs"
    unfolding n(7) by (rule history_grow) (use assms(1,3) n in \<open>auto simp: leader_ok_def\<close>)
  ultimately show "leader_ok E ok entry seal h hs L'"
    using assms(1) n(5,6,7) by (auto simp: leader_ok_def split: if_splits)
  show "entry (rt_wal L) \<subseteq>\<^sub>m entry (rt_wal L')" using n(1,7) by (auto simp: map_le_def)
  show "entry (rt_wal L') (lg_Index l) = Some l" "lg_Data l = d" using n by simp_all
qed

end

context kayak_store
begin

text \<open>The leader's commit extends the history by the request.\<close>

lemma leader_commit_ok:
  assumes "leader_ok E ok entry seal h hs L" and "leaderDoCommit E r L = (L', Ok (l, t, result))"
    and "prepares E (entry (rt_wal L)) (cq_index r) (cq_data r)"
  shows "leader_ok E ok entry seal h (hs @ [(lg_Index l, cq_index r, cq_data r)]) L'"
    and "entry (rt_wal L) \<subseteq>\<^sub>m entry (rt_wal L')" and "entry (rt_wal L') (lg_Index l) = Some l"
    and "rt_followers L' = rt_followers L"
proof -
  let ?ent = "entry (rt_wal L)"
  let ?d = "rt_uint64ToBytes (cq_index r) @ rt_uint64ToBytes (rt_lastCommit L)"
  from assms(2) obtain L1 h1 r1 where new: "newLog E LogCommit ?d L = (L1, Ok l)"
      and com: "sh_Commit E (cq_data r) True (rt_sh L1) = (h1, r1)"
      and L': "L' = L1 \<lparr> rt_sh := h1, rt_lastCommit := lg_Index l \<rparr>"
    by (auto simp: leaderDoCommit_def doCommit_def Let_def split: prod.splits res.splits if_splits)
  have o: "ok (rt_wal L)" and hist: "history_ok E ?ent hs" and last: "rt_lastCommit L = previous hs (length hs)"
      and sh: "rt_sh L = execute E True (requests hs) h" and seal: "\<And>i l. ?ent i = Some l \<Longrightarrow> seal l = l"
      and zero: "?ent \<noteq> Map.empty \<Longrightarrow> ?ent 0 \<noteq> None"
    using assms(1) by (auto simp: leader_ok_def split: if_splits)
  note n = newLog_Ok [OF o new]
  have "?ent \<noteq> Map.empty" using assms(3) by (auto simp: prepares_def)
  then have "?ent 0 \<noteq> None" by (rule zero)
  then have nz: "rt_nextIndex L \<noteq> 0" using n(1) by auto
  have "history_ok E (?ent(rt_nextIndex L \<mapsto> l)) (hs @ [(rt_nextIndex L, cq_index r, cq_data r)])"
    by (rule history_snoc [OF hist n(1) nz n(3) _ assms(3)]) (simp add: n(4) last)
  moreover have "rt_sh L1 = rt_sh L" "rt_followers L1 = rt_followers L" by (subst n(8), simp)+
  ultimately show "leader_ok E ok entry seal h (hs @ [(lg_Index l, cq_index r, cq_data r)]) L'"
    using n(2,5,6,7) sh seal \<open>?ent 0 \<noteq> None\<close> com
    by (auto simp: leader_ok_def L' previous_def requests_def execute_def split: if_splits)
  show "?ent \<subseteq>\<^sub>m entry (rt_wal L')" using n(1,7) by (auto simp: map_le_def L')
  show "entry (rt_wal L') (lg_Index l) = Some l" using n by (simp add: L')
  show "rt_followers L' = rt_followers L" using \<open>rt_followers L1 = _\<close> by (simp add: L')
qed

text \<open>A follower that waits, and one that reads the prepare log of a log.\<close>

lemma follower_waits:
  assumes "follower_ok E ok entry ent h hs F" and "waitForLog E i F = (F', a)"
  shows "follower_ok E ok entry ent h hs F' \<and> rt_wal F' = rt_wal F \<and> (\<forall>l. a = Done l \<longrightarrow> ent i = Some l)"
proof -
  have o: "ok (rt_wal F)" and le: "entry (rt_wal F) \<subseteq>\<^sub>m ent" and w: "\<And>i l. mget (rt_waitLogMap F) i = Some (Some l) \<Longrightarrow> ent i = Some l"
    using assms(1) by (auto simp: follower_ok_def)
  have get: "ent i = Some l" if "kw_Get E i (rt_wal F) = Ok l" for l
    using get_Ok [OF o that] map_le_Some [OF le] by blast
  show ?thesis
    using assms get w by (auto simp: waitForLog_def follower_ok_def split: res.splits option.splits if_splits)
qed

lemma follower_prepare_log:
  assumes "follower_ok E ok entry ent h hs F" and "getPrepareLog E l F = (F', a)"
  shows "follower_ok E ok entry ent h hs F' \<and> rt_wal F' = rt_wal F \<and>
    (\<forall>lc pl. a = Done (Ok (lc, pl)) \<longrightarrow>
      ent (Uint 8 (lg_Data l)) = Some pl \<and> (16 \<le> length (lg_Data l) \<longrightarrow> lc = Uint 8 (drop 8 (lg_Data l))))"
proof (cases "length (lg_Data l) < 8")
  case True
  then show ?thesis using assms by (auto simp: getPrepareLog_def bytesToUint64_def)
next
  case False
  obtain F1 a1 where w1: "waitForLog E (Uint 8 (lg_Data l)) F = (F1, a1)" by fastforce
  note f1 = follower_waits [OF assms(1) w1]
  obtain F2 a2 where w2: "waitForLog E (Uint 8 (drop 8 (lg_Data l))) F1 = (F2, a2)" by fastforce
  have f2: "follower_ok E ok entry ent h hs F2 \<and> rt_wal F2 = rt_wal F1 \<and> (\<forall>l'. a2 = Done l' \<longrightarrow> ent (Uint 8 (drop 8 (lg_Data l))) = Some l')"
    using follower_waits [OF _ w2] f1 by blast
  show ?thesis
    using assms(2) f1 f2 False
    by (auto simp: getPrepareLog_def bytesToUint64_def w1 w2 Let_def split: awaited.splits if_splits)
qed

text \<open>A follower that writes a log of the leader.\<close>

lemma follower_writes:
  assumes "follower_ok E ok entry ent h hs F" and "ent (lg_Index l) = Some l" and "seal l = l"
    and "writeWAL E l F = (F', r)"
  shows "follower_ok E ok entry ent h hs F' \<and> F' = F \<lparr> rt_wal := rt_wal F' \<rparr> \<and>
    entry (rt_wal F) \<subseteq>\<^sub>m entry (rt_wal F') \<and> (r = Ok () \<longrightarrow> entry (rt_wal F') (lg_Index l) = Some l)"
proof -
  obtain w l' r' where W: "kw_Write E (Some l) (rt_wal F) = (w, l', r')" by (metis prod_cases3)
  have F': "F' = F \<lparr> rt_wal := w \<rparr>" and r: "r = Ok () \<longleftrightarrow> r' = Ok ()"
    using assms(4) W by (auto simp: writeWAL_def split: res.splits)
  have o: "ok (rt_wal F)" and le: "entry (rt_wal F) \<subseteq>\<^sub>m ent" using assms(1) by (auto simp: follower_ok_def)
  note mono = write_mono [OF o W]
  have "entry w \<subseteq>\<^sub>m ent \<and> (r' = Ok () \<longrightarrow> entry w (lg_Index l) = Some l)"
  proof (cases "r' = Ok ()")
    case True
    from write_Ok [OF o W [unfolded True]] assms(2,3) le show ?thesis by (auto simp: map_le_def)
  next
    case False
    from write_fail [OF o W False] le False show ?thesis by simp
  qed
  with mono assms(1) show ?thesis by (auto simp: follower_ok_def F' r)
qed

end

text \<open>What a follower may change without touching the invariant.\<close>

lemma follower_ok_frame:
  assumes "follower_ok E ok entry ent h hs F" and "rt_wal F' = rt_wal F" and "rt_waitLogMap F' = rt_waitLogMap F"
    and "rt_lastCommit F' = rt_lastCommit F" and "rt_sh F' = rt_sh F"
  shows "follower_ok E ok entry ent h hs F'"
  using assms by (simp add: follower_ok_def)

lemma follower_ok_applied:
  assumes "follower_ok E ok entry ent h hs F" and "ent (lg_Index l) = Some l"
  shows "follower_ok E ok entry ent h hs (follower_applied l F) \<and> rt_wal (follower_applied l F) = rt_wal F"
  using assms
  by (auto simp: follower_ok_def follower_applied_def triggerLogAwaits_def updateNextIndex_def split: option.splits if_splits)

lemma follower_ok_marks:
  "follower_ok E ok entry ent h hs F \<Longrightarrow> follower_ok E ok entry ent h hs (markPendingPrepare i F)"
  "follower_ok E ok entry ent h hs F \<Longrightarrow> follower_ok E ok entry ent h hs (markPrepareFinished i F)"
  "rt_wal (markPendingPrepare i F) = rt_wal F" "rt_wal (markPrepareFinished i F) = rt_wal F"
  by (simp_all add: follower_ok_def markPendingPrepare_def markPrepareFinished_def)

context kayak_store
begin

lemma follower_prepare_ok:
  assumes "follower_ok E ok entry ent h hs F" and "ent (lg_Index l) = Some l" and "seal l = l"
    and "followerPrepare E l chk F = (F', r)"
  shows "follower_ok E ok entry ent h hs F' \<and> entry (rt_wal F) \<subseteq>\<^sub>m entry (rt_wal F') \<and>
    (r = Ok () \<longrightarrow> entry (rt_wal F') (lg_Index l) = Some l)"
proof -
  have check: "follower_ok E ok entry ent h hs F1 \<and> rt_wal F1 = rt_wal F"
    if "(if chk then doCheck E q F else (F, Ok ())) = (F1, r1)" for q F1 r1
    using that follower_ok_frame [OF assms(1), of F1] assms(1) by (auto simp: doCheck_def split: if_splits prod.splits)
  show ?thesis
  proof (cases "\<exists>q F1. doDecodePayload E (lg_Data l) = Ok q \<and> (if chk then doCheck E q F else (F, Ok ())) = (F1, Ok ())")
    case True
    then obtain q F1 where q: "doDecodePayload E (lg_Data l) = Ok q" "(if chk then doCheck E q F else (F, Ok ())) = (F1, Ok ())"
      by blast
    obtain F2 r2 where W: "writeWAL E l F1 = (F2, r2)" by fastforce
    from follower_writes [where ent = ent and h = h and hs = hs, OF _ assms(2,3) W] check [OF q(2)] have "follower_ok E ok entry ent h hs F2"
        "entry (rt_wal F) \<subseteq>\<^sub>m entry (rt_wal F2)" "r2 = Ok () \<longrightarrow> entry (rt_wal F2) (lg_Index l) = Some l" by auto
    then show ?thesis
      using assms(4) W by (cases r2) (auto simp: followerPrepare_def q follower_ok_marks)
  next
    case False
    then have "r \<noteq> Ok ()" "F' = F \<or> (\<exists>q r1. (if chk then doCheck E q F else (F, Ok ())) = (F', r1))"
      using assms(4) by (auto simp: followerPrepare_def split: res.splits prod.splits) blast+
    then show ?thesis using check assms(1) by auto
  qed
qed

lemma follower_rollback_ok:
  assumes "follower_ok E ok entry ent h hs F" and "ent (lg_Index l) = Some l" and "seal l = l"
    and "followerRollback E l F = (F', a)"
  shows "follower_ok E ok entry ent h hs F' \<and> entry (rt_wal F) \<subseteq>\<^sub>m entry (rt_wal F')"
proof -
  obtain F1 a1 where g: "getPrepareLog E l F = (F1, a1)" by fastforce
  note f1 = follower_prepare_log [OF assms(1) g]
  obtain F2 r2 where W: "writeWAL E l F1 = (F2, r2)" by fastforce
  have f2: "follower_ok E ok entry ent h hs F2 \<and> entry (rt_wal F1) \<subseteq>\<^sub>m entry (rt_wal F2)"
    using follower_writes [where ent = ent and h = h and hs = hs, OF _ assms(2,3) W] f1 by blast
  have "F' = F1 \<or> F' = F2 \<or> (\<exists>i. F' = markPrepareFinished i F2)"
    using assms(4) by (auto simp: followerRollback_def g W split: awaited.splits res.splits if_splits)
  then show ?thesis using f1 f2 by (auto simp: follower_ok_marks)
qed

lemma follower_commit_queues:
  assumes "follower_ok E ok entry ent h hs F" and "history_ok E ent hs" and "ent (lg_Index l) = Some l" and "lg_Type l = LogCommit"
    and "followerCommit E l F = (F', a)"
  shows "follower_ok E ok entry ent h hs F' \<and> rt_wal F' = rt_wal F \<and> (\<forall>r. a = Done (Ok r) \<longrightarrow> follower_request E ent r)"
proof -
  obtain F1 a1 where g: "getPrepareLog E l F = (F1, a1)" by fastforce
  note f1 = follower_prepare_log [OF assms(1) g]
  have F': "F' = F1" using assms(5) by (auto simp: followerCommit_def g split: awaited.splits res.splits if_splits)
  have "lg_Index l \<in> fst ` set hs" by (rule history_okD(3) [OF assms(2,3,4)])
  then obtain k p q where "k < length hs" "hs ! k = (lg_Index l, p, q)" by (auto simp: in_set_conv_nth)
  then have com: "commits ent (lg_Index l) p (previous hs k)" using history_okD(2) [OF assms(2)] by blast
  then have d: "lg_Data l = rt_uint64ToBytes p @ rt_uint64ToBytes (previous hs k)" using assms(3) by (simp add: commits_def)
  have "follower_request E ent r" if "a = Done (Ok r)" for r
  proof -
    from assms(5) that obtain lc pl where a1: "a1 = Done (Ok (lc, pl))" and r: "followerCommitResult E l pl lc F1 = Ok r"
      by (auto simp: followerCommit_def g split: awaited.splits res.splits if_splits)
    with f1 have "ent p = Some pl" "lc = previous hs k" by (auto simp: d uint64_pair)
    moreover from r obtain q where "sh_DecodePayload E (lg_Data pl) = Ok q"
        "r = \<lparr> cq_data = q, cq_index = lg_Index pl, cq_lastCommit = lc, cq_log = Some l \<rparr>"
      by (auto simp: followerCommitResult_def doDecodePayload_def callback_def split: res.splits if_splits)
    ultimately show ?thesis using assms(3) com by (auto simp: follower_request_def prepares_def)
  qed
  then show ?thesis using f1 F' by blast
qed

end

context kayak_store
begin

lemma follower_apply_ok:
  assumes "follower_ok E ok entry ent h hs F" and "history_ok E ent hs" and "ent (lg_Index l) = Some l" and "seal l = l"
    and "followerApply E (Some l) chk F = (F', a)"
  shows "follower_ok E ok entry ent h hs F' \<and> entry (rt_wal F) \<subseteq>\<^sub>m entry (rt_wal F') \<and>
    (\<forall>r \<in> set (queued a). follower_request E ent r) \<and>
    (lg_Type l = LogPrepare \<longrightarrow> (\<exists>x. a = Done (Ok x)) \<longrightarrow> entry (rt_wal F') (lg_Index l) = Some l)"
proof (cases "rt_started F = 1 \<and> rt_role F \<noteq> Leader")
  case False
  then show ?thesis using assms(1,5) by (auto simp: followerApply_def queued_def split: if_splits)
next
  case True
  note app = assms(5) [unfolded followerApply_def]
  show ?thesis
  proof (cases "lg_Type l")
    case LogPrepare
    obtain F1 r1 where p: "followerPrepare E l chk F = (F1, r1)" by fastforce
    note f1 = follower_prepare_ok [OF assms(1,3,4) p]
    note f2 = follower_ok_applied [OF f1 [THEN conjunct1] assms(3)]
    show ?thesis
      using app True f1 f2 by (cases r1) (auto simp: LogPrepare p queued_def)
  next
    case LogRollback
    obtain F1 a1 where p: "followerRollback E l F = (F1, a1)" by fastforce
    note f1 = follower_rollback_ok [OF assms(1,3,4) p]
    note f2 = follower_ok_applied [OF f1 [THEN conjunct1] assms(3)]
    show ?thesis
      using app True f1 f2 by (auto simp: LogRollback p queued_def split: awaited.splits res.splits)
  next
    case LogCommit
    obtain F1 a1 where p: "followerCommit E l F = (F1, a1)" by fastforce
    note f1 = follower_commit_queues [OF assms(1,2,3) LogCommit p]
    show ?thesis
      using app True f1 by (auto simp: LogCommit p queued_def split: awaited.splits res.splits)
  qed (use app True follower_ok_applied [OF assms(1,3)] in \<open>auto simp: queued_def\<close>)
qed

text \<open>A turn of the commit cycle executes the next request of the history or none.\<close>

lemma follower_turn_ok:
  assumes "follower_ok E ok entry ent h hs F" and "history_ok E ent hs" and "\<forall>i l. ent i = Some l \<longrightarrow> seal l = l"
    and "follower_request E ent r" and "followerDoCommit E r F = (F', Ok turn)"
  shows "follower_ok E ok entry ent h hs F' \<and> entry (rt_wal F) \<subseteq>\<^sub>m entry (rt_wal F')"
proof (cases "cq_lastCommit r = rt_lastCommit F")
  case False
  then show ?thesis using assms(1,5) by (auto simp: followerDoCommit_def split: option.splits)
next
  case True
  from assms(1) obtain k where k: "k \<le> length hs" "rt_lastCommit F = previous hs k"
      "rt_sh F = execute E False (take k (requests hs)) h" by (auto simp: follower_ok_def)
  obtain l p where l: "k < length hs" "cq_log r = Some l" "ent (lg_Index l) = Some l" "hs ! k = (lg_Index l, p, cq_data r)"
    using follower_request_next [OF assms(2,4) k(1)] True k(2) by metis
  obtain F1 r1 where W: "writeWAL E l F = (F1, r1)" by fastforce
  have f1: "follower_ok E ok entry ent h hs F1" "F1 = F \<lparr> rt_wal := rt_wal F1 \<rparr>" "entry (rt_wal F) \<subseteq>\<^sub>m entry (rt_wal F1)"
    using follower_writes [OF assms(1) l(3) _ W] assms(3) l(3) by blast+
  obtain h2 r2 where C: "sh_Commit E (cq_data r) False (rt_sh F1) = (h2, r2)" by fastforce
  have "rt_sh F1 = rt_sh F" using f1(2) by (metis Runtime.select_convs(6) Runtime.surjective Runtime.update_convs(5))
  then have "h2 = execute E False (take (Suc k) (requests hs)) h"
    using C k(3) l(1,4) by (simp add: take_Suc_conv_app_nth execute_snoc requests_def)
  moreover have "lg_Index l = previous hs (Suc k)" using l(4) by (simp add: previous_def)
  ultimately have "follower_ok E ok entry ent h hs (F1 \<lparr> rt_sh := h2, rt_lastCommit := lg_Index l \<rparr>)"
    using f1(1) l(1) by (auto simp: follower_ok_def intro!: exI [of _ "Suc k"])
  moreover have "F' = F1 \<or> F' = F1 \<lparr> rt_sh := h2, rt_lastCommit := lg_Index l \<rparr>"
    using assms(5) True by (auto simp: followerDoCommit_def l(2) W C doCommit_def split: res.splits)
  ultimately show ?thesis using f1 by auto
qed

end

lemma follower_ok_mono:
  assumes "follower_ok E ok entry ent h hs F" and "ent \<subseteq>\<^sub>m ent'"
  shows "follower_ok E ok entry ent' h (hs @ xs) F"
proof -
  from assms(1) obtain k where "k \<le> length hs" "rt_lastCommit F = previous hs k"
      "rt_sh F = execute E False (take k (requests hs)) h" by (auto simp: follower_ok_def)
  then have "\<exists>k \<le> length (hs @ xs). rt_lastCommit F = previous (hs @ xs) k \<and>
      rt_sh F = execute E False (take k (requests (hs @ xs))) h"
    by (intro exI [of _ k]) (simp add: previous_append)
  then show ?thesis
    using assms map_le_trans map_le_Some [OF assms(2)] unfolding follower_ok_def by blast
qed

text \<open>A step of the leader, and a step of one follower.\<close>

lemma sys_ok_leader:
  assumes "sys_ok E ok entry seal h hs s" and "leader_ok E ok entry seal h (hs @ xs) L"
    and "entry (rt_wal (ks_leader s)) \<subseteq>\<^sub>m entry (rt_wal L)"
    and "\<forall>l \<in> set ls. l \<in> set (ks_sent s) \<or> entry (rt_wal L) (lg_Index l) = Some l"
    and "\<forall>a \<in> set as. a \<in> set (ks_applies s) \<or> call_ok E (entry (rt_wal L)) a"
    and "\<forall>r \<in> set rs. r \<in> set (ks_queue s) \<or> prepares E (entry (rt_wal L)) (cq_index r) (cq_data r)"
  shows "sys_ok E ok entry seal h (hs @ xs) (s \<lparr> ks_leader := L, ks_sent := ls, ks_applies := as, ks_queue := rs \<rparr>)"
proof -
  let ?ent = "entry (rt_wal (ks_leader s))" and ?ent' = "entry (rt_wal L)"
  have old: "\<forall>f. follower_ok E ok entry ?ent h hs (ks_followers s f)" "\<forall>l \<in> set (ks_sent s). ?ent (lg_Index l) = Some l"
      "\<forall>a \<in> set (ks_applies s). call_ok E ?ent a" "\<forall>r \<in> set (ks_queue s). prepares E ?ent (cq_index r) (cq_data r)"
      "\<forall>f. \<forall>r \<in> set (ks_fqueue s f) \<union> set (ks_fdone s f). follower_request E ?ent r"
    using assms(1) by (auto simp: sys_ok_def Let_def)
  have "\<forall>f. follower_ok E ok entry ?ent' h (hs @ xs) (ks_followers s f)"
    using old(1) by (blast intro: follower_ok_mono [OF _ assms(3)])
  moreover have "\<forall>l \<in> set ls. ?ent' (lg_Index l) = Some l" using old(2) assms(4) by (blast intro: map_le_Some [OF assms(3)])
  moreover have "\<forall>a \<in> set as. call_ok E ?ent' a" using old(3) assms(5) by (blast intro: call_ok_mono [OF assms(3)])
  moreover have "\<forall>r \<in> set rs. prepares E ?ent' (cq_index r) (cq_data r)" using old(4) assms(6) by (blast intro: prepares_mono [OF assms(3)])
  moreover have "\<forall>f. \<forall>r \<in> set (ks_fqueue s f) \<union> set (ks_fdone s f). follower_request E ?ent' r"
    using old(5) by (blast intro: follower_request_mono [OF assms(3)])
  ultimately show ?thesis using assms(2) by (simp add: sys_ok_def)
qed

lemma sys_ok_follower:
  assumes "sys_ok E ok entry seal h hs s" and "follower_ok E ok entry (entry (rt_wal (ks_leader s))) h hs F"
    and "\<forall>r \<in> set q \<union> set d. follower_request E (entry (rt_wal (ks_leader s))) r"
    and "\<forall>a \<in> set as. a \<in> set (ks_applies s) \<or> call_ok E (entry (rt_wal (ks_leader s))) a"
  shows "sys_ok E ok entry seal h hs (s \<lparr> ks_followers := (ks_followers s)(f := F), ks_applies := as,
    ks_fqueue := (ks_fqueue s)(f := q), ks_fdone := (ks_fdone s)(f := d) \<rparr>)"
  using assms by (auto simp: sys_ok_def Let_def)

lemma sys_okD:
  assumes "sys_ok E ok entry seal h hs s"
  shows "leader_ok E ok entry seal h hs (ks_leader s)"
    and "follower_ok E ok entry (entry (rt_wal (ks_leader s))) h hs (ks_followers s f)"
    and "l \<in> set (ks_sent s) \<Longrightarrow> entry (rt_wal (ks_leader s)) (lg_Index l) = Some l"
    and "a \<in> set (ks_applies s) \<Longrightarrow> call_ok E (entry (rt_wal (ks_leader s))) a"
    and "r \<in> set (ks_queue s) \<Longrightarrow> prepares E (entry (rt_wal (ks_leader s))) (cq_index r) (cq_data r)"
    and "r \<in> set (ks_fqueue s f) \<union> set (ks_fdone s f) \<Longrightarrow> follower_request E (entry (rt_wal (ks_leader s))) r"
    and "history_ok E (entry (rt_wal (ks_leader s))) hs"
    and "entry (rt_wal (ks_leader s)) i = Some l \<Longrightarrow> seal l = l"
  using assms by (auto simp: sys_ok_def Let_def leader_ok_def)

lemma leader_ok_frame:
  assumes "leader_ok E ok entry seal h hs L" and "rt_wal L' = rt_wal L" and "rt_lastCommit L' = rt_lastCommit L"
    and "rt_sh L' = rt_sh L" and "rt_nextIndex L' = rt_nextIndex L"
  shows "leader_ok E ok entry seal h hs L'"
  using assms by (simp add: leader_ok_def)

context kayak_store
begin

text \<open>The first part of \<open>Apply\<close>, and a rollback.\<close>

lemma leader_apply_ok:
  assumes "leader_ok E ok entry seal h hs L" and "rt_Apply E q L = (L', Ok (l, t))" and "payload_ok E"
  shows "leader_ok E ok entry seal h hs L' \<and> entry (rt_wal L) \<subseteq>\<^sub>m entry (rt_wal L') \<and>
    entry (rt_wal L') (lg_Index l) = Some l \<and> lg_Type l = LogPrepare \<and> prepares E (entry (rt_wal L')) (lg_Index l) q \<and>
    rt_followers L' = rt_followers L \<and> rt_minPreparedFollowers L' = rt_minPreparedFollowers L \<and>
    t = applyRPC (rt_minPreparedFollowers L) L"
proof -
  from assms(2) obtain c b L2 where enc: "sh_EncodePayload E q = Ok b"
      and n: "newLog E LogPrepare b (L \<lparr> rt_checks := c \<rparr>) = (L2, Ok l)"
      and L': "L' = markPendingPrepare (lg_Index l) L2" and t: "t = applyRPC (rt_minPreparedFollowers L') L'"
    by (auto simp: rt_Apply_def doLeaderPrepare_def doCheck_def doEncodePayload_def callback_def leaderLogPrepare_def Let_def
        split: if_splits prod.splits res.splits)
  let ?L = "L \<lparr> rt_checks := c \<rparr>"
  have L: "leader_ok E ok entry seal h hs ?L" by (rule leader_ok_frame [OF assms(1)]) simp_all
  note l = leader_log [OF L n]
  have o: "ok (rt_wal ?L)" using L by (simp add: leader_ok_def)
  note f = newLog_Ok(8) [OF o n]
  have fields: "rt_followers L2 = rt_followers L" "rt_minPreparedFollowers L2 = rt_minPreparedFollowers L" by (subst f, simp)+
  have "leader_ok E ok entry seal h hs L'"
    by (rule leader_ok_frame [OF l(1)]) (simp_all add: L' markPendingPrepare_def)
  moreover have "prepares E (entry (rt_wal L2)) (lg_Index l) q"
    using l(3,4) enc assms(3) by (simp add: prepares_def payload_ok_def)
  moreover have "lg_Type l = LogPrepare" by (rule newLog_Ok(3) [OF o n])
  ultimately show ?thesis
    using l(2,3) fields by (simp add: L' t markPendingPrepare_def applyRPC_def newTracker_def)
qed

lemma leader_refuses:
  assumes "leader_ok E ok entry seal h hs L" and "rt_Apply E q L = (L', Err e)"
  shows "leader_ok E ok entry seal h hs L' \<and> rt_wal L' = rt_wal L \<and> rt_followers L' = rt_followers L \<and>
    rt_minPreparedFollowers L' = rt_minPreparedFollowers L"
proof -
  have "\<exists>c. L' = L \<lparr> rt_checks := c \<rparr>"
    using assms(2)
    by (auto simp: rt_Apply_def doLeaderPrepare_def doCheck_def leaderLogPrepare_def newLog_def Let_def
        split: if_splits prod.splits res.splits option.splits intro: exI [of _ "rt_checks L"])
  then show ?thesis using leader_ok_frame [OF assms(1), of L'] by auto
qed

lemma leader_rollback_ok:
  assumes "leader_ok E ok entry seal h hs L" and "doLeaderRollback E pl L = (L', Ok (l, t))"
  shows "leader_ok E ok entry seal h hs L' \<and> entry (rt_wal L) \<subseteq>\<^sub>m entry (rt_wal L') \<and>
    entry (rt_wal L') (lg_Index l) = Some l \<and> lg_Type l = LogRollback \<and>
    rt_followers L' = rt_followers L \<and> rt_minPreparedFollowers L' = rt_minPreparedFollowers L"
proof -
  have n: "newLog E LogRollback (rt_uint64ToBytes (lg_Index pl)) L = (L', Ok l)"
    using assms(2) by (auto simp: doLeaderRollback_def leaderLogRollback_def split: prod.splits res.splits)
  have o: "ok (rt_wal L)" using assms(1) by (simp add: leader_ok_def)
  note f = newLog_Ok(8) [OF o n]
  have "rt_followers L' = rt_followers L" "rt_minPreparedFollowers L' = rt_minPreparedFollowers L" by (subst f, simp)+
  then show ?thesis using leader_log [OF assms(1) n] newLog_Ok(3) [OF o n] by simp
qed

lemma leader_ok_finished: "leader_ok E ok entry seal h hs L \<Longrightarrow> leader_ok E ok entry seal h hs (markPrepareFinished i L)"
  by (rule leader_ok_frame) (simp_all add: markPrepareFinished_def)

lemma markPrepareFinished_sel [simp]:
  "rt_wal (markPrepareFinished i L) = rt_wal L" "rt_followers (markPrepareFinished i L) = rt_followers L"
  "rt_minPreparedFollowers (markPrepareFinished i L) = rt_minPreparedFollowers L"
  by (simp_all add: markPrepareFinished_def)

end

text \<open>Steps of the system in which the leader's log grows by one entry, or no log grows.\<close>

context kayak_store
begin

lemma step_called:
  assumes "sys_ok E ok entry seal h hs s" and "rt_Apply E q (ks_leader s) = (L, Ok (l, t))" and "payload_ok E"
  shows "sys_ok E ok entry seal h hs (s \<lparr> ks_leader := L, ks_sent := l # ks_sent s,
    ks_applies := Preparing l q t out # ks_applies s \<rparr>)"
proof -
  note l = leader_apply_ok [OF sys_okD(1) [OF assms(1)] assms(2,3)]
  have "sys_ok E ok entry seal h (hs @ []) (s \<lparr> ks_leader := L, ks_sent := l # ks_sent s,
      ks_applies := Preparing l q t out # ks_applies s, ks_queue := ks_queue s \<rparr>)"
    by (rule sys_ok_leader [OF assms(1)]) (use l in \<open>auto simp: call_ok_def\<close>)
  then show ?thesis by simp
qed

lemma step_idle:
  assumes "sys_ok E ok entry seal h hs s" and "leader_ok E ok entry seal h hs L" and "rt_wal L = rt_wal (ks_leader s)"
    and "\<forall>a \<in> set as. a \<in> set (ks_applies s) \<or> call_ok E (entry (rt_wal (ks_leader s))) a"
    and "\<forall>r \<in> set rs. r \<in> set (ks_queue s) \<or> prepares E (entry (rt_wal (ks_leader s))) (cq_index r) (cq_data r)"
  shows "sys_ok E ok entry seal h hs (s \<lparr> ks_leader := L, ks_applies := as, ks_queue := rs \<rparr>)"
proof -
  have "sys_ok E ok entry seal h (hs @ []) (s \<lparr> ks_leader := L, ks_sent := ks_sent s, ks_applies := as, ks_queue := rs \<rparr>)"
    by (rule sys_ok_leader [OF assms(1)]) (use assms in auto)
  then show ?thesis by simp
qed

lemma step_not_prepared:
  assumes "sys_ok E ok entry seal h hs s" and "doLeaderRollback E l (ks_leader s) = (L, Ok (rl, t))"
    and "set as \<subseteq> set (ks_applies s)"
  shows "sys_ok E ok entry seal h hs (s \<lparr> ks_leader := markPrepareFinished i L, ks_sent := rl # ks_sent s, ks_applies := as \<rparr>)"
proof -
  note l = leader_rollback_ok [OF sys_okD(1) [OF assms(1)] assms(2)]
  have "sys_ok E ok entry seal h (hs @ []) (s \<lparr> ks_leader := markPrepareFinished i L,
      ks_sent := rl # ks_sent s, ks_applies := as, ks_queue := ks_queue s \<rparr>)"
    by (rule sys_ok_leader [OF assms(1)]) (use assms(3) l leader_ok_finished in auto)
  then show ?thesis by simp
qed

lemma step_leader_commit:
  assumes "sys_ok E ok entry seal h hs s" and "ks_queue s = xs @ r # ys"
    and "leaderDoCommit E r (ks_leader s) = (L, Ok (l, t, result))"
  shows "sys_ok E ok entry seal h (hs @ [(lg_Index l, cq_index r, cq_data r)])
    (s \<lparr> ks_leader := L, ks_sent := l # ks_sent s, ks_queue := xs @ ys \<rparr>)"
proof -
  have p: "prepares E (entry (rt_wal (ks_leader s))) (cq_index r) (cq_data r)"
    using sys_okD(5) [OF assms(1)] assms(2) by simp
  note l = leader_commit_ok [OF sys_okD(1) [OF assms(1)] assms(3) p]
  have "sys_ok E ok entry seal h (hs @ [(lg_Index l, cq_index r, cq_data r)]) (s \<lparr> ks_leader := L, ks_sent := l # ks_sent s,
      ks_applies := ks_applies s, ks_queue := xs @ ys \<rparr>)"
    by (rule sys_ok_leader [OF assms(1)]) (use assms(2) l in auto)
  then show ?thesis by simp
qed

text \<open>Steps of a follower.\<close>

lemma step_applied:
  assumes "sys_ok E ok entry seal h hs s" and "entry (rt_wal (ks_leader s)) (lg_Index l) = Some l"
    and "followerApply E (Some l) chk (ks_followers s f) = (F, a)"
    and "\<forall>x \<in> set as. x \<in> set (ks_applies s) \<or> call_ok E (entry (rt_wal (ks_leader s))) x"
    and "set q \<subseteq> set (ks_fqueue s f) \<union> set (queued a)"
  shows "sys_ok E ok entry seal h hs (s \<lparr> ks_followers := (ks_followers s)(f := F), ks_applies := as,
    ks_fqueue := (ks_fqueue s)(f := q) \<rparr>)"
proof -
  note f = follower_apply_ok [OF sys_okD(2) [OF assms(1)] sys_okD(7) [OF assms(1)] assms(2) sys_okD(8) [OF assms(1,2)] assms(3)]
  have "sys_ok E ok entry seal h hs (s \<lparr> ks_followers := (ks_followers s)(f := F), ks_applies := as,
      ks_fqueue := (ks_fqueue s)(f := q), ks_fdone := (ks_fdone s)(f := ks_fdone s f) \<rparr>)"
    by (rule sys_ok_follower [OF assms(1)]) (use f assms(4,5) sys_okD(6) [OF assms(1), of _ f] in auto)
  then show ?thesis by simp
qed

lemma fetched_entry:
  assumes "sys_ok E ok entry seal h hs s" and "rt_Fetch E i (ks_leader s) = Ok l"
  shows "entry (rt_wal (ks_leader s)) (lg_Index l) = Some l"
proof -
  have o: "ok (rt_wal (ks_leader s))" using sys_okD(1) [OF assms(1)] by (simp add: leader_ok_def)
  have "kw_Get E i (rt_wal (ks_leader s)) = Ok l"
    using assms(2) by (auto simp: rt_Fetch_def split: if_splits res.splits)
  then show ?thesis using get_Ok [OF o] entry_index [OF o] by metis
qed

lemma step_follower_commit:
  assumes "sys_ok E ok entry seal h hs s" and "ks_fqueue s f = xs @ r # ys"
    and "followerDoCommit E r (ks_followers s f) = (F, Ok turn)" and "set d \<subseteq> insert r (set (ks_fdone s f))"
  shows "sys_ok E ok entry seal h hs (s \<lparr> ks_followers := (ks_followers s)(f := F),
    ks_fqueue := (ks_fqueue s)(f := after_turn turn r (xs @ ys)), ks_fdone := (ks_fdone s)(f := d) \<rparr>)"
proof -
  have r: "follower_request E (entry (rt_wal (ks_leader s))) r" using sys_okD(6) [OF assms(1), of r f] assms(2) by simp
  have f: "follower_ok E ok entry (entry (rt_wal (ks_leader s))) h hs F"
    using follower_turn_ok [OF sys_okD(2) [OF assms(1)] sys_okD(7) [OF assms(1)] _ r assms(3)] sys_okD(8) [OF assms(1)]
    by blast
  have "sys_ok E ok entry seal h hs (s \<lparr> ks_followers := (ks_followers s)(f := F), ks_applies := ks_applies s,
      ks_fqueue := (ks_fqueue s)(f := after_turn turn r (xs @ ys)), ks_fdone := (ks_fdone s)(f := d) \<rparr>)"
    by (rule sys_ok_follower [OF assms(1) f])
      (use r assms(2,4) sys_okD(6) [OF assms(1), of _ f] in \<open>auto simp: after_turn_def split: if_splits\<close>)
  then show ?thesis by simp
qed

lemma step_follower_done:
  assumes "sys_ok E ok entry seal h hs s" and "ks_fdone s f = xs @ r # ys" and "cq_log r = Some l"
  shows "sys_ok E ok entry seal h hs (s \<lparr> ks_followers := (ks_followers s)(f := followerCommitted r l (ks_followers s f)),
    ks_fdone := (ks_fdone s)(f := xs @ ys) \<rparr>)"
proof -
  have "follower_request E (entry (rt_wal (ks_leader s))) r" using sys_okD(6) [OF assms(1), of r f] assms(2) by simp
  then have l: "entry (rt_wal (ks_leader s)) (lg_Index l) = Some l" using assms(3) by (auto simp: follower_request_def)
  have f: "follower_ok E ok entry (entry (rt_wal (ks_leader s))) h hs (followerCommitted r l (ks_followers s f))"
    unfolding followerCommitted_def
    by (rule follower_ok_applied [THEN conjunct1, OF follower_ok_marks(2) [OF sys_okD(2) [OF assms(1)]] l])
  have "sys_ok E ok entry seal h hs (s \<lparr> ks_followers := (ks_followers s)(f := followerCommitted r l (ks_followers s f)),
      ks_applies := ks_applies s, ks_fqueue := (ks_fqueue s)(f := ks_fqueue s f), ks_fdone := (ks_fdone s)(f := xs @ ys) \<rparr>)"
    by (rule sys_ok_follower [OF assms(1) f]) (use assms(2) sys_okD(6) [OF assms(1), of _ f] in auto)
  then show ?thesis by simp
qed

end

context kayak_store
begin

lemma step_ok:
  assumes "sys_ok E ok entry seal h hs s" and "kayak_step E s s'" and "payload_ok E"
  shows "\<exists>xs. sys_ok E ok entry seal h (hs @ xs) s'"
proof -
  note L = sys_okD(1) [OF assms(1)]
  have call: "call_ok E (entry (rt_wal (ks_leader s))) a" if "ks_applies s = xs @ a # ys" for xs a ys
    using sys_okD(4) [OF assms(1)] that by simp
  have same: "\<exists>xs. sys_ok E ok entry seal h (hs @ xs) s'" if "sys_ok E ok entry seal h hs s'"
    using that by (intro exI [of _ "[]"]) simp
  note idle = step_idle [OF assms(1), where L = "ks_leader s" and rs = "ks_queue s", simplified]
    step_idle [OF assms(1) leader_ok_finished [OF L], where rs = "ks_queue s", simplified]
  show ?thesis
    using assms(2)
  proof cases
    case (called q L l t)
    then show ?thesis using step_called [OF assms(1) called(2) assms(3)] same by simp
  next
    case (refused q L e)
    then show ?thesis
      using leader_refuses [OF sys_okD(1) [OF assms(1)] refused(2)] same
        step_idle [OF assms(1), where L = L and as = "ks_applies s" and rs = "ks_queue s"] by simp
  next
    case (reply xs l q t out ys idx f F r err)
    from call [OF reply(2)] have l: "entry (rt_wal (ks_leader s)) (lg_Index l) = Some l"
        "call_ok E (entry (rt_wal (ks_leader s))) (Preparing l q (callSingle idx err t) (remove1 idx out))"
      by (simp_all add: call_ok_def)
    then show ?thesis
      using step_applied [OF assms(1) l(1) reply(5), where q = "ks_fqueue s f"
          and as = "xs @ Preparing l q (callSingle idx err t) (remove1 idx out) # ys"] reply(1,2) same by auto
  next
    case (lost xs l q t out ys idx e)
    from call [OF lost(2)] have "call_ok E (entry (rt_wal (ks_leader s))) (Preparing l q (callSingle idx (Some e) t) (remove1 idx out))"
      by (simp add: call_ok_def)
    then show ?thesis
      using idle(1) [OF L, of "xs @ Preparing l q (callSingle idx (Some e) t) (remove1 idx out) # ys"] lost(1,2) same by auto
  next
    case (prepared xs l q t out ys ctxDone)
    from call [OF prepared(2)] show ?thesis
      using step_idle [OF assms(1) L refl, of "xs @ Committing l # ys" "ks_queue s @ [leaderCommitResult q l]"] prepared(1,2) same
      by (auto simp: call_ok_def leaderCommitResult_def)
  next
    case (abandoned xs l q t out ys ctxDone)
    then show ?thesis using idle(2) [of "xs @ ys" "lg_Index l"] same by auto
  next
    case (not_prepared xs l q t out ys ctxDone e L rl rt)
    then show ?thesis using step_not_prepared [OF assms(1) not_prepared(4), of "xs @ ys"] same by auto
  next
    case (leader_commit xs r ys L l t result)
    then show ?thesis using step_leader_commit [OF assms(1)] by blast
  next
    case (finished xs l ys)
    then show ?thesis using idle(2) [of "xs @ ys" "lg_Index l"] same by auto
  next
    case (deliver f l F a)
    then show ?thesis
      using step_applied [OF assms(1) sys_okD(3) [OF assms(1) deliver(3)] deliver(4), of "ks_applies s" "ks_fqueue s f @ queued a"] same
      by simp
  next
    case (fetch f i l F a)
    then show ?thesis
      using step_applied [OF assms(1) fetched_entry [OF assms(1) fetch(3)] fetch(4), of "ks_applies s" "ks_fqueue s f @ queued a"] same
      by simp
  next
    case (follower_commit f xs r ys F turn)
    have "set ((if turn = Requeued \<or> turn = Dropped then [] else [r]) @ ks_fdone s f) \<subseteq> insert r (set (ks_fdone s f))" by auto
    from step_follower_commit [OF assms(1) follower_commit(2,3) this] show ?thesis
      unfolding follower_commit(1) by (rule same [unfolded follower_commit(1)])
  next
    case (follower_done f xs r ys l)
    then show ?thesis using step_follower_done [OF assms(1) follower_done(2,3)] same by simp
  qed
qed

end

section \<open>Commits need a quorum\<close>

text \<open>
  The followers that have logged an entry; the number the leader waits for; and the
  tracker of a prepare call, whose outstanding calls are \<open>out\<close>.
\<close>

definition held :: "('w \<Rightarrow> u64 \<Rightarrow> Log option) \<Rightarrow> ('w, 'h, 'c, 'q) kayak_sys \<Rightarrow> u64 \<Rightarrow> NodeID set" where
  "held entry s i = {f \<in> set (rt_followers (ks_leader s)). entry (rt_wal (ks_followers s f)) i \<noteq> None}"

definition quorum :: "('w, 'h, 'c, 'q) kayak_sys \<Rightarrow> int" where
  "quorum s = tk_minCount (newTracker (rt_minPreparedFollowers (ks_leader s)) (ks_leader s))"

definition tracker_ok ::
    "('w \<Rightarrow> u64 \<Rightarrow> Log option) \<Rightarrow> ('w, 'h, 'c, 'q) kayak_sys \<Rightarrow> u64 \<Rightarrow> rpcTracker \<Rightarrow> nat list \<Rightarrow> bool" where
  "tracker_ok entry s i t out \<longleftrightarrow>
     tk_nodes t = rt_followers (ks_leader s) \<and> tk_minCount t = quorum s \<and>
     distinct out \<and> set out \<subseteq> {..<length (tk_nodes t)} \<and>
     minv (tk_errors t) \<and> fst ` set (tk_errors t) = (!) (tk_nodes t) ` ({..<length (tk_nodes t)} - set out) \<and>
     tk_complete t = int (length (tk_nodes t)) - int (length out) \<and>
     (tk_done t \<longrightarrow> tk_minCount t \<le> tk_complete t) \<and>
     (\<forall>f. mget (tk_errors t) f = Some None \<longrightarrow> f \<in> held entry s i)"

definition quorum_ok :: "('w \<Rightarrow> u64 \<Rightarrow> Log option) \<Rightarrow> ('w, 'h, 'c, 'q) kayak_sys \<Rightarrow> bool" where
  "quorum_ok entry s \<longleftrightarrow>
     distinct (rt_followers (ks_leader s)) \<and>
     (\<forall>l q t out. Preparing l q t out \<in> set (ks_applies s) \<longrightarrow> tracker_ok entry s (lg_Index l) t out) \<and>
     (\<forall>r \<in> set (ks_queue s). quorum s \<le> int (card (held entry s (cq_index r)))) \<and>
     (\<forall>c p prev. commits (entry (rt_wal (ks_leader s))) c p prev \<longrightarrow> quorum s \<le> int (card (held entry s p)))"

lemma card_held:
  assumes "held entry s i \<subseteq> held entry s' i" and "x \<le> int (card (held entry s i))"
  shows "x \<le> int (card (held entry s' i))"
proof -
  have "finite (held entry s' i)" by (simp add: held_def)
  from card_mono [OF this assms(1)] show ?thesis using assms(2) by linarith
qed

text \<open>A new tracker, a reply, and a tracker that is satisfied.\<close>

lemma tracker_new:
  assumes "t = applyRPC (rt_minPreparedFollowers (ks_leader s)) (ks_leader s)"
  shows "tracker_ok entry s i t [0..<length (tk_nodes t)]"
  by (auto simp: assms tracker_ok_def quorum_def applyRPC_def tracker_send_def newTracker_def Let_def)

lemma tracker_reply:
  assumes "tracker_ok entry s i t out" and "distinct (tk_nodes t)" and "idx \<in> set out"
    and "err = None \<Longrightarrow> tk_nodes t ! idx \<in> held entry s i"
  shows "tracker_ok entry s i (callSingle idx err t) (remove1 idx out)"
proof -
  let ?n = "length (tk_nodes t)" and ?f = "tk_nodes t ! idx"
  have t: "distinct out" "set out \<subseteq> {..<?n}" "minv (tk_errors t)"
      "fst ` set (tk_errors t) = (!) (tk_nodes t) ` ({..<?n} - set out)" "tk_complete t = int ?n - int (length out)"
    using assms(1) by (auto simp: tracker_ok_def)
  have out: "set (remove1 idx out) = set out - {idx}" "length out = Suc (length (remove1 idx out))"
    using t(1) assms(3) by (simp_all add: length_remove1) (metis Suc_pred length_pos_if_in_set)
  have "fst ` set (mput ?f err (tk_errors t)) = insert ?f (fst ` set (tk_errors t))"
    using t(3) by (force simp: set_mput)
  also have "\<dots> = (!) (tk_nodes t) ` insert idx ({..<?n} - set out)" by (simp add: t(4))
  also have "insert idx ({..<?n} - set out) = {..<?n} - set (remove1 idx out)" using t(2) assms(3) by (auto simp: out(1))
  finally have keys: "fst ` set (mput ?f err (tk_errors t)) = (!) (tk_nodes t) ` ({..<?n} - set (remove1 idx out))" .
  show ?thesis
    using assms(1,4) t(1,2) keys out
    by (auto simp: tracker_ok_def callSingle_def Let_def set_mput dest: notin_set_remove1 split: if_splits)
qed

lemma tracker_satisfied:
  assumes "tracker_ok entry s i t out" and "distinct (tk_nodes t)" and "leaderPrepared ctxDone t = Done (Ok ())"
  shows "quorum s \<le> int (card (held entry s i))"
proof -
  let ?n = "length (tk_nodes t)"
  have t: "distinct out" "set out \<subseteq> {..<?n}" "minv (tk_errors t)" "tk_minCount t = quorum s"
      "fst ` set (tk_errors t) = (!) (tk_nodes t) ` ({..<?n} - set out)" "tk_complete t = int ?n - int (length out)"
      "tk_done t \<longrightarrow> tk_minCount t \<le> tk_complete t" "\<forall>f. mget (tk_errors t) f = Some None \<longrightarrow> f \<in> held entry s i"
    using assms(1) by (auto simp: tracker_ok_def)
  from assms(3) have meets: "tk_done t \<or> int (length (tk_errors t)) \<ge> tk_minCount t" and none: "\<forall>(f, e) \<in> set (tk_errors t). e = None"
    by (auto simp: leaderPrepared_def tracker_get_def errorSummary_def filter_empty_conv split: if_splits)
  have "card (fst ` set (tk_errors t)) = length (tk_errors t)" using t(3) distinct_card [of "mkeys (tk_errors t)"] by simp
  moreover have "card (fst ` set (tk_errors t)) = ?n - length out"
  proof -
    have "inj_on ((!) (tk_nodes t)) ({..<?n} - set out)" using assms(2) by (auto simp: inj_on_def nth_eq_iff_index_eq)
    then show ?thesis using t(1,2) by (simp add: t(5) card_image card_Diff_subset distinct_card)
  qed
  moreover have "length out \<le> ?n" using t(1,2) by (metis card_lessThan card_mono distinct_card finite_lessThan)
  ultimately have "quorum s \<le> int (card (fst ` set (tk_errors t)))" using meets t(4,6,7) by auto
  moreover have "fst ` set (tk_errors t) \<subseteq> held entry s i" using none t(3,8) by (force simp: mget_mem)
  then have "card (fst ` set (tk_errors t)) \<le> card (held entry s i)"
    by (rule card_mono [rotated]) (simp add: held_def)
  ultimately show ?thesis by linarith
qed

text \<open>What a step must do for the quorum to be kept.\<close>

definition keeps_quorum ::
    "('w \<Rightarrow> u64 \<Rightarrow> Log option) \<Rightarrow> ('w, 'h, 'c, 'q) kayak_sys \<Rightarrow> ('w, 'h, 'c, 'q) kayak_sys \<Rightarrow> bool" where
  "keeps_quorum entry s s' \<longleftrightarrow>
     rt_followers (ks_leader s') = rt_followers (ks_leader s) \<and>
     rt_minPreparedFollowers (ks_leader s') = rt_minPreparedFollowers (ks_leader s) \<and>
     (\<forall>f. entry (rt_wal (ks_followers s f)) \<subseteq>\<^sub>m entry (rt_wal (ks_followers s' f)))"

lemma keeps_quorumD:
  assumes "keeps_quorum entry s s'"
  shows "quorum s' = quorum s" and "held entry s i \<subseteq> held entry s' i" and "rt_followers (ks_leader s') = rt_followers (ks_leader s)"
    and "tracker_ok entry s i t out \<Longrightarrow> tracker_ok entry s' i t out"
proof -
  show q: "quorum s' = quorum s" and F: "rt_followers (ks_leader s') = rt_followers (ks_leader s)"
    using assms by (simp_all add: keeps_quorum_def quorum_def newTracker_def Let_def)
  show h: "held entry s i \<subseteq> held entry s' i"
    using assms by (auto simp: keeps_quorum_def held_def) (metis domI map_le_def option.distinct(1))
  show "tracker_ok entry s i t out \<Longrightarrow> tracker_ok entry s' i t out"
    using h by (auto simp: tracker_ok_def q F)
qed

lemma quorum_okI:
  assumes "quorum_ok entry s" and k: "keeps_quorum entry s s'"
    and "\<And>l q t out. Preparing l q t out \<in> set (ks_applies s') \<Longrightarrow>
      Preparing l q t out \<in> set (ks_applies s) \<or> tracker_ok entry s' (lg_Index l) t out"
    and "\<And>r. r \<in> set (ks_queue s') \<Longrightarrow> r \<in> set (ks_queue s) \<or> quorum s \<le> int (card (held entry s (cq_index r)))"
    and "\<And>c p prev. commits (entry (rt_wal (ks_leader s'))) c p prev \<Longrightarrow>
      commits (entry (rt_wal (ks_leader s))) c p prev \<or> quorum s \<le> int (card (held entry s p))"
  shows "quorum_ok entry s'"
proof -
  have more_held: "quorum s \<le> int (card (held entry s' i))" if "quorum s \<le> int (card (held entry s i))" for i
    using keeps_quorumD(2) [OF k] that by (rule card_held)
  show ?thesis
    unfolding quorum_ok_def keeps_quorumD(1,3) [OF k]
    using assms(1) [unfolded quorum_ok_def] assms(3-5) keeps_quorumD(4) [OF k] more_held by (intro conjI allI ballI impI) blast+
qed

lemma quorum_okD:
  assumes "quorum_ok entry s"
  shows "distinct (rt_followers (ks_leader s))"
    and "Preparing l q t out \<in> set (ks_applies s) \<Longrightarrow> tracker_ok entry s (lg_Index l) t out \<and> distinct (tk_nodes t)"
    and "r \<in> set (ks_queue s) \<Longrightarrow> quorum s \<le> int (card (held entry s (cq_index r)))"
    and "commits (entry (rt_wal (ks_leader s))) c p prev \<Longrightarrow> quorum s \<le> int (card (held entry s p))"
proof -
  note q = assms [unfolded quorum_ok_def]
  show "distinct (rt_followers (ks_leader s))" using q by blast
  show "tracker_ok entry s (lg_Index l) t out \<and> distinct (tk_nodes t)" if "Preparing l q t out \<in> set (ks_applies s)"
  proof -
    have "tracker_ok entry s (lg_Index l) t out" using q that by blast
    moreover from this have "tk_nodes t = rt_followers (ks_leader s)" by (simp add: tracker_ok_def)
    ultimately show ?thesis using q by simp
  qed
  show "r \<in> set (ks_queue s) \<Longrightarrow> quorum s \<le> int (card (held entry s (cq_index r)))" using q by blast
  show "commits (entry (rt_wal (ks_leader s))) c p prev \<Longrightarrow> quorum s \<le> int (card (held entry s p))" using q by blast
qed

lemma commits_grow: "commits (ent(i \<mapsto> l)) c p prev \<Longrightarrow> lg_Type l \<noteq> LogCommit \<Longrightarrow> commits ent c p prev"
  by (auto simp: commits_def split: if_splits)

context kayak_store
begin

lemma apply_log:
  assumes "ok (rt_wal L)" and "rt_Apply E q L = (L', Ok (l, t))"
  shows "\<exists>i. lg_Type l = LogPrepare \<and> entry (rt_wal L') = (entry (rt_wal L))(i \<mapsto> l)"
proof -
  from assms(2) obtain c b L2 where n: "newLog E LogPrepare b (L \<lparr> rt_checks := c \<rparr>) = (L2, Ok l)"
      and L': "L' = markPendingPrepare (lg_Index l) L2"
    by (auto simp: rt_Apply_def doLeaderPrepare_def doCheck_def doEncodePayload_def callback_def leaderLogPrepare_def Let_def
        split: if_splits prod.splits res.splits)
  have "ok (rt_wal (L \<lparr> rt_checks := c \<rparr>))" using assms(1) by simp
  from newLog_Ok(3,7) [OF this n] show ?thesis by (auto simp: L' markPendingPrepare_def)
qed

lemma rollback_log:
  assumes "ok (rt_wal L)" and "doLeaderRollback E pl L = (L', Ok (l, t))"
  shows "\<exists>i. lg_Type l = LogRollback \<and> entry (rt_wal L') = (entry (rt_wal L))(i \<mapsto> l)"
proof -
  have n: "newLog E LogRollback (rt_uint64ToBytes (lg_Index pl)) L = (L', Ok l)"
    using assms(2) by (auto simp: doLeaderRollback_def leaderLogRollback_def split: prod.splits res.splits)
  from newLog_Ok(3,7) [OF assms(1) n] show ?thesis by auto
qed

lemma commit_log:
  assumes "ok (rt_wal L)" and "leaderDoCommit E r L = (L', Ok (l, t, result))"
  shows "commits (entry (rt_wal L')) c p prev \<Longrightarrow> commits (entry (rt_wal L)) c p prev \<or> p = cq_index r"
    and "rt_followers L' = rt_followers L" and "rt_minPreparedFollowers L' = rt_minPreparedFollowers L"
proof -
  let ?d = "rt_uint64ToBytes (cq_index r) @ rt_uint64ToBytes (rt_lastCommit L)"
  from assms(2) obtain L1 h1 where new: "newLog E LogCommit ?d L = (L1, Ok l)"
      and L': "L' = L1 \<lparr> rt_sh := h1, rt_lastCommit := lg_Index l \<rparr>"
    by (auto simp: leaderDoCommit_def doCommit_def Let_def split: prod.splits res.splits if_splits)
  note n = newLog_Ok [OF assms(1) new]
  have "p = cq_index r" if "rt_uint64ToBytes p @ rt_uint64ToBytes prev = ?d"
    using uint64_pair(1) [of p prev] uint64_pair(1) [of "cq_index r" "rt_lastCommit L"] that by metis
  then show "commits (entry (rt_wal L')) c p prev \<Longrightarrow> commits (entry (rt_wal L)) c p prev \<or> p = cq_index r"
    using n(4,7) by (auto simp: L' commits_def split: if_splits)
  have "rt_followers L1 = rt_followers L" "rt_minPreparedFollowers L1 = rt_minPreparedFollowers L" by (subst n(8), simp)+
  then show "rt_followers L' = rt_followers L" "rt_minPreparedFollowers L' = rt_minPreparedFollowers L" by (simp_all add: L')
qed

end

text \<open>Steps of the leader, and steps of a follower.\<close>

lemma quorum_leader:
  assumes "quorum_ok entry s" and "rt_followers L = rt_followers (ks_leader s)"
    and "rt_minPreparedFollowers L = rt_minPreparedFollowers (ks_leader s)"
    and "ks_leader s' = L" and "ks_followers s' = ks_followers s"
    and "\<And>l q t out. Preparing l q t out \<in> set (ks_applies s') \<Longrightarrow>
      Preparing l q t out \<in> set (ks_applies s) \<or> tracker_ok entry s' (lg_Index l) t out"
    and "\<And>r. r \<in> set (ks_queue s') \<Longrightarrow> r \<in> set (ks_queue s) \<or> quorum s \<le> int (card (held entry s (cq_index r)))"
    and "\<And>c p prev. commits (entry (rt_wal L)) c p prev \<Longrightarrow>
      commits (entry (rt_wal (ks_leader s))) c p prev \<or> quorum s \<le> int (card (held entry s p))"
  shows "quorum_ok entry s'"
proof (rule quorum_okI [OF assms(1)])
  show "keeps_quorum entry s s'" using assms(2-5) by (simp add: keeps_quorum_def)
qed (use assms in simp_all)

lemma quorum_follower:
  assumes "quorum_ok entry s" and "entry (rt_wal (ks_followers s f)) \<subseteq>\<^sub>m entry (rt_wal F)"
    and "ks_leader s' = ks_leader s" and "ks_followers s' = (ks_followers s)(f := F)" and "ks_queue s' = ks_queue s"
    and "\<And>l q t out. Preparing l q t out \<in> set (ks_applies s') \<Longrightarrow>
      Preparing l q t out \<in> set (ks_applies s) \<or> tracker_ok entry s' (lg_Index l) t out"
  shows "quorum_ok entry s'"
proof (rule quorum_okI [OF assms(1)])
  show "keeps_quorum entry s s'" using assms(2-4) by (simp add: keeps_quorum_def)
qed (use assms in simp_all)

context kayak_store
begin

lemma quorum_reply:
  assumes "sys_ok E ok entry seal h hs s" and "quorum_ok entry s" and "ks_applies s = xs @ Preparing l q t out # ys"
    and "idx \<in> set out" and "f = tk_nodes t ! idx"
    and "followerApply E (Some l) True (ks_followers s f) = (F, Done r)" and "err = None \<longleftrightarrow> is_Ok r"
  shows "quorum_ok entry (s \<lparr> ks_followers := (ks_followers s)(f := F),
      ks_applies := xs @ Preparing l q (callSingle idx err t) (remove1 idx out) # ys \<rparr>)"
    (is "quorum_ok entry ?s")
proof -
  have l: "entry (rt_wal (ks_leader s)) (lg_Index l) = Some l" "lg_Type l = LogPrepare"
    using sys_okD(4) [OF assms(1), of "Preparing l q t out"] assms(3) by (simp_all add: call_ok_def)
  note F = follower_apply_ok [OF sys_okD(2) [OF assms(1)] sys_okD(7) [OF assms(1)] l(1) sys_okD(8) [OF assms(1) l(1)] assms(6)]
  have t: "tracker_ok entry s (lg_Index l) t out" "distinct (tk_nodes t)"
    using quorum_okD(2) [OF assms(2), of l q t out] assms(3) by simp_all
  then have f: "f \<in> set (rt_followers (ks_leader s))" using assms(4,5) by (auto simp: tracker_ok_def)
  have "keeps_quorum entry s ?s" using F by (simp add: keeps_quorum_def)
  from keeps_quorumD(4) [OF this t(1)] have "tracker_ok entry ?s (lg_Index l) (callSingle idx err t) (remove1 idx out)"
  proof (rule tracker_reply [OF _ t(2) assms(4)])
    assume "err = None"
    then have "\<exists>x. r = Ok x" using assms(7) by (cases r) auto
    then have "entry (rt_wal F) (lg_Index l) = Some l" using F l(2) by blast
    then show "tk_nodes t ! idx \<in> held entry ?s (lg_Index l)" using f assms(5) by (simp add: held_def)
  qed
  then show ?thesis
    using F by (intro quorum_follower [OF assms(2), where F = F and f = f]) (auto simp: assms(3))
qed

end

context kayak_store
begin

lemma quorum_called:
  assumes "sys_ok E ok entry seal h hs s" and "quorum_ok entry s" and "rt_Apply E q (ks_leader s) = (L, Ok (l, t))" and "payload_ok E"
  shows "quorum_ok entry (s \<lparr> ks_leader := L, ks_sent := l # ks_sent s,
    ks_applies := Preparing l q t [0..<length (tk_nodes t)] # ks_applies s \<rparr>)"
proof -
  have o: "ok (rt_wal (ks_leader s))" using sys_okD(1) [OF assms(1)] by (simp add: leader_ok_def)
  note l = leader_apply_ok [OF sys_okD(1) [OF assms(1)] assms(3,4)]
  obtain i where i: "lg_Type l = LogPrepare" "entry (rt_wal L) = (entry (rt_wal (ks_leader s)))(i \<mapsto> l)"
    using apply_log [OF o assms(3)] by blast
  let ?s = "s \<lparr> ks_leader := L, ks_sent := l # ks_sent s,
    ks_applies := Preparing l q t [0..<length (tk_nodes t)] # ks_applies s \<rparr>"
  have "tracker_ok entry ?s (lg_Index l) t [0..<length (tk_nodes t)]"
    by (rule tracker_new) (use l in \<open>simp add: applyRPC_def newTracker_def\<close>)
  then show ?thesis
    by (intro quorum_leader [OF assms(2), where L = L]) (use l i in \<open>auto dest: commits_grow\<close>)
qed

lemma quorum_not_prepared:
  assumes "sys_ok E ok entry seal h hs s" and "quorum_ok entry s"
    and "doLeaderRollback E l (ks_leader s) = (L, Ok (rl, rt))" and "set as \<subseteq> set (ks_applies s)"
  shows "quorum_ok entry (s \<lparr> ks_leader := markPrepareFinished k L, ks_sent := rl # ks_sent s, ks_applies := as \<rparr>)"
proof -
  have o: "ok (rt_wal (ks_leader s))" using sys_okD(1) [OF assms(1)] by (simp add: leader_ok_def)
  note l = leader_rollback_ok [OF sys_okD(1) [OF assms(1)] assms(3)]
  obtain i where i: "lg_Type rl = LogRollback" "entry (rt_wal L) = (entry (rt_wal (ks_leader s)))(i \<mapsto> rl)"
    using rollback_log [OF o assms(3)] by blast
  show ?thesis
    by (intro quorum_leader [OF assms(2), where L = "markPrepareFinished k L"]) (use l i assms(4) in \<open>auto dest: commits_grow\<close>)
qed

lemma quorum_leader_commit:
  assumes "sys_ok E ok entry seal h hs s" and "quorum_ok entry s" and "ks_queue s = xs @ r # ys"
    and "leaderDoCommit E r (ks_leader s) = (L, Ok (l, t, result))"
  shows "quorum_ok entry (s \<lparr> ks_leader := L, ks_sent := l # ks_sent s, ks_queue := xs @ ys \<rparr>)"
proof -
  have o: "ok (rt_wal (ks_leader s))" using sys_okD(1) [OF assms(1)] by (simp add: leader_ok_def)
  have "quorum s \<le> int (card (held entry s (cq_index r)))" using quorum_okD(3) [OF assms(2)] assms(3) by simp
  then show ?thesis
    using commit_log [OF o assms(4)]
    by (intro quorum_leader [OF assms(2), where L = L]) (auto simp: assms(3))
qed

lemma quorum_step:
  assumes "sys_ok E ok entry seal h hs s" and "quorum_ok entry s" and "kayak_step E s s'" and "payload_ok E"
  shows "quorum_ok entry s'"
  using assms(3)
proof cases
  case (called q L l t)
  then show ?thesis using quorum_called [OF assms(1,2) called(2) assms(4)] by simp
next
  case (refused q L e)
  then show ?thesis
    using leader_refuses [OF sys_okD(1) [OF assms(1)] refused(2)] by (intro quorum_leader [OF assms(2), where L = L]) auto
next
  case (reply xs l q t out ys idx f F r err)
  then show ?thesis using quorum_reply [OF assms(1,2)] by blast
next
  case (lost xs l q t out ys idx e)
  have t: "tracker_ok entry s (lg_Index l) t out" "distinct (tk_nodes t)"
    using quorum_okD(2) [OF assms(2), of l q t out] lost(2) by simp_all
  have "keeps_quorum entry s s'" by (simp add: keeps_quorum_def lost(1))
  from tracker_reply [OF keeps_quorumD(4) [OF this t(1)] t(2) lost(3), of "Some e"] show ?thesis
    by (intro quorum_leader [OF assms(2), where L = "ks_leader s"]) (auto simp: lost(1,2))
next
  case (prepared xs l q t out ys ctxDone)
  have t: "tracker_ok entry s (lg_Index l) t out" "distinct (tk_nodes t)"
    using quorum_okD(2) [OF assms(2), of l q t out] prepared(2) by simp_all
  from tracker_satisfied [OF t prepared(3)] show ?thesis
    by (intro quorum_leader [OF assms(2), where L = "ks_leader s"]) (auto simp: prepared(1,2) leaderCommitResult_def)
next
  case (abandoned xs l q t out ys ctxDone)
  then show ?thesis by (intro quorum_leader [OF assms(2), where L = "markPrepareFinished (lg_Index l) (ks_leader s)"]) auto
next
  case (not_prepared xs l q t out ys ctxDone e L rl rt)
  then show ?thesis using quorum_not_prepared [OF assms(1,2) not_prepared(4), of "xs @ ys"] by auto
next
  case (leader_commit xs r ys L l t result)
  then show ?thesis using quorum_leader_commit [OF assms(1,2)] by blast
next
  case (finished xs l ys)
  then show ?thesis by (intro quorum_leader [OF assms(2), where L = "markPrepareFinished (lg_Index l) (ks_leader s)"]) auto
next
  case (deliver f l F a)
  have l: "entry (rt_wal (ks_leader s)) (lg_Index l) = Some l" by (rule sys_okD(3) [OF assms(1) deliver(3)])
  from follower_apply_ok [OF sys_okD(2) [OF assms(1)] sys_okD(7) [OF assms(1)] l sys_okD(8) [OF assms(1) l] deliver(4)]
  show ?thesis by (intro quorum_follower [OF assms(2), where F = F and f = f]) (auto simp: deliver(1))
next
  case (fetch f i l F a)
  have l: "entry (rt_wal (ks_leader s)) (lg_Index l) = Some l" by (rule fetched_entry [OF assms(1) fetch(3)])
  from follower_apply_ok [OF sys_okD(2) [OF assms(1)] sys_okD(7) [OF assms(1)] l sys_okD(8) [OF assms(1) l] fetch(4)]
  show ?thesis by (intro quorum_follower [OF assms(2), where F = F and f = f]) (auto simp: fetch(1))
next
  case (follower_commit f xs r ys F turn)
  have r: "follower_request E (entry (rt_wal (ks_leader s))) r" using sys_okD(6) [OF assms(1), of r f] follower_commit(2) by simp
  have "entry (rt_wal (ks_followers s f)) \<subseteq>\<^sub>m entry (rt_wal F)"
    using follower_turn_ok [OF sys_okD(2) [OF assms(1)] sys_okD(7) [OF assms(1)] _ r follower_commit(3)] sys_okD(8) [OF assms(1)]
    by blast
  then show ?thesis by (intro quorum_follower [OF assms(2), where F = F and f = f]) (auto simp: follower_commit(1))
next
  case (follower_done f xs r ys l)
  have "rt_wal (followerCommitted r l (ks_followers s f)) = rt_wal (ks_followers s f)"
    by (auto simp: followerCommitted_def follower_applied_def triggerLogAwaits_def updateNextIndex_def markPrepareFinished_def
        split: option.splits if_splits)
  then show ?thesis
    by (intro quorum_follower [OF assms(2), where F = "followerCommitted r l (ks_followers s f)" and f = f]) (auto simp: follower_done(1))
qed

lemma run_ok:
  assumes "kayak_run E s s'" and "sys_ok E ok entry seal h hs s" and "quorum_ok entry s" and "payload_ok E"
  shows "(\<exists>xs. sys_ok E ok entry seal h (hs @ xs) s') \<and> quorum_ok entry s'"
  using assms(1-3)
proof induction
  case (none s)
  then show ?case by (auto intro: exI [of _ "[]"])
next
  case (step s s' s'')
  then obtain xs where s': "sys_ok E ok entry seal h (hs @ xs) s'" "quorum_ok entry s'" by blast
  from step_ok [OF s'(1) step(2) assms(4)] quorum_step [OF s' step(2) assms(4)] show ?case by (metis append_assoc)
qed

end
end
