(* ===== verification/Kayak_Replication.thy ===== *)
theory Kayak_Replication
  imports Kayak_System
begin

text \<open>
  What the replication promises from the start of a group of nodes on: every node executes
  the committed requests in one order, a follower a prefix of what the leader has executed,
  and a request is committed only after the prepare threshold of followers has logged it.
  The promises are proved once over the interface of a log and hold for both logs of
  \<open>Kayak_Wal\<close>.
\<close>

section \<open>The start of a group\<close>

definition node_start ::
    "('w, 'h, 'c, 'q, 'r) kayak_env \<Rightarrow> ('w, 'h, 'c) RuntimeConfig \<Rightarrow> NodeID \<Rightarrow> ('w, 'h, 'c) Runtime option" where
  "node_start E cfg n =
     (case NewRuntime E (Some (cfg \<lparr> kc_NodeID := n \<rparr>)) of Some (Ok rt) \<Rightarrow> Some (rt_Start rt) | _ \<Rightarrow> None)"

text \<open>
  The nodes of a new group are configured alike, each with an empty log of its own. There
  is no runtime at a node outside of the group; no step takes place there.
\<close>

definition kayak_init ::
    "('w, 'h, 'c, 'q, 'r) kayak_env \<Rightarrow> ('w, 'h, 'c) RuntimeConfig \<Rightarrow> PeersHeader \<Rightarrow> ('w, 'h, 'c, 'q) kayak_sys \<Rightarrow> bool" where
  "kayak_init E cfg peers s \<longleftrightarrow>
     map_option fst (kc_Peers cfg) = Some peers \<and>
     node_start E cfg (ph_Leader peers) = Some (ks_leader s) \<and>
     (\<forall>f. if f \<in> set (ph_Servers peers) \<and> f \<noteq> ph_Leader peers then node_start E cfg f = Some (ks_followers s f)
          else ks_followers s f = ks_leader s) \<and>
     ks_sent s = [] \<and> ks_applies s = [] \<and> ks_queue s = [] \<and> (\<forall>f. ks_fqueue s f = [] \<and> ks_fdone s f = [])"

text \<open>A node that starts on an empty log.\<close>

lemma node_start_empty:
  assumes "node_start E cfg n = Some rt" and "map_option fst (kc_Peers cfg) = Some peers"
    and "kw_Read E (kc_Wal cfg) = (w, Err ErrEOF)"
  shows "rt_wal rt = w" and "rt_nextIndex rt = 0" and "rt_lastCommit rt = 0" and "rt_sh rt = kc_Handler cfg"
    and "rt_waitLogMap rt = []" and "rt_pendingPrepares rt = []" and "rt_followers rt = filter (\<lambda>v. v \<noteq> ph_Leader peers) (ph_Servers peers)"
    and "rt_minPreparedFollowers rt = minFollowers (kc_PrepareThreshold cfg) (length (ph_Servers peers))"
proof -
  have R: "readLogs E r = Some (r \<lparr> rt_wal := w \<rparr>, Ok ())" if "rt_wal r = kc_Wal cfg" for r :: "('a, 'b, 'c) Runtime"
    by (subst readLogs.simps) (simp add: that assms(3))
  from assms(2) obtain hsv where P: "kc_Peers cfg = Some (peers, hsv)" by auto
  from assms(1) obtain r role where role: "peers_Verify E peers hsv = Ok r" "peers_role peers n = Some role"
    by (auto simp: node_start_def NewRuntime_def P split: res.splits option.splits)
  show "rt_wal rt = w" "rt_nextIndex rt = 0" "rt_lastCommit rt = 0" "rt_sh rt = kc_Handler cfg"
    "rt_waitLogMap rt = []" "rt_pendingPrepares rt = []" "rt_followers rt = filter (\<lambda>v. v \<noteq> ph_Leader peers) (ph_Servers peers)"
    "rt_minPreparedFollowers rt = minFollowers (kc_PrepareThreshold cfg) (length (ph_Servers peers))"
    using assms(1) by (auto simp: node_start_def NewRuntime_def P role Let_def R rt_Start_def split: if_splits)
qed

lemma leader_ok_init:
  assumes "ok (rt_wal L)" and "entry (rt_wal L) = Map.empty" and "rt_lastCommit L = 0" and "rt_nextIndex L = 0"
  shows "leader_ok E ok entry seal (rt_sh L) [] L"
  using assms by (simp add: leader_ok_def history_ok_def previous_def requests_def execute_def)

lemma follower_ok_init:
  assumes "ok (rt_wal F)" and "entry (rt_wal F) = Map.empty" and "rt_lastCommit F = 0" and "rt_waitLogMap F = []"
  shows "follower_ok E ok entry ent (rt_sh F) [] F"
  using assms by (simp add: follower_ok_def previous_def requests_def execute_def)

lemma kayak_init_ok:
  assumes "kayak_init E cfg peers s" and "kw_Read E (kc_Wal cfg) = (w, Err ErrEOF)" and "ok w" and "entry w = Map.empty"
  shows "sys_ok E ok entry seal (kc_Handler cfg) [] s"
    and "distinct (ph_Servers peers) \<Longrightarrow> quorum_ok entry s"
    and "rt_followers (ks_leader s) = filter (\<lambda>v. v \<noteq> ph_Leader peers) (ph_Servers peers)"
    and "rt_minPreparedFollowers (ks_leader s) = minFollowers (kc_PrepareThreshold cfg) (length (ph_Servers peers))"
proof -
  have P: "map_option fst (kc_Peers cfg) = Some peers" and L: "node_start E cfg (ph_Leader peers) = Some (ks_leader s)"
    and q: "ks_sent s = []" "ks_applies s = []" "ks_queue s = []" "\<And>f. ks_fqueue s f = []" "\<And>f. ks_fdone s f = []"
    using assms(1) by (simp_all add: kayak_init_def)
  note l = node_start_empty [OF L P assms(2)]
  have "\<exists>n. node_start E cfg n = Some (ks_followers s f)" for f
    using assms(1) L unfolding kayak_init_def by metis
  then have f: "rt_wal (ks_followers s f) = w" "rt_lastCommit (ks_followers s f) = 0" "rt_sh (ks_followers s f) = kc_Handler cfg"
      "rt_waitLogMap (ks_followers s f) = []" for f
    using node_start_empty [OF _ P assms(2)] by metis+
  have "leader_ok E ok entry seal (kc_Handler cfg) [] (ks_leader s)"
    using leader_ok_init [of ok "ks_leader s" entry E seal] l(1-4) assms(3,4) by simp
  moreover have "follower_ok E ok entry ent (kc_Handler cfg) [] (ks_followers s g)" for ent g
    using follower_ok_init [of ok "ks_followers s g" entry E ent] f assms(3,4) by simp
  ultimately show "sys_ok E ok entry seal (kc_Handler cfg) [] s" by (simp add: sys_ok_def q Let_def)
  show "quorum_ok entry s" if "distinct (ph_Servers peers)"
    using that by (simp add: quorum_ok_def q l assms(4) commits_def)
  show "rt_followers (ks_leader s) = filter (\<lambda>v. v \<noteq> ph_Leader peers) (ph_Servers peers)"
    "rt_minPreparedFollowers (ks_leader s) = minFollowers (kc_PrepareThreshold cfg) (length (ph_Servers peers))"
    by (rule l(7), rule l(8))
qed

section \<open>The promises over the interface of a log\<close>

lemma quorum_min: "quorum s = min (rt_minPreparedFollowers (ks_leader s)) (int (length (rt_followers (ks_leader s))))"
  if "rt_minPreparedFollowers (ks_leader s) \<ge> 0"
  using that by (simp add: quorum_def newTracker_def Let_def min_def)

lemma minFollowers_nonneg: "minFollowers t n \<ge> 0"
  by (simp add: minFollowers_def)

context kayak_store
begin

lemma one_order:
  assumes "payload_ok E" and "kayak_init E cfg peers s" and "kw_Read E (kc_Wal cfg) = (w, Err ErrEOF)" and "ok w"
    and "entry w = Map.empty" and "distinct (ph_Servers peers)" and "kayak_run E s s'"
  shows "\<exists>qs. rt_sh (ks_leader s') = execute E True qs (kc_Handler cfg) \<and>
    (\<forall>f. \<exists>k \<le> length qs. rt_sh (ks_followers s' f) = execute E False (take k qs) (kc_Handler cfg))"
proof -
  note init = kayak_init_ok [OF assms(2,3), where ok = ok and entry = entry, OF assms(4,5)]
  from run_ok [OF assms(7) init(1) init(2) [OF assms(6)] assms(1)] obtain hs where
    s': "sys_ok E ok entry seal (kc_Handler cfg) hs s'" by auto
  have "\<exists>k \<le> length hs. rt_sh (ks_followers s' f) = execute E False (take k (requests hs)) (kc_Handler cfg)" for f
    using sys_okD(2) [OF s', of f] by (auto simp: follower_ok_def)
  then show ?thesis
    using sys_okD(1) [OF s'] by (intro exI [of _ "requests hs"]) (simp add: leader_ok_def)
qed

lemma run_followers:
  assumes "kayak_run E s s'" and "sys_ok E ok entry seal h hs s" and "quorum_ok entry s" and "payload_ok E"
  shows "rt_followers (ks_leader s') = rt_followers (ks_leader s) \<and>
    rt_minPreparedFollowers (ks_leader s') = rt_minPreparedFollowers (ks_leader s)"
  using assms(1-3)
proof induction
  case (step s s' s'')
  from run_ok [OF step(1,4,5) assms(4)] obtain xs where ok: "sys_ok E ok entry seal h (hs @ xs) s'" by blast
  note L = sys_okD(1) [OF ok]
  have o: "ok (rt_wal (ks_leader s'))" using L by (simp add: leader_ok_def)
  from step(2) have "rt_followers (ks_leader s'') = rt_followers (ks_leader s') \<and>
      rt_minPreparedFollowers (ks_leader s'') = rt_minPreparedFollowers (ks_leader s')"
    by cases (use leader_apply_ok [OF L _ assms(4)] leader_refuses [OF L] leader_rollback_ok [OF L] commit_log(2,3) [OF o] in auto)
  with step show ?case by simp
qed simp

lemma committed_quorum:
  assumes "payload_ok E" and "kayak_init E cfg peers s" and "kw_Read E (kc_Wal cfg) = (w, Err ErrEOF)" and "ok w"
    and "entry w = Map.empty" and "distinct (ph_Servers peers)" and "kayak_run E s s'"
    and "entry (rt_wal (ks_leader s')) c = Some l" and "lg_Type l = LogCommit"
  shows "\<exists>pl. entry (rt_wal (ks_leader s')) (Uint 8 (lg_Data l)) = Some pl \<and>
    min (minFollowers (kc_PrepareThreshold cfg) (length (ph_Servers peers))) (int (length (rt_followers (ks_leader s'))))
      \<le> int (card {f \<in> set (ph_Servers peers) - {ph_Leader peers}. entry (rt_wal (ks_followers s' f)) (Uint 8 (lg_Data l)) = Some pl})"
proof -
  note init = kayak_init_ok [OF assms(2,3), where ok = ok and entry = entry, OF assms(4,5)]
  note q0 = init(2) [OF assms(6)]
  from run_ok [OF assms(7) init(1) q0 assms(1)] obtain hs where
    s': "sys_ok E ok entry seal (kc_Handler cfg) hs s'" and q: "quorum_ok entry s'" by auto
  have "c \<in> fst ` set hs" by (rule history_okD(3) [OF sys_okD(7) [OF s'] assms(8,9)])
  then obtain k p d where k: "k < length hs" "hs ! k = (c, p, d)" by (auto simp: in_set_conv_nth)
  from history_okD(2) [OF sys_okD(7) [OF s'] k] have com: "commits (entry (rt_wal (ks_leader s'))) c p (previous hs k)"
      and "prepares E (entry (rt_wal (ks_leader s'))) p d" by blast+
  then obtain pl where pl: "entry (rt_wal (ks_leader s')) p = Some pl" by (auto simp: prepares_def)
  have p: "Uint 8 (lg_Data l) = p" using com assms(8) by (auto simp: commits_def uint64_pair)
  have F: "rt_followers (ks_leader s') = filter (\<lambda>v. v \<noteq> ph_Leader peers) (ph_Servers peers)"
      "rt_minPreparedFollowers (ks_leader s') = minFollowers (kc_PrepareThreshold cfg) (length (ph_Servers peers))"
    using run_followers [OF assms(7) init(1) q0 assms(1)] init(3,4) by simp_all
  have "entry (rt_wal (ks_followers s' f)) \<subseteq>\<^sub>m entry (rt_wal (ks_leader s'))" for f
    using sys_okD(2) [OF s', of f] by (simp add: follower_ok_def)
  then have "held entry s' p = {f \<in> set (ph_Servers peers) - {ph_Leader peers}. entry (rt_wal (ks_followers s' f)) p = Some pl}"
    using map_le_Some pl by (fastforce simp: held_def F)
  with quorum_okD(4) [OF q com] show ?thesis
    by (simp add: p pl quorum_min F minFollowers_nonneg)
qed

end

section \<open>Both logs\<close>

text \<open>
  A runtime on the memory log, and one on LevelDB as the databases of a worker use it; the
  handler and the verification of peers are those of \<open>E\<close>.
\<close>

definition kayak_mem :: "(MemWal, 'h, 'c, 'q, 'r) kayak_env \<Rightarrow> (MemWal, 'h, 'c, 'q, 'r) kayak_env" where
  "kayak_mem E = E \<lparr> kw_Write := memWal_Write, kw_Read := \<lambda>w. (w, memWal_Read w), kw_Get := memWal_Get \<rparr>"

definition kayak_leveldb ::
    "'db leveldb \<Rightarrow> wal_codec \<Rightarrow> ('db LevelDBWal, 'h, 'c, 'q, 'r) kayak_env \<Rightarrow> ('db LevelDBWal, 'h, 'c, 'q, 'r) kayak_env" where
  "kayak_leveldb D C E = E \<lparr> kw_Write := levelDBWal_Write D C, kw_Read := levelDBWal_Read D C, kw_Get := levelDBWal_Get D C \<rparr>"

interpretation mem_kayak: kayak_store "kayak_mem E" memWal_inv memWal_entry id for E
  unfolding kayak_store_def kayak_mem_def by (simp add: mem_wal.log_store_axioms)

lemma kayak_leveldb_store:
  assumes "kv_contract D okdb view" and "wal_codec_ok C"
  shows "kayak_store (kayak_leveldb D C E) (levelDBWal_inv C okdb view) (levelDBWal_entry C view) (levelDBWal_seal C)"
  unfolding kayak_store_def kayak_leveldb_def using levelDBWal_log_store [OF assms] by simp

text \<open>A new log on an empty database.\<close>

definition empty_db :: "'db leveldb \<Rightarrow> ('db \<Rightarrow> bool) \<Rightarrow> ('db \<Rightarrow> bytes \<Rightarrow> bytes option) \<Rightarrow> 'db \<Rightarrow> bool" where
  "empty_db D okdb view db \<longleftrightarrow> okdb db \<and> view db = Map.empty \<and> ldb_Range D logHeaderKeyPrefix db = ([], None)"

lemma empty_leveldb:
  assumes "empty_db D okdb view db" and "kc_Wal cfg = NewLevelDBWal db"
  shows "\<exists>w. kw_Read (kayak_leveldb D C E) (kc_Wal cfg) = (w, Err ErrEOF) \<and> levelDBWal_inv C okdb view w \<and>
    levelDBWal_entry C view w = Map.empty"
  using assms
  by (auto simp: empty_db_def kayak_leveldb_def levelDBWal_Read_def NewLevelDBWal_def levelDBWal_inv_def levelDBWal_entry_def)

lemma empty_mem: "kw_Read (kayak_mem E) NewMemWal = (NewMemWal, Err ErrEOF) \<and> memWal_inv NewMemWal \<and> memWal_entry NewMemWal = Map.empty"
  by (auto simp: kayak_mem_def memWal_Read_def NewMemWal_def memWal_inv_def memWal_entry_def)

text \<open>On the memory log the promise needs no contract of a database.\<close>

lemma mem_one_order:
  assumes "payload_ok E" and "kayak_init (kayak_mem E) cfg peers s" and "kc_Wal cfg = NewMemWal" and "distinct (ph_Servers peers)"
    and "kayak_run (kayak_mem E) s s'"
  shows "\<exists>qs. rt_sh (ks_leader s') = execute (kayak_mem E) True qs (kc_Handler cfg) \<and>
    (\<forall>f. \<exists>k \<le> length qs. rt_sh (ks_followers s' f) = execute (kayak_mem E) False (take k qs) (kc_Handler cfg))"
proof -
  have "payload_ok (kayak_mem E)" using assms(1) by (simp add: payload_ok_def kayak_mem_def)
  then show ?thesis
    using mem_kayak.one_order [OF _ assms(2) _ _ _ assms(4,5)] empty_mem [of E] assms(3) by auto
qed

section \<open>Properties\<close>

text \<open>
  C3: All nodes of a group execute the committed requests in one order. Whatever messages
  are lost, delayed, repeated or reordered, in every state the handler of the leader has
  executed some list of requests, and the handler of each follower a prefix of that list.
\<close>

theorem replicas_execute_one_order:
  assumes "kv_contract D okdb view" and "wal_codec_ok C" and "payload_ok E" and "empty_db D okdb view db"
    and "kayak_init (kayak_leveldb D C E) cfg peers s" and "kc_Wal cfg = NewLevelDBWal db" and "distinct (ph_Servers peers)"
    and "kayak_run (kayak_leveldb D C E) s s'"
  shows "\<exists>qs. rt_sh (ks_leader s') = execute E True qs (kc_Handler cfg) \<and>
    (\<forall>f. \<exists>k \<le> length qs. rt_sh (ks_followers s' f) = execute E False (take k qs) (kc_Handler cfg))"
proof -
  have ex: "execute (kayak_leveldb D C E) b qs h = execute E b qs h" for b qs h
    by (simp add: execute_def kayak_leveldb_def)
  have "payload_ok (kayak_leveldb D C E)" using assms(3) by (simp add: payload_ok_def kayak_leveldb_def)
  moreover obtain w where "kw_Read (kayak_leveldb D C E) (kc_Wal cfg) = (w, Err ErrEOF)" "levelDBWal_inv C okdb view w"
      "levelDBWal_entry C view w = Map.empty"
    using empty_leveldb [OF assms(4,6)] by blast
  ultimately show ?thesis
    using kayak_store.one_order [OF kayak_leveldb_store [OF assms(1,2)] _ assms(5) _ _ _ assms(7,8)] by (simp add: ex)
qed

text \<open>
  C5: A request is committed only after a quorum has prepared it. For every commit in the
  leader's log, the prepare entry it names is in the leader's log, and the same entry is in
  the logs of at least as many followers as the prepare threshold asks for.
\<close>

theorem commit_needs_quorum:
  assumes "kv_contract D okdb view" and "wal_codec_ok C" and "payload_ok E" and "empty_db D okdb view db"
    and "kayak_init (kayak_leveldb D C E) cfg peers s" and "kc_Wal cfg = NewLevelDBWal db" and "distinct (ph_Servers peers)"
    and "kayak_run (kayak_leveldb D C E) s s'"
    and "levelDBWal_entry C view (rt_wal (ks_leader s')) c = Some l" and "lg_Type l = LogCommit"
  shows "\<exists>pl. levelDBWal_entry C view (rt_wal (ks_leader s')) (Uint 8 (lg_Data l)) = Some pl \<and>
    min (minFollowers (kc_PrepareThreshold cfg) (length (ph_Servers peers))) (int (length (rt_followers (ks_leader s'))))
      \<le> int (card {f \<in> set (ph_Servers peers) - {ph_Leader peers}.
               levelDBWal_entry C view (rt_wal (ks_followers s' f)) (Uint 8 (lg_Data l)) = Some pl})"
proof -
  have "payload_ok (kayak_leveldb D C E)" using assms(3) by (simp add: payload_ok_def kayak_leveldb_def)
  moreover obtain w where "kw_Read (kayak_leveldb D C E) (kc_Wal cfg) = (w, Err ErrEOF)" "levelDBWal_inv C okdb view w"
      "levelDBWal_entry C view w = Map.empty"
    using empty_leveldb [OF assms(4,6)] by blast
  ultimately show ?thesis
    by (rule kayak_store.committed_quorum [OF kayak_leveldb_store [OF assms(1,2)] _ assms(5) _ _ _ assms(7-10)])
qed

section \<open>Witnesses\<close>

text \<open>Two nodes whose handler collects the payloads it is given; the second one follows.\<close>

definition example_kayak :: "((bytes \<times> bytes) list LevelDBWal, bytes list, unit, bytes, unit) kayak_env" where
  "example_kayak =
     \<lparr> kw_Write = levelDBWal_Write example_leveldb example_wal_codec, kw_Read = levelDBWal_Read example_leveldb example_wal_codec,
       kw_Get = levelDBWal_Get example_leveldb example_wal_codec, sh_EncodePayload = Ok, sh_DecodePayload = Ok,
       sh_Check = (\<lambda>q c. (c, Ok ())), sh_Commit = (\<lambda>q b h. (h @ [q], Ok ())), peers_Verify = (\<lambda>p v. Ok ()) \<rparr>"

definition example_peers :: PeersHeader where
  "example_peers = \<lparr> ph_Version = 0, ph_Term = 0, ph_Leader = ''a'', ph_Servers = [''a'', ''b''] \<rparr>"

definition example_config :: "((bytes \<times> bytes) list LevelDBWal, bytes list, unit) RuntimeConfig" where
  "example_config =
     \<lparr> kc_Handler = [], kc_Checks = (), kc_PrepareThreshold = 1, kc_CommitThreshold = 0,
       kc_Peers = Some (example_peers, \<lparr> hv_DataHash = zero_hash, hv_Signee = None, hv_Signature = None \<rparr>),
       kc_Wal = NewLevelDBWal [], kc_NodeID = [] \<rparr>"

definition example_node :: "NodeID \<Rightarrow> ((bytes \<times> bytes) list LevelDBWal, bytes list, unit) Runtime" where
  "example_node n =
     \<lparr> rt_nextIndex = 0, rt_lastCommit = 0, rt_pendingPrepares = [], rt_nodeID = n,
       rt_wal = \<lparr> lw_db = [], lw_it = None, lw_closed = False, lw_read = True \<rparr>, rt_sh = [], rt_checks = (),
       rt_role = (if n = ''a'' then Leader else Follower), rt_followers = [''b''], rt_minPreparedFollowers = 1,
       rt_minCommitFollowers = 0, rt_waitLogMap = [], rt_started = 1 \<rparr>"

definition example_group :: "((bytes \<times> bytes) list LevelDBWal, bytes list, unit, bytes) kayak_sys" where
  "example_group =
     \<lparr> ks_leader = example_node ''a'', ks_followers = \<lambda>f. if f = ''b'' then example_node ''b'' else example_node ''a'',
       ks_sent = [], ks_applies = [], ks_queue = [], ks_fqueue = \<lambda>_. [], ks_fdone = \<lambda>_. [] \<rparr>"

lemma example_node_start:
  assumes "n \<in> {''a'', ''b''}"
  shows "node_start example_kayak example_config n = Some (example_node n)"
proof -
  have f: "f64_mul 1 2 = 2" "f64_mul 0 2 = 0" using f64_round_exact [of 2] f64_round_exact [of 0] by (simp_all add: f64_mul_def)
  then have m: "minFollowers 1 (Suc (Suc 0)) = 1" "minFollowers 0 (Suc (Suc 0)) = 0" by (simp_all add: minFollowers_def)
  have read: "levelDBWal_Read example_leveldb example_wal_codec (NewLevelDBWal []) =
      (\<lparr> lw_db = [], lw_it = None, lw_closed = False, lw_read = True \<rparr>, Err ErrEOF)"
    by (simp add: levelDBWal_Read_def NewLevelDBWal_def example_leveldb_def)
  show ?thesis
    using assms
    by (auto simp: node_start_def NewRuntime_def example_config_def example_peers_def example_kayak_def peers_role_def
        readLogs.simps read m example_node_def rt_Start_def Let_def)
qed

lemma example_kayak_init: "kayak_init example_kayak example_config example_peers example_group"
  by (auto simp: kayak_init_def example_group_def example_node_start example_config_def [THEN arg_cong [of _ _ kc_Peers]])
    (simp_all add: example_peers_def example_node_start)

text \<open>The steps by which a first request is prepared, committed by the leader and then by the follower.\<close>

type_synonym example_sys = "((bytes \<times> bytes) list LevelDBWal, bytes list, unit, bytes) kayak_sys"

definition run_called :: "bytes \<Rightarrow> example_sys \<Rightarrow> example_sys option" where
  "run_called q s =
     (case rt_Apply example_kayak q (ks_leader s) of
        (L, Ok (l, t)) \<Rightarrow> Some (s \<lparr> ks_leader := L, ks_sent := l # ks_sent s,
          ks_applies := Preparing l q t [0..<length (tk_nodes t)] # ks_applies s \<rparr>)
      | _ \<Rightarrow> None)"

definition run_reply :: "example_sys \<Rightarrow> example_sys option" where
  "run_reply s =
     (case ks_applies s of
        Preparing l q t (idx # out) # ys \<Rightarrow>
          (case followerApply example_kayak (Some l) True (ks_followers s (tk_nodes t ! idx)) of
             (F, Done (Ok r)) \<Rightarrow> Some (s \<lparr> ks_followers := (ks_followers s)(tk_nodes t ! idx := F),
               ks_applies := [] @ Preparing l q (callSingle idx None t) (remove1 idx (idx # out)) # ys \<rparr>)
           | _ \<Rightarrow> None)
      | _ \<Rightarrow> None)"

definition run_prepared :: "example_sys \<Rightarrow> example_sys option" where
  "run_prepared s =
     (case ks_applies s of
        Preparing l q t out # ys \<Rightarrow>
          (if leaderPrepared False t = Done (Ok ())
           then Some (s \<lparr> ks_applies := [] @ Committing l # ys, ks_queue := ks_queue s @ [leaderCommitResult q l] \<rparr>)
           else None)
      | _ \<Rightarrow> None)"

definition run_commit :: "example_sys \<Rightarrow> example_sys option" where
  "run_commit s =
     (case ks_queue s of
        r # ys \<Rightarrow>
          (case leaderDoCommit example_kayak r (ks_leader s) of
             (L, Ok (l, t, result)) \<Rightarrow> Some (s \<lparr> ks_leader := L, ks_sent := l # ks_sent s, ks_queue := [] @ ys \<rparr>)
           | _ \<Rightarrow> None)
      | _ \<Rightarrow> None)"

definition run_deliver :: "NodeID \<Rightarrow> example_sys \<Rightarrow> example_sys option" where
  "run_deliver f s =
     (case ks_sent s of
        l # ls \<Rightarrow>
          (case followerApply example_kayak (Some l) True (ks_followers s f) of
             (F, a) \<Rightarrow> if f \<in> set (rt_followers (ks_leader s)) then Some (s \<lparr> ks_followers := (ks_followers s)(f := F),
               ks_fqueue := (ks_fqueue s)(f := ks_fqueue s f @ queued a) \<rparr>) else None)
      | _ \<Rightarrow> None)"

definition run_follower :: "NodeID \<Rightarrow> example_sys \<Rightarrow> example_sys option" where
  "run_follower f s =
     (case ks_fqueue s f of
        r # ys \<Rightarrow>
          (case followerDoCommit example_kayak r (ks_followers s f) of
             (F, Ok turn) \<Rightarrow> Some (s \<lparr> ks_followers := (ks_followers s)(f := F),
               ks_fqueue := (ks_fqueue s)(f := after_turn turn r ([] @ ys)),
               ks_fdone := (ks_fdone s)(f := (if turn = Requeued \<or> turn = Dropped then [] else [r]) @ ks_fdone s f) \<rparr>)
           | _ \<Rightarrow> None)
      | _ \<Rightarrow> None)"

lemma run_steps:
  "run_called q s = Some s' \<Longrightarrow> kayak_step example_kayak s s'" "run_reply s = Some s' \<Longrightarrow> kayak_step example_kayak s s'"
  "run_prepared s = Some s' \<Longrightarrow> kayak_step example_kayak s s'" "run_commit s = Some s' \<Longrightarrow> kayak_step example_kayak s s'"
  "run_deliver f s = Some s' \<Longrightarrow> kayak_step example_kayak s s'" "run_follower f s = Some s' \<Longrightarrow> kayak_step example_kayak s s'"
proof -
  show "kayak_step example_kayak s s'" if "run_called q s = Some s'"
    using that by (auto simp: run_called_def split: prod.splits res.splits intro: kayak_step.called)
  show "kayak_step example_kayak s s'" if "run_reply s = Some s'"
  proof -
    from that obtain l q t idx out ys F r where
      *: "ks_applies s = [] @ Preparing l q t (idx # out) # ys"
        "followerApply example_kayak (Some l) True (ks_followers s (tk_nodes t ! idx)) = (F, Done (Ok r))"
        "s' = s \<lparr> ks_followers := (ks_followers s)(tk_nodes t ! idx := F),
               ks_applies := [] @ Preparing l q (callSingle idx None t) (remove1 idx (idx # out)) # ys \<rparr>"
      by (auto simp: run_reply_def split: list.splits apply_call.splits prod.splits res.splits awaited.splits)
    show ?thesis unfolding *(3) by (rule kayak_step.reply [OF *(1) _ refl *(2)]) simp_all
  qed
  show "kayak_step example_kayak s s'" if "run_prepared s = Some s'"
  proof -
    from that obtain l q t out ys where
      *: "ks_applies s = [] @ Preparing l q t out # ys" "leaderPrepared False t = Done (Ok ())"
        "s' = s \<lparr> ks_applies := [] @ Committing l # ys, ks_queue := ks_queue s @ [leaderCommitResult q l] \<rparr>"
      by (auto simp: run_prepared_def split: list.splits apply_call.splits if_splits)
    show ?thesis unfolding *(3) by (rule kayak_step.prepared [OF *(1,2)])
  qed
  show "kayak_step example_kayak s s'" if "run_commit s = Some s'"
  proof -
    from that obtain r ys L l t result where
      *: "ks_queue s = [] @ r # ys" "leaderDoCommit example_kayak r (ks_leader s) = (L, Ok (l, t, result))"
        "s' = s \<lparr> ks_leader := L, ks_sent := l # ks_sent s, ks_queue := [] @ ys \<rparr>"
      by (auto simp: run_commit_def split: list.splits prod.splits res.splits)
    show ?thesis unfolding *(3) by (rule kayak_step.leader_commit [OF *(1,2)])
  qed
  show "kayak_step example_kayak s s'" if "run_deliver f s = Some s'"
    using that by (auto simp: run_deliver_def split: list.splits prod.splits if_splits intro: kayak_step.deliver)
  show "kayak_step example_kayak s s'" if "run_follower f s = Some s'"
  proof -
    from that obtain r ys F turn where
      *: "ks_fqueue s f = [] @ r # ys" "followerDoCommit example_kayak r (ks_followers s f) = (F, Ok turn)"
        "s' = s \<lparr> ks_followers := (ks_followers s)(f := F), ks_fqueue := (ks_fqueue s)(f := after_turn turn r ([] @ ys)),
               ks_fdone := (ks_fdone s)(f := (if turn = Requeued \<or> turn = Dropped then [] else [r]) @ ks_fdone s f) \<rparr>"
      by (auto simp: run_follower_def split: list.splits prod.splits res.splits)
    show ?thesis unfolding *(3) by (rule kayak_step.follower_commit [OF *(1,2)])
  qed
qed

definition example_run :: "example_sys option" where
  "example_run = Option.bind (Option.bind (Option.bind (Option.bind (Option.bind
     (run_called [7] example_group) run_reply) run_prepared) run_commit) (run_deliver ''b'')) (run_follower ''b'')"

lemma example_run_reaches: "example_run = Some s' \<Longrightarrow> kayak_run example_kayak example_group s'"
  unfolding example_run_def
  by (auto simp: bind_eq_Some_conv dest!: run_steps) (meson kayak_run.intros)

lemma example_run_result:
  "map_option (\<lambda>s. (rt_sh (ks_leader s), rt_sh (ks_followers s ''b''),
     map_option lg_Type (levelDBWal_entry example_wal_codec map_of (rt_wal (ks_leader s)) 1))) example_run =
   Some ([[7]], [[7]], Some LogCommit)"
  by code_simp

lemma example_kayak_ok:
  "kayak_leveldb example_leveldb example_wal_codec example_kayak = example_kayak" "payload_ok example_kayak"
  "empty_db example_leveldb kv_sorted map_of []" "kc_Wal example_config = NewLevelDBWal []" "distinct (ph_Servers example_peers)"
  by (simp_all add: kayak_leveldb_def example_kayak_def payload_ok_def empty_db_def example_leveldb_def example_config_def example_peers_def)

lemma example_run_ex:
  "\<exists>s' l. kayak_run example_kayak example_group s' \<and> rt_sh (ks_leader s') = [[7]] \<and> rt_sh (ks_followers s' ''b'') = [[7]] \<and>
     levelDBWal_entry example_wal_codec map_of (rt_wal (ks_leader s')) 1 = Some l \<and> lg_Type l = LogCommit"
  using example_run_result example_run_reaches by fastforce

theorem replicas_execute_one_order_witness:
  "\<exists>s' qs k. kayak_run example_kayak example_group s' \<and> rt_sh (ks_leader s') = [[7]] \<and> rt_sh (ks_followers s' ''b'') = [[7]] \<and>
     rt_sh (ks_leader s') = execute example_kayak True qs [] \<and> k \<le> length qs \<and>
     rt_sh (ks_followers s' ''b'') = execute example_kayak False (take k qs) []"
proof -
  obtain s' where s': "kayak_run example_kayak example_group s'" "rt_sh (ks_leader s') = [[7]]" "rt_sh (ks_followers s' ''b'') = [[7]]"
    using example_run_ex by blast
  from replicas_execute_one_order [OF example_kv_contract example_wal_codec_ok example_kayak_ok(2,3), unfolded example_kayak_ok(1),
      OF example_kayak_init example_kayak_ok(4,5) s'(1)]
  obtain qs where "rt_sh (ks_leader s') = execute example_kayak True qs (kc_Handler example_config)"
      "\<forall>f. \<exists>k \<le> length qs. rt_sh (ks_followers s' f) = execute example_kayak False (take k qs) (kc_Handler example_config)"
    by blast
  moreover have "kc_Handler example_config = []" by (simp add: example_config_def)
  ultimately show ?thesis using s' by metis
qed

theorem commit_needs_quorum_witness:
  "\<exists>s' l pl. kayak_run example_kayak example_group s' \<and>
     levelDBWal_entry example_wal_codec map_of (rt_wal (ks_leader s')) 1 = Some l \<and> lg_Type l = LogCommit \<and>
     levelDBWal_entry example_wal_codec map_of (rt_wal (ks_leader s')) (Uint 8 (lg_Data l)) = Some pl \<and>
     min (minFollowers 1 2) (int (length (rt_followers (ks_leader s')))) \<le> int (card {f \<in> {''b''}.
       levelDBWal_entry example_wal_codec map_of (rt_wal (ks_followers s' f)) (Uint 8 (lg_Data l)) = Some pl})"
proof -
  obtain s' l where s': "kayak_run example_kayak example_group s'"
      "levelDBWal_entry example_wal_codec map_of (rt_wal (ks_leader s')) 1 = Some l" "lg_Type l = LogCommit"
    using example_run_ex by blast
  have ex: "set (ph_Servers example_peers) - {ph_Leader example_peers} = {''b''}" "kc_PrepareThreshold example_config = 1"
      "length (ph_Servers example_peers) = 2"
    by (auto simp: example_peers_def example_config_def)
  from commit_needs_quorum [OF example_kv_contract example_wal_codec_ok example_kayak_ok(2,3), unfolded example_kayak_ok(1),
      OF example_kayak_init example_kayak_ok(4,5) s', unfolded ex] s'
  show ?thesis by blast
qed
end
