(* ===== verification/Kayak_Recovery.thy ===== *)
theory Kayak_Recovery
  imports Kayak_Replication
begin

text \<open>
  Restarting the leader: what \<open>NewRuntime\<close> recovers from a write-ahead log. The log of a
  leader is a sequence of entries of which each commit names the commit before it, and
  each prepare is resolved at most once; replaying it gives the last commit, the pending
  prepares and the next index.
\<close>

section \<open>Replaying entries\<close>

definition replay1 :: "Log \<Rightarrow> u64 \<times> u64 set \<Rightarrow> (u64 \<times> u64 set) option" where
  "replay1 l st =
     (case st of (lst, pend) \<Rightarrow>
        (case lg_Type l of
           LogPrepare \<Rightarrow> Some (lst, insert (lg_Index l) pend)
         | LogCommit \<Rightarrow>
             if length (lg_Data l) = 16 \<and> Uint 8 (drop 8 (lg_Data l)) = lst \<and> Uint 8 (lg_Data l) \<in> pend
             then Some (lg_Index l, pend - {Uint 8 (lg_Data l)}) else None
         | LogRollback \<Rightarrow>
             if length (lg_Data l) = 8 \<and> Uint 8 (lg_Data l) \<in> pend then Some (lst, pend - {Uint 8 (lg_Data l)}) else None
         | _ \<Rightarrow> None))"

fun replay :: "Log list \<Rightarrow> u64 \<times> u64 set \<Rightarrow> (u64 \<times> u64 set) option" where
  "replay [] st = Some st"
| "replay (l # ls) st = Option.bind (replay1 l st) (replay ls)"

lemma replay_append: "replay (ls @ ms) st = Option.bind (replay ls st) (replay ms)"
  by (induction ls arbitrary: st) (auto split: bind_splits)

text \<open>The runtime that \<open>readLogs\<close> leaves agrees with the replayed entries.\<close>

definition recovering ::
    "('w \<Rightarrow> bool) \<Rightarrow> ('w \<Rightarrow> u64 \<Rightarrow> Log option) \<Rightarrow> (u64 \<Rightarrow> Log option) \<Rightarrow> u64 \<times> u64 set \<Rightarrow> ('w, 'h, 'c) Runtime \<Rightarrow> bool" where
  "recovering ok entry ent st rt \<longleftrightarrow>
     ok (rt_wal rt) \<and> entry (rt_wal rt) = ent \<and> rt_lastCommit rt = fst st \<and>
     {i. mget (rt_pendingPrepares rt) i = Some True} = snd st \<and> minv (rt_pendingPrepares rt) \<and>
     (\<forall>i \<in> snd st. ent i \<noteq> None) \<and> ent (fst st) \<noteq> None"

lemma recovering_frame:
  assumes "recovering ok entry ent st rt" and "ok (rt_wal rt')" and "entry (rt_wal rt') = entry (rt_wal rt)"
    and "rt_lastCommit rt' = rt_lastCommit rt" and "rt_pendingPrepares rt' = rt_pendingPrepares rt"
  shows "recovering ok entry ent st rt'"
  using assms(1,2) unfolding recovering_def assms(3-5) by blast

text \<open>
  What recovery relies on: reads return the entries of the log in their order, and do not
  change what the log holds.
\<close>

locale kayak_replay = kayak_store E ok entry seal
  for E :: "('w, 'h, 'c, 'q, 'r) kayak_env" and ok entry seal +
  fixes unread :: "'w \<Rightarrow> Log list \<Rightarrow> bool"
  assumes read_next: "ok w \<Longrightarrow> unread w (l # ls) \<Longrightarrow>
      \<exists>w'. kw_Read E w = (w', Ok l) \<and> ok w' \<and> entry w' = entry w \<and> unread w' ls"
    and read_end: "ok w \<Longrightarrow> unread w [] \<Longrightarrow> \<exists>w'. kw_Read E w = (w', Err ErrEOF) \<and> ok w' \<and> entry w' = entry w"
    and unread_get: "ok w \<Longrightarrow> unread w ls \<Longrightarrow> entry w i = Some l \<Longrightarrow> kw_Get E i w = Ok l"
begin

lemma unread_wait: "ok (rt_wal rt) \<Longrightarrow> unread (rt_wal rt) ls \<Longrightarrow> entry (rt_wal rt) i = Some l \<Longrightarrow> waitForLog E i rt = (rt, Done l)"
  by (simp add: waitForLog_def unread_get)

lemma readLog_replays:
  assumes "recovering ok entry ent st rt" and "unread (rt_wal rt) ls" and "replay1 l st = Some st'" and "ent (lg_Index l) = Some l"
  shows "\<exists>rt'. readLog E l rt = Some (rt', Ok True) \<and> recovering ok entry ent st' rt' \<and> rt_wal rt' = rt_wal rt \<and>
    rt_nextIndex rt' = rt_nextIndex rt \<and> rt_sh rt' = rt_sh rt"
proof -
  have r: "ok (rt_wal rt)" "entry (rt_wal rt) = ent" "st = (rt_lastCommit rt, {i. mget (rt_pendingPrepares rt) i = Some True})"
      "minv (rt_pendingPrepares rt)" "\<forall>i. mget (rt_pendingPrepares rt) i = Some True \<longrightarrow> ent i \<noteq> None" "ent (rt_lastCommit rt) \<noteq> None"
    using assms(1) by (cases st; auto simp: recovering_def)+
  note wait = unread_wait [OF r(1) assms(2), unfolded r(2)]
  have index: "lg_Index pl = i" if "ent i = Some pl" for i pl using entry_index [OF r(1)] that r(2) by blast
  consider (prepare) "lg_Type l = LogPrepare" | (commit) "lg_Type l = LogCommit" | (rollback) "lg_Type l = LogRollback"
    using assms(3) by (cases "lg_Type l") (auto simp: replay1_def split: prod.splits)
  then show ?thesis
  proof cases
    case prepare
    then show ?thesis
      using assms(3,4) r by (auto simp: readLog_def replay1_def recovering_def markPendingPrepare_def split: if_splits)
  next
    case commit
    then have d: "length (lg_Data l) = 16" "Uint 8 (drop 8 (lg_Data l)) = rt_lastCommit rt"
        "mget (rt_pendingPrepares rt) (Uint 8 (lg_Data l)) = Some True"
        "st' = (lg_Index l, {i. mget (rt_pendingPrepares rt) i = Some True} - {Uint 8 (lg_Data l)})"
      using assms(3) by (auto simp: replay1_def r(3) split: if_splits)
    from d(3) r(5,6) obtain pl cl where "ent (Uint 8 (lg_Data l)) = Some pl" "ent (rt_lastCommit rt) = Some cl" by blast
    then have "getPrepareLog E l rt = (rt, Done (Ok (rt_lastCommit rt, pl)))" "lg_Index pl = Uint 8 (lg_Data l)"
      by (simp_all add: getPrepareLog_def bytesToUint64_def d wait index)
    then show ?thesis
      using commit d(3,4) r assms(4)
      by (auto simp: readLog_def checkIfPrepareFinished_def recovering_def markPrepareFinished_def split: if_splits)
  next
    case rollback
    then have d: "length (lg_Data l) = 8" "mget (rt_pendingPrepares rt) (Uint 8 (lg_Data l)) = Some True"
        "st' = (rt_lastCommit rt, {i. mget (rt_pendingPrepares rt) i = Some True} - {Uint 8 (lg_Data l)})"
      using assms(3) by (auto simp: replay1_def r(3) split: if_splits)
    from d(2) r(5) obtain pl where "ent (Uint 8 (lg_Data l)) = Some pl" by blast
    then have "getPrepareLog E l rt = (rt, Done (Ok (0, pl)))" "lg_Index pl = Uint 8 (lg_Data l)"
      by (simp_all add: getPrepareLog_def bytesToUint64_def d wait index)
    then show ?thesis
      using rollback d(2,3) r
      by (auto simp: readLog_def checkIfPrepareFinished_def recovering_def markPrepareFinished_def split: if_splits)
  qed
qed

end

context kayak_replay
begin

lemma recovering_nextIndex: "recovering ok entry ent st rt \<Longrightarrow> recovering ok entry ent st (updateNextIndex l rt)"
proof -
  assume r: "recovering ok entry ent st rt"
  then have "ok (rt_wal rt)" by (simp add: recovering_def)
  then show ?thesis by (intro recovering_frame [OF r]) (simp_all add: updateNextIndex_def)
qed

lemma readLogs_replays:
  assumes "recovering ok entry ent st rt" and "unread (rt_wal rt) ls" and "replay ls st = Some st'"
    and "\<forall>l \<in> set ls. ent (lg_Index l) = Some l"
  shows "\<exists>rt'. readLogs E rt = Some (rt', Ok ()) \<and> recovering ok entry ent st' rt' \<and> rt_sh rt' = rt_sh rt \<and>
    rt_nextIndex rt' = foldl (\<lambda>n l. if n < lg_Index l + 1 then lg_Index l + 1 else n) (rt_nextIndex rt) ls"
  using assms
proof (induction ls arbitrary: rt st)
  case Nil
  then have "ok (rt_wal rt)" by (simp add: recovering_def)
  from read_end [OF this Nil(2)] obtain w' where w': "kw_Read E (rt_wal rt) = (w', Err ErrEOF)" "ok w'" "entry w' = entry (rt_wal rt)"
    by blast
  have "readLogs E rt = Some (rt \<lparr> rt_wal := w' \<rparr>, Ok ())" by (subst readLogs.simps) (simp add: w')
  moreover have "recovering ok entry ent st' (rt \<lparr> rt_wal := w' \<rparr>)"
    using recovering_frame [OF Nil(1), of "rt \<lparr> rt_wal := w' \<rparr>"] Nil(3) w' by simp
  ultimately show ?case by simp
next
  case (Cons l ls)
  have "ok (rt_wal rt)" using Cons.prems(1) by (simp add: recovering_def)
  from read_next [OF this Cons.prems(2)] obtain w' where
    w': "kw_Read E (rt_wal rt) = (w', Ok l)" "ok w'" "entry w' = entry (rt_wal rt)" "unread w' ls"
    by blast
  let ?rt = "rt \<lparr> rt_wal := w' \<rparr>"
  from Cons.prems(3) obtain st1 where st1: "replay1 l st = Some st1" "replay ls st1 = Some st'" by (auto simp: bind_eq_Some_conv)
  have "recovering ok entry ent st ?rt" using recovering_frame [OF Cons.prems(1), of ?rt] w' by simp
  from readLog_replays [OF this _ st1(1)] w'(4) Cons.prems(4) obtain rt1 where
    rt1: "readLog E l ?rt = Some (rt1, Ok True)" "recovering ok entry ent st1 rt1" "rt_wal rt1 = w'"
      "rt_nextIndex rt1 = rt_nextIndex rt" "rt_sh rt1 = rt_sh rt" by auto
  let ?rt1 = "updateNextIndex l rt1"
  have u: "rt_wal ?rt1 = w'" "rt_sh ?rt1 = rt_sh rt"
      "rt_nextIndex ?rt1 = (if rt_nextIndex rt < lg_Index l + 1 then lg_Index l + 1 else rt_nextIndex rt)"
    using rt1(3-5) by (simp_all add: updateNextIndex_def)
  have "readLogs E rt = readLogs E ?rt1" by (subst readLogs.simps) (simp add: w'(1) rt1(1))
  then show ?case
    using Cons.IH [OF recovering_nextIndex [OF rt1(2)], of l] w'(4) u st1(2) Cons.prems(4) by simp
qed

end

text \<open>The next index after entries with consecutive indexes.\<close>

lemma next_index:
  assumes "map (unat \<circ> lg_Index) ls = [n..<m]" and "n \<le> m" and "m < 2 ^ 64"
  shows "foldl (\<lambda>n l. if n < lg_Index l + 1 then lg_Index l + 1 else n) (of_nat n) ls = (of_nat m :: u64)"
  using assms
proof (induction ls arbitrary: n)
  case Nil
  then have "n = m" by (cases "n < m") (auto simp: upt_rec)
  then show ?case by simp
next
  case (Cons l ls)
  have "n < m" using Cons.prems(1) by (cases "n < m") auto
  with Cons.prems(1) have n: "n < m" "unat (lg_Index l) = n" "map (unat \<circ> lg_Index) ls = [Suc n..<m]"
    by (simp_all add: upt_conv_Cons comp_def)
  then have l: "lg_Index l + 1 = of_nat (Suc n)" by auto
  have "(of_nat n :: u64) < of_nat (Suc n)"
    using n(1) Cons.prems(3) by (simp add: word_less_nat_alt unat_of_nat del: of_nat_Suc)
  then show ?case using Cons.IH [OF n(3)] n(1) Cons.prems(3) by (simp only: foldl_Cons l if_True)
qed

section \<open>The log of the leader\<close>

text \<open>The entries have the indexes from 0 on; the calls that are still open are pending.\<close>

definition log_list :: "(u64 \<Rightarrow> Log option) \<Rightarrow> Log list \<Rightarrow> bool" where
  "log_list ent ls \<longleftrightarrow>
     map (unat \<circ> lg_Index) ls = [0..<length ls] \<and> length ls \<le> 2 ^ 64 \<and>
     (\<forall>i. ent i = (if unat i < length ls then Some (ls ! unat i) else None))"

fun call_index :: "'q apply_call \<Rightarrow> u64 list" where
  "call_index (Preparing l q t out) = [lg_Index l]"
| "call_index (Committing l) = []"

definition open_calls :: "('w, 'h, 'c, 'q) kayak_sys \<Rightarrow> u64 list" where
  "open_calls s = concat (map call_index (ks_applies s)) @ map cq_index (ks_queue s)"

definition leader_log_ok :: "('w \<Rightarrow> u64 \<Rightarrow> Log option) \<Rightarrow> ('w, 'h, 'c, 'q) kayak_sys \<Rightarrow> bool" where
  "leader_log_ok entry s \<longleftrightarrow>
     (\<exists>ls pend. log_list (entry (rt_wal (ks_leader s))) ls \<and> rt_nextIndex (ks_leader s) = of_nat (length ls) \<and>
        replay ls (0, {}) = Some (rt_lastCommit (ks_leader s), pend) \<and>
        distinct (open_calls s) \<and> set (open_calls s) \<subseteq> pend)"

lemma replay_pending:
  "replay ls (a, P) = Some (b, Q) \<Longrightarrow> Q \<subseteq> P \<union> lg_Index ` set ls"
proof (induction ls arbitrary: a P)
  case (Cons l ls)
  from Cons.prems obtain a' P' where r: "replay1 l (a, P) = Some (a', P')" "replay ls (a', P') = Some (b, Q)"
    by (auto simp: bind_eq_Some_conv)
  from r(1) have "P' \<subseteq> insert (lg_Index l) P" by (auto simp: replay1_def split: LogType.splits if_splits)
  with Cons.IH [OF r(2)] show ?case by auto
qed simp

lemma log_list_grow:
  assumes "log_list ent ls" and "ent i = None" and "i = of_nat (length ls)" and "lg_Index l = i"
  shows "log_list (ent(i \<mapsto> l)) (ls @ [l])" and "i \<notin> lg_Index ` set ls"
proof -
  have e: "ent k = (if unat k < length ls then Some (ls ! unat k) else None)" for k
    using assms(1) by (simp add: log_list_def)
  have le: "length ls \<le> 2 ^ 64" using assms(1) by (simp add: log_list_def)
  have "length ls \<noteq> 2 ^ 64"
  proof
    assume full: "length ls = 2 ^ 64"
    then have "unat i < length ls" using unsigned_less [of i] by simp
    then show False using assms(2) e [of i] by simp
  qed
  then have n: "length ls < 2 ^ 64" "unat i = length ls" using le assms(3) by (simp_all add: unat_of_nat)
  then have k: "unat k = length ls \<longleftrightarrow> k = i" for k by (metis unsigned_word_eqI)
  have "(ent(i \<mapsto> l)) j = (if unat j < length (ls @ [l]) then Some ((ls @ [l]) ! unat j) else None)" for j
  proof (cases "j = i")
    case True
    then show ?thesis using n(2) by simp
  next
    case False
    then have "unat j < length (ls @ [l]) \<longleftrightarrow> unat j < length ls" using k [of j] by auto
    then show ?thesis using False e [of j] by (simp add: nth_append)
  qed
  then show "log_list (ent(i \<mapsto> l)) (ls @ [l])"
    using assms(1,4) n by (simp add: log_list_def)
  have "unat (lg_Index x) < length ls" if "x \<in> set ls" for x
  proof -
    have "unat (lg_Index x) \<in> set (map (unat \<circ> lg_Index) ls)" using that by auto
    also have "map (unat \<circ> lg_Index) ls = [0..<length ls]" using assms(1) by (simp add: log_list_def)
    finally show ?thesis by simp
  qed
  then show "i \<notin> lg_Index ` set ls" using n(2) by fastforce
qed

lemma leader_log_okI:
  assumes "log_list (entry (rt_wal (ks_leader s))) ls" and "rt_nextIndex (ks_leader s) = of_nat (length ls)"
    and "replay ls (0, {}) = Some (rt_lastCommit (ks_leader s), pend)" and "distinct (open_calls s)" and "set (open_calls s) \<subseteq> pend"
  shows "leader_log_ok entry s"
  using assms unfolding leader_log_ok_def by blast

text \<open>A step that leaves the leader's log alone and opens no call.\<close>

lemma leader_log_frame:
  assumes "leader_log_ok entry s" and "rt_wal (ks_leader s') = rt_wal (ks_leader s)"
    and "rt_nextIndex (ks_leader s') = rt_nextIndex (ks_leader s)" and "rt_lastCommit (ks_leader s') = rt_lastCommit (ks_leader s)"
    and "distinct (open_calls s) \<Longrightarrow> distinct (open_calls s') \<and> set (open_calls s') \<subseteq> set (open_calls s)"
  shows "leader_log_ok entry s'"
proof -
  from assms(1) obtain ls pend where ls: "log_list (entry (rt_wal (ks_leader s))) ls" "rt_nextIndex (ks_leader s) = of_nat (length ls)"
      "replay ls (0, {}) = Some (rt_lastCommit (ks_leader s), pend)" "distinct (open_calls s)" "set (open_calls s) \<subseteq> pend"
    unfolding leader_log_ok_def by blast
  with assms(5) have "distinct (open_calls s')" "set (open_calls s') \<subseteq> pend" by blast+
  with ls(1-3) show ?thesis by (intro leader_log_okI [of entry s' ls pend]) (simp_all add: assms(2-4))
qed

text \<open>Closing a call.\<close>

lemma distinct_close: "distinct (xs @ i # ys) \<Longrightarrow> set (xs @ i # ys) \<subseteq> P \<Longrightarrow> i \<in> P \<and> distinct (xs @ ys) \<and> set (xs @ ys) \<subseteq> P - {i}"
  by auto

lemma open_calls_close:
  "ks_applies s = xs @ Preparing l q t out # ys \<Longrightarrow>
     open_calls s = concat (map call_index xs) @ lg_Index l # concat (map call_index ys) @ map cq_index (ks_queue s)"
  "ks_queue s = us @ r # vs \<Longrightarrow>
     open_calls s = (concat (map call_index (ks_applies s)) @ map cq_index us) @ cq_index r # map cq_index vs"
  by (simp_all add: open_calls_def)

context kayak_store
begin

text \<open>A new entry of the leader that can be replayed.\<close>

lemma leader_log_new:
  assumes "leader_log_ok entry s" and "ok (rt_wal (ks_leader s))" and "newLog E t d L = (L1, Ok l)"
    and "rt_wal L = rt_wal (ks_leader s)" and "rt_nextIndex L = rt_nextIndex (ks_leader s)"
    and "rt_wal (ks_leader s') = rt_wal L1" and "rt_nextIndex (ks_leader s') = rt_nextIndex L1"
    and "\<And>pend. \<lbrakk> distinct (open_calls s); set (open_calls s) \<subseteq> pend; lg_Index l \<notin> pend; lg_Type l = t; lg_Data l = d \<rbrakk> \<Longrightarrow>
      \<exists>pend'. replay1 l (rt_lastCommit (ks_leader s), pend) = Some (rt_lastCommit (ks_leader s'), pend') \<and>
        distinct (open_calls s') \<and> set (open_calls s') \<subseteq> pend'"
  shows "leader_log_ok entry s'"
proof -
  from assms(1) obtain ls pend where ls: "log_list (entry (rt_wal (ks_leader s))) ls" "rt_nextIndex (ks_leader s) = of_nat (length ls)"
      "replay ls (0, {}) = Some (rt_lastCommit (ks_leader s), pend)" "distinct (open_calls s)" "set (open_calls s) \<subseteq> pend"
    unfolding leader_log_ok_def by blast
  have o: "ok (rt_wal L)" using assms(2,4) by simp
  note n = newLog_Ok [OF o assms(3)]
  have free: "entry (rt_wal (ks_leader s)) (rt_nextIndex L) = None" using n(1) assms(4) by simp
  have i: "rt_nextIndex L = of_nat (length ls)" using ls(2) assms(5) by simp
  note g = log_list_grow [OF ls(1) free i n(2)]
  have "lg_Index l \<notin> pend" using g(2) replay_pending [OF ls(3)] n(2) by auto
  from assms(8) [OF ls(4,5) this n(3,4)] obtain pend' where p: "replay1 l (rt_lastCommit (ks_leader s), pend) = Some (rt_lastCommit (ks_leader s'), pend')"
      "distinct (open_calls s')" "set (open_calls s') \<subseteq> pend'" by blast
  have "rt_nextIndex L1 = rt_nextIndex L + 1" by (subst n(8)) simp
  then have "rt_nextIndex (ks_leader s') = of_nat (length (ls @ [l]))" using i assms(7) by simp
  moreover have "log_list (entry (rt_wal (ks_leader s'))) (ls @ [l])" using g(1) n(7) assms(4,6) by simp
  ultimately show ?thesis
    using p by (intro leader_log_okI [of entry s' "ls @ [l]"]) (simp_all add: replay_append ls(3))
qed

lemma leader_log_called:
  assumes "leader_log_ok entry s" and "ok (rt_wal (ks_leader s))" and "rt_Apply E q (ks_leader s) = (L, Ok (l, t))"
  shows "leader_log_ok entry (s \<lparr> ks_leader := L, ks_sent := l # ks_sent s, ks_applies := Preparing l q t out # ks_applies s \<rparr>)"
proof -
  from assms(3) obtain c b L2 where n: "newLog E LogPrepare b (ks_leader s \<lparr> rt_checks := c \<rparr>) = (L2, Ok l)"
      and L: "L = markPendingPrepare (lg_Index l) L2"
    by (auto simp: rt_Apply_def doLeaderPrepare_def doCheck_def doEncodePayload_def callback_def leaderLogPrepare_def Let_def
        split: if_splits prod.splits res.splits)
  have o: "ok (rt_wal (ks_leader s \<lparr> rt_checks := c \<rparr>))" using assms(2) by simp
  have "rt_lastCommit L2 = rt_lastCommit (ks_leader s)" by (subst newLog_Ok(8) [OF o n]) simp
  then show ?thesis
    by (intro leader_log_new [OF assms(1,2) n]) (auto simp: L markPendingPrepare_def open_calls_def replay1_def)
qed

lemma leader_log_rollback:
  assumes "leader_log_ok entry s" and "ok (rt_wal (ks_leader s))" and "ks_applies s = xs @ Preparing l q t out # ys"
    and "doLeaderRollback E l (ks_leader s) = (L, Ok (rl, rt))"
  shows "leader_log_ok entry (s \<lparr> ks_leader := markPrepareFinished (lg_Index l) L, ks_sent := rl # ks_sent s, ks_applies := xs @ ys \<rparr>)"
    (is "leader_log_ok entry ?s")
proof -
  have n: "newLog E LogRollback (rt_uint64ToBytes (lg_Index l)) (ks_leader s) = (L, Ok rl)"
    using assms(4) by (auto simp: doLeaderRollback_def leaderLogRollback_def split: prod.splits res.splits)
  have "rt_lastCommit L = rt_lastCommit (ks_leader s)" by (subst newLog_Ok(8) [OF assms(2) n]) simp
  then have last: "rt_lastCommit (markPrepareFinished (lg_Index l) L) = rt_lastCommit (ks_leader s)"
    by (simp add: markPrepareFinished_def)
  show ?thesis
  proof (rule leader_log_new [OF assms(1,2) n])
    fix pend assume a: "distinct (open_calls s)" "set (open_calls s) \<subseteq> pend" "lg_Type rl = LogRollback"
        "lg_Data rl = rt_uint64ToBytes (lg_Index l)"
    note c = distinct_close [OF a(1,2) [unfolded open_calls_close(1) [OF assms(3)]]]
    then show "\<exists>pend'. replay1 rl (rt_lastCommit (ks_leader s), pend) = Some (rt_lastCommit (ks_leader ?s), pend') \<and>
        distinct (open_calls ?s) \<and> set (open_calls ?s) \<subseteq> pend'"
      using a(3,4) by (intro exI [of _ "pend - {lg_Index l}"]) (simp add: replay1_def uint64_pair last open_calls_def)
  qed (simp_all add: markPrepareFinished_def)
qed

lemma leader_log_commit:
  assumes "leader_log_ok entry s" and "ok (rt_wal (ks_leader s))" and "ks_queue s = xs @ r # ys"
    and "leaderDoCommit E r (ks_leader s) = (L, Ok (l, t, result))"
  shows "leader_log_ok entry (s \<lparr> ks_leader := L, ks_sent := l # ks_sent s, ks_queue := xs @ ys \<rparr>)"
    (is "leader_log_ok entry ?s")
proof -
  let ?d = "rt_uint64ToBytes (cq_index r) @ rt_uint64ToBytes (rt_lastCommit (ks_leader s))"
  from assms(4) obtain L1 h1 where n: "newLog E LogCommit ?d (ks_leader s) = (L1, Ok l)"
      and L: "L = L1 \<lparr> rt_sh := h1, rt_lastCommit := lg_Index l \<rparr>"
    by (auto simp: leaderDoCommit_def doCommit_def Let_def split: prod.splits res.splits if_splits)
  show ?thesis
  proof (rule leader_log_new [OF assms(1,2) n])
    fix pend assume a: "distinct (open_calls s)" "set (open_calls s) \<subseteq> pend" "lg_Type l = LogCommit" "lg_Data l = ?d"
    note c = distinct_close [OF a(1,2) [unfolded open_calls_close(2) [OF assms(3)]]]
    then show "\<exists>pend'. replay1 l (rt_lastCommit (ks_leader s), pend) = Some (rt_lastCommit (ks_leader ?s), pend') \<and>
        distinct (open_calls ?s) \<and> set (open_calls ?s) \<subseteq> pend'"
      using a(3,4) by (intro exI [of _ "pend - {cq_index r}"]) (simp add: replay1_def uint64_pair L open_calls_def)
  qed (simp_all add: L)
qed

end

context kayak_store
begin

lemma leader_log_step:
  assumes "sys_ok E ok entry seal h hs s" and "leader_log_ok entry s" and "kayak_step E s s'"
  shows "leader_log_ok entry s'"
proof -
  have o: "ok (rt_wal (ks_leader s))" using sys_okD(1) [OF assms(1)] by (simp add: leader_ok_def)
  show ?thesis
    using assms(3)
  proof cases
    case (called q L l t)
    then show ?thesis using leader_log_called [OF assms(2) o] by blast
  next
    case (refused q L e)
    then have "\<exists>c. L = ks_leader s \<lparr> rt_checks := c \<rparr>"
      by (auto simp: rt_Apply_def doLeaderPrepare_def doCheck_def leaderLogPrepare_def newLog_def Let_def
        split: if_splits prod.splits res.splits option.splits intro: exI [of _ "rt_checks (ks_leader s)"])
    then show ?thesis by (intro leader_log_frame [OF assms(2)]) (auto simp: refused(1) open_calls_def)
  next
    case (not_prepared xs l q t out ys ctxDone e L rl rt)
    then show ?thesis using leader_log_rollback [OF assms(2) o] by blast
  next
    case (leader_commit xs r ys L l t result)
    then show ?thesis using leader_log_commit [OF assms(2) o] by blast
  qed (rule leader_log_frame [OF assms(2)]; auto simp: open_calls_def leaderCommitResult_def markPrepareFinished_def image_iff)+
qed

lemma run_log_ok:
  assumes "kayak_run E s s'" and "sys_ok E ok entry seal h hs s" and "quorum_ok entry s" and "leader_log_ok entry s" and "payload_ok E"
  shows "leader_log_ok entry s'"
  using assms(1-4)
proof induction
  case (step s s' s'')
  from run_ok [OF step(1,4,5) assms(5)] obtain xs where "sys_ok E ok entry seal h (hs @ xs) s'" by blast
  from leader_log_step [OF this] step show ?case by blast
qed simp

end

section \<open>Restarting on both logs\<close>

text \<open>A memory log has no entries to read again.\<close>

interpretation mem_replay: kayak_replay "kayak_mem E" memWal_inv memWal_entry id "\<lambda>w ls. \<not> mw_closed w \<and> ls = []" for E
proof
  fix w ls i l assume "memWal_inv w" "\<not> mw_closed w \<and> ls = ([] :: Log list)" "memWal_entry w i = Some l"
  then show "kw_Get (kayak_mem E) i w = Ok l" by (auto simp: kayak_mem_def memWal_Get_def memWal_inv_def memWal_entry_def)
qed (auto simp: kayak_mem_def memWal_Read_def)

lemma kayak_leveldb_replay:
  assumes "kv_contract D okdb view" and "kv_reads D okdb view" and "wal_codec_ok C"
  shows "kayak_replay (kayak_leveldb D C E) (levelDBWal_inv C okdb view) (levelDBWal_entry C view) (levelDBWal_seal C)
    (levelDBWal_pending D C view)"
proof (rule kayak_replay.intro [OF kayak_leveldb_store [OF assms(1,3)]], unfold_locales)
  fix w l ls assume w: "levelDBWal_inv C okdb view w" "levelDBWal_pending D C view w (l # ls)"
  from levelDBWal_Read_next [OF assms(2) w] obtain w' where
    w': "levelDBWal_Read D C w = (w', Ok l)" "lw_db w' = lw_db w" "levelDBWal_inv C okdb view w'" "levelDBWal_pending D C view w' ls"
    by blast
  then show "\<exists>w'. kw_Read (kayak_leveldb D C E) w = (w', Ok l) \<and> levelDBWal_inv C okdb view w' \<and>
      levelDBWal_entry C view w' = levelDBWal_entry C view w \<and> levelDBWal_pending D C view w' ls"
    using levelDBWal_entry_cong [OF arg_cong [OF w'(2), of view]] by (auto simp: kayak_leveldb_def)
next
  fix w assume w: "levelDBWal_inv C okdb view w" "levelDBWal_pending D C view w []"
  then show "\<exists>w'. kw_Read (kayak_leveldb D C E) w = (w', Err ErrEOF) \<and> levelDBWal_inv C okdb view w' \<and>
      levelDBWal_entry C view w' = levelDBWal_entry C view w"
    using levelDBWal_Read_end [OF w(2)] by (auto simp: kayak_leveldb_def levelDBWal_inv_def intro!: levelDBWal_entry_cong)
next
  fix w ls i l assume "levelDBWal_inv C okdb view w" "levelDBWal_pending D C view w ls" "levelDBWal_entry C view w i = Some l"
  then show "kw_Get (kayak_leveldb D C E) i w = Ok l"
    using levelDBWal_Get_entry [OF assms(2), of C w i] by (auto simp: kayak_leveldb_def levelDBWal_pending_def)
qed

text \<open>A sorted list of the entries of a log is the log.\<close>

lemma log_list_unique:
  assumes "log_list ent ls" and "sorted_wrt (<) (map lg_Index ms)" and "set ms = {l. \<exists>i. ent i = Some l}"
  shows "ms = ls"
proof -
  have e: "ent k = (if unat k < length ls then Some (ls ! unat k) else None)" for k
    using assms(1) by (simp add: log_list_def)
  have nth: "unat (lg_Index (ls ! k)) = k" if "k < length ls" for k
    using assms(1) that unfolding log_list_def by (metis (no_types, lifting) comp_apply nth_map nth_upt plus_nat.add_0)
  have le: "k < 2 ^ 64" if "k < length ls" for k using assms(1) that by (simp add: log_list_def)
  have "\<exists>i. ent i = Some (ls ! k)" if "k < length ls" for k
    using that le [OF that] e [of "of_nat k"] by (intro exI [of _ "of_nat k"]) (simp add: unat_of_nat)
  then have "set ls \<subseteq> set ms" unfolding assms(3) by (auto simp: in_set_conv_nth)
  moreover have "set ms \<subseteq> set ls" unfolding assms(3) using e by (auto split: if_splits)
  ultimately have s: "set ms = set ls" by blast
  have "sorted_wrt (<) (map lg_Index ls)"
    using nth by (auto simp: sorted_wrt_iff_nth_less word_less_nat_alt)
  with assms(2) have "sorted (map lg_Index ms)" "distinct (map lg_Index ms)" "sorted (map lg_Index ls)" "distinct (map lg_Index ls)"
    by (simp_all add: strict_sorted_iff)
  with s have "map lg_Index ms = map lg_Index ls" by (metis list.set_map sorted_distinct_set_unique)
  moreover have "inj_on lg_Index (set ms \<union> set ls)" using s \<open>distinct (map lg_Index ls)\<close> by (simp add: distinct_map)
  ultimately show ?thesis by (metis inj_on_map_eq_map)
qed

text \<open>A node of the group that starts again, with a log and a handler state.\<close>

lemma NewRuntime_again:
  assumes "node_start E cfg n = Some rt0" and "cfg' = cfg \<lparr> kc_NodeID := n, kc_Wal := w, kc_Handler := h \<rparr>"
  shows "\<exists>rt. rt_nextIndex rt = 0 \<and> rt_lastCommit rt = 0 \<and> rt_pendingPrepares rt = [] \<and> rt_wal rt = w \<and> rt_sh rt = h \<and>
    NewRuntime E (Some cfg') =
      (case readLogs E rt of None \<Rightarrow> None | Some (rt, Ok _) \<Rightarrow> Some (Ok rt) | Some (rt, Err e) \<Rightarrow> Some (Err e) | Some (rt, Panic) \<Rightarrow> Some Panic)"
proof -
  from assms(1) obtain peers hsv r role where P: "kc_Peers cfg = Some (peers, hsv)" "peers_Verify E peers hsv = Ok r"
      "peers_role peers n = Some role"
    by (auto simp: node_start_def NewRuntime_def split: res.splits option.splits prod.splits)
  let ?rt = "\<lparr> rt_nextIndex = 0, rt_lastCommit = 0, rt_pendingPrepares = [], rt_nodeID = n, rt_wal = w, rt_sh = h,
    rt_checks = kc_Checks cfg, rt_role = role, rt_followers = filter (\<lambda>v. v \<noteq> ph_Leader peers) (ph_Servers peers),
    rt_minPreparedFollowers = minFollowers (kc_PrepareThreshold cfg) (length (ph_Servers peers)),
    rt_minCommitFollowers = minFollowers (kc_CommitThreshold cfg) (length (ph_Servers peers)), rt_waitLogMap = [], rt_started = 0 \<rparr>"
  have "NewRuntime E (Some cfg') =
      (case readLogs E ?rt of None \<Rightarrow> None | Some (rt, Ok _) \<Rightarrow> Some (Ok rt) | Some (rt, Err e) \<Rightarrow> Some (Err e) | Some (rt, Panic) \<Rightarrow> Some Panic)"
    by (simp add: assms(2) NewRuntime_def P Let_def)
  then show ?thesis by (intro exI [of _ ?rt]) simp
qed

context kayak_replay
begin

lemma restart:
  assumes "node_start E cfg n = Some rt0" and "leader_log_ok entry s" and "ok w" and "entry w = entry (rt_wal (ks_leader s))"
    and "unread w ms" and "sorted_wrt (<) (map lg_Index ms)" and "set ms = {l. \<exists>i. entry w i = Some l}"
    and "entry w k = None"
  shows "\<exists>L. NewRuntime E (Some (cfg \<lparr> kc_NodeID := n, kc_Wal := w, kc_Handler := h \<rparr>)) = Some (Ok L) \<and> rt_sh L = h \<and>
    rt_nextIndex L = rt_nextIndex (ks_leader s) \<and> rt_lastCommit L = rt_lastCommit (ks_leader s) \<and>
    (\<forall>i \<in> set (open_calls s). \<not> checkIfPrepareFinished i L)"
proof -
  from assms(2) obtain ls pend where ls: "log_list (entry (rt_wal (ks_leader s))) ls" "rt_nextIndex (ks_leader s) = of_nat (length ls)"
      "replay ls (0, {}) = Some (rt_lastCommit (ks_leader s), pend)" "set (open_calls s) \<subseteq> pend"
    unfolding leader_log_ok_def by blast
  have ms: "ms = ls" by (rule log_list_unique [OF ls(1) assms(6)]) (use assms(4,7) in simp)
  obtain rt where rt: "rt_nextIndex rt = 0" "rt_lastCommit rt = 0" "rt_pendingPrepares rt = []" "rt_wal rt = w" "rt_sh rt = h"
      "NewRuntime E (Some (cfg \<lparr> kc_NodeID := n, kc_Wal := w, kc_Handler := h \<rparr>)) =
        (case readLogs E rt of None \<Rightarrow> None | Some (rt, Ok _) \<Rightarrow> Some (Ok rt) | Some (rt, Err e) \<Rightarrow> Some (Err e) | Some (rt, Panic) \<Rightarrow> Some Panic)"
    using NewRuntime_again [OF assms(1) refl, of w h] by blast
  have e: "entry w i = (if unat i < length ls then Some (ls ! unat i) else None)" for i
    using ls(1) assms(4) by (simp add: log_list_def)
  have "unat k < 2 ^ 64" using unsigned_less [of k] by simp
  with e [of k] assms(8) have short: "length ls < 2 ^ 64" by (simp split: if_splits)
  show ?thesis
  proof (cases "ls = []")
    case True
    then obtain w' where "kw_Read E w = (w', Err ErrEOF)" using read_end [OF assms(3)] assms(5) ms by blast
    then have "readLogs E rt = Some (rt \<lparr> rt_wal := w' \<rparr>, Ok ())" by (subst readLogs.simps) (simp add: rt(4))
    then show ?thesis using rt ls True by auto
  next
    case False
    then have "entry w 0 \<noteq> None" using e [of 0] by simp
    then have rec: "recovering ok entry (entry w) (0, {}) rt" using rt assms(3) by (simp add: recovering_def)
    have mem: "\<forall>l \<in> set ls. entry w (lg_Index l) = Some l" using assms(7) ms entry_index [OF assms(3)] by blast
    have idx: "map (unat \<circ> lg_Index) ls = [0..<length ls]" using ls(1) by (simp add: log_list_def)
    from readLogs_replays [OF rec _ ls(3) mem] assms(5) ms rt(4) obtain L where
      L: "readLogs E rt = Some (L, Ok ())" "recovering ok entry (entry w) (rt_lastCommit (ks_leader s), pend) L" "rt_sh L = h"
        "rt_nextIndex L = foldl (\<lambda>n l. if n < lg_Index l + 1 then lg_Index l + 1 else n) (rt_nextIndex rt) ls"
      using rt(5) by auto
    moreover have "rt_nextIndex L = of_nat (length ls)" using L(4) next_index [OF idx _ short] rt(1) by simp
    ultimately show ?thesis
      using rt(6) ls(2,4) by (auto simp: recovering_def checkIfPrepareFinished_def)
  qed
qed

end

section \<open>Properties\<close>

text \<open>
  C13: A leader that stops between any two steps of the protocol (a commit, with the log
  entry and the execution of the request, is one step) and starts again on its write-ahead
  log resumes
  where it was: starting returns, and the next index and the last commit are those from
  before the stop, so that the next commit names the right predecessor and the next log
  does not hit a used index. Every prepare whose call was still open is pending again.
\<close>

theorem restarted_leader_resumes:
  assumes "kv_contract D okdb view" and "kv_reads D okdb view" and "wal_codec_ok C" and "payload_ok E"
    and "empty_db D okdb view db" and "kayak_init (kayak_leveldb D C E) cfg peers s" and "kc_Wal cfg = NewLevelDBWal db"
    and "distinct (ph_Servers peers)" and "kayak_run (kayak_leveldb D C E) s s'"
    and "levelDBWal_entry C view (rt_wal (ks_leader s')) k = None"
  shows "\<exists>L. NewRuntime (kayak_leveldb D C E) (Some (cfg \<lparr> kc_NodeID := ph_Leader peers,
      kc_Wal := NewLevelDBWal (lw_db (rt_wal (ks_leader s'))), kc_Handler := h \<rparr>)) = Some (Ok L) \<and> rt_sh L = h \<and>
    rt_nextIndex L = rt_nextIndex (ks_leader s') \<and> rt_lastCommit L = rt_lastCommit (ks_leader s') \<and>
    (\<forall>i \<in> set (open_calls s'). \<not> checkIfPrepareFinished i L)"
proof -
  let ?E = "kayak_leveldb D C E" and ?ok = "levelDBWal_inv C okdb view" and ?entry = "levelDBWal_entry C view"
    and ?w = "NewLevelDBWal (lw_db (rt_wal (ks_leader s')))"
  note store = kayak_leveldb_store [OF assms(1,3), of E]
  have pay: "payload_ok ?E" using assms(4) by (simp add: payload_ok_def kayak_leveldb_def)
  obtain w0 where w0: "kw_Read ?E (kc_Wal cfg) = (w0, Err ErrEOF)" "?ok w0" "?entry w0 = Map.empty"
    using empty_leveldb [OF assms(5,7)] by blast
  note init = kayak_init_ok [OF assms(6) w0(1), where ok = ?ok and entry = ?entry, OF w0(2,3)]
  have start: "node_start ?E cfg (ph_Leader peers) = Some (ks_leader s)" "map_option fst (kc_Peers cfg) = Some peers"
    using assms(6) by (simp_all add: kayak_init_def)
  note s = node_start_empty [OF start w0(1)]
  have "log_list (?entry (rt_wal (ks_leader s))) []" using s(1) w0(3) by (simp add: log_list_def)
  moreover have "open_calls s = []" using assms(6) by (simp add: open_calls_def kayak_init_def)
  ultimately have "leader_log_ok ?entry s" using s(2,3) by (intro leader_log_okI [of _ _ "[]" "{}"]) simp_all
  from kayak_store.run_log_ok [OF store assms(9) init(1) init(2) [OF assms(8)] this pay] have log: "leader_log_ok ?entry s'" .
  from kayak_store.run_ok [OF store assms(9) init(1) init(2) [OF assms(8)] pay] obtain hs where
    s': "sys_ok ?E ?ok ?entry (levelDBWal_seal C) (kc_Handler cfg) hs s'" by auto
  have "?ok (rt_wal (ks_leader s'))" using sys_okD(1) [OF s'] by (simp add: leader_ok_def)
  then have ok: "?ok ?w" by (simp add: levelDBWal_inv_def NewLevelDBWal_def)
  have entry: "?entry ?w = ?entry (rt_wal (ks_leader s'))" by (rule levelDBWal_entry_cong) (simp add: NewLevelDBWal_def)
  obtain ms where ms: "levelDBWal_pending D C view ?w ms" "sorted_wrt (<) (map lg_Index ms)"
      "set ms = {l. \<exists>i. ?entry ?w i = Some l}"
    using levelDBWal_pending_new [OF assms(1,2) ok] by blast
  show ?thesis
    by (rule kayak_replay.restart [OF kayak_leveldb_replay [OF assms(1-3)] start(1) log ok entry ms])
      (use assms(10) entry in simp)
qed

theorem restarted_leader_resumes_witness:
  "\<exists>s' L. kayak_run example_kayak example_group s' \<and> rt_sh (ks_leader s') = [[7]] \<and>
     NewRuntime example_kayak (Some (example_config \<lparr> kc_NodeID := ''a'',
       kc_Wal := NewLevelDBWal (lw_db (rt_wal (ks_leader s'))), kc_Handler := [[7]] \<rparr>)) = Some (Ok L) \<and>
     rt_nextIndex L = rt_nextIndex (ks_leader s') \<and> rt_lastCommit L = rt_lastCommit (ks_leader s')"
proof -
  have "map_option (\<lambda>s. (rt_sh (ks_leader s), levelDBWal_entry example_wal_codec map_of (rt_wal (ks_leader s)) 2 = None)) example_run =
      Some ([[7]], True)" by code_simp
  then obtain s' where s': "kayak_run example_kayak example_group s'" "rt_sh (ks_leader s') = [[7]]"
      "levelDBWal_entry example_wal_codec map_of (rt_wal (ks_leader s')) 2 = None"
    using example_run_reaches by auto
  have a: "ph_Leader example_peers = ''a''" by (simp add: example_peers_def)
  from restarted_leader_resumes [OF example_kv_contract example_kv_reads example_wal_codec_ok example_kayak_ok(2,3),
      unfolded example_kayak_ok(1), OF example_kayak_init example_kayak_ok(4,5) s'(1,3), of "[[7]]", unfolded a] s'(1,2)
  show ?thesis by blast
qed

text \<open>
  C35: Recovery does not report a commit whose predecessor is not the last commit. When the
  next unread entry is such a commit, with the 16 bytes of two indexes whose entries are in
  the log, reading
  the log ends there without an error and leaves the next index where it was, so a leader
  whose next index is that of the unread commit starts, and its first write hits an index
  that is in use, which ends the process.
\<close>

theorem mismatched_commit_not_reported:
  assumes "kv_contract D okdb view" and "kv_reads D okdb view" and "wal_codec_ok C"
    and "levelDBWal_inv C okdb view (rt_wal rt)" and "levelDBWal_pending D C view (rt_wal rt) (l # ls)"
    and "lg_Type l = LogCommit" and "length (lg_Data l) = 16" and "Uint 8 (drop 8 (lg_Data l)) \<noteq> rt_lastCommit rt"
    and "levelDBWal_entry C view (rt_wal rt) (Uint 8 (lg_Data l)) \<noteq> None"
    and "levelDBWal_entry C view (rt_wal rt) (Uint 8 (drop 8 (lg_Data l))) \<noteq> None"
  shows "\<exists>rt'. readLogs (kayak_leveldb D C E) rt = Some (rt', Ok ()) \<and> rt_nextIndex rt' = rt_nextIndex rt \<and>
    (rt_nextIndex rt = lg_Index l \<longrightarrow> snd (newLog (kayak_leveldb D C E) t d rt') = Panic)"
proof -
  let ?E = "kayak_leveldb D C E" and ?ok = "levelDBWal_inv C okdb view" and ?entry = "levelDBWal_entry C view"
    and ?p = "Uint 8 (lg_Data l)" and ?c = "Uint 8 (drop 8 (lg_Data l))"
  note rep = kayak_leveldb_replay [OF assms(1-3), of E]
  from kayak_replay.read_next [OF rep assms(4,5)] obtain w where
    w: "kw_Read ?E (rt_wal rt) = (w, Ok l)" "?ok w" "?entry w = ?entry (rt_wal rt)" "levelDBWal_pending D C view w ls" by blast
  let ?rt = "rt \<lparr> rt_wal := w \<rparr>"
  from assms(9,10) w(3) obtain pl cl where "?entry (rt_wal ?rt) ?p = Some pl" "?entry (rt_wal ?rt) ?c = Some cl" by auto
  then have "waitForLog ?E ?p ?rt = (?rt, Done pl)" "waitForLog ?E ?c ?rt = (?rt, Done cl)"
    using kayak_replay.unread_wait [OF rep, of ?rt ls] w(2,4) by auto
  then have "readLog ?E l ?rt = Some (?rt, Ok False)"
    using assms(6-8) by (simp add: readLog_def getPrepareLog_def bytesToUint64_def)
  then have R: "readLogs ?E rt = Some (?rt, Ok ())" by (subst readLogs.simps) (simp add: w(1))
  have "?entry (rt_wal rt) (lg_Index l) = Some l"
    using assms(5) by (auto simp: levelDBWal_pending_def list_all2_Cons2 split: prod.splits)
  then have used: "?entry (rt_wal ?rt) (lg_Index l) \<noteq> None" using w(3) by simp
  obtain L r where n: "newLog ?E t d ?rt = (L, r)" by fastforce
  have "r = Panic" if "rt_nextIndex rt = lg_Index l"
  proof (cases r)
    case (Ok x)
    from kayak_store.newLog_Ok(1) [OF kayak_leveldb_store [OF assms(1,3)] _ n [unfolded Ok]] w(2) used that show ?thesis by simp
  next
    case (Err e)
    then show ?thesis using n by (auto simp: newLog_def Let_def split: res.splits option.splits prod.splits)
  qed
  then show ?thesis using R n by auto
qed

text \<open>A log of a prepare and a commit, of which the prepare has been read.\<close>

definition example_two_logs :: "(bytes \<times> bytes) list LevelDBWal" where
  "example_two_logs =
     fst (levelDBWal_Write example_leveldb example_wal_codec (Some (example_log 1 LogCommit (replicate 16 0)))
       (fst (levelDBWal_Write example_leveldb example_wal_codec (Some (example_log 0 LogPrepare [7])) (NewLevelDBWal []))))"

definition example_restarting :: "((bytes \<times> bytes) list LevelDBWal, bytes list, unit) Runtime" where
  "example_restarting = (example_node ''a'')
     \<lparr> rt_wal := fst (levelDBWal_Read example_leveldb example_wal_codec (NewLevelDBWal (lw_db example_two_logs))), rt_nextIndex := 1, rt_lastCommit := 9 \<rparr>"

lemma example_restarting_inv: "levelDBWal_inv example_wal_codec kv_sorted map_of (rt_wal example_restarting)"
proof -
  note inv = log_store.write_inv [OF levelDBWal_log_store [OF example_kv_contract example_wal_codec_ok]]
  have "levelDBWal_inv example_wal_codec kv_sorted map_of example_two_logs"
    unfolding example_two_logs_def by (intro inv levelDBWal_inv_empty)
  moreover have "lw_db (rt_wal example_restarting) = lw_db example_two_logs" by code_simp
  ultimately show ?thesis by (simp add: levelDBWal_inv_def)
qed

theorem mismatched_commit_not_reported_witness:
  "\<exists>rt'. readLogs example_kayak example_restarting = Some (rt', Ok ()) \<and> snd (newLog example_kayak LogPrepare [8] rt') = Panic"
proof -
  let ?l = "levelDBWal_seal example_wal_codec (example_log 1 LogCommit (replicate 16 0))"
    and ?w = "rt_wal example_restarting"
  have p: "levelDBWal_pending example_leveldb example_wal_codec map_of ?w [?l]" by code_simp
  have c: "lg_Type ?l = LogCommit" "length (lg_Data ?l) = 16" "Uint 8 (drop 8 (lg_Data ?l)) \<noteq> rt_lastCommit example_restarting"
      "levelDBWal_entry example_wal_codec map_of ?w (Uint 8 (lg_Data ?l)) \<noteq> None"
      "levelDBWal_entry example_wal_codec map_of ?w (Uint 8 (drop 8 (lg_Data ?l))) \<noteq> None"
      "rt_nextIndex example_restarting = lg_Index ?l"
    by code_simp+
  from mismatched_commit_not_reported [OF example_kv_contract example_kv_reads example_wal_codec_ok example_restarting_inv p c(1-5),
      of example_kayak LogPrepare "[8]"] c(6)
  show ?thesis unfolding example_kayak_ok(1) by blast
qed
end
