(* ===== verification/Key_Store.thy ===== *)
theory Key_Store
  imports Nodes
begin

text \<open>
  Key management: the public key store of \<open>crypto/kms/pubkeystore.go\<close>, a table of node
  records by node id, and the local key store of \<open>crypto/kms/localkeystore.go\<close>. The SQL
  engine, the msgpack codec and the encoding of public keys are parameters; opening and
  repairing the database file is not modelled.
\<close>

section \<open>The public key store\<close>

text \<open>
  The statements on the table and the queries. \<open>ks_exec\<close> gives the table after the
  statement and whether it succeeded; \<open>ks_ids\<close> gives the rows read, which may be fewer
  than there are, since \<open>GetAllNodeID\<close> does not ask for an error of the iteration.
\<close>

datatype kms_stmt = SetRecord NodeID bytes | DeleteRecord NodeID | DeleteAll

record 'db kms_env =
  ks_thash :: "bytes \<Rightarrow> hash"
  ks_serialize :: "PublicKey \<Rightarrow> bytes"
  ks_encode :: "Node \<Rightarrow> bytes option"
  ks_decode :: "bytes \<Rightarrow> Node option"
  ks_exec :: "kms_stmt \<Rightarrow> 'db \<Rightarrow> 'db \<times> bool"
  ks_get :: "NodeID \<Rightarrow> 'db \<Rightarrow> (unit, bytes option) res"
  ks_ids :: "'db \<Rightarrow> NodeID list option"

datatype kms_error =
    ErrPKSNotInitialized | ErrNilNode | ErrKMSKeyNotFound | ErrNodeIDKeyNonceNotMatch
  | ErrMarshalNode | ErrUnmarshalNode | ErrKMSExec | ErrNilField | ErrLocalNodeID

definition kms_GetNodeInfo :: "'db kms_env \<Rightarrow> NodeID \<Rightarrow> 'db option \<Rightarrow> (kms_error, Node) res" where
  "kms_GetNodeInfo K i pks =
     (case pks of
        None \<Rightarrow> Err ErrPKSNotInitialized
      | Some db \<Rightarrow>
          (case ks_get K i db of
             Ok (Some raw) \<Rightarrow> (case ks_decode K raw of Some n \<Rightarrow> Ok n | None \<Rightarrow> Err ErrUnmarshalNode)
           | Ok None \<Rightarrow> Err ErrKMSKeyNotFound
           | _ \<Rightarrow> Err ErrKMSExec))"

definition kms_GetPublicKey :: "'db kms_env \<Rightarrow> NodeID \<Rightarrow> 'db option \<Rightarrow> (kms_error, PublicKey option) res" where
  "kms_GetPublicKey K i pks =
     (case kms_GetNodeInfo K i pks of Ok n \<Rightarrow> Ok (nd_PublicKey n) | Err e \<Rightarrow> Err e | Panic \<Rightarrow> Panic)"

definition kms_GetAllNodeID :: "'db kms_env \<Rightarrow> 'db option \<Rightarrow> (kms_error, NodeID list) res" where
  "kms_GetAllNodeID K pks =
     (case pks of
        None \<Rightarrow> Err ErrPKSNotInitialized
      | Some db \<Rightarrow> (case ks_ids K db of None \<Rightarrow> Err ErrKMSExec | Some ids \<Rightarrow> Ok ids))"

definition kms_setNode :: "'db kms_env \<Rightarrow> Node \<Rightarrow> 'db option \<Rightarrow> 'db option \<times> (kms_error, unit) res" where
  "kms_setNode K n pks =
     (case pks of
        None \<Rightarrow> (pks, Err ErrPKSNotInitialized)
      | Some db \<Rightarrow>
          (case ks_encode K n of
             None \<Rightarrow> (pks, Err ErrMarshalNode)
           | Some buf \<Rightarrow>
               (case ks_exec K (SetRecord (nd_ID n) buf) db of
                  (db, ok) \<Rightarrow> (Some db, if ok then Ok () else Err ErrKMSExec))))"

definition node_valid :: "'db kms_env \<Rightarrow> Node \<Rightarrow> bool" where
  "node_valid K n =
     IsIDPubNonceValid (ks_thash K) (ks_serialize K) (nodeID_ToRawNodeID (nd_ID n)) (Some (nd_Nonce n)) (nd_PublicKey n)"

definition kms_SetNode ::
    "'db kms_env \<Rightarrow> Node option \<Rightarrow> 'db option \<Rightarrow> 'db option \<times> (kms_error, unit) res" where
  "kms_SetNode K nodeInfo pks =
     (case nodeInfo of
        None \<Rightarrow> (pks, Err ErrNilNode)
      | Some n \<Rightarrow> if \<not> node_valid K n then (pks, Err ErrNodeIDKeyNonceNotMatch) else kms_setNode K n pks)"

definition kms_SetPublicKey ::
    "'db kms_env \<Rightarrow> NodeID \<Rightarrow> Uint256 \<Rightarrow> PublicKey option \<Rightarrow> 'db option \<Rightarrow> 'db option \<times> (kms_error, unit) res" where
  "kms_SetPublicKey K i nonce publicKey pks =
     kms_SetNode K (Some \<lparr> nd_ID = i, nd_Role = UnknownRole, nd_Addr = '''', nd_DirectAddr = '''',
       nd_PublicKey = publicKey, nd_Nonce = nonce \<rparr>) pks"

definition kms_DelNode :: "'db kms_env \<Rightarrow> NodeID \<Rightarrow> 'db option \<Rightarrow> 'db option \<times> (kms_error, unit) res" where
  "kms_DelNode K i pks =
     (case pks of
        None \<Rightarrow> (pks, Err ErrPKSNotInitialized)
      | Some db \<Rightarrow> (case ks_exec K (DeleteRecord i) db of (db, ok) \<Rightarrow> (Some db, if ok then Ok () else Err ErrKMSExec)))"

definition kms_ResetBucket :: "'db kms_env \<Rightarrow> 'db option \<Rightarrow> 'db option \<times> (kms_error, unit) res" where
  "kms_ResetBucket K pks =
     (case pks of
        None \<Rightarrow> (pks, Ok ())
      | Some db \<Rightarrow> (case ks_exec K DeleteAll db of (db, ok) \<Rightarrow> (Some db, if ok then Ok () else Err ErrKMSExec)))"

definition ClosePublicKeyStore :: "'db option \<Rightarrow> 'db option" where
  "ClosePublicKeyStore pks = None"

text \<open>The store opened on \<open>opened\<close>, or the error of opening it; the initial nodes are not checked.\<close>

fun set_init_nodes :: "'db kms_env \<Rightarrow> Node list \<Rightarrow> 'db option \<Rightarrow> 'db option \<times> (kms_error, unit) res" where
  "set_init_nodes K [] pks = (pks, Ok ())"
| "set_init_nodes K (n # ns) pks =
     (case kms_setNode K n pks of (pks, Ok _) \<Rightarrow> set_init_nodes K ns pks | (pks, r) \<Rightarrow> (pks, r))"

definition InitPublicKeyStore ::
    "'db kms_env \<Rightarrow> 'db option \<Rightarrow> Node list \<Rightarrow> 'db option \<Rightarrow> 'db option \<times> (kms_error, unit) res" where
  "InitPublicKeyStore K opened initNodes pks =
     (case opened of
        None \<Rightarrow> (ClosePublicKeyStore pks, Err ErrKMSExec)
      | Some db \<Rightarrow> set_init_nodes K initNodes (Some db))"

section \<open>The local keys\<close>

record 'k LocalKeyStore =
  lk_isSet :: bool
  lk_private :: "'k option"
  lk_public :: "PublicKey option"
  lk_nodeID :: "bytes option"
  lk_nodeNonce :: "Uint256 option"

definition initLocalKeyStore :: "'k LocalKeyStore" where
  "initLocalKeyStore = \<lparr> lk_isSet = False, lk_private = None, lk_public = None, lk_nodeID = None, lk_nodeNonce = None \<rparr>"

definition SetLocalKeyPair :: "'k option \<Rightarrow> PublicKey option \<Rightarrow> 'k LocalKeyStore \<Rightarrow> 'k LocalKeyStore" where
  "SetLocalKeyPair private public lk =
     (if lk_isSet lk then lk else lk \<lparr> lk_isSet := True, lk_private := private, lk_public := public \<rparr>)"

definition SetLocalNodeIDNonce :: "bytes \<Rightarrow> Uint256 option \<Rightarrow> 'k LocalKeyStore \<Rightarrow> 'k LocalKeyStore" where
  "SetLocalNodeIDNonce rawNodeID nonce lk =
     (let lk = lk \<lparr> lk_nodeID := Some rawNodeID \<rparr> in if nonce \<noteq> None then lk \<lparr> lk_nodeNonce := nonce \<rparr> else lk)"

definition GetLocalNodeIDBytes :: "'k LocalKeyStore \<Rightarrow> (kms_error, bytes) res" where
  "GetLocalNodeIDBytes lk = (case lk_nodeID lk of Some b \<Rightarrow> Ok b | None \<Rightarrow> Err ErrNilField)"

definition GetLocalNodeID :: "'k LocalKeyStore \<Rightarrow> (kms_error, NodeID) res" where
  "GetLocalNodeID lk =
     (case GetLocalNodeIDBytes lk of
        Ok b \<Rightarrow> (case NewHash b of Ok h \<Rightarrow> Ok (hash_String h) | _ \<Rightarrow> Err ErrLocalNodeID)
      | Err e \<Rightarrow> Err e
      | Panic \<Rightarrow> Panic)"

definition GetLocalNonce :: "'k LocalKeyStore \<Rightarrow> (kms_error, Uint256) res" where
  "GetLocalNonce lk = (case lk_nodeNonce lk of Some n \<Rightarrow> Ok n | None \<Rightarrow> Err ErrNilField)"

definition GetLocalPublicKey :: "'k LocalKeyStore \<Rightarrow> (kms_error, PublicKey) res" where
  "GetLocalPublicKey lk = (case lk_public lk of Some k \<Rightarrow> Ok k | None \<Rightarrow> Err ErrNilField)"

definition GetLocalPrivateKey :: "'k LocalKeyStore \<Rightarrow> (kms_error, 'k) res" where
  "GetLocalPrivateKey lk = (case lk_private lk of Some k \<Rightarrow> Ok k | None \<Rightarrow> Err ErrNilField)"

text \<open>The key pair is set once.\<close>

lemma SetLocalKeyPair_once:
  "SetLocalKeyPair private' public' (SetLocalKeyPair private public lk) = SetLocalKeyPair private public lk"
  by (simp add: SetLocalKeyPair_def)

section \<open>What the store holds\<close>

text \<open>
  The table as a map from node ids to blobs, for an engine that executes the statements
  it accepts, and a codec that decodes what it encoded.
\<close>

definition kms_contract :: "'db kms_env \<Rightarrow> ('db \<Rightarrow> NodeID \<Rightarrow> bytes option) \<Rightarrow> bool" where
  "kms_contract K view \<longleftrightarrow>
     (\<forall>i b db db' ok. ks_exec K (SetRecord i b) db = (db', ok) \<longrightarrow> view db' = (if ok then (view db)(i \<mapsto> b) else view db)) \<and>
     (\<forall>i db db' ok. ks_exec K (DeleteRecord i) db = (db', ok) \<longrightarrow> view db' = (if ok then (view db)(i := None) else view db)) \<and>
     (\<forall>db db' ok. ks_exec K DeleteAll db = (db', ok) \<longrightarrow> view db' = (if ok then Map.empty else view db)) \<and>
     (\<forall>i db x. ks_get K i db = Ok x \<longrightarrow> x = view db i) \<and>
     (\<forall>db ids. ks_ids K db = Some ids \<longrightarrow> set ids \<subseteq> dom (view db)) \<and>
     (\<forall>n b. ks_encode K n = Some b \<longrightarrow> ks_decode K b = Some n)"

lemma kms_contractD:
  assumes "kms_contract K view"
  shows "ks_exec K (SetRecord i b) db = (db', ok) \<Longrightarrow> view db' = (if ok then (view db)(i \<mapsto> b) else view db)"
    and "ks_exec K (DeleteRecord i) db = (db', ok) \<Longrightarrow> view db' = (if ok then (view db)(i := None) else view db)"
    and "ks_exec K DeleteAll db = (db', ok) \<Longrightarrow> view db' = (if ok then Map.empty else view db)"
    and "ks_get K i db = Ok x \<Longrightarrow> x = view db i"
    and "ks_ids K db = Some ids \<Longrightarrow> set ids \<subseteq> dom (view db)"
    and "ks_encode K n = Some b' \<Longrightarrow> ks_decode K b' = Some n"
  using assms unfolding kms_contract_def by blast+

text \<open>The nodes of the store.\<close>

definition kms_nodes :: "'db kms_env \<Rightarrow> ('db \<Rightarrow> NodeID \<Rightarrow> bytes option) \<Rightarrow> 'db option \<Rightarrow> NodeID \<Rightarrow> Node option" where
  "kms_nodes K view pks i = Option.bind pks (\<lambda>db. Option.bind (view db i) (ks_decode K))"

lemma kms_setNode_nodes:
  assumes "kms_contract K view" and "kms_setNode K n pks = (pks', r)"
  shows "kms_nodes K view pks' = (if r = Ok () then (kms_nodes K view pks)(nd_ID n \<mapsto> n) else kms_nodes K view pks)"
  using assms(2) kms_contractD(1,6) [OF assms(1)]
  by (auto simp: kms_setNode_def kms_nodes_def fun_eq_iff split: option.splits prod.splits if_splits)

lemma kms_SetNode_nodes:
  assumes "kms_contract K view" and "kms_SetNode K (Some n) pks = (pks', r)"
  shows "kms_nodes K view pks' = (if r = Ok () then (kms_nodes K view pks)(nd_ID n \<mapsto> n) else kms_nodes K view pks)"
    and "r = Ok () \<Longrightarrow> node_valid K n"
  using assms(2) kms_setNode_nodes [OF assms(1)] by (auto simp: kms_SetNode_def split: if_splits)

lemma kms_DelNode_nodes:
  assumes "kms_contract K view" and "kms_DelNode K i pks = (pks', r)"
  shows "kms_nodes K view pks' = (if r = Ok () then (kms_nodes K view pks)(i := None) else kms_nodes K view pks)"
  using assms(2) kms_contractD(2) [OF assms(1)]
  by (auto simp: kms_DelNode_def kms_nodes_def fun_eq_iff split: option.splits prod.splits if_splits)

lemma kms_ResetBucket_nodes:
  assumes "kms_contract K view" and "kms_ResetBucket K pks = (pks', r)"
  shows "kms_nodes K view pks' = (if r = Ok () then Map.empty else kms_nodes K view pks)"
  using assms(2) kms_contractD(3) [OF assms(1)]
  by (auto simp: kms_ResetBucket_def kms_nodes_def fun_eq_iff split: option.splits prod.splits if_splits)

lemma kms_GetNodeInfo_nodes:
  assumes "kms_contract K view" and "kms_GetNodeInfo K i pks = Ok n"
  shows "kms_nodes K view pks i = Some n"
  using assms(2) kms_contractD(4) [OF assms(1)]
  by (auto simp: kms_GetNodeInfo_def kms_nodes_def split: option.splits res.splits)
end
