(* ===== verification/Ring.thy ===== *)
theory Ring
  imports Key_Store "HOL-Library.List_Lexorder"
begin

text \<open>
  The consistent hashing ring of \<open>consistent/consistent.go\<close> over the public key store:
  each node is put on the ring under several keys, and a name belongs to the node of the
  first key after its hash. The hash of a name is a parameter.
\<close>

section \<open>The ring\<close>

record 'db ring_env =
  re_HashH :: "bytes \<Rightarrow> hash"
  re_kms :: "'db kms_env"

record 'db Consistent =
  cs_circle :: "(NodeKey, Node) gomap"
  cs_sortedHashes :: "NodeKey list"
  cs_NumberOfReplicas :: nat
  cs_persist :: "'db option"

datatype ring_error = ErrEmptyCircle | ErrKeyNotFound | ErrPersist kms_error

definition hashKey :: "'db ring_env \<Rightarrow> string \<Rightarrow> NodeKey" where
  "hashKey R key = re_HashH R (string_bytes key)"

definition nodeKey :: "NodeID \<Rightarrow> nat \<Rightarrow> string" where
  "nodeKey nodeID idx = itoa idx @ nodeID"

text \<open>Sorting by \<open>NodeKey.Less\<close>; the keys of a map are distinct.\<close>

fun insert_nodeKey :: "NodeKey \<Rightarrow> NodeKey list \<Rightarrow> NodeKey list" where
  "insert_nodeKey x [] = [x]"
| "insert_nodeKey x (y # ys) = (if nodeKey_Less y x then y # insert_nodeKey x ys else x # y # ys)"

definition nodeKeys_Sort :: "NodeKey list \<Rightarrow> NodeKey list" where
  "nodeKeys_Sort ks = foldr insert_nodeKey ks []"

definition updateSortedHashes :: "'db Consistent \<Rightarrow> 'db Consistent" where
  "updateSortedHashes c = c \<lparr> cs_sortedHashes := nodeKeys_Sort (mkeys (cs_circle c)) \<rparr>"

definition AddCache :: "'db ring_env \<Rightarrow> Node \<Rightarrow> 'db Consistent \<Rightarrow> 'db Consistent" where
  "AddCache R node c =
     updateSortedHashes (c \<lparr> cs_circle :=
       fold (\<lambda>i m. mput (hashKey R (nodeKey (nd_ID node) i)) node m) [0..<cs_NumberOfReplicas c] (cs_circle c) \<rparr>)"

definition RemoveCache :: "'db ring_env \<Rightarrow> NodeID \<Rightarrow> 'db Consistent \<Rightarrow> 'db Consistent" where
  "RemoveCache R nodeID c =
     updateSortedHashes (c \<lparr> cs_circle :=
       fold (\<lambda>i m. mdel (hashKey R (nodeKey nodeID i)) m) [0..<cs_NumberOfReplicas c] (cs_circle c) \<rparr>)"

definition ResetCache :: "'db Consistent \<Rightarrow> 'db Consistent" where
  "ResetCache c = c \<lparr> cs_circle := [], cs_sortedHashes := [] \<rparr>"

definition ring_add :: "'db ring_env \<Rightarrow> Node \<Rightarrow> 'db Consistent \<Rightarrow> 'db Consistent \<times> (ring_error, unit) res" where
  "ring_add R node c =
     (case kms_SetNode (re_kms R) (Some node) (cs_persist c) of
        (p, Ok _) \<Rightarrow> (AddCache R node (c \<lparr> cs_persist := p \<rparr>), Ok ())
      | (p, Err e) \<Rightarrow> (c \<lparr> cs_persist := p \<rparr>, Err (ErrPersist e))
      | (p, Panic) \<Rightarrow> (c \<lparr> cs_persist := p \<rparr>, Panic))"

abbreviation ring_Add :: "'db ring_env \<Rightarrow> Node \<Rightarrow> 'db Consistent \<Rightarrow> 'db Consistent \<times> (ring_error, unit) res" where
  "ring_Add \<equiv> ring_add"

definition ring_Remove :: "'db ring_env \<Rightarrow> NodeID \<Rightarrow> 'db Consistent \<Rightarrow> 'db Consistent \<times> (ring_error, unit) res" where
  "ring_Remove R nodeID c =
     (case kms_DelNode (re_kms R) nodeID (cs_persist c) of
        (p, Ok _) \<Rightarrow> (RemoveCache R nodeID (c \<lparr> cs_persist := p \<rparr>), Ok ())
      | (p, Err e) \<Rightarrow> (c \<lparr> cs_persist := p \<rparr>, Err (ErrPersist e))
      | (p, Panic) \<Rightarrow> (c \<lparr> cs_persist := p \<rparr>, Panic))"

text \<open>The errors of single additions are ignored.\<close>

definition ring_Set :: "'db ring_env \<Rightarrow> Node list \<Rightarrow> 'db Consistent \<Rightarrow> 'db Consistent \<times> (ring_error, unit) res" where
  "ring_Set R nodes c =
     (case kms_ResetBucket (re_kms R) (cs_persist c) of
        (p, Ok _) \<Rightarrow> (fold (\<lambda>v c. fst (ring_add R v c)) nodes (ResetCache (c \<lparr> cs_persist := p \<rparr>)), Ok ())
      | (p, Err e) \<Rightarrow> (c \<lparr> cs_persist := p \<rparr>, Err (ErrPersist e))
      | (p, Panic) \<Rightarrow> (c \<lparr> cs_persist := p \<rparr>, Panic))"

text \<open>\<open>KMSStorage.GetAllNodeInfo\<close>: nodes that cannot be read are left out.\<close>

definition GetAllNodeInfo :: "'db kms_env \<Rightarrow> 'db option \<Rightarrow> (kms_error, Node list) res" where
  "GetAllNodeInfo K pks =
     (case kms_GetAllNodeID K pks of
        Ok ids \<Rightarrow> Ok (concat (map (\<lambda>i. case kms_GetNodeInfo K i pks of Ok n \<Rightarrow> [n] | _ \<Rightarrow> []) ids))
      | Err e \<Rightarrow> Err e
      | Panic \<Rightarrow> Panic)"

definition InitConsistent ::
    "'db ring_env \<Rightarrow> 'db option \<Rightarrow> Node list \<Rightarrow> 'db Consistent \<times> (ring_error, unit) res" where
  "InitConsistent R opened BPNodes =
     (let c = \<lparr> cs_circle = [], cs_sortedHashes = [], cs_NumberOfReplicas = 20, cs_persist = None \<rparr> in
      case InitPublicKeyStore (re_kms R) opened BPNodes None of
        (p, Err e) \<Rightarrow> (c \<lparr> cs_persist := p \<rparr>, Err (ErrPersist e))
      | (p, Panic) \<Rightarrow> (c \<lparr> cs_persist := p \<rparr>, Panic)
      | (p, Ok _) \<Rightarrow>
          (case GetAllNodeInfo (re_kms R) p of
             Err e \<Rightarrow> (c \<lparr> cs_persist := p \<rparr>, Err (ErrPersist e))
           | Panic \<Rightarrow> (c \<lparr> cs_persist := p \<rparr>, Panic)
           | Ok nodes \<Rightarrow> (fold (\<lambda>n c. fst (ring_Add R n c)) nodes (c \<lparr> cs_persist := p \<rparr>), Ok ())))"

section \<open>Looking up\<close>

text \<open>\<open>sort.Search\<close>: the least index in \<open>[i, j)\<close> at which \<open>f\<close> holds, for a monotone \<open>f\<close>.\<close>

function sort_Search :: "nat \<Rightarrow> nat \<Rightarrow> (nat \<Rightarrow> bool) \<Rightarrow> nat" where
  "sort_Search i j f =
     (if i < j then (let h = (i + j) div 2 in if \<not> f h then sort_Search (h + 1) j f else sort_Search i h f) else i)"
  by pat_completeness auto
termination
  by (relation "measure (\<lambda>(i, j, f). j - i)") auto

declare sort_Search.simps [simp del]

definition ring_search :: "NodeKey \<Rightarrow> 'db Consistent \<Rightarrow> nat" where
  "ring_search key c =
     (let n = length (cs_sortedHashes c); i = sort_Search 0 n (\<lambda>x. nodeKey_Less key (cs_sortedHashes c ! x))
      in if i \<ge> n then 0 else i)"

text \<open>\<open>*c.circle[c.sortedHashes[i]]\<close>, which panics out of range and on a key without a node.\<close>

definition node_at :: "'db Consistent \<Rightarrow> nat \<Rightarrow> (ring_error, Node) res" where
  "node_at c i =
     (if i < length (cs_sortedHashes c)
      then (case mget (cs_circle c) (cs_sortedHashes c ! i) of Some n \<Rightarrow> Ok n | None \<Rightarrow> Panic)
      else Panic)"

definition GetNeighbor :: "'db ring_env \<Rightarrow> string \<Rightarrow> 'db Consistent \<Rightarrow> (ring_error, Node) res" where
  "GetNeighbor R name c =
     (if cs_circle c = [] then Err ErrEmptyCircle else node_at c (ring_search (hashKey R name) c))"

definition GetNode :: "'db ring_env \<Rightarrow> string \<Rightarrow> 'db Consistent \<Rightarrow> (ring_error, Node) res" where
  "GetNode R name c =
     (case mget (cs_circle c) (hashKey R (nodeKey name 0)) of Some n \<Rightarrow> Ok n | None \<Rightarrow> Err ErrKeyNotFound)"

definition sliceContainsMember :: "Node list \<Rightarrow> Node \<Rightarrow> bool" where
  "sliceContainsMember nodes member = list_ex (\<lambda>m. nd_ID m = nd_ID member) nodes"

text \<open>
  The loops over the ring: \<open>i\<close> is compared with \<open>start\<close> before it is wrapped, so a walk
  that starts at 0 passes its start and goes on.
\<close>

partial_function (option) two_loop :: "'db Consistent \<Rightarrow> nat \<Rightarrow> Node \<Rightarrow> nat \<Rightarrow> Node \<Rightarrow> (ring_error, Node) res option" where
  "two_loop c start a i b =
     (if i = start then Some (Ok b)
      else
        let i = (if i \<ge> length (cs_sortedHashes c) then 0 else i) in
        case node_at c i of
          Ok b \<Rightarrow> if nd_ID b \<noteq> nd_ID a then Some (Ok b) else two_loop c start a (i + 1) b
        | Err e \<Rightarrow> Some (Err e)
        | Panic \<Rightarrow> Some Panic)"

definition zero_node :: Node where
  "zero_node = \<lparr> nd_ID = '''', nd_Role = UnknownRole, nd_Addr = '''', nd_DirectAddr = '''', nd_PublicKey = None, nd_Nonce = uint256_zero \<rparr>"

definition GetTwoNeighbors :: "'db ring_env \<Rightarrow> string \<Rightarrow> 'db Consistent \<Rightarrow> (ring_error, Node \<times> Node) res option" where
  "GetTwoNeighbors R name c =
     (if cs_circle c = [] then Some (Err ErrEmptyCircle)
      else
        let i = ring_search (hashKey R name) c in
        case node_at c i of
          Err e \<Rightarrow> Some (Err e)
        | Panic \<Rightarrow> Some Panic
        | Ok a \<Rightarrow>
            if length (cs_sortedHashes c) div cs_NumberOfReplicas c = 1 then Some (Ok (a, zero_node))
            else
              (case two_loop c i a (i + 1) zero_node of
                 None \<Rightarrow> None
               | Some (Ok b) \<Rightarrow> Some (Ok (a, b))
               | Some (Err e) \<Rightarrow> Some (Err e)
               | Some Panic \<Rightarrow> Some Panic))"

partial_function (option) neighbors_loop ::
    "'db Consistent \<Rightarrow> nat \<Rightarrow> int \<Rightarrow> ServerRole list \<Rightarrow> nat \<Rightarrow> Node list \<Rightarrow> (ring_error, Node list) res option" where
  "neighbors_loop c start n roles i res =
     (if i = start then Some (Ok res)
      else
        let i = (if i \<ge> length (cs_sortedHashes c) then 0 else i) in
        case node_at c i of
          Ok elem \<Rightarrow>
            let res = (if (roles = [] \<or> serverRoles_Contains roles (nd_Role elem)) \<and> \<not> sliceContainsMember res elem
                       then res @ [elem] else res)
            in if int (length res) = n then Some (Ok res) else neighbors_loop c start n roles (i + 1) res
        | Err e \<Rightarrow> Some (Err e)
        | Panic \<Rightarrow> Some Panic)"

text \<open>A negative count panics in \<open>make\<close>.\<close>

definition GetNeighborsEx ::
    "'db ring_env \<Rightarrow> string \<Rightarrow> int \<Rightarrow> ServerRole list \<Rightarrow> 'db Consistent \<Rightarrow> (ring_error, Node list) res option" where
  "GetNeighborsEx R name n roles c =
     (if cs_circle c = [] then Some (Err ErrEmptyCircle)
      else
        let count = int (length (cs_sortedHashes c) div cs_NumberOfReplicas c);
            n = (if count < n then count else n);
            i = ring_search (hashKey R name) c
        in if n < 0 then Some Panic
           else case node_at c i of
             Err e \<Rightarrow> Some (Err e)
           | Panic \<Rightarrow> Some Panic
           | Ok elem \<Rightarrow>
               let res = (if roles = [] \<or> serverRoles_Contains roles (nd_Role elem) then [elem] else [])
               in if roles = [] \<and> int (length res) = n then Some (Ok res)
                  else neighbors_loop c i n roles (i + 1) res)"

definition GetNeighbors :: "'db ring_env \<Rightarrow> string \<Rightarrow> int \<Rightarrow> 'db Consistent \<Rightarrow> (ring_error, Node list) res option" where
  "GetNeighbors R name n c = GetNeighborsEx R name n [] c"

section \<open>Sorted keys\<close>

lemma nodeKey_Less_lex: "length xs = length ys \<Longrightarrow> nodeKey_Less xs ys \<longleftrightarrow> xs < ys"
  by (induction xs ys rule: nodeKey_Less.induct) (auto simp: Cons_less_Cons)

lemma set_insert_nodeKey [simp]: "set (insert_nodeKey x ys) = insert x (set ys)"
  by (induction ys) auto

lemma set_nodeKeys_Sort [simp]: "set (nodeKeys_Sort ks) = set ks"
  by (induction ks) (auto simp: nodeKeys_Sort_def)

lemma sorted_insert_nodeKey:
  assumes "sorted_wrt (<) ys" and "x \<notin> set ys" and "\<forall>k \<in> insert x (set ys). is_hash k"
  shows "sorted_wrt (<) (insert_nodeKey x ys)"
  using assms
proof (induction ys)
  case (Cons y ys)
  have "nodeKey_Less y x \<longleftrightarrow> y < x" using Cons.prems(3) by (intro nodeKey_Less_lex) (simp add: is_hash_def)
  then show ?case using Cons by (auto simp: not_less order.order_iff_strict)
qed simp

lemma sorted_nodeKeys_Sort: "distinct ks \<Longrightarrow> \<forall>k \<in> set ks. is_hash k \<Longrightarrow> sorted_wrt (<) (nodeKeys_Sort ks)"
proof (induction ks)
  case (Cons k ks)
  have s: "set (foldr insert_nodeKey ks []) = set ks" using set_nodeKeys_Sort [of ks] by (simp add: nodeKeys_Sort_def)
  have "sorted_wrt (<) (foldr insert_nodeKey ks [])" using Cons by (simp add: nodeKeys_Sort_def)
  then show ?case using Cons.prems s by (simp add: nodeKeys_Sort_def sorted_insert_nodeKey)
qed (simp add: nodeKeys_Sort_def)

text \<open>The search finds the first index of a monotone predicate.\<close>

lemma sort_Search_spec:
  assumes "i \<le> j" and "\<And>k l. i \<le> k \<Longrightarrow> k \<le> l \<Longrightarrow> l < j \<Longrightarrow> f k \<Longrightarrow> f l"
  shows "i \<le> sort_Search i j f \<and> sort_Search i j f \<le> j \<and> (\<forall>k. i \<le> k \<and> k < sort_Search i j f \<longrightarrow> \<not> f k) \<and>
    (sort_Search i j f < j \<longrightarrow> f (sort_Search i j f))"
  using assms
proof (induction i j f rule: sort_Search.induct)
  case (1 i j f)
  show ?case
  proof (cases "i < j")
    case True
    let ?h = "(i + j) div 2"
    have h: "i \<le> ?h" "?h < j" using True by auto
    show ?thesis
    proof (cases "f ?h")
      case fh: True
      let ?r = "sort_Search i ?h f"
      have s: "sort_Search i j f = ?r" using True fh by (subst sort_Search.simps) (simp add: Let_def)
      have "i \<le> ?r \<and> ?r \<le> ?h \<and> (\<forall>k. i \<le> k \<and> k < ?r \<longrightarrow> \<not> f k) \<and> (?r < ?h \<longrightarrow> f ?r)"
      proof (rule 1(2) [OF True refl _ h(1)])
        show "f l" if "i \<le> k" "k \<le> l" "l < ?h" "f k" for k l by (rule 1(4) [of k l]) (use that h(2) in auto)
      qed (simp add: fh)
      moreover from this have "f ?r" using fh by (cases "?r < ?h") auto
      ultimately show ?thesis unfolding s using h by auto
    next
      case fh: False
      let ?r = "sort_Search (?h + 1) j f"
      have s: "sort_Search i j f = ?r" using True fh by (subst sort_Search.simps) (simp add: Let_def)
      have r: "?h + 1 \<le> ?r \<and> ?r \<le> j \<and> (\<forall>k. ?h + 1 \<le> k \<and> k < ?r \<longrightarrow> \<not> f k) \<and> (?r < j \<longrightarrow> f ?r)"
      proof (rule 1(1) [OF True refl fh])
        show "?h + 1 \<le> j" using h(2) by simp
        show "f l" if "?h + 1 \<le> k" "k \<le> l" "l < j" "f k" for k l by (rule 1(4) [of k l]) (use that h(1) in auto)
      qed
      have "\<not> f k" if "i \<le> k" "k < ?r" for k
      proof (cases "k \<le> ?h")
        case True
        then show ?thesis using 1(4) [of k ?h] that h(2) fh by blast
      next
        case False
        then show ?thesis using r that(2) by simp
      qed
      then show ?thesis unfolding s using h r by simp
    qed
  next
    case False
    then show ?thesis using 1(3) by (auto simp: sort_Search.simps)
  qed
qed

section \<open>The owner of a name\<close>

text \<open>
  The keys of the ring are sorted. A name belongs to the node of the least key above its
  hash, and to that of the least key of all when there is none.
\<close>

definition ring_ok :: "'db Consistent \<Rightarrow> bool" where
  "ring_ok c \<longleftrightarrow>
     minv (cs_circle c) \<and> (\<forall>k \<in> set (mkeys (cs_circle c)). is_hash k) \<and>
     sorted_wrt (<) (cs_sortedHashes c) \<and> set (cs_sortedHashes c) = set (mkeys (cs_circle c))"

definition owner_key :: "NodeKey set \<Rightarrow> NodeKey \<Rightarrow> NodeKey" where
  "owner_key K key = (if \<exists>k \<in> K. key < k then Min {k \<in> K. key < k} else Min K)"

lemma owner_key_in: "finite K \<Longrightarrow> K \<noteq> {} \<Longrightarrow> owner_key K key \<in> K"
  using Min_in [of K] Min_in [of "{k \<in> K. key < k}"] by (auto simp: owner_key_def)

text \<open>The owner among more keys is one of the new keys or the old owner.\<close>

lemma owner_key_grow:
  assumes "finite K" and "K \<noteq> {}" and "finite N" and "owner_key (K \<union> N) key \<notin> N"
  shows "owner_key (K \<union> N) key = owner_key K key"
proof -
  have in_K: "owner_key (K \<union> N) key \<in> K" using owner_key_in [of "K \<union> N" key] assms by auto
  show ?thesis
  proof (cases "\<exists>k \<in> K \<union> N. key < k")
    case True
    then have o: "owner_key (K \<union> N) key = Min {k \<in> K \<union> N. key < k}" by (simp add: owner_key_def)
    have fin: "finite {k \<in> K \<union> N. key < k}" using assms by simp
    have gt: "key < owner_key (K \<union> N) key" using Min_in [OF fin] True o by auto
    then have "Min {k \<in> K. key < k} = owner_key (K \<union> N) key"
      using in_K fin assms(1) unfolding o by (intro Min_eqI) (auto intro: Min_le)
    then show ?thesis using gt in_K by (auto simp: owner_key_def)
  next
    case False
    then have "owner_key (K \<union> N) key = Min (K \<union> N)" "owner_key K key = Min K" by (auto simp: owner_key_def)
    moreover have "Min K = Min (K \<union> N)" using in_K calculation(1) assms by (intro Min_eqI) (auto intro: Min_le)
    ultimately show ?thesis by simp
  qed
qed

lemma ring_search_owner:
  assumes "ring_ok c" and "cs_circle c \<noteq> []" and "is_hash key"
  shows "ring_search key c < length (cs_sortedHashes c)"
    and "cs_sortedHashes c ! ring_search key c = owner_key (set (mkeys (cs_circle c))) key"
proof -
  let ?L = "cs_sortedHashes c" and ?K = "set (mkeys (cs_circle c))" and ?f = "\<lambda>x. nodeKey_Less key (cs_sortedHashes c ! x)"
  have L: "sorted_wrt (<) ?L" "set ?L = ?K" "\<forall>k \<in> set ?L. is_hash k" using assms(1) by (simp_all add: ring_ok_def)
  then have ne: "?L \<noteq> []" using assms(2) by (cases "cs_circle c") force+
  have f: "?f x \<longleftrightarrow> key < ?L ! x" if "x < length ?L" for x
    using L(3) assms(3) nth_mem [OF that] by (intro nodeKey_Less_lex) (simp add: is_hash_def)
  have le: "?L ! x \<le> ?L ! y" if "x \<le> y" "y < length ?L" for x y
    using L(1) that sorted_wrt_nth_less [of "(<)" ?L x y] by (cases "x = y") auto
  let ?r = "sort_Search 0 (length ?L) ?f"
  have r: "?r \<le> length ?L" "\<And>k. k < ?r \<Longrightarrow> \<not> ?f k" "?r < length ?L \<Longrightarrow> ?f ?r"
  proof -
    have "?f l" if "0 \<le> k" "k \<le> l" "l < length ?L" "?f k" for k l
      using that f [of k] f [of l] le [of k l] by (simp add: order.strict_trans2)
    note S = sort_Search_spec [of 0 "length ?L" ?f, OF _ this]
    show "?r \<le> length ?L" "\<And>k. k < ?r \<Longrightarrow> \<not> ?f k" "?r < length ?L \<Longrightarrow> ?f ?r" using S by simp_all
  qed
  show "ring_search key c < length ?L" using ne by (auto simp: ring_search_def Let_def)
  have mem: "x \<in> ?K \<Longrightarrow> \<exists>k < length ?L. x = ?L ! k" for x using L(2) by (metis in_set_conv_nth)
  have fin: "finite ?K" by simp
  show "?L ! ring_search key c = owner_key ?K key"
  proof (cases "?r < length ?L")
    case True
    have "Min {k \<in> ?K. key < k} = ?L ! ?r"
    proof (rule Min_eqI)
      show "?L ! ?r \<in> {k \<in> ?K. key < k}" using True r(3) f L(2) nth_mem by auto
      fix y assume "y \<in> {k \<in> ?K. key < k}"
      then obtain k where "k < length ?L" "y = ?L ! k" "key < ?L ! k" using mem [of y] by blast
      then show "?L ! ?r \<le> y" using r(2) [of k] f [of k] le [of ?r k] by (meson not_less)
    qed simp
    moreover have "\<exists>k \<in> ?K. key < k" using True r(3) f L(2) nth_mem by blast
    ultimately show ?thesis using True by (simp add: owner_key_def ring_search_def Let_def)
  next
    case False
    then have "\<not> key < y" if "y \<in> ?K" for y using r(1,2) f mem [OF that] by auto
    moreover have "Min ?K = ?L ! 0"
    proof (rule Min_eqI)
      show "?L ! 0 \<in> ?K" using ne L(2) nth_mem [of 0 ?L] by auto
      show "\<And>y. y \<in> ?K \<Longrightarrow> ?L ! 0 \<le> y" using mem le [of 0] by (metis le0)
    qed simp
    ultimately show ?thesis using False by (auto simp: owner_key_def ring_search_def Let_def)
  qed
qed

section \<open>Adding and removing nodes\<close>

definition ring_keys :: "'db ring_env \<Rightarrow> NodeID \<Rightarrow> 'db Consistent \<Rightarrow> NodeKey set" where
  "ring_keys R i c = (\<lambda>n. hashKey R (nodeKey i n)) ` {0..<cs_NumberOfReplicas c}"

lemma fold_mput:
  "mget (fold (\<lambda>i m. mput (f i) v m) xs m) k = (if k \<in> f ` set xs then Some v else mget m k)"
  "minv m \<Longrightarrow> minv (fold (\<lambda>i m. mput (f i) v m) xs m)"
  by (induction xs arbitrary: m) auto

lemma fold_mdel:
  "mget (fold (\<lambda>i m. mdel (f i) m) xs m) k = (if k \<in> f ` set xs then None else mget m k)"
  "minv m \<Longrightarrow> minv (fold (\<lambda>i m. mdel (f i) m) xs m)"
  by (induction xs arbitrary: m) auto

lemma mkeys_dom: "set (mkeys m) = dom (mget m)"
  by (simp add: dom_map_of_conv_image_fst)

lemma circle_AddCache:
  "mget (cs_circle (AddCache R node c)) k = (if k \<in> ring_keys R (nd_ID node) c then Some node else mget (cs_circle c) k)"
  "minv (cs_circle c) \<Longrightarrow> minv (cs_circle (AddCache R node c))"
  "set (mkeys (cs_circle (AddCache R node c))) = set (mkeys (cs_circle c)) \<union> ring_keys R (nd_ID node) c"
proof -
  show "mget (cs_circle (AddCache R node c)) k = (if k \<in> ring_keys R (nd_ID node) c then Some node else mget (cs_circle c) k)" for k
    by (simp add: AddCache_def updateSortedHashes_def fold_mput ring_keys_def)
  then show "set (mkeys (cs_circle (AddCache R node c))) = set (mkeys (cs_circle c)) \<union> ring_keys R (nd_ID node) c"
    unfolding mkeys_dom by (auto simp: dom_def split: if_splits)
  show "minv (cs_circle c) \<Longrightarrow> minv (cs_circle (AddCache R node c))"
    by (simp add: AddCache_def updateSortedHashes_def fold_mput)
qed

lemma circle_RemoveCache:
  "mget (cs_circle (RemoveCache R i c)) k = (if k \<in> ring_keys R i c then None else mget (cs_circle c) k)"
  "minv (cs_circle c) \<Longrightarrow> minv (cs_circle (RemoveCache R i c))"
  "set (mkeys (cs_circle (RemoveCache R i c))) = set (mkeys (cs_circle c)) - ring_keys R i c"
proof -
  show "mget (cs_circle (RemoveCache R i c)) k = (if k \<in> ring_keys R i c then None else mget (cs_circle c) k)" for k
    by (simp add: RemoveCache_def updateSortedHashes_def fold_mdel ring_keys_def)
  then show "set (mkeys (cs_circle (RemoveCache R i c))) = set (mkeys (cs_circle c)) - ring_keys R i c"
    unfolding mkeys_dom by (auto simp: dom_def split: if_splits)
  show "minv (cs_circle c) \<Longrightarrow> minv (cs_circle (RemoveCache R i c))"
    by (simp add: RemoveCache_def updateSortedHashes_def fold_mdel)
qed

lemma updateSortedHashes_ok:
  "minv (cs_circle c) \<Longrightarrow> \<forall>k \<in> set (mkeys (cs_circle c)). is_hash k \<Longrightarrow> ring_ok (updateSortedHashes c)"
  by (simp add: ring_ok_def updateSortedHashes_def sorted_nodeKeys_Sort)

lemma ring_keys_hash: "(\<And>x. is_hash (re_HashH R x)) \<Longrightarrow> k \<in> ring_keys R i c \<Longrightarrow> is_hash k"
  by (auto simp: ring_keys_def hashKey_def)

lemma ring_ok_AddCache:
  assumes "\<And>x. is_hash (re_HashH R x)" and "ring_ok c"
  shows "ring_ok (AddCache R node c)"
proof -
  let ?c = "c \<lparr> cs_circle := fold (\<lambda>i m. mput (hashKey R (nodeKey (nd_ID node) i)) node m) [0..<cs_NumberOfReplicas c] (cs_circle c) \<rparr>"
  have e: "cs_circle ?c = cs_circle (AddCache R node c)" by (simp add: AddCache_def updateSortedHashes_def)
  have "minv (cs_circle ?c)" "\<forall>k \<in> set (mkeys (cs_circle ?c)). is_hash k"
    unfolding e using assms circle_AddCache(2,3) [where R = R and node = node and c = c] ring_keys_hash [OF assms(1)]
    by (auto simp: ring_ok_def simp del: set_map)
  then show ?thesis unfolding AddCache_def by (rule updateSortedHashes_ok)
qed

lemma ring_ok_RemoveCache:
  assumes "ring_ok c"
  shows "ring_ok (RemoveCache R i c)"
proof -
  let ?c = "c \<lparr> cs_circle := fold (\<lambda>n m. mdel (hashKey R (nodeKey i n)) m) [0..<cs_NumberOfReplicas c] (cs_circle c) \<rparr>"
  have e: "cs_circle ?c = cs_circle (RemoveCache R i c)" by (simp add: RemoveCache_def updateSortedHashes_def)
  have "minv (cs_circle ?c)" "\<forall>k \<in> set (mkeys (cs_circle ?c)). is_hash k"
    unfolding e using assms circle_RemoveCache(2,3) [where R = R and i = i and c = c]
    by (auto simp: ring_ok_def simp del: set_map)
  then show ?thesis unfolding RemoveCache_def by (rule updateSortedHashes_ok)
qed

text \<open>Looking up a name gives its owner.\<close>

lemma GetNeighbor_owner:
  assumes "\<And>x. is_hash (re_HashH R x)" and "ring_ok c" and "cs_circle c \<noteq> []"
  shows "\<exists>n. mget (cs_circle c) (owner_key (set (mkeys (cs_circle c))) (hashKey R name)) = Some n \<and> GetNeighbor R name c = Ok n"
proof -
  let ?K = "set (mkeys (cs_circle c))" and ?key = "hashKey R name"
  have "is_hash ?key" by (simp add: hashKey_def assms(1))
  note s = ring_search_owner [OF assms(2,3) this]
  have "owner_key ?K ?key \<in> ?K" using assms(3) by (intro owner_key_in) auto
  then obtain n where "mget (cs_circle c) (owner_key ?K ?key) = Some n" unfolding mkeys_dom by blast
  with s assms(3) show ?thesis by (simp add: GetNeighbor_def node_at_def)
qed

section \<open>Properties\<close>

text \<open>
  C19: The ring moves few names. After a node is added, every name belongs to the node it
  belonged to before, or to the new node. Removing the node again, when its keys were not
  on the ring before, gives every name its old node back.
\<close>

theorem ring_moves_few_names:
  assumes "\<And>x. is_hash (re_HashH R x)" and "ring_ok c" and "cs_circle c \<noteq> []"
  shows "(\<exists>m. GetNeighbor R name (AddCache R node c) = Ok m \<and> (m = node \<or> GetNeighbor R name c = Ok m)) \<and>
    (ring_keys R (nd_ID node) c \<inter> set (mkeys (cs_circle c)) = {} \<longrightarrow>
      GetNeighbor R name (RemoveCache R (nd_ID node) (AddCache R node c)) = GetNeighbor R name c)"
proof (intro conjI impI)
  let ?c = "AddCache R node c" and ?N = "ring_keys R (nd_ID node) c" and ?K = "set (mkeys (cs_circle c))" and ?key = "hashKey R name"
  have ok: "ring_ok ?c" by (rule ring_ok_AddCache [OF assms(1,2)])
  have K: "?K \<noteq> {}" using assms(3) by simp
  have K': "set (mkeys (cs_circle ?c)) = ?K \<union> ?N" by (rule circle_AddCache(3))
  then have ne: "cs_circle ?c \<noteq> []" using K by auto
  obtain m where m: "mget (cs_circle ?c) (owner_key (?K \<union> ?N) ?key) = Some m" "GetNeighbor R name ?c = Ok m"
    using GetNeighbor_owner [OF assms(1) ok ne, of name, unfolded K'] by blast
  obtain n where n: "mget (cs_circle c) (owner_key ?K ?key) = Some n" "GetNeighbor R name c = Ok n"
    using GetNeighbor_owner [OF assms, of name] by blast
  have fin: "finite ?N" by (simp add: ring_keys_def)
  have "m = node \<or> GetNeighbor R name c = Ok m"
  proof (cases "owner_key (?K \<union> ?N) ?key \<in> ?N")
    case True
    then show ?thesis using m(1) by (simp add: circle_AddCache(1))
  next
    case False
    then have "owner_key (?K \<union> ?N) ?key = owner_key ?K ?key" using K fin by (intro owner_key_grow) simp_all
    then show ?thesis using False m(1) n by (simp add: circle_AddCache(1))
  qed
  with m(2) show added: "\<exists>m. GetNeighbor R name ?c = Ok m \<and> (m = node \<or> GetNeighbor R name c = Ok m)" by blast
  assume new: "?N \<inter> ?K = {}"
  let ?d = "RemoveCache R (nd_ID node) ?c"
  have rk: "ring_keys R (nd_ID node) ?c = ?N" by (simp add: ring_keys_def AddCache_def updateSortedHashes_def)
  have okd: "ring_ok ?d" by (rule ring_ok_RemoveCache [OF ok])
  have Kd: "set (mkeys (cs_circle ?d)) = ?K" using new K' by (simp add: circle_RemoveCache(3) rk del: set_map) blast
  have get: "mget (cs_circle ?d) k = mget (cs_circle c) k" for k
  proof (cases "k \<in> ?N")
    case True
    then have "k \<notin> dom (mget (cs_circle c))" using new mkeys_dom [of "cs_circle c"] by blast
    then show ?thesis using True by (simp add: circle_RemoveCache(1) rk domIff)
  qed (simp add: circle_RemoveCache(1) rk circle_AddCache(1))
  have "cs_circle ?d \<noteq> []" using Kd K by auto
  from GetNeighbor_owner [OF assms(1) okd this, of name] n show "GetNeighbor R name ?d = GetNeighbor R name c"
    unfolding Kd get by auto
qed

text \<open>The nodes on the ring with one of the roles.\<close>

definition matching :: "'db Consistent \<Rightarrow> ServerRole list \<Rightarrow> NodeID set" where
  "matching c roles = {nd_ID n | n. n \<in> ran (mget (cs_circle c)) \<and> (roles = [] \<or> serverRoles_Contains roles (nd_Role n))}"

definition collected :: "'db Consistent \<Rightarrow> ServerRole list \<Rightarrow> Node list \<Rightarrow> bool" where
  "collected c roles ns \<longleftrightarrow> distinct (map nd_ID ns) \<and> nd_ID ` set ns \<subseteq> matching c roles"

lemma finite_matching: "finite (matching c roles)"
proof -
  have "matching c roles \<subseteq> nd_ID ` ran (mget (cs_circle c))" by (auto simp: matching_def)
  then show ?thesis by (rule finite_subset) (intro finite_imageI finite_ran finite_dom_map_of)
qed

lemma collected_length: "collected c roles ns \<Longrightarrow> length ns \<le> card (matching c roles)"
proof -
  assume c: "collected c roles ns"
  then have "length ns = card (nd_ID ` set ns)" using distinct_card [of "map nd_ID ns"] by (simp add: collected_def)
  also have "\<dots> \<le> card (matching c roles)" by (rule card_mono [OF finite_matching]) (use c in \<open>simp add: collected_def\<close>)
  finally show ?thesis .
qed

lemma node_at_ran: "node_at c i = Ok n \<Longrightarrow> n \<in> ran (mget (cs_circle c))"
  by (auto simp: node_at_def ran_def split: if_splits option.splits)

lemma collected_step:
  assumes "collected c roles ns" and "node_at c i = Ok e"
  shows "collected c roles (if (roles = [] \<or> serverRoles_Contains roles (nd_Role e)) \<and> \<not> sliceContainsMember ns e then ns @ [e] else ns)"
  using assms(1) node_at_ran [OF assms(2)]
  by (auto simp: collected_def matching_def sliceContainsMember_def list_ex_iff)

text \<open>A walk from index 0 that never collects enough nodes goes around forever.\<close>

definition too_few :: "'db Consistent \<Rightarrow> nat \<Rightarrow> int \<Rightarrow> ServerRole list \<Rightarrow> nat \<Rightarrow> Node list \<Rightarrow> bool" where
  "too_few c start n roles i ns \<longleftrightarrow>
     start = 0 \<and> i > 0 \<and> collected c roles ns \<and> int (card (matching c roles)) < n \<and> cs_sortedHashes c \<noteq> [] \<and>
     (\<forall>k < length (cs_sortedHashes c). \<exists>e. node_at c k = Ok e)"

lemma neighbors_loop_forever:
  assumes "neighbors_loop c start n roles i ns = Some r"
  shows "\<not> too_few c start n roles i ns"
proof (rule neighbors_loop.raw_induct [where P = "\<lambda>c start n roles i ns r. \<not> too_few c start n roles i ns", OF _ assms])
  fix loop :: "'a Consistent \<Rightarrow> nat \<Rightarrow> int \<Rightarrow> ServerRole list \<Rightarrow> nat \<Rightarrow> Node list \<Rightarrow> (ring_error, Node list) res option"
    and c :: "'a Consistent" and start i n roles ns r
  assume IH: "\<And>c start n roles i ns r. loop c start n roles i ns = Some r \<Longrightarrow> \<not> too_few c start n roles i ns"
    and body: "(if i = start then Some (Ok ns)
      else
        let i = (if i \<ge> length (cs_sortedHashes c) then 0 else i) in
        case node_at c i of
          Ok elem \<Rightarrow>
            let ns = (if (roles = [] \<or> serverRoles_Contains roles (nd_Role elem)) \<and> \<not> sliceContainsMember ns elem
                       then ns @ [elem] else ns)
            in if int (length ns) = n then Some (Ok ns) else loop c start n roles (i + 1) ns
        | Err e \<Rightarrow> Some (Err e)
        | Panic \<Rightarrow> Some Panic) = Some r"
  show "\<not> too_few c start n roles i ns"
  proof
    assume a: "too_few c start n roles i ns"
    let ?i = "if i \<ge> length (cs_sortedHashes c) then 0 else i"
    have "?i < length (cs_sortedHashes c)" using a by (simp add: too_few_def)
    then obtain e where e: "node_at c ?i = Ok e" using a unfolding too_few_def by blast
    let ?ns = "if (roles = [] \<or> serverRoles_Contains roles (nd_Role e)) \<and> \<not> sliceContainsMember ns e then ns @ [e] else ns"
    have c: "collected c roles ?ns" by (rule collected_step [OF _ e]) (use a in \<open>simp add: too_few_def\<close>)
    then have "int (length ?ns) \<noteq> n" using collected_length [OF c] a by (simp add: too_few_def)
    moreover have "i \<noteq> start" using a by (simp add: too_few_def)
    ultimately have "loop c start n roles (?i + 1) ?ns = Some r" using body e by (simp only: Let_def if_False res.case)
    from IH [OF this] show False using a c unfolding too_few_def by auto
  qed
qed

text \<open>
  A walk from any other index ends at its start. It has then passed the positions from the
  start to the end of the ring and those from 0 on.
\<close>

definition passed :: "'db Consistent \<Rightarrow> nat \<Rightarrow> nat \<Rightarrow> nat set" where
  "passed c start i = (if i \<le> start then {0..<i} \<union> {start..<length (cs_sortedHashes c)} else {start..<i})"

definition covered :: "'db Consistent \<Rightarrow> ServerRole list \<Rightarrow> Node list \<Rightarrow> nat set \<Rightarrow> bool" where
  "covered c roles ns P \<longleftrightarrow>
     (\<forall>k \<in> P. \<forall>e. node_at c k = Ok e \<longrightarrow> (roles = [] \<or> serverRoles_Contains roles (nd_Role e)) \<longrightarrow> nd_ID e \<in> nd_ID ` set ns)"

lemma covered_step:
  assumes "covered c roles ns P" and "node_at c i = Ok e"
  shows "covered c roles (if (roles = [] \<or> serverRoles_Contains roles (nd_Role e)) \<and> \<not> sliceContainsMember ns e then ns @ [e] else ns)
    (insert i P)"
  using assms by (auto simp: covered_def sliceContainsMember_def list_ex_iff intro: rev_image_eqI)

lemma passed_step:
  assumes "0 < start" and "start < length (cs_sortedHashes c)" and "0 < i" and "i \<le> length (cs_sortedHashes c)" and "i \<noteq> start"
  shows "passed c start ((if i \<ge> length (cs_sortedHashes c) then 0 else i) + 1)
    = insert (if i \<ge> length (cs_sortedHashes c) then 0 else i) (passed c start i)"
  using assms by (auto simp: passed_def)

lemma neighbors_loop_returns:
  assumes "start > 0" and "start < length (cs_sortedHashes c)" and "0 < i" and "i \<le> length (cs_sortedHashes c)"
    and at: "\<And>k. k < length (cs_sortedHashes c) \<Longrightarrow> \<exists>e. node_at c k = Ok e"
    and "collected c roles ns" and "covered c roles ns (passed c start i)"
  shows "\<exists>r. neighbors_loop c start n roles i ns = Some (Ok r) \<and> collected c roles r \<and>
    (int (length r) = n \<or> covered c roles r {0..<length (cs_sortedHashes c)})"
  using assms(3,4,6,7)
proof (induction "if i \<le> start then start - i else length (cs_sortedHashes c) - i + start + 1" arbitrary: i ns rule: less_induct)
  case less
  let ?L = "length (cs_sortedHashes c)" and ?i = "if i \<ge> length (cs_sortedHashes c) then 0 else i"
  show ?case
  proof (cases "i = start")
    case True
    then have "passed c start i = {0..<?L}" using assms(2) by (auto simp: passed_def)
    then show ?thesis using True less.prems by (subst neighbors_loop.simps) simp
  next
    case False
    have "?i < ?L" using assms(2) by auto
    then obtain e where e: "node_at c ?i = Ok e" using at by blast
    let ?ns = "if (roles = [] \<or> serverRoles_Contains roles (nd_Role e)) \<and> \<not> sliceContainsMember ns e then ns @ [e] else ns"
    have c: "collected c roles ?ns" by (rule collected_step [OF less.prems(3) e])
    have v: "covered c roles ?ns (passed c start (?i + 1))"
      unfolding passed_step [OF assms(1,2) less.prems(1,2) False] by (rule covered_step [OF less.prems(4) e])
    have body: "neighbors_loop c start n roles i ns =
        (if int (length ?ns) = n then Some (Ok ?ns) else neighbors_loop c start n roles (?i + 1) ?ns)"
      using False e by (subst neighbors_loop.simps) (simp add: Let_def)
    show ?thesis
    proof (cases "int (length ?ns) = n")
      case True
      then show ?thesis using body c by auto
    next
      case nn: False
      have "\<exists>r. neighbors_loop c start n roles (?i + 1) ?ns = Some (Ok r) \<and> collected c roles r \<and>
          (int (length r) = n \<or> covered c roles r {0..<?L})"
        by (rule less.hyps [OF _ _ _ c v]) (use less.prems(1,2) assms(1,2) False in \<open>auto split: if_splits\<close>)
      then show ?thesis using body nn by simp
    qed
  qed
qed

lemma node_at_ok: "ring_ok c \<Longrightarrow> k < length (cs_sortedHashes c) \<Longrightarrow> \<exists>e. node_at c k = Ok e"
proof -
  assume ok: "ring_ok c" and k: "k < length (cs_sortedHashes c)"
  then have "cs_sortedHashes c ! k \<in> dom (mget (cs_circle c))" using nth_mem [OF k] unfolding ring_ok_def mkeys_dom by simp
  with k show ?thesis by (auto simp: node_at_def)
qed

lemma covered_all:
  assumes "ring_ok c" and "covered c roles ns {0..<length (cs_sortedHashes c)}"
  shows "matching c roles \<subseteq> nd_ID ` set ns"
proof
  fix x assume "x \<in> matching c roles"
  then obtain n where n: "x = nd_ID n" "n \<in> ran (mget (cs_circle c))" "roles = [] \<or> serverRoles_Contains roles (nd_Role n)"
    by (auto simp: matching_def)
  then obtain k where k: "mget (cs_circle c) k = Some n" by (auto simp: ran_def)
  then have "k \<in> set (cs_sortedHashes c)" using assms(1) unfolding ring_ok_def mkeys_dom by blast
  then obtain j where j: "j < length (cs_sortedHashes c)" "cs_sortedHashes c ! j = k" by (auto simp: in_set_conv_nth)
  then have "node_at c j = Ok n" using k by (simp add: node_at_def)
  then show "x \<in> nd_ID ` set ns" using assms(2) j n by (auto simp: covered_def)
qed

text \<open>
  C20: The walk for the neighbours of a name. When the owner of the name is not at the
  first position of the ring, \<open>GetNeighborsEx\<close> returns distinct nodes of the ring with the
  wanted roles, as many as were asked for or all there are. When the owner is at the first
  position and fewer nodes match than are looked for, it never returns: the position is
  compared with the start before it is wrapped.
\<close>

theorem neighbors_walk:
  assumes "\<And>x. is_hash (re_HashH R x)" and "ring_ok c" and "cs_circle c \<noteq> []" and "0 \<le> n"
  shows "(ring_search (hashKey R name) c \<noteq> 0 \<longrightarrow>
      (\<exists>ns. GetNeighborsEx R name n roles c = Some (Ok ns) \<and> collected c roles ns \<and>
        (int (length ns) = min n (int (length (cs_sortedHashes c) div cs_NumberOfReplicas c)) \<or> matching c roles \<subseteq> nd_ID ` set ns))) \<and>
    (ring_search (hashKey R name) c = 0 \<and>
      int (card (matching c roles)) < min n (int (length (cs_sortedHashes c) div cs_NumberOfReplicas c)) \<longrightarrow>
      GetNeighborsEx R name n roles c = None)"
proof -
  let ?i = "ring_search (hashKey R name) c" and ?L = "length (cs_sortedHashes c)"
  let ?n = "min n (int (?L div cs_NumberOfReplicas c))"
  have i: "?i < ?L" by (rule ring_search_owner(1) [OF assms(2,3)]) (simp add: hashKey_def assms(1))
  obtain e where e: "node_at c ?i = Ok e" using node_at_ok [OF assms(2) i] by blast
  let ?ns = "if roles = [] \<or> serverRoles_Contains roles (nd_Role e) then [e] else []"
  have c: "collected c roles ?ns" using node_at_ran [OF e] by (auto simp: collected_def matching_def)
  have v: "covered c roles ?ns (passed c ?i (?i + 1))" using e by (auto simp: covered_def passed_def)
  have G: "GetNeighborsEx R name n roles c =
      (if roles = [] \<and> int (length ?ns) = ?n then Some (Ok ?ns) else neighbors_loop c ?i ?n roles (?i + 1) ?ns)"
    using assms(3,4) e by (auto simp: GetNeighborsEx_def Let_def min_def)
  show ?thesis
  proof (intro conjI impI)
    assume "?i \<noteq> 0"
    then have s: "0 < ?i" "0 < ?i + 1" "?i + 1 \<le> ?L" using i by auto
    from neighbors_loop_returns [OF s(1) i s(2,3) node_at_ok [OF assms(2)] c v, of ?n]
    obtain r where "neighbors_loop c ?i ?n roles (?i + 1) ?ns = Some (Ok r)" "collected c roles r"
      "int (length r) = ?n \<or> covered c roles r {0..<?L}" by auto
    then show "\<exists>ns. GetNeighborsEx R name n roles c = Some (Ok ns) \<and> collected c roles ns \<and>
        (int (length ns) = ?n \<or> matching c roles \<subseteq> nd_ID ` set ns)"
      using G c covered_all [OF assms(2)] by (cases "roles = [] \<and> int (length ?ns) = ?n") auto
  next
    assume few: "?i = 0 \<and> int (card (matching c roles)) < ?n"
    then have "too_few c ?i ?n roles (?i + 1) ?ns" using c i node_at_ok [OF assms(2)] by (auto simp: too_few_def)
    then have "neighbors_loop c ?i ?n roles (?i + 1) ?ns = None" using neighbors_loop_forever by fastforce
    moreover have "int (length ?ns) \<noteq> ?n" using collected_length [OF c] few by linarith
    ultimately show "GetNeighborsEx R name n roles c = None" using G by simp
  qed
qed

text \<open>A ring of two nodes with the role of a miner and one copy of each.\<close>

definition example_ring_env :: "unit ring_env" where
  "example_ring_env =
     \<lparr> re_HashH = (\<lambda>x. take 32 (x @ replicate 32 0)),
       re_kms = \<lparr> ks_thash = (\<lambda>x. x), ks_serialize = (\<lambda>k. []), ks_encode = (\<lambda>n. None), ks_decode = (\<lambda>b. None),
                  ks_exec = (\<lambda>s db. (db, False)), ks_get = (\<lambda>i db. Ok None), ks_ids = (\<lambda>db. None) \<rparr> \<rparr>"

definition example_miner :: "NodeID \<Rightarrow> Node" where
  "example_miner i = zero_node \<lparr> nd_ID := i, nd_Role := Miner \<rparr>"

definition example_empty_ring :: "unit Consistent" where
  "example_empty_ring = \<lparr> cs_circle = [], cs_sortedHashes = [], cs_NumberOfReplicas = 1, cs_persist = None \<rparr>"

definition example_ring :: "unit Consistent" where
  "example_ring = AddCache example_ring_env (example_miner ''b'') (AddCache example_ring_env (example_miner ''a'') example_empty_ring)"

lemma example_ring_hash: "is_hash (re_HashH example_ring_env x)"
  by (simp add: example_ring_env_def is_hash_def HashSize_def)

lemma example_ring_ok: "ring_ok example_ring"
proof -
  have "ring_ok example_empty_ring" by (simp add: ring_ok_def example_empty_ring_def)
  then show ?thesis unfolding example_ring_def by (intro ring_ok_AddCache example_ring_hash)
qed

lemma example_ring_values:
  "cs_circle example_ring \<noteq> []"
  "ring_search (hashKey example_ring_env ''0a'') example_ring = 1"
  "ring_search (hashKey example_ring_env ''z'') example_ring = 0"
  "cs_NumberOfReplicas example_ring = 1" "length (cs_sortedHashes example_ring) = 2"
  by code_simp+

lemma example_no_leaders: "matching example_ring [Leader] = {}"
proof -
  have "\<forall>n \<in> snd ` set (cs_circle example_ring). \<not> serverRoles_Contains [Leader] (nd_Role n)" by code_simp
  then show ?thesis by (fastforce simp: matching_def ran_def dest: map_of_SomeD)
qed

lemma example_ring_new:
  "ring_keys example_ring_env (nd_ID (example_miner ''c'')) example_ring \<inter> set (mkeys (cs_circle example_ring)) = {}"
proof -
  have "ring_keys example_ring_env (nd_ID (example_miner ''c'')) example_ring = {hashKey example_ring_env (nodeKey ''c'' 0)}"
    by (simp add: ring_keys_def example_ring_values example_miner_def)
  moreover have "hashKey example_ring_env (nodeKey ''c'' 0) \<notin> set (mkeys (cs_circle example_ring))" by code_simp
  ultimately show ?thesis by simp
qed

theorem ring_moves_few_names_witness:
  "\<exists>m. GetNeighbor example_ring_env ''z'' (AddCache example_ring_env (example_miner ''c'') example_ring) = Ok m \<and>
     (m = example_miner ''c'' \<or> GetNeighbor example_ring_env ''z'' example_ring = Ok m) \<and>
     GetNeighbor example_ring_env ''z'' (RemoveCache example_ring_env (nd_ID (example_miner ''c''))
       (AddCache example_ring_env (example_miner ''c'') example_ring)) = GetNeighbor example_ring_env ''z'' example_ring"
  using ring_moves_few_names [OF example_ring_hash example_ring_ok example_ring_values(1), of "''z''" "example_miner ''c''"]
    example_ring_new by blast

theorem neighbors_walk_witness:
  "(\<exists>ns. GetNeighborsEx example_ring_env ''0a'' 2 [Miner] example_ring = Some (Ok ns) \<and> collected example_ring [Miner] ns \<and>
      (int (length ns) = 2 \<or> matching example_ring [Miner] \<subseteq> nd_ID ` set ns)) \<and>
   GetNeighborsEx example_ring_env ''z'' 2 [Leader] example_ring = None"
  using neighbors_walk [OF example_ring_hash example_ring_ok example_ring_values(1), of 2 "''0a''" "[Miner]"]
    neighbors_walk [OF example_ring_hash example_ring_ok example_ring_values(1), of 2 "''z''" "[Leader]"]
  by (simp add: example_ring_values example_no_leaders)
end
