(* ===== verification/DB_Types.thy ===== *)
theory DB_Types
  imports Merkle Transactions
begin

text \<open>
  The messages of a database: requests, responses and acknowledgements with their hashes
  and signatures (\<open>types/request_type.go\<close>, \<open>response_type.go\<close>, \<open>ack_type.go\<close>), and the
  blocks of its chain (\<open>types/block.go\<close>). The encodings are parameters. Pointers inside a
  message are taken to be present.
\<close>

section \<open>Requests\<close>

text \<open>The values \<open>database/sql\<close> passes to and from a driver.\<close>

datatype driver_Value =
    VNil | VInt int | VFloat float64 | VBool bool | VText string | VBlob bytes | VTime Time

record NamedArg =
  na_Name :: string
  na_Value :: driver_Value

record DBQuery = Query +
  q_Args :: "NamedArg list"

type_synonym QueryType = "32 word"

definition ReadQuery :: QueryType where "ReadQuery = 0"
definition WriteQuery :: QueryType where "WriteQuery = 1"

lemma read_not_write [simp]: "ReadQuery \<noteq> WriteQuery" "WriteQuery \<noteq> ReadQuery"
  by (simp_all add: ReadQuery_def WriteQuery_def)

definition queryType_String :: "QueryType \<Rightarrow> string" where
  "queryType_String t =
     (if t = ReadQuery then ''read'' else if t = WriteQuery then ''write'' else ''unknown'')"

record RequestHeader =
  rq_QueryType :: QueryType
  rq_NodeID :: NodeID
  rq_DatabaseID :: DatabaseID
  rq_ConnectionID :: u64
  rq_SeqNo :: u64
  rq_Timestamp :: Time
  rq_BatchCount :: u64
  rq_QueriesHash :: hash

record QueryKey =
  qk_NodeID :: NodeID
  qk_ConnectionID :: u64
  qk_SeqNo :: u64

definition GetQueryKey :: "RequestHeader \<Rightarrow> QueryKey" where
  "GetQueryKey h = \<lparr> qk_NodeID = rq_NodeID h, qk_ConnectionID = rq_ConnectionID h, qk_SeqNo = rq_SeqNo h \<rparr>"

record SignedRequestHeader =
  srq_RequestHeader :: RequestHeader
  srq_HSV :: HashSignVerifier

record Request =
  req_Header :: SignedRequestHeader
  req_Queries :: "DBQuery list"

abbreviation request_header :: "Request \<Rightarrow> RequestHeader" where
  "request_header r \<equiv> srq_RequestHeader (req_Header r)"

abbreviation request_Hash :: "Request \<Rightarrow> hash" where
  "request_Hash r \<equiv> hv_DataHash (srq_HSV (req_Header r))"

section \<open>Responses and acknowledgements\<close>

record ResponsePayload =
  rp_Columns :: "string list"
  rp_DeclTypes :: "string list"
  rp_Rows :: "driver_Value list list"

record ResponseHeader =
  rs_Request :: RequestHeader
  rs_RequestHash :: hash
  rs_NodeID :: NodeID
  rs_Timestamp :: Time
  rs_RowCount :: u64
  rs_LogOffset :: u64
  rs_LastInsertID :: "64 word"
  rs_AffectedRows :: "64 word"
  rs_PayloadHash :: hash
  rs_ResponseAccount :: AccountAddress

record SignedResponseHeader =
  srs_ResponseHeader :: ResponseHeader
  srs_ResponseHash :: hash

record Response =
  resp_Header :: SignedResponseHeader
  resp_Payload :: ResponsePayload

record AckHeader =
  ak_Response :: ResponseHeader
  ak_ResponseHash :: hash
  ak_NodeID :: NodeID
  ak_Timestamp :: Time

record SignedAckHeader =
  sak_AckHeader :: AckHeader
  sak_HSV :: HashSignVerifier

definition GetRequestTimestamp :: "ResponseHeader \<Rightarrow> Time" where
  "GetRequestTimestamp h = rq_Timestamp (rs_Request h)"

definition ack_QueryKey :: "SignedAckHeader \<Rightarrow> QueryKey" where
  "ack_QueryKey a = GetQueryKey (rs_Request (ak_Response (sak_AckHeader a)))"

definition ack_RequestTimestamp :: "SignedAckHeader \<Rightarrow> Time" where
  "ack_RequestTimestamp a = GetRequestTimestamp (ak_Response (sak_AckHeader a))"

definition ack_ResponseTimestamp :: "SignedAckHeader \<Rightarrow> Time" where
  "ack_ResponseTimestamp a = rs_Timestamp (ak_Response (sak_AckHeader a))"

definition ack_ResponseHash :: "SignedAckHeader \<Rightarrow> hash" where
  "ack_ResponseHash a = ak_ResponseHash (sak_AckHeader a)"

abbreviation ack_Hash :: "SignedAckHeader \<Rightarrow> hash" where
  "ack_Hash a \<equiv> hv_DataHash (sak_HSV a)"

section \<open>Hashes and signatures of messages\<close>

record db_env =
  de_tx :: tx_env
  marshal_RequestPayload :: "DBQuery list \<Rightarrow> bytes option"
  marshal_RequestHeader :: "RequestHeader \<Rightarrow> bytes option"
  marshal_ResponsePayload :: "ResponsePayload \<Rightarrow> bytes option"
  marshal_ResponseHeader :: "ResponseHeader \<Rightarrow> bytes option"
  marshal_AckHeader :: "AckHeader \<Rightarrow> bytes option"

text \<open>\<open>buildHash\<close> and \<open>verifyHash\<close> of \<open>types/util.go\<close>, on the result of \<open>MarshalHash\<close>.\<close>

definition buildHash :: "db_env \<Rightarrow> bytes option \<Rightarrow> (verifier_error, hash) res" where
  "buildHash D enc = (case enc of None \<Rightarrow> Err ErrMarshal | Some b \<Rightarrow> Ok (THashH (de_tx D) b))"

definition verifyHash :: "db_env \<Rightarrow> bytes option \<Rightarrow> hash \<Rightarrow> (verifier_error, unit) res" where
  "verifyHash D enc h =
     (case buildHash D enc of
        Ok h' \<Rightarrow> if h' \<noteq> h then Err ErrHashValueNotMatch else Ok ()
      | Err e \<Rightarrow> Err e
      | Panic \<Rightarrow> Panic)"

definition srq_Sign ::
    "db_env \<Rightarrow> ('k \<Rightarrow> bytes \<Rightarrow> Signature option \<times> bool) \<Rightarrow> ('k \<Rightarrow> PublicKey) \<Rightarrow> 'k \<Rightarrow>
     SignedRequestHeader \<Rightarrow> SignedRequestHeader \<times> (verifier_error, unit) res" where
  "srq_Sign D sign pub signer h =
     (case hsv_Sign (THashH (de_tx D)) sign pub (marshal_RequestHeader D (srq_RequestHeader h)) signer (srq_HSV h) of
        (i, r) \<Rightarrow> (h \<lparr> srq_HSV := i \<rparr>, r))"

definition srq_Verify :: "db_env \<Rightarrow> SignedRequestHeader \<Rightarrow> (verifier_error, unit) res" where
  "srq_Verify D h =
     hsv_Verify (THashH (de_tx D)) (sigVerify (de_tx D)) (marshal_RequestHeader D (srq_RequestHeader h)) (srq_HSV h)"

definition request_Verify :: "db_env \<Rightarrow> Request \<Rightarrow> (verifier_error, unit) res" where
  "request_Verify D r =
     (case verifyHash D (marshal_RequestPayload D (req_Queries r)) (rq_QueriesHash (request_header r)) of
        Ok _ \<Rightarrow> srq_Verify D (req_Header r)
      | e \<Rightarrow> e)"

definition set_request_header :: "(RequestHeader \<Rightarrow> RequestHeader) \<Rightarrow> Request \<Rightarrow> Request" where
  "set_request_header f r =
     r \<lparr> req_Header := (req_Header r) \<lparr> srq_RequestHeader := f (request_header r) \<rparr> \<rparr>"

definition request_Sign ::
    "db_env \<Rightarrow> ('k \<Rightarrow> bytes \<Rightarrow> Signature option \<times> bool) \<Rightarrow> ('k \<Rightarrow> PublicKey) \<Rightarrow> 'k \<Rightarrow>
     Request \<Rightarrow> Request \<times> (verifier_error, unit) res" where
  "request_Sign D sign pub signer r =
     (let r = set_request_header (\<lambda>h. h \<lparr> rq_BatchCount := of_nat (length (req_Queries r)) \<rparr>) r in
      case buildHash D (marshal_RequestPayload D (req_Queries r)) of
        Ok h \<Rightarrow>
          (let r = set_request_header (\<lambda>x. x \<lparr> rq_QueriesHash := h \<rparr>) r in
           case srq_Sign D sign pub signer (req_Header r) of (h, e) \<Rightarrow> (r \<lparr> req_Header := h \<rparr>, e))
      | Err e \<Rightarrow> (r, Err e)
      | Panic \<Rightarrow> (r, Panic))"

definition srs_VerifyHash :: "db_env \<Rightarrow> SignedResponseHeader \<Rightarrow> (verifier_error, unit) res" where
  "srs_VerifyHash D h = verifyHash D (marshal_ResponseHeader D (srs_ResponseHeader h)) (srs_ResponseHash h)"

definition srs_BuildHash :: "db_env \<Rightarrow> SignedResponseHeader \<Rightarrow> SignedResponseHeader \<times> (verifier_error, unit) res" where
  "srs_BuildHash D h =
     (case buildHash D (marshal_ResponseHeader D (srs_ResponseHeader h)) of
        Ok x \<Rightarrow> (h \<lparr> srs_ResponseHash := x \<rparr>, Ok ())
      | Err e \<Rightarrow> (h, Err e)
      | Panic \<Rightarrow> (h, Panic))"

definition set_response_header :: "(ResponseHeader \<Rightarrow> ResponseHeader) \<Rightarrow> Response \<Rightarrow> Response" where
  "set_response_header f r =
     r \<lparr> resp_Header := (resp_Header r) \<lparr> srs_ResponseHeader := f (srs_ResponseHeader (resp_Header r)) \<rparr> \<rparr>"

definition response_BuildHash :: "db_env \<Rightarrow> Response \<Rightarrow> Response \<times> (verifier_error, unit) res" where
  "response_BuildHash D r =
     (let r = set_response_header (\<lambda>h. h \<lparr> rs_RowCount := of_nat (length (rp_Rows (resp_Payload r))) \<rparr>) r in
      case buildHash D (marshal_ResponsePayload D (resp_Payload r)) of
        Ok x \<Rightarrow>
          (let r = set_response_header (\<lambda>h. h \<lparr> rs_PayloadHash := x \<rparr>) r in
           case srs_BuildHash D (resp_Header r) of (h, e) \<Rightarrow> (r \<lparr> resp_Header := h \<rparr>, e))
      | Err e \<Rightarrow> (r, Err e)
      | Panic \<Rightarrow> (r, Panic))"

definition response_VerifyHash :: "db_env \<Rightarrow> Response \<Rightarrow> (verifier_error, unit) res" where
  "response_VerifyHash D r =
     (case verifyHash D (marshal_ResponsePayload D (resp_Payload r)) (rs_PayloadHash (srs_ResponseHeader (resp_Header r))) of
        Ok _ \<Rightarrow> srs_VerifyHash D (resp_Header r)
      | e \<Rightarrow> e)"

definition ack_Sign ::
    "db_env \<Rightarrow> ('k \<Rightarrow> bytes \<Rightarrow> Signature option \<times> bool) \<Rightarrow> ('k \<Rightarrow> PublicKey) \<Rightarrow> 'k \<Rightarrow>
     SignedAckHeader \<Rightarrow> SignedAckHeader \<times> (verifier_error, unit) res" where
  "ack_Sign D sign pub signer a =
     (case hsv_Sign (THashH (de_tx D)) sign pub (marshal_AckHeader D (sak_AckHeader a)) signer (sak_HSV a) of
        (i, r) \<Rightarrow> (a \<lparr> sak_HSV := i \<rparr>, r))"

definition ack_Verify :: "db_env \<Rightarrow> SignedAckHeader \<Rightarrow> (verifier_error, unit) res" where
  "ack_Verify D a =
     hsv_Verify (THashH (de_tx D)) (sigVerify (de_tx D)) (marshal_AckHeader D (sak_AckHeader a)) (sak_HSV a)"

section \<open>Blocks\<close>

datatype db_error =
    ErrDBVerify verifier_error | ErrDBMerkleRoot | ErrInvalidGenesis
  | ErrParseSQL | ErrExecSQL | ErrStatefulQueryParts | ErrInvalidTableName
  | ErrMissingParent | ErrInvalidRequest | ErrQueryConflict | ErrStorageClose
  | ErrChainParentNotFound | ErrInvalidBlock | ErrMultipleAckOfSeqNo | ErrUnknownMuxRequest
  | ErrQueryExpired | ErrUnknownProducer | ErrInvalidProducer | ErrQueryNotFound
  | ErrResponseSeqNotMatch | ErrInitiating | ErrUnreachable | ErrNoGenesis | ErrChainEncode | ErrChainDecode | ErrChainDB
  | ErrChainAddress | ErrContext
  | ErrPermissionDeny | ErrInvalidPermission | ErrDBNotExists | ErrDBAlreadyExists
  | ErrInvalidRequestSeq | ErrSpaceLimitExceeded | ErrInvalidDBConfig | ErrMeta | ErrApply

definition db_verifier_res :: "(verifier_error, 'a) res \<Rightarrow> (db_error, 'a) res" where
  "db_verifier_res r = (case r of Ok x \<Rightarrow> Ok x | Err e \<Rightarrow> Err (ErrDBVerify e) | Panic \<Rightarrow> Panic)"

record QueryAsTx =
  qx_Request :: Request
  qx_Response :: SignedResponseHeader

record Block =
  sb_SignedHeader :: SignedHeader
  sb_FailedReqs :: "Request list"
  sb_QueryTxs :: "QueryAsTx list"
  sb_Acks :: "SignedAckHeader list"

text \<open>
  The next query id: over the write queries the largest offset plus their number of
  statements, with 64-bit addition; \<open>None\<close> when there is no write query.
\<close>

definition next_id :: "QueryAsTx \<Rightarrow> u64" where
  "next_id v = rs_LogOffset (srs_ResponseHeader (qx_Response v)) + of_nat (length (req_Queries (qx_Request v)))"

abbreviation is_write :: "QueryAsTx \<Rightarrow> bool" where
  "is_write v \<equiv> rq_QueryType (request_header (qx_Request v)) = WriteQuery"

fun calc_next_id :: "QueryAsTx list \<Rightarrow> u64 \<Rightarrow> bool \<Rightarrow> u64 \<times> bool" where
  "calc_next_id [] i ok = (i, ok)"
| "calc_next_id (v # vs) i ok =
     (if is_write v then calc_next_id vs (if next_id v > i then next_id v else i) True else calc_next_id vs i ok)"

definition CalcNextID :: "Block \<Rightarrow> u64 option" where
  "CalcNextID b = (case calc_next_id (sb_QueryTxs b) 0 False of (i, ok) \<Rightarrow> if ok then Some i else None)"

definition sblock_hashes :: "Block \<Rightarrow> hash list" where
  "sblock_hashes b =
     map request_Hash (sb_FailedReqs b) @ map (\<lambda>v. srs_ResponseHash (qx_Response v)) (sb_QueryTxs b) @ map ack_Hash (sb_Acks b)"

definition computeMerkleRoot :: "db_env \<Rightarrow> Block \<Rightarrow> (db_error, hash) res" where
  "computeMerkleRoot D b =
     (case merkle_GetRoot (NewMerkle (THashH (de_tx D)) (sblock_hashes b)) of None \<Rightarrow> Panic | Some r \<Rightarrow> Ok r)"

abbreviation sblock_header :: "Block \<Rightarrow> Header" where
  "sblock_header b \<equiv> sh_Header (sb_SignedHeader b)"

abbreviation sblock_Timestamp :: "Block \<Rightarrow> Time" where
  "sblock_Timestamp b \<equiv> hd_Timestamp (sblock_header b)"

abbreviation sblock_Producer :: "Block \<Rightarrow> NodeID" where
  "sblock_Producer b \<equiv> hd_Producer (sblock_header b)"

abbreviation sblock_ParentHash :: "Block \<Rightarrow> hash" where
  "sblock_ParentHash b \<equiv> hd_ParentHash (sblock_header b)"

abbreviation sblock_GenesisHash :: "Block \<Rightarrow> hash" where
  "sblock_GenesisHash b \<equiv> hd_GenesisHash (sblock_header b)"

abbreviation sblock_BlockHash :: "Block \<Rightarrow> hash" where
  "sblock_BlockHash b \<equiv> hv_DataHash (sh_HSV (sb_SignedHeader b))"

abbreviation sblock_Signee :: "Block \<Rightarrow> PublicKey option" where
  "sblock_Signee b \<equiv> hv_Signee (sh_HSV (sb_SignedHeader b))"

definition sh_Sign ::
    "db_env \<Rightarrow> ('k \<Rightarrow> bytes \<Rightarrow> Signature option \<times> bool) \<Rightarrow> ('k \<Rightarrow> PublicKey) \<Rightarrow> 'k \<Rightarrow> SignedHeader \<Rightarrow>
     SignedHeader \<times> (verifier_error, unit) res" where
  "sh_Sign D sign pub signer s =
     (case hsv_Sign (THashH (de_tx D)) sign pub (marshal_Header (de_tx D) (sh_Header s)) signer (sh_HSV s) of
        (i, r) \<Rightarrow> (s \<lparr> sh_HSV := i \<rparr>, r))"

definition sh_Verify :: "db_env \<Rightarrow> SignedHeader \<Rightarrow> (verifier_error, unit) res" where
  "sh_Verify D s = hsv_Verify (THashH (de_tx D)) (sigVerify (de_tx D)) (marshal_Header (de_tx D) (sh_Header s)) (sh_HSV s)"

definition sh_VerifyHash :: "db_env \<Rightarrow> SignedHeader \<Rightarrow> (verifier_error, unit) res" where
  "sh_VerifyHash D s = hsv_VerifyHash (THashH (de_tx D)) (marshal_Header (de_tx D) (sh_Header s)) (sh_HSV s)"

definition sh_ComputeHash :: "db_env \<Rightarrow> SignedHeader \<Rightarrow> SignedHeader \<times> (verifier_error, unit) res" where
  "sh_ComputeHash D s =
     (case hsv_SetHash (THashH (de_tx D)) (marshal_Header (de_tx D) (sh_Header s)) (sh_HSV s) of
        (i, r) \<Rightarrow> (s \<lparr> sh_HSV := i \<rparr>, r))"

definition sblock_PackAndSignBlock ::
    "db_env \<Rightarrow> ('k \<Rightarrow> bytes \<Rightarrow> Signature option \<times> bool) \<Rightarrow> ('k \<Rightarrow> PublicKey) \<Rightarrow> 'k \<Rightarrow> Block \<Rightarrow>
     (db_error, Block) res" where
  "sblock_PackAndSignBlock D sign pub signer b =
     (case computeMerkleRoot D b of
        Ok r \<Rightarrow>
          (case sh_Sign D sign pub signer ((sb_SignedHeader b) \<lparr> sh_Header := (sblock_header b) \<lparr> hd_MerkleRoot := r \<rparr> \<rparr>) of
             (s, e) \<Rightarrow> (case db_verifier_res e of
                          Ok _ \<Rightarrow> Ok (b \<lparr> sb_SignedHeader := s \<rparr>) | Err e \<Rightarrow> Err e | Panic \<Rightarrow> Panic))
      | Err e \<Rightarrow> Err e
      | Panic \<Rightarrow> Panic)"

definition PackAsGenesis :: "db_env \<Rightarrow> Block \<Rightarrow> (db_error, Block) res" where
  "PackAsGenesis D b =
     (case sh_ComputeHash D (sb_SignedHeader b) of
        (s, e) \<Rightarrow> (case db_verifier_res e of Ok _ \<Rightarrow> Ok (b \<lparr> sb_SignedHeader := s \<rparr>) | Err e \<Rightarrow> Err e | Panic \<Rightarrow> Panic))"

definition sblock_Verify :: "db_env \<Rightarrow> Block \<Rightarrow> (db_error, unit) res" where
  "sblock_Verify D b =
     (case computeMerkleRoot D b of
        Ok r \<Rightarrow> if r \<noteq> hd_MerkleRoot (sblock_header b) then Err ErrDBMerkleRoot
                else db_verifier_res (sh_Verify D (sb_SignedHeader b))
      | Err e \<Rightarrow> Err e
      | Panic \<Rightarrow> Panic)"

definition VerifyAsGenesis :: "db_env \<Rightarrow> Block \<Rightarrow> (db_error, unit) res" where
  "VerifyAsGenesis D b =
     (case nodeID_IsEmpty (Some (sblock_Producer b)) of
        Ok blank \<Rightarrow>
          if \<not> blank then Err ErrInvalidGenesis
          else if sblock_GenesisHash b \<noteq> zero_hash then Err ErrInvalidGenesis
          else if sblock_ParentHash b \<noteq> zero_hash then Err ErrInvalidGenesis
          else if hd_MerkleRoot (sblock_header b) \<noteq> zero_hash then Err ErrInvalidGenesis
          else db_verifier_res (sh_VerifyHash D (sb_SignedHeader b))
      | _ \<Rightarrow> Panic)"

section \<open>Signed messages verify\<close>

lemma hsv_sign_ok:
  assumes "\<And>h. \<exists>sig. sign k h = (Some sig, False) \<and> sv (Some sig) h (Some (pub k))" and "enc \<noteq> None"
  shows "\<exists>i. hsv_Sign T sign pub enc k ini = (i, Ok ()) \<and> hsv_Verify T sv enc i = Ok () \<and>
    hv_DataHash i = T (the enc) \<and> hv_Signee i = Some (pub k)"
  using assms(1) [of "T (the enc)"] assms(2)
  by (auto simp: hsv_Sign_def hsv_SetHash_def hsv_SignHash_def hsv_Verify_def hsv_VerifyHash_def hsv_VerifySignature_def)

lemma request_sign_ok:
  assumes "\<And>h. \<exists>sig. sign k h = (Some sig, False) \<and> sigVerify (de_tx D) (Some sig) h (Some (pub k))"
    and "\<And>p. marshal_RequestPayload D p \<noteq> None" and "\<And>h. marshal_RequestHeader D h \<noteq> None"
  shows "\<exists>r'. request_Sign D sign pub k r = (r', Ok ()) \<and> request_Verify D r' = Ok () \<and> req_Queries r' = req_Queries r \<and>
    hv_Signee (srq_HSV (req_Header r')) = Some (pub k)"
proof -
  obtain p where p: "marshal_RequestPayload D (req_Queries r) = Some p" using assms(2) by blast
  define h where "h = (req_Header r) \<lparr> srq_RequestHeader := (request_header r)
      \<lparr> rq_BatchCount := of_nat (length (req_Queries r)), rq_QueriesHash := THashH (de_tx D) p \<rparr> \<rparr>"
  obtain i where i: "hsv_Sign (THashH (de_tx D)) sign pub (marshal_RequestHeader D (srq_RequestHeader h)) k (srq_HSV h) = (i, Ok ())"
    "hsv_Verify (THashH (de_tx D)) (sigVerify (de_tx D)) (marshal_RequestHeader D (srq_RequestHeader h)) i = Ok ()"
    "hv_Signee i = Some (pub k)"
    using hsv_sign_ok [where sign = sign and k = k and pub = pub and sv = "sigVerify (de_tx D)" and ini = "srq_HSV h" and enc = "marshal_RequestHeader D (srq_RequestHeader h)", OF assms(1,3)]
    by blast
  have "request_Sign D sign pub k r = (r \<lparr> req_Header := h \<lparr> srq_HSV := i \<rparr> \<rparr>, Ok ())"
    using p i(1) by (simp add: request_Sign_def Let_def set_request_header_def buildHash_def srq_Sign_def h_def)
  moreover have "request_Verify D (r \<lparr> req_Header := h \<lparr> srq_HSV := i \<rparr> \<rparr>) = Ok ()"
    using p i(2) by (simp add: request_Verify_def verifyHash_def buildHash_def srq_Verify_def h_def)
  ultimately show ?thesis using i(3) by auto
qed

lemma computeMerkleRoot_Ok:
  "length (sblock_hashes b) \<le> 2 ^ 62 \<Longrightarrow> computeMerkleRoot D b = Ok (merkle_root (THashH (de_tx D)) (sblock_hashes b))"
  by (simp add: computeMerkleRoot_def merkle_array_root)

lemma sblock_pack_verify:
  assumes "\<And>h. \<exists>sig. sign k h = (Some sig, False) \<and> sigVerify (de_tx D) (Some sig) h (Some (pub k))"
    and "\<And>h. marshal_Header (de_tx D) h \<noteq> None" and "length (sblock_hashes b) \<le> 2 ^ 62"
  shows "\<exists>s. sblock_PackAndSignBlock D sign pub k b = Ok (b \<lparr> sb_SignedHeader := s \<rparr>) \<and>
    sblock_Verify D (b \<lparr> sb_SignedHeader := s \<rparr>) = Ok () \<and>
    sh_Header s = (sblock_header b) \<lparr> hd_MerkleRoot := merkle_root (THashH (de_tx D)) (sblock_hashes b) \<rparr>"
proof -
  let ?r = "merkle_root (THashH (de_tx D)) (sblock_hashes b)"
  let ?h = "(sblock_header b) \<lparr> hd_MerkleRoot := ?r \<rparr>"
  obtain i where i: "hsv_Sign (THashH (de_tx D)) sign pub (marshal_Header (de_tx D) ?h) k (sh_HSV (sb_SignedHeader b)) = (i, Ok ())"
    "hsv_Verify (THashH (de_tx D)) (sigVerify (de_tx D)) (marshal_Header (de_tx D) ?h) i = Ok ()"
    using hsv_sign_ok [where sign = sign and k = k and pub = pub and sv = "sigVerify (de_tx D)" and ini = "sh_HSV (sb_SignedHeader b)" and enc = "marshal_Header (de_tx D) ?h", OF assms(1,2)]
    by blast
  let ?s = "(sb_SignedHeader b) \<lparr> sh_Header := ?h, sh_HSV := i \<rparr>"
  have hs: "sblock_hashes (b \<lparr> sb_SignedHeader := ?s \<rparr>) = sblock_hashes b" by (simp add: sblock_hashes_def)
  have "sblock_PackAndSignBlock D sign pub k b = Ok (b \<lparr> sb_SignedHeader := ?s \<rparr>)"
    using i(1) by (simp add: sblock_PackAndSignBlock_def computeMerkleRoot_Ok [OF assms(3)] sh_Sign_def db_verifier_res_def)
  moreover have "sblock_Verify D (b \<lparr> sb_SignedHeader := ?s \<rparr>) = Ok ()"
    using i(2) computeMerkleRoot_Ok [of "b \<lparr> sb_SignedHeader := ?s \<rparr>" D] assms(3)
    by (simp add: sblock_Verify_def hs sh_Verify_def db_verifier_res_def)
  ultimately show ?thesis by (intro exI [of _ ?s]) simp
qed

text \<open>
  The check of a block reads its queries only through the stored hashes of their
  responses, and its failed requests and acknowledgements only through theirs.
\<close>

lemma sblock_Verify_hashes:
  "sblock_hashes b' = sblock_hashes b \<Longrightarrow> sb_SignedHeader b' = sb_SignedHeader b \<Longrightarrow> sblock_Verify D b' = sblock_Verify D b"
  by (simp add: sblock_Verify_def computeMerkleRoot_def cong: if_cong option.case_cong res.case_cong)
end
