(* ===== verification/Ack_Index.thy ===== *)
theory Ack_Index
  imports DB_Types
begin

text \<open>
  The index of responses that wait for their acknowledgement and of acknowledgements that
  wait for a block, \<open>sqlchain/ackindex.go\<close>, by the height of the request. Each operation is
  one step under its locks.
\<close>

section \<open>Heights\<close>

text \<open>A Go \<open>int32\<close> is an integer here; \<open>i32\<close> is the conversion to it, which wraps.\<close>

definition i32 :: "int \<Rightarrow> int" where
  "i32 x = sint (word_of_int x :: 32 word)"

lemma i32_id: "- (2 ^ 31) \<le> x \<Longrightarrow> x < 2 ^ 31 \<Longrightarrow> i32 x = x"
  by (simp add: i32_def sint_sbintrunc' signed_take_bit_int_eq_self)

lemma i32_i32_add: "i32 (i32 x + y) = i32 (x + y)"
  by (simp add: i32_def)

lemma i32_i32_diff: "i32 (i32 x - y) = i32 (x - y)"
  by (simp add: i32_def)

section \<open>The index of one height\<close>

record multiAckIndex =
  mi_respIndex :: "(QueryKey, SignedResponseHeader) gomap"
  mi_ackIndex :: "(QueryKey, SignedAckHeader) gomap"

record ackIndex =
  ai_hi :: "(int, multiAckIndex) gomap"
  ai_barrier :: int
  ai_multiIndexCount :: int
  ai_responseCount :: int
  ai_ackCount :: int

definition newAckIndex :: ackIndex where
  "newAckIndex = \<lparr> ai_hi = [], ai_barrier = 0, ai_multiIndexCount = 0, ai_responseCount = 0, ai_ackCount = 0 \<rparr>"

text \<open>An operation gives the index, the changes of the two counters and the result.\<close>

definition mi_addResponse :: "SignedResponseHeader \<Rightarrow> multiAckIndex \<Rightarrow> multiAckIndex \<times> int \<times> int \<times> (db_error, unit) res" where
  "mi_addResponse resp i =
     (let key = GetQueryKey (rs_Request (srs_ResponseHeader resp)) in
      case mget (mi_respIndex i) key of
        Some oresp \<Rightarrow>
          if srs_ResponseHash oresp \<noteq> srs_ResponseHash resp then (i, 0, 0, Err ErrResponseSeqNotMatch) else (i, 0, 0, Ok ())
      | None \<Rightarrow> (i \<lparr> mi_respIndex := mput key resp (mi_respIndex i) \<rparr>, 1, 0, Ok ()))"

text \<open>A response that does not match is reported, and the acknowledgement is registered all the same.\<close>

definition mi_register :: "SignedAckHeader \<Rightarrow> multiAckIndex \<Rightarrow> multiAckIndex \<times> int \<times> int \<times> (db_error, unit) res" where
  "mi_register ack i =
     (let key = ack_QueryKey ack in
      case mget (mi_respIndex i) key of
        None \<Rightarrow> (i, 0, 0, Err ErrQueryNotFound)
      | Some resp \<Rightarrow>
          (i \<lparr> mi_respIndex := mdel key (mi_respIndex i), mi_ackIndex := mput key ack (mi_ackIndex i) \<rparr>, -1, 1,
           if srs_ResponseHash resp \<noteq> ack_ResponseHash ack then Err ErrResponseSeqNotMatch else Ok ()))"

definition mi_remove :: "SignedAckHeader \<Rightarrow> multiAckIndex \<Rightarrow> multiAckIndex \<times> int \<times> int \<times> (db_error, unit) res" where
  "mi_remove ack i =
     (let key = ack_QueryKey ack in
      case mget (mi_respIndex i) key of
        Some _ \<Rightarrow> (i \<lparr> mi_respIndex := mdel key (mi_respIndex i) \<rparr>, -1, 0, Ok ())
      | None \<Rightarrow>
          (case mget (mi_ackIndex i) key of
             Some oack \<Rightarrow>
               if ack_Hash oack \<noteq> ack_Hash ack then (i, 0, 0, Err ErrMultipleAckOfSeqNo)
               else (i \<lparr> mi_ackIndex := mdel key (mi_ackIndex i) \<rparr>, 0, -1, Ok ())
           | None \<Rightarrow> (i, 0, 0, Err ErrQueryNotFound)))"

definition mi_acks :: "multiAckIndex \<Rightarrow> SignedAckHeader list" where
  "mi_acks i = map snd (mi_ackIndex i)"

section \<open>The index\<close>

definition empty_mi :: multiAckIndex where
  "empty_mi = \<lparr> mi_respIndex = [], mi_ackIndex = [] \<rparr>"

definition ai_load :: "int \<Rightarrow> ackIndex \<Rightarrow> ackIndex \<times> (db_error, multiAckIndex) res" where
  "ai_load h a =
     (if h < ai_barrier a then (a, Err ErrQueryExpired)
      else case mget (ai_hi a) h of
             Some mi \<Rightarrow> (a, Ok mi)
           | None \<Rightarrow>
               (a \<lparr> ai_hi := mput h empty_mi (ai_hi a), ai_multiIndexCount := i32 (ai_multiIndexCount a + 1) \<rparr>, Ok empty_mi))"

definition ai_update ::
    "(multiAckIndex \<Rightarrow> multiAckIndex \<times> int \<times> int \<times> (db_error, unit) res) \<Rightarrow> int \<Rightarrow> ackIndex \<Rightarrow> ackIndex \<times> (db_error, unit) res" where
  "ai_update f h a =
     (case ai_load h a of
        (a, Ok mi) \<Rightarrow>
          (case f mi of
             (mi, dr, da, r) \<Rightarrow>
               (a \<lparr> ai_hi := mput h mi (ai_hi a), ai_responseCount := i32 (ai_responseCount a + dr),
                    ai_ackCount := i32 (ai_ackCount a + da) \<rparr>, r))
      | (a, Err e) \<Rightarrow> (a, Err e)
      | (a, Panic) \<Rightarrow> (a, Panic))"

definition ai_addResponse :: "int \<Rightarrow> SignedResponseHeader \<Rightarrow> ackIndex \<Rightarrow> ackIndex \<times> (db_error, unit) res" where
  "ai_addResponse h resp = ai_update (mi_addResponse resp) h"

definition ai_register :: "int \<Rightarrow> SignedAckHeader \<Rightarrow> ackIndex \<Rightarrow> ackIndex \<times> (db_error, unit) res" where
  "ai_register h ack = ai_update (mi_register ack) h"

definition ai_remove :: "int \<Rightarrow> SignedAckHeader \<Rightarrow> ackIndex \<Rightarrow> ackIndex \<times> (db_error, unit) res" where
  "ai_remove h ack = ai_update (mi_remove ack) h"

text \<open>The loop from the barrier to the height; it ends for heights below the largest \<open>int32\<close>.\<close>

fun acks_loop :: "int list \<Rightarrow> ackIndex \<Rightarrow> SignedAckHeader list \<Rightarrow> ackIndex \<times> SignedAckHeader list" where
  "acks_loop [] a ret = (a, ret)"
| "acks_loop (x # xs) a ret =
     (case ai_load x a of
        (a, Ok mi) \<Rightarrow> acks_loop xs a (ret @ mi_acks mi)
      | (a, _) \<Rightarrow> acks_loop xs a ret)"

definition ai_acks :: "int \<Rightarrow> ackIndex \<Rightarrow> ackIndex \<times> SignedAckHeader list" where
  "ai_acks h a = acks_loop [ai_barrier a..h] a []"

definition ai_advance :: "int \<Rightarrow> ackIndex \<Rightarrow> ackIndex" where
  "ai_advance h a =
     (let xs = [ai_barrier a..h - 1];
          dl = List.map_filter (\<lambda>x. mget (ai_hi a) x) xs
      in a \<lparr> ai_hi := fold mdel xs (ai_hi a), ai_barrier := h,
             ai_responseCount := i32 (ai_responseCount a - int (sum_list (map (\<lambda>v. length (mi_respIndex v)) dl))),
             ai_ackCount := i32 (ai_ackCount a - int (sum_list (map (\<lambda>v. length (mi_ackIndex v)) dl))),
             ai_multiIndexCount := i32 (ai_multiIndexCount a - int (length dl)) \<rparr>)"

section \<open>The counters\<close>

definition wsum :: "('v \<Rightarrow> int) \<Rightarrow> ('k, 'v) gomap \<Rightarrow> int" where
  "wsum w m = sum_list (map (w \<circ> snd) m)"

definition wget :: "('v \<Rightarrow> int) \<Rightarrow> 'v option \<Rightarrow> int" where
  "wget w v = (case v of None \<Rightarrow> 0 | Some v \<Rightarrow> w v)"

lemma wsum_mput: "minv m \<Longrightarrow> wsum w (mput k v m) = wsum w m - wget w (mget m k) + w v"
  by (induction m) (auto simp: wsum_def wget_def)

lemma mdel_fresh: "mget m k = None \<Longrightarrow> mdel k m = m"
  by (induction m) (auto split: if_splits)

lemma wsum_mdel: "minv m \<Longrightarrow> wsum w (mdel k m) = wsum w m - wget w (mget m k)"
proof (induction m)
  case (Cons a m)
  then show ?case by (cases "fst a = k") (auto simp: wsum_def wget_def mdel_fresh map_of_eq_None_iff)
qed (simp add: wsum_def wget_def)

lemma wsum_length: "wsum (\<lambda>_. 1) m = int (length m)"
  by (induction m) (auto simp: wsum_def)

lemma wsum_fold_mdel:
  "minv m \<Longrightarrow> distinct xs \<Longrightarrow> wsum w (fold mdel xs m) = wsum w m - sum_list (map w (List.map_filter (mget m) xs))"
proof (induction xs arbitrary: m)
  case (Cons x xs)
  have e: "List.map_filter (mget (mdel x m)) xs = List.map_filter (mget m) xs"
    using Cons.prems(2) by (induction xs) (auto simp: map_filter_simps split: option.split)
  have "wsum w (fold mdel xs (mdel x m)) = wsum w (mdel x m) - sum_list (map w (List.map_filter (mget (mdel x m)) xs))"
    by (rule Cons.IH) (use Cons.prems in simp_all)
  then show ?case using Cons.prems unfolding e by (simp add: wsum_mdel wget_def map_filter_simps split: option.split)
qed (simp add: map_filter_simps)

lemma int_sum_list: "int (sum_list (map f xs)) = sum_list (map (\<lambda>x. int (f x)) xs)"
  by (induction xs) auto

lemma minv_fold_mdel: "minv m \<Longrightarrow> minv (fold mdel xs m)"
  by (rule gm.inv_fold_del)

definition mi_ok :: "multiAckIndex \<Rightarrow> bool" where
  "mi_ok i \<longleftrightarrow> minv (mi_respIndex i) \<and> minv (mi_ackIndex i)"

text \<open>
  No height is below the barrier, and the counts of heights and of responses are the
  numbers of entries, as far as 32 bits go. The count of acknowledgements is not: an
  acknowledgement that replaces another one is counted again.
\<close>

definition ai_ok :: "ackIndex \<Rightarrow> bool" where
  "ai_ok a \<longleftrightarrow>
     minv (ai_hi a) \<and> (\<forall>(x, mi) \<in> set (ai_hi a). ai_barrier a \<le> x \<and> mi_ok mi) \<and>
     ai_multiIndexCount a = i32 (int (length (ai_hi a))) \<and>
     ai_responseCount a = i32 (wsum (\<lambda>v. int (length (mi_respIndex v))) (ai_hi a))"

definition counted :: "(multiAckIndex \<Rightarrow> multiAckIndex \<times> int \<times> int \<times> (db_error, unit) res) \<Rightarrow> bool" where
  "counted f \<longleftrightarrow>
     (\<forall>i i' dr da r. mi_ok i \<and> f i = (i', dr, da, r) \<longrightarrow>
        mi_ok i' \<and> dr = int (length (mi_respIndex i')) - int (length (mi_respIndex i)))"

lemma size_mput: "minv m \<Longrightarrow> int (length (mput k v m)) = int (length m) + (if mget m k = None then 1 else 0)"
  using wsum_mput [of m "\<lambda>_. 1" k v] by (auto simp: wsum_length wget_def split: option.splits)

lemma size_mdel: "minv m \<Longrightarrow> int (length (mdel k m)) = int (length m) - (if mget m k = None then 0 else 1)"
  using wsum_mdel [of m "\<lambda>_. 1" k] by (auto simp: wsum_length wget_def split: option.splits)

lemma counted_ops: "counted (mi_addResponse resp)" "counted (mi_register ack)" "counted (mi_remove ack)"
  by (auto simp: counted_def mi_addResponse_def mi_register_def mi_remove_def mi_ok_def Let_def size_mput size_mdel
      split: option.splits if_splits)

lemma ai_load_ok:
  assumes "ai_ok a" and "ai_load h a = (a', r)"
  shows "ai_ok a' \<and> ai_barrier a' = ai_barrier a \<and> (\<forall>mi. r = Ok mi \<longrightarrow> mget (ai_hi a') h = Some mi \<and> mi_ok mi \<and> ai_barrier a \<le> h)"
proof (cases "h < ai_barrier a \<or> (\<exists>mi. mget (ai_hi a) h = Some mi)")
  case True
  then show ?thesis using assms by (auto simp: ai_load_def ai_ok_def dest: map_of_SomeD split: if_splits)
next
  case False
  then have "a' = a \<lparr> ai_hi := mput h empty_mi (ai_hi a), ai_multiIndexCount := i32 (ai_multiIndexCount a + 1) \<rparr>" "r = Ok empty_mi"
    using assms(2) by (auto simp: ai_load_def split: if_splits)
  then show ?thesis using assms(1) False
    by (auto simp: ai_ok_def set_mput wsum_mput wget_def size_mput empty_mi_def mi_ok_def i32_i32_add)
qed

lemma ai_update_ok:
  assumes "counted f" and "ai_ok a"
  shows "ai_ok (fst (ai_update f h a))"
proof -
  obtain a' r where l: "ai_load h a = (a', r)" by (cases "ai_load h a")
  note ok = ai_load_ok [OF assms(2) l]
  show ?thesis
  proof (cases r)
    case (Ok mi)
    obtain mi' dr da r' where f: "f mi = (mi', dr, da, r')" by (cases "f mi")
    have "mi_ok mi'" "dr = int (length (mi_respIndex mi')) - int (length (mi_respIndex mi))"
      using assms(1) f ok Ok unfolding counted_def by blast+
    moreover have "length (mput h mi' (ai_hi a')) = length (ai_hi a')" using ok Ok size_mput [of "ai_hi a'" h mi'] by (simp add: ai_ok_def)
    ultimately show ?thesis using l f ok Ok
      by (auto simp: ai_update_def ai_ok_def set_mput wsum_mput wget_def i32_i32_add add_diff_eq diff_add_eq)
  qed (use l ok in \<open>auto simp: ai_update_def\<close>)
qed

lemma acks_loop_ok: "ai_ok a \<Longrightarrow> ai_ok (fst (acks_loop xs a ret))"
proof (induction xs arbitrary: a ret)
  case (Cons x xs)
  obtain a' r where l: "ai_load x a = (a', r)" by (cases "ai_load x a")
  then show ?case using Cons ai_load_ok [OF Cons.prems l] by (cases r) auto
qed simp

lemma ai_advance_ok:
  assumes "ai_ok a"
  shows "ai_ok (ai_advance h a)"
proof -
  let ?xs = "[ai_barrier a..h - 1]"
  have m: "minv (ai_hi a)" using assms by (simp add: ai_ok_def)
  have "(x, mi) \<in> set (fold mdel ?xs (ai_hi a)) \<Longrightarrow> (x, mi) \<in> set (ai_hi a) \<and> x \<notin> set ?xs" for x mi
    using gm.get_fold_del [of ?xs "ai_hi a" x] minv_fold_mdel [OF m, of ?xs] m by (metis map_of_SomeD map_of_is_SomeI option.distinct(1))
  then have "\<forall>(x, mi) \<in> set (fold mdel ?xs (ai_hi a)). h \<le> x \<and> mi_ok mi" using assms by (force simp: ai_ok_def)
  moreover have "int (length (fold mdel ?xs (ai_hi a))) = int (length (ai_hi a)) - int (length (List.map_filter (mget (ai_hi a)) ?xs))"
    using wsum_fold_mdel [OF m, of ?xs "\<lambda>_. 1"] by (simp add: wsum_length sum_list_triv)
  ultimately show ?thesis using assms minv_fold_mdel [OF m] wsum_fold_mdel [OF m, of ?xs "\<lambda>v. int (length (mi_respIndex v))"]
    by (simp add: ai_ok_def ai_advance_def Let_def i32_i32_diff int_sum_list)
qed

text \<open>The acknowledgements of all heights up to the given one.\<close>

lemma acks_loop_set:
  assumes "\<forall>x \<in> set xs. ai_barrier a \<le> x"
  shows "set (snd (acks_loop xs a ret)) = set ret \<union> (\<Union>x \<in> set xs. \<Union>mi \<in> set_option (mget (ai_hi a) x). snd ` set (mi_ackIndex mi))"
  using assms
proof (induction xs arbitrary: a ret)
  case (Cons x xs)
  show ?case
  proof (cases "mget (ai_hi a) x")
    case None
    let ?a = "a \<lparr> ai_hi := mput x empty_mi (ai_hi a), ai_multiIndexCount := i32 (ai_multiIndexCount a + 1) \<rparr>"
    have "set (snd (acks_loop xs ?a ret)) = set ret \<union> (\<Union>y \<in> set xs. \<Union>mi \<in> set_option (mget (ai_hi ?a) y). snd ` set (mi_ackIndex mi))"
      by (rule Cons.IH) (use Cons.prems in simp)
    moreover have "acks_loop (x # xs) a ret = acks_loop xs ?a ret"
      using None Cons.prems by (simp add: ai_load_def mi_acks_def empty_mi_def)
    moreover have "(\<Union>mi \<in> set_option (mget (ai_hi ?a) y). snd ` set (mi_ackIndex mi)) = (\<Union>mi \<in> set_option (mget (ai_hi a) y). snd ` set (mi_ackIndex mi))" for y
      using None by (auto simp: empty_mi_def)
    ultimately show ?thesis using None by simp
  next
    case (Some mi)
    have "set (snd (acks_loop xs a (ret @ mi_acks mi))) =
        set (ret @ mi_acks mi) \<union> (\<Union>y \<in> set xs. \<Union>mi \<in> set_option (mget (ai_hi a) y). snd ` set (mi_ackIndex mi))"
      by (rule Cons.IH) (use Cons.prems in simp)
    then show ?thesis using Some Cons.prems by (auto simp: ai_load_def mi_acks_def)
  qed
qed simp

lemma ai_acks_set:
  "ack \<in> set (snd (ai_acks h a)) \<longleftrightarrow>
     (\<exists>x mi. ai_barrier a \<le> x \<and> x \<le> h \<and> mget (ai_hi a) x = Some mi \<and> ack \<in> snd ` set (mi_ackIndex mi))"
proof -
  have "set (snd (ai_acks h a)) = (\<Union>x \<in> {ai_barrier a..h}. \<Union>mi \<in> set_option (mget (ai_hi a) x). snd ` set (mi_ackIndex mi))"
    using acks_loop_set [of "[ai_barrier a..h]" a "[]"] by (simp add: ai_acks_def)
  then show ?thesis by (simp add: Bex_def)
qed

text \<open>An operation on the index of a height that is not expired.\<close>

definition mi_at :: "int \<Rightarrow> ackIndex \<Rightarrow> multiAckIndex" where
  "mi_at h a = (case mget (ai_hi a) h of Some mi \<Rightarrow> mi | None \<Rightarrow> empty_mi)"

lemma ai_update_at:
  assumes "ai_barrier a \<le> h" and "f (mi_at h a) = (mi, dr, da, r)"
  shows "snd (ai_update f h a) = r \<and> mget (ai_hi (fst (ai_update f h a))) h = Some mi \<and> ai_barrier (fst (ai_update f h a)) = ai_barrier a \<and>
    mi_at h (fst (ai_update f h a)) = mi"
  using assms by (auto simp: ai_update_def ai_load_def mi_at_def split: option.splits)

section \<open>Properties\<close>

text \<open>
  C24: The index stays well-formed: every operation keeps one entry per height and per
  query, no height below the barrier, and the exact counts of heights and of waiting
  responses.
\<close>

theorem ack_index_invariant:
  "ai_ok newAckIndex \<and>
   (ai_ok a \<longrightarrow> ai_ok (fst (ai_addResponse h resp a)) \<and> ai_ok (fst (ai_register h ack a)) \<and> ai_ok (fst (ai_remove h ack a)) \<and>
      ai_ok (fst (ai_acks h a)) \<and> ai_ok (ai_advance h a))"
  by (simp add: ai_addResponse_def ai_register_def ai_remove_def ai_acks_def ai_update_ok counted_ops acks_loop_ok ai_advance_ok)
    (simp add: ai_ok_def newAckIndex_def wsum_def i32_def)

text \<open>
  C39: An acknowledgement is packed twice. When the acknowledgement of a query arrives
  before the block with the query is produced, that block contains both. Pushing the block
  adds the response of the query to the index again, and the removal of the
  acknowledgement then removes only this response: the acknowledgement is among those of
  the next block as well.
\<close>

theorem ack_packed_twice:
  assumes "ai_barrier a \<le> h" and "h \<le> h'" and "mget (mi_respIndex (mi_at h a)) (ack_QueryKey ack) = None"
    and "ack_QueryKey ack = GetQueryKey (rs_Request (srs_ResponseHeader resp))" and "srs_ResponseHash resp = ack_ResponseHash ack"
    and "ai_addResponse h resp a = (b, r1)" and "ai_register h ack b = (c, r2)"
    and "ai_addResponse h resp c = (d, r3)" and "ai_remove h ack d = (e, r4)"
  shows "r1 = Ok () \<and> r2 = Ok () \<and> r3 = Ok () \<and> r4 = Ok () \<and>
    ack \<in> set (snd (ai_acks h' c)) \<and> ack \<in> set (snd (ai_acks h' e))"
proof -
  let ?k = "ack_QueryKey ack" and ?i = "mi_at h a"
  let ?b = "?i \<lparr> mi_respIndex := mput ?k resp (mi_respIndex ?i) \<rparr>"
  let ?c = "?b \<lparr> mi_respIndex := mdel ?k (mi_respIndex ?b), mi_ackIndex := mput ?k ack (mi_ackIndex ?b) \<rparr>"
  let ?d = "?c \<lparr> mi_respIndex := mput ?k resp (mi_respIndex ?c) \<rparr>"
  let ?e = "?d \<lparr> mi_respIndex := mdel ?k (mi_respIndex ?d) \<rparr>"
  have b: "r1 = Ok ()" "mi_at h b = ?b" "ai_barrier b = ai_barrier a"
    using ai_update_at [OF assms(1), of "mi_addResponse resp" ?b 1 0 "Ok ()"] assms(3,4,6)
    by (simp_all add: ai_addResponse_def mi_addResponse_def Let_def)
  have c: "r2 = Ok ()" "mi_at h c = ?c" "ai_barrier c = ai_barrier a" "mget (ai_hi c) h = Some ?c"
    using ai_update_at [of b h "mi_register ack" ?c "-1" 1 "Ok ()"] b assms(1,5,7)
    by (simp_all add: ai_register_def mi_register_def Let_def)
  have d: "r3 = Ok ()" "mi_at h d = ?d" "ai_barrier d = ai_barrier a"
    using ai_update_at [of c h "mi_addResponse resp" ?d 1 0 "Ok ()"] c(2,3) assms(1,4,8)
    by (simp_all add: ai_addResponse_def mi_addResponse_def Let_def)
  have e: "r4 = Ok ()" "ai_barrier e = ai_barrier a" "mget (ai_hi e) h = Some ?e"
    using ai_update_at [of d h "mi_remove ack" ?e "-1" 0 "Ok ()"] d(2,3) assms(1,9)
    by (simp_all add: ai_remove_def mi_remove_def Let_def)
  have mem: "ack \<in> snd ` set (mput ?k ack m)" for m :: "(QueryKey, SignedAckHeader) gomap"
    using map_of_SomeD [of "mput ?k ack m" ?k ack] by (force simp: image_iff)
  have "ack \<in> set (snd (ai_acks h' c))"
    unfolding ai_acks_set using c(3,4) assms(1,2) mem by (intro exI [of _ h] exI [of _ ?c]) simp
  moreover have "ack \<in> set (snd (ai_acks h' e))"
    unfolding ai_acks_set using e(2,3) assms(1,2) mem by (intro exI [of _ h] exI [of _ ?e]) simp
  ultimately show ?thesis using b(1) c(1) d(1) e(1) by simp
qed

text \<open>
  C40: An acknowledgement for another response is reported and registered. The error for a
  response hash that does not match does not end the operation: the response is dropped and
  the acknowledgement is among those of the next block.
\<close>

theorem mismatched_ack_registered:
  assumes "ai_barrier a \<le> h" and "h \<le> h'" and "mget (mi_respIndex (mi_at h a)) (ack_QueryKey ack) = Some resp"
    and "srs_ResponseHash resp \<noteq> ack_ResponseHash ack" and "ai_register h ack a = (b, r)"
  shows "r = Err ErrResponseSeqNotMatch \<and> mget (mi_respIndex (mi_at h b)) (ack_QueryKey ack) = None \<and> ack \<in> set (snd (ai_acks h' b))"
proof -
  let ?k = "ack_QueryKey ack" and ?i = "mi_at h a"
  let ?b = "?i \<lparr> mi_respIndex := mdel ?k (mi_respIndex ?i), mi_ackIndex := mput ?k ack (mi_ackIndex ?i) \<rparr>"
  have b: "r = Err ErrResponseSeqNotMatch" "mi_at h b = ?b" "ai_barrier b = ai_barrier a" "mget (ai_hi b) h = Some ?b"
    using ai_update_at [OF assms(1), of "mi_register ack" ?b "-1" 1 "Err ErrResponseSeqNotMatch"] assms(3-5)
    by (simp_all add: ai_register_def mi_register_def Let_def)
  have "ack \<in> snd ` set (mput ?k ack (mi_ackIndex ?i))"
    using map_of_SomeD [of "mput ?k ack (mi_ackIndex ?i)" ?k ack] by (force simp: image_iff)
  then have "ack \<in> set (snd (ai_acks h' b))" unfolding ai_acks_set using b(3,4) assms(1,2) by (intro exI [of _ h] exI [of _ ?b]) simp
  then show ?thesis using b(1,2) by simp
qed

definition example_resp :: "hash \<Rightarrow> SignedResponseHeader" where
  "example_resp h =
     \<lparr> srs_ResponseHeader =
         \<lparr> rs_Request = \<lparr> rq_QueryType = ReadQuery, rq_NodeID = '''', rq_DatabaseID = '''', rq_ConnectionID = 1, rq_SeqNo = 1,
             rq_Timestamp = 0, rq_BatchCount = 1, rq_QueriesHash = [] \<rparr>,
           rs_RequestHash = [], rs_NodeID = '''', rs_Timestamp = 0, rs_RowCount = 0, rs_LogOffset = 0, rs_LastInsertID = 0,
           rs_AffectedRows = 0, rs_PayloadHash = [], rs_ResponseAccount = [] \<rparr>,
       srs_ResponseHash = h \<rparr>"

definition example_ack :: SignedAckHeader where
  "example_ack =
     \<lparr> sak_AckHeader = \<lparr> ak_Response = srs_ResponseHeader (example_resp [1]), ak_ResponseHash = [1], ak_NodeID = '''', ak_Timestamp = 0 \<rparr>,
       sak_HSV = \<lparr> hv_DataHash = [2], hv_Signee = None, hv_Signature = None \<rparr> \<rparr>"

lemma example_ack_key:
  "ack_QueryKey example_ack = GetQueryKey (rs_Request (srs_ResponseHeader (example_resp h)))" "ack_ResponseHash example_ack = [1]"
  by (simp_all add: ack_QueryKey_def ack_ResponseHash_def example_ack_def example_resp_def)

theorem ack_index_invariant_witness: "ai_ok (fst (ai_addResponse 3 (example_resp [1]) newAckIndex))"
  using ack_index_invariant [of newAckIndex 3 "example_resp [1]"] by blast

abbreviation example_pushed :: ackIndex where
  "example_pushed \<equiv> fst (ai_remove 0 example_ack (fst (ai_addResponse 0 (example_resp [1])
     (fst (ai_register 0 example_ack (fst (ai_addResponse 0 (example_resp [1]) newAckIndex)))))))"

theorem ack_packed_twice_witness: "example_ack \<in> set (snd (ai_acks 1 example_pushed))"
proof -
  have f: "mget (mi_respIndex (mi_at 0 newAckIndex)) (ack_QueryKey example_ack) = None"
    by (simp add: mi_at_def newAckIndex_def empty_mi_def)
  have h: "srs_ResponseHash (example_resp [1]) = ack_ResponseHash example_ack" by (simp add: example_ack_key example_resp_def)
  have "ai_barrier newAckIndex \<le> 0" by (simp add: newAckIndex_def)
  from ack_packed_twice [OF this _ f example_ack_key(1) h, of 1] show ?thesis by (metis prod.collapse zero_le_one)
qed

theorem mismatched_ack_registered_witness:
  "snd (ai_register 0 example_ack (fst (ai_addResponse 0 (example_resp [7]) newAckIndex))) = Err ErrResponseSeqNotMatch \<and>
   example_ack \<in> set (snd (ai_acks 1 (fst (ai_register 0 example_ack (fst (ai_addResponse 0 (example_resp [7]) newAckIndex))))))"
proof -
  let ?a = "fst (ai_addResponse 0 (example_resp [7]) newAckIndex)"
  have "ai_barrier ?a \<le> 0" "mget (mi_respIndex (mi_at 0 ?a)) (ack_QueryKey example_ack) = Some (example_resp [7])"
    "srs_ResponseHash (example_resp [7]) \<noteq> ack_ResponseHash example_ack"
    by (simp_all add: ai_addResponse_def ai_update_def ai_load_def mi_addResponse_def mi_at_def newAckIndex_def empty_mi_def Let_def
        ack_QueryKey_def ack_ResponseHash_def example_ack_def example_resp_def)
  from mismatched_ack_registered [OF this(1) _ this(2,3), of 1] show ?thesis by (metis prod.collapse zero_le_one)
qed

end
