(* ===== verification/SQL_Runtime.thy ===== *)
theory SQL_Runtime
  imports Ack_Index
begin

text \<open>
  The nodes of the chain of a database (\<open>sqlchain/blockindex.go\<close>) and the runtime of the
  chain (\<open>sqlchain/runtime.go\<close>): heights and turns, the list of peers, the head. Heights,
  counts and turns are the \<open>int32\<close> of the code, integers that wrap by \<open>i32\<close>.
\<close>

section \<open>Nodes\<close>

text \<open>
  A node keeps its parent. The block a node may hold is kept by the chain, under the hash of
  the node.
\<close>

datatype sqlNode =
  SqlNode (sn_parent: "sqlNode option") (sn_hash: hash) (sn_height: int) (sn_count: int)

definition newBlockNodeEx :: "int \<Rightarrow> hash \<Rightarrow> sqlNode option \<Rightarrow> sqlNode" where
  "newBlockNodeEx height h parent =
     SqlNode parent h height (case parent of None \<Rightarrow> 0 | Some p \<Rightarrow> i32 (sn_count p + 1))"

text \<open>The walk towards the genesis block until a condition no longer holds.\<close>

fun node_walk :: "(sqlNode \<Rightarrow> bool) \<Rightarrow> sqlNode \<Rightarrow> sqlNode option" where
  "node_walk P (SqlNode p h ht c) =
     (if P (SqlNode p h ht c) then (case p of None \<Rightarrow> None | Some q \<Rightarrow> node_walk P q)
      else Some (SqlNode p h ht c))"

definition sn_ancestor :: "sqlNode \<Rightarrow> int \<Rightarrow> sqlNode option" where
  "sn_ancestor n height =
     (if height < 0 \<or> height > sn_height n then None
      else case node_walk (\<lambda>a. sn_height a > height) n of
             None \<Rightarrow> None
           | Some a \<Rightarrow> if sn_height a < height then None else Some a)"

definition sn_ancestorByCount :: "sqlNode \<Rightarrow> int \<Rightarrow> sqlNode option" where
  "sn_ancestorByCount n count =
     (if count < 0 \<or> count > sn_count n then None
      else case node_walk (\<lambda>a. sn_count a > count) n of
             None \<Rightarrow> None
           | Some a \<Rightarrow> if sn_count a < count then None else Some a)"

definition heightToKey :: "int \<Rightarrow> bytes" where
  "heightToKey h = PutUint 4 (word_of_int h :: u32)"

definition sn_indexKey :: "sqlNode \<Rightarrow> bytes" where
  "sn_indexKey n = heightToKey (sn_height n) @ sn_hash n"

section \<open>The runtime\<close>

record headState =
  hs_node :: "sqlNode option"
  hs_Head :: hash
  hs_Height :: int

text \<open>Durations are integers in nanoseconds; \<open>i64\<close> is the wrapping of an \<open>int64\<close>.\<close>

definition i64 :: "int \<Rightarrow> int" where
  "i64 x = sint (word_of_int x :: 64 word)"

record sqlRuntime =
  rn_chainInitTime :: Time
  rn_genesisHash :: hash
  rn_period :: int
  rn_tick :: int
  rn_queryTTL :: int
  rn_blockCacheTTL :: int
  rn_peers :: PeersHeader
  rn_server :: NodeID
  rn_index :: int
  rn_total :: int
  rn_nextTurn :: int
  rn_head :: headState
  rn_lastBillingHeight :: int
  rn_offset :: int

record sqlConfig =
  sf_DatabaseID :: DatabaseID
  sf_DataFile :: string
  sf_Genesis :: "Block option"
  sf_Period :: int
  sf_Tick :: int
  sf_Peers :: PeersHeader
  sf_Server :: NodeID
  sf_QueryTTL :: int
  sf_BlockCacheTTL :: int
  sf_UpdatePeriod :: u64
  sf_LastBillingHeight :: int
  sf_IsolationLevel :: int

definition blockCacheTTLRequired :: "sqlConfig \<Rightarrow> int" where
  "blockCacheTTLRequired c = (if sf_BlockCacheTTL c < 0 then 0 else sf_BlockCacheTTL c)"

definition setGenesis :: "Block \<Rightarrow> sqlRuntime \<Rightarrow> sqlRuntime" where
  "setGenesis b r =
     r \<lparr> rn_chainInitTime := sblock_Timestamp b, rn_genesisHash := sblock_BlockHash b,
         rn_head := \<lparr> hs_node = None, hs_Head = sblock_GenesisHash b, hs_Height = 0 \<rparr> \<rparr>"

definition peer_index :: "PeersHeader \<Rightarrow> NodeID \<Rightarrow> int" where
  "peer_index ps server = (case peers_Find ps server of Some i \<Rightarrow> i32 (int i) | None \<Rightarrow> -1)"

text \<open>The initial time of a runtime without a genesis block is the zero time.\<close>

definition newRunTime :: "Time \<Rightarrow> sqlConfig \<Rightarrow> sqlRuntime" where
  "newRunTime zero_time c =
     (let r = \<lparr> rn_chainInitTime = zero_time, rn_genesisHash = zero_hash, rn_period = sf_Period c, rn_tick = sf_Tick c,
                rn_queryTTL = sf_QueryTTL c, rn_blockCacheTTL = blockCacheTTLRequired c, rn_peers = sf_Peers c,
                rn_server = sf_Server c, rn_index = peer_index (sf_Peers c) (sf_Server c),
                rn_total = i32 (int (length (ph_Servers (sf_Peers c)))), rn_nextTurn = 1,
                rn_head = \<lparr> hs_node = None, hs_Head = zero_hash, hs_Height = 0 \<rparr>,
                rn_lastBillingHeight = sf_LastBillingHeight c, rn_offset = 0 \<rparr>
      in case sf_Genesis c of None \<Rightarrow> r | Some b \<Rightarrow> setGenesis b r)"

definition getMinValidHeight :: "sqlRuntime \<Rightarrow> int" where
  "getMinValidHeight r = i32 (rn_nextTurn r - rn_queryTTL r)"

text \<open>The division truncates towards zero; the period is not zero.\<close>

definition getHeightFromTime :: "sqlRuntime \<Rightarrow> Time \<Rightarrow> int" where
  "getHeightFromTime r t = i32 (time_Sub t (rn_chainInitTime r) sdiv rn_period r)"

definition queryTimeIsExpired :: "sqlRuntime \<Rightarrow> Time \<Rightarrow> bool" where
  "queryTimeIsExpired r t \<longleftrightarrow> getHeightFromTime r t < getMinValidHeight r"

definition updateTime :: "Time \<Rightarrow> Time \<Rightarrow> sqlRuntime \<Rightarrow> sqlRuntime" where
  "updateTime clock now r = r \<lparr> rn_offset := time_Sub now clock \<rparr>"

definition rt_now :: "Time \<Rightarrow> sqlRuntime \<Rightarrow> Time" where
  "rt_now clock r = clock + rn_offset r"

definition IncNextTurn :: "sqlRuntime \<Rightarrow> sqlRuntime" where
  "IncNextTurn r = r \<lparr> rn_nextTurn := i32 (rn_nextTurn r + 1) \<rparr>"

definition SetNextTurn :: "int \<Rightarrow> sqlRuntime \<Rightarrow> sqlRuntime" where
  "SetNextTurn turn r = r \<lparr> rn_nextTurn := turn \<rparr>"

definition nextTick :: "Time \<Rightarrow> sqlRuntime \<Rightarrow> Time \<times> int" where
  "nextTick clock r =
     (let t = rt_now clock r;
          d = time_Sub (rn_chainInitTime r + i64 (rn_nextTurn r * rn_period r)) t
      in (t, if d > rn_tick r then rn_tick r else d))"

definition rt_updatePeers :: "PeersHeader \<Rightarrow> sqlRuntime \<Rightarrow> sqlRuntime" where
  "rt_updatePeers ps r =
     (case peers_Find ps (rn_server r) of
        Some i \<Rightarrow> r \<lparr> rn_index := i32 (int i), rn_total := i32 (int (length (ph_Servers ps))), rn_peers := ps,
                      rn_server := ph_Servers ps ! i \<rparr>
      | None \<Rightarrow> r \<lparr> rn_index := -1, rn_total := 0, rn_peers := (rn_peers r) \<lparr> ph_Servers := [] \<rparr> \<rparr>)"

definition sql_isMyTurn :: "sqlRuntime \<Rightarrow> bool" where
  "sql_isMyTurn r \<longleftrightarrow> (if rn_total r \<le> 0 then False else rn_nextTurn r smod rn_total r = rn_index r)"

section \<open>Walks\<close>

text \<open>The node and its ancestors, the genesis block last.\<close>

fun node_path :: "sqlNode \<Rightarrow> sqlNode list" where
  "node_path (SqlNode p h ht c) = SqlNode p h ht c # (case p of None \<Rightarrow> [] | Some q \<Rightarrow> node_path q)"

lemma node_path_Cons: "node_path n = n # (case sn_parent n of None \<Rightarrow> [] | Some p \<Rightarrow> node_path p)"
  by (cases n) (auto split: option.splits)

lemma node_path_new [simp]:
  "node_path (newBlockNodeEx h x p) = newBlockNodeEx h x p # (case p of None \<Rightarrow> [] | Some q \<Rightarrow> node_path q)"
  by (simp add: newBlockNodeEx_def split: option.splits)

lemma newBlockNodeEx_sel [simp]:
  "sn_parent (newBlockNodeEx h x p) = p" "sn_hash (newBlockNodeEx h x p) = x" "sn_height (newBlockNodeEx h x p) = h"
  by (simp_all add: newBlockNodeEx_def)

lemma node_walk_find: "node_walk P n = find (\<lambda>a. \<not> P a) (node_path n)"
  by (induction P n rule: node_walk.induct) (auto split: option.splits)

end
