(* ===== verification/Query_Sanitizer.thy ===== *)
theory Query_Sanitizer
  imports DB_Types Nodes
begin

text \<open>
  The rewriting and checking of a query before it is executed,
  \<open>xenomint/query_sanitizer.go\<close>. The SQL parser is a parameter; of its syntax trees the
  model has what the code looks at. Text is taken to be ASCII where letters are folded.
\<close>

section \<open>Syntax trees\<close>

datatype val_type = StrVal | ValArg | OtherVal

datatype sql_node =
    SQLVal val_type string
  | TimeExpr "sql_node list"
  | FuncExpr string "sql_node list"
  | OtherNode "sql_node list"

text \<open>A data definition has the defaults of its columns, the new name and the name of the table.\<close>

datatype sql_statement =
    Show string bool string sql_node
  | DDL "sql_node option list option" string string sql_node
  | OtherStatement sql_node

fun statement_node :: "sql_statement \<Rightarrow> sql_node" where
  "statement_node (Show _ _ _ n) = n"
| "statement_node (DDL _ _ _ n) = n"
| "statement_node (OtherStatement n) = n"

text \<open>
  \<open>sqlparser.Walk\<close>: the visitor is called on every node; the nodes below are visited when
  it says so, and an error ends the walk.
\<close>

fun walk_node :: "(sql_node \<Rightarrow> (db_error, bool) res) \<Rightarrow> sql_node \<Rightarrow> (db_error, unit) res"
  and walk_nodes :: "(sql_node \<Rightarrow> (db_error, bool) res) \<Rightarrow> sql_node list \<Rightarrow> (db_error, unit) res" where
  "walk_node visit (SQLVal t v) =
     (case visit (SQLVal t v) of Ok _ \<Rightarrow> Ok () | Err e \<Rightarrow> Err e | Panic \<Rightarrow> Panic)"
| "walk_node visit (TimeExpr ns) =
     (case visit (TimeExpr ns) of Ok b \<Rightarrow> if b then walk_nodes visit ns else Ok () | Err e \<Rightarrow> Err e | Panic \<Rightarrow> Panic)"
| "walk_node visit (FuncExpr f ns) =
     (case visit (FuncExpr f ns) of Ok b \<Rightarrow> if b then walk_nodes visit ns else Ok () | Err e \<Rightarrow> Err e | Panic \<Rightarrow> Panic)"
| "walk_node visit (OtherNode ns) =
     (case visit (OtherNode ns) of Ok b \<Rightarrow> if b then walk_nodes visit ns else Ok () | Err e \<Rightarrow> Err e | Panic \<Rightarrow> Panic)"
| "walk_nodes visit [] = Ok ()"
| "walk_nodes visit (n # ns) =
     (case walk_node visit n of Ok _ \<Rightarrow> walk_nodes visit ns | Err e \<Rightarrow> Err e | Panic \<Rightarrow> Panic)"

section \<open>The check\<close>

definition ToLower :: "string \<Rightarrow> string" where
  "ToLower s = map char_ToLower s"

definition HasPrefix :: "string \<Rightarrow> string \<Rightarrow> bool" where
  "HasPrefix s p \<longleftrightarrow> take (length p) s = p"

fun strings_Contains :: "string \<Rightarrow> string \<Rightarrow> bool" where
  "strings_Contains [] p \<longleftrightarrow> p = []"
| "strings_Contains (c # s) p \<longleftrightarrow> HasPrefix (c # s) p \<or> strings_Contains s p"

text \<open>\<open>sanitizeFunctionMap\<close>: no entry, a nil map of arguments, or a map of arguments.\<close>

definition sanitizeFunctionMap :: "string \<Rightarrow> string list option option" where
  "sanitizeFunctionMap f =
     (if f \<in> set [''load_extension'', ''unlikely'', ''likelihood'', ''likely'', ''affinity'', ''typeof'', ''random'',
                  ''randomblob'', ''unknown''] then Some None
      else if f \<in> set [''date'', ''time'', ''datetime'', ''julianday'', ''strftime''] then Some (Some [''now'', ''localtime''])
      else None)"

definition sanitize_args :: "string list \<Rightarrow> sql_node \<Rightarrow> (db_error, bool) res" where
  "sanitize_args args n =
     (case n of
        SQLVal StrVal v \<Rightarrow> if ToLower v \<in> set args then Err ErrStatefulQueryParts else Ok False
      | _ \<Rightarrow> Ok True)"

text \<open>The walk over the arguments of a function is given no nodes.\<close>

definition sanitize_visit :: "sql_node \<Rightarrow> (db_error, bool) res" where
  "sanitize_visit n =
     (case n of
        SQLVal t v \<Rightarrow>
          if t = ValArg \<and> ToLower v = ToLower ''CURRENT_TIMESTAMP'' then Err ErrStatefulQueryParts else Ok True
      | TimeExpr _ \<Rightarrow> Err ErrStatefulQueryParts
      | FuncExpr f _ \<Rightarrow>
          if HasPrefix (ToLower f) ''sqlite'' then Err ErrStatefulQueryParts
          else (case sanitizeFunctionMap (ToLower f) of
                  None \<Rightarrow> Ok True
                | Some None \<Rightarrow> Err ErrStatefulQueryParts
                | Some (Some args) \<Rightarrow>
                    (case walk_nodes (sanitize_args args) [] of Ok _ \<Rightarrow> Ok False | Err e \<Rightarrow> Err e | Panic \<Rightarrow> Panic))
      | OtherNode _ \<Rightarrow> Ok True)"

text \<open>What a \<open>SHOW\<close> statement becomes; \<open>query\<close> is left as it is for another type.\<close>

definition newline :: string where "newline = [CHR 0x0A]"

definition show_query :: "string \<Rightarrow> bool \<Rightarrow> string \<Rightarrow> string \<Rightarrow> string" where
  \<open>show_query t showCreate onTable query =
     (if t = ''table'' then
        if showCreate then
          ''SELECT sql'' @ newline @ ''FROM sqlite_master'' @ newline @ ''WHERE type = "table" AND tbl_name = "'' @ onTable @ ''"''
            @ newline @ [CHR 0x09] @ ''AND tbl_name NOT LIKE "sqlite%"''
        else ''PRAGMA table_info('' @ onTable @ '')''
      else if t = ''index'' then
        ''SELECT name'' @ newline @ ''FROM sqlite_master'' @ newline @ ''WHERE type = "index" AND tbl_name = "'' @ onTable @ ''"''
          @ newline @ [CHR 0x09] @ ''AND name NOT LIKE "sqlite%"''
      else if t = ''tables'' then ''SELECT name FROM sqlite_master WHERE type = "table" AND name NOT LIKE "sqlite%"''
      else query)\<close>

definition default_nodes :: "sql_node option list option \<Rightarrow> sql_node list" where
  "default_nodes spec = (case spec of None \<Rightarrow> [] | Some cols \<Rightarrow> List.map_filter id cols)"

fun sanitize_parts ::
    "(string \<times> sql_statement) list \<Rightarrow> string \<Rightarrow> bool \<Rightarrow> string list \<Rightarrow> (db_error, bool \<times> string list) res" where
  "sanitize_parts [] query containsDDL parts = Ok (containsDDL, parts)"
| "sanitize_parts ((part, stmt) # rest) query containsDDL parts =
     (case stmt of
        Show t showCreate onTable n \<Rightarrow>
          (let query = show_query t showCreate onTable query in
           case walk_nodes sanitize_visit [n] of
             Ok _ \<Rightarrow> sanitize_parts rest query containsDDL (parts @ [query]) | Err e \<Rightarrow> Err e | Panic \<Rightarrow> Panic)
      | DDL spec newName table n \<Rightarrow>
          if HasPrefix (ToLower newName) ''sqlite'' then Err ErrInvalidTableName
          else if HasPrefix (ToLower table) ''sqlite'' then Err ErrInvalidTableName
          else (case walk_nodes sanitize_visit (n # default_nodes spec) of
                  Ok _ \<Rightarrow> sanitize_parts rest query True (parts @ [part]) | Err e \<Rightarrow> Err e | Panic \<Rightarrow> Panic)
      | OtherStatement n \<Rightarrow>
          (case walk_nodes sanitize_visit [n] of
             Ok _ \<Rightarrow> sanitize_parts rest query containsDDL (parts @ [part]) | Err e \<Rightarrow> Err e | Panic \<Rightarrow> Panic))"

definition tx_keyword :: "string \<Rightarrow> bool" where
  "tx_keyword pattern =
     (let lower = ToLower pattern in
      strings_Contains lower ''begin'' \<or> strings_Contains lower ''rollback'' \<or> strings_Contains lower ''commit'')"

definition convertQueryAndBuildArgs ::
    "(string \<Rightarrow> (string \<times> sql_statement) list option) \<Rightarrow> DBQuery \<Rightarrow> (db_error, bool \<times> string \<times> NamedArg list) res" where
  "convertQueryAndBuildArgs parse q =
     (if tx_keyword (q_Pattern q) then Ok (False, q_Pattern q, [])
      else
        case parse (q_Pattern q) of
          None \<Rightarrow> Err ErrParseSQL
        | Some parts \<Rightarrow>
            (case sanitize_parts parts '''' False [] of
               Ok (ddl, ps) \<Rightarrow> Ok (ddl, strings_Join ps ''; '', q_Args q)
             | Err e \<Rightarrow> Err e
             | Panic \<Rightarrow> Panic))"

section \<open>What is accepted\<close>

text \<open>
  The nodes the walk comes to: it does not go below the functions of date and time, whose
  arguments are to be checked by a walk of their own.
\<close>

fun visited :: "sql_node \<Rightarrow> sql_node list" where
  "visited (SQLVal t v) = [SQLVal t v]"
| "visited (TimeExpr ns) = [TimeExpr ns]"
| "visited (FuncExpr f ns) =
     FuncExpr f ns # (if sanitizeFunctionMap (ToLower f) = None then concat (map visited ns) else [])"
| "visited (OtherNode ns) = OtherNode ns # concat (map visited ns)"

fun stateful :: "sql_node \<Rightarrow> bool" where
  "stateful (SQLVal t v) \<longleftrightarrow> t = ValArg \<and> ToLower v = ToLower ''CURRENT_TIMESTAMP''"
| "stateful (TimeExpr _) \<longleftrightarrow> True"
| "stateful (FuncExpr f _) \<longleftrightarrow> HasPrefix (ToLower f) ''sqlite'' \<or> sanitizeFunctionMap (ToLower f) = Some None"
| "stateful (OtherNode _) \<longleftrightarrow> False"

definition statement_nodes :: "sql_statement \<Rightarrow> sql_node list" where
  "statement_nodes s = statement_node s # (case s of DDL spec _ _ _ \<Rightarrow> default_nodes spec | _ \<Rightarrow> [])"

definition names_allowed :: "sql_statement \<Rightarrow> bool" where
  "names_allowed s \<longleftrightarrow>
     (case s of DDL _ newName table _ \<Rightarrow> \<not> HasPrefix (ToLower newName) ''sqlite'' \<and> \<not> HasPrefix (ToLower table) ''sqlite''
      | _ \<Rightarrow> True)"

definition statement_allowed :: "sql_statement \<Rightarrow> bool" where
  "statement_allowed s \<longleftrightarrow> names_allowed s \<and> (\<forall>n \<in> set (statement_nodes s). \<forall>m \<in> set (visited n). \<not> stateful m)"

lemma walk_sanitize:
  "walk_node sanitize_visit n = (if \<exists>m \<in> set (visited n). stateful m then Err ErrStatefulQueryParts else Ok ())"
  "walk_nodes sanitize_visit ns = (if \<exists>n \<in> set ns. \<exists>m \<in> set (visited n). stateful m then Err ErrStatefulQueryParts else Ok ())"
  by (induction "sanitize_visit" n and "sanitize_visit" ns rule: walk_node_walk_nodes.induct)
    (auto simp: sanitize_visit_def split: option.splits)

lemma sanitize_parts_ok:
  "is_Ok (sanitize_parts parts query ddl ps) \<longleftrightarrow> (\<forall>(part, s) \<in> set parts. statement_allowed s)"
proof (induction parts query ddl ps rule: sanitize_parts.induct)
  case (2 part stmt rest query containsDDL parts)
  then show ?case
    by (cases stmt) (auto simp: statement_allowed_def statement_nodes_def names_allowed_def walk_sanitize Let_def split: if_splits)
qed simp

text \<open>
  C25: Which queries pass the check. A query whose text contains one of the words begin,
  rollback and commit, in any place, is passed on as it is and without its arguments. Any
  other one passes exactly when it parses, no definition uses a reserved name, and no
  visited node is stateful; the arguments of the functions of date and time are never
  visited, so that a call with the argument 'now' passes.
\<close>

theorem sanitizer_accepts:
  "(tx_keyword (q_Pattern q) \<longrightarrow> convertQueryAndBuildArgs parse q = Ok (False, q_Pattern q, [])) \<and>
   (\<not> tx_keyword (q_Pattern q) \<longrightarrow>
      (is_Ok (convertQueryAndBuildArgs parse q) \<longleftrightarrow>
        (\<exists>parts. parse (q_Pattern q) = Some parts \<and> (\<forall>(part, s) \<in> set parts. statement_allowed s))) \<and>
      (parse (q_Pattern q) = Some [(p, OtherStatement (OtherNode [FuncExpr f ns]))] \<and>
          f \<in> {''date'', ''time'', ''datetime'', ''julianday'', ''strftime''} \<longrightarrow>
        convertQueryAndBuildArgs parse q = Ok (False, p, q_Args q)))"
proof (intro conjI impI)
  assume kw: "\<not> tx_keyword (q_Pattern q)"
  show "is_Ok (convertQueryAndBuildArgs parse q) \<longleftrightarrow>
      (\<exists>parts. parse (q_Pattern q) = Some parts \<and> (\<forall>(part, s) \<in> set parts. statement_allowed s))"
  proof (cases "parse (q_Pattern q)")
    case (Some parts)
    have "is_Ok (convertQueryAndBuildArgs parse q) = is_Ok (sanitize_parts parts '''' False [])"
      using kw Some by (auto simp: convertQueryAndBuildArgs_def split: res.splits)
    with Some show ?thesis by (simp add: sanitize_parts_ok)
  qed (simp add: kw convertQueryAndBuildArgs_def)
  assume "parse (q_Pattern q) = Some [(p, OtherStatement (OtherNode [FuncExpr f ns]))] \<and>
    f \<in> {''date'', ''time'', ''datetime'', ''julianday'', ''strftime''}"
  then show "convertQueryAndBuildArgs parse q = Ok (False, p, q_Args q)"
    using kw by (auto simp: convertQueryAndBuildArgs_def sanitize_visit_def sanitizeFunctionMap_def HasPrefix_def
        ToLower_def char_ToLower_def of_char_def)
qed (simp add: convertQueryAndBuildArgs_def)

definition example_parse :: "string \<Rightarrow> (string \<times> sql_statement) list option" where
  "example_parse s = Some [(s, OtherStatement (OtherNode [FuncExpr ''date'' [SQLVal StrVal ''now'']]))]"

definition example_query :: "string \<Rightarrow> DBQuery" where
  "example_query s = \<lparr> q_Pattern = s, q_Args = [\<lparr> na_Name = ''a'', na_Value = VInt 1 \<rparr>] \<rparr>"

theorem sanitizer_accepts_witness:
  "convertQueryAndBuildArgs example_parse (example_query ''SELECT d'') = Ok (False, ''SELECT d'', q_Args (example_query ''SELECT d'')) \<and>
   convertQueryAndBuildArgs example_parse (example_query ''SELECT commits'') = Ok (False, ''SELECT commits'', []) \<and>
   \<not> is_Ok (convertQueryAndBuildArgs (\<lambda>s. None) (example_query ''SELECT d''))"
proof -
  have k: "\<not> tx_keyword ''SELECT d''" "tx_keyword ''SELECT commits''" by code_simp+
  show ?thesis
    using k sanitizer_accepts [of "example_query ''SELECT d''" example_parse "''SELECT d''" "''date''" "[SQLVal StrVal ''now'']"]
      sanitizer_accepts [of "example_query ''SELECT commits''" example_parse]
      sanitizer_accepts [of "example_query ''SELECT d''" "\<lambda>s. None"]
    by (simp add: example_query_def example_parse_def)
qed

end
