(* ===== verification/Xeno_State.thy ===== *)
theory Xeno_State
  imports Query_Sanitizer
begin

text \<open>
  The state of a database on a miner: the pool of queries that wait for a block
  (\<open>xenomint/pool.go\<close>) and the execution of requests on the storage (\<open>xenomint/state.go\<close>).
  The SQL engine is a parameter: a state with the statements that are sent to it.
\<close>

section \<open>The pool of queries\<close>

text \<open>
  A tracker is shared between the pool and the caller that sets its response later, so the
  trackers are kept in a store and referred to by their index.
\<close>

record QueryTracker =
  qt_Req :: Request
  qt_Resp :: "Response option"

type_synonym tracker_ref = nat

record pool =
  pl_failed :: "(hash, Request) gomap"
  pl_reads :: "(hash, tracker_ref) gomap"
  pl_queries :: "tracker_ref list"
  pl_index :: "(u64, int) gomap"
  pl_failedRequestCount :: u32
  pl_trackerCount :: u32

definition newPool :: pool where
  "newPool = \<lparr> pl_failed = [], pl_reads = [], pl_queries = [], pl_index = [], pl_failedRequestCount = 0, pl_trackerCount = 0 \<rparr>"

definition pool_enqueue :: "u64 \<Rightarrow> tracker_ref \<Rightarrow> pool \<Rightarrow> pool" where
  "pool_enqueue sp q p =
     (let pos = int (length (pl_queries p)); qs = pl_queries p @ [q] in
      p \<lparr> pl_queries := qs, pl_index := mput sp pos (pl_index p), pl_trackerCount := of_nat (length qs) \<rparr>)"

definition pool_enqueueRead :: "hash \<Rightarrow> tracker_ref \<Rightarrow> pool \<Rightarrow> pool" where
  "pool_enqueueRead h q p = p \<lparr> pl_reads := mput h q (pl_reads p) \<rparr>"

definition pool_setFailed :: "Request \<Rightarrow> pool \<Rightarrow> pool" where
  "pool_setFailed req p =
     (let f = mput (request_Hash req) req (pl_failed p) in
      p \<lparr> pl_failed := f, pl_failedRequestCount := of_nat (length f) \<rparr>)"

definition pool_failedList :: "pool \<Rightarrow> Request list" where
  "pool_failedList p = map snd (pl_failed p)"

definition pool_removeFailed :: "Request \<Rightarrow> pool \<Rightarrow> pool" where
  "pool_removeFailed req p =
     (let f = mdel (request_Hash req) (pl_failed p) in
      p \<lparr> pl_failed := f, pl_failedRequestCount := of_nat (length f) \<rparr>)"

definition pool_match :: "QueryTracker list \<Rightarrow> u64 \<Rightarrow> Request \<Rightarrow> pool \<Rightarrow> (db_error, bool) res" where
  "pool_match trackers sp req p =
     (case mget (pl_index p) sp of
        None \<Rightarrow> Ok False
      | Some pos \<Rightarrow>
          if pos < 0 \<or> pos \<ge> int (length (pl_queries p)) then Panic
          else Ok (request_Hash (qt_Req (trackers ! (pl_queries p ! nat pos))) = request_Hash req))"

definition pool_matchLast :: "u64 \<Rightarrow> pool \<Rightarrow> bool" where
  "pool_matchLast sp p =
     (case mget (pl_index p) sp of None \<Rightarrow> False | Some pos \<Rightarrow> pos = int (length (pl_queries p)) - 1)"

text \<open>The positions of the later queries move down; slicing beyond the end panics.\<close>

definition pool_truncate :: "u64 \<Rightarrow> pool \<Rightarrow> (db_error, pool) res" where
  "pool_truncate sp p =
     (case mget (pl_index p) sp of
        None \<Rightarrow> Ok p
      | Some pos \<Rightarrow>
          if pos + 1 < 0 \<or> pos + 1 > int (length (pl_queries p)) then Panic
          else
            let qs = drop (nat (pos + 1)) (pl_queries p) in
            Ok (p \<lparr> pl_index := map (\<lambda>(k, v). (k, v - (pos + 1))) (filter (\<lambda>(k, v). k > sp) (pl_index p)),
                    pl_queries := qs, pl_trackerCount := of_nat (length qs) \<rparr>))"

section \<open>The state\<close>

datatype sql_reader = HandlerReader | DirtyReader | CommittedReader

datatype sql_handler = TxHandler | DBHandler

text \<open>
  \<open>xe_exec\<close> executes a statement on the handler and gives the affected rows and the last
  insert id; the other fields begin, commit and roll back a transaction, query, open a read
  transaction and close the storage. A failure is \<open>None\<close> or \<open>False\<close>.
\<close>

record 'db xeno_env =
  xe_parse :: "string \<Rightarrow> (string \<times> sql_statement) list option"
  xe_exec :: "string \<Rightarrow> NamedArg list \<Rightarrow> 'db \<Rightarrow> 'db \<times> (u64 \<times> u64) option"
  xe_begin :: "'db \<Rightarrow> 'db option"
  xe_commit :: "'db \<Rightarrow> 'db option"
  xe_rollback :: "'db \<Rightarrow> 'db option"
  xe_query :: "sql_reader \<Rightarrow> string \<Rightarrow> NamedArg list \<Rightarrow> 'db \<Rightarrow> (string list \<times> string list \<times> driver_Value list list) option"
  xe_open_read :: "sql_reader \<Rightarrow> 'db \<Rightarrow> bool"
  xe_close :: "'db \<Rightarrow> 'db \<times> bool"

definition LevelReadUncommitted :: int where "LevelReadUncommitted = 1"

record 'db State =
  st_level :: int
  st_strg :: 'db
  st_pool :: pool
  st_closed :: bool
  st_nodeID :: NodeID
  st_handler :: sql_handler
  st_maxTx :: u64
  st_lastCommitPoint :: u64
  st_current :: u64
  st_hasSchemaChange :: bool
  st_trackers :: "QueryTracker list"

text \<open>A failure to open or to commit a transaction ends the process; it is \<open>Panic\<close> here.\<close>

definition openHandler :: "'db xeno_env \<Rightarrow> 'db State \<Rightarrow> 'db State \<times> (db_error, unit) res" where
  "openHandler X s =
     (if st_level s = LevelReadUncommitted
      then (case xe_begin X (st_strg s) of
              None \<Rightarrow> (s, Panic)
            | Some db \<Rightarrow> (s \<lparr> st_strg := db, st_handler := TxHandler \<rparr>, Ok ()))
      else (s \<lparr> st_handler := DBHandler \<rparr>, Ok ()))"

definition NewState :: "'db xeno_env \<Rightarrow> int \<Rightarrow> NodeID \<Rightarrow> 'db \<Rightarrow> 'db State \<times> (db_error, unit) res" where
  "NewState X level nodeID strg =
     openHandler X \<lparr> st_level = level, st_strg = strg, st_pool = newPool, st_closed = False, st_nodeID = nodeID,
       st_handler = DBHandler, st_maxTx = 100, st_lastCommitPoint = 0, st_current = 0, st_hasSchemaChange = False,
       st_trackers = [] \<rparr>"

definition state_reader :: "'db State \<Rightarrow> sql_reader" where
  "state_reader s = (if st_level s = LevelReadUncommitted then DirtyReader else CommittedReader)"

definition SetSeq :: "u64 \<Rightarrow> 'db State \<Rightarrow> 'db State" where
  "SetSeq i s = s \<lparr> st_current := i \<rparr>"

definition commitHandler :: "'db xeno_env \<Rightarrow> 'db State \<Rightarrow> 'db State \<times> (db_error, unit) res" where
  "commitHandler X s =
     (case (if st_handler s = TxHandler then xe_commit X (st_strg s) else Some (st_strg s)) of
        None \<Rightarrow> (s, Panic)
      | Some db \<Rightarrow> (s \<lparr> st_strg := db, st_hasSchemaChange := False, st_lastCommitPoint := st_current s \<rparr>, Ok ()))"

definition rollbackHandler :: "'db xeno_env \<Rightarrow> 'db State \<Rightarrow> 'db State \<times> (db_error, unit) res" where
  "rollbackHandler X s =
     (case (if st_handler s = TxHandler then xe_rollback X (st_strg s) else Some (st_strg s)) of
        None \<Rightarrow> (s, Panic)
      | Some db \<Rightarrow> (s \<lparr> st_strg := db, st_hasSchemaChange := False \<rparr>, Ok ()))"

definition flushHandler :: "'db xeno_env \<Rightarrow> 'db State \<Rightarrow> 'db State \<times> (db_error, unit) res" where
  "flushHandler X s = (case commitHandler X s of (s, Ok _) \<Rightarrow> openHandler X s | r \<Rightarrow> r)"

definition state_Close :: "'db xeno_env \<Rightarrow> bool \<Rightarrow> 'db State \<Rightarrow> 'db State \<times> (db_error, unit) res" where
  "state_Close X commit s =
     (if st_closed s then (s, Ok ())
      else
        case (if commit then commitHandler X s else rollbackHandler X s) of
          (s, Ok _) \<Rightarrow>
            (case xe_close X (st_strg s) of
               (db, ok) \<Rightarrow> if ok then (s \<lparr> st_strg := db, st_closed := True \<rparr>, Ok ())
                           else (s \<lparr> st_strg := db \<rparr>, Err ErrStorageClose))
        | r \<Rightarrow> r)"

text \<open>\<open>s.handler.Exec\<close> with the result ignored.\<close>

definition handler_Exec :: "'db xeno_env \<Rightarrow> string \<Rightarrow> NamedArg list \<Rightarrow> 'db State \<Rightarrow> 'db State \<times> (u64 \<times> u64) option" where
  "handler_Exec X q args s = (case xe_exec X q args (st_strg s) of (db, r) \<Rightarrow> (s \<lparr> st_strg := db \<rparr>, r))"

section \<open>Reading\<close>

definition readSingle ::
    "'db xeno_env \<Rightarrow> sql_reader \<Rightarrow> DBQuery \<Rightarrow> 'db \<Rightarrow> (db_error, string list \<times> string list \<times> driver_Value list list) res" where
  "readSingle X rd q db =
     (case convertQueryAndBuildArgs (xe_parse X) q of
        Ok (ddl, pattern, args) \<Rightarrow> (case xe_query X rd pattern args db of None \<Rightarrow> Err ErrExecSQL | Some r \<Rightarrow> Ok r)
      | Err e \<Rightarrow> Err e
      | Panic \<Rightarrow> Panic)"

text \<open>Every query is run; the columns and rows are those of the last one.\<close>

fun read_loop ::
    "'db xeno_env \<Rightarrow> sql_reader \<Rightarrow> DBQuery list \<Rightarrow> 'db \<Rightarrow> string list \<times> string list \<times> driver_Value list list \<Rightarrow>
     (db_error, string list \<times> string list \<times> driver_Value list list) res" where
  "read_loop X rd [] db prev = Ok prev"
| "read_loop X rd (q # qs) db prev =
     (case readSingle X rd q db of Ok r \<Rightarrow> read_loop X rd qs db r | Err e \<Rightarrow> Err e | Panic \<Rightarrow> Panic)"

definition alloc_tracker :: "QueryTracker \<Rightarrow> 'db State \<Rightarrow> 'db State \<times> tracker_ref" where
  "alloc_tracker t s = (s \<lparr> st_trackers := st_trackers s @ [t] \<rparr>, length (st_trackers s))"

definition UpdateResp :: "tracker_ref \<Rightarrow> Response \<Rightarrow> 'db State \<Rightarrow> 'db State" where
  "UpdateResp q resp s = s \<lparr> st_trackers := (st_trackers s)[q := (st_trackers s ! q) \<lparr> qt_Resp := Some resp \<rparr>] \<rparr>"

definition tracker_Ready :: "QueryTracker \<Rightarrow> bool" where
  "tracker_Ready q \<longleftrightarrow> qt_Resp q \<noteq> None"

definition mk_response ::
    "'db State \<Rightarrow> Request \<Rightarrow> Time \<Rightarrow> u64 \<Rightarrow> u64 \<Rightarrow> u64 \<Rightarrow> u64 \<Rightarrow> ResponsePayload \<Rightarrow> Response" where
  "mk_response s req now rows offset affected lastInsertID payload =
     \<lparr> resp_Header =
         \<lparr> srs_ResponseHeader =
             \<lparr> rs_Request = request_header req, rs_RequestHash = request_Hash req, rs_NodeID = st_nodeID s, rs_Timestamp = now,
               rs_RowCount = rows, rs_LogOffset = offset, rs_LastInsertID = lastInsertID, rs_AffectedRows = affected,
               rs_PayloadHash = zero_hash, rs_ResponseAccount = zero_hash \<rparr>,
           srs_ResponseHash = zero_hash \<rparr>,
       resp_Payload = payload \<rparr>"

text \<open>
  The mutex of the state is not reentrant: \<open>Lock\<close> while the same goroutine holds it never
  returns, which is \<open>None\<close>.
\<close>

definition state_Lock :: "bool \<Rightarrow> unit option" where
  "state_Lock held = (if held then None else Some ())"

definition readTx :: "'db xeno_env \<Rightarrow> Time \<Rightarrow> Request \<Rightarrow> 'db State \<Rightarrow>
    ('db State \<times> (db_error, tracker_ref \<times> Response) res) option" where
  "readTx X now req s =
     (let id = st_current s;
          held = (st_level s = LevelReadUncommitted \<and> st_hasSchemaChange s);
          rd = (if held then HandlerReader else state_reader s)
      in
        if \<not> held \<and> \<not> xe_open_read X rd (st_strg s) then Some (s, Err ErrExecSQL)
        else
          case read_loop X rd (req_Queries req) (st_strg s) ([], [], []) of
            Err e \<Rightarrow>
              (case state_Lock held of
                 None \<Rightarrow> None
               | Some _ \<Rightarrow> Some (s \<lparr> st_pool := pool_setFailed req (st_pool s) \<rparr>, Err e))
          | Panic \<Rightarrow> Some (s, Panic)
          | Ok (cnames, ctypes, rows) \<Rightarrow>
              (case state_Lock held of
                 None \<Rightarrow> None
               | Some _ \<Rightarrow>
                   (case alloc_tracker \<lparr> qt_Req = req, qt_Resp = None \<rparr> s of
                      (s, ref) \<Rightarrow>
                        Some (s \<lparr> st_pool := pool_enqueueRead (request_Hash req) ref (st_pool s) \<rparr>,
                          Ok (ref, mk_response s req now (of_nat (length rows)) id 0 0
                                     \<lparr> rp_Columns = cnames, rp_DeclTypes = ctypes, rp_Rows = rows \<rparr>)))))"

text \<open>\<open>readWithContext\<close>, the read without a transaction of its own.\<close>

definition readWithContext :: "'db xeno_env \<Rightarrow> Time \<Rightarrow> Request \<Rightarrow> 'db State \<Rightarrow>
    'db State \<times> (db_error, tracker_ref \<times> Response) res" where
  "readWithContext X now req s =
     (case read_loop X (state_reader s) (req_Queries req) (st_strg s) ([], [], []) of
        Err e \<Rightarrow> (s \<lparr> st_pool := pool_setFailed req (st_pool s) \<rparr>, Err e)
      | Panic \<Rightarrow> (s, Panic)
      | Ok (cnames, ctypes, rows) \<Rightarrow>
          (case alloc_tracker \<lparr> qt_Req = req, qt_Resp = None \<rparr> s of
             (s, ref) \<Rightarrow>
               (s \<lparr> st_pool := pool_enqueueRead (request_Hash req) ref (st_pool s) \<rparr>,
                Ok (ref, mk_response s req now (of_nat (length rows)) (st_current s) 0 0
                           \<lparr> rp_Columns = cnames, rp_DeclTypes = ctypes, rp_Rows = rows \<rparr>))))"

section \<open>Writing\<close>

definition writeSingle :: "'db xeno_env \<Rightarrow> DBQuery \<Rightarrow> 'db State \<Rightarrow> 'db State \<times> (db_error, u64 \<times> u64) res" where
  "writeSingle X q s =
     (case convertQueryAndBuildArgs (xe_parse X) q of
        Err e \<Rightarrow> (s, Err e)
      | Panic \<Rightarrow> (s, Panic)
      | Ok (containsDDL, pattern, args) \<Rightarrow>
          (case handler_Exec X pattern args s of
             (s, None) \<Rightarrow> (s, Err ErrExecSQL)
           | (s, Some r) \<Rightarrow>
               (s \<lparr> st_hasSchemaChange := (containsDDL \<or> st_hasSchemaChange s), st_current := st_current s + 1 \<rparr>, Ok r)))"

text \<open>The affected rows are added up, the last insert id is that of the last statement.\<close>

fun write_loop :: "'db xeno_env \<Rightarrow> DBQuery list \<Rightarrow> u64 \<times> u64 \<Rightarrow> 'db State \<Rightarrow> 'db State \<times> (db_error, u64 \<times> u64) res" where
  "write_loop X [] r s = (s, Ok r)"
| "write_loop X (q # qs) r s =
     (case writeSingle X q s of
        (s, Ok (affected, insertID)) \<Rightarrow> write_loop X qs (fst r + affected, insertID) s
      | (s, Err e) \<Rightarrow> (s, Err e)
      | (s, Panic) \<Rightarrow> (s, Panic))"

definition savepoint_sql :: string where \<open>savepoint_sql = ''SAVEPOINT "?"''\<close>
definition rollback_to_sql :: string where \<open>rollback_to_sql = ''ROLLBACK TO "?"''\<close>
definition release_sql :: string where \<open>release_sql = ''RELEASE SAVEPOINT "?"''\<close>
definition rollback_sql :: string where "rollback_sql = ''ROLLBACK''"

definition seq_args :: "u64 \<Rightarrow> NamedArg list" where
  "seq_args n = [\<lparr> na_Name = '''', na_Value = VInt (uint n) \<rparr>]"

text \<open>Commit when the ongoing transaction is too large or the schema has changed.\<close>

definition flush_if_needed :: "'db xeno_env \<Rightarrow> 'db State \<Rightarrow> 'db State \<times> (db_error, unit) res" where
  "flush_if_needed X s =
     (if st_current s - st_lastCommitPoint s > st_maxTx s \<or> st_hasSchemaChange s then flushHandler X s else (s, Ok ()))"

text \<open>
  The savepoint around several statements, where there is a transaction: setting and
  releasing it, and the statement that is deferred to the end of \<open>write\<close>.
\<close>

definition has_savepoint :: "Request \<Rightarrow> 'db State \<Rightarrow> bool" where
  "has_savepoint req s \<longleftrightarrow> length (req_Queries req) > 1 \<and> st_level s = LevelReadUncommitted"

definition set_savepoint :: "'db xeno_env \<Rightarrow> Request \<Rightarrow> u64 \<Rightarrow> 'db State \<Rightarrow> 'db State \<times> (u64 \<times> u64) option" where
  "set_savepoint X req lastSeq s =
     (if has_savepoint req s then handler_Exec X savepoint_sql (seq_args lastSeq) s else (s, Some (0, 0)))"

definition release_savepoint :: "'db xeno_env \<Rightarrow> Request \<Rightarrow> u64 \<Rightarrow> 'db State \<Rightarrow> 'db State \<times> (u64 \<times> u64) option" where
  "release_savepoint X req lastSeq s =
     (if has_savepoint req s then handler_Exec X release_sql (seq_args lastSeq) s else (s, Some (0, 0)))"

definition write_deferred :: "'db xeno_env \<Rightarrow> Request \<Rightarrow> u64 \<Rightarrow> 'db State \<Rightarrow> 'db State" where
  "write_deferred X req lastSeq s =
     (if has_savepoint req s then fst (handler_Exec X rollback_to_sql (seq_args lastSeq) s)
      else if st_level s \<noteq> LevelReadUncommitted then fst (handler_Exec X rollback_sql [] s)
      else s)"

text \<open>
  The function literal of \<open>write\<close> between the savepoint and the deferred statements.
\<close>

definition write_body ::
    "'db xeno_env \<Rightarrow> Request \<Rightarrow> bool \<Rightarrow> tracker_ref \<Rightarrow> u64 \<Rightarrow> 'db State \<Rightarrow> 'db State \<times> (db_error, u64 \<times> u64) res" where
  "write_body X req isLeader ref lastSeq s =
     (case write_loop X (req_Queries req) (0, 0) s of
        (s, Err e) \<Rightarrow> (s \<lparr> st_pool := pool_setFailed req (st_pool s) \<rparr>, Err e)
      | (s, Panic) \<Rightarrow> (s, Panic)
      | (s, Ok r) \<Rightarrow>
          (case release_savepoint X req lastSeq s of
             (s, None) \<Rightarrow> (s, Err ErrExecSQL)
           | (s, Some _) \<Rightarrow>
               (case flush_if_needed X s of
                  (s, Ok _) \<Rightarrow>
                    ((if isLeader then s \<lparr> st_pool := pool_enqueue lastSeq ref (st_pool s) \<rparr> else s), Ok r)
                | (s, Err e) \<Rightarrow> (s, Err e)
                | (s, Panic) \<Rightarrow> (s, Panic))))"

definition state_write ::
    "'db xeno_env \<Rightarrow> Time \<Rightarrow> Request \<Rightarrow> bool \<Rightarrow> 'db State \<Rightarrow> 'db State \<times> (db_error, tracker_ref \<times> Response) res" where
  "state_write X now req isLeader s =
     (case alloc_tracker \<lparr> qt_Req = req, qt_Resp = None \<rparr> s of
        (s, ref) \<Rightarrow>
          let lastSeq = st_current s in
          case set_savepoint X req lastSeq s of
            (s, None) \<Rightarrow> (s, Err ErrExecSQL)
          | (s, Some _) \<Rightarrow>
              (case write_body X req isLeader ref lastSeq s of
                 (s, r) \<Rightarrow>
                   let s = write_deferred X req lastSeq s in
                   case r of
                     Ok (affected, insertID) \<Rightarrow>
                       (s, Ok (ref, mk_response s req now 0 lastSeq affected insertID
                                      \<lparr> rp_Columns = [], rp_DeclTypes = [], rp_Rows = [] \<rparr>))
                   | Err e \<Rightarrow> (s, Err e)
                   | Panic \<Rightarrow> (s, Panic)))"

definition QueryWithContext :: "'db xeno_env \<Rightarrow> Time \<Rightarrow> Request \<Rightarrow> bool \<Rightarrow> 'db State \<Rightarrow>
    ('db State \<times> (db_error, tracker_ref \<times> Response) res) option" where
  "QueryWithContext X now req isLeader s =
     (if rq_QueryType (request_header req) = ReadQuery then readTx X now req s
      else if rq_QueryType (request_header req) = WriteQuery then Some (state_write X now req isLeader s)
      else Some (s, Err ErrInvalidRequest))"

section \<open>Replaying\<close>

definition state_replay :: "'db xeno_env \<Rightarrow> Request \<Rightarrow> Response \<Rightarrow> 'db State \<Rightarrow> 'db State \<times> (db_error, unit) res" where
  "state_replay X req resp s =
     (case alloc_tracker \<lparr> qt_Req = req, qt_Resp = Some resp \<rparr> s of
        (s, ref) \<Rightarrow>
          let lastSeq = st_current s in
          if rs_LogOffset (srs_ResponseHeader (resp_Header resp)) \<noteq> lastSeq then (s, Err ErrQueryConflict)
          else
            case write_loop X (req_Queries req) (0, 0) s of
              (s, Err e) \<Rightarrow> (s, Err e)
            | (s, Panic) \<Rightarrow> (s, Panic)
            | (s, Ok _) \<Rightarrow>
                (case flush_if_needed X s of
                   (s, Ok _) \<Rightarrow> (s \<lparr> st_pool := pool_enqueue lastSeq ref (st_pool s) \<rparr>, Ok ())
                 | r \<Rightarrow> r))"

definition ReplayWithContext :: "'db xeno_env \<Rightarrow> Request \<Rightarrow> Response \<Rightarrow> 'db State \<Rightarrow> 'db State \<times> (db_error, unit) res" where
  "ReplayWithContext X req resp s =
     (if rq_QueryType (request_header req) = ReadQuery then (s, Ok ())
      else if rq_QueryType (request_header req) = WriteQuery then state_replay X req resp s
      else (s, Err ErrInvalidRequest))"

text \<open>
  The loop over the queries of a block; \<open>lastsp\<close> is the sequence number before the last
  write query that was looked at. The type of a query is checked before each statement.
\<close>

fun replay_txs :: "'db xeno_env \<Rightarrow> QueryAsTx list \<Rightarrow> u64 \<Rightarrow> 'db State \<Rightarrow> 'db State \<times> (db_error, u64) res" where
  "replay_txs X [] lastsp s = (s, Ok lastsp)"
| "replay_txs X (q # qs) lastsp s =
     (if rq_QueryType (request_header (qx_Request q)) = ReadQuery then replay_txs X qs lastsp s
      else
        case alloc_tracker \<lparr> qt_Req = qx_Request q,
                             qt_Resp = Some \<lparr> resp_Header = qx_Response q,
                                              resp_Payload = \<lparr> rp_Columns = [], rp_DeclTypes = [], rp_Rows = [] \<rparr> \<rparr> \<rparr> s of
          (s, ref) \<Rightarrow>
            let lastsp = st_current s; offset = rs_LogOffset (srs_ResponseHeader (qx_Response q)) in
            if offset > lastsp then (s, Err ErrMissingParent)
            else if offset < lastsp then replay_txs X qs lastsp s
            else if req_Queries (qx_Request q) \<noteq> [] \<and> rq_QueryType (request_header (qx_Request q)) \<noteq> WriteQuery
              then (s, Err ErrInvalidRequest)
            else
              case write_loop X (req_Queries (qx_Request q)) (0, 0) s of
                (s, Err e) \<Rightarrow> (s, Err e)
              | (s, Panic) \<Rightarrow> (s, Panic)
              | (s, Ok _) \<Rightarrow> replay_txs X qs lastsp (s \<lparr> st_pool := pool_enqueue lastsp ref (st_pool s) \<rparr>))"

definition ReplayBlockWithContext :: "'db xeno_env \<Rightarrow> Block \<Rightarrow> 'db State \<Rightarrow> 'db State \<times> (db_error, unit) res" where
  "ReplayBlockWithContext X block s =
     (case replay_txs X (sb_QueryTxs block) 0 s of
        (s, Err e) \<Rightarrow> (s, Err e)
      | (s, Panic) \<Rightarrow> (s, Panic)
      | (s, Ok lastsp) \<Rightarrow>
          (case flushHandler X s of
             (s, Ok _) \<Rightarrow>
               (let p = fold pool_removeFailed (sb_FailedReqs block) (st_pool s) in
                case pool_truncate lastsp p of
                  Ok p \<Rightarrow> (s \<lparr> st_pool := p \<rparr>, Ok ())
                | Err e \<Rightarrow> (s \<lparr> st_pool := p \<rparr>, Err e)
                | Panic \<Rightarrow> (s \<lparr> st_pool := p \<rparr>, Panic))
           | r \<Rightarrow> r))"

section \<open>Committing\<close>

definition state_commit :: "'db xeno_env \<Rightarrow> 'db State \<Rightarrow> 'db State \<times> (db_error, unit) res" where
  "state_commit X s =
     (case flushHandler X s of (s, Ok _) \<Rightarrow> (s \<lparr> st_pool := newPool \<rparr>, Ok ()) | r \<Rightarrow> r)"

text \<open>The pooled queries: the writes in their order, then the reads.\<close>

definition CommitEx :: "'db xeno_env \<Rightarrow> 'db State \<Rightarrow> 'db State \<times> (db_error, Request list \<times> tracker_ref list) res" where
  "CommitEx X s =
     (case flushHandler X s of
        (s, Ok _) \<Rightarrow>
          (s \<lparr> st_pool := newPool \<rparr>,
           Ok (pool_failedList (st_pool s), pl_queries (st_pool s) @ map snd (pl_reads (st_pool s))))
      | (s, Err e) \<Rightarrow> (s, Err e)
      | (s, Panic) \<Rightarrow> (s, Panic))"

end
