(* ===== verification/SQL_Chain.thy ===== *)
theory SQL_Chain
  imports SQL_Runtime Xeno_State Kayak_Wal
begin

text \<open>
  The chain of a database, \<open>sqlchain/chain.go\<close> and \<open>sqlchain/rpc.go\<close>: starting from the stored
  blocks, receiving and producing blocks, acknowledged queries, turns and billing. LevelDB and
  the encodings are parameters. Each operation is one step.
\<close>

section \<open>The chain\<close>

text \<open>
  \<open>se_open\<close> opens the data file, \<open>se_localKey\<close> is the private key of the node, \<open>zero_time\<close> the
  zero value of a time, and \<open>se_HSPDefaultVersion\<close> the version of the generated encoding of a
  billing header.
\<close>

record ('db, 'l) sqlchain_env =
  se_db :: db_env
  se_xeno :: "'db xeno_env"
  se_ldb :: "'l leveldb"
  se_sign :: "bytes \<Rightarrow> bytes \<Rightarrow> Signature option \<times> bool"
  se_pub :: "bytes \<Rightarrow> PublicKey"
  enc_block :: "Block \<Rightarrow> bytes option"
  dec_block :: "bytes \<Rightarrow> Block option"
  enc_ack :: "SignedAckHeader \<Rightarrow> bytes option"
  dec_ack :: "bytes \<Rightarrow> SignedAckHeader option"
  dec_resp :: "bytes \<Rightarrow> SignedResponseHeader option"
  se_open :: "string \<Rightarrow> 'db option"
  se_localKey :: "bytes option"
  zero_time :: Time
  se_HSPDefaultVersion :: int

text \<open>\<open>sq_cache\<close> has the blocks that the nodes keep in memory, by the hash of the node.\<close>

record ('db, 'l) SqlChain =
  sq_bi :: "(hash, sqlNode) gomap"
  sq_ai :: ackIndex
  sq_st :: "'db State"
  sq_rt :: sqlRuntime
  sq_cache :: "(hash, Block) gomap"
  sq_blkDB :: 'l
  sq_txDB :: 'l
  sq_databaseID :: DatabaseID
  sq_updatePeriod :: u64
  sq_pk :: bytes
  sq_addr :: AccountAddress
  sq_metaBlockIndex :: bytes
  sq_metaResponseIndex :: bytes
  sq_metaAckIndex :: bytes
  sq_cachedBlockCount :: int

definition metaBlockIndex :: bytes where "metaBlockIndex = string_bytes ''BLCK''"
definition metaResponseIndex :: bytes where "metaResponseIndex = string_bytes ''RESP''"
definition metaAckIndex :: bytes where "metaAckIndex = string_bytes ''QACK''"

abbreviation sq_head :: "('db, 'l) SqlChain \<Rightarrow> headState" where
  "sq_head c \<equiv> rn_head (sq_rt c)"

abbreviation sq_height :: "('db, 'l) SqlChain \<Rightarrow> Time \<Rightarrow> int" where
  "sq_height c t \<equiv> getHeightFromTime (sq_rt c) t"

definition set_rt :: "(sqlRuntime \<Rightarrow> sqlRuntime) \<Rightarrow> ('db, 'l) SqlChain \<Rightarrow> ('db, 'l) SqlChain" where
  "set_rt f c = c \<lparr> sq_rt := f (sq_rt c) \<rparr>"

section \<open>Fetching blocks\<close>

definition fetchBlockByIndexKey :: "('db, 'l) sqlchain_env \<Rightarrow> bytes \<Rightarrow> ('db, 'l) SqlChain \<Rightarrow> (db_error, Block) res" where
  "fetchBlockByIndexKey E indexKey c =
     (case ldb_Get (se_ldb E) (sq_metaBlockIndex c @ indexKey) (sq_blkDB c) of
        Ok v \<Rightarrow> (case dec_block E v of None \<Rightarrow> Err ErrChainDecode | Some b \<Rightarrow> Ok b)
      | Err e \<Rightarrow> Err ErrChainDB
      | Panic \<Rightarrow> Panic)"

text \<open>The result is \<open>None\<close> when there is no such block. Before the head is set, its node is nil.\<close>

definition sql_FetchBlock :: "('db, 'l) sqlchain_env \<Rightarrow> int \<Rightarrow> ('db, 'l) SqlChain \<Rightarrow> (db_error, Block option) res" where
  "sql_FetchBlock E height c =
     (case hs_node (sq_head c) of
        None \<Rightarrow> if height < 0 then Ok None else Panic
      | Some head \<Rightarrow>
          (case sn_ancestor head height of
             None \<Rightarrow> Ok None
           | Some n \<Rightarrow>
               (case fetchBlockByIndexKey E (sn_indexKey n) c of Ok b \<Rightarrow> Ok (Some b) | Err e \<Rightarrow> Err e | Panic \<Rightarrow> Panic)))"

definition sql_FetchBlockByCount ::
    "('db, 'l) sqlchain_env \<Rightarrow> int \<Rightarrow> ('db, 'l) SqlChain \<Rightarrow> (db_error, Block option \<times> int \<times> int) res" where
  "sql_FetchBlockByCount E count c =
     (case (if count < 0 then Ok (hs_node (sq_head c))
            else case hs_node (sq_head c) of None \<Rightarrow> Panic | Some head \<Rightarrow> Ok (sn_ancestorByCount head count)) of
        Ok None \<Rightarrow> Ok (None, 0, 0)
      | Ok (Some n) \<Rightarrow>
          (case fetchBlockByIndexKey E (sn_indexKey n) c of
             Ok b \<Rightarrow> Ok (Some b, sn_count n, sn_height n) | Err e \<Rightarrow> Err e | Panic \<Rightarrow> Panic)
      | Err e \<Rightarrow> Err e
      | Panic \<Rightarrow> Panic)"

text \<open>
  The metrics read the time of the head block, from memory or from the store; without a block
  there is none to read it from.
\<close>

definition updateMetrics :: "('db, 'l) sqlchain_env \<Rightarrow> ('db, 'l) SqlChain \<Rightarrow> (db_error, unit) res" where
  "updateMetrics E c =
     (case hs_node (sq_head c) of
        None \<Rightarrow> Panic
      | Some n \<Rightarrow>
          (case mget (sq_cache c) (sn_hash n) of
             Some _ \<Rightarrow> Ok ()
           | None \<Rightarrow>
               (case sql_FetchBlock E (hs_Height (sq_head c)) c of
                  Ok (Some _) \<Rightarrow> Ok () | Ok None \<Rightarrow> Panic | Err _ \<Rightarrow> Ok () | Panic \<Rightarrow> Panic)))"

section \<open>Acknowledgements\<close>

definition AddResponse :: "SignedResponseHeader \<Rightarrow> ('db, 'l) SqlChain \<Rightarrow> ('db, 'l) SqlChain \<times> (db_error, unit) res" where
  "AddResponse resp c =
     (case ai_addResponse (sq_height c (GetRequestTimestamp (srs_ResponseHeader resp))) resp (sq_ai c) of
        (a, r) \<Rightarrow> (c \<lparr> sq_ai := a \<rparr>, r))"

definition sql_register :: "SignedAckHeader \<Rightarrow> ('db, 'l) SqlChain \<Rightarrow> ('db, 'l) SqlChain \<times> (db_error, unit) res" where
  "sql_register ack c =
     (case ai_register (sq_height c (ack_RequestTimestamp ack)) ack (sq_ai c) of (a, r) \<Rightarrow> (c \<lparr> sq_ai := a \<rparr>, r))"

definition sql_remove :: "SignedAckHeader \<Rightarrow> ('db, 'l) SqlChain \<Rightarrow> ('db, 'l) SqlChain \<times> (db_error, unit) res" where
  "sql_remove ack c =
     (case ai_remove (sq_height c (ack_RequestTimestamp ack)) ack (sq_ai c) of (a, r) \<Rightarrow> (c \<lparr> sq_ai := a \<rparr>, r))"

definition pushAckedQuery ::
    "('db, 'l) sqlchain_env \<Rightarrow> SignedAckHeader \<Rightarrow> ('db, 'l) SqlChain \<Rightarrow> ('db, 'l) SqlChain \<times> (db_error, unit) res" where
  "pushAckedQuery E ack c =
     (case enc_ack E ack of
        None \<Rightarrow> (c, Err ErrChainEncode)
      | Some v \<Rightarrow>
          (let k = sq_metaAckIndex c @ heightToKey (sq_height c (ack_ResponseTimestamp ack)) @ ack_Hash ack in
           case sql_register ack c of
             (c, Ok _) \<Rightarrow>
               (case ldb_Put (se_ldb E) k v (sq_txDB c) of
                  (db, e) \<Rightarrow> (c \<lparr> sq_txDB := db \<rparr>, if e = None then Ok () else Err ErrChainDB))
           | (c, Err e) \<Rightarrow> (c, Err e)
           | (c, Panic) \<Rightarrow> (c, Panic)))"

definition VerifyAndPushAckedQuery ::
    "('db, 'l) sqlchain_env \<Rightarrow> SignedAckHeader \<Rightarrow> ('db, 'l) SqlChain \<Rightarrow> ('db, 'l) SqlChain \<times> (db_error, unit) res" where
  "VerifyAndPushAckedQuery E ack c =
     (if queryTimeIsExpired (sq_rt c) (ack_ResponseTimestamp ack) then (c, Err ErrQueryExpired)
      else case db_verifier_res (ack_Verify (se_db E) ack) of
             Ok _ \<Rightarrow> pushAckedQuery E ack c | Err e \<Rightarrow> (c, Err e) | Panic \<Rightarrow> (c, Panic))"

section \<open>Pushing blocks\<close>

text \<open>
  The responses and acknowledgements of the block are recorded; a failure is only logged. The
  last message takes the first eight characters of the producer's id.
\<close>

definition sql_pushBlock ::
    "('db, 'l) sqlchain_env \<Rightarrow> Block \<Rightarrow> ('db, 'l) SqlChain \<Rightarrow> ('db, 'l) SqlChain \<times> (db_error, unit) res" where
  "sql_pushBlock E b c =
     (let h = sq_height c (sblock_Timestamp b);
          node = newBlockNodeEx h (sblock_BlockHash b) (hs_node (sq_head c));
          head = \<lparr> hs_node = Some node, hs_Head = sn_hash node, hs_Height = sn_height node \<rparr>
      in
        case enc_block E b of
          None \<Rightarrow> (c, Err ErrChainEncode)
        | Some v \<Rightarrow>
            (case ldb_Put (se_ldb E) (sq_metaBlockIndex c @ sn_indexKey node) v (sq_blkDB c) of
               (db, Some _) \<Rightarrow> (c \<lparr> sq_blkDB := db \<rparr>, Err ErrChainDB)
             | (db, None) \<Rightarrow>
                 (let c = c \<lparr> sq_blkDB := db, sq_cachedBlockCount := i32 (sq_cachedBlockCount c + 1),
                              sq_rt := (sq_rt c) \<lparr> rn_head := head \<rparr>, sq_bi := mput (sn_hash node) node (sq_bi c),
                              sq_cache := mput (sn_hash node) b (sq_cache c) \<rparr>
                  in case updateMetrics E c of
                       Panic \<Rightarrow> (c, Panic)
                     | _ \<Rightarrow>
                         (let c = fold (\<lambda>v c. fst (AddResponse (qx_Response v) c)) (sb_QueryTxs b) c;
                              c = fold (\<lambda>a c. fst (sql_remove a c)) (sb_Acks b) c
                          in (c, if length (sblock_Producer b) < 8 then Panic else Ok ())))))"

definition sql_genesis ::
    "('db, 'l) sqlchain_env \<Rightarrow> Block option \<Rightarrow> ('db, 'l) SqlChain \<Rightarrow> ('db, 'l) SqlChain \<times> (db_error, unit) res" where
  "sql_genesis E b c =
     (case b of
        None \<Rightarrow> (c, Err ErrNoGenesis)
      | Some b \<Rightarrow>
          (case VerifyAsGenesis (se_db E) b of
             Ok _ \<Rightarrow> sql_pushBlock E b c | Err e \<Rightarrow> (c, Err e) | Panic \<Rightarrow> (c, Panic)))"

text \<open>The peer whose block is expected: the one of the turn before the next.\<close>

definition next_producer :: "sqlRuntime \<Rightarrow> int" where
  "next_producer r =
     (let total = i32 (int (length (ph_Servers (rn_peers r)))) in
      if total > 0 then i32 (rn_nextTurn r - 1) smod total else -1)"

definition CheckAndPushNewBlock ::
    "('db, 'l) sqlchain_env \<Rightarrow> Block \<Rightarrow> ('db, 'l) SqlChain \<Rightarrow> ('db, 'l) SqlChain \<times> (db_error, unit) res" where
  "CheckAndPushNewBlock E block c =
     (let height = sq_height c (sblock_Timestamp block); head = sq_head c; peers = rn_peers (sq_rt c) in
      if hs_Height head = height \<and> hs_Head head = sblock_BlockHash block then (c, Ok ())
      else if sblock_ParentHash block \<noteq> hs_Head head then (c, Err ErrInvalidBlock)
      else
        case sblock_Verify (se_db E) block of
          Err e \<Rightarrow> (c, Err e)
        | Panic \<Rightarrow> (c, Panic)
        | Ok _ \<Rightarrow>
            if sblock_Producer block = rn_server (sq_rt c) then sql_pushBlock E block c
            else
              case peers_Find peers (sblock_Producer block) of
                None \<Rightarrow> (c, Err ErrUnknownProducer)
              | Some index \<Rightarrow>
                  if i32 (int index) \<noteq> next_producer (sq_rt c) then (c, Err ErrInvalidProducer)
                  else
                    case ReplayBlockWithContext (se_xeno E) block (sq_st c) of
                      (s, Ok _) \<Rightarrow> sql_pushBlock E block (c \<lparr> sq_st := s \<rparr>)
                    | (s, Err e) \<Rightarrow> (c \<lparr> sq_st := s \<rparr>, Err e)
                    | (s, Panic) \<Rightarrow> (c \<lparr> sq_st := s \<rparr>, Panic))"

section \<open>Producing blocks\<close>

text \<open>
  \<open>produceBlock\<close> in two parts. The first takes the queries out of the state and fixes the header
  and the acknowledgements; there may be nothing to produce. The second waits until every query
  has its response, where \<open>None\<close> means that it still waits, and signs the block.
\<close>

definition empty_hsv :: HashSignVerifier where
  "empty_hsv = \<lparr> hv_DataHash = zero_hash, hv_Signee = None, hv_Signature = None \<rparr>"

definition produce_begin ::
    "('db, 'l) sqlchain_env \<Rightarrow> Time \<Rightarrow> ('db, 'l) SqlChain \<Rightarrow>
     ('db, 'l) SqlChain \<times> (db_error, (Block \<times> tracker_ref list) option) res" where
  "produce_begin E now c =
     (case CommitEx (se_xeno E) (sq_st c) of
        (s, Err e) \<Rightarrow> (c \<lparr> sq_st := s \<rparr>, Err e)
      | (s, Panic) \<Rightarrow> (c \<lparr> sq_st := s \<rparr>, Panic)
      | (s, Ok (frs, qts)) \<Rightarrow>
          let c = c \<lparr> sq_st := s \<rparr> in
          if frs = [] \<and> qts = [] then (c, Ok None)
          else
            case ai_acks (sq_height c now) (sq_ai c) of
              (a, acks) \<Rightarrow>
                (c \<lparr> sq_ai := a \<rparr>,
                 Ok (Some
                   (\<lparr> sb_SignedHeader =
                        \<lparr> sh_Header =
                            \<lparr> hd_Version = 0x01000000, hd_Producer = rn_server (sq_rt c), hd_GenesisHash = rn_genesisHash (sq_rt c),
                              hd_ParentHash = hs_Head (sq_head c), hd_MerkleRoot = zero_hash, hd_Timestamp = now \<rparr>,
                          sh_HSV = empty_hsv \<rparr>,
                      sb_FailedReqs = frs, sb_QueryTxs = [], sb_Acks = acks \<rparr>, qts))))"

definition produce_end ::
    "('db, 'l) sqlchain_env \<Rightarrow> Block \<Rightarrow> tracker_ref list \<Rightarrow> ('db, 'l) SqlChain \<Rightarrow> (db_error, Block) res option" where
  "produce_end E block qts c =
     (let ts = map (\<lambda>q. st_trackers (sq_st c) ! q) qts in
      if \<not> list_all tracker_Ready ts then None
      else
        Some (sblock_PackAndSignBlock (se_db E) (se_sign E) (se_pub E) (sq_pk c)
          (block \<lparr> sb_QueryTxs :=
             map (\<lambda>t. \<lparr> qx_Request = qt_Req t, qx_Response = resp_Header (the (qt_Resp t)) \<rparr>) ts \<rparr>)))"

definition sql_produceBlock ::
    "('db, 'l) sqlchain_env \<Rightarrow> Time \<Rightarrow> ('db, 'l) SqlChain \<Rightarrow> (('db, 'l) SqlChain \<times> (db_error, Block option) res) option" where
  "sql_produceBlock E now c =
     (case produce_begin E now c of
        (c, Ok None) \<Rightarrow> Some (c, Ok None)
      | (c, Ok (Some (block, qts))) \<Rightarrow>
          (case produce_end E block qts c of
             None \<Rightarrow> None
           | Some (Ok b) \<Rightarrow> Some (c, Ok (Some b))
           | Some (Err e) \<Rightarrow> Some (c, Err e)
           | Some Panic \<Rightarrow> Some (c, Panic))
      | (c, Err e) \<Rightarrow> Some (c, Err e)
      | (c, Panic) \<Rightarrow> Some (c, Panic))"

section \<open>Turns\<close>

text \<open>
  Blocks that are old enough leave the memory: from the first node with at most the given count,
  as long as the nodes have their blocks.
\<close>

fun clear_nodes :: "sqlNode \<Rightarrow> (hash, Block) gomap \<times> int \<Rightarrow> (hash, Block) gomap \<times> int" where
  "clear_nodes (SqlNode p h ht n) (cache, count) =
     (if mget cache h = None then (cache, count)
      else let r = (mdel h cache, i32 (count - 1)) in case p of None \<Rightarrow> r | Some q \<Rightarrow> clear_nodes q r)"

definition pruneBlockCache :: "('db, 'l) SqlChain \<Rightarrow> ('db, 'l) SqlChain" where
  "pruneBlockCache c =
     (case hs_node (sq_head c) of
        None \<Rightarrow> c
      | Some head \<Rightarrow>
          (let lastCnt = i32 (rn_nextTurn (sq_rt c) - rn_blockCacheTTL (sq_rt c));
               h = rn_lastBillingHeight (sq_rt c);
               lastCnt = (if h < lastCnt then h else lastCnt)
           in case node_walk (\<lambda>n. sn_count n > lastCnt) head of
                None \<Rightarrow> c
              | Some n \<Rightarrow>
                  (case clear_nodes n (sq_cache c, sq_cachedBlockCount c) of
                     (cache, count) \<Rightarrow> c \<lparr> sq_cache := cache, sq_cachedBlockCount := count \<rparr>)))"

text \<open>What is deferred to the end of a turn.\<close>

definition end_turn :: "('db, 'l) SqlChain \<Rightarrow> ('db, 'l) SqlChain" where
  "end_turn c =
     (let c = set_rt IncNextTurn (pruneBlockCache c) in
      c \<lparr> sq_ai := ai_advance (getMinValidHeight (sq_rt c)) (sq_ai c) \<rparr>)"

text \<open>
  The result has the block that was produced, which goes to the block channel, and the height
  that is published. A failure to produce is only logged; a panic ends the process.
\<close>

definition runCurrentTurn ::
    "('db, 'l) sqlchain_env \<Rightarrow> Time \<Rightarrow> int \<Rightarrow> ('db, 'l) SqlChain \<Rightarrow>
     (('db, 'l) SqlChain \<times> (db_error, Block option \<times> int) res) option" where
  "runCurrentTurn E now d c =
     (let elapsed = i64 (- d); h = rn_nextTurn (sq_rt c) in
      if \<not> sql_isMyTurn (sq_rt c) \<or> i64 (elapsed + rn_tick (sq_rt c)) > rn_period (sq_rt c)
      then Some (end_turn c, Ok (None, h))
      else
        case sql_produceBlock E now c of
          None \<Rightarrow> None
        | Some (c, Ok b) \<Rightarrow> Some (end_turn c, Ok (b, h))
        | Some (c, Err _) \<Rightarrow> Some (end_turn c, Ok (None, h))
        | Some (c, Panic) \<Rightarrow> Some (c, Panic))"

text \<open>
  \<open>syncHead\<close> asks every other peer for the block of the last turn. \<open>FetchFailed\<close> says whether the
  peer does not know the database; a reply has the peer's height or a block, which may or may not
  reach the block channel before the time is over. The result has the delivered blocks.
\<close>

datatype fetch_reply = FetchFailed bool | FetchNone int | FetchFound Block bool

definition reply_counts :: "int \<Rightarrow> fetch_reply \<Rightarrow> nat \<times> nat" where
  "reply_counts h r =
     (case r of
        FetchFailed unknown \<Rightarrow> (0, if unknown then 1 else 0)
      | FetchNone height \<Rightarrow> if height \<le> h then (0, 1) else (1, 0)
      | FetchFound _ delivered \<Rightarrow> (if delivered then 1 else 0, 0))"

definition delivered_block :: "fetch_reply \<Rightarrow> Block option" where
  "delivered_block r = (case r of FetchFound b True \<Rightarrow> Some b | _ \<Rightarrow> None)"

definition syncHead :: "(NodeID \<Rightarrow> fetch_reply) \<Rightarrow> sqlRuntime \<Rightarrow> Block list \<times> (db_error, unit) res" where
  "syncHead reply r =
     (let h = i32 (rn_nextTurn r - 1) in
      if hs_Height (rn_head r) \<ge> h then ([], Ok ())
      else
        let rs = map reply (filter (\<lambda>s. s \<noteq> rn_server r) (ph_Servers (rn_peers r)));
            counts = map (reply_counts h) rs;
            succCount = sum_list (map fst counts);
            initiatingCount = sum_list (map snd counts)
        in (List.map_filter delivered_block rs,
            if length rs > 0 \<and> succCount = 0
            then Err (if initiatingCount = length rs then ErrInitiating else ErrUnreachable)
            else Ok ()))"

section \<open>Billing\<close>

text \<open>
  The costs of the users and, for each user, the incomes of the miners. The Go maps have no
  order; the order of the lists is one of those the code may produce.
\<close>

type_synonym billing_maps =
  "(AccountAddress, u64) gomap \<times> (AccountAddress, (AccountAddress, u64) gomap) gomap"

definition mget0 :: "(AccountAddress, u64) gomap \<Rightarrow> AccountAddress \<Rightarrow> u64" where
  "mget0 m k = (case mget m k of None \<Rightarrow> 0 | Some v \<Rightarrow> v)"

definition add_cost :: "AccountAddress \<Rightarrow> AccountAddress \<Rightarrow> u64 \<Rightarrow> billing_maps \<Rightarrow> billing_maps" where
  "add_cost user miner n = (\<lambda>(users, miners).
     (mput user (mget0 users user + n) users,
      let m = (case mget miners user of None \<Rightarrow> [] | Some m \<Rightarrow> m) in mput user (mput miner (mget0 m miner + n) m) miners))"

definition query_cost :: "QueryAsTx \<Rightarrow> u64" where
  "query_cost tx =
     (if rq_QueryType (request_header (qx_Request tx)) = ReadQuery then rs_RowCount (srs_ResponseHeader (qx_Response tx))
      else rs_AffectedRows (srs_ResponseHeader (qx_Response tx)))"

fun bill_queries :: "tx_env \<Rightarrow> QueryAsTx list \<Rightarrow> billing_maps \<Rightarrow> (db_error, billing_maps) res" where
  "bill_queries T [] m = Ok m"
| "bill_queries T (tx # txs) m =
     (case PubKeyHash (THashH T) (hv_Signee (srq_HSV (req_Header (qx_Request tx)))) of
        Ok user \<Rightarrow>
          bill_queries T txs (add_cost user (rs_ResponseAccount (srs_ResponseHeader (qx_Response tx))) (query_cost tx) m)
      | Err _ \<Rightarrow> Err ErrChainAddress
      | Panic \<Rightarrow> Panic)"

text \<open>A user without an income for this miner gets a new map of incomes, whatever the old one holds.\<close>

definition fresh_incomes :: "AccountAddress \<Rightarrow> AccountAddress \<Rightarrow> billing_maps \<Rightarrow> billing_maps" where
  "fresh_incomes user miner = (\<lambda>(users, miners).
     (users,
      case mget miners user of
        None \<Rightarrow> mput user [] miners
      | Some m \<Rightarrow> if mget m miner = None then mput user [] miners else miners))"

fun bill_failed :: "tx_env \<Rightarrow> Block \<Rightarrow> Request list \<Rightarrow> billing_maps \<Rightarrow> (db_error, billing_maps) res" where
  "bill_failed T block [] m = Ok m"
| "bill_failed T block (r # rs) m =
     (case PubKeyHash (THashH T) (sblock_Signee block) of
        Ok miner \<Rightarrow>
          (case PubKeyHash (THashH T) (hv_Signee (srq_HSV (req_Header r))) of
             Ok user \<Rightarrow>
               bill_failed T block rs (add_cost user miner (of_nat (length (req_Queries r))) (fresh_incomes user miner m))
           | Err _ \<Rightarrow> Err ErrChainAddress
           | Panic \<Rightarrow> Panic)
      | Err _ \<Rightarrow> Err ErrChainAddress
      | Panic \<Rightarrow> Panic)"

definition bill_block :: "tx_env \<Rightarrow> Block \<Rightarrow> billing_maps \<Rightarrow> (db_error, billing_maps) res" where
  "bill_block T block m =
     (case bill_queries T (sb_QueryTxs block) m of
        Ok m \<Rightarrow> bill_failed T block (sb_FailedReqs block) m | Err e \<Rightarrow> Err e | Panic \<Rightarrow> Panic)"

text \<open>A block that is not in memory is fetched by its height.\<close>

definition billed_block :: "('db, 'l) sqlchain_env \<Rightarrow> ('db, 'l) SqlChain \<Rightarrow> sqlNode \<Rightarrow> (db_error, Block) res" where
  "billed_block E c n =
     (case mget (sq_cache c) (sn_hash n) of
        Some b \<Rightarrow> Ok b
      | None \<Rightarrow>
          (case sql_FetchBlock E (sn_height n) c of
             Ok (Some b) \<Rightarrow> Ok b | Ok None \<Rightarrow> Panic | Err e \<Rightarrow> Err e | Panic \<Rightarrow> Panic))"

fun billing_loop ::
    "('db, 'l) sqlchain_env \<Rightarrow> ('db, 'l) SqlChain \<Rightarrow> int \<Rightarrow> sqlNode \<Rightarrow> billing_maps \<Rightarrow> (db_error, billing_maps) res" where
  "billing_loop E c minHeight (SqlNode p h ht n) m =
     (if ht > minHeight then
        case billed_block E c (SqlNode p h ht n) of
          Ok block \<Rightarrow>
            (case bill_block (de_tx (se_db E)) block m of
               Ok m \<Rightarrow> (case p of None \<Rightarrow> Ok m | Some q \<Rightarrow> billing_loop E c minHeight q m)
             | Err e \<Rightarrow> Err e
             | Panic \<Rightarrow> Panic)
        | Err e \<Rightarrow> Err e
        | Panic \<Rightarrow> Panic
      else Ok m)"

definition user_costs :: "billing_maps \<Rightarrow> UserCost list" where
  "user_costs m =
     map (\<lambda>(user, cost).
       \<lparr> uc_User = user, uc_Cost = cost,
         uc_Miners = map (\<lambda>(miner, income). \<lparr> mi_Miner = miner, mi_Income = income \<rparr>)
           (case mget (snd m) user of None \<Rightarrow> [] | Some ms \<Rightarrow> ms) \<rparr>) (fst m)"

text \<open>
  An error of the receiver's address comes with the transaction, where the address is the zero
  value.
\<close>

definition sql_billing ::
    "('db, 'l) sqlchain_env \<Rightarrow> int \<Rightarrow> sqlNode option \<Rightarrow> ('db, 'l) SqlChain \<Rightarrow>
     (db_error, UpdateBillingHeader \<times> bool) res" where
  "sql_billing E h node c =
     (let minHeight = rn_lastBillingHeight (sq_rt c) in
      case (case Option.bind node (node_walk (\<lambda>n. sn_height n > h)) of
              None \<Rightarrow> Ok ([], []) | Some n \<Rightarrow> billing_loop E c minHeight n ([], [])) of
        Ok m \<Rightarrow>
          (let addr = databaseID_AccountAddress (sq_databaseID c) in
           Ok (\<lparr> ub_Receiver = (case addr of Ok a \<Rightarrow> a | _ \<Rightarrow> zero_hash), ub_Nonce = 0, ub_Users = user_costs m,
                 ub_From = word_of_int minHeight, ub_To = word_of_int h, ub_Version = se_HSPDefaultVersion E \<rparr>, is_Ok addr))
      | Err e \<Rightarrow> Err e
      | Panic \<Rightarrow> Panic)"

section \<open>Processing blocks and heights\<close>

text \<open>
  The goroutine that receives heights and blocks keeps a stash of blocks that are too new. On a
  height it bills, when it is the turn of this node for billing, and gives the stash back to the
  block channel. The result has the billing transaction and the returned blocks. The remainders
  are computed first, and a failed billing leaves a nil transaction whose nonce is set.
\<close>

definition process_height ::
    "('db, 'l) sqlchain_env \<Rightarrow> int \<Rightarrow> ('db, 'l) SqlChain \<Rightarrow> Block list \<Rightarrow>
     (db_error, UpdateBillingHeader option \<times> Block list) res" where
  "process_height E h c stash =
     (let index = rn_index (sq_rt c); total = rn_total (sq_rt c); period = i32 (uint (sq_updatePeriod c)) in
      if period = 0 \<or> total = 0 then Panic
      else if h smod period = 0 \<and> i32 (h sdiv period) smod total = index then
        case sql_billing E h (hs_node (sq_head c)) c of
          Ok (ub, _) \<Rightarrow> Ok (Some ub, stash) | Err _ \<Rightarrow> Panic | Panic \<Rightarrow> Panic
      else Ok (None, stash))"

definition process_block ::
    "('db, 'l) sqlchain_env \<Rightarrow> Block \<Rightarrow> ('db, 'l) SqlChain \<Rightarrow> Block list \<Rightarrow>
     ('db, 'l) SqlChain \<times> Block list \<times> (db_error, unit) res" where
  "process_block E block c stash =
     (let height = sq_height c (sblock_Timestamp block); turn = i32 (rn_nextTurn (sq_rt c) - 1) in
      if height > turn then (c, stash @ [block], Ok ())
      else if height < turn then (c, stash, Ok ())
      else case CheckAndPushNewBlock E block c of (c, r) \<Rightarrow> (c, stash, r))"

section \<open>The interface of the chain\<close>

definition sql_UpdatePeers :: "PeersHeader \<Rightarrow> ('db, 'l) SqlChain \<Rightarrow> ('db, 'l) SqlChain" where
  "sql_UpdatePeers ps = set_rt (rt_updatePeers ps)"

definition SetLastBillingHeight :: "int \<Rightarrow> ('db, 'l) SqlChain \<Rightarrow> ('db, 'l) SqlChain" where
  "SetLastBillingHeight h = set_rt (\<lambda>r. r \<lparr> rn_lastBillingHeight := h \<rparr>)"

definition sql_Query ::
    "('db, 'l) sqlchain_env \<Rightarrow> Time \<Rightarrow> Request \<Rightarrow> bool \<Rightarrow> ('db, 'l) SqlChain \<Rightarrow>
     (('db, 'l) SqlChain \<times> (db_error, tracker_ref \<times> Response) res) option" where
  "sql_Query E now req isLeader c =
     (case QueryWithContext (se_xeno E) now req isLeader (sq_st c) of
        None \<Rightarrow> None | Some (s, r) \<Rightarrow> Some (c \<lparr> sq_st := s \<rparr>, r))"

text \<open>The state is closed without a commit; the services of the runtime have ended before.\<close>

definition sql_Stop :: "('db, 'l) sqlchain_env \<Rightarrow> ('db, 'l) SqlChain \<Rightarrow> ('db, 'l) SqlChain \<times> (db_error, unit) res" where
  "sql_Stop E c = (case state_Close (se_xeno E) False (sq_st c) of (s, r) \<Rightarrow> (c \<lparr> sq_st := s \<rparr>, r))"

text \<open>
  The remote call for a block of \<open>sqlchain/rpc.go\<close>, and its dispatch by the id of the database in
  \<open>sqlchain/mux.go\<close>: the height of the reply is that of the head when there is no block.
\<close>

definition rpc_FetchBlock ::
    "('db, 'l) sqlchain_env \<Rightarrow> int \<Rightarrow> ('db, 'l) SqlChain \<Rightarrow> (db_error, int \<times> Block option) res" where
  "rpc_FetchBlock E height c =
     (case sql_FetchBlock E height c of
        Ok None \<Rightarrow> Ok (hs_Height (sq_head c), None)
      | Ok (Some b) \<Rightarrow> Ok (height, Some b)
      | Err e \<Rightarrow> Err e
      | Panic \<Rightarrow> Panic)"

definition mux_FetchBlock ::
    "('db, 'l) sqlchain_env \<Rightarrow> DatabaseID \<Rightarrow> int \<Rightarrow> (DatabaseID, ('db, 'l) SqlChain) gomap \<Rightarrow>
     (db_error, int \<times> Block option) res" where
  "mux_FetchBlock E i height services =
     (case mget services i of None \<Rightarrow> Err ErrUnknownMuxRequest | Some c \<Rightarrow> rpc_FetchBlock E height c)"

section \<open>Starting a chain\<close>

definition keyWithSymbolToHeight :: "bytes \<Rightarrow> int" where
  "keyWithSymbolToHeight k = (if length k < 8 then -1 else sint (Uint 4 (drop 4 k) :: u32))"

text \<open>
  A stored block is checked against the block before it; a block with another parent is only
  attached to the node of its parent. The nodes do not keep their blocks.
\<close>

definition load_parent ::
    "('db, 'l) sqlchain_env \<Rightarrow> Block \<Rightarrow> sqlNode option \<Rightarrow> ('db, 'l) SqlChain \<Rightarrow>
     (db_error, ('db, 'l) SqlChain \<times> sqlNode option) res" where
  "load_parent E block last_node c =
     (case last_node of
        None \<Rightarrow>
          (case VerifyAsGenesis (se_db E) block of
             Ok _ \<Rightarrow> Ok (set_rt (setGenesis block) c, None) | Err e \<Rightarrow> Err e | Panic \<Rightarrow> Panic)
      | Some n \<Rightarrow>
          if sblock_ParentHash block = sn_hash n then
            case sblock_Verify (se_db E) block of Ok _ \<Rightarrow> Ok (c, Some n) | Err e \<Rightarrow> Err e | Panic \<Rightarrow> Panic
          else
            case mget (sq_bi c) (sblock_ParentHash block) of
              None \<Rightarrow> Err ErrChainParentNotFound | Some p \<Rightarrow> Ok (c, Some p))"

fun load_sblocks ::
    "('db, 'l) sqlchain_env \<Rightarrow> (bytes \<times> bytes) list \<Rightarrow> sqlNode option \<Rightarrow> u64 \<Rightarrow> ('db, 'l) SqlChain \<Rightarrow>
     (db_error, ('db, 'l) SqlChain \<times> sqlNode option \<times> u64) res" where
  "load_sblocks E [] last_node i c = Ok (c, last_node, i)"
| "load_sblocks E ((k, v) # kvs) last_node i c =
     (case dec_block E v of
        None \<Rightarrow> Err ErrChainDecode
      | Some block \<Rightarrow>
          (case load_parent E block last_node c of
             Ok (c, parent) \<Rightarrow>
               (let i = (case CalcNextID block of None \<Rightarrow> i | Some nid \<Rightarrow> if nid > i then nid else i);
                    n = newBlockNodeEx (sq_height c (sblock_Timestamp block)) (sblock_BlockHash block) parent
                in load_sblocks E kvs (Some n) i (c \<lparr> sq_bi := mput (sn_hash n) n (sq_bi c) \<rparr>))
           | Err e \<Rightarrow> Err e
           | Panic \<Rightarrow> Panic))"

text \<open>
  The stored responses and acknowledgements are only decoded. After the acknowledgements the code
  asks the other iterator for its error, so their own is not seen.
\<close>

definition check_stored :: "('db, 'l) sqlchain_env \<Rightarrow> ('db, 'l) SqlChain \<Rightarrow> (db_error, unit) res" where
  "check_stored E c =
     (case ldb_Range (se_ldb E) (sq_metaResponseIndex c) (sq_txDB c) of
        (resps, respErr) \<Rightarrow>
          if list_ex (\<lambda>(k, v). dec_resp E v = None) resps then Err ErrChainDecode
          else if respErr \<noteq> None then Err ErrChainDB
          else
            case ldb_Range (se_ldb E) (sq_metaAckIndex c) (sq_txDB c) of
              (acks, ackErr) \<Rightarrow>
                if list_ex (\<lambda>(k, v). dec_ack E v = None) acks then Err ErrChainDecode
                else if respErr \<noteq> None then Err ErrChainDB else Ok ())"

definition load_chain :: "('db, 'l) sqlchain_env \<Rightarrow> sqlConfig \<Rightarrow> ('db, 'l) SqlChain \<Rightarrow> (db_error, ('db, 'l) SqlChain) res" where
  "load_chain E cfg c =
     (case ldb_Range (se_ldb E) (sq_metaBlockIndex c) (sq_blkDB c) of
        (kvs, iterErr) \<Rightarrow>
          (case load_sblocks E kvs None 0 c of
             Err e \<Rightarrow> Err e
           | Panic \<Rightarrow> Panic
           | Ok (c, last_node, i) \<Rightarrow>
               if iterErr \<noteq> None then Err ErrChainDB
               else
                 case last_node of
                   None \<Rightarrow> (case sql_genesis E (sf_Genesis cfg) c of
                              (c, Ok _) \<Rightarrow> Ok c | (c, Err e) \<Rightarrow> Err e | (c, Panic) \<Rightarrow> Panic)
                 | Some n \<Rightarrow>
                     (let c = c \<lparr> sq_rt := (sq_rt c) \<lparr> rn_head := \<lparr> hs_node = Some n, hs_Head = sn_hash n, hs_Height = sn_height n \<rparr> \<rparr>,
                                  sq_st := SetSeq i (sq_st c) \<rparr>
                      in case updateMetrics E c of
                           Panic \<Rightarrow> Panic
                         | _ \<Rightarrow> (case check_stored E c of Ok _ \<Rightarrow> Ok c | Err e \<Rightarrow> Err e | Panic \<Rightarrow> Panic))))"

text \<open>The databases of blocks and of queries are shared by all chains and have been opened.\<close>

definition sql_NewChain ::
    "('db, 'l) sqlchain_env \<Rightarrow> sqlConfig \<Rightarrow> 'l \<Rightarrow> 'l \<Rightarrow> (db_error, ('db, 'l) SqlChain) res" where
  "sql_NewChain E cfg blkDB txDB =
     (case se_open E (sf_DataFile cfg) of
        None \<Rightarrow> Err ErrChainDB
      | Some strg \<Rightarrow>
          (case se_localKey E of
             None \<Rightarrow> Err ErrChainAddress
           | Some pk \<Rightarrow>
               (case PubKeyHash (THashH (de_tx (se_db E))) (Some (se_pub E pk)) of
                  Ok addr \<Rightarrow>
                    (case databaseID_AccountAddress (sf_DatabaseID cfg) of
                       Ok prefix \<Rightarrow>
                         (case NewState (se_xeno E) (sf_IsolationLevel cfg) (sf_Server cfg) strg of
                            (st, Ok _) \<Rightarrow>
                              load_chain E cfg
                                \<lparr> sq_bi = [], sq_ai = newAckIndex, sq_st = st, sq_rt = newRunTime (zero_time E) cfg,
                                  sq_cache = [], sq_blkDB = blkDB, sq_txDB = txDB, sq_databaseID = sf_DatabaseID cfg,
                                  sq_updatePeriod = sf_UpdatePeriod cfg, sq_pk = pk, sq_addr = addr,
                                  sq_metaBlockIndex = prefix @ metaBlockIndex, sq_metaResponseIndex = prefix @ metaResponseIndex,
                                  sq_metaAckIndex = prefix @ metaAckIndex, sq_cachedBlockCount = 0 \<rparr>
                          | (st, Err e) \<Rightarrow> Err e
                          | (st, Panic) \<Rightarrow> Panic)
                     | Err _ \<Rightarrow> Err ErrChainAddress
                     | Panic \<Rightarrow> Panic)
                | Err _ \<Rightarrow> Err ErrChainAddress
                | Panic \<Rightarrow> Panic)))"

end
