(* ===== verification/Xeno_Replay.thy ===== *)
theory Xeno_Replay
  imports Xeno_State
begin

text \<open>
  What the state of a database promises, for an SQL engine with the documented behaviour of
  transactions and savepoints: a replica that replays a block has the data of the leader
  that produced it, and what failed requests leave behind.
\<close>

section \<open>The SQL engine\<close>

text \<open>
  \<open>content\<close> is the data the writer sees, \<open>stack\<close> the data at each open savepoint, all of which
  have the same name, and \<open>intx\<close> tells whether a transaction is open. A plain statement (one
  that does not control transactions) is deterministic and without effect when it fails.
  \<open>ROLLBACK TO\<close> keeps the savepoint open.
\<close>

definition plain_exec :: "'db xeno_env \<Rightarrow> (string \<Rightarrow> bool) \<Rightarrow> ('db \<Rightarrow> 'c) \<Rightarrow> ('db \<Rightarrow> 'c list) \<Rightarrow> ('db \<Rightarrow> bool) \<Rightarrow> bool" where
  "plain_exec X plain content stack intx \<longleftrightarrow>
     (\<forall>p a db db'. plain p \<and> content db = content db' \<longrightarrow>
        snd (xe_exec X p a db) = snd (xe_exec X p a db') \<and> content (fst (xe_exec X p a db)) = content (fst (xe_exec X p a db'))) \<and>
     (\<forall>p a db. plain p \<longrightarrow>
        stack (fst (xe_exec X p a db)) = stack db \<and> intx (fst (xe_exec X p a db)) = intx db \<and>
        (snd (xe_exec X p a db) = None \<longrightarrow> content (fst (xe_exec X p a db)) = content db))"

definition savepoints :: "'db xeno_env \<Rightarrow> ('db \<Rightarrow> 'c) \<Rightarrow> ('db \<Rightarrow> 'c list) \<Rightarrow> ('db \<Rightarrow> bool) \<Rightarrow> bool" where
  "savepoints X content stack intx \<longleftrightarrow>
     (\<forall>a db db' r. xe_exec X savepoint_sql a db = (db', r) \<longrightarrow>
        r \<noteq> None \<and> content db' = content db \<and> stack db' = content db # stack db \<and> intx db' = intx db) \<and>
     (\<forall>a db db' r c cs. stack db = c # cs \<and> xe_exec X release_sql a db = (db', r) \<longrightarrow>
        r \<noteq> None \<and> content db' = content db \<and> stack db' = cs \<and> intx db' = intx db) \<and>
     (\<forall>a db db' r. xe_exec X rollback_to_sql a db = (db', r) \<longrightarrow>
        content db' = (case stack db of [] \<Rightarrow> content db | c # _ \<Rightarrow> c) \<and> stack db' = stack db \<and> intx db' = intx db)"

definition transactions :: "'db xeno_env \<Rightarrow> ('db \<Rightarrow> 'c) \<Rightarrow> ('db \<Rightarrow> 'c list) \<Rightarrow> ('db \<Rightarrow> bool) \<Rightarrow> bool" where
  "transactions X content stack intx \<longleftrightarrow>
     (\<forall>a db db' r. \<not> intx db \<and> xe_exec X rollback_sql a db = (db', r) \<longrightarrow>
        content db' = content db \<and> stack db' = stack db \<and> intx db' = intx db) \<and>
     (\<forall>db. intx db \<longrightarrow> (\<exists>db'. xe_commit X db = Some db' \<and> content db' = content db \<and> stack db' = [] \<and> \<not> intx db')) \<and>
     (\<forall>db. \<not> intx db \<longrightarrow> (\<exists>db'. xe_begin X db = Some db' \<and> content db' = content db \<and> stack db' = [] \<and> intx db'))"

definition sql_contract :: "'db xeno_env \<Rightarrow> (string \<Rightarrow> bool) \<Rightarrow> ('db \<Rightarrow> 'c) \<Rightarrow> ('db \<Rightarrow> 'c list) \<Rightarrow> ('db \<Rightarrow> bool) \<Rightarrow> bool" where
  "sql_contract X plain content stack intx \<longleftrightarrow>
     plain_exec X plain content stack intx \<and> savepoints X content stack intx \<and> transactions X content stack intx"

text \<open>Between two requests no savepoint is open, and a transaction at the isolation level that has one.\<close>

definition settled :: "('db \<Rightarrow> 'c list) \<Rightarrow> ('db \<Rightarrow> bool) \<Rightarrow> 'db State \<Rightarrow> bool" where
  "settled stack intx s \<longleftrightarrow>
     stack (st_strg s) = [] \<and> (intx (st_strg s) \<longleftrightarrow> st_level s = LevelReadUncommitted) \<and>
     (st_handler s = TxHandler \<longleftrightarrow> st_level s = LevelReadUncommitted)"

definition plain_request :: "'db xeno_env \<Rightarrow> (string \<Rightarrow> bool) \<Rightarrow> Request \<Rightarrow> bool" where
  "plain_request X plain r \<longleftrightarrow>
     (\<forall>q \<in> set (req_Queries r). \<forall>ddl p a. convertQueryAndBuildArgs (xe_parse X) q = Ok (ddl, p, a) \<longrightarrow> plain p)"

section \<open>Single operations\<close>

text \<open>Two states with the same data do the same, apart from what they have in their pools.\<close>

definition agree :: "('db \<Rightarrow> 'c) \<Rightarrow> 'db State \<Rightarrow> 'db State \<Rightarrow> bool" where
  "agree content s f \<longleftrightarrow> content (st_strg f) = content (st_strg s) \<and> st_current f = st_current s"

text \<open>What decides whether the ongoing transaction is committed.\<close>

definition flags :: "'db State \<Rightarrow> bool \<times> u64 \<times> u64" where
  "flags s = (st_hasSchemaChange s, st_lastCommitPoint s, st_maxTx s)"

text \<open>What executing statements keeps.\<close>

definition frame :: "('db \<Rightarrow> 'c list) \<Rightarrow> ('db \<Rightarrow> bool) \<Rightarrow> 'db State \<Rightarrow> 'db State \<Rightarrow> bool" where
  "frame stack intx s s' \<longleftrightarrow>
     stack (st_strg s') = stack (st_strg s) \<and> intx (st_strg s') = intx (st_strg s) \<and> st_level s' = st_level s \<and>
     st_handler s' = st_handler s \<and> st_pool s' = st_pool s \<and> st_trackers s' = st_trackers s \<and> st_nodeID s' = st_nodeID s"

lemma frame_refl [simp]: "frame stack intx s s"
  by (simp add: frame_def)

lemma frame_trans: "frame stack intx s t \<Longrightarrow> frame stack intx t u \<Longrightarrow> frame stack intx s u"
  by (simp add: frame_def)

lemma plain_execD:
  assumes "plain_exec X plain content stack intx" and "plain p"
  shows "content db = content db' \<Longrightarrow> snd (xe_exec X p a db) = snd (xe_exec X p a db')"
    and "content db = content db' \<Longrightarrow> content (fst (xe_exec X p a db)) = content (fst (xe_exec X p a db'))"
    and "stack (fst (xe_exec X p a db)) = stack db" and "intx (fst (xe_exec X p a db)) = intx db"
    and "snd (xe_exec X p a db) = None \<Longrightarrow> content (fst (xe_exec X p a db)) = content db"
  using assms unfolding plain_exec_def by blast+

lemma writeSingle_frame:
  assumes "plain_exec X plain content stack intx"
    and "\<And>ddl p a. convertQueryAndBuildArgs (xe_parse X) q = Ok (ddl, p, a) \<Longrightarrow> plain p"
    and "writeSingle X q s = (s', r)"
  shows "frame stack intx s s' \<and> (\<not> is_Ok r \<longrightarrow> agree content s s') \<and> (is_Ok r \<longrightarrow> st_current s' = st_current s + 1)"
proof (cases "convertQueryAndBuildArgs (xe_parse X) q")
  case (Ok c)
  obtain ddl p a where c: "c = (ddl, p, a)" by (cases c)
  obtain db u where x: "xe_exec X p a (st_strg s) = (db, u)" by (cases "xe_exec X p a (st_strg s)")
  have "plain p" using assms(2) Ok c by blast
  then have "stack db = stack (st_strg s)" "intx db = intx (st_strg s)" "u = None \<longrightarrow> content db = content (st_strg s)"
    using plain_execD(3,4,5) [OF assms(1), of p a "st_strg s"] by (simp_all add: x)
  then show ?thesis using assms(3) Ok c x
    by (auto simp: writeSingle_def handler_Exec_def frame_def agree_def split: option.splits)
qed (use assms(3) in \<open>auto simp: writeSingle_def agree_def\<close>)

lemma writeSingle_agree:
  assumes "plain_exec X plain content stack intx"
    and "\<And>ddl p a. convertQueryAndBuildArgs (xe_parse X) q = Ok (ddl, p, a) \<Longrightarrow> plain p"
    and "agree content s f" and "writeSingle X q s = (s', r)" and "writeSingle X q f = (f', r')"
  shows "r' = r \<and> agree content s' f' \<and> (flags f = flags s \<longrightarrow> flags f' = flags s')"
proof (cases "convertQueryAndBuildArgs (xe_parse X) q")
  case (Ok c)
  obtain ddl p a where c: "c = (ddl, p, a)" by (cases c)
  obtain db u where x: "xe_exec X p a (st_strg s) = (db, u)" by (cases "xe_exec X p a (st_strg s)")
  obtain db' u' where x': "xe_exec X p a (st_strg f) = (db', u')" by (cases "xe_exec X p a (st_strg f)")
  have "plain p" using assms(2) Ok c by blast
  moreover have "content (st_strg f) = content (st_strg s)" using assms(3) by (simp add: agree_def)
  ultimately have "u' = u" "content db' = content db"
    using plain_execD(1,2) [OF assms(1), of p "st_strg f" "st_strg s" a] by (simp_all add: x x')
  then show ?thesis using assms(3-5) Ok c x x'
    by (auto simp: writeSingle_def handler_Exec_def agree_def flags_def split: option.splits)
qed (use assms(3-5) in \<open>auto simp: writeSingle_def\<close>)

lemma write_loop_frame:
  assumes "plain_exec X plain content stack intx"
    and "\<And>q ddl p a. q \<in> set qs \<Longrightarrow> convertQueryAndBuildArgs (xe_parse X) q = Ok (ddl, p, a) \<Longrightarrow> plain p"
    and "write_loop X qs r s = (s', r')"
  shows "frame stack intx s s' \<and> (length qs \<le> 1 \<and> \<not> is_Ok r' \<longrightarrow> agree content s s') \<and>
    (is_Ok r' \<longrightarrow> st_current s' = st_current s + of_nat (length qs))"
  using assms(2,3)
proof (induction qs arbitrary: r s)
  case (Cons q qs)
  obtain t u where t: "writeSingle X q s = (t, u)" by (cases "writeSingle X q s")
  have f: "frame stack intx s t" "\<not> is_Ok u \<longrightarrow> agree content s t" "is_Ok u \<longrightarrow> st_current t = st_current s + 1"
    using writeSingle_frame [OF assms(1) _ t] Cons.prems(1) by auto
  show ?case
  proof (cases u)
    case (Ok v)
    then have w: "write_loop X qs (fst r + fst v, snd v) t = (s', r')" using Cons.prems(2) t by (cases v) simp
    have "frame stack intx t s' \<and> (is_Ok r' \<longrightarrow> st_current s' = st_current t + of_nat (length qs))"
      using Cons.IH [OF _ w] Cons.prems(1) by auto
    moreover have "qs = [] \<Longrightarrow> is_Ok r'" using w by auto
    ultimately show ?thesis using f frame_trans [OF f(1)] Ok by (cases qs) (auto simp: add.assoc)
  qed (use Cons.prems(2) t f in auto)
qed (auto simp: agree_def)

lemma write_loop_agree:
  assumes "plain_exec X plain content stack intx"
    and "\<And>q ddl p a. q \<in> set qs \<Longrightarrow> convertQueryAndBuildArgs (xe_parse X) q = Ok (ddl, p, a) \<Longrightarrow> plain p"
    and "agree content s f" and "write_loop X qs r s = (s', r')"
  shows "\<exists>f'. write_loop X qs r f = (f', r') \<and> agree content s' f' \<and> (flags f = flags s \<longrightarrow> flags f' = flags s')"
  using assms(2-4)
proof (induction qs arbitrary: r s f)
  case (Cons q qs)
  obtain t u where t: "writeSingle X q s = (t, u)" by (cases "writeSingle X q s")
  obtain g u' where g: "writeSingle X q f = (g, u')" by (cases "writeSingle X q f")
  have a: "u' = u" "agree content t g" "flags f = flags s \<longrightarrow> flags g = flags t"
    using writeSingle_agree [OF assms(1) _ Cons.prems(2) t g] Cons.prems(1) by auto
  show ?case
  proof (cases u)
    case (Ok v)
    then have w: "write_loop X qs (fst r + fst v, snd v) t = (s', r')" using Cons.prems(3) t by (cases v) simp
    have "\<exists>f'. write_loop X qs (fst r + fst v, snd v) g = (f', r') \<and> agree content s' f' \<and> (flags g = flags t \<longrightarrow> flags f' = flags s')"
      by (rule Cons.IH [OF _ a(2) w]) (use Cons.prems(1) in auto)
    then show ?thesis using g a(1,3) Ok by (cases v) auto
  qed (use Cons.prems(3) t g a in auto)
qed auto

lemma transactionsD:
  assumes "transactions X content stack intx"
  shows "\<not> intx db \<Longrightarrow> xe_exec X rollback_sql a db = (db', r) \<Longrightarrow>
      content db' = content db \<and> stack db' = stack db \<and> intx db' = intx db"
    and "intx db \<Longrightarrow> \<exists>db'. xe_commit X db = Some db' \<and> content db' = content db \<and> stack db' = [] \<and> \<not> intx db'"
    and "\<not> intx db \<Longrightarrow> \<exists>db'. xe_begin X db = Some db' \<and> content db' = content db \<and> stack db' = [] \<and> intx db'"
  using assms unfolding transactions_def by blast+

lemma savepointsD:
  assumes "savepoints X content stack intx"
  shows "xe_exec X savepoint_sql a db = (db', r) \<Longrightarrow>
      r \<noteq> None \<and> content db' = content db \<and> stack db' = content db # stack db \<and> intx db' = intx db"
    and "stack db = c # cs \<Longrightarrow> xe_exec X release_sql a db = (db', r) \<Longrightarrow>
      r \<noteq> None \<and> content db' = content db \<and> stack db' = cs \<and> intx db' = intx db"
    and "xe_exec X rollback_to_sql a db = (db', r) \<Longrightarrow>
      content db' = (case stack db of [] \<Rightarrow> content db | c # _ \<Rightarrow> c) \<and> stack db' = stack db \<and> intx db' = intx db"
  using assms unfolding savepoints_def by blast+

text \<open>A flush commits the transaction and begins another one.\<close>

lemma flushHandler_ok:
  assumes "transactions X content stack intx" and "settled stack intx s"
  shows "\<exists>s'. flushHandler X s = (s', Ok ()) \<and> settled stack intx s' \<and> agree content s s' \<and> st_pool s' = st_pool s \<and>
    st_trackers s' = st_trackers s \<and> st_level s' = st_level s \<and> st_nodeID s' = st_nodeID s \<and> \<not> st_hasSchemaChange s'"
proof (cases "st_level s = LevelReadUncommitted")
  case True
  then have "intx (st_strg s)" "st_handler s = TxHandler" using assms(2) by (auto simp: settled_def)
  moreover from transactionsD(2) [OF assms(1) this(1)] obtain db where db: "xe_commit X (st_strg s) = Some db"
    "content db = content (st_strg s)" "\<not> intx db" by blast
  moreover from transactionsD(3) [OF assms(1) db(3)] obtain db' where "xe_begin X db = Some db'"
    "content db' = content db" "stack db' = []" "intx db'" by blast
  ultimately show ?thesis using True by (simp add: flushHandler_def commitHandler_def openHandler_def settled_def agree_def)
next
  case False
  then show ?thesis using assms(2)
    by (cases "st_handler s") (auto simp: flushHandler_def commitHandler_def openHandler_def settled_def agree_def)
qed

lemma flush_if_needed_ok:
  assumes "transactions X content stack intx" and "settled stack intx s"
  shows "\<exists>s'. flush_if_needed X s = (s', Ok ()) \<and> settled stack intx s' \<and> agree content s s' \<and> st_pool s' = st_pool s \<and>
    st_trackers s' = st_trackers s \<and> st_level s' = st_level s \<and> st_nodeID s' = st_nodeID s"
  using flushHandler_ok [OF assms] assms(2) by (auto simp: flush_if_needed_def agree_def)

lemma settled_frame: "settled stack intx s \<Longrightarrow> frame stack intx s s' \<Longrightarrow> settled stack intx s'"
  by (simp add: settled_def frame_def)

section \<open>A request on the leader\<close>

lemma convert_not_Panic: "convertQueryAndBuildArgs parse q \<noteq> Panic"
proof -
  have "sanitize_parts parts query ddl ps \<noteq> Panic" for parts query ddl ps
    by (induction parts query ddl ps rule: sanitize_parts.induct)
      (auto simp: walk_sanitize Let_def split: sql_statement.splits)
  then show ?thesis by (auto simp: convertQueryAndBuildArgs_def split: option.splits res.splits)
qed

lemma write_loop_not_Panic: "write_loop X qs r s \<noteq> (s', Panic)"
proof (induction qs arbitrary: r s)
  case (Cons q qs)
  have "snd (writeSingle X q s) \<noteq> Panic"
    by (auto simp: writeSingle_def convert_not_Panic split: res.splits option.splits prod.splits)
  then show ?case using Cons.IH by (auto split: prod.splits res.splits)
qed simp

text \<open>The body after the savepoint has been set: \<open>cs\<close> is empty or has that savepoint.\<close>

definition opened :: "('db \<Rightarrow> 'c list) \<Rightarrow> ('db \<Rightarrow> bool) \<Rightarrow> 'c list \<Rightarrow> 'db State \<Rightarrow> bool" where
  "opened stack intx cs s \<longleftrightarrow>
     stack (st_strg s) = cs \<and> (intx (st_strg s) \<longleftrightarrow> st_level s = LevelReadUncommitted) \<and>
     (st_handler s = TxHandler \<longleftrightarrow> st_level s = LevelReadUncommitted)"

lemma settled_opened: "settled stack intx s \<longleftrightarrow> opened stack intx [] s"
  by (simp add: settled_def opened_def)

definition saved_at :: "Request \<Rightarrow> 'db State \<Rightarrow> 'c \<Rightarrow> 'c list" where
  "saved_at req s c = (if has_savepoint req s then [c] else [])"

lemma release_savepoint_ok:
  assumes "savepoints X content stack intx" and "opened stack intx (saved_at req m c) m"
  shows "\<exists>v w. release_savepoint X req lastSeq m = (v, Some w) \<and> settled stack intx v \<and> agree content m v \<and> st_pool v = st_pool m \<and>
    st_trackers v = st_trackers m \<and> st_level v = st_level m \<and> st_nodeID v = st_nodeID m"
proof (cases "has_savepoint req m")
  case True
  obtain db w where x: "xe_exec X release_sql (seq_args lastSeq) (st_strg m) = (db, w)"
    by (cases "xe_exec X release_sql (seq_args lastSeq) (st_strg m)")
  have "stack (st_strg m) = [c]" using True assms(2) by (auto simp: opened_def saved_at_def)
  from savepointsD(2) [OF assms(1) this x]
  have "w \<noteq> None" "content db = content (st_strg m)" "stack db = []" "intx db = intx (st_strg m)" by auto
  then show ?thesis using True assms(2) x
    by (auto simp: release_savepoint_def handler_Exec_def settled_def agree_def opened_def)
next
  case False
  then show ?thesis using assms(2) by (auto simp: release_savepoint_def settled_opened saved_at_def agree_def)
qed

lemma write_body_ok:
  assumes "sql_contract X plain content stack intx" and "plain_request X plain req"
    and "opened stack intx (saved_at req t c) t" and "write_loop X (req_Queries req) (0, 0) t = (m, Ok r)"
  shows "\<exists>u. write_body X req isLeader ref lastSeq t = (u, Ok r) \<and> settled stack intx u \<and> agree content m u \<and>
    st_pool u = (if isLeader then pool_enqueue lastSeq ref (st_pool t) else st_pool t) \<and>
    st_trackers u = st_trackers t \<and> st_level u = st_level t \<and> st_nodeID u = st_nodeID t"
proof -
  have c: "plain_exec X plain content stack intx" "savepoints X content stack intx" "transactions X content stack intx"
    using assms(1) by (simp_all add: sql_contract_def)
  have f: "frame stack intx t m"
    using write_loop_frame [OF c(1) _ assms(4)] assms(2) unfolding plain_request_def by blast
  then have "opened stack intx (saved_at req m c) m" using assms(3)
    by (simp add: opened_def saved_at_def frame_def has_savepoint_def)
  from release_savepoint_ok [OF c(2) this, of lastSeq] obtain v y where
    v: "release_savepoint X req lastSeq m = (v, Some y)" "settled stack intx v" "agree content m v" "st_pool v = st_pool t"
    "st_trackers v = st_trackers t" "st_level v = st_level t" "st_nodeID v = st_nodeID t"
    using f by (auto simp: frame_def)
  obtain w where w: "flush_if_needed X v = (w, Ok ())" "settled stack intx w" "agree content v w" "st_pool w = st_pool v"
    "st_trackers w = st_trackers v" "st_level w = st_level v" "st_nodeID w = st_nodeID v"
    using flush_if_needed_ok [OF c(3) v(2)] by auto
  have "write_body X req isLeader ref lastSeq t =
      (if isLeader then w \<lparr> st_pool := pool_enqueue lastSeq ref (st_pool w) \<rparr> else w, Ok r)"
    using v(1) w(1) by (simp add: write_body_def assms(4))
  then show ?thesis using v w by (auto simp: settled_def agree_def)
qed

lemma write_deferred_ok:
  assumes "sql_contract X plain content stack intx" and "settled stack intx u"
  shows "settled stack intx (write_deferred X req lastSeq u) \<and> agree content u (write_deferred X req lastSeq u) \<and>
    st_pool (write_deferred X req lastSeq u) = st_pool u \<and> st_trackers (write_deferred X req lastSeq u) = st_trackers u \<and>
    st_level (write_deferred X req lastSeq u) = st_level u \<and> st_nodeID (write_deferred X req lastSeq u) = st_nodeID u"
proof -
  obtain db w where x: "xe_exec X rollback_to_sql (seq_args lastSeq) (st_strg u) = (db, w)"
    by (cases "xe_exec X rollback_to_sql (seq_args lastSeq) (st_strg u)")
  obtain db' w' where x': "xe_exec X rollback_sql [] (st_strg u) = (db', w')" by (cases "xe_exec X rollback_sql [] (st_strg u)")
  have c: "savepoints X content stack intx" "transactions X content stack intx" using assms(1) by (simp_all add: sql_contract_def)
  have "content db = content (st_strg u) \<and> stack db = [] \<and> intx db = intx (st_strg u)"
    using savepointsD(3) [OF c(1) x] assms(2) by (simp add: settled_def)
  moreover have "st_level u \<noteq> LevelReadUncommitted \<longrightarrow>
      content db' = content (st_strg u) \<and> stack db' = [] \<and> intx db' = intx (st_strg u)"
    using transactionsD(1) [OF c(2) _ x'] assms(2) by (simp add: settled_def)
  ultimately show ?thesis using assms(2)
    by (auto simp: write_deferred_def has_savepoint_def handler_Exec_def x x' settled_def agree_def)
qed

text \<open>
  A request that is executed: its offset is the sequence number before it, and the data
  after it is what its statements make of the data before it. A failed request of one
  statement changes nothing.
\<close>

lemma set_savepoint_ok:
  assumes "savepoints X content stack intx" and "settled stack intx s"
  shows "\<exists>t y. set_savepoint X req lastSeq s = (t, Some y) \<and> opened stack intx (saved_at req s (content (st_strg s))) t \<and>
    agree content s t \<and> st_pool t = st_pool s \<and> st_trackers t = st_trackers s \<and> st_level t = st_level s \<and> flags t = flags s"
proof (cases "has_savepoint req s")
  case True
  obtain db w where x: "xe_exec X savepoint_sql (seq_args lastSeq) (st_strg s) = (db, w)"
    by (cases "xe_exec X savepoint_sql (seq_args lastSeq) (st_strg s)")
  from savepointsD(1) [OF assms(1) x] obtain y where "w = Some y" "content db = content (st_strg s)"
    "stack db = [content (st_strg s)]" "intx db = intx (st_strg s)" using assms(2) by (auto simp: settled_def)
  then show ?thesis using True assms(2) x
    by (simp add: set_savepoint_def handler_Exec_def opened_def saved_at_def agree_def settled_def flags_def)
next
  case False
  then show ?thesis using assms(2) by (simp add: set_savepoint_def opened_def saved_at_def agree_def settled_def)
qed

lemma saved_at_level: "st_level t = st_level s \<Longrightarrow> saved_at req t c = saved_at req s c"
  by (simp add: saved_at_def has_savepoint_def)

lemma state_write_ok:
  assumes "sql_contract X plain content stack intx" and "plain_request X plain req" and "settled stack intx s"
    and "write_loop X (req_Queries req) (0, 0) s = (m, Ok r)"
  shows "\<exists>s' resp. state_write X now req isLeader s = (s', Ok (length (st_trackers s), resp)) \<and> settled stack intx s' \<and> agree content m s' \<and>
    rs_LogOffset (srs_ResponseHeader (resp_Header resp)) = st_current s \<and>
    rs_Request (srs_ResponseHeader (resp_Header resp)) = request_header req \<and>
    st_pool s' = (if isLeader then pool_enqueue (st_current s) (length (st_trackers s)) (st_pool s) else st_pool s) \<and>
    st_trackers s' = st_trackers s @ [\<lparr> qt_Req = req, qt_Resp = None \<rparr>] \<and> st_level s' = st_level s"
proof -
  have c: "plain_exec X plain content stack intx" "savepoints X content stack intx" using assms(1) by (simp_all add: sql_contract_def)
  let ?s = "s \<lparr> st_trackers := st_trackers s @ [\<lparr> qt_Req = req, qt_Resp = None \<rparr>] \<rparr>"
  have "settled stack intx ?s" using assms(3) by (simp add: settled_def)
  from set_savepoint_ok [OF c(2) this, of req "st_current s"] obtain t y where
    t: "set_savepoint X req (st_current s) ?s = (t, Some y)" "opened stack intx (saved_at req t (content (st_strg s))) t"
    "agree content s t" "st_pool t = st_pool s" "st_trackers t = st_trackers ?s" "st_level t = st_level s"
    by (auto simp: agree_def saved_at_def has_savepoint_def)
  obtain n where n: "write_loop X (req_Queries req) (0, 0) t = (n, Ok r)" "agree content m n"
    using write_loop_agree [OF c(1) _ t(3) assms(4)] assms(2) unfolding plain_request_def by blast
  obtain u where u: "write_body X req isLeader (length (st_trackers s)) (st_current s) t = (u, Ok r)" "settled stack intx u" "agree content n u"
    "st_pool u = (if isLeader then pool_enqueue (st_current s) (length (st_trackers s)) (st_pool t) else st_pool t)"
    "st_trackers u = st_trackers t" "st_level u = st_level t"
    using write_body_ok [OF assms(1,2) t(2) n(1)] by blast
  note d = write_deferred_ok [OF assms(1) u(2), of req "st_current s"]
  have "state_write X now req isLeader s =
      (write_deferred X req (st_current s) u, Ok (length (st_trackers s), mk_response (write_deferred X req (st_current s) u) req now 0 (st_current s) (fst r) (snd r)
         \<lparr> rp_Columns = [], rp_DeclTypes = [], rp_Rows = [] \<rparr>))"
    using t(1) u(1) by (cases r) (simp add: state_write_def alloc_tracker_def Let_def)
  then show ?thesis using d u(4-6) t(4-6) n(2) u(3)
    by (simp add: mk_response_def agree_def)
qed

text \<open>
  A failed request: with a savepoint the data is what it was, but the savepoint is still
  open and the sequence number stays where the statements have moved it.
\<close>

lemma state_write_fails:
  assumes "sql_contract X plain content stack intx" and "plain_request X plain req" and "settled stack intx s"
    and "write_loop X (req_Queries req) (0, 0) s = (m, Err e)"
  shows "\<exists>s'. state_write X now req isLeader s = (s', Err e) \<and> st_current s' = st_current m \<and> flags s' = flags m \<and>
    opened stack intx (saved_at req s (content (st_strg s))) s' \<and>
    content (st_strg s') = (if has_savepoint req s then content (st_strg s) else content (st_strg m)) \<and>
    st_pool s' = pool_setFailed req (st_pool s) \<and>
    st_trackers s' = st_trackers s @ [\<lparr> qt_Req = req, qt_Resp = None \<rparr>] \<and> st_level s' = st_level s"
proof -
  have c: "plain_exec X plain content stack intx" "savepoints X content stack intx" "transactions X content stack intx"
    using assms(1) by (simp_all add: sql_contract_def)
  let ?s = "s \<lparr> st_trackers := st_trackers s @ [\<lparr> qt_Req = req, qt_Resp = None \<rparr>] \<rparr>"
  have "settled stack intx ?s" using assms(3) by (simp add: settled_def)
  from set_savepoint_ok [OF c(2) this, of req "st_current s"] obtain t y where
    t: "set_savepoint X req (st_current s) ?s = (t, Some y)" "opened stack intx (saved_at req s (content (st_strg s))) t"
    "agree content s t" "st_pool t = st_pool s" "st_trackers t = st_trackers ?s" "st_level t = st_level s" "flags t = flags s"
    by (auto simp: agree_def saved_at_def has_savepoint_def flags_def)
  obtain n where n: "write_loop X (req_Queries req) (0, 0) t = (n, Err e)" "agree content m n" "flags t = flags s \<longrightarrow> flags n = flags m"
    using write_loop_agree [OF c(1) _ t(3) assms(4)] assms(2) unfolding plain_request_def by blast
  have f: "frame stack intx t n" using write_loop_frame [OF c(1) _ n(1)] assms(2) unfolding plain_request_def by blast
  let ?u = "n \<lparr> st_pool := pool_setFailed req (st_pool n) \<rparr>" and ?q = "seq_args (st_current s)"
  have "state_write X now req isLeader s = (write_deferred X req (st_current s) ?u, Err e)"
    using t(1) n(1) by (simp add: state_write_def alloc_tracker_def Let_def write_body_def)
  moreover obtain db w where x: "xe_exec X rollback_to_sql ?q (st_strg n) = (db, w)" by (cases "xe_exec X rollback_to_sql ?q (st_strg n)")
  moreover obtain db' w' where x': "xe_exec X rollback_sql [] (st_strg n) = (db', w')" by (cases "xe_exec X rollback_sql [] (st_strg n)")
  moreover have "has_savepoint req s \<longrightarrow> content db = content (st_strg s) \<and> stack db = [content (st_strg s)] \<and> intx db = intx (st_strg n)"
    using savepointsD(3) [OF c(2) x] t(2) f by (auto simp: opened_def saved_at_def frame_def)
  moreover have "st_level s \<noteq> LevelReadUncommitted \<longrightarrow>
      content db' = content (st_strg n) \<and> stack db' = stack (st_strg n) \<and> intx db' = intx (st_strg n)"
    using transactionsD(1) [OF c(3) _ x'] t(2,6) f by (auto simp: opened_def frame_def)
  ultimately show ?thesis using t n(2,3) f
    by (auto simp: write_deferred_def handler_Exec_def opened_def saved_at_def agree_def frame_def has_savepoint_def flags_def)
qed

section \<open>A block on a replica\<close>

text \<open>
  The leader executes requests one after another; the transactions of its next block are
  those that succeeded, with the header of the response.
\<close>

fun leader_run :: "'db xeno_env \<Rightarrow> (Time \<times> Request) list \<Rightarrow> 'db State \<Rightarrow> 'db State \<times> QueryAsTx list \<times> Request list" where
  "leader_run X [] s = (s, [], [])"
| "leader_run X ((now, r) # rs) s =
     (case state_write X now r True s of
        (s, Ok (ref, resp)) \<Rightarrow>
          (case leader_run X rs s of (s, txs, fs) \<Rightarrow> (s, \<lparr> qx_Request = r, qx_Response = resp_Header resp \<rparr> # txs, fs))
      | (s, _) \<Rightarrow> (case leader_run X rs s of (s, txs, fs) \<Rightarrow> (s, txs, r # fs)))"

abbreviation tx_offset :: "QueryAsTx \<Rightarrow> u64" where
  "tx_offset v \<equiv> rs_LogOffset (srs_ResponseHeader (qx_Response v))"

definition pool_range :: "pool \<Rightarrow> bool" where
  "pool_range p \<longleftrightarrow> (\<forall>k v. mget (pl_index p) k = Some v \<longrightarrow> 0 \<le> v \<and> v < int (length (pl_queries p)))"

lemma pool_range_enqueue: "pool_range p \<Longrightarrow> pool_range (pool_enqueue sp q p)"
  by (fastforce simp: pool_range_def pool_enqueue_def Let_def)

lemma pool_range_truncate: "pool_range p \<Longrightarrow> \<exists>p'. pool_truncate sp p = Ok p'"
proof (cases "mget (pl_index p) sp")
  case (Some pos)
  assume "pool_range p"
  then have "0 \<le> pos" "pos < int (length (pl_queries p))" using Some by (simp_all add: pool_range_def)
  then show ?thesis using Some by (simp add: pool_truncate_def Let_def)
qed (simp add: pool_truncate_def)

lemma fold_removeFailed [simp]:
  "pl_index (fold pool_removeFailed rs p) = pl_index p \<and> pl_queries (fold pool_removeFailed rs p) = pl_queries p"
  by (induction rs arbitrary: p) (auto simp: pool_removeFailed_def Let_def)

text \<open>One transaction on the replica.\<close>

lemma replay_one:
  assumes "sql_contract X plain content stack intx" and "plain_request X plain (qx_Request v)" and "settled stack intx f"
    and "is_write v" and "tx_offset v = st_current s" and "agree content s f" and "pool_range (st_pool f)"
    and "write_loop X (req_Queries (qx_Request v)) (0, 0) s = (m, Ok r)"
  shows "\<exists>f' lsp. replay_txs X (v # vs) lastsp f = replay_txs X vs lsp f' \<and> settled stack intx f' \<and> agree content m f' \<and>
    pool_range (st_pool f')"
proof -
  have c: "plain_exec X plain content stack intx" using assms(1) by (simp add: sql_contract_def)
  let ?t = "\<lparr> qt_Req = qx_Request v, qt_Resp = Some \<lparr> resp_Header = qx_Response v,
      resp_Payload = \<lparr> rp_Columns = [], rp_DeclTypes = [], rp_Rows = [] \<rparr> \<rparr> \<rparr>"
  let ?f = "f \<lparr> st_trackers := st_trackers f @ [?t] \<rparr>"
  have "agree content s ?f" using assms(6) by (simp add: agree_def)
  then obtain n where n: "write_loop X (req_Queries (qx_Request v)) (0, 0) ?f = (n, Ok r)" "agree content m n"
    using write_loop_agree [OF c _ _ assms(8)] assms(2) unfolding plain_request_def by blast
  have fr: "frame stack intx ?f n" using write_loop_frame [OF c _ n(1)] assms(2) unfolding plain_request_def by blast
  let ?n = "n \<lparr> st_pool := pool_enqueue (st_current f) (length (st_trackers f)) (st_pool n) \<rparr>"
  have "replay_txs X (v # vs) lastsp f = replay_txs X vs (st_current f) ?n"
    using assms(4-6) n(1) by (simp add: alloc_tracker_def Let_def agree_def)
  moreover have "settled stack intx ?n" using fr assms(3) by (simp add: settled_def frame_def)
  moreover have "agree content m ?n" using n(2) by (simp add: agree_def)
  moreover have "pool_range (st_pool ?n)" using fr assms(7) by (simp add: pool_range_enqueue frame_def)
  ultimately show ?thesis by blast
qed

lemma replay_reads: "\<forall>v \<in> set vs. rq_QueryType (request_header (qx_Request v)) = ReadQuery \<Longrightarrow> replay_txs X vs lastsp f = (f, Ok lastsp)"
  by (induction vs) auto

lemma leader_follows:
  assumes "sql_contract X plain content stack intx"
    and "\<forall>p \<in> set reqs. plain_request X plain (snd p) \<and> rq_QueryType (request_header (snd p)) = WriteQuery"
    and "settled stack intx s" and "settled stack intx f" and "agree content s f" and "pool_range (st_pool f)"
    and "leader_run X reqs s = (s', txs, fs)" and "\<forall>r \<in> set fs. length (req_Queries r) \<le> 1"
    and "map qx_Request vs = map qx_Request txs" and "map tx_offset vs = map tx_offset txs"
    and "\<forall>v \<in> set reads. rq_QueryType (request_header (qx_Request v)) = ReadQuery"
  shows "\<exists>f' lsp refs. replay_txs X (vs @ reads) lastsp f = (f', Ok lsp) \<and> settled stack intx s' \<and> settled stack intx f' \<and>
    agree content s' f' \<and> pool_range (st_pool f') \<and> pl_queries (st_pool s') = pl_queries (st_pool s) @ refs \<and>
    pl_reads (st_pool s') = pl_reads (st_pool s) \<and>
    map (\<lambda>i. qt_Req (st_trackers s' ! i)) refs = map qx_Request txs \<and>
    (\<forall>i < length (st_trackers s). i < length (st_trackers s') \<and> st_trackers s' ! i = st_trackers s ! i)"
  using assms(2-10)
proof (induction reqs arbitrary: s f lastsp txs fs vs)
  case Nil
  then have "s' = s" "txs = []" "vs = []" by auto
  then show ?case using replay_reads [OF assms(11), of X lastsp f] Nil.prems(2-5) by auto
next
  case (Cons p rs)
  obtain now r where p: "p = (now, r)" by (cases p)
  have pr: "plain_request X plain r" "rq_QueryType (request_header r) = WriteQuery" using Cons.prems(1) p by auto
  have prems: "\<forall>p \<in> set rs. plain_request X plain (snd p) \<and> rq_QueryType (request_header (snd p)) = WriteQuery"
    using Cons.prems(1) by simp
  have c: "plain_exec X plain content stack intx" using assms(1) by (simp add: sql_contract_def)
  obtain m w where w: "write_loop X (req_Queries r) (0, 0) s = (m, w)" by (cases "write_loop X (req_Queries r) (0, 0) s")
  show ?case
  proof (cases w)
    case (Ok v)
    obtain t resp where t: "state_write X now r True s = (t, Ok (length (st_trackers s), resp))" "settled stack intx t" "agree content m t"
      "rs_LogOffset (srs_ResponseHeader (resp_Header resp)) = st_current s"
      "st_pool t = pool_enqueue (st_current s) (length (st_trackers s)) (st_pool s)"
      "st_trackers t = st_trackers s @ [\<lparr> qt_Req = r, qt_Resp = None \<rparr>]"
      using state_write_ok [OF assms(1) pr(1) Cons.prems(2) w [unfolded Ok], of now True] by auto
    obtain txs' where l: "leader_run X rs t = (s', txs', fs)" "txs = \<lparr> qx_Request = r, qx_Response = resp_Header resp \<rparr> # txs'"
      using Cons.prems(6) t(1) p by (auto split: prod.splits)
    obtain u us where us: "vs = u # us" "qx_Request u = r" "tx_offset u = st_current s" "map qx_Request us = map qx_Request txs'"
      "map tx_offset us = map tx_offset txs'" using Cons.prems(8,9) l(2) t(4) by (cases vs) auto
    obtain g lsp where g: "replay_txs X (u # us @ reads) lastsp f = replay_txs X (us @ reads) lsp g" "settled stack intx g"
      "agree content m g" "pool_range (st_pool g)"
      using replay_one [OF assms(1) _ Cons.prems(3) _ us(3) Cons.prems(4,5), where m = m and r = v and vs = "us @ reads" and lastsp = lastsp]
        pr w us(2) Ok by auto
    have "agree content t g" using t(3) g(3) by (simp add: agree_def)
    from Cons.IH [OF prems t(2) g(2) this g(4) l(1) Cons.prems(7) us(4,5), of lsp]
    obtain f' lsp' refs where h: "replay_txs X (us @ reads) lsp g = (f', Ok lsp')" "settled stack intx s'" "settled stack intx f'"
      "agree content s' f'" "pool_range (st_pool f')" "pl_queries (st_pool s') = pl_queries (st_pool t) @ refs"
      "pl_reads (st_pool s') = pl_reads (st_pool t)" "map (\<lambda>i. qt_Req (st_trackers s' ! i)) refs = map qx_Request txs'"
      "\<forall>i < length (st_trackers t). i < length (st_trackers s') \<and> st_trackers s' ! i = st_trackers t ! i" by blast
    have "st_trackers s' ! length (st_trackers s) = \<lparr> qt_Req = r, qt_Resp = None \<rparr>" using h(9) t(6) by simp
    then have "map (\<lambda>i. qt_Req (st_trackers s' ! i)) (length (st_trackers s) # refs) = map qx_Request txs" using h(8) l(2) by simp
    moreover have "pl_queries (st_pool s') = pl_queries (st_pool s) @ length (st_trackers s) # refs" "pl_reads (st_pool s') = pl_reads (st_pool s)"
      using h(6,7) t(5) by (simp_all add: pool_enqueue_def Let_def)
    moreover have "\<forall>i < length (st_trackers s). i < length (st_trackers s') \<and> st_trackers s' ! i = st_trackers s ! i"
      using h(9) t(6) by (simp add: nth_append)
    moreover have "replay_txs X (vs @ reads) lastsp f = (f', Ok lsp')" using g(1) h(1) us(1) by simp
    ultimately show ?thesis using h(2-5) by blast
  next
    case (Err e)
    obtain t where t: "state_write X now r True s = (t, Err e)" "st_current t = st_current m"
      "opened stack intx (saved_at r s (content (st_strg s))) t"
      "content (st_strg t) = (if has_savepoint r s then content (st_strg s) else content (st_strg m))"
      "st_pool t = pool_setFailed r (st_pool s)" "st_trackers t = st_trackers s @ [\<lparr> qt_Req = r, qt_Resp = None \<rparr>]"
      using state_write_fails [OF assms(1) pr(1) Cons.prems(2) w [unfolded Err], of now True] by auto
    obtain fs' where l: "leader_run X rs t = (s', txs, fs')" "fs = r # fs'" using Cons.prems(6) t(1) p by (auto split: prod.splits)
    then have one: "length (req_Queries r) \<le> 1" "\<forall>r \<in> set fs'. length (req_Queries r) \<le> 1" using Cons.prems(7) by auto
    have "agree content s m" using write_loop_frame [OF c _ w] pr(1) one(1) Err unfolding plain_request_def by auto
    then have st: "settled stack intx t" "agree content t f"
      using t one(1) Cons.prems(4) by (auto simp: settled_opened saved_at_def has_savepoint_def agree_def)
    from Cons.IH [OF prems st(1) Cons.prems(3) st(2) Cons.prems(5) l(1) one(2) Cons.prems(8,9), of lastsp]
    show ?thesis using t(5,6) by (auto simp: pool_setFailed_def Let_def nth_append)
  next
    case Panic
    then show ?thesis using write_loop_not_Panic w by blast
  qed
qed

lemma leader_block_replays:
  assumes "sql_contract X plain content stack intx"
    and "\<forall>p \<in> set reqs. plain_request X plain (snd p) \<and> rq_QueryType (request_header (snd p)) = WriteQuery"
    and "settled stack intx s" and "st_pool s = newPool" and "settled stack intx f" and "pool_range (st_pool f)"
    and "agree content s f"
    and "leader_run X reqs s = (s', txs, fs)" and "\<forall>r \<in> set fs. length (req_Queries r) \<le> 1"
    and "sb_QueryTxs b = vs @ reads" and "map qx_Request vs = map qx_Request txs" and "map tx_offset vs = map tx_offset txs"
    and "\<forall>v \<in> set reads. rq_QueryType (request_header (qx_Request v)) = ReadQuery"
  shows "\<exists>s'' failed refs f'. CommitEx X s' = (s'', Ok (failed, refs)) \<and>
    map (\<lambda>i. qt_Req (st_trackers s'' ! i)) refs = map qx_Request txs \<and>
    ReplayBlockWithContext X b f = (f', Ok ()) \<and> agree content s'' f'"
proof -
  have c: "transactions X content stack intx" using assms(1) by (simp add: sql_contract_def)
  from leader_follows [OF assms(1,2,3,5,7,6,8,9,11,12,13), of 0]
  obtain g lsp refs where g: "replay_txs X (sb_QueryTxs b) 0 f = (g, Ok lsp)" "settled stack intx s'" "settled stack intx g"
    "agree content s' g" "pool_range (st_pool g)" "pl_queries (st_pool s') = refs" "pl_reads (st_pool s') = []"
    "map (\<lambda>i. qt_Req (st_trackers s' ! i)) refs = map qx_Request txs"
    unfolding assms(4,10) by (auto simp: newPool_def)
  obtain u where u: "flushHandler X s' = (u, Ok ())" "agree content s' u" "st_pool u = st_pool s'" "st_trackers u = st_trackers s'"
    using flushHandler_ok [OF c g(2)] by blast
  obtain h where h: "flushHandler X g = (h, Ok ())" "agree content g h" "st_pool h = st_pool g"
    using flushHandler_ok [OF c g(3)] by blast
  let ?p = "fold pool_removeFailed (sb_FailedReqs b) (st_pool h)"
  have "pool_range ?p" using g(5) h(3) by (simp add: pool_range_def)
  then obtain p' where "pool_truncate lsp ?p = Ok p'" using pool_range_truncate by blast
  then have "ReplayBlockWithContext X b f = (h \<lparr> st_pool := p' \<rparr>, Ok ())"
    using g(1) h(1) by (simp add: ReplayBlockWithContext_def Let_def)
  moreover have "CommitEx X s' = (u \<lparr> st_pool := newPool \<rparr>, Ok (pool_failedList (st_pool s'), refs))"
    using u(1,3) g(6,7) by (simp add: CommitEx_def)
  moreover have "agree content (u \<lparr> st_pool := newPool \<rparr>) (h \<lparr> st_pool := p' \<rparr>)"
    using u(2) h(2) g(4) by (simp add: agree_def)
  moreover have "map (\<lambda>i. qt_Req (st_trackers (u \<lparr> st_pool := newPool \<rparr>) ! i)) refs = map qx_Request txs" using g(8) u(4) by simp
  ultimately show ?thesis by blast
qed

section \<open>Properties\<close>

text \<open>
  C7: A replica follows the leader, on an engine whose savepoints and transactions behave as
  documented and for requests whose statements are deterministic, do not control
  transactions and have no effect when they fail (which the sanitizer does not check). The
  leader executes write requests, of which only single statements fail, and commits; its
  queries are then those that succeeded, in their
  order. A replica with the same data and sequence number that replays a block with these
  queries, at the offsets of the responses and followed by reads, accepts it and has the
  data and the sequence number of the leader.
\<close>

theorem block_replay_follows_leader:
  assumes "sql_contract X plain content stack intx"
    and "\<forall>p \<in> set reqs. plain_request X plain (snd p) \<and> rq_QueryType (request_header (snd p)) = WriteQuery"
    and "settled stack intx s" and "st_pool s = newPool" and "settled stack intx f" and "pool_range (st_pool f)"
    and "agree content s f"
    and "leader_run X reqs s = (s', txs, fs)" and "\<forall>r \<in> set fs. length (req_Queries r) \<le> 1"
    and "sb_QueryTxs b = vs @ reads" and "map qx_Request vs = map qx_Request txs" and "map tx_offset vs = map tx_offset txs"
    and "\<forall>v \<in> set reads. rq_QueryType (request_header (qx_Request v)) = ReadQuery"
  shows "\<exists>s'' failed refs f'. CommitEx X s' = (s'', Ok (failed, refs)) \<and>
    map (\<lambda>i. qt_Req (st_trackers s'' ! i)) refs = map qx_Request txs \<and>
    ReplayBlockWithContext X b f = (f', Ok ()) \<and> agree content s'' f'"
  by (rule leader_block_replays [OF assms])

text \<open>
  C37: Batches are lost after a failed batch. A batch that fails at the isolation level read
  uncommitted, which keeps a transaction open, leaves its savepoint open. When the next
  request is a batch that succeeds, and is not followed by a commit at once, it
  releases its own savepoint and then rolls back to that one: it is answered and pooled
  with the sequence number moved on, but the data is what it was before the failed batch.
\<close>

theorem batch_after_failed_batch_lost:
  assumes "sql_contract X plain content stack intx" and "plain_request X plain a" and "plain_request X plain b"
    and "settled stack intx s" and "st_level s = LevelReadUncommitted"
    and "length (req_Queries a) > 1" and "length (req_Queries b) > 1"
    and "write_loop X (req_Queries a) (0, 0) s = (m, Err e)" and "state_write X now a L s = (t, w)"
    and "write_loop X (req_Queries b) (0, 0) t = (n, Ok r)"
    and "\<not> st_hasSchemaChange n" and "st_current n - st_lastCommitPoint n \<le> st_maxTx n"
  shows "w = Err e \<and> (\<exists>u ref resp. state_write X now' b True t = (u, Ok (ref, resp)) \<and>
    content (st_strg u) = content (st_strg s) \<and> st_current u = st_current t + of_nat (length (req_Queries b)) \<and>
    pl_queries (st_pool u) = pl_queries (st_pool t) @ [ref])"
proof -
  have c: "plain_exec X plain content stack intx" "savepoints X content stack intx" using assms(1) by (simp_all add: sql_contract_def)
  obtain t': "w = Err e" "opened stack intx [content (st_strg s)] t" "content (st_strg t) = content (st_strg s)" "st_level t = LevelReadUncommitted"
    using state_write_fails [OF assms(1,2,4,8), of now L] assms(5,6,9) by (auto simp: saved_at_def has_savepoint_def)
  let ?t = "t \<lparr> st_trackers := st_trackers t @ [\<lparr> qt_Req = b, qt_Resp = None \<rparr>] \<rparr>" and ?q = "seq_args (st_current t)" and ?c = "content (st_strg s)"
  obtain d1 y1 where x1: "xe_exec X savepoint_sql ?q (st_strg t) = (d1, Some y1)" "content d1 = ?c" "stack d1 = [?c, ?c]" "intx d1 = intx (st_strg t)"
    using savepointsD(1) [OF c(2), of ?q "st_strg t"] t'(2,3) by (cases "xe_exec X savepoint_sql ?q (st_strg t)") (auto simp: opened_def)
  have sp: "has_savepoint b (t' :: 'a State)" if "st_level t' = LevelReadUncommitted" for t' using assms(7) that by (simp add: has_savepoint_def)
  have "agree content t (?t \<lparr> st_strg := d1 \<rparr>)" using x1(2) t'(3) by (simp add: agree_def)
  from write_loop_agree [OF c(1) _ this assms(10)] obtain k where
    k: "write_loop X (req_Queries b) (0, 0) (?t \<lparr> st_strg := d1 \<rparr>) = (k, Ok r)" "agree content n k" "flags k = flags n"
    using assms(3) unfolding plain_request_def by (auto simp: flags_def)
  have fk: "frame stack intx (?t \<lparr> st_strg := d1 \<rparr>) k" "st_current k = st_current t + of_nat (length (req_Queries b))"
    using write_loop_frame [OF c(1) _ k(1)] assms(3) unfolding plain_request_def by auto
  obtain d2 y2 where x2: "xe_exec X release_sql ?q (st_strg k) = (d2, Some y2)" "stack d2 = [?c]"
  proof -
    obtain d2 w where x: "xe_exec X release_sql ?q (st_strg k) = (d2, w)" by (cases "xe_exec X release_sql ?q (st_strg k)")
    have "stack (st_strg k) = [?c, ?c]" using fk(1) x1(3) by (simp add: frame_def)
    from savepointsD(2) [OF c(2) this x] show ?thesis using x that by blast
  qed
  obtain d3 y3 where x3: "xe_exec X rollback_to_sql ?q d2 = (d3, y3)" "content d3 = ?c"
  proof -
    obtain d3 w where x: "xe_exec X rollback_to_sql ?q d2 = (d3, w)" by (cases "xe_exec X rollback_to_sql ?q d2")
    from savepointsD(3) [OF c(2) this] have "content d3 = ?c" using x2(2) by simp
    with x that show ?thesis by blast
  qed
  have lk: "st_level k = LevelReadUncommitted" using fk(1) t'(4) by (simp add: frame_def)
  have nf: "flush_if_needed X (k \<lparr> st_strg := d2 \<rparr>) = (k \<lparr> st_strg := d2 \<rparr>, Ok ())"
    using assms(11,12) k(2,3) by (auto simp: flush_if_needed_def flags_def agree_def dest: leD)
  let ?u = "k \<lparr> st_strg := d3, st_pool := pool_enqueue (st_current t) (length (st_trackers t)) (st_pool t) \<rparr>"
  have "write_body X b True (length (st_trackers t)) (st_current t) (?t \<lparr> st_strg := d1 \<rparr>)
      = (k \<lparr> st_strg := d2, st_pool := pool_enqueue (st_current t) (length (st_trackers t)) (st_pool t) \<rparr>, Ok r)"
    using k(1) x2(1) nf lk sp [of k] fk(1) by (simp add: write_body_def release_savepoint_def handler_Exec_def frame_def)
  then have "\<exists>resp. state_write X now' b True t = (?u, Ok (length (st_trackers t), resp))"
    using x1(1) x3(1) sp t'(4) lk
    by (cases r) (simp add: state_write_def alloc_tracker_def Let_def set_savepoint_def handler_Exec_def write_deferred_def)
  moreover have "content (st_strg ?u) = ?c" "st_current ?u = st_current t + of_nat (length (req_Queries b))"
    "pl_queries (st_pool ?u) = pl_queries (st_pool t) @ [length (st_trackers t)]"
    using x3(2) fk(2) by (simp_all add: pool_enqueue_def Let_def)
  ultimately show ?thesis using t'(1) by blast
qed

text \<open>
  C38: A failed change of the schema blocks all reads. At the isolation level read
  uncommitted, a request that fails after a statement that changes the schema leaves the mark
  of an uncommitted change. A read that is the next request takes the lock of the state and
  asks for it again: it never returns and never releases the lock.
\<close>

theorem failed_schema_change_blocks_reads:
  assumes "sql_contract X plain content stack intx" and "plain_request X plain a" and "settled stack intx s"
    and "st_level s = LevelReadUncommitted" and "write_loop X (req_Queries a) (0, 0) s = (m, Err e)" and "st_hasSchemaChange m"
    and "rq_QueryType (request_header b) = ReadQuery"
  shows "\<exists>t. state_write X now a L s = (t, Err e) \<and> QueryWithContext X now' b L' t = None"
proof -
  obtain t where t: "state_write X now a L s = (t, Err e)" "st_hasSchemaChange t" "st_level t = LevelReadUncommitted"
    using state_write_fails [OF assms(1-3,5), of now L] assms(4,6) by (auto simp: flags_def)
  have "read_loop X rd qs db r \<noteq> Panic" for rd qs db r
    by (induction qs arbitrary: r) (auto simp: readSingle_def convert_not_Panic split: res.splits option.splits)
  then have "readTx X now' b t = None" using t(2,3)
    by (auto simp: readTx_def Let_def state_Lock_def split: res.splits)
  then show ?thesis using t(1) assms(7) by (simp add: QueryWithContext_def)
qed

text \<open>
  A block that fails half way is accepted the next time. When the only query of a block,
  a write, fails after some of its statements, the statements stay executed and the sequence
  number has moved on, so that the same block, sent again, skips the query and is accepted:
  the data is that of the half executed query.
\<close>

theorem failed_block_accepted_again:
  assumes "sql_contract X plain content stack intx" and "plain_request X plain (qx_Request v)" and "settled stack intx f"
    and "pool_range (st_pool f)" and "sb_QueryTxs b = [v]" and "is_write v" and "tx_offset v = st_current f"
    and "write_loop X (req_Queries (qx_Request v)) (0, 0) f = (m, Err e)" and "st_current f < st_current m"
  shows "\<exists>g h. ReplayBlockWithContext X b f = (g, Err e) \<and> ReplayBlockWithContext X b g = (h, Ok ()) \<and>
    content (st_strg h) = content (st_strg m)"
proof -
  have c: "plain_exec X plain content stack intx" "transactions X content stack intx" using assms(1) by (simp_all add: sql_contract_def)
  let ?t = "\<lparr> qt_Req = qx_Request v, qt_Resp = Some \<lparr> resp_Header = qx_Response v,
      resp_Payload = \<lparr> rp_Columns = [], rp_DeclTypes = [], rp_Rows = [] \<rparr> \<rparr> \<rparr>"
  let ?f = "f \<lparr> st_trackers := st_trackers f @ [?t] \<rparr>"
  have "agree content f ?f" by (simp add: agree_def)
  then obtain g where g: "write_loop X (req_Queries (qx_Request v)) (0, 0) ?f = (g, Err e)" "agree content m g"
    using write_loop_agree [OF c(1) _ _ assms(8)] assms(2) unfolding plain_request_def by blast
  have fr: "frame stack intx ?f g" using write_loop_frame [OF c(1) _ g(1)] assms(2) unfolding plain_request_def by blast
  have first: "ReplayBlockWithContext X b f = (g, Err e)"
    using assms(5-7) g(1) by (simp add: ReplayBlockWithContext_def alloc_tracker_def Let_def)
  let ?g = "g \<lparr> st_trackers := st_trackers g @ [?t] \<rparr>"
  have less: "tx_offset v < st_current g" using assms(7,9) g(2) by (simp add: agree_def)
  have "settled stack intx ?g" using fr assms(3) by (simp add: settled_def frame_def)
  then obtain h where h: "flushHandler X ?g = (h, Ok ())" "agree content ?g h" "st_pool h = st_pool g"
    using flushHandler_ok [OF c(2), of ?g] by auto
  have "pool_range (fold pool_removeFailed (sb_FailedReqs b) (st_pool h))" using fr h(3) assms(4) by (simp add: pool_range_def frame_def)
  then obtain p where "pool_truncate (st_current g) (fold pool_removeFailed (sb_FailedReqs b) (st_pool h)) = Ok p"
    using pool_range_truncate by blast
  then have "ReplayBlockWithContext X b g = (h \<lparr> st_pool := p \<rparr>, Ok ())"
    using assms(5,6) less h(1) by (simp add: ReplayBlockWithContext_def alloc_tracker_def Let_def order.asym)
  then show ?thesis using first h(2) g(2) by (auto simp: agree_def)
qed

section \<open>An engine\<close>

text \<open>The data is the number of executed statements; \<open>fail\<close> fails and \<open>ddl\<close> changes the schema.\<close>

type_synonym counter_db = "nat \<times> nat list \<times> bool"

definition counter_exec :: "string \<Rightarrow> NamedArg list \<Rightarrow> counter_db \<Rightarrow> counter_db \<times> (u64 \<times> u64) option" where
  "counter_exec p a db =
     (case db of (d, cs, tx) \<Rightarrow>
        if p = savepoint_sql then ((d, d # cs, tx), Some (0, 0))
        else if p = release_sql then (case cs of [] \<Rightarrow> (db, None) | _ # cs \<Rightarrow> ((d, cs, tx), Some (0, 0)))
        else if p = rollback_to_sql then (case cs of [] \<Rightarrow> (db, None) | c # _ \<Rightarrow> ((c, cs, tx), Some (0, 0)))
        else if p = rollback_sql \<or> p = ''fail'' then (db, None)
        else ((d + 1, cs, tx), Some (1, 0)))"

definition counter_env :: "counter_db xeno_env" where
  "counter_env =
     \<lparr> xe_parse = (\<lambda>s. Some [(s, if s = ''ddl'' then DDL None '''' '''' (OtherNode []) else OtherStatement (OtherNode []))]),
       xe_exec = counter_exec,
       xe_begin = (\<lambda>(d, cs, tx). if tx then None else Some (d, [], True)),
       xe_commit = (\<lambda>(d, cs, tx). if tx then Some (d, [], False) else None),
       xe_rollback = (\<lambda>db. Some db), xe_query = (\<lambda>rd p a db. Some ([], [], [])), xe_open_read = (\<lambda>rd db. True),
       xe_close = (\<lambda>db. (db, True)) \<rparr>"

definition counter_plain :: "string \<Rightarrow> bool" where
  "counter_plain p \<longleftrightarrow> p \<notin> {savepoint_sql, release_sql, rollback_to_sql, rollback_sql}"

lemma sql_distinct:
  "savepoint_sql \<noteq> release_sql" "savepoint_sql \<noteq> rollback_to_sql" "savepoint_sql \<noteq> rollback_sql"
  "release_sql \<noteq> rollback_to_sql" "release_sql \<noteq> rollback_sql" "rollback_to_sql \<noteq> rollback_sql"
  by (simp_all add: savepoint_sql_def release_sql_def rollback_to_sql_def rollback_sql_def)

lemma counter_contract: "sql_contract counter_env counter_plain fst (fst \<circ> snd) (snd \<circ> snd)"
proof -
  have "plain_exec counter_env counter_plain fst (fst \<circ> snd) (snd \<circ> snd)"
    unfolding plain_exec_def by (auto simp: counter_env_def counter_exec_def counter_plain_def)
  moreover have "savepoints counter_env fst (fst \<circ> snd) (snd \<circ> snd)"
    unfolding savepoints_def by (auto simp: counter_env_def counter_exec_def sql_distinct sql_distinct [symmetric] split: list.splits if_splits)
  moreover have "transactions counter_env fst (fst \<circ> snd) (snd \<circ> snd)"
    unfolding transactions_def by (auto simp: counter_env_def counter_exec_def sql_distinct [symmetric])
  ultimately show ?thesis by (simp add: sql_contract_def)
qed

definition example_request :: "QueryType \<Rightarrow> string list \<Rightarrow> Request" where
  "example_request t ps =
     \<lparr> req_Header =
         \<lparr> srq_RequestHeader = \<lparr> rq_QueryType = t, rq_NodeID = '''', rq_DatabaseID = '''', rq_ConnectionID = 0, rq_SeqNo = 0,
             rq_Timestamp = 0, rq_BatchCount = 0, rq_QueriesHash = [] \<rparr>,
           srq_HSV = \<lparr> hv_DataHash = [], hv_Signee = None, hv_Signature = None \<rparr> \<rparr>,
       req_Queries = map (\<lambda>p. \<lparr> q_Pattern = p, q_Args = [] \<rparr>) ps \<rparr>"

definition example_state :: "int \<Rightarrow> counter_db State" where
  "example_state level = fst (NewState counter_env level '''' (0, [], False))"

lemma example_settled: "settled (fst \<circ> snd) (snd \<circ> snd) (example_state 1)" "settled (fst \<circ> snd) (snd \<circ> snd) (example_state 0)"
  by (simp_all add: example_state_def NewState_def openHandler_def counter_env_def settled_def LevelReadUncommitted_def)

lemma example_plain:
  "plain_request counter_env counter_plain (example_request t [''a'', ''b''])"
  "plain_request counter_env counter_plain (example_request t [''fail''])"
  "plain_request counter_env counter_plain (example_request t [''a'', ''fail''])"
  "plain_request counter_env counter_plain (example_request t [''ddl'', ''fail''])"
  by (auto simp: plain_request_def example_request_def convertQueryAndBuildArgs_def counter_env_def counter_plain_def tx_keyword_def
      Let_def ToLower_def HasPrefix_def char_ToLower_def of_char_def sanitize_visit_def
      savepoint_sql_def release_sql_def rollback_to_sql_def rollback_sql_def default_nodes_def)

definition example_sql_block :: "QueryAsTx list \<Rightarrow> Block" where
  "example_sql_block vs =
     \<lparr> sb_SignedHeader = \<lparr> sh_Header = \<lparr> hd_Version = 0, hd_Producer = '''', hd_GenesisHash = [], hd_ParentHash = [], hd_MerkleRoot = [],
         hd_Timestamp = 0 \<rparr>, sh_HSV = \<lparr> hv_DataHash = [], hv_Signee = None, hv_Signature = None \<rparr> \<rparr>,
       sb_FailedReqs = [], sb_QueryTxs = vs, sb_Acks = [] \<rparr>"

abbreviation example_reqs :: "(Time \<times> Request) list" where
  "example_reqs \<equiv> [(0, example_request WriteQuery [''a'', ''b'']), (0, example_request WriteQuery [''fail''])]"

theorem block_replay_follows_leader_witness:
  "\<exists>s' txs fs s'' failed refs f'. leader_run counter_env example_reqs (example_state 1) = (s', txs, fs) \<and>
     CommitEx counter_env s' = (s'', Ok (failed, refs)) \<and> ReplayBlockWithContext counter_env (example_sql_block txs) (example_state 0) = (f', Ok ()) \<and>
     agree fst s'' f'"
proof -
  obtain s' txs fs where r: "leader_run counter_env example_reqs (example_state 1) = (s', txs, fs)"
    by (cases "leader_run counter_env example_reqs (example_state 1)")
  have "list_all (\<lambda>r. length (req_Queries r) \<le> 1) (snd (snd (leader_run counter_env example_reqs (example_state 1))))" by code_simp
  then have f: "\<forall>r \<in> set fs. length (req_Queries r) \<le> 1" using r by (simp add: list_all_iff)
  have p: "\<forall>p \<in> set example_reqs. plain_request counter_env counter_plain (snd p) \<and> rq_QueryType (request_header (snd p)) = WriteQuery"
    using example_plain by (simp add: example_request_def)
  have s: "st_pool (example_state 1) = newPool" "st_pool (example_state 0) = newPool" "agree fst (example_state 1) (example_state 0)"
    "pool_range newPool"
    by (simp_all add: example_state_def NewState_def openHandler_def counter_env_def LevelReadUncommitted_def agree_def pool_range_def newPool_def)
  have "pool_range (st_pool (example_state 0))" by (simp add: s)
  from block_replay_follows_leader [OF counter_contract p example_settled(1) s(1) example_settled(2) this s(3) r f, of "example_sql_block txs" txs "[]"]
  show ?thesis using r by (auto simp: example_sql_block_def)
qed

definition example_failed_batch :: Request where "example_failed_batch = example_request WriteQuery [''a'', ''fail'']"
definition example_batch :: Request where "example_batch = example_request WriteQuery [''a'', ''b'']"
definition example_failed_ddl :: Request where "example_failed_ddl = example_request WriteQuery [''ddl'', ''fail'']"

theorem batch_after_failed_batch_lost_witness:
  "\<exists>t u ref resp. state_write counter_env 0 example_failed_batch True (example_state 1) = (t, Err ErrExecSQL) \<and>
     state_write counter_env 0 example_batch True t = (u, Ok (ref, resp)) \<and> fst (st_strg u) = 0 \<and> st_current u = 3"
proof -
  obtain t w where t: "state_write counter_env 0 example_failed_batch True (example_state 1) = (t, w)"
    by (cases "state_write counter_env 0 example_failed_batch True (example_state 1)")
  obtain m where m: "write_loop counter_env (req_Queries example_failed_batch) (0, 0) (example_state 1) = (m, Err ErrExecSQL)"
  proof -
    have "snd (write_loop counter_env (req_Queries example_failed_batch) (0, 0) (example_state 1)) = Err ErrExecSQL" by code_simp
    then show ?thesis using that by (metis prod.collapse)
  qed
  let ?n = "write_loop counter_env (req_Queries example_batch) (0, 0) (fst (state_write counter_env 0 example_failed_batch True (example_state 1)))"
  have n: "snd ?n = Ok (2, 0)" "\<not> st_hasSchemaChange (fst ?n)" "st_current (fst ?n) - st_lastCommitPoint (fst ?n) \<le> st_maxTx (fst ?n)" by code_simp+
  then obtain n where n': "write_loop counter_env (req_Queries example_batch) (0, 0) t = (n, Ok (2, 0))" "\<not> st_hasSchemaChange n"
    "st_current n - st_lastCommitPoint n \<le> st_maxTx n" using t by (metis fst_conv prod.collapse)
  have c: "st_current (fst (state_write counter_env 0 example_failed_batch True (example_state 1))) = 1" by code_simp
  have l: "st_level (example_state 1) = LevelReadUncommitted" "fst (st_strg (example_state 1)) = 0" by code_simp+
  have q: "length (req_Queries example_failed_batch) > 1" "length (req_Queries example_batch) = 2" by code_simp+
  have p: "plain_request counter_env counter_plain example_failed_batch" "plain_request counter_env counter_plain example_batch"
    using example_plain by (simp_all add: example_failed_batch_def example_batch_def)
  have "length (req_Queries example_batch) > 1" using q(2) by simp
  from batch_after_failed_batch_lost [OF counter_contract p example_settled(1) l(1) q(1) this m t n'(1,2,3), of 0]
  show ?thesis using t c l(2) q(2) by auto
qed

theorem failed_schema_change_blocks_reads_witness:
  "\<exists>t. state_write counter_env 0 example_failed_ddl True (example_state 1) = (t, Err ErrExecSQL) \<and>
     QueryWithContext counter_env 0 (example_request ReadQuery [''a'']) False t = None"
proof -
  let ?m = "write_loop counter_env (req_Queries example_failed_ddl) (0, 0) (example_state 1)"
  have "snd ?m = Err ErrExecSQL" "st_hasSchemaChange (fst ?m)" by code_simp+
  then obtain m where m: "?m = (m, Err ErrExecSQL)" "st_hasSchemaChange m" by (metis prod.collapse)
  have l: "st_level (example_state 1) = LevelReadUncommitted" by code_simp
  have p: "plain_request counter_env counter_plain example_failed_ddl" using example_plain by (simp add: example_failed_ddl_def)
  have "rq_QueryType (request_header (example_request ReadQuery [''a''])) = ReadQuery" by (simp add: example_request_def)
  from failed_schema_change_blocks_reads [OF counter_contract p example_settled(1) l m this] show ?thesis .
qed

definition example_half_tx :: QueryAsTx where
  "example_half_tx = \<lparr> qx_Request = example_failed_batch,
     qx_Response = resp_Header (mk_response (example_state 0) example_failed_batch 0 0 0 0 0 \<lparr> rp_Columns = [], rp_DeclTypes = [], rp_Rows = [] \<rparr>) \<rparr>"

theorem failed_block_accepted_again_witness:
  "\<exists>g h. ReplayBlockWithContext counter_env (example_sql_block [example_half_tx]) (example_state 0) = (g, Err ErrExecSQL) \<and>
     ReplayBlockWithContext counter_env (example_sql_block [example_half_tx]) g = (h, Ok ()) \<and> fst (st_strg h) = 1"
proof -
  let ?m = "write_loop counter_env (req_Queries (qx_Request example_half_tx)) (0, 0) (example_state 0)"
  have "snd ?m = Err ErrExecSQL" "st_current (fst ?m) = 1" "fst (st_strg (fst ?m)) = 1" by code_simp+
  then obtain m where m: "?m = (m, Err ErrExecSQL)" "st_current m = 1" "fst (st_strg m) = 1" by (metis prod.collapse)
  have v: "is_write example_half_tx" "tx_offset example_half_tx = st_current (example_state 0)" "st_current (example_state 0) = 0" by code_simp+
  have p: "plain_request counter_env counter_plain (qx_Request example_half_tx)"
    using example_plain by (simp add: example_half_tx_def example_failed_batch_def)
  have r: "pool_range (st_pool (example_state 0))"
    by (simp add: example_state_def NewState_def openHandler_def counter_env_def LevelReadUncommitted_def pool_range_def newPool_def)
  have b: "sb_QueryTxs (example_sql_block [example_half_tx]) = [example_half_tx]" by (simp add: example_sql_block_def)
  have "st_current (example_state 0) < st_current m" using m(2) v(3) by simp
  from failed_block_accepted_again [OF counter_contract p example_settled(2) r b v(1,2) m(1) this] show ?thesis using m(3) by auto
qed

end
