(* ===== verification/SQL_Safety.thy ===== *)
theory SQL_Safety
  imports SQL_Chain Xeno_Replay
begin

text \<open>
  What the chain of a database keeps: the blocks from the head down to the genesis block are in
  the store, each verified and linked to the block below it, whatever requests, blocks, turns and
  acknowledgements come in whatever order; and a chain that is started again from its store has
  the same head.
\<close>

section \<open>Keys\<close>

lemma i32_range: "- (2 ^ 31) \<le> i32 x \<and> i32 x < 2 ^ 31"
  using sint_range_size [of "word_of_int x :: 32 word"] by (simp add: i32_def word_size)

lemma heightToKey_inj:
  assumes "heightToKey h = heightToKey h'" and "- (2 ^ 31) \<le> h" "h < 2 ^ 31" and "- (2 ^ 31) \<le> h'" "h' < 2 ^ 31"
  shows "h = h'"
proof -
  have "Uint 4 (heightToKey x) = (word_of_int x :: u32)" for x
    using Uint_PutUint [of 4 "word_of_int x :: u32" "[]"] by (simp add: heightToKey_def)
  then have "(word_of_int h :: u32) = word_of_int h'" using assms(1) by metis
  then have "i32 h = i32 h'" by (simp add: i32_def)
  then show ?thesis using assms(2-5) by (simp add: i32_id)
qed

lemma heightToKey_less:
  assumes "0 \<le> h" and "h < h'" and "h' < 2 ^ 31"
  shows "heightToKey h @ xs < heightToKey h' @ ys"
proof -
  have "unat (word_of_int x :: u32) = nat x" if "0 \<le> x" "x < 2 ^ 31" for x :: int
    using that by (simp add: unat_eq_nat_uint uint_word_of_int_eq take_bit_int_eq_self)
  then have "be_nat (heightToKey h) < be_nat (heightToKey h')"
    using assms by (simp add: heightToKey_def be_nat_PutUint)
  then have "heightToKey h < heightToKey h'" by (simp add: be_nat_lex heightToKey_def)
  moreover have "as < bs \<Longrightarrow> length as = length bs \<Longrightarrow> as @ xs < bs @ ys" for as bs :: bytes
    by (induction as bs rule: list_induct2') auto
  ultimately show ?thesis by (simp add: heightToKey_def)
qed

section \<open>The stored chain\<close>

text \<open>Two headers with the same hash are the same; a block that was encoded decodes to itself.\<close>

definition collision_free :: "db_env \<Rightarrow> bool" where
  "collision_free D \<longleftrightarrow>
     (\<forall>h h' e e'. marshal_Header (de_tx D) h = Some e \<and> marshal_Header (de_tx D) h' = Some e' \<and>
        THashH (de_tx D) e = THashH (de_tx D) e' \<longrightarrow> h = h')"

definition block_codec :: "('db, 'l) sqlchain_env \<Rightarrow> bool" where
  "block_codec E \<longleftrightarrow> (\<forall>b v. enc_block E b = Some v \<longrightarrow> dec_block E v = Some b)"

definition header_hash :: "db_env \<Rightarrow> Block \<Rightarrow> bool" where
  "header_hash D b \<longleftrightarrow>
     (\<exists>e. marshal_Header (de_tx D) (sblock_header b) = Some e \<and> sblock_BlockHash b = THashH (de_tx D) e)"

lemma sblock_Verify_header: "sblock_Verify D b = Ok () \<Longrightarrow> header_hash D b"
  by (auto simp: sblock_Verify_def sh_Verify_def hsv_Verify_def hsv_VerifyHash_def header_hash_def db_verifier_res_def
      split: res.splits if_splits option.splits)

lemma VerifyAsGenesis_header: "VerifyAsGenesis D b = Ok () \<Longrightarrow> header_hash D b"
  by (auto simp: VerifyAsGenesis_def sh_VerifyHash_def hsv_VerifyHash_def header_hash_def db_verifier_res_def
      split: res.splits if_splits option.splits)

lemma VerifyAsGenesis_cong:
  "sblock_header b' = sblock_header b \<Longrightarrow> sblock_BlockHash b' = sblock_BlockHash b \<Longrightarrow>
     VerifyAsGenesis D b' = VerifyAsGenesis D b"
  by (simp add: VerifyAsGenesis_def sh_VerifyHash_def hsv_VerifyHash_def cong: if_cong res.case_cong option.case_cong)

lemma collision_freeD:
  "collision_free D \<Longrightarrow> header_hash D b \<Longrightarrow> header_hash D b' \<Longrightarrow> sblock_BlockHash b = sblock_BlockHash b' \<Longrightarrow>
     sblock_header b = sblock_header b'"
  unfolding collision_free_def header_hash_def by metis

text \<open>
  The block of a node: a block above the genesis block is verified and has the hash of the node
  below as its parent; the genesis block fixes the initial time.
\<close>

definition linked_block :: "db_env \<Rightarrow> sqlRuntime \<Rightarrow> sqlNode \<Rightarrow> Block \<Rightarrow> bool" where
  "linked_block D r a b \<longleftrightarrow>
     header_hash D b \<and> sblock_BlockHash b = sn_hash a \<and> getHeightFromTime r (sblock_Timestamp b) = sn_height a \<and>
     (case sn_parent a of
        None \<Rightarrow> VerifyAsGenesis D b = Ok () \<and> rn_chainInitTime r = sblock_Timestamp b \<and> rn_genesisHash r = sblock_BlockHash b
      | Some p \<Rightarrow> sblock_Verify D b = Ok () \<and> sblock_ParentHash b = sn_hash p)"

definition stored :: "('db, 'l) sqlchain_env \<Rightarrow> ('l \<Rightarrow> bytes \<Rightarrow> bytes option) \<Rightarrow> ('db, 'l) SqlChain \<Rightarrow> sqlNode \<Rightarrow> bool" where
  "stored E view c a \<longleftrightarrow>
     (\<exists>v b. view (sq_blkDB c) (sq_metaBlockIndex c @ sn_indexKey a) = Some v \<and> dec_block E v = Some b \<and>
        linked_block (se_db E) (sq_rt c) a b)"

text \<open>Nodes as they are made: heights are in range and each node counts one more than its parent.\<close>

fun built :: "sqlNode \<Rightarrow> bool" where
  "built (SqlNode p h ht c) \<longleftrightarrow>
     - (2 ^ 31) \<le> ht \<and> ht < 2 ^ 31 \<and>
     (case p of None \<Rightarrow> c = 0 | Some q \<Rightarrow> c = i32 (sn_count q + 1) \<and> built q)"

definition stored_path :: "('db, 'l) sqlchain_env \<Rightarrow> ('l \<Rightarrow> bytes \<Rightarrow> bytes option) \<Rightarrow> sqlNode \<Rightarrow> ('db, 'l) SqlChain \<Rightarrow> bool" where
  "stored_path E view n c \<longleftrightarrow>
     (\<forall>a \<in> set (node_path n). stored E view c a) \<and>
     (\<forall>k. view (sq_blkDB c) (sq_metaBlockIndex c @ k) \<noteq> None \<longrightarrow> (\<exists>a \<in> set (node_path n). k = sn_indexKey a))"

definition head_at :: "sqlNode \<Rightarrow> headState" where
  "head_at n = \<lparr> hs_node = Some n, hs_Head = sn_hash n, hs_Height = sn_height n \<rparr>"

definition sq_ok :: "('db, 'l) sqlchain_env \<Rightarrow> ('l \<Rightarrow> bool) \<Rightarrow> ('l \<Rightarrow> bytes \<Rightarrow> bytes option) \<Rightarrow> ('db, 'l) SqlChain \<Rightarrow> bool" where
  "sq_ok E ok view c \<longleftrightarrow>
     ok (sq_blkDB c) \<and> (\<exists>n. sq_head c = head_at n \<and> built n \<and> stored_path E view n c)"

text \<open>The part of the chain that this speaks of.\<close>

definition core :: "('db, 'l) SqlChain \<Rightarrow> 'l \<times> bytes \<times> headState \<times> Time \<times> int \<times> hash" where
  "core c = (sq_blkDB c, sq_metaBlockIndex c, sq_head c, rn_chainInitTime (sq_rt c), rn_period (sq_rt c), rn_genesisHash (sq_rt c))"

lemma height_core: "core c' = core c \<Longrightarrow> sq_height c' t = sq_height c t"
  by (simp add: core_def getHeightFromTime_def)

lemma linked_block_cong:
  "rn_chainInitTime r' = rn_chainInitTime r \<Longrightarrow> rn_period r' = rn_period r \<Longrightarrow> rn_genesisHash r' = rn_genesisHash r \<Longrightarrow>
     linked_block D r' a b = linked_block D r a b"
  by (cases "sn_parent a") (simp_all add: linked_block_def getHeightFromTime_def)

lemma stored_path_core: "core c' = core c \<Longrightarrow> stored_path E view n c' = stored_path E view n c"
  using linked_block_cong [of "sq_rt c'" "sq_rt c"] by (simp add: core_def stored_path_def stored_def)

lemma sq_ok_core: "core c' = core c \<Longrightarrow> sq_ok E ok view c' = sq_ok E ok view c"
  using stored_path_core [of c' c] by (simp add: sq_ok_def) (simp add: core_def)

lemma built_path: "built n \<Longrightarrow> a \<in> set (node_path n) \<Longrightarrow> built a"
  by (induction n rule: node_path.induct) (auto split: option.splits)

lemma built_height: "built n \<Longrightarrow> - (2 ^ 31) \<le> sn_height n \<and> sn_height n < 2 ^ 31"
  by (cases n) auto

lemma indexKey_inj:
  assumes "sn_indexKey a = sn_indexKey b" and "built a" and "built b"
  shows "sn_height a = sn_height b \<and> sn_hash a = sn_hash b"
proof -
  have "heightToKey (sn_height a) = heightToKey (sn_height b)" "sn_hash a = sn_hash b"
    using assms(1) by (auto simp: sn_indexKey_def heightToKey_def append_eq_append_conv)
  then show ?thesis using heightToKey_inj built_height [OF assms(2)] built_height [OF assms(3)] by blast
qed

section \<open>Pushing a block\<close>

lemma core_ops [simp]:
  "core (fst (AddResponse resp c)) = core c" "core (fst (sql_remove ack c)) = core c" "core (fst (sql_register ack c)) = core c"
  by (simp_all add: AddResponse_def sql_remove_def sql_register_def core_def split: prod.splits)

lemma core_fold: "(\<And>x c. core (f x c) = core c) \<Longrightarrow> core (fold f xs c) = core c"
  by (induction xs arbitrary: c) simp_all

lemma core_folds [simp]:
  "core (fold (\<lambda>v c. fst (AddResponse (qx_Response v) c)) vs c) = core c"
  "core (fold (\<lambda>a c. fst (sql_remove a c)) acks c) = core c"
  by (rule core_fold, simp)+

abbreviation push_node :: "Block \<Rightarrow> ('db, 'l) SqlChain \<Rightarrow> sqlNode" where
  "push_node b c \<equiv> newBlockNodeEx (sq_height c (sblock_Timestamp b)) (sblock_BlockHash b) (hs_node (sq_head c))"

lemma sql_pushBlock_cases:
  assumes "sql_pushBlock E b c = (c', r)"
  obtains (encode) "enc_block E b = None" "c' = c" "r = Err ErrChainEncode"
  | (fault) v db e where "enc_block E b = Some v"
      "ldb_Put (se_ldb E) (sq_metaBlockIndex c @ sn_indexKey (push_node b c)) v (sq_blkDB c) = (db, Some e)"
      "c' = c \<lparr> sq_blkDB := db \<rparr>" "r = Err ErrChainDB"
  | (pushed) v db where "enc_block E b = Some v"
      "ldb_Put (se_ldb E) (sq_metaBlockIndex c @ sn_indexKey (push_node b c)) v (sq_blkDB c) = (db, None)"
      "core c' = core (c \<lparr> sq_blkDB := db, sq_rt := (sq_rt c) \<lparr> rn_head := head_at (push_node b c) \<rparr> \<rparr>)"
      "r = (if length (sblock_Producer b) < 8 then Panic else Ok ())"
proof (cases "enc_block E b")
  case None
  then show ?thesis using assms encode by (simp add: sql_pushBlock_def Let_def)
next
  case (Some v)
  obtain db e where put: "ldb_Put (se_ldb E) (sq_metaBlockIndex c @ sn_indexKey (push_node b c)) v (sq_blkDB c) = (db, e)" by fastforce
  show ?thesis
  proof (cases e)
    case None
    let ?c = "c \<lparr> sq_blkDB := db, sq_cachedBlockCount := i32 (sq_cachedBlockCount c + 1),
                  sq_rt := (sq_rt c) \<lparr> rn_head := head_at (push_node b c) \<rparr>, sq_bi := mput (sblock_BlockHash b) (push_node b c) (sq_bi c),
                  sq_cache := mput (sblock_BlockHash b) b (sq_cache c) \<rparr>"
    have "updateMetrics E ?c = Ok ()" by (simp add: updateMetrics_def head_at_def mget_mput)
    then have "sql_pushBlock E b c = (fold (\<lambda>a c. fst (sql_remove a c)) (sb_Acks b) (fold (\<lambda>v c. fst (AddResponse (qx_Response v) c)) (sb_QueryTxs b) ?c),
        if length (sblock_Producer b) < 8 then Panic else Ok ())"
      using Some put None by (simp add: sql_pushBlock_def Let_def head_at_def)
    moreover have "core ?c = core (c \<lparr> sq_blkDB := db, sq_rt := (sq_rt c) \<lparr> rn_head := head_at (push_node b c) \<rparr> \<rparr>)" by (simp add: core_def)
    ultimately show ?thesis using assms Some put None by (intro pushed [of v db]) auto
  next
    case (Some e')
    then show ?thesis using assms put \<open>enc_block E b = Some v\<close> by (intro fault [of v db e']) (simp_all add: sql_pushBlock_def Let_def)
  qed
qed

text \<open>The new node and the nodes below it are stored when the new block is in the store.\<close>

lemma built_push: "(\<forall>n. hs_node (sq_head c) = Some n \<longrightarrow> built n) \<Longrightarrow> built (push_node b c)"
  using i32_range by (simp add: newBlockNodeEx_def getHeightFromTime_def split: option.splits)

lemma push_path: "node_path (push_node b c) = push_node b c # (case hs_node (sq_head c) of None \<Rightarrow> [] | Some n \<Rightarrow> node_path n)"
  by simp

text \<open>An older node whose key is overwritten has the header of the new block.\<close>

lemma linked_overwritten:
  assumes "collision_free D" and "linked_block D r a b" and "header_hash D b'" and "sn_hash a = sblock_BlockHash b'"
    and "sn_parent a \<noteq> None \<longrightarrow> sblock_Verify D b' = Ok ()"
  shows "linked_block D r a b'"
proof -
  have hash: "sblock_BlockHash b' = sblock_BlockHash b" using assms(2,4) by (simp add: linked_block_def)
  have "header_hash D b" using assms(2) by (simp add: linked_block_def)
  from collision_freeD [OF assms(1,3) this hash] have h: "sblock_header b' = sblock_header b" .
  show ?thesis
    using assms(2,3,5) hash h VerifyAsGenesis_cong [OF h hash, of D]
    by (cases "sn_parent a") (simp_all add: linked_block_def)
qed

lemma sq_ok_push:
  assumes "kv_contract (se_ldb E) ok view" and "block_codec E" and "collision_free (se_db E)"
    and "sq_ok E ok view c" and "sblock_Verify (se_db E) b = Ok ()" and "sblock_ParentHash b = hs_Head (sq_head c)"
    and "sql_pushBlock E b c = (c', r)"
  shows "sq_ok E ok view c'"
proof -
  obtain n where n: "ok (sq_blkDB c)" "sq_head c = head_at n" "built n" "stored_path E view n c"
    using assms(4) by (auto simp: sq_ok_def)
  have hh: "header_hash (se_db E) b" using sblock_Verify_header [OF assms(5)] .
  show ?thesis
    using assms(7)
  proof (cases rule: sql_pushBlock_cases)
    case encode
    then show ?thesis using assms(4) by simp
  next
    case (fault v db e)
    have "ok db \<and> view db = view (sq_blkDB c)" using kv_contractD(3) [OF assms(1) n(1) fault(2)] by simp
    then show ?thesis using n fault(3) by (auto simp: sq_ok_def stored_path_def stored_def)
  next
    case (pushed v db)
    let ?m = "push_node b c" and ?d = "c \<lparr> sq_blkDB := db, sq_rt := (sq_rt c) \<lparr> rn_head := head_at (push_node b c) \<rparr> \<rparr>"
    have db: "ok db" "view db = (view (sq_blkDB c))(sq_metaBlockIndex c @ sn_indexKey ?m \<mapsto> v)"
      using kv_contractD(3) [OF assms(1) n(1) pushed(2)] by simp_all
    have dec: "dec_block E v = Some b" using assms(2) pushed(1) by (simp add: block_codec_def)
    have m: "built ?m" "node_path ?m = ?m # node_path n" "sn_parent ?m = Some n"
      using n(2,3) built_push [of c b] by (simp_all add: head_at_def)
    have l: "linked_block (se_db E) (sq_rt ?d) a b' = linked_block (se_db E) (sq_rt c) a b'" for a b'
      by (rule linked_block_cong) simp_all
    have new: "linked_block (se_db E) (sq_rt c) ?m b"
      using hh assms(5,6) n(2) m(3) by (simp add: linked_block_def head_at_def)
    have "stored E view ?d a" if a: "a \<in> set (node_path n)" for a
    proof -
      obtain w b' where w: "view (sq_blkDB c) (sq_metaBlockIndex c @ sn_indexKey a) = Some w" "dec_block E w = Some b'"
        "linked_block (se_db E) (sq_rt c) a b'"
        using n(4) a by (auto simp: stored_path_def stored_def)
      show ?thesis
      proof (cases "sn_indexKey a = sn_indexKey ?m")
        case True
        then have "sn_hash a = sblock_BlockHash b" using indexKey_inj [OF True built_path [OF n(3) a] m(1)] by simp
        from linked_overwritten [OF assms(3) w(3) hh this] assms(5) show ?thesis
          using True dec db(2) l by (auto simp: stored_def)
      qed (use w db(2) l in \<open>auto simp: stored_def\<close>)
    qed
    moreover have "stored E view ?d ?m" using new dec db(2) l by (auto simp: stored_def)
    moreover have "k = sn_indexKey ?m \<or> (\<exists>a \<in> set (node_path n). k = sn_indexKey a)" if "view db (sq_metaBlockIndex c @ k) \<noteq> None" for k
      using that n(4) db(2) by (auto simp: stored_path_def split: if_splits)
    ultimately have "stored_path E view ?m ?d" by (auto simp: stored_path_def m(2) simp del: node_path_new)
    then have "sq_ok E ok view ?d" using db(1) m(1) by (auto simp: sq_ok_def)
    then show ?thesis using sq_ok_core [OF pushed(3)] by blast
  qed
qed

section \<open>The steps of a chain\<close>

text \<open>What happens to a chain between its start and its end, in any order.\<close>

inductive sql_step :: "('db, 'l) sqlchain_env \<Rightarrow> ('db, 'l) SqlChain \<Rightarrow> ('db, 'l) SqlChain \<Rightarrow> bool" for E where
  block: "process_block E b c stash = (c', stash', r) \<Longrightarrow> sql_step E c c'"
| query: "sql_Query E now req isLeader c = Some (c', r) \<Longrightarrow> sql_step E c c'"
| response: "sql_step E c (c \<lparr> sq_st := UpdateResp q resp (sq_st c) \<rparr>)"
| await: "sql_step E c (fst (AddResponse hdr c))"
| ack: "VerifyAndPushAckedQuery E a c = (c', r) \<Longrightarrow> sql_step E c c'"
| begin_block: "produce_begin E now c = (c', r) \<Longrightarrow> sql_step E c c'"
| turn: "runCurrentTurn E now d c = Some (c', r) \<Longrightarrow> sql_step E c c'"
| sync: "sql_step E c (set_rt (SetNextTurn t) c)"
| clock: "sql_step E c (set_rt (updateTime t now) c)"
| peers: "sql_step E c (sql_UpdatePeers ps c)"
| billed: "sql_step E c (SetLastBillingHeight h c)"

lemma core_upd [simp]:
  "core (c \<lparr> sq_st := s \<rparr>) = core c" "core (c \<lparr> sq_ai := a \<rparr>) = core c" "core (c \<lparr> sq_txDB := t \<rparr>) = core c"
  "core (c \<lparr> sq_cache := m, sq_cachedBlockCount := i \<rparr>) = core c"
  "core (set_rt (SetNextTurn u) c) = core c" "core (set_rt IncNextTurn c) = core c" "core (set_rt (updateTime w v) c) = core c"
  "core (sql_UpdatePeers ps c) = core c" "core (SetLastBillingHeight h c) = core c"
  by (simp_all add: core_def set_rt_def SetNextTurn_def IncNextTurn_def updateTime_def sql_UpdatePeers_def rt_updatePeers_def
      SetLastBillingHeight_def split: option.splits)

lemma core_ack: "VerifyAndPushAckedQuery E a c = (c', r) \<Longrightarrow> core c' = core c"
  using core_ops(3) [of a c]
  by (cases "sql_register a c") (auto simp: VerifyAndPushAckedQuery_def pushAckedQuery_def Let_def split: if_splits res.splits option.splits prod.splits)

lemma core_produce_begin: "produce_begin E now c = (c', r) \<Longrightarrow> core c' = core c"
  by (auto simp: produce_begin_def Let_def split: if_splits res.splits prod.splits)

lemma core_produce: "sql_produceBlock E now c = Some (c', r) \<Longrightarrow> core c' = core c"
  by (cases "produce_begin E now c")
    (auto simp: sql_produceBlock_def dest: core_produce_begin split: res.splits option.splits)

lemma core_end_turn [simp]: "core (end_turn c) = core c"
proof -
  have "core (pruneBlockCache c) = core c"
    by (auto simp: pruneBlockCache_def Let_def split: option.splits prod.splits)
  then show ?thesis by (simp add: end_turn_def Let_def)
qed

lemma core_turn: "runCurrentTurn E now d c = Some (c', r) \<Longrightarrow> core c' = core c"
  by (auto simp: runCurrentTurn_def Let_def split: if_splits option.splits res.splits) (metis core_produce)+

lemma sq_ok_coreI: "sq_ok E ok view c \<Longrightarrow> core c' = core c \<Longrightarrow> sq_ok E ok view c'"
  using sq_ok_core by blast

lemma CheckAndPush_cases:
  assumes "CheckAndPushNewBlock E b c = (c', r)"
  obtains (same) "core c' = core c"
  | (push) s where "sblock_ParentHash b = hs_Head (sq_head c)" "sblock_Verify (se_db E) b = Ok ()"
      "sql_pushBlock E b (c \<lparr> sq_st := s \<rparr>) = (c', r)"
proof (cases "core c' = core c")
  case False
  then show ?thesis
    using assms push [of "sq_st c"] push
    by (auto simp: CheckAndPushNewBlock_def Let_def split: if_splits res.splits option.splits prod.splits)
qed (rule same)

lemma sq_ok_block:
  assumes "kv_contract (se_ldb E) ok view" and "block_codec E" and "collision_free (se_db E)"
    and "sq_ok E ok view c" and "CheckAndPushNewBlock E b c = (c', r)"
  shows "sq_ok E ok view c'"
  using assms(5)
proof (cases rule: CheckAndPush_cases)
  case same
  then show ?thesis using assms(4) sq_ok_core by blast
next
  case (push s)
  have "sq_ok E ok view (c \<lparr> sq_st := s \<rparr>)" using assms(4) sq_ok_core core_upd(1) by blast
  from sq_ok_push [OF assms(1-3) this push(2) _ push(3)] show ?thesis using push(1) by simp
qed

lemma sq_ok_step:
  assumes "kv_contract (se_ldb E) ok view" and "block_codec E" and "collision_free (se_db E)"
    and "sql_step E c c'" and "sq_ok E ok view c"
  shows "sq_ok E ok view c'"
  using assms(4,5)
proof (induction rule: sql_step.induct)
  case (block b c stash c' stash' r)
  then show ?case
    using sq_ok_block [OF assms(1-3)] by (auto simp: process_block_def Let_def split: if_splits prod.splits)
next
  case (query now req isLeader c c' r)
  then have "core c' = core c" by (auto simp: sql_Query_def split: option.splits)
  then show ?case using query sq_ok_core by blast
qed (erule sq_ok_coreI, simp add: core_ack core_produce_begin core_turn)+

lemma sq_ok_steps:
  assumes "kv_contract (se_ldb E) ok view" and "block_codec E" and "collision_free (se_db E)"
    and "(sql_step E)\<^sup>*\<^sup>* c c'" and "sq_ok E ok view c"
  shows "sq_ok E ok view c'"
  using assms(4,5) by (induction rule: rtranclp_induct) (auto dest: sq_ok_step [OF assms(1-3)])

section \<open>Starting with an empty store\<close>

lemma sq_ok_genesis:
  assumes "kv_contract (se_ldb E) ok view" and "block_codec E" and "ok (sq_blkDB c)"
    and "\<forall>k. view (sq_blkDB c) (sq_metaBlockIndex c @ k) = None" and "hs_node (sq_head c) = None"
    and "VerifyAsGenesis (se_db E) b = Ok ()" and "rn_chainInitTime (sq_rt c) = sblock_Timestamp b"
    and "rn_genesisHash (sq_rt c) = sblock_BlockHash b"
    and "sql_pushBlock E b c = (c', Ok ())"
  shows "sq_ok E ok view c'"
  using assms(9)
proof (cases rule: sql_pushBlock_cases)
  case (pushed v db)
  let ?m = "push_node b c" and ?d = "c \<lparr> sq_blkDB := db, sq_rt := (sq_rt c) \<lparr> rn_head := head_at (push_node b c) \<rparr> \<rparr>"
  have db: "ok db" "view db = (view (sq_blkDB c))(sq_metaBlockIndex c @ sn_indexKey ?m \<mapsto> v)"
    using kv_contractD(3) [OF assms(1,3) pushed(2)] by simp_all
  have dec: "dec_block E v = Some b" using assms(2) pushed(1) by (simp add: block_codec_def)
  have m: "built ?m" "node_path ?m = [?m]" "sn_parent ?m = None"
    using assms(5) built_push [of c b] by simp_all
  have "linked_block (se_db E) (sq_rt ?d) ?m b = linked_block (se_db E) (sq_rt c) ?m b" by (rule linked_block_cong) simp_all
  then have "stored E view ?d ?m"
    using VerifyAsGenesis_header [OF assms(6)] assms(6-8) m(3) dec db(2) by (auto simp: stored_def linked_block_def)
  then have "stored_path E view ?m ?d"
    using assms(4) db(2) by (auto simp: stored_path_def m(2) simp del: node_path_new split: if_splits)
  then have "sq_ok E ok view ?d" using db(1) m(1) by (auto simp: sq_ok_def)
  then show ?thesis using sq_ok_core [OF pushed(3)] by blast
qed simp_all

lemma sql_NewChain_Ok:
  assumes "sql_NewChain E cfg blkDB txDB = Ok c"
  obtains strg pk addr prefix st where "se_localKey E = Some pk" "databaseID_AccountAddress (sf_DatabaseID cfg) = Ok prefix"
    "NewState (se_xeno E) (sf_IsolationLevel cfg) (sf_Server cfg) strg = (st, Ok ())"
    "se_open E (sf_DataFile cfg) = Some strg" "PubKeyHash (THashH (de_tx (se_db E))) (Some (se_pub E pk)) = Ok addr"
    "load_chain E cfg
       \<lparr> sq_bi = [], sq_ai = newAckIndex, sq_st = st, sq_rt = newRunTime (zero_time E) cfg,
         sq_cache = [], sq_blkDB = blkDB, sq_txDB = txDB, sq_databaseID = sf_DatabaseID cfg,
         sq_updatePeriod = sf_UpdatePeriod cfg, sq_pk = pk, sq_addr = addr,
         sq_metaBlockIndex = prefix @ metaBlockIndex, sq_metaResponseIndex = prefix @ metaResponseIndex,
         sq_metaAckIndex = prefix @ metaAckIndex, sq_cachedBlockCount = 0 \<rparr> = Ok c"
  using assms that by (auto simp: sql_NewChain_def split: option.splits res.splits prod.splits)

lemma sq_ok_NewChain:
  assumes "kv_contract (se_ldb E) ok view" and "block_codec E" and "ok blkDB"
    and "\<forall>prefix k. databaseID_AccountAddress (sf_DatabaseID cfg) = Ok prefix \<longrightarrow> view blkDB (prefix @ metaBlockIndex @ k) = None"
    and "sql_NewChain E cfg blkDB txDB = Ok c"
  shows "sq_ok E ok view c"
  using assms(5)
proof (cases rule: sql_NewChain_Ok)
  case (1 strg pk addr prefix st)
  let ?c = "\<lparr> sq_bi = [], sq_ai = newAckIndex, sq_st = st, sq_rt = newRunTime (zero_time E) cfg,
         sq_cache = [], sq_blkDB = blkDB, sq_txDB = txDB, sq_databaseID = sf_DatabaseID cfg,
         sq_updatePeriod = sf_UpdatePeriod cfg, sq_pk = pk, sq_addr = addr,
         sq_metaBlockIndex = prefix @ metaBlockIndex, sq_metaResponseIndex = prefix @ metaResponseIndex,
         sq_metaAckIndex = prefix @ metaAckIndex, sq_cachedBlockCount = 0 \<rparr>"
  have none: "\<forall>k. view (sq_blkDB ?c) (sq_metaBlockIndex ?c @ k) = None" using assms(4) 1(2) by simp
  obtain kvs e where r: "ldb_Range (se_ldb E) (prefix @ metaBlockIndex) blkDB = (kvs, e)" by fastforce
  have "e = None" using 1(6) r by (auto simp: load_chain_def split: res.splits if_splits)
  with r kv_contractD(4) [OF assms(1,3), of "prefix @ metaBlockIndex" kvs]
  have "set kvs = {(k, v). view blkDB k = Some v \<and> (\<exists>s. k = (prefix @ metaBlockIndex) @ s)}" by simp
  with none have "set kvs = {}" by auto
  then have "kvs = []" by simp
  then obtain b where b: "sf_Genesis cfg = Some b" "VerifyAsGenesis (se_db E) b = Ok ()" "sql_pushBlock E b ?c = (c, Ok ())"
    using 1(6) r \<open>e = None\<close> by (auto simp: load_chain_def sql_genesis_def split: res.splits option.splits prod.splits)
  show ?thesis
    by (rule sq_ok_genesis [OF assms(1,2) _ none _ b(2) _ _ b(3)])
      (simp_all add: assms(3) newRunTime_def setGenesis_def b(1) Let_def)
qed

section \<open>Fetching\<close>

lemma path_counts:
  assumes "built n" and "length (node_path n) \<le> 2 ^ 31"
  shows "sn_count n = int (length (node_path n)) - 1 \<and> (\<forall>k < length (node_path n). sn_count (rev (node_path n) ! k) = int k)"
  using assms
proof (induction n rule: built.induct)
  case (1 p h ht c)
  show ?case
  proof (cases p)
    case None
    then show ?thesis using 1(2) by simp
  next
    case (Some q)
    then have q: "sn_count q = int (length (node_path q)) - 1" "\<forall>k < length (node_path q). sn_count (rev (node_path q) ! k) = int k"
      "c = i32 (sn_count q + 1)"
      using 1 by auto
    have "i32 (sn_count q + 1) = sn_count q + 1" using q(1) 1(3) Some by (intro i32_id) auto
    then show ?thesis using q Some by (auto simp: nth_append less_Suc_eq)
  qed
qed

lemma find_last_nth:
  assumes "k < length xs" and "P (xs ! k)" and "\<And>j. j < k \<Longrightarrow> \<not> P (xs ! j)"
  shows "find P xs = Some (xs ! k)"
  using assms by (auto simp: find_Some_iff)

lemma ancestorByCount_path:
  assumes "built n" and "length (node_path n) \<le> 2 ^ 31" and "0 \<le> k" and "k \<le> sn_count n"
  shows "sn_ancestorByCount n k = Some (rev (node_path n) ! nat k)"
proof -
  let ?xs = "node_path n" and ?l = "length (node_path n)"
  note c = path_counts [OF assms(1,2)]
  have k: "nat k < ?l" "?l - Suc (nat k) < ?l" using c assms(3,4) by auto
  have at: "sn_count (?xs ! j) = int (?l - Suc j)" if "j < ?l" for j
    using c that by (metis diff_Suc_less length_greater_0_conv list.size(3) not_less_zero rev_nth rev_rev_ident length_rev)
  have "find (\<lambda>a. \<not> sn_count a > k) ?xs = Some (?xs ! (?l - Suc (nat k)))"
    using k at assms(3) by (intro find_last_nth) auto
  then show ?thesis using k at [OF k(2)] assms(3,4) by (simp add: sn_ancestorByCount_def node_walk_find rev_nth)
qed

lemma fetch_stored:
  assumes "kv_reads (se_ldb E) ok view" and "ok (sq_blkDB c)" and "stored E view c a"
  shows "\<exists>b. fetchBlockByIndexKey E (sn_indexKey a) c = Ok b \<and> linked_block (se_db E) (sq_rt c) a b"
  using assms by (auto simp: stored_def fetchBlockByIndexKey_def kv_reads_def)

lemma fetch_count:
  assumes "kv_reads (se_ldb E) ok view" and "sq_ok E ok view c" and "hs_node (sq_head c) = Some n"
    and "length (node_path n) \<le> 2 ^ 31" and "0 \<le> k" and "k \<le> sn_count n"
  shows "\<exists>b. sql_FetchBlockByCount E k c = Ok (Some b, k, sn_height (rev (node_path n) ! nat k)) \<and>
    linked_block (se_db E) (sq_rt c) (rev (node_path n) ! nat k) b"
proof -
  have n: "ok (sq_blkDB c)" "built n" "stored_path E view n c" using assms(2,3) by (auto simp: sq_ok_def head_at_def)
  note c = path_counts [OF n(2) assms(4)]
  have k: "nat k < length (node_path n)" using c assms(5,6) by auto
  let ?a = "rev (node_path n) ! nat k"
  have "?a \<in> set (node_path n)" using k nth_mem [of "nat k" "rev (node_path n)"] by simp
  then have "stored E view c ?a" using n(3) by (auto simp: stored_path_def)
  from fetch_stored [OF assms(1) n(1) this] obtain b where
    b: "fetchBlockByIndexKey E (sn_indexKey ?a) c = Ok b" "linked_block (se_db E) (sq_rt c) ?a b" by blast
  have "sn_count ?a = k" using c k assms(5) by simp
  with b ancestorByCount_path [OF n(2) assms(4-6)] show ?thesis
    using assms(3,5) by (simp add: sql_FetchBlockByCount_def)
qed

lemma path_nonempty [simp]: "node_path n \<noteq> []"
  by (simp add: node_path_Cons [of n])

lemma path_root: "sn_parent (last (node_path n)) = None"
  by (induction n rule: node_path.induct) (auto split: option.splits)

lemma path_top: "Suc k = length (node_path n) \<Longrightarrow> rev (node_path n) ! k = n"
  by (simp add: rev_nth) (simp add: node_path_Cons [of n])

lemma parent_in_path:
  assumes "Suc k < length (node_path n)"
  shows "sn_parent (rev (node_path n) ! Suc k) = Some (rev (node_path n) ! k)"
  using assms
proof (induction n rule: node_path.induct)
  case (1 p h ht c)
  then obtain q where q: "p = Some q" by (cases p) auto
  show ?case using 1 q path_top [of k q] by (cases "Suc k = length (node_path q)") (auto simp: nth_append)
qed

text \<open>
  C9: The blocks of a database chain. A chain that started with an empty store, after any
  requests, acknowledgements, turns, blocks from other peers (valid or not) and changes of
  peers in any order, gives for each count up to that of its head a block: that of the head at
  the top, and each block above the genesis block is correctly signed and names the block
  below as its parent. As hypotheses, LevelDB keeps its contract and its reads do not fail,
  encoded blocks decode to themselves, no two headers have the same hash, and at most \<open>2^31\<close>
  blocks are in the chain.
\<close>

theorem sql_chain_linked:
  assumes "kv_contract (se_ldb E) ok view" and "kv_reads (se_ldb E) ok view" and "block_codec E" and "collision_free (se_db E)"
    and "ok blkDB"
    and "\<forall>prefix k. databaseID_AccountAddress (sf_DatabaseID cfg) = Ok prefix \<longrightarrow> view blkDB (prefix @ metaBlockIndex @ k) = None"
    and "sql_NewChain E cfg blkDB txDB = Ok c0" and "(sql_step E)\<^sup>*\<^sup>* c0 c"
    and "hs_node (sq_head c) = Some n" and "length (node_path n) \<le> 2 ^ 31" and "0 \<le> k" and "k \<le> sn_count n"
  shows "\<exists>b. sql_FetchBlockByCount E k c = Ok (Some b, k, sq_height c (sblock_Timestamp b)) \<and>
    (k = sn_count n \<longrightarrow> sblock_BlockHash b = hs_Head (sq_head c)) \<and>
    (k = 0 \<longrightarrow> sblock_BlockHash b = rn_genesisHash (sq_rt c) \<and> VerifyAsGenesis (se_db E) b = Ok ()) \<and>
    (k > 0 \<longrightarrow> sblock_Verify (se_db E) b = Ok () \<and>
       (\<exists>p. sql_FetchBlockByCount E (k - 1) c = Ok (Some p, k - 1, sq_height c (sblock_Timestamp p)) \<and>
          sblock_ParentHash b = sblock_BlockHash p))"
proof -
  have ok: "sq_ok E ok view c"
    using sq_ok_steps [OF assms(1,3,4,8)] sq_ok_NewChain [OF assms(1,3,5,6,7)] by blast
  have n: "built n" "sq_head c = head_at n" using ok assms(9) by (auto simp: sq_ok_def head_at_def)
  note cnt = path_counts [OF n(1) assms(10)]
  note fetch = fetch_count [OF assms(2) ok assms(9,10)]
  let ?a = "\<lambda>k. rev (node_path n) ! nat k"
  obtain b where b: "sql_FetchBlockByCount E k c = Ok (Some b, k, sn_height (?a k))" "linked_block (se_db E) (sq_rt c) (?a k) b"
    using fetch [OF assms(11,12)] by blast
  have "Suc (nat (sn_count n)) = length (node_path n)" using cnt assms(11,12) by auto
  then have top: "?a (sn_count n) = n" by (rule path_top)
  show ?thesis
  proof (cases "k = 0")
    case True
    have "sn_parent (?a 0) = None" using path_root [of n] by (simp add: rev_nth last_conv_nth)
    then show ?thesis using True b top n(2) by (auto simp: linked_block_def head_at_def)
  next
    case False
    then have "sn_parent (?a k) = Some (?a (k - 1))"
      using parent_in_path [of "nat (k - 1)" n] cnt assms(11,12) by (simp add: Suc_nat_eq_nat_zadd1)
    moreover obtain p where "sql_FetchBlockByCount E (k - 1) c = Ok (Some p, k - 1, sn_height (?a (k - 1)))"
      "linked_block (se_db E) (sq_rt c) (?a (k - 1)) p"
      using fetch [of "k - 1"] False assms(11,12) by auto
    ultimately show ?thesis using False b top n(2) by (auto simp: linked_block_def head_at_def)
  qed
qed

section \<open>Starting again\<close>

lemma append_less_append: "p @ xs < p @ ys \<longleftrightarrow> xs < (ys :: bytes)"
  by (induction p) auto

lemma load_sblocks_append:
  "load_sblocks E (xs @ ys) l i c =
     (case load_sblocks E xs l i c of Ok (c, l, i) \<Rightarrow> load_sblocks E ys l i c | Err e \<Rightarrow> Err e | Panic \<Rightarrow> Panic)"
proof (induction xs arbitrary: l i c)
  case (Cons kv xs)
  obtain k v where "kv = (k, v)" by fastforce
  then show ?case
    by (cases "dec_block E v"; cases "load_parent E (the (dec_block E v)) l c") (auto simp: Cons.IH Let_def)
qed simp

text \<open>The blocks of a path, from the genesis block up, rebuild the path.\<close>

lemma load_path:
  assumes "built n" and "rn_period (sq_rt c) = rn_period r" and "sq_bi c = []"
    and "list_all2 (\<lambda>kv a. \<exists>b. dec_block E (snd kv) = Some b \<and> linked_block (se_db E) r a b) kvs (rev (node_path n))"
  shows "\<exists>bi i g. load_sblocks E kvs None 0 c = Ok ((set_rt (setGenesis g) c) \<lparr> sq_bi := bi \<rparr>, Some n, i) \<and>
    sblock_Timestamp g = rn_chainInitTime r \<and> sblock_BlockHash g = rn_genesisHash r \<and>
    (\<forall>h. mget bi h \<noteq> None \<longrightarrow> h \<in> sn_hash ` set (node_path n))"
  using assms(1,4)
proof (induction n arbitrary: kvs rule: built.induct)
  case (1 p h ht cnt)
  let ?n = "SqlNode p h ht cnt"
  have height: "sq_height ((set_rt (setGenesis g) c) \<lparr> sq_bi := bi \<rparr>) t = getHeightFromTime r t"
    if "sblock_Timestamp g = rn_chainInitTime r" for g bi t
    using that assms(2) by (simp add: getHeightFromTime_def set_rt_def setGenesis_def)
  show ?case
  proof (cases p)
    case None
    then obtain k v b where b: "kvs = [(k, v)]" "dec_block E v = Some b" "linked_block (se_db E) r ?n b"
      using 1(3) by (auto simp: list_all2_Cons2)
    then have g: "VerifyAsGenesis (se_db E) b = Ok ()" "sblock_Timestamp b = rn_chainInitTime r" "sblock_BlockHash b = rn_genesisHash r"
      "sblock_BlockHash b = h" "getHeightFromTime r (sblock_Timestamp b) = ht"
      using None by (simp_all add: linked_block_def)
    have "newBlockNodeEx (sq_height (set_rt (setGenesis b) c) (sblock_Timestamp b)) (sblock_BlockHash b) None = ?n"
      using height [OF g(2), of "sq_bi c"] g(4,5) None 1(2) by (simp add: newBlockNodeEx_def set_rt_def)
    then have "\<exists>i. load_sblocks E kvs None 0 c = Ok ((set_rt (setGenesis b) c) \<lparr> sq_bi := [(h, ?n)] \<rparr>, Some ?n, i)"
      using b(1,2) g assms(3) by (simp add: load_parent_def set_rt_def Let_def)
    then obtain i where "load_sblocks E kvs None 0 c = Ok ((set_rt (setGenesis b) c) \<lparr> sq_bi := [(h, ?n)] \<rparr>, Some ?n, i)" ..
    then show ?thesis using g(2,3) by (intro exI [of _ "[(h, ?n)]"] exI [of _ i] exI [of _ b]) auto
  next
    case (Some q)
    then obtain xs k v b where b: "kvs = xs @ [(k, v)]" "dec_block E v = Some b" "linked_block (se_db E) r ?n b"
      "list_all2 (\<lambda>kv a. \<exists>b. dec_block E (snd kv) = Some b \<and> linked_block (se_db E) r a b) xs (rev (node_path q))"
      using 1(3) by (auto simp: list_all2_append2 list_all2_Cons2)
    have q: "built q" "cnt = i32 (sn_count q + 1)" using 1(2) Some by auto
    obtain bi i g where IH: "load_sblocks E xs None 0 c = Ok ((set_rt (setGenesis g) c) \<lparr> sq_bi := bi \<rparr>, Some q, i)"
      "sblock_Timestamp g = rn_chainInitTime r" "sblock_BlockHash g = rn_genesisHash r"
      "\<forall>h. mget bi h \<noteq> None \<longrightarrow> h \<in> sn_hash ` set (node_path q)"
      using 1(1) [OF Some q(1) b(4)] by blast
    have l: "sblock_Verify (se_db E) b = Ok ()" "sblock_ParentHash b = sn_hash q" "sblock_BlockHash b = h"
      "getHeightFromTime r (sblock_Timestamp b) = ht"
      using b(3) Some by (simp_all add: linked_block_def)
    have "newBlockNodeEx (sq_height ((set_rt (setGenesis g) c) \<lparr> sq_bi := bi \<rparr>) (sblock_Timestamp b)) (sblock_BlockHash b) (Some q) = ?n"
      using height [OF IH(2), of bi] l(3,4) q(2) Some by (simp add: newBlockNodeEx_def)
    then have "\<exists>i. load_sblocks E kvs None 0 c = Ok ((set_rt (setGenesis g) c) \<lparr> sq_bi := mput h ?n bi \<rparr>, Some ?n, i)"
      using b(1,2) IH(1) l by (simp add: load_sblocks_append load_parent_def Let_def)
    then obtain i where "load_sblocks E kvs None 0 c = Ok ((set_rt (setGenesis g) c) \<lparr> sq_bi := mput h ?n bi \<rparr>, Some ?n, i)" ..
    then show ?thesis using IH(2-4) Some
      by (intro exI [of _ "mput h ?n bi"] exI [of _ i] exI [of _ g]) (auto simp: mget_mput)
  qed
qed

text \<open>With growing heights the order of the keys is that of the path.\<close>

lemma path_heights:
  assumes "sorted_wrt (>) (map sn_height (node_path n))" and "sn_height (last (node_path n)) \<ge> 0" and "a \<in> set (node_path n)"
  shows "sn_height a \<ge> 0"
proof -
  have "sn_height (last xs) \<le> sn_height a" if "sorted_wrt (>) (map sn_height xs)" "a \<in> set xs" for xs
    using that by (induction xs) (auto split: if_splits intro: less_imp_le)
  then show ?thesis using assms by force
qed

lemma indexKey_less:
  "0 \<le> sn_height a \<Longrightarrow> sn_height a < sn_height b \<Longrightarrow> built b \<Longrightarrow> meta @ sn_indexKey a < meta @ sn_indexKey b"
  using built_height [of b] by (simp add: append_less_append sn_indexKey_def heightToKey_less)

lemma path_keys_sorted:
  assumes "built n" and "sorted_wrt (>) (map sn_height (node_path n))" and "sn_height (last (node_path n)) \<ge> 0"
  shows "sorted_wrt (<) (map (\<lambda>a. meta @ sn_indexKey a) (rev (node_path n)))"
proof -
  have "sorted_wrt (\<lambda>a b. sn_height a > sn_height b) (node_path n)" using assms(2) by (simp add: sorted_wrt_map)
  then have "sorted_wrt (\<lambda>a b. meta @ sn_indexKey a > meta @ sn_indexKey b) (node_path n)"
    by (rule sorted_wrt_mono_rel [rotated]) (intro indexKey_less path_heights [OF assms(2,3)] built_path [OF assms(1)], assumption+)
  then show ?thesis by (simp add: sorted_wrt_map sorted_wrt_rev)
qed

lemma stored_kvs:
  assumes "kv_contract (se_ldb E) ok view" and "ok (sq_blkDB c)" and "stored_path E view n c"
    and "set as = set (node_path n)" and "sorted_wrt (<) (map (\<lambda>a. sq_metaBlockIndex c @ sn_indexKey a) as)"
    and "ldb_Range (se_ldb E) (sq_metaBlockIndex c) (sq_blkDB c) = (kvs, None)"
  shows "list_all2 (\<lambda>kv a. \<exists>b. dec_block E (snd kv) = Some b \<and> linked_block (se_db E) (sq_rt c) a b) kvs as"
proof -
  let ?key = "\<lambda>a. sq_metaBlockIndex c @ sn_indexKey a"
  have kvs: "sorted_wrt (<) (map fst kvs)"
    "set kvs = {(k, v). view (sq_blkDB c) k = Some v \<and> (\<exists>s. k = sq_metaBlockIndex c @ s)}"
    using kv_contractD(4) [OF assms(1,2,6)] by simp_all
  have "set (map fst kvs) = set (map ?key as)"
    using assms(3,4) by (auto simp: kvs(2) stored_path_def stored_def image_iff)
  with kvs(1) assms(5) have keys: "map fst kvs = map ?key as"
    by (intro strict_sorted_equal) simp_all
  show ?thesis
  proof (intro list_all2I)
    show "length kvs = length as" using keys by (metis length_map)
    show "\<forall>x \<in> set (zip kvs as). case x of (kv, a) \<Rightarrow> \<exists>b. dec_block E (snd kv) = Some b \<and> linked_block (se_db E) (sq_rt c) a b"
    proof clarify
      fix k v a assume z: "((k, v), a) \<in> set (zip kvs as)"
      then have "a \<in> set (node_path n)" "(k, v) \<in> set kvs" using assms(4) by (auto dest: set_zip_leftD set_zip_rightD)
      moreover have "k = ?key a" using z keys by (auto simp: set_zip) (metis fst_conv length_map nth_map)
      ultimately show "\<exists>b. dec_block E (snd (k, v)) = Some b \<and> linked_block (se_db E) (sq_rt c) a b"
        using assms(3) kvs(2) by (auto simp: stored_path_def stored_def)
    qed
  qed
qed

text \<open>What never changes.\<close>

definition fixed :: "('db, 'l) SqlChain \<Rightarrow> bytes \<times> int" where
  "fixed c = (sq_metaBlockIndex c, rn_period (sq_rt c))"

lemma fixed_core: "core c' = core c \<Longrightarrow> fixed c' = fixed c"
  by (simp add: core_def fixed_def)

lemma fixed_push: "sql_pushBlock E b c = (c', r) \<Longrightarrow> fixed c' = fixed c"
  by (erule sql_pushBlock_cases) (auto simp: core_def fixed_def)

lemma fixed_step: "sql_step E c c' \<Longrightarrow> fixed c' = fixed c"
proof (induction rule: sql_step.induct)
  case (block b c stash c' stash' r)
  have "fixed d = fixed c" if "CheckAndPushNewBlock E b c = (d, r')" for d r'
    using that by (rule CheckAndPush_cases) (auto dest!: fixed_push fixed_core simp: fixed_def)
  then show ?case using block by (auto simp: process_block_def Let_def split: if_splits prod.splits)
next
  case (query now req isLeader c c' r)
  then show ?case by (auto simp: sql_Query_def fixed_def split: option.splits)
qed (rule fixed_core, simp add: core_ack core_produce_begin core_turn)+

lemma fixed_steps: "(sql_step E)\<^sup>*\<^sup>* c c' \<Longrightarrow> fixed c' = fixed c"
  by (induction rule: rtranclp_induct) (auto dest: fixed_step)

lemma fixed_NewChain:
  assumes "sql_NewChain E cfg blkDB txDB = Ok c" and "databaseID_AccountAddress (sf_DatabaseID cfg) = Ok prefix"
  shows "fixed c = (prefix @ metaBlockIndex, sf_Period cfg)"
proof -
  have load: "fixed c' = fixed c" if "load_sblocks E kvs l i c = Ok (c', l', i')" for kvs l i c c' l' i'
    using that
  proof (induction E kvs l i c rule: load_sblocks.induct)
    case (2 E k v kvs l i c)
    have "fixed d = fixed c" if "load_parent E b l c = Ok (d, p)" for b d p
      using that by (auto simp: load_parent_def fixed_def set_rt_def setGenesis_def split: option.splits res.splits if_splits)
    then show ?case using 2 by (fastforce simp: Let_def fixed_def split: option.splits res.splits)
  qed simp
  have start: "fixed c = fixed d" if "load_chain E cfg d = Ok c" for d
    using that
    by (auto simp: load_chain_def Let_def sql_genesis_def fixed_def [of "_ \<lparr> sq_rt := _ \<rparr>"] dest!: load fixed_push
        split: prod.splits res.splits if_splits option.splits) (simp_all add: fixed_def)
  show ?thesis
    using assms(1)
  proof (rule sql_NewChain_Ok)
    fix strg pk addr p st
    assume p: "databaseID_AccountAddress (sf_DatabaseID cfg) = Ok p"
    assume "load_chain E cfg
       \<lparr> sq_bi = [], sq_ai = newAckIndex, sq_st = st, sq_rt = newRunTime (zero_time E) cfg,
         sq_cache = [], sq_blkDB = blkDB, sq_txDB = txDB, sq_databaseID = sf_DatabaseID cfg,
         sq_updatePeriod = sf_UpdatePeriod cfg, sq_pk = pk, sq_addr = addr,
         sq_metaBlockIndex = p @ metaBlockIndex, sq_metaResponseIndex = p @ metaResponseIndex,
         sq_metaAckIndex = p @ metaAckIndex, sq_cachedBlockCount = 0 \<rparr> = Ok c"
    from start [OF this] show ?thesis
      using p assms(2) by (simp add: fixed_def newRunTime_def setGenesis_def Let_def split: option.splits)
  qed
qed

text \<open>The stored responses and acknowledgements can be read and decoded.\<close>

definition queries_readable :: "('db, 'l) sqlchain_env \<Rightarrow> sqlConfig \<Rightarrow> 'l \<Rightarrow> bool" where
  "queries_readable E cfg db \<longleftrightarrow>
     (\<forall>prefix. databaseID_AccountAddress (sf_DatabaseID cfg) = Ok prefix \<longrightarrow>
        snd (ldb_Range (se_ldb E) (prefix @ metaResponseIndex) db) = None \<and>
        list_all (\<lambda>(k, v). dec_resp E v \<noteq> None) (fst (ldb_Range (se_ldb E) (prefix @ metaResponseIndex) db)) \<and>
        list_all (\<lambda>(k, v). dec_ack E v \<noteq> None) (fst (ldb_Range (se_ldb E) (prefix @ metaAckIndex) db)))"

lemma root_height:
  assumes "stored_path E view n c"
  shows "sn_height (last (node_path n)) = 0"
proof -
  have "last (node_path n) \<in> set (node_path n)" by (rule last_in_set) simp
  then have "stored E view c (last (node_path n))" using assms unfolding stored_path_def by blast
  then show ?thesis using path_root [of n] by (auto simp: stored_def linked_block_def getHeightFromTime_def time_Sub_def i32_def)
qed

lemma head_height:
  assumes "stored_path E view n c" and "sorted_wrt (>) (map sn_height (node_path n))"
  shows "sn_height n \<ge> 0"
proof -
  have "n = last (node_path n) \<or> sn_height n > sn_height (last (node_path n))"
  proof (cases "sn_parent n")
    case (Some p)
    have "last (node_path p) \<in> set (node_path p)" by (rule last_in_set) simp
    then show ?thesis using assms(2) Some by (simp add: node_path_Cons [of n])
  qed (simp add: node_path_Cons [of n])
  then show ?thesis using root_height [OF assms(1)] by auto
qed

lemma check_stored_cong:
  assumes "sq_metaResponseIndex d' = sq_metaResponseIndex d" and "sq_metaAckIndex d' = sq_metaAckIndex d" and "sq_txDB d' = sq_txDB d"
  shows "check_stored E d' = check_stored E d"
  unfolding check_stored_def assms ..

lemma load_chain_stored:
  assumes "kv_contract (se_ldb E) ok view" and "kv_reads (se_ldb E) ok view" and "ok (sq_blkDB c)" and "built n" and "stored_path E view n c"
    and "sorted_wrt (>) (map sn_height (node_path n))"
    and "sq_blkDB d = sq_blkDB c" and "fixed d = fixed c" and "sq_bi d = []" and "sq_cache d = []"
    and "check_stored E d = Ok ()"
  shows "\<exists>d'. load_chain E cfg d = Ok d' \<and> sq_head d' = head_at n \<and> sq_blkDB d' = sq_blkDB c \<and>
    rn_chainInitTime (sq_rt d') = rn_chainInitTime (sq_rt c) \<and> rn_genesisHash (sq_rt d') = rn_genesisHash (sq_rt c)"
proof -
  have meta: "sq_metaBlockIndex d = sq_metaBlockIndex c" "rn_period (sq_rt d) = rn_period (sq_rt c)" using assms(8) by (simp_all add: fixed_def)
  obtain kvs where r: "ldb_Range (se_ldb E) (sq_metaBlockIndex c) (sq_blkDB c) = (kvs, None)"
    using assms(2,3) by (metis kv_reads_def prod.collapse)
  have "sn_height (last (node_path n)) \<ge> 0" using root_height [OF assms(5)] by simp
  then have "list_all2 (\<lambda>kv a. \<exists>b. dec_block E (snd kv) = Some b \<and> linked_block (se_db E) (sq_rt c) a b) kvs (rev (node_path n))"
    by (intro stored_kvs [OF assms(1,3,5) _ _ r] path_keys_sorted [OF assms(4,6)]) simp_all
  from load_path [OF assms(4) meta(2) assms(9) this] obtain bi i g where
    l: "load_sblocks E kvs None 0 d = Ok ((set_rt (setGenesis g) d) \<lparr> sq_bi := bi \<rparr>, Some n, i)"
    "sblock_Timestamp g = rn_chainInitTime (sq_rt c)" "sblock_BlockHash g = rn_genesisHash (sq_rt c)" by blast
  let ?d = "((set_rt (setGenesis g) d) \<lparr> sq_bi := bi \<rparr>) \<lparr> sq_rt := (sq_rt ((set_rt (setGenesis g) d) \<lparr> sq_bi := bi \<rparr>)) \<lparr> rn_head := head_at n \<rparr>,
      sq_st := SetSeq i (sq_st d) \<rparr>"
  have "n \<in> set (node_path n)" by (simp add: node_path_Cons [of n])
  then have "stored E view c n" using assms(5) unfolding stored_path_def by blast
  from fetch_stored [OF assms(2,3) this] obtain b where "fetchBlockByIndexKey E (sn_indexKey n) c = Ok b" by blast
  then have "fetchBlockByIndexKey E (sn_indexKey n) ?d = Ok b"
    using assms(7) meta(1) by (simp add: fetchBlockByIndexKey_def set_rt_def)
  then have "updateMetrics E ?d = Ok ()"
    using head_height [OF assms(5,6)] assms(10)
    by (cases n) (simp add: updateMetrics_def set_rt_def head_at_def sql_FetchBlock_def sn_ancestor_def)
  moreover have "check_stored E ?d = Ok ()" using assms(11) check_stored_cong [of ?d d E] by (simp add: set_rt_def)
  ultimately have "load_chain E cfg d = Ok ?d"
    using l(1) r assms(7) meta(1) by (simp add: load_chain_def Let_def head_at_def set_rt_def)
  then show ?thesis using l(2,3) assms(7) by (simp add: set_rt_def setGenesis_def)
qed

text \<open>A chain that could be started once is started again from the stored blocks only.\<close>

lemma NewChain_again:
  assumes "sql_NewChain E cfg blkDB txDB = Ok c0"
  obtains d prefix where "databaseID_AccountAddress (sf_DatabaseID cfg) = Ok prefix"
    "sql_NewChain E cfg db tx = load_chain E cfg d" "sq_blkDB d = db" "sq_txDB d = tx" "sq_bi d = []" "sq_cache d = []"
    "fixed d = fixed c0" "sq_metaResponseIndex d = prefix @ metaResponseIndex" "sq_metaAckIndex d = prefix @ metaAckIndex"
  using assms
proof (rule sql_NewChain_Ok)
  fix strg pk addr prefix st
  assume p: "se_localKey E = Some pk" "databaseID_AccountAddress (sf_DatabaseID cfg) = Ok prefix"
    "NewState (se_xeno E) (sf_IsolationLevel cfg) (sf_Server cfg) strg = (st, Ok ())" "se_open E (sf_DataFile cfg) = Some strg"
    "PubKeyHash (THashH (de_tx (se_db E))) (Some (se_pub E pk)) = Ok addr"
  define d where "d = \<lparr> sq_bi = [], sq_ai = newAckIndex, sq_st = st, sq_rt = newRunTime (zero_time E) cfg,
       sq_cache = [], sq_blkDB = db, sq_txDB = tx, sq_databaseID = sf_DatabaseID cfg,
       sq_updatePeriod = sf_UpdatePeriod cfg, sq_pk = pk, sq_addr = addr,
       sq_metaBlockIndex = prefix @ metaBlockIndex, sq_metaResponseIndex = prefix @ metaResponseIndex,
       sq_metaAckIndex = prefix @ metaAckIndex, sq_cachedBlockCount = 0 \<rparr>"
  have "fixed d = fixed c0"
    using fixed_NewChain [OF assms p(2)]
    by (simp add: d_def fixed_def newRunTime_def setGenesis_def Let_def split: option.splits)
  moreover have "sql_NewChain E cfg db tx = load_chain E cfg d" using p by (simp add: sql_NewChain_def d_def)
  ultimately show thesis using that [of prefix d] p(2) by (simp add: d_def)
qed

text \<open>
  C14: A database chain starts again where it was. After any run of a chain that started with an
  empty store, if the heights of its blocks grow from block to block, a new chain with the same
  configuration and the same store of blocks starts successfully and has the same head (with
  all its ancestors), the same initial time and the same genesis hash. As hypotheses, LevelDB
  keeps its contract and its reads do not fail, encoded blocks decode to themselves, no two
  headers have the same hash, and the stored responses and acknowledgements can be read.
\<close>

theorem sql_chain_restarts:
  assumes "kv_contract (se_ldb E) ok view" and "kv_reads (se_ldb E) ok view" and "block_codec E" and "collision_free (se_db E)"
    and "ok blkDB"
    and "\<forall>prefix k. databaseID_AccountAddress (sf_DatabaseID cfg) = Ok prefix \<longrightarrow> view blkDB (prefix @ metaBlockIndex @ k) = None"
    and "sql_NewChain E cfg blkDB txDB = Ok c0" and "(sql_step E)\<^sup>*\<^sup>* c0 c"
    and "hs_node (sq_head c) = Some n" and "sorted_wrt (>) (map sn_height (node_path n))"
    and "queries_readable E cfg txDB'"
  shows "\<exists>c'. sql_NewChain E cfg (sq_blkDB c) txDB' = Ok c' \<and> sq_head c' = sq_head c \<and>
    rn_chainInitTime (sq_rt c') = rn_chainInitTime (sq_rt c) \<and> rn_genesisHash (sq_rt c') = rn_genesisHash (sq_rt c)"
proof -
  have ok: "sq_ok E ok view c"
    using sq_ok_steps [OF assms(1,3,4,8)] sq_ok_NewChain [OF assms(1,3,5,6,7)] by blast
  then have n: "ok (sq_blkDB c)" "built n" "sq_head c = head_at n" "stored_path E view n c"
    using assms(9) by (auto simp: sq_ok_def head_at_def)
  obtain d prefix where d: "databaseID_AccountAddress (sf_DatabaseID cfg) = Ok prefix"
    "sql_NewChain E cfg (sq_blkDB c) txDB' = load_chain E cfg d" "sq_blkDB d = sq_blkDB c" "sq_txDB d = txDB'" "sq_bi d = []" "sq_cache d = []"
    "fixed d = fixed c0" "sq_metaResponseIndex d = prefix @ metaResponseIndex" "sq_metaAckIndex d = prefix @ metaAckIndex"
    by (rule NewChain_again [OF assms(7), where db = "sq_blkDB c" and tx = txDB'])
  have f: "fixed d = fixed c" using d(7) fixed_steps [OF assms(8)] by simp
  have "check_stored E d = Ok ()"
    using assms(11) d(1,4,8,9)
    by (auto simp: queries_readable_def check_stored_def list_all_iff list_ex_iff split: prod.splits) fastforce+
  from load_chain_stored [OF assms(1,2) n(1,2,4) assms(10) d(3) f d(5,6) this, of cfg]
  show ?thesis using d(2) n(3) by auto
qed

text \<open>A hash of the chain belongs to one height.\<close>

lemma stored_hash_height:
  assumes "collision_free (se_db E)" and "stored E view c a" and "stored E view c a'" and "sn_hash a = sn_hash a'"
  shows "sn_height a = sn_height a'"
proof -
  obtain b b' where b: "linked_block (se_db E) (sq_rt c) a b" "linked_block (se_db E) (sq_rt c) a' b'"
    using assms(2,3) by (auto simp: stored_def)
  then have "sblock_header b = sblock_header b'"
    using collision_freeD [OF assms(1), of b b'] assms(4) by (simp add: linked_block_def)
  then show ?thesis using b by (simp add: linked_block_def)
qed

lemma swapped_keys_sorted:
  assumes "built n" and "sn_parent n = Some p" and "sn_parent p = Some q" and "sn_height n = sn_height p" and "sn_hash n < sn_hash p"
    and "sorted_wrt (>) (map sn_height (node_path p))" and "sn_height (last (node_path p)) \<ge> 0"
  shows "sorted_wrt (<) (map (\<lambda>a. meta @ sn_indexKey a) (rev (node_path q) @ [n, p]))"
proof -
  have path: "node_path n = n # node_path p" "node_path p = p # node_path q"
    using assms(2,3) by (simp_all add: node_path_Cons [of n] node_path_Cons [of p])
  have b: "built p" "built q" using built_path [OF assms(1)] path by (simp_all add: node_path_Cons [of q])
  have q: "sorted_wrt (>) (map sn_height (node_path q))" "sn_height (last (node_path q)) \<ge> 0" using assms(6,7) path(2) by simp_all
  have "meta @ sn_indexKey a < meta @ sn_indexKey x" if "a \<in> set (node_path q)" "x = n \<or> x = p" for a x
    using that assms(1,4,6) b path(2) path_heights [OF q] by (intro indexKey_less) auto
  moreover have "meta @ sn_indexKey n < meta @ sn_indexKey p" using assms(4,5) by (simp add: append_less_append sn_indexKey_def)
  ultimately show ?thesis using path_keys_sorted [OF b(2) q, of meta] by (auto simp: sorted_wrt_append)
qed

text \<open>
  Two blocks of one turn. The chain accepts any number of blocks with the height of the
  current turn. When the two topmost blocks have the same height and the upper one has the smaller
  hash, the block at that height that is given to other peers is the upper one only, and after a
  restart of the process the chain cannot be started any more: the upper block is read before
  its parent.
\<close>

theorem same_height_block_breaks_restart:
  assumes "kv_contract (se_ldb E) ok view" and "kv_reads (se_ldb E) ok view" and "block_codec E" and "collision_free (se_db E)"
    and "ok blkDB"
    and "\<forall>prefix k. databaseID_AccountAddress (sf_DatabaseID cfg) = Ok prefix \<longrightarrow> view blkDB (prefix @ metaBlockIndex @ k) = None"
    and "sql_NewChain E cfg blkDB txDB = Ok c0" and "(sql_step E)\<^sup>*\<^sup>* c0 c"
    and "hs_node (sq_head c) = Some n" and "sn_parent n = Some p" and "sn_parent p = Some q"
    and "sn_height n = sn_height p" and "sn_hash n < sn_hash p" and "sorted_wrt (>) (map sn_height (node_path p))"
  shows "(\<exists>b. sql_FetchBlock E (sn_height p) c = Ok (Some b) \<and> sblock_BlockHash b = sn_hash n) \<and>
    sql_NewChain E cfg (sq_blkDB c) txDB' = Err ErrChainParentNotFound"
proof -
  have ok: "sq_ok E ok view c"
    using sq_ok_steps [OF assms(1,3,4,8)] sq_ok_NewChain [OF assms(1,3,5,6,7)] by blast
  then have n: "ok (sq_blkDB c)" "built n" "sq_head c = head_at n" "stored_path E view n c"
    using assms(9) by (auto simp: sq_ok_def head_at_def)
  obtain d where d: "sql_NewChain E cfg (sq_blkDB c) txDB' = load_chain E cfg d" "sq_blkDB d = sq_blkDB c" "sq_bi d = []" "fixed d = fixed c0"
    by (rule NewChain_again [OF assms(7), where db = "sq_blkDB c" and tx = txDB']) blast
  have "fixed d = fixed c" using d(4) fixed_steps [OF assms(8)] by simp
  then have meta: "sq_metaBlockIndex d = sq_metaBlockIndex c" "rn_period (sq_rt d) = rn_period (sq_rt c)" by (simp_all add: fixed_def)
  obtain kvs where r: "ldb_Range (se_ldb E) (sq_metaBlockIndex c) (sq_blkDB c) = (kvs, None)"
    using assms(2) n(1) by (metis kv_reads_def prod.collapse)
  have path: "node_path n = n # p # node_path q" using assms(10,11) by (simp add: node_path_Cons [of n] node_path_Cons [of p])
  have above: "sn_height a < sn_height p" if "a \<in> set (node_path q)" for a
    using assms(11,14) that by (simp add: node_path_Cons [of p])
  have bq: "built q" using built_path [OF n(2)] path by (simp add: node_path_Cons [of q])
  have root: "sn_height (last (node_path p)) \<ge> 0" using root_height [OF n(4)] path assms(11) by (simp add: node_path_Cons [of p])
  have "list_all2 (\<lambda>kv a. \<exists>b. dec_block E (snd kv) = Some b \<and> linked_block (se_db E) (sq_rt c) a b) kvs (rev (node_path q) @ [n, p])"
    by (intro stored_kvs [OF assms(1) n(1,4) _ _ r] swapped_keys_sorted [OF n(2) assms(10-14) root]) (auto simp: path)
  then obtain xs kv kv' b where xs: "kvs = xs @ [kv, kv']" "dec_block E (snd kv) = Some b" "linked_block (se_db E) (sq_rt c) n b"
    "list_all2 (\<lambda>kv a. \<exists>b. dec_block E (snd kv) = Some b \<and> linked_block (se_db E) (sq_rt c) a b) xs (rev (node_path q))"
    by (auto simp: list_all2_append2 list_all2_Cons2)
  obtain bi i g where l: "load_sblocks E xs None 0 d = Ok ((set_rt (setGenesis g) d) \<lparr> sq_bi := bi \<rparr>, Some q, i)"
    "\<forall>h. mget bi h \<noteq> None \<longrightarrow> h \<in> sn_hash ` set (node_path q)"
    using load_path [OF bq meta(2) d(3) xs(4)] by blast
  have "sn_hash p \<notin> sn_hash ` set (node_path q)"
  proof
    assume "sn_hash p \<in> sn_hash ` set (node_path q)"
    then obtain a where a: "a \<in> set (node_path q)" "sn_hash p = sn_hash a" by blast
    have "stored E view c p" "stored E view c a" using n(4) path a(1) by (simp_all add: stored_path_def)
    from stored_hash_height [OF assms(4) this a(2)] above [OF a(1)] show False by simp
  qed
  moreover have "q \<in> set (node_path q)" by (simp add: node_path_Cons [of q])
  ultimately have hp: "sn_hash p \<noteq> sn_hash q" "mget bi (sn_hash p) = None" using l(2) by blast+
  obtain k v where kv: "kv = (k, v)" by fastforce
  have "sblock_ParentHash b = sn_hash p" using xs(3) assms(10) by (simp add: linked_block_def)
  then have "load_sblocks E kvs None 0 d = Err ErrChainParentNotFound"
    using l(1) xs(1,2) hp kv by (simp add: load_sblocks_append load_parent_def)
  then have "load_chain E cfg d = Err ErrChainParentNotFound" using r d(2) meta(1) by (simp add: load_chain_def)
  moreover have "sn_ancestor n (sn_height p) = Some n"
    using assms(12) path_heights [OF assms(14) root, of p] by (cases n) (simp add: sn_ancestor_def node_path_Cons [of p])
  moreover obtain b' where "fetchBlockByIndexKey E (sn_indexKey n) c = Ok b'" "linked_block (se_db E) (sq_rt c) n b'"
    using fetch_stored [OF assms(2) n(1), of n] n(4) path by (auto simp: stored_path_def)
  ultimately show ?thesis using d(1) assms(9) by (auto simp: sql_FetchBlock_def linked_block_def)
qed

section \<open>An example\<close>

text \<open>
  A database of two peers: the genesis block, then a block of the other peer in the first turn.
  Headers and blocks are encoded by a table.
\<close>

definition example_db_block :: "NodeID \<Rightarrow> hash \<Rightarrow> hash \<Rightarrow> hash \<Rightarrow> Time \<Rightarrow> Block" where
  "example_db_block producer genesis parent h t =
     \<lparr> sb_SignedHeader =
         \<lparr> sh_Header = \<lparr> hd_Version = 0x01000000, hd_Producer = producer, hd_GenesisHash = genesis, hd_ParentHash = parent,
             hd_MerkleRoot = zero_hash, hd_Timestamp = t \<rparr>,
           sh_HSV = \<lparr> hv_DataHash = h, hv_Signee = Some [9], hv_Signature = None \<rparr> \<rparr>,
       sb_FailedReqs = [], sb_QueryTxs = [], sb_Acks = [] \<rparr>"

definition example_db_blocks :: "Block list" where
  "example_db_blocks =
     [example_db_block (replicate 64 CHR ''0'') zero_hash zero_hash [1] 0, example_db_block ''peer-two'' [1] [1] [2] 10]"

definition example_db_tx :: tx_env where
  "example_db_tx =
     \<lparr> THashH = id, sigVerify = (\<lambda>_ _ _. True), marshal_Transfer = (\<lambda>_. None),
       marshal_CreateDatabase = (\<lambda>_. None), marshal_ProvideService = (\<lambda>_. None),
       marshal_UpdatePermission = (\<lambda>_. None), marshal_IssueKeys = (\<lambda>_. None), marshal_UpdateBilling = (\<lambda>_. None),
       marshal_Header = (\<lambda>h. map_option (\<lambda>b. sblock_BlockHash b) (find (\<lambda>b. sblock_header b = h) example_db_blocks)),
       encode_genesis_block = (\<lambda>_. None), float_overflow = 0, conf_QPS = 1,
       conf_BillingBlockCount = 1, conf_MinProviderDeposit = 10 \<rparr>"

definition example_db_env :: "(counter_db, (bytes \<times> bytes) list) sqlchain_env" where
  "example_db_env =
     \<lparr> se_db = \<lparr> de_tx = example_db_tx, marshal_RequestPayload = (\<lambda>_. None), marshal_RequestHeader = (\<lambda>_. None),
         marshal_ResponsePayload = (\<lambda>_. None), marshal_ResponseHeader = (\<lambda>_. None), marshal_AckHeader = (\<lambda>_. None) \<rparr>,
       se_xeno = counter_env, se_ldb = example_leveldb, se_sign = (\<lambda>k h. (Some \<lparr> sg_R = 0, sg_S = 0 \<rparr>, False)), se_pub = id,
       enc_block = (\<lambda>b. if b \<in> set example_db_blocks then Some (sblock_BlockHash b) else None),
       dec_block = (\<lambda>v. find (\<lambda>b. sblock_BlockHash b = v) example_db_blocks),
       enc_ack = (\<lambda>_. None), dec_ack = (\<lambda>_. None), dec_resp = (\<lambda>_. None), se_open = (\<lambda>_. Some (0, [], False)),
       se_localKey = Some [9], zero_time = 0, se_HSPDefaultVersion = 0 \<rparr>"

definition example_db_config :: sqlConfig where
  "example_db_config =
     \<lparr> sf_DatabaseID = replicate 64 CHR ''0'', sf_DataFile = '''', sf_Genesis = Some (example_db_blocks ! 0), sf_Period = 10, sf_Tick = 1,
       sf_Peers = \<lparr> ph_Version = 1, ph_Term = 1, ph_Leader = ''peer-one'', ph_Servers = [''peer-one'', ''peer-two''] \<rparr>,
       sf_Server = ''peer-one'', sf_QueryTTL = 10, sf_BlockCacheTTL = 10, sf_UpdatePeriod = 1, sf_LastBillingHeight = 0,
       sf_IsolationLevel = 1 \<rparr>"

lemma example_db_codec: "block_codec example_db_env"
  by (auto simp: block_codec_def example_db_env_def example_db_blocks_def example_db_block_def split: if_splits)

lemma example_db_hash: "collision_free (se_db example_db_env)"
  by (auto simp: collision_free_def example_db_env_def example_db_tx_def example_db_blocks_def example_db_block_def split: if_splits)

definition example_db_start :: "(counter_db, (bytes \<times> bytes) list) SqlChain" where
  "example_db_start = (case sql_NewChain example_db_env example_db_config [] [] of Ok c \<Rightarrow> c)"

definition example_db_run :: "(counter_db, (bytes \<times> bytes) list) SqlChain" where
  "example_db_run = fst (process_block example_db_env (example_db_blocks ! 1) (set_rt (SetNextTurn 2) example_db_start) [])"

lemma example_db_starts: "sql_NewChain example_db_env example_db_config [] [] = Ok example_db_start"
proof -
  have "is_Ok (sql_NewChain example_db_env example_db_config [] [])" by code_simp
  then show ?thesis unfolding example_db_start_def by (auto split: res.splits)
qed

lemma example_db_steps: "(sql_step example_db_env)\<^sup>*\<^sup>* example_db_start example_db_run"
proof -
  obtain stash r where "process_block example_db_env (example_db_blocks ! 1) (set_rt (SetNextTurn 2) example_db_start) [] =
      (example_db_run, stash, r)"
    unfolding example_db_run_def by (metis prod.collapse)
  then have "sql_step example_db_env (set_rt (SetNextTurn 2) example_db_start) example_db_run" by (rule sql_step.block)
  with sql_step.sync [of example_db_env example_db_start 2] show ?thesis by (meson rtranclp.simps)
qed

lemma example_db_empty:
  "\<forall>prefix k. databaseID_AccountAddress (sf_DatabaseID example_db_config) = Ok prefix \<longrightarrow> map_of [] (prefix @ metaBlockIndex @ k) = None"
  by simp

lemma example_db_head:
  obtains n where "hs_node (sq_head example_db_run) = Some n" "sn_count n = 1" "map sn_height (node_path n) = [1, 0]"
proof -
  have "case hs_node (sq_head example_db_run) of None \<Rightarrow> False | Some n \<Rightarrow> sn_count n = 1 \<and> map sn_height (node_path n) = [1, 0]"
    by code_simp
  then show ?thesis using that by (auto split: option.splits)
qed

lemma example_db_contract:
  "kv_contract (se_ldb example_db_env) kv_sorted map_of" "kv_reads (se_ldb example_db_env) kv_sorted map_of"
  using example_kv_contract example_kv_reads by (simp_all add: example_db_env_def)

theorem sql_chain_linked_witness:
  "\<exists>b p. sql_FetchBlockByCount example_db_env 1 example_db_run = Ok (Some b, 1, sq_height example_db_run (sblock_Timestamp b)) \<and>
     sblock_Verify (se_db example_db_env) b = Ok () \<and>
     sql_FetchBlockByCount example_db_env 0 example_db_run = Ok (Some p, 0, sq_height example_db_run (sblock_Timestamp p)) \<and>
     sblock_ParentHash b = sblock_BlockHash p"
proof -
  obtain n where n: "hs_node (sq_head example_db_run) = Some n" "sn_count n = 1" "map sn_height (node_path n) = [1, 0]"
    by (rule example_db_head)
  have "length (node_path n) = 2" using n(3) by (metis length_Cons length_map list.size(3) numeral_2_eq_2)
  then show ?thesis
    using sql_chain_linked [OF example_db_contract example_db_codec example_db_hash _ example_db_empty example_db_starts example_db_steps n(1), of 1]
      n(2) by auto
qed

theorem sql_chain_restarts_witness:
  "\<exists>c'. sql_NewChain example_db_env example_db_config (sq_blkDB example_db_run) [] = Ok c' \<and> sq_head c' = sq_head example_db_run \<and>
     map_option sn_count (hs_node (sq_head c')) = Some 1"
proof -
  obtain n where n: "hs_node (sq_head example_db_run) = Some n" "sn_count n = 1" "map sn_height (node_path n) = [1, 0]"
    by (rule example_db_head)
  have "queries_readable example_db_env example_db_config []"
    by (simp add: queries_readable_def example_db_env_def example_leveldb_def)
  then obtain c' where "sql_NewChain example_db_env example_db_config (sq_blkDB example_db_run) [] = Ok c'"
      "sq_head c' = sq_head example_db_run"
    using sql_chain_restarts [OF example_db_contract example_db_codec example_db_hash _ example_db_empty example_db_starts example_db_steps n(1)]
    unfolding n(3) by auto
  then show ?thesis using n(1,2) by auto
qed

end
