(* ===== verification/SQL_Turns.thy ===== *)
theory SQL_Turns
  imports SQL_Safety
begin

text \<open>
  Turns of a database chain: what the header of a produced block says, and that the block that a
  peer produces in its turn is accepted by the others in the same turn and brings them the data
  of its producer.
\<close>

section \<open>A produced block\<close>

text \<open>Times that are not far off: within \<open>2^62\<close> nanoseconds after the initial time.\<close>

definition clock_ok :: "sqlRuntime \<Rightarrow> Time \<Rightarrow> bool" where
  "clock_ok r now \<longleftrightarrow>
     0 < rn_period r \<and> 0 < rn_tick r \<and> rn_tick r < 2 ^ 62 \<and> 0 \<le> rn_nextTurn r \<and> rn_nextTurn r < 2 ^ 31 - 1 \<and>
     rn_nextTurn r * rn_period r < 2 ^ 62 \<and> rn_chainInitTime r \<le> now \<and> now < rn_chainInitTime r + 2 ^ 62"

lemma i64_id: "- (2 ^ 63) \<le> x \<Longrightarrow> x < 2 ^ 63 \<Longrightarrow> i64 x = x"
  by (simp add: i64_def sint_sbintrunc' signed_take_bit_int_eq_self)

lemma now_in_turn:
  assumes "clock_ok r now" and "nextTick clock r = (now, d)" and "d \<le> 0" and "i64 (i64 (- d) + rn_tick r) \<le> rn_period r"
  shows "getHeightFromTime r now = rn_nextTurn r"
proof -
  let ?T = "rn_nextTurn r" and ?p = "rn_period r" and ?e = "now - rn_chainInitTime r - rn_nextTurn r * rn_period r"
  have c: "0 < ?p" "0 < rn_tick r" "rn_tick r < 2 ^ 62" "0 \<le> ?T" "?T < 2 ^ 31 - 1" "?T * ?p < 2 ^ 62"
    "rn_chainInitTime r \<le> now" "now < rn_chainInitTime r + 2 ^ 62"
    using assms(1) by (simp_all add: clock_ok_def)
  have Tp: "0 \<le> ?T * ?p" using c(1,4) by simp
  then have "i64 (?T * ?p) = ?T * ?p" using c(6) by (intro i64_id) auto
  then have "d = - ?e"
    using assms(2,3) c(2,6-8) Tp by (auto simp: nextTick_def Let_def time_Sub_def split: if_splits)
  then have e: "0 \<le> ?e" "?e < 2 ^ 62" using assms(3) c(8) Tp by simp_all
  have "i64 (- d) = ?e" using e \<open>d = - ?e\<close> by (simp add: i64_id)
  moreover have "i64 (?e + rn_tick r) = ?e + rn_tick r" using e c(2,3) by (intro i64_id) auto
  ultimately have lt: "?e < ?p" using assms(4) c(2) by simp
  have "(now - rn_chainInitTime r) div ?p = ?T"
    using e(1) lt by (intro int_div_pos_eq [where r = ?e]) (simp_all add: mult.commute)
  moreover have "time_Sub now (rn_chainInitTime r) = now - rn_chainInitTime r" using c(7,8) by (simp add: time_Sub_def)
  ultimately show ?thesis
    using c sdiv_nonneg [of "now - rn_chainInitTime r" ?p] by (simp add: getHeightFromTime_def i32_id)
qed

text \<open>What the header of a produced block says.\<close>

lemma produced_header:
  assumes "sql_produceBlock E now c = Some (c', Ok (Some b))"
    and "\<And>h. \<exists>sig. se_sign E (sq_pk c) h = (Some sig, False) \<and>
      sigVerify (de_tx (se_db E)) (Some sig) h (Some (se_pub E (sq_pk c)))"
    and "\<And>h. marshal_Header (de_tx (se_db E)) h \<noteq> None" and "length (sblock_hashes b) \<le> 2 ^ 62"
  shows "sblock_Verify (se_db E) b = Ok () \<and> sblock_Producer b = rn_server (sq_rt c) \<and> sblock_Timestamp b = now \<and>
    sblock_ParentHash b = hs_Head (sq_head c) \<and> sblock_GenesisHash b = rn_genesisHash (sq_rt c)"
proof -
  obtain blk qts where pb: "produce_begin E now c = (c', Ok (Some (blk, qts)))" "produce_end E blk qts c' = Some (Ok b)"
    using assms(1) by (auto simp: sql_produceBlock_def split: prod.splits res.splits option.splits)
  have blk: "sblock_Producer blk = rn_server (sq_rt c)" "sblock_Timestamp blk = now" "sblock_ParentHash blk = hs_Head (sq_head c)"
    "sblock_GenesisHash blk = rn_genesisHash (sq_rt c)" "sq_pk c' = sq_pk c"
    using pb(1) by (auto simp: produce_begin_def Let_def split: prod.splits res.splits if_splits)
  obtain txs where p: "sblock_PackAndSignBlock (se_db E) (se_sign E) (se_pub E) (sq_pk c) (blk \<lparr> sb_QueryTxs := txs \<rparr>) = Ok b"
    using pb(2) blk(5) by (auto simp: produce_end_def Let_def split: if_splits)
  then have "sblock_hashes b = sblock_hashes (blk \<lparr> sb_QueryTxs := txs \<rparr>)"
    by (auto simp: sblock_PackAndSignBlock_def sblock_hashes_def split: res.splits prod.splits)
  then have l: "length (sblock_hashes (blk \<lparr> sb_QueryTxs := txs \<rparr>)) \<le> 2 ^ 62" using assms(4) by simp
  obtain s where "b = (blk \<lparr> sb_QueryTxs := txs \<rparr>) \<lparr> sb_SignedHeader := s \<rparr>" "sblock_Verify (se_db E) b = Ok ()"
    "sh_Header s = (sblock_header blk) \<lparr> hd_MerkleRoot := merkle_root (THashH (de_tx (se_db E))) (sblock_hashes (blk \<lparr> sb_QueryTxs := txs \<rparr>)) \<rparr>"
    using sblock_pack_verify [where sign = "se_sign E" and pub = "se_pub E" and k = "sq_pk c", OF assms(2,3) l] p by auto
  then show ?thesis using blk by simp
qed

lemma turn_produces:
  assumes "runCurrentTurn E now d c = Some (c', Ok (Some b, h))"
  shows "h = rn_nextTurn (sq_rt c) \<and> sql_isMyTurn (sq_rt c) \<and> i64 (i64 (- d) + rn_tick (sq_rt c)) \<le> rn_period (sq_rt c) \<and>
    (\<exists>c''. sql_produceBlock E now c = Some (c'', Ok (Some b)))"
  using assms by (auto simp: runCurrentTurn_def Let_def split: if_splits option.splits res.splits prod.splits)

section \<open>From the leader to the other peers\<close>

text \<open>Setting the responses of executed queries changes nothing else.\<close>

abbreviation answer :: "(tracker_ref \<times> Response) list \<Rightarrow> 'db State \<Rightarrow> 'db State" where
  "answer \<equiv> fold (\<lambda>(q, resp). UpdateResp q resp)"

lemma answered:
  "\<exists>ts. answer ups s = s \<lparr> st_trackers := ts \<rparr> \<and> (\<forall>i. qt_Req (ts ! i) = qt_Req (st_trackers s ! i))"
proof (induction ups arbitrary: s)
  case Nil
  then show ?case by (intro exI [of _ "st_trackers s"]) simp
next
  case (Cons u us)
  obtain q resp where u: "u = (q, resp)" by fastforce
  let ?t = "UpdateResp q resp s"
  have req: "qt_Req (st_trackers ?t ! i) = qt_Req (st_trackers s ! i)" for i
    by (cases "q < length (st_trackers s)") (auto simp: UpdateResp_def nth_list_update list_update_beyond)
  have upd: "?t \<lparr> st_trackers := y \<rparr> = s \<lparr> st_trackers := y \<rparr>" for y by (simp add: UpdateResp_def)
  obtain ts where "answer us ?t = ?t \<lparr> st_trackers := ts \<rparr>" "\<forall>i. qt_Req (ts ! i) = qt_Req (st_trackers ?t ! i)"
    using Cons.IH [of ?t] by blast
  then show ?case using u req upd [of ts] by (intro exI [of _ ts]) simp
qed

lemma flush_trackers:
  "flushHandler X s = (u, r) \<Longrightarrow> flushHandler X (s \<lparr> st_trackers := ts \<rparr>) = (u \<lparr> st_trackers := ts \<rparr>, r)"
  by (auto simp: flushHandler_def commitHandler_def openHandler_def split: option.splits if_splits)

lemma CommitEx_trackers:
  "CommitEx X s = (u, r) \<Longrightarrow> CommitEx X (s \<lparr> st_trackers := ts \<rparr>) = (u \<lparr> st_trackers := ts \<rparr>, r)"
  by (cases "flushHandler X s")
    (auto simp: CommitEx_def flush_trackers split: res.splits)

lemma CommitEx_keeps: "CommitEx X s = (u, r) \<Longrightarrow> st_trackers u = st_trackers s"
  by (auto simp: CommitEx_def flushHandler_def commitHandler_def openHandler_def split: option.splits if_splits prod.splits res.splits)

lemma produced_queries:
  assumes "sql_produceBlock E now c = Some (c', Ok (Some b))" and "CommitEx (se_xeno E) (sq_st c) = (s, Ok (failed, refs))"
  shows "map qx_Request (sb_QueryTxs b) = map (\<lambda>q. qt_Req (st_trackers s ! q)) refs \<and> sq_st c' = s"
proof -
  obtain blk qts where pb: "produce_begin E now c = (c', Ok (Some (blk, qts)))" "produce_end E blk qts c' = Some (Ok b)"
    using assms(1) by (auto simp: sql_produceBlock_def split: prod.splits res.splits option.splits)
  have st: "qts = refs" "sq_st c' = s"
    using pb(1) assms(2) by (auto simp: produce_begin_def Let_def split: prod.splits if_splits)
  have "sb_QueryTxs b = map (\<lambda>t. \<lparr> qx_Request = qt_Req t, qx_Response = resp_Header (the (qt_Resp t)) \<rparr>) (map (\<lambda>q. st_trackers s ! q) refs)"
    using pb(2) st by (auto simp: produce_end_def Let_def sblock_PackAndSignBlock_def split: if_splits res.splits prod.splits)
  then show ?thesis using st by (simp add: comp_def)
qed

text \<open>A runtime whose fields agree with its list of peers, and one that is at the end of the same turn.\<close>

definition peers_ok :: "sqlRuntime \<Rightarrow> bool" where
  "peers_ok r \<longleftrightarrow>
     rn_total r = i32 (int (length (ph_Servers (rn_peers r)))) \<and>
     (\<exists>i. peers_Find (rn_peers r) (rn_server r) = Some i \<and> rn_index r = i32 (int i))"

definition turn_ended :: "sqlRuntime \<Rightarrow> sqlRuntime \<Rightarrow> bool" where
  "turn_ended r r' \<longleftrightarrow>
     rn_peers r' = rn_peers r \<and> rn_chainInitTime r' = rn_chainInitTime r \<and> rn_period r' = rn_period r \<and>
     hs_Head (rn_head r') = hs_Head (rn_head r) \<and> rn_nextTurn r' = rn_nextTurn r + 1 \<and> rn_server r' \<noteq> rn_server r"

lemma next_producer_turn:
  assumes "peers_ok r" and "turn_ended r r'" and "sql_isMyTurn r" and "0 \<le> rn_nextTurn r" and "rn_nextTurn r < 2 ^ 31 - 1"
  shows "\<exists>i. peers_Find (rn_peers r') (rn_server r) = Some i \<and> i32 (int i) = next_producer r'"
  using assms by (auto simp: peers_ok_def turn_ended_def sql_isMyTurn_def next_producer_def Let_def i32_id split: if_splits)

lemma push_st: "sql_pushBlock E b c = (c', r) \<Longrightarrow> sq_st c' = sq_st c"
proof -
  have st: "sq_st (fold f xs c) = sq_st c" if "\<And>x c. sq_st (f x c) = sq_st c" for f :: "'x \<Rightarrow> ('a, 'b) SqlChain \<Rightarrow> ('a, 'b) SqlChain" and xs c
    using that by (induction xs arbitrary: c) simp_all
  have "sq_st (fst (AddResponse v c)) = sq_st c" "sq_st (fst (sql_remove a c)) = sq_st c" for v a and c :: "('a, 'b) SqlChain"
    by (simp_all add: AddResponse_def sql_remove_def split: prod.splits)
  then show "sql_pushBlock E b c = (c', r) \<Longrightarrow> sq_st c' = sq_st c"
    by (auto simp: sql_pushBlock_def Let_def st split: option.splits prod.splits res.splits)
qed

text \<open>A block can be encoded and the store takes it; the message about it needs eight characters of the id.\<close>

definition can_store :: "('db, 'l) sqlchain_env \<Rightarrow> Block \<Rightarrow> ('db, 'l) SqlChain \<Rightarrow> bool" where
  "can_store E b c \<longleftrightarrow>
     enc_block E b \<noteq> None \<and> (\<forall>k v. snd (ldb_Put (se_ldb E) k v (sq_blkDB c)) = None) \<and> length (sblock_Producer b) \<ge> 8"

lemma push_succeeds:
  assumes "can_store E b c"
  shows "\<exists>c'. sql_pushBlock E b c = (c', Ok ()) \<and> sq_head c' = head_at (push_node b c) \<and> sq_st c' = sq_st c"
proof -
  obtain c' r where p: "sql_pushBlock E b c = (c', r)" by fastforce
  then show ?thesis
  proof (cases rule: sql_pushBlock_cases)
    case (fault v db e)
    then show ?thesis using assms by (metis can_store_def option.distinct(1) snd_conv)
  next
    case (pushed v db)
    then show ?thesis using assms p push_st [OF p] by (auto simp: can_store_def core_def)
  qed (use assms in \<open>simp add: can_store_def\<close>)
qed

lemma end_turn_st [simp]: "sq_st (end_turn c) = sq_st c"
  by (auto simp: end_turn_def pruneBlockCache_def set_rt_def Let_def split: option.splits prod.splits)

lemma turn_state:
  "runCurrentTurn E now d c = Some (c', Ok (Some b, h)) \<Longrightarrow> sql_produceBlock E now c = Some (c'', Ok (Some b)) \<Longrightarrow> sq_st c' = sq_st c''"
  by (auto simp: runCurrentTurn_def Let_def split: if_splits)

text \<open>A block of the current turn by the peer whose turn it is, when its queries replay.\<close>

lemma process_accepts:
  assumes "sblock_Verify (se_db E) b = Ok ()" and "sblock_ParentHash b = hs_Head (sq_head f)" and "sblock_BlockHash b \<noteq> hs_Head (sq_head f)"
    and "sq_height f (sblock_Timestamp b) = i32 (rn_nextTurn (sq_rt f) - 1)" and "sblock_Producer b \<noteq> rn_server (sq_rt f)"
    and "peers_Find (rn_peers (sq_rt f)) (sblock_Producer b) = Some i" and "i32 (int i) = next_producer (sq_rt f)"
    and "ReplayBlockWithContext (se_xeno E) b (sq_st f) = (t, Ok ())" and "can_store E b f"
  shows "\<exists>f'. process_block E b f stash = (f', stash, Ok ()) \<and> sq_head f' = head_at (push_node b f) \<and> sq_st f' = t"
proof -
  have "can_store E b (f \<lparr> sq_st := t \<rparr>)" using assms(9) by (simp add: can_store_def)
  from push_succeeds [OF this] show ?thesis
    using assms(1-8) by (auto simp: process_block_def CheckAndPushNewBlock_def Let_def)
qed

text \<open>
  C8: From a request to all replicas. The leader of a database executes write requests, of
  which only single statements fail, the responses are recorded with the offsets at which the
  requests were executed, and in its turn it produces a block. A peer that had the same data
  before the requests and has ended the same turn with the same head and list of peers accepts
  the block: its head is then the new block, at the height of the turn, and its database has the
  data and the sequence number of the leader. As hypotheses, the SQL engine keeps its contract
  and the statements are deterministic, do not control transactions and have no effect when they
  fail, the key of the leader signs, headers can be hashed, the times are within \<open>2^62\<close>
  nanoseconds of the initial time, the hash of the block is not that of the head, and the store
  of the peer takes the block.
\<close>

theorem produced_block_replicates:
  assumes "sql_contract (se_xeno E) plain content stack intx"
    and "\<forall>p \<in> set reqs. plain_request (se_xeno E) plain (snd p) \<and> rq_QueryType (request_header (snd p)) = WriteQuery"
    and "settled stack intx s" and "st_pool s = newPool" and "settled stack intx (sq_st f)" and "pool_range (st_pool (sq_st f))"
    and "agree content s (sq_st f)"
    and "leader_run (se_xeno E) reqs s = (s', txs, fs)" and "\<forall>r \<in> set fs. length (req_Queries r) \<le> 1"
    and "sq_st c = answer ups s'"
    and "nextTick clock (sq_rt c) = (now, d)" and "d \<le> 0" and "clock_ok (sq_rt c) now" and "peers_ok (sq_rt c)"
    and "runCurrentTurn E now d c = Some (c', Ok (Some b, h))" and "map tx_offset (sb_QueryTxs b) = map tx_offset txs"
    and "\<And>x. \<exists>sig. se_sign E (sq_pk c) x = (Some sig, False) \<and>
      sigVerify (de_tx (se_db E)) (Some sig) x (Some (se_pub E (sq_pk c)))"
    and "\<And>x. marshal_Header (de_tx (se_db E)) x \<noteq> None" and "length (sblock_hashes b) \<le> 2 ^ 62"
    and "turn_ended (sq_rt c) (sq_rt f)" and "sblock_BlockHash b \<noteq> hs_Head (sq_head f)" and "can_store E b f"
  shows "h = rn_nextTurn (sq_rt c) \<and>
    (\<exists>f'. process_block E b f stash = (f', stash, Ok ()) \<and>
       sq_head f' = head_at (newBlockNodeEx h (sblock_BlockHash b) (hs_node (sq_head f))) \<and> agree content (sq_st c') (sq_st f'))"
proof -
  obtain c'' where t: "h = rn_nextTurn (sq_rt c)" "sql_isMyTurn (sq_rt c)"
    "i64 (i64 (- d) + rn_tick (sq_rt c)) \<le> rn_period (sq_rt c)" "sql_produceBlock E now c = Some (c'', Ok (Some b))"
    using turn_produces [OF assms(15)] by blast
  note hd = produced_header [OF t(4) assms(17-19)]
  obtain ts where ts: "sq_st c = s' \<lparr> st_trackers := ts \<rparr>" "\<forall>i. qt_Req (ts ! i) = qt_Req (st_trackers s' ! i)"
    using answered [of ups s'] assms(10) by auto
  note follows = leader_block_replays [OF assms(1-9)]
  obtain u failed refs where u: "CommitEx (se_xeno E) s' = (u, Ok (failed, refs))"
    "map (\<lambda>i. qt_Req (st_trackers u ! i)) refs = map qx_Request txs"
    using follows [of "b \<lparr> sb_QueryTxs := txs \<rparr>" txs "[]"] by auto
  have "CommitEx (se_xeno E) (sq_st c) = (u \<lparr> st_trackers := ts \<rparr>, Ok (failed, refs))" using CommitEx_trackers [OF u(1)] ts(1) by simp
  from produced_queries [OF t(4) this]
  have q: "map qx_Request (sb_QueryTxs b) = map (\<lambda>i. qt_Req (ts ! i)) refs" "sq_st c'' = u \<lparr> st_trackers := ts \<rparr>" by simp_all
  then have "map qx_Request (sb_QueryTxs b) = map qx_Request txs" using u(2) ts(2) CommitEx_keeps [OF u(1)] by simp
  with follows [of b "sb_QueryTxs b" "[]"] assms(16) u(1) obtain g where
    g: "ReplayBlockWithContext (se_xeno E) b (sq_st f) = (g, Ok ())" "agree content u g" by auto
  have r: "rn_peers (sq_rt f) = rn_peers (sq_rt c)" "hs_Head (sq_head f) = hs_Head (sq_head c)" "rn_server (sq_rt f) \<noteq> rn_server (sq_rt c)"
    "rn_nextTurn (sq_rt f) = h + 1" "\<And>x. sq_height f x = sq_height c x"
    using assms(20) t(1) by (auto simp: turn_ended_def getHeightFromTime_def)
  have h: "0 \<le> h" "h < 2 ^ 31 - 1" "sq_height f now = h"
    using assms(13) t(1) r(5) now_in_turn [OF assms(13,11,12) t(3)] by (simp_all add: clock_ok_def)
  obtain i where i: "peers_Find (rn_peers (sq_rt f)) (sblock_Producer b) = Some i" "i32 (int i) = next_producer (sq_rt f)"
    using next_producer_turn [OF assms(14,20) t(2)] h(1,2) t(1) hd by auto
  have "sq_height f (sblock_Timestamp b) = i32 (rn_nextTurn (sq_rt f) - 1)" using hd h r(4) by (simp add: i32_id)
  from process_accepts [OF _ _ assms(21) this _ i g(1) assms(22), of stash] obtain f' where
    "process_block E b f stash = (f', stash, Ok ())" "sq_head f' = head_at (push_node b f)" "sq_st f' = g"
    using hd r(2,3) by auto
  then show ?thesis using t(1) h(3) hd g(2) q(2) turn_state [OF assms(15) t(4)] by (auto simp: agree_def)
qed

section \<open>An example\<close>

text \<open>
  Two peers after the genesis block: the first one executes two requests, one of which fails, and
  produces a block in the second turn.
\<close>

definition example_turn_env :: "(counter_db, (bytes \<times> bytes) list) sqlchain_env" where
  "example_turn_env = example_db_env
     \<lparr> se_db := (se_db example_db_env) \<lparr> de_tx := example_db_tx \<lparr> marshal_Header := (\<lambda>_. Some []) \<rparr> \<rparr>,
       enc_block := (\<lambda>_. Some []) \<rparr>"

abbreviation example_answers :: "QueryAsTx list \<Rightarrow> (tracker_ref \<times> Response) list" where
  "example_answers \<equiv> map (\<lambda>v. (0, \<lparr> resp_Header = qx_Response v, resp_Payload = \<lparr> rp_Columns = [], rp_DeclTypes = [], rp_Rows = [] \<rparr> \<rparr>))"

definition example_led :: "counter_db State \<times> QueryAsTx list \<times> Request list" where
  "example_led = leader_run counter_env example_reqs (example_state 1)"

definition example_leader :: "(counter_db, (bytes \<times> bytes) list) SqlChain" where
  "example_leader = (set_rt (SetNextTurn 2) example_db_start)
     \<lparr> sq_st := (case example_led of (s, txs, fs) \<Rightarrow> answer (example_answers txs) s) \<rparr>"

definition example_follower :: "(counter_db, (bytes \<times> bytes) list) SqlChain" where
  "example_follower = (set_rt (\<lambda>r. r \<lparr> rn_nextTurn := 3, rn_server := ''peer-two'', rn_index := 1 \<rparr>) example_db_start)
     \<lparr> sq_st := example_state 0 \<rparr>"

lemma example_turn_run:
  "case runCurrentTurn example_turn_env 20 0 example_leader of
     Some (c, Ok (Some b, h)) \<Rightarrow> h = 2 \<and> length (sblock_hashes b) = 2 \<and> sblock_BlockHash b = [] \<and> sblock_Producer b = ''peer-one'' \<and>
       map tx_offset (sb_QueryTxs b) = map tx_offset (fst (snd example_led))
   | _ \<Rightarrow> False"
  by code_simp

lemma turn_caseD:
  "(case x of Some (c, Ok (Some b, h)) \<Rightarrow> P c b h | _ \<Rightarrow> False) \<Longrightarrow> \<exists>c b h. x = Some (c, Ok (Some b, h)) \<and> P c b h"
  by (auto split: option.splits prod.splits res.splits)

lemma example_leader_rt:
  "nextTick 20 (sq_rt example_leader) = (20, 0)" "clock_ok (sq_rt example_leader) 20" "peers_ok (sq_rt example_leader)"
  "turn_ended (sq_rt example_leader) (sq_rt example_follower)" "hs_Head (sq_head example_follower) = [1]"
proof -
  show "nextTick 20 (sq_rt example_leader) = (20, 0)" "clock_ok (sq_rt example_leader) 20"
    "turn_ended (sq_rt example_leader) (sq_rt example_follower)" "hs_Head (sq_head example_follower) = [1]"
    by code_simp+
  have "rn_total (sq_rt example_leader) = i32 (int (length (ph_Servers (rn_peers (sq_rt example_leader)))))"
    "peers_Find (rn_peers (sq_rt example_leader)) (rn_server (sq_rt example_leader)) = Some 0" "rn_index (sq_rt example_leader) = i32 (int 0)"
    by code_simp+
  then show "peers_ok (sq_rt example_leader)" unfolding peers_ok_def by blast
qed

theorem produced_block_replicates_witness:
  "\<exists>c' b f'. runCurrentTurn example_turn_env 20 0 example_leader = Some (c', Ok (Some b, 2)) \<and> length (sblock_hashes b) = 2 \<and>
     process_block example_turn_env b example_follower [] = (f', [], Ok ()) \<and> hs_Head (sq_head f') = sblock_BlockHash b \<and>
     agree fst (sq_st c') (sq_st f')"
proof -
  obtain s' txs fs where r: "example_led = (s', txs, fs)" by (rule prod_cases3)
  have "list_all (\<lambda>r. length (req_Queries r) \<le> 1) (snd (snd example_led))" by code_simp
  then have fs: "\<forall>r \<in> set fs. length (req_Queries r) \<le> 1" by (simp add: r list_all_iff)
  have reqs: "\<forall>p \<in> set example_reqs. plain_request counter_env counter_plain (snd p) \<and> rq_QueryType (request_header (snd p)) = WriteQuery"
    using example_plain by (simp add: example_request_def)
  have st: "st_pool (example_state 1) = newPool" "agree fst (example_state 1) (example_state 0)" "pool_range (st_pool (example_state 0))"
    by (simp_all add: example_state_def NewState_def openHandler_def counter_env_def LevelReadUncommitted_def agree_def pool_range_def newPool_def)
  obtain c' b where run: "runCurrentTurn example_turn_env 20 0 example_leader = Some (c', Ok (Some b, 2))"
      and b: "length (sblock_hashes b) = 2" "sblock_BlockHash b = []" "sblock_Producer b = ''peer-one''" "map tx_offset (sb_QueryTxs b) = map tx_offset txs"
    using turn_caseD [OF example_turn_run [unfolded r fst_conv snd_conv]] by blast
  have E: "se_xeno example_turn_env = counter_env" "\<And>x. marshal_Header (de_tx (se_db example_turn_env)) x \<noteq> None"
      "\<And>k x. \<exists>sig. se_sign example_turn_env k x = (Some sig, False) \<and>
        sigVerify (de_tx (se_db example_turn_env)) (Some sig) x (Some (se_pub example_turn_env k))"
      "can_store example_turn_env b example_follower"
    using b(3) by (simp_all add: example_turn_env_def example_db_env_def example_db_tx_def can_store_def example_leveldb_def)
  have c: "sq_st example_leader = answer (example_answers txs) s'" "sq_st example_follower = example_state 0"
    by (simp_all add: example_leader_def example_follower_def r)
  have "length (sblock_hashes b) \<le> 2 ^ 62" "sblock_BlockHash b \<noteq> hs_Head (sq_head example_follower)"
    using b(1,2) example_leader_rt(5) by simp_all
  from produced_block_replicates [where E = example_turn_env, unfolded E(1), OF counter_contract reqs example_settled(1) st(1) _ _ _ r [unfolded example_led_def] fs c(1)
      example_leader_rt(1) _ example_leader_rt(2,3) run b(4) E(3) E(2) this(1) example_leader_rt(4) this(2) E(4), unfolded c(2), OF example_settled(2) st(3,2)]
  obtain f' where f: "process_block example_turn_env b example_follower [] = (f', [], Ok ())" "agree fst (sq_st c') (sq_st f')"
      "sq_head f' = head_at (newBlockNodeEx 2 (sblock_BlockHash b) (hs_node (sq_head example_follower)))"
    by auto
  then have "hs_Head (sq_head f') = sblock_BlockHash b" by (simp add: head_at_def)
  then show ?thesis using run b(1) f(1,2) by blast
qed

end
