(* ===== verification/Spec2Isabelle.thy ===== *)
theory Spec2Isabelle
  imports Merkle Meta_Billing Chain_Turns Kayak_Recovery Ring SQL_Turns
begin

text \<open>
  Verification of SQLess, a database service on a block chain.

  \<^bold>\<open>The program.\<close> The block producers keep the main chain: accounts with token
  balances, the databases (each with its users, their permissions and its miners) and
  the providers that offer to host databases. Clients and miners send signed
  transactions; a producer in turn packs waiting transactions into a block, signs it
  and sends it to the others, which replay the block on a branch of their own tree of
  blocks. A block that is deep enough below the head of the best branch is
  irreversible: its transactions are applied to the immutable state and both go to an
  SQLite file, from which a producer starts again. Each database runs on a few miners,
  one of which leads the others: it orders the queries and replicates them by kayak, a
  two-phase protocol with a write-ahead log. The miners of a database also keep a chain of
  its own: in its turn a miner packs the executed queries, with their responses and the
  acknowledgements of the clients, into a block, the others replay the block on their copy
  of the data, and from time to time the costs go as a transaction to the main chain. Nodes are found on a consistent hashing ring
  over a store of public keys; an id of a node carries a proof of work.

  \<^bold>\<open>Theories.\<close> All sources are under \<open>src/\<close>.

  \<^item> \<open>Prelude\<close>: machine words, byte strings, \<open>res\<close> for Go's three ways to leave a
    function (a value, an error, a panic), Go maps as association lists behind the
    locale \<open>go_map\<close>, big-endian encoding.
  \<^item> \<open>Hash_Proto\<close>: \<open>crypto/hash/hash.go\<close>, \<open>proto/\<close>, \<open>crypto/address.go\<close>: textual and binary
    forms of hashes, node ids and database ids, difficulty, order of keys.
  \<^item> \<open>Merkle\<close>: \<open>merkle/merkletrie.go\<close>: the array of hashes the code fills, and its root
    as a recursive function.
  \<^item> \<open>Verifier\<close>: \<open>utils/bignum.go\<close>, \<open>crypto/asymmetric/\<close>, \<open>crypto/verifier/\<close>: padded
    integers, the cache in front of the signature check, hash-sign-verify.
  \<^item> \<open>Accounts\<close>: \<open>types/account.go\<close>, \<open>types/token.go\<close>: tokens, roles and permissions,
    query patterns, profiles of accounts, databases and providers.
  \<^item> \<open>Transactions\<close>: \<open>blockproducer/interfaces/\<close> and the transaction types of
    \<open>types/\<close>.
  \<^item> \<open>Float64\<close>: the IEEE double arithmetic of the billing code on rationals.
  \<^item> \<open>Meta_State\<close>, \<open>Meta_Apply\<close>: \<open>blockproducer/metaindex.go\<close> and \<open>metastate.go\<close>: a
    readonly and a dirty index, the operations on them (the locale \<open>overlay\<close> is their
    contract, interpreted for accounts, databases and providers), and every
    transaction. The record \<open>metaState\<close> is the Go struct; an operation is a function
    from a state to a state and a \<open>res\<close>, so that what a failed operation leaves in the
    state is visible.
  \<^item> \<open>Meta_Properties\<close>, \<open>Meta_Billing\<close>, \<open>Meta_Match\<close>: what the transactions do:
    well-formedness, replay protection, permissions, billing and arrears, selection of
    miners. The locale \<open>account_pred\<close> proves once that an operation keeps a predicate on
    accounts, and is interpreted for well-formedness and for nonces.
  \<^item> \<open>BP_Block\<close>, \<open>Block_Node\<close>, \<open>Branch\<close>: \<open>types/bp_block.go\<close>, \<open>blockproducer/blocknode.go\<close>,
    \<open>branch.go\<close>: blocks, the tree of nodes (a node holds its parent), branches with
    packed and waiting transactions, applying and producing a block.
  \<^item> \<open>BP_Storage\<close>: \<open>blockproducer/storage.go\<close> and \<open>metaState.compileChanges\<close>: tables as lists
    of rows, the procedures of one storage transaction, loading. The locale \<open>table_rows\<close>
    relates a table with a primary key to a map.
  \<^item> \<open>BP_Chain\<close>: \<open>blockproducer/chain.go\<close>, \<open>chain_io.go\<close>, \<open>bpinfo.go\<close>, \<open>config.go\<close>: the record
    \<open>Chain\<close>, starting, receiving transactions and blocks, switching branches, producing,
    turns and the queries.
  \<^item> \<open>Chain_Safety\<close>: the invariant of the chain, by rule induction over the steps
    (a transaction arrives, a block arrives, a turn of the main cycle), and the movement
    of the irreversible block. \<open>Chain_Turns\<close>: whose turn it is, the period a block
    belongs to, catching up with the clock, rejected blocks and transactions.
  \<^item> \<open>Nodes\<close>, \<open>Key_Store\<close>, \<open>Ring\<close>: \<open>pow/cpuminer/\<close>, \<open>proto/nodeinfo.go\<close>,
    \<open>crypto/kms/\<close> (the public and the local key store), \<open>consistent/\<close>: the 256-bit counter and
    the search for a nonce, node records and roles, the key store over its SQL statements,
    the ring with its sorted keys. Adding a node moves names to that node only; the walk
    for neighbours returns when it does not start at the first position.
  \<^item> \<open>Kayak_Wal\<close>: \<open>kayak/wal/\<close>: both write-ahead logs. The locale \<open>log_store\<close> is their
    contract, interpreted for the log in memory and the one in LevelDB.
  \<^item> \<open>Kayak\<close>: \<open>kayak/\<close>: the record \<open>Runtime\<close> and one definition per method of the leader and
    the followers. A goroutine that waits on a channel is a value of \<open>awaited\<close>: what it
    waits for and what it does next. \<open>Kayak_System\<close>: a leader and followers as a step
    relation, in which calls, messages, replies, commit turns and failures interleave,
    and its invariants for every log that satisfies \<open>kayak_store\<close>. \<open>Kayak_Replication\<close>:
    all replicas execute the same commits in the same order, and a commit has been
    prepared by a quorum. \<open>Kayak_Recovery\<close>: a leader that restarts from its log is where it
    was, over the locale \<open>kayak_replay\<close>. A commit is one step, with its log entry and the
    execution of its request; a restart is not a step of the system.
  \<^item> \<open>DB_Types\<close>: \<open>types/request_type.go\<close>, \<open>response_type.go\<close>, \<open>ack_type.go\<close>, \<open>block.go\<close>: the
    messages and blocks of a database with their hashes and signatures.
  \<^item> \<open>Query_Sanitizer\<close>, \<open>Xeno_State\<close>: \<open>xenomint/\<close>: the check of a query, the pool of
    executed queries, and the record \<open>State\<close> with reading, writing, replaying and committing.
    Query trackers are shared pointers in the code and references into a store here.
    \<open>Xeno_Replay\<close>: for an SQL engine that satisfies \<open>sql_contract\<close>, a replica that replays a
    block has the data of the leader, and what failed requests leave behind.
  \<^item> \<open>Ack_Index\<close>, \<open>SQL_Runtime\<close>, \<open>SQL_Chain\<close>: \<open>sqlchain/ackindex.go\<close>, \<open>blockindex.go\<close>,
    \<open>runtime.go\<close>, \<open>chain.go\<close>, and the call that fetches a block of \<open>rpc.go\<close> and \<open>mux.go\<close>: the
    record \<open>SqlChain\<close>, starting from the stored blocks, checking, pushing and producing
    blocks, turns, acknowledgements and billing. \<open>SQL_Safety\<close>: over every sequence of steps
    the blocks from the head to the genesis block are stored, verified and linked, and a
    chain that starts again has the same head. \<open>SQL_Turns\<close>: the block a miner produces in its
    turn is accepted by the others and brings them its data.

  \<^bold>\<open>Parameters.\<close> Hash functions, signatures, the msgpack encodings and the SQLite
  engine are not part of the sources, nor are LevelDB and the SQL parser. They are fields of the
  environments \<open>tx_env\<close>, \<open>bp_env\<close>, \<open>codec\<close>, \<open>chain_env\<close>, \<open>kms_env\<close>, \<open>ring_env\<close>, \<open>leveldb\<close>,
  \<open>db_env\<close>, \<open>xeno_env\<close> and \<open>sqlchain_env\<close>, arguments of the definitions; a property that needs
  more of them (a signature that was made verifies, a value that was encoded decodes to
  itself) says so as a hypothesis and has a witness with concrete functions. What the code
  relies on of a library is a predicate: \<open>kv_contract\<close> and \<open>kv_reads\<close> for LevelDB,
  \<open>kms_contract\<close> for the key store, \<open>sql_contract\<close> for the engine. The statements that
  \<open>plain_request\<close> admits are deterministic and do not control transactions; the sanitizer
  of the code does not guarantee this.

  \<^bold>\<open>Bounds.\<close> Words have the width of the code: heights and counts 32 bits, tokens and
  nonces 64 bits, and the arithmetic wraps. Lemmas about counts assume \<open>room\<close>, that the
  head is less than \<open>2^32 - 1\<close> blocks high. Times and durations are integers in
  nanoseconds; \<open>time_Sub\<close> saturates as Go does. Reading the clock is a list of
  readings; the inner loop of \<open>syncHeads\<close> is a partial function, and
  \<open>syncHeads_catches_up\<close> says when it returns; so are the search for a nonce and the walks
  over the ring, where \<open>None\<close> is a call that never returns. A storage transaction takes a \<open>db_fault\<close>
  that says whether it fails and where. The \<open>int32\<close> heights and turns of a database chain are
  integers that wrap by \<open>i32\<close>; the durations of the main chain's \<open>nextTick\<close> and
  \<open>advanceNextHeight\<close> are not wrapped, apart from what \<open>time_Sub\<close> does.

  \<^bold>\<open>Simplifications.\<close> A signature has both its numbers, so a nil one inside a signature
  cannot be written. The account of a base account transaction is copied into the state,
  where the code keeps the pointer. The acknowledgements of all heights up to one are a
  recursion over the list of these heights, which for the largest \<open>int32\<close> ends where the
  loop of the code does not. The result of the nonce search is the value that is sent; its
  receiver is taken to be ready.

  \<^bold>\<open>Concurrency.\<close> The chain's methods hold its mutex; each is one step here, and the
  order of the steps is arbitrary. Goroutines that only wait for the network are not
  modelled.

  \<^bold>\<open>Not modelled.\<close> Remote calls and gossip (\<open>blockproducer/rpc.go\<close>, \<open>chain_gossip.go\<close>,
  \<open>rpc/\<close>): network input and output; in kayak a call is a step that delivers a message,
  loses it or loses its reply. The encrypted key files. The LRU cache of decoded blocks: a node keeps its
  block. In \<open>syncHeads\<close> the fetching of missed blocks that \<open>StartupSyncHoles\<close> turns on. The
  goroutines and channels of a database chain, and its \<open>sync\<close> at start. The miner's
  database management (\<open>worker/\<close>), the client driver, the transport and the command line.
  Logging and metrics.
\<close>

end
